(* ===== verification/KeyedStore.thy ===== *)
theory KeyedStore
  imports Prelude
begin

text \<open>
  The contract several MoonHub components share: a store with a lookup, an insert-or-replace and
  a delete, and an invariant the operations keep. The zone manager's resource table, the friend
  table, the paired-device table, the LAN endpoint table and the LAN session table are providers;
  each interprets the locale in its own theory and inherits the lemmas below about whole
  histories of writes.
\<close>

section \<open>Histories of writes\<close>

datatype ('k, 'v) map_write = Put 'k 'v | Del 'k

primrec write_key :: "('k, 'v) map_write \<Rightarrow> 'k" where
  "write_key (Put k v) = k"
| "write_key (Del k) = k"

primrec write_value :: "('k, 'v) map_write \<Rightarrow> 'v option" where
  "write_value (Put k v) = Some v"
| "write_value (Del k) = None"

text \<open>What a history of writes leaves at a key that held \<open>d\<close> before.\<close>

fun last_write :: "('k, 'v) map_write list \<Rightarrow> 'k \<Rightarrow> 'v option \<Rightarrow> 'v option" where
  "last_write [] k d = d"
| "last_write (w # ws) k d = last_write ws k (if write_key w = k then write_value w else d)"

lemma last_write_append: "last_write (us @ ws) k d = last_write ws k (last_write us k d)"
  by (induction us arbitrary: d) auto

lemma last_write_untouched: "k \<notin> write_key ` set ws \<Longrightarrow> last_write ws k d = d"
  by (induction ws arbitrary: d) auto

lemma last_write_final:
  "write_key w = k \<Longrightarrow> k \<notin> write_key ` set ws \<Longrightarrow> last_write (us @ w # ws) k d = write_value w"
  by (simp add: last_write_append last_write_untouched)

section \<open>The interface\<close>

locale keyed_store =
  fixes get :: "'s \<Rightarrow> 'k \<Rightarrow> 'v option"
    and put :: "'k \<Rightarrow> 'v \<Rightarrow> 's \<Rightarrow> 's"
    and del :: "'k \<Rightarrow> 's \<Rightarrow> 's"
    and inv :: "'s \<Rightarrow> bool"
    and ok :: "'k \<Rightarrow> 'v \<Rightarrow> bool"
  assumes get_put: "inv s \<Longrightarrow> ok k v \<Longrightarrow> get (put k v s) k' = (if k' = k then Some v else get s k')"
    and get_del: "inv s \<Longrightarrow> get (del k s) k' = (if k' = k then None else get s k')"
    and inv_put: "inv s \<Longrightarrow> ok k v \<Longrightarrow> inv (put k v s)"
    and inv_del: "inv s \<Longrightarrow> inv (del k s)"
begin

primrec apply_write :: "('k, 'v) map_write \<Rightarrow> 's \<Rightarrow> 's" where
  "apply_write (Put k v) s = put k v s"
| "apply_write (Del k) s = del k s"

primrec ok_write :: "('k, 'v) map_write \<Rightarrow> bool" where
  "ok_write (Put k v) = ok k v"
| "ok_write (Del k) = True"

lemma inv_write: "inv s \<Longrightarrow> ok_write w \<Longrightarrow> inv (apply_write w s)"
  by (cases w) (auto intro: inv_put inv_del)

lemma get_write:
  "inv s \<Longrightarrow> ok_write w \<Longrightarrow>
     get (apply_write w s) k = (if write_key w = k then write_value w else get s k)"
  by (cases w) (auto simp: get_put get_del)

lemma inv_history: "inv s \<Longrightarrow> list_all ok_write ws \<Longrightarrow> inv (fold apply_write ws s)"
  by (induction ws arbitrary: s) (auto intro: inv_write)

lemma get_history:
  "inv s \<Longrightarrow> list_all ok_write ws \<Longrightarrow>
     get (fold apply_write ws s) k = last_write ws k (get s k)"
  by (induction ws arbitrary: s) (auto simp: inv_write get_write)

lemma history_frame:
  "inv s \<Longrightarrow> list_all ok_write ws \<Longrightarrow> k \<notin> write_key ` set ws \<Longrightarrow>
     get (fold apply_write ws s) k = get s k"
  by (simp add: get_history last_write_untouched)

lemma writes_commute:
  "inv s \<Longrightarrow> ok_write v \<Longrightarrow> ok_write w \<Longrightarrow> write_key v \<noteq> write_key w \<Longrightarrow>
     get (apply_write v (apply_write w s)) k = get (apply_write w (apply_write v s)) k"
  by (auto simp: get_write inv_write)

end

text \<open>A Go map is the basic provider.\<close>

interpretation go_map: keyed_store map_of AList.update AList.delete wf_map "\<lambda>k v. True"
  by unfold_locales auto

end
