(* ===== verification/Zones.thy ===== *)
theory Zones
  imports KeyedStore
begin

text \<open>
  Data zones: \<open>src/pkg/zones/zone.go\<close>. A zone, a relationship and an access level are Go
  integers with named constants; the constructors \<open>ZoneOther\<close>, \<open>RelationshipOther\<close> and
  \<open>AccessOther\<close> stand for every other integer, which the code sends to its \<open>default\<close>
  branches. The zone manager is the map from resource names to zones.
\<close>

section \<open>Zones, relationships, access levels\<close>

datatype zone = ZonePrivacy | ZoneShared | ZonePublic | ZoneOther int

datatype relationship = RelationshipNone | RelationshipFriend | RelationshipOwner
  | RelationshipOther int

datatype access_level = AccessRead | AccessWrite | AccessOther int

fun zone_string :: "zone \<Rightarrow> string" where
  "zone_string ZonePrivacy = ''privacy''"
| "zone_string ZoneShared = ''shared''"
| "zone_string ZonePublic = ''public''"
| "zone_string (ZoneOther _) = ''unknown''"

fun relationship_string :: "relationship \<Rightarrow> string" where
  "relationship_string RelationshipOwner = ''owner''"
| "relationship_string RelationshipFriend = ''friend''"
| "relationship_string RelationshipNone = ''none''"
| "relationship_string (RelationshipOther _) = ''unknown''"

fun access_string :: "access_level \<Rightarrow> string" where
  "access_string AccessRead = ''read''"
| "access_string AccessWrite = ''write''"
| "access_string (AccessOther _) = ''unknown''"

fun zone_allow :: "zone \<Rightarrow> relationship \<Rightarrow> access_level \<Rightarrow> bool" where
  "zone_allow ZonePrivacy rel acc = (rel = RelationshipOwner)"
| "zone_allow ZoneShared rel acc =
     (case rel of RelationshipOwner \<Rightarrow> True
      | RelationshipFriend \<Rightarrow> acc = AccessRead
      | _ \<Rightarrow> False)"
| "zone_allow ZonePublic rel acc = (acc = AccessRead \<or> rel = RelationshipOwner)"
| "zone_allow (ZoneOther _) rel acc = False"

section \<open>The zone manager\<close>

record zone_manager =
  zm_resources :: "(string, zone) gomap"

definition new_zone_manager :: zone_manager where
  "new_zone_manager = \<lparr>zm_resources = []\<rparr>"

definition set_resource_zone :: "string \<Rightarrow> zone \<Rightarrow> zone_manager \<Rightarrow> zone_manager" where
  "set_resource_zone r z zm = zm\<lparr>zm_resources := mput r z (zm_resources zm)\<rparr>"

definition get_resource_zone :: "zone_manager \<Rightarrow> string \<Rightarrow> zone" where
  "get_resource_zone zm r =
     (case mget (zm_resources zm) r of Some z \<Rightarrow> z | None \<Rightarrow> ZonePrivacy)"

definition check_access :: "zone_manager \<Rightarrow> string \<Rightarrow> relationship \<Rightarrow> access_level \<Rightarrow> bool" where
  "check_access zm r rel acc = (let z = get_resource_zone zm r in zone_allow z rel acc)"

definition list_resources :: "zone_manager \<Rightarrow> zone \<Rightarrow> string list" where
  "list_resources zm z = [res. (res, z') \<leftarrow> zm_resources zm, z' = z]"

section \<open>The access policy\<close>

text \<open>How much a zone exposes, and how much a relationship may see.\<close>

fun exposure :: "zone \<Rightarrow> nat" where
  "exposure (ZoneOther _) = 0"
| "exposure ZonePrivacy = 1"
| "exposure ZoneShared = 2"
| "exposure ZonePublic = 3"

fun trust :: "relationship \<Rightarrow> nat" where
  "trust RelationshipFriend = 1"
| "trust RelationshipOwner = 2"
| "trust _ = 0"

lemma zone_allow_owner: "exposure z > 0 \<Longrightarrow> zone_allow z RelationshipOwner acc"
  by (cases z) auto

lemma zone_allow_mono_zone:
  "zone_allow z rel acc \<Longrightarrow> exposure z \<le> exposure z' \<Longrightarrow> acc = AccessRead \<Longrightarrow> zone_allow z' rel acc"
  by (cases z; cases z'; cases rel) auto

lemma zone_allow_mono_trust:
  "zone_allow z rel acc \<Longrightarrow> trust rel \<le> trust rel' \<Longrightarrow> zone_allow z rel' acc"
  by (cases z; cases rel; cases rel') auto

lemma zone_allow_non_read:
  "zone_allow z rel acc \<Longrightarrow> acc \<noteq> AccessRead \<Longrightarrow> rel = RelationshipOwner"
  by (cases z; cases rel) auto

section \<open>The resource table as a keyed store\<close>

definition zm_inv :: "zone_manager \<Rightarrow> bool" where
  "zm_inv zm \<longleftrightarrow> wf_map (zm_resources zm)"

definition zm_lookup :: "zone_manager \<Rightarrow> string \<Rightarrow> zone option" where
  "zm_lookup zm r = mget (zm_resources zm) r"

definition zm_del :: "string \<Rightarrow> zone_manager \<Rightarrow> zone_manager" where
  "zm_del r zm = zm\<lparr>zm_resources := mdel r (zm_resources zm)\<rparr>"

interpretation zone_table: keyed_store zm_lookup set_resource_zone zm_del zm_inv "\<lambda>r z. True"
  by unfold_locales (auto simp: zm_lookup_def set_resource_zone_def zm_del_def zm_inv_def)

lemma zm_inv_new [simp]: "zm_inv new_zone_manager"
  by (simp add: zm_inv_def new_zone_manager_def)

lemma get_resource_zone_lookup:
  "get_resource_zone zm r = (case zm_lookup zm r of Some z \<Rightarrow> z | None \<Rightarrow> ZonePrivacy)"
  by (simp add: get_resource_zone_def zm_lookup_def)

lemma list_resources_set:
  "zm_inv zm \<Longrightarrow> set (list_resources zm z) = {r. zm_lookup zm r = Some z}"
  by (auto simp: list_resources_def zm_inv_def zm_lookup_def mget_in_set)

text \<open>A sequence of assignments, as the callers make them.\<close>

definition assign_zones :: "(string \<times> zone) list \<Rightarrow> zone_manager \<Rightarrow> zone_manager" where
  "assign_zones as zm = fold (\<lambda>(r, z). set_resource_zone r z) as zm"

lemma assign_zones_writes:
  "assign_zones as zm = fold zone_table.apply_write (map (\<lambda>(r, z). Put r z) as) zm"
  unfolding assign_zones_def by (induction as arbitrary: zm) auto

lemma last_write_puts:
  "last_write (map (\<lambda>(r, z). Put r z) as) k d =
     (case map_of (rev as) k of Some z \<Rightarrow> Some z | None \<Rightarrow> d)"
  by (induction as arbitrary: d) (auto simp: map_add_def split: option.split)

lemma zm_lookup_assign:
  "zm_inv zm \<Longrightarrow> zm_lookup (assign_zones as zm) r =
     (case map_of (rev as) r of Some z \<Rightarrow> Some z | None \<Rightarrow> zm_lookup zm r)"
  unfolding assign_zones_writes
  by (subst zone_table.get_history) (auto simp: list_all_iff last_write_puts)

section \<open>Properties\<close>

text \<open>
  C1: After any sequence of zone assignments on a fresh manager, a requester that is not the
  owner is granted access to a resource only for reading, and only when the last assignment of
  that resource made it public, or made it shared and the requester is a friend. A resource that
  was never assigned is closed to everybody but the owner.
\<close>

theorem zone_isolation:
  assumes "check_access (assign_zones as new_zone_manager) r rel acc"
    and "rel \<noteq> RelationshipOwner"
  shows "acc = AccessRead \<and>
    (map_of (rev as) r = Some ZonePublic \<or>
     map_of (rev as) r = Some ZoneShared \<and> rel = RelationshipFriend)"
proof -
  let ?zm = "assign_zones as new_zone_manager"
  have look: "zm_lookup ?zm r = map_of (rev as) r"
    using zm_lookup_assign [OF zm_inv_new, of as r]
    by (auto simp: zm_lookup_def new_zone_manager_def split: option.splits)
  from assms(1) have allow: "zone_allow (get_resource_zone ?zm r) rel acc"
    by (simp add: check_access_def)
  with assms(2) have "acc = AccessRead" by (metis zone_allow_non_read)
  moreover have "get_resource_zone ?zm r = ZonePublic \<or>
      get_resource_zone ?zm r = ZoneShared \<and> rel = RelationshipFriend"
    using allow assms(2) by (cases "get_resource_zone ?zm r"; cases rel) auto
  ultimately show ?thesis
    by (auto simp: get_resource_zone_lookup look split: option.splits)
qed

theorem zone_isolation_witness:
  "check_access (assign_zones [(''notes'', ZonePublic), (''notes'', ZoneShared)] new_zone_manager)
     ''notes'' RelationshipFriend AccessRead \<and>
   map_of (rev [(''notes'', ZonePublic), (''notes'', ZoneShared)]) ''notes'' = Some ZoneShared"
proof -
  have acc: "check_access (assign_zones [(''notes'', ZonePublic), (''notes'', ZoneShared)]
      new_zone_manager) ''notes'' RelationshipFriend AccessRead"
    by code_simp
  from zone_isolation [OF acc] acc show ?thesis by simp
qed

end
