(* ===== verification/Friends.thy ===== *)
theory Friends
  imports KeyedStore
begin

text \<open>
  Friend relationships: \<open>src/pkg/friends/store.go\<close> (the SQLite table) and
  \<open>src/pkg/friends/manager.go\<close> (the request life cycle). The table is the list of its rows in
  rowid order: \<open>INSERT OR REPLACE\<close> drops the row with the same primary key and appends the new
  one, \<open>UPDATE\<close> rewrites in place. Every database call may fail; the argument \<open>db\<close> says whether
  the n-th call of an operation is answered. Times are the Unix seconds the table stores.
\<close>

section \<open>The friend table\<close>

datatype friend_status = StatusAny | StatusPending | StatusAccepted | StatusRejected
  | StatusRevoked | StatusOther string

record friend =
  f_agent_id :: string
  f_agent_name :: string
  f_public_key :: "string option"
  f_status :: friend_status
  f_added_at :: "int option"
  f_updated_at :: int
  f_message :: string

datatype friend_error = DbError | ErrNotExist | ErrDuplicateRequest | RequestNotFound
  | RequestNotPending

type_synonym friend_table = "friend list"

definition find_row :: "friend_table \<Rightarrow> string \<Rightarrow> friend option" where
  "find_row t a = find (\<lambda>f. f_agent_id f = a) t"

definition replace_row :: "friend \<Rightarrow> friend_table \<Rightarrow> friend_table" where
  "replace_row f t = filter (\<lambda>g. f_agent_id g \<noteq> f_agent_id f) t @ [f]"

definition delete_row :: "string \<Rightarrow> friend_table \<Rightarrow> friend_table" where
  "delete_row a t = filter (\<lambda>g. f_agent_id g \<noteq> a) t"

definition add_friend :: "bool \<Rightarrow> int \<Rightarrow> friend \<Rightarrow> friend_table \<Rightarrow> friend_error option \<times> friend_table" where
  "add_friend db now f t =
     (let f1 = (if f_added_at f = None then f\<lparr>f_added_at := Some now\<rparr> else f);
          f2 = f1\<lparr>f_updated_at := now\<rparr>
      in if db then (None, replace_row f2 t) else (Some DbError, t))"

definition get_friend :: "bool \<Rightarrow> string \<Rightarrow> friend_table \<Rightarrow> friend option" where
  "get_friend db a t = (if db then find_row t a else None)"

definition remove_friend :: "bool \<Rightarrow> string \<Rightarrow> friend_table \<Rightarrow> friend_error option \<times> friend_table" where
  "remove_friend db a t =
     (if \<not> db then (Some DbError, t)
      else let t' = delete_row a t; n = length t - length t'
           in if n = 0 then (Some ErrNotExist, t') else (None, t'))"

definition list_friends :: "bool \<Rightarrow> friend_status \<Rightarrow> friend_table \<Rightarrow> friend list" where
  "list_friends db st t =
     (if \<not> db then []
      else sort_key (\<lambda>f. case f_added_at f of Some s \<Rightarrow> s | None \<Rightarrow> 0)
        (if st = StatusAny then t else filter (\<lambda>f. f_status f = st) t))"

definition set_status :: "int \<Rightarrow> string \<Rightarrow> friend_status \<Rightarrow> friend \<Rightarrow> friend" where
  "set_status now a st f =
     (if f_agent_id f = a then f\<lparr>f_status := st, f_updated_at := now\<rparr> else f)"

definition update_status ::
  "bool \<Rightarrow> int \<Rightarrow> string \<Rightarrow> friend_status \<Rightarrow> friend_table \<Rightarrow> friend_error option \<times> friend_table" where
  "update_status db now a st t =
     (if \<not> db then (Some DbError, t)
      else let n = length (filter (\<lambda>f. f_agent_id f = a) t)
           in if n = 0 then (Some ErrNotExist, t) else (None, map (set_status now a st) t))"

definition is_friend :: "bool \<Rightarrow> string \<Rightarrow> friend_table \<Rightarrow> bool" where
  "is_friend db a t =
     (case (if db then find_row t a else None) of
        None \<Rightarrow> False | Some f \<Rightarrow> f_status f = StatusAccepted)"

section \<open>The request life cycle\<close>

definition send_request ::
  "(nat \<Rightarrow> bool) \<Rightarrow> int \<Rightarrow> string \<Rightarrow> string \<Rightarrow> string option \<Rightarrow> string \<Rightarrow> friend_table
     \<Rightarrow> friend_error option \<times> friend_table" where
  "send_request db now a name key msg t =
     (case get_friend (db 0) a t of
        Some _ \<Rightarrow> (Some ErrDuplicateRequest, t)
      | None \<Rightarrow> add_friend (db 1) now
          \<lparr>f_agent_id = a, f_agent_name = name, f_public_key = key, f_status = StatusPending,
           f_added_at = None, f_updated_at = 0, f_message = msg\<rparr> t)"

definition accept_request ::
  "(nat \<Rightarrow> bool) \<Rightarrow> int \<Rightarrow> string \<Rightarrow> friend_table \<Rightarrow> (friend_error + friend option) \<times> friend_table" where
  "accept_request db now a t =
     (case get_friend (db 0) a t of
        None \<Rightarrow> (Inl RequestNotFound, t)
      | Some f \<Rightarrow>
          if f_status f \<noteq> StatusPending then (Inl RequestNotPending, t)
          else (case update_status (db 1) now a StatusAccepted t of
              (Some e, t') \<Rightarrow> (Inl e, t')
            | (None, t') \<Rightarrow> (Inr (get_friend (db 2) a t'), t')))"

definition reject_request ::
  "(nat \<Rightarrow> bool) \<Rightarrow> int \<Rightarrow> string \<Rightarrow> friend_table \<Rightarrow> (friend_error + friend option) \<times> friend_table" where
  "reject_request db now a t =
     (case get_friend (db 0) a t of
        None \<Rightarrow> (Inl RequestNotFound, t)
      | Some f \<Rightarrow>
          (case update_status (db 1) now a StatusRejected t of
              (Some e, t') \<Rightarrow> (Inl e, t')
            | (None, t') \<Rightarrow> (Inr (get_friend (db 2) a t'), t')))"

definition revoke_friend ::
  "(nat \<Rightarrow> bool) \<Rightarrow> string \<Rightarrow> friend_table \<Rightarrow> friend_error option \<times> friend_table" where
  "revoke_friend db a t = remove_friend (db 0) a t"

definition get_pending_requests :: "bool \<Rightarrow> friend_table \<Rightarrow> friend list" where
  "get_pending_requests db t = list_friends db StatusPending t"

definition list_accepted_friends :: "bool \<Rightarrow> friend_table \<Rightarrow> friend list" where
  "list_accepted_friends db t = list_friends db StatusAccepted t"

section \<open>Table invariant and row facts\<close>

definition table_ok :: "friend_table \<Rightarrow> bool" where
  "table_ok t \<longleftrightarrow> distinct (map f_agent_id t)"

lemma table_ok_Nil [simp]: "table_ok []"
  by (simp add: table_ok_def)

lemma find_row_Nil [simp]: "find_row [] a = None"
  by (simp add: find_row_def)

lemma find_row_id: "find_row t a = Some f \<Longrightarrow> f_agent_id f = a \<and> f \<in> set t"
  unfolding find_row_def by (induction t) (auto split: if_splits)

lemma find_row_None: "find_row t a = None \<longleftrightarrow> a \<notin> f_agent_id ` set t"
  unfolding find_row_def by (induction t) auto

lemma find_row_replace:
  "find_row (replace_row f t) a = (if a = f_agent_id f then Some f else find_row t a)"
  unfolding replace_row_def find_row_def by (induction t) auto

lemma find_row_delete: "find_row (delete_row b t) a = (if a = b then None else find_row t a)"
  unfolding delete_row_def find_row_def by (induction t) auto

lemma find_row_update:
  "find_row (map (set_status now b st) t) a =
     (if a = b then map_option (\<lambda>f. f\<lparr>f_status := st, f_updated_at := now\<rparr>) (find_row t a)
      else find_row t a)"
  unfolding find_row_def set_status_def by (induction t) auto

lemma table_ok_replace: "table_ok t \<Longrightarrow> table_ok (replace_row f t)"
  unfolding table_ok_def replace_row_def by (induction t) auto

lemma table_ok_delete: "table_ok t \<Longrightarrow> table_ok (delete_row a t)"
  unfolding table_ok_def delete_row_def by (induction t) auto

lemma table_ok_update: "table_ok t \<Longrightarrow> table_ok (map (set_status now b st) t)"
proof -
  have "f_agent_id (set_status now b st f) = f_agent_id f" for f
    by (simp add: set_status_def)
  then have "map f_agent_id (map (set_status now b st) t) = map f_agent_id t" by simp
  then show "table_ok t \<Longrightarrow> table_ok (map (set_status now b st) t)"
    by (simp only: table_ok_def)
qed

lemmas row_facts = find_row_replace find_row_delete find_row_update
lemmas table_ok_ops = table_ok_replace table_ok_delete table_ok_update

interpretation friend_rows: keyed_store find_row "\<lambda>a f. replace_row f" delete_row table_ok
  "\<lambda>a f. f_agent_id f = a"
  by unfold_locales (auto simp: row_facts intro: table_ok_ops)

lemma delete_row_absent: "length t - length (delete_row a t) = 0 \<longleftrightarrow> find_row t a = None"
proof -
  have "length (delete_row a t) < length t \<longleftrightarrow> a \<in> f_agent_id ` set t"
    unfolding delete_row_def using length_filter_less by (induction t) (auto simp: le_imp_less_Suc)
  then show ?thesis by (auto simp: find_row_None)
qed

lemma count_rows_zero: "length (filter (\<lambda>f. f_agent_id f = a) t) = 0 \<longleftrightarrow> find_row t a = None"
  unfolding find_row_def by (induction t) auto

section \<open>Runs of the manager\<close>

text \<open>
  One call of the manager with the clock and the answers of the database during it. The manager
  is the only writer of the table.
\<close>

datatype friend_op =
    SendRequest string string "string option" string
  | AcceptRequest string
  | RejectRequest string
  | RevokeFriend string

type_synonym friend_call = "(nat \<Rightarrow> bool) \<times> int \<times> friend_op"

fun friend_step :: "friend_call \<Rightarrow> friend_table \<Rightarrow> friend_table" where
  "friend_step (db, now, SendRequest a name key msg) t = snd (send_request db now a name key msg t)"
| "friend_step (db, now, AcceptRequest a) t = snd (accept_request db now a t)"
| "friend_step (db, now, RejectRequest a) t = snd (reject_request db now a t)"
| "friend_step (db, now, RevokeFriend a) t = snd (revoke_friend db a t)"

definition friend_run :: "friend_call list \<Rightarrow> friend_table" where
  "friend_run cs = fold friend_step cs []"

definition status_of :: "friend_table \<Rightarrow> string \<Rightarrow> friend_status option" where
  "status_of t a = map_option f_status (find_row t a)"

lemma is_friend_status: "is_friend True a t \<longleftrightarrow> status_of t a = Some StatusAccepted"
  by (auto simp: is_friend_def status_of_def split: option.split)

lemma status_of_Nil [simp]: "status_of [] a = None"
  by (simp add: status_of_def)

lemma status_send:
  "status_of (snd (send_request db now b name key msg t)) a =
     (if a = b \<and> (\<not> db 0 \<or> status_of t b = None) \<and> db 1 then Some StatusPending
      else status_of t a)"
  by (auto simp: send_request_def add_friend_def get_friend_def status_of_def row_facts Let_def
      split: option.split)

lemma status_accept:
  "status_of (snd (accept_request db now b t)) a =
     (if a = b \<and> db 0 \<and> db 1 \<and> status_of t b = Some StatusPending then Some StatusAccepted
      else status_of t a)"
  unfolding accept_request_def update_status_def get_friend_def status_of_def Let_def count_rows_zero
  by (auto simp: row_facts split: option.splits)

lemma status_reject:
  "status_of (snd (reject_request db now b t)) a =
     (if a = b \<and> db 0 \<and> db 1 \<and> status_of t b \<noteq> None then Some StatusRejected
      else status_of t a)"
  unfolding reject_request_def update_status_def get_friend_def status_of_def Let_def count_rows_zero
  by (auto simp: row_facts split: option.splits)

lemma status_revoke:
  "status_of (snd (revoke_friend db b t)) a = (if a = b \<and> db 0 then None else status_of t a)"
  by (auto simp: revoke_friend_def remove_friend_def status_of_def row_facts Let_def)

lemmas status_step = status_send status_accept status_reject status_revoke

lemma table_ok_step: "table_ok t \<Longrightarrow> table_ok (friend_step c t)"
  by (cases "(c, t)" rule: friend_step.cases)
    (auto simp: send_request_def accept_request_def reject_request_def revoke_friend_def
      add_friend_def update_status_def remove_friend_def Let_def
      intro: table_ok_ops split: option.split)

lemma friend_run_Nil [simp]: "friend_run [] = []"
  by (simp add: friend_run_def)

lemma friend_run_snoc: "friend_run (cs @ [c]) = friend_step c (friend_run cs)"
  by (simp add: friend_run_def)

lemma table_ok_run: "table_ok (friend_run cs)"
  by (induction cs rule: rev_induct) (simp_all add: friend_run_snoc table_ok_step)

text \<open>
  The part of a run that matters to one agent's standing: the call that accepted the agent and
  the calls after it.
\<close>

fun withdraws :: "string \<Rightarrow> friend_call \<Rightarrow> bool" where
  "withdraws a (db, now, RejectRequest b) = (a = b \<and> db 0 \<and> db 1)"
| "withdraws a (db, now, RevokeFriend b) = (a = b \<and> db 0)"
| "withdraws a _ = False"

definition granted :: "string \<Rightarrow> friend_call list \<Rightarrow> bool" where
  "granted a cs \<longleftrightarrow> (\<exists>us db now vs. cs = us @ (db, now, AcceptRequest a) # vs \<and>
     status_of (friend_run us) a = Some StatusPending \<and> db 0 \<and> db 1 \<and>
     list_all (\<lambda>c. \<not> withdraws a c) vs)"

lemma granted_snoc: "granted a cs \<Longrightarrow> \<not> withdraws a c \<Longrightarrow> granted a (cs @ [c])"
  unfolding granted_def by fastforce

lemma granted_new:
  "status_of (friend_run cs) a = Some StatusPending \<Longrightarrow> db 0 \<Longrightarrow> db 1 \<Longrightarrow>
     granted a (cs @ [(db, now, AcceptRequest a)])"
  unfolding granted_def by fastforce

lemma accepted_step:
  assumes "status_of (friend_step c t) a = Some StatusAccepted"
  shows "status_of t a = Some StatusAccepted \<and> \<not> withdraws a c \<or>
    (\<exists>db now. c = (db, now, AcceptRequest a) \<and> db 0 \<and> db 1 \<and> status_of t a = Some StatusPending)"
  using assms
  by (cases "(c, t)" rule: friend_step.cases) (auto simp: status_step split: if_splits)

section \<open>Properties\<close>

text \<open>
  C2: Trust is only ever granted by acceptance: in any run of the manager from an empty table,
  whatever the database answers, an agent that counts as a friend was accepted by a call made
  while its request was pending, and no call after that one rejected or revoked it.
\<close>

theorem friend_needs_acceptance:
  assumes "is_friend True a (friend_run cs)"
  shows "granted a cs"
  using assms
proof (induction cs rule: rev_induct)
  case Nil
  then show ?case by (simp add: is_friend_def)
next
  case (snoc c cs)
  from snoc.prems have "status_of (friend_step c (friend_run cs)) a = Some StatusAccepted"
    by (simp add: is_friend_status friend_run_snoc)
  from accepted_step [OF this] snoc.IH show ?case
    by (auto simp: is_friend_status intro: granted_snoc granted_new)
qed

theorem friend_needs_acceptance_witness:
  "granted ''bob'' [((\<lambda>_. True), 10, SendRequest ''bob'' ''Bob'' None ''hi''),
                    ((\<lambda>_. True), 20, AcceptRequest ''bob'')]"
  by (rule friend_needs_acceptance) code_simp

text \<open>
  A friend table never holds two rows for one agent, and a request is recorded at most once:
  as long as the agent has a row, of whatever status, and the table answers, another request
  from it is refused as a duplicate and changes nothing. A rejected agent therefore cannot ask
  again until its row is revoked.
\<close>

theorem request_recorded_once:
  assumes "status_of (friend_run cs) a \<noteq> None" and "db 0"
  shows "send_request db now a name key msg (friend_run cs) = (Some ErrDuplicateRequest, friend_run cs)
    \<and> length (filter (\<lambda>f. f_agent_id f = a) (friend_run cs)) = 1"
proof -
  have one: "length (filter (\<lambda>f. f_agent_id f = a) t) \<le> 1" if "table_ok t" for t
    using that by (induction t) (auto simp: table_ok_def filter_empty_conv image_iff)
  from assms(1) obtain f where f: "find_row (friend_run cs) a = Some f" by (auto simp: status_of_def)
  then have "length (filter (\<lambda>f. f_agent_id f = a) (friend_run cs)) \<noteq> 0"
    by (simp only: count_rows_zero) simp
  with one [OF table_ok_run, of cs] have "length (filter (\<lambda>f. f_agent_id f = a) (friend_run cs)) = 1"
    by linarith
  with f assms(2) show ?thesis by (simp add: send_request_def get_friend_def)
qed

theorem request_recorded_once_witness:
  "send_request (\<lambda>_. True) 30 ''eve'' ''Eve'' None '''' (friend_run
     [((\<lambda>_. True), 10, SendRequest ''eve'' ''Eve'' None ''hi''), ((\<lambda>_. True), 20, RejectRequest ''eve'')])
   = (Some ErrDuplicateRequest, friend_run
     [((\<lambda>_. True), 10, SendRequest ''eve'' ''Eve'' None ''hi''), ((\<lambda>_. True), 20, RejectRequest ''eve'')])"
  by (rule request_recorded_once [THEN conjunct1]) (code_simp, simp)

text \<open>
  Rejecting does not look at the status: an accepted friend that is rejected loses the
  friendship, and stays locked out, because its row now turns every new request into a
  duplicate. The comment above RejectRequest speaks of a pending request only.
\<close>

theorem reject_demotes_friend:
  assumes "is_friend True a t" and "db 0" and "db 1" and "db 2"
  shows "\<exists>f t'. reject_request db now a t = (Inr (Some f), t') \<and> f_status f = StatusRejected \<and>
    \<not> is_friend True a t' \<and>
    (\<forall>now' name key msg. fst (send_request db now' a name key msg t') = Some ErrDuplicateRequest)"
proof -
  from assms(1) obtain f where f: "find_row t a = Some f"
    by (auto simp: is_friend_def split: option.splits)
  then have some: "length (filter (\<lambda>f. f_agent_id f = a) t) \<noteq> 0" by (simp only: count_rows_zero) simp
  let ?t = "map (set_status now a StatusRejected) t"
  have "find_row ?t a = Some (f\<lparr>f_status := StatusRejected, f_updated_at := now\<rparr>)"
    using f by (simp add: row_facts)
  then show ?thesis using assms f some
    by (auto simp: reject_request_def update_status_def get_friend_def is_friend_def
        send_request_def Let_def simp del: length_0_conv)
qed

theorem reject_demotes_friend_witness:
  "\<exists>f t'. reject_request (\<lambda>_. True) 30 ''bob''
      (friend_run [((\<lambda>_. True), 10, SendRequest ''bob'' ''Bob'' None ''hi''),
                   ((\<lambda>_. True), 20, AcceptRequest ''bob'')]) = (Inr (Some f), t') \<and>
    f_status f = StatusRejected \<and> \<not> is_friend True ''bob'' t' \<and>
    (\<forall>now' name key msg. fst (send_request (\<lambda>_. True) now' ''bob'' name key msg t') = Some ErrDuplicateRequest)"
  by (rule reject_demotes_friend) (code_simp, simp_all)

end
