(* ===== verification/GoBase64.thy ===== *)
theory GoBase64
  imports Prelude
begin

text \<open>
  The two encodings of package \<open>encoding/base64\<close> and the one of \<open>encoding/hex\<close> the sources
  use: \<open>StdEncoding\<close> for envelope signatures (\<open>src/pkg/protocol/mhp/envelope.go\<close>),
  \<open>URLEncoding\<close>, \<open>RawURLEncoding\<close> and hex for access tokens (\<open>src/pkg/devices/token.go\<close>).
  Decoding drops carriage returns and newlines, as the library does, and does not insist on zero
  trailing bits.
\<close>

datatype alphabet = StdAlphabet | UrlAlphabet

fun b64_alphabet :: "alphabet \<Rightarrow> string" where
  "b64_alphabet StdAlphabet = ''ABCDEFGHIJKLMNOPQRSTUVWXYZabcdefghijklmnopqrstuvwxyz0123456789+/''"
| "b64_alphabet UrlAlphabet = ''ABCDEFGHIJKLMNOPQRSTUVWXYZabcdefghijklmnopqrstuvwxyz0123456789-_''"

definition b64_char :: "alphabet \<Rightarrow> nat \<Rightarrow> char" where
  "b64_char al n = b64_alphabet al ! n"

fun position :: "'a \<Rightarrow> 'a list \<Rightarrow> nat option" where
  "position x [] = None"
| "position x (y # ys) = (if x = y then Some 0 else map_option Suc (position x ys))"

definition b64_val :: "alphabet \<Rightarrow> char \<Rightarrow> nat option" where
  "b64_val al c = position c (b64_alphabet al)"

fun b64_enc :: "alphabet \<Rightarrow> string \<Rightarrow> string" where
  "b64_enc al [] = []"
| "b64_enc al [a] =
     (let x = of_char a in
      [b64_char al (x div 4), b64_char al (x mod 4 * 16), CHR ''='', CHR ''=''])"
| "b64_enc al [a, b] =
     (let x = of_char a; y = of_char b in
      [b64_char al (x div 4), b64_char al (x mod 4 * 16 + y div 16), b64_char al (y mod 16 * 4), CHR ''=''])"
| "b64_enc al (a # b # c # r) =
     (let x = of_char a; y = of_char b; z = of_char c in
      [b64_char al (x div 4), b64_char al (x mod 4 * 16 + y div 16),
       b64_char al (y mod 16 * 4 + z div 64), b64_char al (z mod 64)] @ b64_enc al r)"

definition b64_one :: "nat \<Rightarrow> nat \<Rightarrow> string" where
  "b64_one p q = [char_of (p * 4 + q div 16)]"

definition b64_two :: "nat \<Rightarrow> nat \<Rightarrow> nat \<Rightarrow> string" where
  "b64_two p q r = [char_of (p * 4 + q div 16), char_of (q mod 16 * 16 + r div 4)]"

definition b64_three :: "nat \<Rightarrow> nat \<Rightarrow> nat \<Rightarrow> nat \<Rightarrow> string" where
  "b64_three p q r s =
     [char_of (p * 4 + q div 16), char_of (q mod 16 * 16 + r div 4), char_of (r mod 4 * 64 + s)]"

fun b64_groups :: "alphabet \<Rightarrow> bool \<Rightarrow> string \<Rightarrow> string option" where
  "b64_groups al pad [] = Some []"
| "b64_groups al pad [p] = None"
| "b64_groups al pad [p, q] =
     (case (b64_val al p, b64_val al q) of
        (Some i, Some j) \<Rightarrow> if pad then None else Some (b64_one i j)
      | _ \<Rightarrow> None)"
| "b64_groups al pad [p, q, r] =
     (case (b64_val al p, b64_val al q, b64_val al r) of
        (Some i, Some j, Some k) \<Rightarrow> if pad then None else Some (b64_two i j k)
      | _ \<Rightarrow> None)"
| "b64_groups al pad (p # q # r # s # rest) =
     (case (b64_val al p, b64_val al q) of
        (Some i, Some j) \<Rightarrow>
          if pad \<and> rest = [] \<and> s = CHR ''='' \<and> r = CHR ''='' then Some (b64_one i j)
          else (case b64_val al r of
              None \<Rightarrow> None
            | Some k \<Rightarrow>
                if pad \<and> rest = [] \<and> s = CHR ''='' then Some (b64_two i j k)
                else (case (b64_val al s, b64_groups al pad rest) of
                    (Some l, Some bs) \<Rightarrow> Some (b64_three i j k l @ bs)
                  | _ \<Rightarrow> None))
      | _ \<Rightarrow> None)"

definition b64_dec :: "alphabet \<Rightarrow> bool \<Rightarrow> string \<Rightarrow> string option" where
  "b64_dec al pad s = b64_groups al pad (filter (\<lambda>c. c \<noteq> CHR 0x0A \<and> c \<noteq> CHR 0x0D) s)"

section \<open>Round trip\<close>

lemma b64_char_all:
  "list_all (\<lambda>n. b64_val al (b64_char al n) = Some n \<and>
     b64_char al n \<notin> {CHR ''='', CHR 0x0A, CHR 0x0D}) [0..<64]"
  by (cases al) (simp_all only:, code_simp+)

lemma b64_char_facts:
  assumes "n < 64"
  shows "b64_val al (b64_char al n) = Some n" and "b64_char al n \<noteq> CHR ''=''"
    and "b64_char al n \<noteq> CHR 0x0A" and "b64_char al n \<noteq> CHR 0x0D"
  using b64_char_all [of al] assms by (auto simp: list_all_iff)

lemma of_char_bound: "(of_char c :: nat) < 256"
  using nat_of_char_less_256 [of c] by simp

lemma b64_split:
  fixes x y z :: nat
  assumes "x < 256" and "y < 256" and "z < 256"
  shows "x div 4 < 64" and "x mod 4 * 16 + y div 16 < 64" and "x mod 4 * 16 < 64"
    and "y mod 16 * 4 + z div 64 < 64" and "y mod 16 * 4 < 64" and "z mod 64 < 64"
    and "x div 4 * 4 + (x mod 4 * 16 + y div 16) div 16 = x"
    and "x div 4 * 4 + (x mod 4 * 16) div 16 = x"
    and "(x mod 4 * 16 + y div 16) mod 16 * 16 + (y mod 16 * 4 + z div 64) div 4 = y"
    and "(x mod 4 * 16 + y div 16) mod 16 * 16 + (y mod 16 * 4) div 4 = y"
    and "(y mod 16 * 4 + z div 64) mod 4 * 64 + z mod 64 = z"
proof -
  have d: "y div 16 < 16" "z div 64 < 4" using assms by auto
  show "x div 4 < 64" "z mod 64 < 64" using assms by auto
  show "x mod 4 * 16 + y div 16 < 64" "x mod 4 * 16 < 64" using d by arith+
  show "y mod 16 * 4 + z div 64 < 64" "y mod 16 * 4 < 64" using d by arith+
  show "x div 4 * 4 + (x mod 4 * 16 + y div 16) div 16 = x" using d by simp
  show "x div 4 * 4 + (x mod 4 * 16) div 16 = x" by simp
  show "(x mod 4 * 16 + y div 16) mod 16 * 16 + (y mod 16 * 4 + z div 64) div 4 = y"
    using d by simp
  show "(x mod 4 * 16 + y div 16) mod 16 * 16 + (y mod 16 * 4) div 4 = y" using d by simp
  show "(y mod 16 * 4 + z div 64) mod 4 * 64 + z mod 64 = z" using d by simp
qed

lemma b64_group1:
  assumes "i < 64" and "j < 64"
  shows "b64_groups al True [b64_char al i, b64_char al j, CHR ''='', CHR ''=''] = Some (b64_one i j)"
  by (simp add: b64_char_facts assms)

lemma b64_group2:
  assumes "i < 64" and "j < 64" and "k < 64"
  shows "b64_groups al True [b64_char al i, b64_char al j, b64_char al k, CHR ''=''] = Some (b64_two i j k)"
  by (simp add: b64_char_facts assms)

lemma b64_group3:
  assumes "i < 64" and "j < 64" and "k < 64" and "l < 64"
  shows "b64_groups al True (b64_char al i # b64_char al j # b64_char al k # b64_char al l # rest) =
    map_option (\<lambda>bs. b64_three i j k l @ bs) (b64_groups al True rest)"
  by (simp add: b64_char_facts assms split: option.split)

lemma b64_join:
  fixes a b c :: char
  defines "x \<equiv> (of_char a :: nat)" and "y \<equiv> (of_char b :: nat)" and "z \<equiv> (of_char c :: nat)"
  shows "b64_one (x div 4) (x mod 4 * 16) = [a]"
    and "b64_two (x div 4) (x mod 4 * 16 + y div 16) (y mod 16 * 4) = [a, b]"
    and "b64_three (x div 4) (x mod 4 * 16 + y div 16) (y mod 16 * 4 + z div 64) (z mod 64) = [a, b, c]"
proof -
  have bounds: "x < 256" "y < 256" "z < 256" by (simp_all only: x_def y_def z_def of_char_bound)
  note sp = b64_split(7-11) [OF bounds]
  have ch: "char_of x = a" "char_of y = b" "char_of z = c" by (simp_all add: x_def y_def z_def)
  show "b64_one (x div 4) (x mod 4 * 16) = [a]" by (simp only: b64_one_def sp ch)
  show "b64_two (x div 4) (x mod 4 * 16 + y div 16) (y mod 16 * 4) = [a, b]"
    by (simp only: b64_two_def sp ch)
  show "b64_three (x div 4) (x mod 4 * 16 + y div 16) (y mod 16 * 4 + z div 64) (z mod 64) = [a, b, c]"
    by (simp only: b64_three_def sp ch)
qed

lemma b64_digits:
  fixes a b c :: char
  shows "(of_char a :: nat) div 4 < 64"
    and "(of_char a :: nat) mod 4 * 16 + of_char b div 16 < 64"
    and "(of_char a :: nat) mod 4 * 16 < 64"
    and "(of_char b :: nat) mod 16 * 4 + of_char c div 64 < 64"
    and "(of_char b :: nat) mod 16 * 4 < 64"
    and "(of_char c :: nat) mod 64 < 64"
  by (rule b64_split(1-6) [OF of_char_bound of_char_bound of_char_bound])+

lemmas b64_enc_open = b64_enc.simps Let_def append.simps

lemma b64_groups_enc: "b64_groups al True (b64_enc al s) = Some s"
proof (induction al s rule: b64_enc.induct)
  case (1 al)
  show ?case by simp
next
  case (2 al a)
  show ?case by (simp only: b64_enc_open b64_group1 b64_digits b64_join)
next
  case (3 al a b)
  show ?case by (simp only: b64_enc_open b64_group2 b64_digits b64_join)
next
  case (4 al a b c r)
  then show ?case
    by (simp only: b64_enc_open b64_group3 b64_digits b64_join option.map)
qed

definition b64_symbols :: "alphabet \<Rightarrow> char set" where
  "b64_symbols al = insert (CHR ''='') (b64_char al ` {..<64})"

lemma b64_symbolI: "n < 64 \<Longrightarrow> b64_char al n \<in> b64_symbols al" "CHR ''='' \<in> b64_symbols al"
  by (auto simp: b64_symbols_def)

lemma b64_enc_chars: "set (b64_enc al s) \<subseteq> b64_symbols al"
proof (induction al s rule: b64_enc.induct)
  case (1 al)
  show ?case by simp
next
  case (2 al a)
  show ?case
    by (simp only: b64_enc_open list.set insert_subset empty_subsetI b64_symbolI b64_digits simp_thms)
next
  case (3 al a b)
  show ?case
    by (simp only: b64_enc_open list.set insert_subset empty_subsetI b64_symbolI b64_digits simp_thms)
next
  case (4 al a b c r)
  then show ?case
    by (simp only: b64_enc_open list.set insert_subset b64_symbolI b64_digits simp_thms)
qed

lemma b64_symbols_no_newline: "c \<in> b64_symbols al \<Longrightarrow> c \<noteq> CHR 0x0A \<and> c \<noteq> CHR 0x0D"
  using b64_char_facts(3,4) by (auto simp: b64_symbols_def)

lemma b64_enc_no_newline: "c \<in> set (b64_enc al s) \<Longrightarrow> c \<noteq> CHR 0x0A \<and> c \<noteq> CHR 0x0D"
  using b64_enc_chars b64_symbols_no_newline by blast

lemma b64_dec_enc: "b64_dec al True (b64_enc al s) = Some s"
proof -
  have "filter (\<lambda>c. c \<noteq> CHR 0x0A \<and> c \<noteq> CHR 0x0D) (b64_enc al s) = b64_enc al s"
    using b64_enc_no_newline by (auto intro!: filter_True)
  then show ?thesis by (simp only: b64_dec_def b64_groups_enc)
qed

lemma b64_enc_nonempty: "s \<noteq> [] \<Longrightarrow> b64_enc al s \<noteq> []"
  by (cases "(al, s)" rule: b64_enc.cases) (auto simp: Let_def)

section \<open>Hexadecimal\<close>

definition is_hex :: "char \<Rightarrow> bool" where
  "is_hex c \<longleftrightarrow> is_digit c \<or> CHR ''a'' \<le> c \<and> c \<le> CHR ''f'' \<or> CHR ''A'' \<le> c \<and> c \<le> CHR ''F''"

definition hex_digit :: "nat \<Rightarrow> char" where
  "hex_digit n = ''0123456789abcdef'' ! n"

definition hex_enc :: "string \<Rightarrow> string" where
  "hex_enc s = concat (map (\<lambda>c. [hex_digit (of_char c div 16), hex_digit (of_char c mod 16)]) s)"

text \<open>Whether \<open>hex.DecodeString\<close> returns no error.\<close>

definition hex_ok :: "string \<Rightarrow> bool" where
  "hex_ok s \<longleftrightarrow> even (length s) \<and> list_all is_hex s"

lemma length_hex_enc: "length (hex_enc s) = 2 * length s"
  unfolding hex_enc_def by (induction s) auto

lemma hex_digit_all: "list_all (\<lambda>n. is_hex (hex_digit n)) [0..<16]"
  by code_simp

lemma hex_digit_hex: "n < 16 \<Longrightarrow> is_hex (hex_digit n)"
  using hex_digit_all by (auto simp: list_all_iff)

lemma hex_ok_enc: "hex_ok (hex_enc s)"
proof -
  have "(of_char c :: nat) div 16 < 16" for c :: char using of_char_bound [of c] by linarith
  then have "is_hex (hex_digit (of_char c div 16)) \<and> is_hex (hex_digit (of_char c mod 16))" for c :: char
    by (simp add: hex_digit_hex)
  then have "list_all is_hex (hex_enc s)" unfolding hex_enc_def by (induction s) auto
  then show ?thesis by (simp add: hex_ok_def length_hex_enc)
qed

end
