(* ===== verification/Envelope.thy ===== *)
theory Envelope
  imports KeyedStore GoBase64
begin

text \<open>
  The MoonHub protocol envelope and its replay protection: \<open>src/pkg/protocol/mhp/types.go\<close> and
  \<open>src/pkg/protocol/mhp/envelope.go\<close>. Message types are their wire strings. Times are
  nanoseconds since the Unix epoch; the envelope carries whole Unix seconds as an \<open>int64\<close>.
  Ed25519 is a parameter: \<open>edsign\<close> and \<open>edverify\<close> stand for \<open>ed25519.Sign\<close> and
  \<open>ed25519.Verify\<close>, whose documented panic on a key of the wrong size is a branch of the model.
\<close>

section \<open>Message types\<close>

abbreviation MsgFriendRequest :: string where "MsgFriendRequest \<equiv> ''friend_request''"
abbreviation MsgFriendAccept :: string where "MsgFriendAccept \<equiv> ''friend_accept''"
abbreviation MsgFriendReject :: string where "MsgFriendReject \<equiv> ''friend_reject''"
abbreviation MsgFriendRevoke :: string where "MsgFriendRevoke \<equiv> ''friend_revoke''"
abbreviation MsgFriendPing :: string where "MsgFriendPing \<equiv> ''friend_ping''"

definition is_friend_message :: "string \<Rightarrow> bool" where
  "is_friend_message mt \<longleftrightarrow>
     mt \<in> {MsgFriendRequest, MsgFriendAccept, MsgFriendReject, MsgFriendRevoke, MsgFriendPing}"

record friend_request_payload =
  frp_agent_name :: string
  frp_message :: string

record friend_accept_payload =
  fap_agent_name :: string
  fap_public_key :: "string option"

record friend_reject_payload =
  fjp_reason :: string

section \<open>Envelopes\<close>

record envelope =
  e_version :: int
  e_from :: string
  e_to :: string
  e_type :: string
  e_id :: string
  e_timestamp :: int
  e_signature :: string
  e_payload :: "string option"

definition protocol_version :: int where
  "protocol_version = 1"

definition seconds :: "int \<Rightarrow> int" where
  "seconds s = s * 1000000000"

definition max_message_age :: int where
  "max_message_age = seconds 300"

definition dedup_window :: int where
  "dedup_window = seconds 600"

text \<open>
  \<open>NewEnvelope\<close>: the identifier (a fresh UUID), the clock and the outcome of marshalling the
  payload (\<open>None\<close>: no payload, \<open>Some None\<close>: marshalling failed) are arguments.
\<close>

definition new_envelope ::
  "string \<Rightarrow> int \<Rightarrow> string \<Rightarrow> string \<Rightarrow> string \<Rightarrow> string option option \<Rightarrow> envelope" where
  "new_envelope uuid now src dst mt payload =
     \<lparr>e_version = protocol_version, e_from = src, e_to = dst, e_type = mt, e_id = uuid,
      e_timestamp = now div seconds 1, e_signature = [],
      e_payload = (case payload of None \<Rightarrow> None
                   | Some None \<Rightarrow> Some ''{}''
                   | Some (Some data) \<Rightarrow> Some data)\<rparr>"

definition canonical_payload :: "envelope \<Rightarrow> string" where
  "canonical_payload e =
     (case e_payload e of
        None \<Rightarrow> ''{}''
      | Some p \<Rightarrow> let t = trim_space p in if t \<noteq> '''' \<and> t \<noteq> ''null'' then t else ''{}'')"

definition signed_fields :: "envelope \<Rightarrow> string" where
  "signed_fields e = show_int (e_version e) @ e_from e @ e_to e @ e_type e @ e_id e
     @ show_int (e_timestamp e) @ canonical_payload e"

datatype verify_error = NoSignature | BadSignatureEncoding | SignatureMismatch | KeySizePanic

definition public_key_size :: nat where
  "public_key_size = 32"

text \<open>\<open>Sign\<close> returns the signature and stores it in the envelope.\<close>

definition sign_envelope :: "('k \<Rightarrow> string \<Rightarrow> string) \<Rightarrow> 'k \<Rightarrow> envelope \<Rightarrow> string \<times> envelope" where
  "sign_envelope edsign priv e =
     (let sig = edsign priv (signed_fields e); e' = e\<lparr>e_signature := b64_enc StdAlphabet sig\<rparr>
      in (e_signature e', e'))"

definition verify_envelope ::
  "(string \<Rightarrow> string \<Rightarrow> string \<Rightarrow> bool) \<Rightarrow> string \<Rightarrow> envelope \<Rightarrow> verify_error option" where
  "verify_envelope edverify pub e =
     (if e_signature e = '''' then Some NoSignature
      else (case b64_dec StdAlphabet True (e_signature e) of
          None \<Rightarrow> Some BadSignatureEncoding
        | Some sig \<Rightarrow>
            if length pub \<noteq> public_key_size then Some KeySizePanic
            else if \<not> edverify pub (signed_fields e) sig then Some SignatureMismatch
            else None))"

text \<open>\<open>DecodePayload\<close>, over the JSON decoder \<open>dec\<close> of the payload's type.\<close>

definition decode_payload :: "(string \<Rightarrow> 'p option) \<Rightarrow> envelope \<Rightarrow> 'p option" where
  "decode_payload dec e = (case e_payload e of None \<Rightarrow> None | Some p \<Rightarrow> dec p)"

section \<open>Replay detection\<close>

text \<open>
  \<open>time.Unix\<close> adds the seconds from year 1 to 1970 in 64-bit arithmetic, so timestamps near the
  largest \<open>int64\<close> denote the distant past.
\<close>

definition unix_to_internal :: int where
  "unix_to_internal = 62135596800"

definition time_unix :: "int \<Rightarrow> int" where
  "time_unix ts = seconds (wrap64 (ts + unix_to_internal) - unix_to_internal)"

definition stale :: "int \<Rightarrow> int \<Rightarrow> bool" where
  "stale now ts \<longleftrightarrow> now - time_unix ts > max_message_age"

record dedup =
  dd_seen :: "(string, int) gomap"
  dd_cleanup :: int

definition new_dedup :: "int \<Rightarrow> dedup" where
  "new_dedup now = \<lparr>dd_seen = [], dd_cleanup = now\<rparr>"

definition dedup_purge :: "int \<Rightarrow> dedup \<Rightarrow> dedup" where
  "dedup_purge now d =
     (if now - dd_cleanup d > seconds 60
      then \<lparr>dd_seen = filter (\<lambda>(i, at). \<not> now - at > dedup_window) (dd_seen d), dd_cleanup = now\<rparr>
      else d)"

definition check_and_add :: "int \<Rightarrow> string \<Rightarrow> int \<Rightarrow> dedup \<Rightarrow> bool \<times> dedup" where
  "check_and_add now i ts d =
     (if stale now ts then (False, d)
      else let d' = dedup_purge now d
           in (case mget (dd_seen d') i of
                 Some _ \<Rightarrow> (False, d')
               | None \<Rightarrow> (True, d'\<lparr>dd_seen := mput i now (dd_seen d')\<rparr>)))"

definition dedup_ok :: "dedup \<Rightarrow> bool" where
  "dedup_ok d \<longleftrightarrow> wf_map (dd_seen d)"

definition seen_at :: "dedup \<Rightarrow> string \<Rightarrow> int option" where
  "seen_at d i = mget (dd_seen d) i"

lemma dedup_ok_new [simp]: "dedup_ok (new_dedup now)"
  by (simp add: dedup_ok_def new_dedup_def)

lemma dedup_ok_purge: "dedup_ok d \<Longrightarrow> dedup_ok (dedup_purge now d)"
  by (simp add: dedup_ok_def dedup_purge_def)

lemma seen_at_purge:
  "dedup_ok d \<Longrightarrow> seen_at (dedup_purge now d) i =
     (case seen_at d i of None \<Rightarrow> None
      | Some at \<Rightarrow> if now - dd_cleanup d > seconds 60 \<and> now - at > dedup_window then None else Some at)"
  by (auto simp: dedup_ok_def dedup_purge_def seen_at_def mget_filter split: option.split)

text \<open>
  What a client may rely on: an accepted identifier is fresh and is remembered for the window;
  a remembered identifier is refused.
\<close>

locale replay_guard =
  fixes check :: "int \<Rightarrow> string \<Rightarrow> int \<Rightarrow> 's \<Rightarrow> bool \<times> 's"
    and seen :: "'s \<Rightarrow> string \<Rightarrow> int option"
    and inv :: "'s \<Rightarrow> bool"
    and window :: int
  assumes inv_check: "inv s \<Longrightarrow> inv (snd (check now i ts s))"
    and accepts_fresh: "fst (check now i ts s) \<Longrightarrow> \<not> stale now ts"
    and remembers: "inv s \<Longrightarrow> fst (check now i ts s) \<Longrightarrow> seen (snd (check now i ts s)) i = Some now"
    and keeps: "inv s \<Longrightarrow> seen s i = Some at \<Longrightarrow> now - at \<le> window \<Longrightarrow>
      seen (snd (check now j ts s)) i = Some at"
    and refuses: "inv s \<Longrightarrow> seen s i = Some at \<Longrightarrow> now - at \<le> window \<Longrightarrow> \<not> fst (check now i ts s)"
begin

definition after :: "(int \<times> string \<times> int) list \<Rightarrow> 's \<Rightarrow> 's" where
  "after cs s = fold (\<lambda>(now, i, ts) s. snd (check now i ts s)) cs s"

lemma inv_after: "inv s \<Longrightarrow> inv (after cs s)"
  unfolding after_def by (induction cs arbitrary: s) (auto intro: inv_check)

lemma seen_after:
  "inv s \<Longrightarrow> seen s i = Some at \<Longrightarrow> list_all (\<lambda>(now, j, ts). now - at \<le> window) cs \<Longrightarrow>
     seen (after cs s) i = Some at"
  unfolding after_def by (induction cs arbitrary: s) (auto simp: inv_check keeps)

lemma accepted_once:
  assumes "inv s" and "fst (check t i ts s)"
    and "list_all (\<lambda>(now, j, u). now - t \<le> window) cs" and "now - t \<le> window"
  shows "\<not> fst (check now i ts' (after cs (snd (check t i ts s))))"
  using assms by (intro refuses [of _ _ t] inv_after seen_after inv_check remembers) auto

end

interpretation mhp_guard: replay_guard check_and_add seen_at dedup_ok dedup_window
proof
  fix s now i ts
  show "dedup_ok s \<Longrightarrow> dedup_ok (snd (check_and_add now i ts s))"
    using dedup_ok_purge by (auto simp: check_and_add_def Let_def dedup_ok_def split: option.split)
  show "fst (check_and_add now i ts s) \<Longrightarrow> \<not> stale now ts"
    by (auto simp: check_and_add_def)
  show "dedup_ok s \<Longrightarrow> fst (check_and_add now i ts s) \<Longrightarrow>
      seen_at (snd (check_and_add now i ts s)) i = Some now"
    by (auto simp: check_and_add_def Let_def seen_at_def split: if_splits option.splits)
next
  fix s i at now j ts
  assume s: "dedup_ok s" "seen_at s i = Some at" "now - at \<le> dedup_window"
  then have keep: "seen_at (dedup_purge now s) i = Some at" by (simp add: seen_at_purge)
  then show "seen_at (snd (check_and_add now j ts s)) i = Some at"
    using s by (auto simp: check_and_add_def Let_def seen_at_def split: option.splits)
  show "\<not> fst (check_and_add now i ts s)"
    using keep by (auto simp: check_and_add_def Let_def seen_at_def split: option.splits)
qed

lemma time_unix_id:
  "- (2 ^ 63) \<le> ts + unix_to_internal \<Longrightarrow> ts + unix_to_internal < 2 ^ 63 \<Longrightarrow> time_unix ts = seconds ts"
  by (simp add: time_unix_def wrap64_id)

lemma not_stale_bound: "\<not> stale now ts \<Longrightarrow> now \<le> time_unix ts + max_message_age"
  by (simp add: stale_def)

section \<open>Signed text\<close>

lemma show_nat_prepend:
  assumes "1 \<le> d" and "d < 10"
  shows "show_nat (d * 10 ^ length (show_nat n) + n) = digit_char d # show_nat n"
proof (induction n rule: show_nat.induct)
  case (1 n)
  show ?case
  proof (cases "n < 10")
    case True
    then have n: "show_nat n = [digit_char n]" by (simp add: show_nat.simps)
    have "(d * 10 + n) div 10 = d" "(d * 10 + n) mod 10 = n" "\<not> d * 10 + n < 10"
      using True assms by auto
    then have "show_nat (d * 10 + n) = show_nat d @ [digit_char n]"
      by (subst show_nat.simps) simp
    also have "show_nat d = [digit_char d]" using assms by (simp add: show_nat.simps)
    finally show ?thesis by (simp add: n)
  next
    case False
    define L where "L = length (show_nat (n div 10))"
    have n: "show_nat n = show_nat (n div 10) @ [digit_char (n mod 10)]"
      using False by (subst show_nat.simps) simp
    have split: "d * 10 ^ Suc L + n = (d * 10 ^ L + n div 10) * 10 + n mod 10"
      by (simp add: algebra_simps)
    have big: "\<not> d * 10 ^ Suc L + n < 10" using False by linarith
    have dm: "(d * 10 ^ Suc L + n) div 10 = d * 10 ^ L + n div 10"
      "(d * 10 ^ Suc L + n) mod 10 = n mod 10" unfolding split by simp_all
    have "show_nat (d * 10 ^ Suc L + n) = show_nat (d * 10 ^ L + n div 10) @ [digit_char (n mod 10)]"
      using big by (subst show_nat.simps) (simp only: dm if_False)
    also have "show_nat (d * 10 ^ L + n div 10) = digit_char d # show_nat (n div 10)"
      using "1.IH" [OF False] by (simp add: L_def)
    finally show ?thesis by (simp add: n L_def)
  qed
qed

text \<open>
  The envelope an observer gets by moving the last digit of the identifier in front of the
  timestamp: the signed text has no separators.
\<close>

definition shift_id :: "nat \<Rightarrow> envelope \<Rightarrow> envelope" where
  "shift_id d e = e\<lparr>e_id := butlast (e_id e),
     e_timestamp := int (d * 10 ^ length (show_nat (nat (e_timestamp e))) + nat (e_timestamp e))\<rparr>"

lemma shift_id_fields [simp]:
  "e_from (shift_id d e) = e_from e" "e_to (shift_id d e) = e_to e" "e_type (shift_id d e) = e_type e"
  "e_payload (shift_id d e) = e_payload e" "e_signature (shift_id d e) = e_signature e"
  "e_id (shift_id d e) = butlast (e_id e)"
  by (simp_all add: shift_id_def)

lemma signed_fields_shift:
  assumes "1 \<le> d" and "d < 10" and "e_id e = i @ [digit_char d]" and "0 \<le> e_timestamp e"
  shows "signed_fields (shift_id d e) = signed_fields e"
proof -
  let ?n = "nat (e_timestamp e)"
  have "show_int (int (d * 10 ^ length (show_nat ?n) + ?n)) = digit_char d # show_int (e_timestamp e)"
    unfolding show_int_of_nat show_nat_prepend [OF assms(1,2)] using assms(4) by (simp add: show_int_def)
  then show ?thesis using assms(3)
    by (simp add: signed_fields_def shift_id_def canonical_payload_def)
qed

lemma verify_shift:
  assumes "1 \<le> d" and "d < 10" and "e_id e = i @ [digit_char d]" and "0 \<le> e_timestamp e"
  shows "verify_envelope edverify pub (shift_id d e) = verify_envelope edverify pub e"
  unfolding verify_envelope_def signed_fields_shift [OF assms] by (simp add: shift_id_def)

lemma not_stale_shift:
  assumes "0 \<le> e_timestamp e" and "e_timestamp (shift_id d e) < 2 ^ 62" and "\<not> stale now (e_timestamp e)"
  shows "\<not> stale now (e_timestamp (shift_id d e))"
proof -
  have le: "e_timestamp e \<le> e_timestamp (shift_id d e)" using assms(1) by (simp add: shift_id_def)
  then have "time_unix (e_timestamp e) = seconds (e_timestamp e)"
    and "time_unix (e_timestamp (shift_id d e)) = seconds (e_timestamp (shift_id d e))"
    using assms(1,2) by (auto intro!: time_unix_id simp: unix_to_internal_def)
  with le assms(3) show ?thesis by (simp add: stale_def seconds_def)
qed

text \<open>The argument behind replay protection, for the detector and for the handler.\<close>

lemma no_replay_core:
  assumes "dedup_ok d" and "fst (check_and_add t i ts d)"
    and "time_unix ts \<le> t + max_message_age"
    and "list_all (\<lambda>(now, j, u). now \<le> t') cs"
  shows "\<not> fst (check_and_add t' i ts (mhp_guard.after cs (snd (check_and_add t i ts d))))"
proof (cases "t' - t \<le> dedup_window")
  case True
  with assms(4) have "list_all (\<lambda>(now, j, u). now - t \<le> dedup_window) cs"
    by (auto simp: list_all_iff)
  with assms(1,2) True show ?thesis by (intro mhp_guard.accepted_once)
next
  case False
  with assms(3) have "stale t' ts"
    by (simp add: stale_def max_message_age_def dedup_window_def seconds_def)
  then show ?thesis by (auto dest: mhp_guard.accepts_fresh)
qed

lemma check_accepts:
  "\<not> stale now ts \<Longrightarrow> seen_at d i = None \<Longrightarrow> dedup_ok d \<Longrightarrow> fst (check_and_add now i ts d)"
  using seen_at_purge [of d now i] by (auto simp: check_and_add_def Let_def seen_at_def split: option.split)

lemma check_forgets_none:
  "dedup_ok d \<Longrightarrow> seen_at d i = None \<Longrightarrow> j \<noteq> i \<Longrightarrow> seen_at (snd (check_and_add now j ts d)) i = None"
  using seen_at_purge [of d now i] by (auto simp: check_and_add_def Let_def seen_at_def split: option.split)

lemma check_consumes:
  assumes "dedup_ok d" and "seen_at d i = None" and "\<not> stale t ts" and "now - t \<le> dedup_window"
  shows "\<not> fst (check_and_add now i u (snd (check_and_add t i ts d)))"
  using assms
  by (intro mhp_guard.refuses [of _ _ t] mhp_guard.inv_check mhp_guard.remembers check_accepts)

section \<open>Properties\<close>

text \<open>
  C18: An envelope that was signed verifies: for every signature scheme in which the public key of
  a private key verifies what that key signs, and whose signatures are not empty, \<open>Verify\<close>
  accepts what \<open>Sign\<close> produced, through the base64 encoding of the signature and its decoding.
\<close>

theorem sign_verify:
  assumes "\<And>m. edverify pub m (edsign priv m)" and "\<And>m. edsign priv m \<noteq> []"
    and "length pub = public_key_size"
  shows "verify_envelope edverify pub (snd (sign_envelope edsign priv e)) = None"
proof -
  let ?sig = "edsign priv (signed_fields e)"
  have fields: "signed_fields (e\<lparr>e_signature := s\<rparr>) = signed_fields e" for s
    by (simp add: signed_fields_def canonical_payload_def)
  have "b64_enc StdAlphabet ?sig \<noteq> []" using assms(2) by (rule b64_enc_nonempty)
  then show ?thesis using assms(1,3)
    by (simp add: sign_envelope_def verify_envelope_def Let_def fields b64_dec_enc)
qed

theorem sign_verify_witness:
  "verify_envelope (\<lambda>pub m s. s = CHR ''s'' # m) (replicate 32 CHR ''k'')
     (snd (sign_envelope (\<lambda>k m. CHR ''s'' # m) () (new_envelope ''u1'' 0 ''a'' ''b'' MsgFriendPing None))) = None"
  by (rule sign_verify) (simp_all add: public_key_size_def)

text \<open>
  C4: Replay protection: an identifier accepted at time \<open>t\<close> with a timestamp at most five minutes
  ahead of the clock is never accepted again, at any later time, whatever calls happen in
  between: while the identifier is remembered it is refused, and by the time it may have been
  forgotten the timestamp is stale.
\<close>

theorem no_replay:
  assumes "dedup_ok d" and "fst (check_and_add t i ts d)"
    and "time_unix ts \<le> t + max_message_age"
    and "list_all (\<lambda>(now, j, u). now \<le> t') cs"
  shows "\<not> fst (check_and_add t' i ts (mhp_guard.after cs (snd (check_and_add t i ts d))))"
  using assms by (rule no_replay_core)

theorem no_replay_witness:
  "\<not> fst (check_and_add (seconds 1200) ''m1'' 100
      (mhp_guard.after [(seconds 150, ''m2'', 150)] (snd (check_and_add (seconds 101) ''m1'' 100 (new_dedup 0)))))"
  by (rule no_replay) (simp, code_simp+)

text \<open>
  The bound on the timestamp in the previous property is needed: nothing limits how far ahead
  of the clock a timestamp may lie, and an envelope dated far enough ahead is accepted a second
  time once the window has passed.
\<close>

theorem future_replay:
  assumes "time_unix ts = t + seconds 100000"
  shows "fst (check_and_add t i ts (new_dedup t)) \<and>
    fst (check_and_add (t + seconds 601) i ts (snd (check_and_add t i ts (new_dedup t))))"
  using assms
  by (simp add: check_and_add_def stale_def new_dedup_def dedup_purge_def max_message_age_def
      dedup_window_def seconds_def)

theorem future_replay_witness:
  "fst (check_and_add (seconds 1700000000) ''m1'' 1700100000 (new_dedup (seconds 1700000000))) \<and>
   fst (check_and_add (seconds 1700000000 + seconds 601) ''m1'' 1700100000
     (snd (check_and_add (seconds 1700000000) ''m1'' 1700100000 (new_dedup (seconds 1700000000)))))"
  by (rule future_replay) code_simp+

end
