(* ===== verification/MhpHandler.thy ===== *)
theory MhpHandler
  imports Envelope
begin

text \<open>
  The inbound side of the MoonHub protocol: \<open>src/pkg/protocol/mhp/handler.go\<close>. The state is the
  replay detector; a call returns the handler's result and the callbacks it made, in order. The
  friend store is the Go interface \<open>HandlerFriendStore\<close>: its \<open>GetPublicKey\<close> is a field of the
  configuration. Ed25519 and the JSON decoders of the three payload types are parameters
  collected in \<open>mhp_env\<close>. \<open>HandleEnvelope\<close> reads the clock twice, first itself and then in
  \<open>CheckAndAdd\<close>; both readings are arguments. \<open>HandlerPanics\<close> is the panic of
  \<open>ed25519.Verify\<close> on a stored key of the wrong size.
\<close>

datatype handler_result = HandlerAccepted | HandlerRejected | HandlerDeduped | HandlerPanics

datatype mhp_event =
    OnFriendRequest envelope friend_request_payload
  | OnFriendAccept envelope friend_accept_payload
  | OnFriendReject envelope friend_reject_payload

record mhp_env =
  me_edverify :: "string \<Rightarrow> string \<Rightarrow> string \<Rightarrow> bool"
  me_request :: "string \<Rightarrow> friend_request_payload option"
  me_accept :: "string \<Rightarrow> friend_accept_payload option"
  me_reject :: "string \<Rightarrow> friend_reject_payload option"

record handler_config =
  hc_agent_id :: string
  hc_public_key :: "string \<Rightarrow> string option"
  hc_on_request :: bool
  hc_on_accept :: bool
  hc_on_reject :: bool

definition handle_friend_request ::
  "mhp_env \<Rightarrow> handler_config \<Rightarrow> envelope \<Rightarrow> handler_result \<times> mhp_event list" where
  "handle_friend_request env cfg e =
     (if \<not> hc_on_request cfg then (HandlerRejected, [])
      else (case decode_payload (me_request env) e of
          None \<Rightarrow> (HandlerRejected, [])
        | Some p \<Rightarrow>
            if hc_public_key cfg (e_from e) \<noteq> None then (HandlerRejected, [])
            else (HandlerAccepted, [OnFriendRequest e p])))"

definition handle_friend_accept ::
  "mhp_env \<Rightarrow> handler_config \<Rightarrow> envelope \<Rightarrow> handler_result \<times> mhp_event list" where
  "handle_friend_accept env cfg e =
     (case decode_payload (me_accept env) e of
        None \<Rightarrow> (HandlerRejected, [])
      | Some p \<Rightarrow> (HandlerAccepted, if hc_on_accept cfg then [OnFriendAccept e p] else []))"

definition handle_friend_reject ::
  "mhp_env \<Rightarrow> handler_config \<Rightarrow> envelope \<Rightarrow> handler_result \<times> mhp_event list" where
  "handle_friend_reject env cfg e =
     (case decode_payload (me_reject env) e of
        None \<Rightarrow> (HandlerRejected, [])
      | Some p \<Rightarrow> (HandlerRejected, if hc_on_reject cfg then [OnFriendReject e p] else []))"

definition dispatch_envelope ::
  "mhp_env \<Rightarrow> handler_config \<Rightarrow> envelope \<Rightarrow> handler_result \<times> mhp_event list" where
  "dispatch_envelope env cfg e =
     (if e_type e = MsgFriendRequest then handle_friend_request env cfg e
      else if e_type e = MsgFriendAccept then handle_friend_accept env cfg e
      else if e_type e = MsgFriendReject then handle_friend_reject env cfg e
      else (HandlerRejected, []))"

text \<open>The part of \<open>HandleEnvelope\<close> after the replay check.\<close>

definition authenticate_and_dispatch ::
  "mhp_env \<Rightarrow> handler_config \<Rightarrow> envelope \<Rightarrow> handler_result \<times> mhp_event list" where
  "authenticate_and_dispatch env cfg e =
     (if e_to e \<noteq> hc_agent_id cfg then (HandlerRejected, [])
      else (case hc_public_key cfg (e_from e) of
          None \<Rightarrow> if e_type e \<noteq> MsgFriendRequest then (HandlerRejected, [])
                  else dispatch_envelope env cfg e
        | Some pub \<Rightarrow>
            (case verify_envelope (me_edverify env) pub e of
               Some KeySizePanic \<Rightarrow> (HandlerPanics, [])
             | Some _ \<Rightarrow> (HandlerRejected, [])
             | None \<Rightarrow> dispatch_envelope env cfg e)))"

definition handle_envelope ::
  "mhp_env \<Rightarrow> handler_config \<Rightarrow> int \<Rightarrow> int \<Rightarrow> envelope \<Rightarrow> dedup
     \<Rightarrow> (handler_result \<times> mhp_event list) \<times> dedup" where
  "handle_envelope env cfg now now' e d =
     (if stale now (e_timestamp e) then ((HandlerRejected, []), d)
      else (case check_and_add now' (e_id e) (e_timestamp e) d of
          (False, d') \<Rightarrow> ((HandlerDeduped, []), d')
        | (True, d') \<Rightarrow> (authenticate_and_dispatch env cfg e, d')))"

section \<open>Calls, runs, and what the replay guard sees of them\<close>

text \<open>One inbound envelope: configuration at that moment, the two clock readings, the envelope.\<close>

type_synonym mhp_call = "handler_config \<times> int \<times> int \<times> envelope"

definition mhp_step :: "mhp_env \<Rightarrow> mhp_call \<Rightarrow> dedup \<Rightarrow> dedup" where
  "mhp_step env = (\<lambda>(cfg, now, now', e) d. snd (handle_envelope env cfg now now' e d))"

definition mhp_run :: "mhp_env \<Rightarrow> mhp_call list \<Rightarrow> dedup \<Rightarrow> dedup" where
  "mhp_run env = fold (mhp_step env)"

text \<open>The calls to \<open>CheckAndAdd\<close> a list of envelopes leads to.\<close>

definition guard_calls :: "mhp_call list \<Rightarrow> (int \<times> string \<times> int) list" where
  "guard_calls cs = [(now', e_id e, e_timestamp e). (cfg, now, now', e) \<leftarrow> cs, \<not> stale now (e_timestamp e)]"

lemma mhp_run_after: "mhp_run env cs d = mhp_guard.after (guard_calls cs) d"
proof (induction cs arbitrary: d)
  case Nil
  show ?case by (simp add: mhp_run_def guard_calls_def mhp_guard.after_def)
next
  case (Cons c cs)
  obtain cfg now now' e where c: "c = (cfg, now, now', e)" by (metis surj_pair)
  have "mhp_run env (c # cs) d = mhp_run env cs (mhp_step env c d)" by (simp add: mhp_run_def)
  also have "\<dots> = mhp_guard.after (guard_calls cs) (mhp_step env c d)" by (rule Cons.IH)
  also have "mhp_step env c d =
      (if stale now (e_timestamp e) then d else snd (check_and_add now' (e_id e) (e_timestamp e) d))"
    by (auto simp: c mhp_step_def handle_envelope_def split: prod.split bool.split)
  finally show ?case by (simp add: c guard_calls_def mhp_guard.after_def)
qed

lemma handled_checked:
  "fst (handle_envelope env cfg now now' e d) \<noteq> (HandlerRejected, []) \<Longrightarrow>
   fst (fst (handle_envelope env cfg now now' e d)) \<noteq> HandlerDeduped \<Longrightarrow>
     fst (check_and_add now' (e_id e) (e_timestamp e) d)"
  by (auto simp: handle_envelope_def split: if_splits prod.splits bool.splits)

lemma handle_state:
  "fst (check_and_add now' (e_id e) (e_timestamp e) d) \<Longrightarrow> \<not> stale now (e_timestamp e) \<Longrightarrow>
     handle_envelope env cfg now now' e d =
       (authenticate_and_dispatch env cfg e, snd (check_and_add now' (e_id e) (e_timestamp e) d))"
  by (cases "check_and_add now' (e_id e) (e_timestamp e) d") (auto simp: handle_envelope_def)

lemma handle_refused:
  "\<not> fst (check_and_add now' (e_id e) (e_timestamp e) d) \<Longrightarrow>
     fst (handle_envelope env cfg now now' e d) \<in> {(HandlerDeduped, []), (HandlerRejected, [])}"
  by (auto simp: handle_envelope_def split: prod.split bool.split)

lemma handle_events:
  assumes "snd (fst (handle_envelope env cfg now now' e d)) \<noteq> []"
  shows "fst (handle_envelope env cfg now now' e d) = authenticate_and_dispatch env cfg e"
    and "\<not> stale now (e_timestamp e)" and "fst (check_and_add now' (e_id e) (e_timestamp e) d)"
  using assms by (auto simp: handle_envelope_def split: if_splits prod.splits bool.splits)

definition mhp_event_envelope :: "mhp_event \<Rightarrow> envelope" where
  "mhp_event_envelope ev = (case ev of OnFriendRequest e p \<Rightarrow> e | OnFriendAccept e p \<Rightarrow> e
     | OnFriendReject e p \<Rightarrow> e)"

definition is_request_event :: "mhp_event \<Rightarrow> bool" where
  "is_request_event ev = (case ev of OnFriendRequest e p \<Rightarrow> True | _ \<Rightarrow> False)"

lemma dispatch_events:
  assumes "ev \<in> set (snd (dispatch_envelope env cfg e))"
  shows "mhp_event_envelope ev = e \<and> (is_request_event ev \<longleftrightarrow> e_type e = MsgFriendRequest) \<and>
    (is_request_event ev \<longrightarrow> hc_public_key cfg (e_from e) = None)"
  using assms
  by (auto simp: dispatch_envelope_def handle_friend_request_def handle_friend_accept_def
      handle_friend_reject_def mhp_event_envelope_def is_request_event_def
      split: if_splits option.splits)

section \<open>Sample inputs\<close>

text \<open>Concrete values at which the properties below are applied.\<close>

definition sample_request_payload :: friend_request_payload where
  "sample_request_payload = \<lparr>frp_agent_name = ''A'', frp_message = ''hi''\<rparr>"

definition sample_accept_payload :: friend_accept_payload where
  "sample_accept_payload = \<lparr>fap_agent_name = ''A'', fap_public_key = None\<rparr>"

definition sample_request :: envelope where
  "sample_request = \<lparr>e_version = 1, e_from = ''a'', e_to = ''me'', e_type = MsgFriendRequest,
     e_id = ''m1'', e_timestamp = 100, e_signature = '''', e_payload = Some ''{}''\<rparr>"

definition sample_accept :: envelope where
  "sample_accept = sample_request\<lparr>e_type := MsgFriendAccept, e_signature := ''QUJD''\<rparr>"

definition sample_env :: mhp_env where
  "sample_env = \<lparr>me_edverify = (\<lambda>pub m s. s = ''ABC''),
     me_request = (\<lambda>_. Some sample_request_payload),
     me_accept = (\<lambda>_. Some sample_accept_payload), me_reject = (\<lambda>_. None)\<rparr>"

definition sample_cfg :: "string option \<Rightarrow> handler_config" where
  "sample_cfg key = \<lparr>hc_agent_id = ''me'', hc_public_key = (\<lambda>_. key), hc_on_request = True,
     hc_on_accept = True, hc_on_reject = True\<rparr>"

section \<open>Properties\<close>

text \<open>
  C3: Authenticity: whenever the handler makes a callback, the envelope it hands over was fresh
  and addressed to this agent, and either it carries a signature that verifies under the key
  stored for its sender, or it is a friend request from a sender with no stored key. Accept and
  reject callbacks are therefore always signed.
\<close>

theorem handler_authentic:
  assumes "ev \<in> set (snd (fst (handle_envelope env cfg now now' e d)))"
  shows "mhp_event_envelope ev = e \<and> e_to e = hc_agent_id cfg \<and> \<not> stale now (e_timestamp e) \<and>
    (case hc_public_key cfg (e_from e) of
       Some pub \<Rightarrow> verify_envelope (me_edverify env) pub e = None \<and> \<not> is_request_event ev
     | None \<Rightarrow> is_request_event ev)"
proof -
  from assms have ne: "snd (fst (handle_envelope env cfg now now' e d)) \<noteq> []" by auto
  from assms have "ev \<in> set (snd (authenticate_and_dispatch env cfg e))"
    using handle_events(1) [OF ne] by simp
  then have to: "e_to e = hc_agent_id cfg"
    and disp: "ev \<in> set (snd (dispatch_envelope env cfg e))"
    and key: "case hc_public_key cfg (e_from e) of
        Some pub \<Rightarrow> verify_envelope (me_edverify env) pub e = None
      | None \<Rightarrow> e_type e = MsgFriendRequest"
    by (auto simp: authenticate_and_dispatch_def split: if_splits option.splits verify_error.splits)
  from dispatch_events [OF disp] key to handle_events(2) [OF ne] show ?thesis
    by (auto split: option.splits)
qed

theorem handler_authentic_witness:
  "mhp_event_envelope (OnFriendRequest sample_request sample_request_payload) = sample_request"
  by (rule handler_authentic [where env = sample_env and cfg = "sample_cfg None" and
      now = "seconds 101" and now' = "seconds 101" and d = "new_dedup 0", THEN conjunct1]) code_simp

text \<open>
  C25: No callback twice: once an envelope dated at most five minutes ahead of the clock has led
  to a callback, no later delivery of it (same identifier and timestamp) leads to another one,
  through any sequence of other deliveries and changes of the friend store.
\<close>

theorem callback_once:
  assumes "dedup_ok d" and "snd (fst (handle_envelope env cfg now t e d)) \<noteq> []"
    and "time_unix (e_timestamp e) \<le> t + max_message_age"
    and "list_all (\<lambda>(c, n, n', x). n' \<le> t') cs"
    and "e_id e' = e_id e" and "e_timestamp e' = e_timestamp e"
  shows "snd (fst (handle_envelope env cfg' now' t' e'
    (mhp_run env cs (snd (handle_envelope env cfg now t e d))))) = []"
proof (rule ccontr)
  assume ev: "\<not> ?thesis"
  note one = handle_events(2,3) [OF assms(2)]
  have "list_all (\<lambda>(n', j, u). n' \<le> t') (guard_calls cs)"
    using assms(4) by (auto simp: guard_calls_def list_all_iff)
  from no_replay_core [OF assms(1) one(2) assms(3) this] handle_events(3) [OF ev]
  show False by (simp add: handle_state [OF one(2,1)] mhp_run_after assms(5,6))
qed

theorem callback_once_witness:
  "snd (fst (handle_envelope sample_env (sample_cfg None) (seconds 900) (seconds 900) sample_request
     (mhp_run sample_env [(sample_cfg None, seconds 700, seconds 700, sample_accept)]
       (snd (handle_envelope sample_env (sample_cfg None) (seconds 101) (seconds 101) sample_request (new_dedup 0)))))) = []"
  by (rule callback_once) (simp, code_simp, code_simp, code_simp, simp_all)

text \<open>
  The replay check comes before the signature check: any envelope with an identifier not yet
  remembered, unsigned or addressed to somebody else, uses the identifier up. A genuine envelope with the same identifier that
  arrives within ten minutes is dropped, and no callback is made for it.
\<close>

theorem identifier_poisoned:
  assumes "dedup_ok d" and "seen_at d (e_id f) = None" and "e_id f = e_id e"
    and "\<not> stale now (e_timestamp f)" and "\<not> stale t (e_timestamp f)"
    and "now' - t \<le> dedup_window"
  shows "fst (fst (handle_envelope env cfg' now'' now' e (snd (handle_envelope env cfg now t f d))))
      \<in> {HandlerDeduped, HandlerRejected} \<and>
    snd (fst (handle_envelope env cfg' now'' now' e (snd (handle_envelope env cfg now t f d)))) = []"
proof -
  let ?d = "snd (handle_envelope env cfg now t f d)"
  have d: "?d = snd (check_and_add t (e_id f) (e_timestamp f) d)"
    using assms(4) by (auto simp: handle_envelope_def split: prod.split bool.split)
  have "\<not> fst (check_and_add now' (e_id e) (e_timestamp e) ?d)"
    using check_consumes [OF assms(1,2,5,6)] by (simp add: d assms(3))
  from handle_refused [OF this, of env cfg' now''] show ?thesis by auto
qed

theorem identifier_poisoned_witness:
  "snd (fst (handle_envelope sample_env (sample_cfg None) (seconds 200) (seconds 200) sample_request
     (snd (handle_envelope sample_env (sample_cfg None) (seconds 101) (seconds 101)
       (sample_request\<lparr>e_to := ''somebody else''\<rparr>) (new_dedup 0))))) = []"
  by (rule identifier_poisoned [THEN conjunct2]) (simp, code_simp+)

text \<open>
  C35: The signed text has no separators between its fields, and this defeats the replay check: from
  one signed \<open>friend_accept\<close> envelope whose identifier ends in a non-zero digit, moving that
  digit to the front of the timestamp gives an envelope with another identifier, whose signature
  still verifies and which is not stale. The handler accepts it as a new message and makes the
  callback a second time.
\<close>

theorem identifier_shift_replay:
  assumes "fst (handle_envelope env cfg now t e d) = (HandlerAccepted, [OnFriendAccept e p])"
    and "e_type e = MsgFriendAccept"
    and "1 \<le> k" and "k < 10" and "e_id e = i @ [digit_char k]"
    and "0 \<le> e_timestamp e" and "e_timestamp (shift_id k e) < 2 ^ 62"
    and "seen_at d i = None" and "t \<le> t'" and "t' - time_unix (e_timestamp e) \<le> max_message_age"
    and "dedup_ok d"
  shows "e_id (shift_id k e) \<noteq> e_id e \<and>
    fst (handle_envelope env cfg t' t' (shift_id k e) (snd (handle_envelope env cfg now t e d))) =
      (HandlerAccepted, [OnFriendAccept (shift_id k e) p])"
proof -
  let ?e = "shift_id k e"
  have ne: "snd (fst (handle_envelope env cfg now t e d)) \<noteq> []" using assms(1) by simp
  note one = handle_events [OF ne]
  have id: "e_id ?e = i" using assms(5) by simp
  have auth: "authenticate_and_dispatch env cfg ?e = (HandlerAccepted, [OnFriendAccept ?e p])"
    using one(1) assms(1,2) verify_shift [OF assms(3-6)]
    by (auto simp: authenticate_and_dispatch_def dispatch_envelope_def handle_friend_accept_def
        decode_payload_def split: if_splits option.splits verify_error.splits)
  have fresh: "\<not> stale t' (e_timestamp ?e)"
    using not_stale_shift [OF assms(6,7), of t'] assms(10) by (simp add: stale_def)
  let ?d = "snd (handle_envelope env cfg now t e d)"
  have d: "?d = snd (check_and_add t (e_id e) (e_timestamp e) d)"
    using handle_state [OF one(3,2)] by simp
  have "seen_at ?d i = None"
    unfolding d using check_forgets_none [OF assms(11,8)] assms(5) by (metis append_self_conv not_Cons_self2)
  moreover have "dedup_ok ?d" unfolding d using assms(11) by (rule mhp_guard.inv_check)
  ultimately have "fst (check_and_add t' i (e_timestamp ?e) ?d)"
    using fresh by (rule check_accepts [rotated])
  then show ?thesis using auth handle_state [of t' ?e ?d t'] fresh id assms(5) by simp
qed

theorem identifier_shift_replay_witness:
  "fst (handle_envelope sample_env (sample_cfg (Some (replicate 32 CHR ''k''))) (seconds 102) (seconds 102)
      (shift_id 1 sample_accept)
      (snd (handle_envelope sample_env (sample_cfg (Some (replicate 32 CHR ''k''))) (seconds 101) (seconds 101)
        sample_accept (new_dedup 0)))) =
    (HandlerAccepted, [OnFriendAccept (shift_id 1 sample_accept) sample_accept_payload])"
  by (rule identifier_shift_replay [where i = "''m''", THEN conjunct2]) (simp_all only: dedup_ok_new, code_simp+)

end
