(* ===== verification/Transport.thy ===== *)
theory Transport
  imports KeyedStore
begin

text \<open>
  Agent-to-agent connections (\<open>pkg/transport/resolver.go\<close>, \<open>conn.go\<close>, \<open>manager.go\<close>): how a remote
  agent is reached (LAN table first, then the cloud directory), the connection object with its
  atomic state and its close-once flag, and the manager that hands out one shared connection per
  remote agent.

  Connections are Go pointers that the manager's map and its callers share, so they live in an
  explicit store, a list that only grows; a pointer is an index of it. The cloud directory is the
  \<open>CloudLookup\<close> interface of the source, a function here. What dialling a WebSocket yields is an
  argument of \<open>conn_connect\<close>; sockets are numbers.
\<close>

section \<open>Resolver\<close>

datatype connection_mode = ModeLAN | ModeCloud

record connection_strategy =
  cs_mode :: connection_mode
  cs_url :: string

record agent_lookup_result =
  lr_agent_id :: string
  lr_online :: bool
  lr_relay_endpoint :: string

type_synonym cloud_lookup = "string \<Rightarrow> string + agent_lookup_result"

record resolver =
  rs_cloud :: "cloud_lookup option"
  rs_lan_map :: "(string, string) gomap"

definition new_resolver :: "cloud_lookup option \<Rightarrow> resolver" where
  "new_resolver c = \<lparr>rs_cloud = c, rs_lan_map = []\<rparr>"

definition set_lan_endpoint :: "string \<Rightarrow> string \<Rightarrow> resolver \<Rightarrow> resolver" where
  "set_lan_endpoint agent url r = r\<lparr>rs_lan_map := mput agent url (rs_lan_map r)\<rparr>"

definition remove_lan_endpoint :: "string \<Rightarrow> resolver \<Rightarrow> resolver" where
  "remove_lan_endpoint agent r = r\<lparr>rs_lan_map := mdel agent (rs_lan_map r)\<rparr>"

definition resolve :: "resolver \<Rightarrow> string \<Rightarrow> string + connection_strategy" where
  "resolve r agent =
     (case mget (rs_lan_map r) agent of
        Some url \<Rightarrow> Inr \<lparr>cs_mode = ModeLAN, cs_url = url\<rparr>
      | None \<Rightarrow>
          (case rs_cloud r of
             None \<Rightarrow> Inl (''agent '' @ agent @ '' is offline'')
           | Some lookup \<Rightarrow>
               (case lookup agent of
                  Inl e \<Rightarrow> Inl (''agent '' @ agent @ '' is offline'')
                | Inr res \<Rightarrow>
                    if lr_online res then Inr \<lparr>cs_mode = ModeCloud, cs_url = lr_relay_endpoint res\<rparr>
                    else Inl (''agent '' @ agent @ '' is offline''))))"

definition lan_lookup :: "resolver \<Rightarrow> string \<Rightarrow> string option" where
  "lan_lookup r agent = mget (rs_lan_map r) agent"

definition lan_inv :: "resolver \<Rightarrow> bool" where
  "lan_inv r \<longleftrightarrow> wf_map (rs_lan_map r)"

interpretation lan_table:
  keyed_store lan_lookup set_lan_endpoint remove_lan_endpoint lan_inv "\<lambda>a u. True"
  by unfold_locales (auto simp: lan_lookup_def set_lan_endpoint_def remove_lan_endpoint_def lan_inv_def)

lemma lan_inv_new [simp]: "lan_inv (new_resolver c)"
  by (simp add: lan_inv_def new_resolver_def)

lemma lan_ops_cloud [simp]:
  "rs_cloud (set_lan_endpoint a u r) = rs_cloud r"
  "rs_cloud (remove_lan_endpoint a r) = rs_cloud r"
  by (simp_all add: set_lan_endpoint_def remove_lan_endpoint_def)

lemma lan_writes_cloud: "rs_cloud (fold lan_table.apply_write ws r) = rs_cloud r"
proof (induction ws arbitrary: r)
  case (Cons w ws)
  then show ?case by (cases w) simp_all
qed simp

section \<open>Connections\<close>

datatype conn_state = ConnDisconnected | ConnConnected | ConnConnecting

record agent_conn =
  ac_local :: string
  ac_remote :: string
  ac_url :: string
  ac_conn :: "nat option"
  ac_state :: conn_state
  ac_close_done :: bool

definition new_agent_conn :: "string \<Rightarrow> string \<Rightarrow> string \<Rightarrow> agent_conn" where
  "new_agent_conn loc rem url =
     \<lparr>ac_local = loc, ac_remote = rem, ac_url = url, ac_conn = None,
      ac_state = ConnDisconnected, ac_close_done = False\<rparr>"

text \<open>What the dialer and the stream writer answer.\<close>

datatype dial_result = DialFails | WriterFails nat | Dialed nat

text \<open>The connection afterwards, whether an error is returned, and the sockets closed.\<close>

definition conn_connect :: "dial_result \<Rightarrow> agent_conn \<Rightarrow> agent_conn \<times> bool \<times> nat list" where
  "conn_connect d c =
     (let c1 = c\<lparr>ac_state := ConnConnecting\<rparr> in
      case d of
        DialFails \<Rightarrow> (c1\<lparr>ac_state := ConnDisconnected\<rparr>, True, [])
      | WriterFails s \<Rightarrow> (c1\<lparr>ac_conn := Some s, ac_state := ConnDisconnected\<rparr>, True, [s])
      | Dialed s \<Rightarrow> (c1\<lparr>ac_conn := Some s, ac_state := ConnConnected\<rparr>, False, []))"

definition conn_send :: "agent_conn \<Rightarrow> (string + 'a) \<Rightarrow> string + 'a" where
  "conn_send c written =
     (if ac_state c \<noteq> ConnConnected then Inl ''connection not connected'' else written)"

definition conn_receive :: "agent_conn \<Rightarrow> (string + 'a) \<Rightarrow> string + 'a" where
  "conn_receive c read =
     (if ac_state c \<noteq> ConnConnected then Inl ''connection not connected'' else read)"

text \<open>\<open>closeOnce.Do\<close>: only the first call on a connection object has an effect.\<close>

definition conn_close :: "agent_conn \<Rightarrow> agent_conn \<times> nat list" where
  "conn_close c =
     (if ac_close_done c then (c, [])
      else (c\<lparr>ac_state := ConnDisconnected, ac_close_done := True\<rparr>,
            case ac_conn c of None \<Rightarrow> [] | Some s \<Rightarrow> [s]))"

lemma conn_close_identity [simp]:
  "ac_local (fst (conn_close c)) = ac_local c"
  "ac_remote (fst (conn_close c)) = ac_remote c"
  "ac_url (fst (conn_close c)) = ac_url c"
  by (simp_all add: conn_close_def)

lemma conn_connect_identity [simp]:
  "ac_local (fst (conn_connect d c)) = ac_local c"
  "ac_remote (fst (conn_connect d c)) = ac_remote c"
  "ac_url (fst (conn_connect d c)) = ac_url c"
  by (simp_all add: conn_connect_def Let_def split: dial_result.split)

section \<open>Manager\<close>

record conn_manager =
  cm_local :: string
  cm_conns :: "(string, nat) gomap"
  cm_resolver :: "resolver option"
  cm_store :: "agent_conn list"
  cm_closed :: "nat list"

definition new_conn_manager :: "string \<Rightarrow> conn_manager" where
  "new_conn_manager loc =
     \<lparr>cm_local = loc, cm_conns = [], cm_resolver = None, cm_store = [], cm_closed = []\<rparr>"

definition set_resolver :: "resolver \<Rightarrow> conn_manager \<Rightarrow> conn_manager" where
  "set_resolver r m = m\<lparr>cm_resolver := Some r\<rparr>"

definition get_conn :: "conn_manager \<Rightarrow> string \<Rightarrow> nat option" where
  "get_conn m agent = mget (cm_conns m) agent"

text \<open>The URL that is dialled: the explicit one, else the resolver's.\<close>

definition connection_url :: "conn_manager \<Rightarrow> string \<Rightarrow> string \<Rightarrow> string + string" where
  "connection_url m agent url =
     (case (if url = [] then cm_resolver m else None) of
        None \<Rightarrow> Inr url
      | Some r \<Rightarrow> (case resolve r agent of Inl e \<Rightarrow> Inl e | Inr st \<Rightarrow> Inr (cs_url st)))"

definition get_or_create :: "conn_manager \<Rightarrow> string \<Rightarrow> string \<Rightarrow> conn_manager \<times> (string + nat)" where
  "get_or_create m agent url =
     (case mget (cm_conns m) agent of
        Some p \<Rightarrow> (m, Inr p)
      | None \<Rightarrow>
          (case connection_url m agent url of
             Inl e \<Rightarrow> (m, Inl e)
           | Inr u \<Rightarrow>
               if u = [] then (m, Inl (''no connection URL for agent '' @ agent))
               else
                 (let p = length (cm_store m) in
                  (m\<lparr>cm_conns := mput agent p (cm_conns m),
                     cm_store := cm_store m @ [new_agent_conn (cm_local m) agent u]\<rparr>, Inr p))))"

definition close_at :: "nat \<Rightarrow> conn_manager \<Rightarrow> conn_manager" where
  "close_at p m =
     (if p < length (cm_store m) then
        (let (c, socks) = conn_close (cm_store m ! p) in
         m\<lparr>cm_store := (cm_store m)[p := c], cm_closed := cm_closed m @ socks\<rparr>)
      else m)"

definition remove_conn :: "string \<Rightarrow> conn_manager \<Rightarrow> conn_manager" where
  "remove_conn agent m =
     (case mget (cm_conns m) agent of
        None \<Rightarrow> m
      | Some p \<Rightarrow> (close_at p m)\<lparr>cm_conns := mdel agent (cm_conns m)\<rparr>)"

definition list_conns :: "conn_manager \<Rightarrow> string list" where
  "list_conns m = map fst (cm_conns m)"

definition close_all :: "conn_manager \<Rightarrow> conn_manager" where
  "close_all m = fold (\<lambda>(agent, p) m. (close_at p m)\<lparr>cm_conns := mdel agent (cm_conns m)\<rparr>) (cm_conns m) m"

text \<open>A holder of a connection connects it or closes it directly.\<close>

definition connect_at :: "nat \<Rightarrow> dial_result \<Rightarrow> conn_manager \<Rightarrow> conn_manager" where
  "connect_at p d m =
     (if p < length (cm_store m) then
        (let (c, err, socks) = conn_connect d (cm_store m ! p) in
         m\<lparr>cm_store := (cm_store m)[p := c], cm_closed := cm_closed m @ socks\<rparr>)
      else m)"

datatype transport_op =
    OpSetResolver resolver
  | OpGetOrCreate string string
  | OpRemove string
  | OpCloseAll
  | OpConnect nat dial_result
  | OpClose nat

fun transport_step :: "transport_op \<Rightarrow> conn_manager \<Rightarrow> conn_manager" where
  "transport_step (OpSetResolver r) m = set_resolver r m"
| "transport_step (OpGetOrCreate agent url) m = fst (get_or_create m agent url)"
| "transport_step (OpRemove agent) m = remove_conn agent m"
| "transport_step OpCloseAll m = close_all m"
| "transport_step (OpConnect p d) m = connect_at p d m"
| "transport_step (OpClose p) m = close_at p m"

abbreviation transport_run :: "transport_op list \<Rightarrow> conn_manager \<Rightarrow> conn_manager" where
  "transport_run ops \<equiv> fold transport_step ops"


section \<open>The manager's invariant\<close>

definition transport_inv :: "conn_manager \<Rightarrow> bool" where
  "transport_inv m \<longleftrightarrow> wf_map (cm_conns m)
     \<and> (\<forall>agent p. mget (cm_conns m) agent = Some p \<longrightarrow>
          p < length (cm_store m) \<and> ac_remote (cm_store m ! p) = agent)
     \<and> (\<forall>c \<in> set (cm_store m). ac_local c = cm_local m \<and> ac_url c \<noteq> [])"

text \<open>What never changes about a connection object once it exists.\<close>

definition conn_identity :: "agent_conn \<Rightarrow> string \<times> string \<times> string" where
  "conn_identity c = (ac_local c, ac_remote c, ac_url c)"

definition store_extends :: "conn_manager \<Rightarrow> conn_manager \<Rightarrow> bool" where
  "store_extends m m' \<longleftrightarrow> cm_local m' = cm_local m \<and>
     prefix (map conn_identity (cm_store m)) (map conn_identity (cm_store m'))"

lemma store_extends_refl [simp]: "store_extends m m"
  by (simp add: store_extends_def)

lemma store_extends_trans: "store_extends a b \<Longrightarrow> store_extends b c \<Longrightarrow> store_extends a c"
  unfolding store_extends_def using prefix_order.trans by force

lemma map_identity_update:
  "p < length s \<Longrightarrow> conn_identity c = conn_identity (s ! p) \<Longrightarrow>
     map conn_identity (s[p := c]) = map conn_identity s"
  by (simp add: map_update) (metis list_update_id nth_map)

lemma close_at_store:
  "cm_local (close_at p m) = cm_local m"
  "map conn_identity (cm_store (close_at p m)) = map conn_identity (cm_store m)"
  "cm_conns (close_at p m) = cm_conns m"
  by (simp_all add: close_at_def split_beta Let_def map_identity_update conn_identity_def)

lemma connect_at_store:
  "cm_local (connect_at p d m) = cm_local m"
  "map conn_identity (cm_store (connect_at p d m)) = map conn_identity (cm_store m)"
  "cm_conns (connect_at p d m) = cm_conns m"
  by (simp_all add: connect_at_def split_beta Let_def map_identity_update conn_identity_def)

text \<open>The invariant only depends on the map and on the identities.\<close>

lemma same_identities:
  assumes "map conn_identity s' = map conn_identity s"
  shows "length s' = length s"
    and "p < length s \<Longrightarrow> ac_remote (s' ! p) = ac_remote (s ! p)"
    and "c \<in> set s' \<Longrightarrow> \<exists>c0 \<in> set s. conn_identity c0 = conn_identity c"
proof -
  show len: "length s' = length s" using assms by (metis length_map)
  show "ac_remote (s' ! p) = ac_remote (s ! p)" if "p < length s"
    using assms that len by (metis conn_identity_def nth_map prod.inject)
  show "\<exists>c0 \<in> set s. conn_identity c0 = conn_identity c" if "c \<in> set s'"
    using assms that by (metis imageE image_eqI image_set)
qed

lemma transport_inv_cong:
  assumes "transport_inv m" and "cm_local m' = cm_local m" and "cm_conns m' = cm_conns m"
    and same: "map conn_identity (cm_store m') = map conn_identity (cm_store m)"
  shows "transport_inv m'"
proof -
  have "ac_local c = cm_local m \<and> ac_url c \<noteq> []" if c: "c \<in> set (cm_store m')" for c
  proof -
    from same_identities(3) [OF same c] obtain c0
      where "c0 \<in> set (cm_store m)" and "conn_identity c0 = conn_identity c" by blast
    with assms(1) show ?thesis by (auto simp: transport_inv_def conn_identity_def)
  qed
  with assms same_identities(1,2) [OF same] show ?thesis by (auto simp: transport_inv_def)
qed

lemma transport_inv_delete: "transport_inv m \<Longrightarrow> transport_inv (m\<lparr>cm_conns := mdel agent (cm_conns m)\<rparr>)"
  by (auto simp: transport_inv_def)

lemma transport_inv_close_at: "transport_inv m \<Longrightarrow> transport_inv (close_at p m)"
  by (rule transport_inv_cong) (simp_all only: close_at_store)

definition close_entry :: "string \<times> nat \<Rightarrow> conn_manager \<Rightarrow> conn_manager" where
  "close_entry e m = (close_at (snd e) m)\<lparr>cm_conns := mdel (fst e) (cm_conns m)\<rparr>"

lemma close_all_entries: "close_all m = fold close_entry (cm_conns m) m"
  unfolding close_all_def by (rule arg_cong [where f = "\<lambda>f. fold f (cm_conns m) m"]) (auto simp: close_entry_def fun_eq_iff)

lemma close_entry_inv: "transport_inv m \<Longrightarrow> transport_inv (close_entry e m)"
proof -
  assume "transport_inv m"
  then have "transport_inv (close_at (snd e) m)" by (rule transport_inv_close_at)
  from transport_inv_delete [OF this] show ?thesis by (simp add: close_entry_def close_at_store)
qed

lemma close_entry_extends: "store_extends m (close_entry e m)"
  by (simp add: close_entry_def store_extends_def close_at_store)

lemma close_entries:
  "transport_inv m \<Longrightarrow> transport_inv (fold close_entry es m) \<and> store_extends m (fold close_entry es m)"
  by (induction es arbitrary: m) (auto intro: close_entry_inv close_entry_extends store_extends_trans)

lemma remove_conn_entry:
  "remove_conn agent m =
     (case mget (cm_conns m) agent of None \<Rightarrow> m | Some p \<Rightarrow> close_entry (agent, p) m)"
  by (simp add: remove_conn_def close_entry_def split: option.split)

lemma get_or_create_cases:
  obtains p where "get_or_create m agent url = (m, Inr p)" "mget (cm_conns m) agent = Some p"
  | e where "get_or_create m agent url = (m, Inl e)" "mget (cm_conns m) agent = None"
  | u where "connection_url m agent url = Inr u" "u \<noteq> []" "mget (cm_conns m) agent = None"
      "get_or_create m agent url =
         (m\<lparr>cm_conns := mput agent (length (cm_store m)) (cm_conns m),
            cm_store := cm_store m @ [new_agent_conn (cm_local m) agent u]\<rparr>,
          Inr (length (cm_store m)))"
proof (cases "mget (cm_conns m) agent")
  case None
  show thesis
  proof (cases "connection_url m agent url")
    case (Inl e)
    with None show thesis by (intro that(2)) (auto simp: get_or_create_def)
  next
    case (Inr u)
    with None show thesis
      by (cases "u = []") (auto simp: get_or_create_def Let_def intro: that(2,3))
  qed
qed (auto simp: get_or_create_def intro: that(1))

lemma get_or_create_inv: "transport_inv m \<Longrightarrow> transport_inv (fst (get_or_create m agent url))"
proof (cases rule: get_or_create_cases [of m agent url])
  case (3 u)
  moreover assume "transport_inv m"
  ultimately show ?thesis
    by (auto simp: transport_inv_def new_agent_conn_def nth_append less_Suc_eq split: if_splits)
qed auto

lemma transport_step_inv: "transport_inv m \<Longrightarrow> transport_inv (transport_step s m)"
proof (cases s)
  case (OpConnect p d)
  assume "transport_inv m"
  then have "transport_inv (connect_at p d m)"
    by (rule transport_inv_cong) (simp_all only: connect_at_store)
  with OpConnect show ?thesis by simp
qed (auto simp: get_or_create_inv remove_conn_entry close_entry_inv close_all_entries close_entries
  transport_inv_close_at set_resolver_def transport_inv_def [of "cm_resolver_update _ _"]
  transport_inv_def [of m] split: option.split)

lemma transport_run_inv: "transport_inv m \<Longrightarrow> transport_inv (transport_run ops m)"
  by (induction ops arbitrary: m) (auto intro: transport_step_inv)

lemma transport_inv_new [simp]: "transport_inv (new_conn_manager loc)"
  by (simp add: transport_inv_def new_conn_manager_def)

lemma transport_step_extends: "transport_inv m \<Longrightarrow> store_extends m (transport_step s m)"
proof (cases s)
  case (OpGetOrCreate agent url)
  then show ?thesis
    by (cases rule: get_or_create_cases [of m agent url]) (auto simp: store_extends_def)
qed (auto simp: remove_conn_entry close_entry_extends close_all_entries close_entries
  store_extends_def [of m "close_at _ _"] store_extends_def [of m "connect_at _ _ _"]
  store_extends_def [of m "cm_resolver_update _ _"] set_resolver_def close_at_store connect_at_store split: option.split)

lemma transport_run_extends: "transport_inv m \<Longrightarrow> store_extends m (transport_run ops m)"
proof (induction ops arbitrary: m)
  case (Cons s ops)
  from Cons.prems have "store_extends m (transport_step s m)" by (rule transport_step_extends)
  moreover from Cons have "store_extends (transport_step s m) (transport_run ops (transport_step s m))"
    by (simp add: transport_step_inv)
  ultimately show ?case by (auto intro: store_extends_trans)
qed simp

lemma transport_run_local: "cm_local (transport_run ops (new_conn_manager loc)) = loc"
  using transport_run_extends [OF transport_inv_new, of loc ops]
  by (simp add: store_extends_def new_conn_manager_def)


section \<open>Properties\<close>

text \<open>
  After any history of LAN discoveries and removals, Resolve answers the endpoint of the
  latest discovery that was not removed since; without one it asks the cloud directory, answers
  the relay when the directory says the agent is online, and reports the agent offline otherwise.
\<close>

theorem resolve_lan_first:
  "resolve (fold lan_table.apply_write ws (new_resolver c)) agent =
     (case last_write ws agent None of
        Some url \<Rightarrow> Inr \<lparr>cs_mode = ModeLAN, cs_url = url\<rparr>
      | None \<Rightarrow>
          (case map_option (\<lambda>lookup. lookup agent) c of
             Some (Inr res) \<Rightarrow>
               if lr_online res then Inr \<lparr>cs_mode = ModeCloud, cs_url = lr_relay_endpoint res\<rparr>
               else Inl (''agent '' @ agent @ '' is offline'')
           | _ \<Rightarrow> Inl (''agent '' @ agent @ '' is offline'')))"
proof -
  let ?r = "fold lan_table.apply_write ws (new_resolver c)"
  have ok: "list_all lan_table.ok_write ws"
  proof (induction ws)
    case (Cons w ws)
    then show ?case by (cases w) auto
  qed simp
  have "lan_lookup ?r agent = last_write ws agent (lan_lookup (new_resolver c) agent)"
    by (rule lan_table.get_history [OF lan_inv_new ok])
  then have look: "mget (rs_lan_map ?r) agent = last_write ws agent None"
    by (simp add: lan_lookup_def new_resolver_def)
  have cloud: "rs_cloud ?r = c" by (simp add: lan_writes_cloud new_resolver_def)
  show ?thesis unfolding resolve_def look cloud by (auto split: option.split sum.split)
qed

text \<open>
  C24: The manager keeps one connection object per remote agent. In every run, the object handed
  out for an agent has that agent as its peer, this agent as its own identity and a non-empty
  URL; it keeps them through every later operation (connects, closes, removals included); two
  agents never share an object; and GetOrCreate with any URL returns the same object again and
  changes nothing.
\<close>

theorem one_connection_per_agent:
  assumes "get_conn (transport_run ops (new_conn_manager loc)) agent = Some p"
  shows "ac_remote (cm_store (transport_run (ops @ later) (new_conn_manager loc)) ! p) = agent
    \<and> ac_local (cm_store (transport_run (ops @ later) (new_conn_manager loc)) ! p) = loc
    \<and> ac_url (cm_store (transport_run (ops @ later) (new_conn_manager loc)) ! p) \<noteq> []
    \<and> (get_conn (transport_run ops (new_conn_manager loc)) other = Some p \<longrightarrow> other = agent)
    \<and> get_or_create (transport_run ops (new_conn_manager loc)) agent url =
        (transport_run ops (new_conn_manager loc), Inr p)"
proof -
  let ?m = "transport_run ops (new_conn_manager loc)"
  let ?m' = "transport_run later ?m"
  have inv: "transport_inv ?m" by (simp add: transport_run_inv)
  have look: "mget (cm_conns ?m) agent = Some p" using assms by (simp add: get_conn_def)
  have here: "p < length (cm_store ?m)" "ac_remote (cm_store ?m ! p) = agent"
    using inv look by (auto simp: transport_inv_def)
  have "prefix (map conn_identity (cm_store ?m)) (map conn_identity (cm_store ?m'))"
    using transport_run_extends [OF inv, of later] by (simp add: store_extends_def)
  then obtain ids where
    "map conn_identity (cm_store ?m') = map conn_identity (cm_store ?m) @ ids"
    by (auto simp: prefix_def)
  then have "map conn_identity (cm_store ?m') ! p = conn_identity (cm_store ?m ! p)
      \<and> p < length (map conn_identity (cm_store ?m'))"
    using here(1) by (simp add: nth_append)
  then have same: "conn_identity (cm_store ?m' ! p) = conn_identity (cm_store ?m ! p)" by (metis length_map nth_map)
  have "cm_store ?m ! p \<in> set (cm_store ?m)" using here(1) by simp
  then have "ac_local (cm_store ?m ! p) = loc" "ac_url (cm_store ?m ! p) \<noteq> []"
    using inv transport_run_local [of ops loc] unfolding transport_inv_def by metis+
  moreover have "get_conn ?m other = Some p \<longrightarrow> other = agent"
    using inv here by (auto simp: transport_inv_def get_conn_def)
  moreover have "get_or_create ?m agent url = (?m, Inr p)"
    using look by (simp add: get_or_create_def)
  ultimately show ?thesis using here(2) same by (simp add: conn_identity_def)
qed

theorem one_connection_per_agent_witness:
  "get_conn (transport_run [OpGetOrCreate ''bob'' ''ws://b'', OpConnect 0 (Dialed 7)]
     (new_conn_manager ''me'')) ''bob'' = Some 0
   \<and> ac_remote (cm_store (transport_run ([OpGetOrCreate ''bob'' ''ws://b'', OpConnect 0 (Dialed 7)]
        @ [OpRemove ''bob'']) (new_conn_manager ''me'')) ! 0) = ''bob''"
proof -
  have a: "get_conn (transport_run [OpGetOrCreate ''bob'' ''ws://b'', OpConnect 0 (Dialed 7)]
     (new_conn_manager ''me'')) ''bob'' = Some 0" by code_simp
  from a one_connection_per_agent [OF a, of "[OpRemove ''bob'']"] show ?thesis by simp
qed

lemma close_at_done:
  "p < length (cm_store m) \<Longrightarrow> ac_close_done (cm_store m ! p) \<Longrightarrow> close_at p m = m"
  by (simp add: close_at_def conn_close_def)

lemma close_at_sets_done:
  "p < length (cm_store m) \<Longrightarrow> ac_close_done (cm_store (close_at p m) ! p)"
  by (simp add: close_at_def conn_close_def)

lemma close_at_length [simp]: "length (cm_store (close_at p m)) = length (cm_store m)"
  by (simp add: close_at_def split_beta Let_def)

lemma close_at_repeated:
  "p < length (cm_store m) \<Longrightarrow> ac_close_done (cm_store m ! p) \<Longrightarrow>
     transport_run (replicate n (OpClose p)) m = m"
  by (induction n) (simp_all add: close_at_done)

text \<open>
  A connection object can be closed once only. When it is connected again after Close, no
  later Close, however often it is called, and no removal of its agent closes the new socket or
  leaves the connected state: the socket leaks.
\<close>

theorem reconnect_never_closed:
  assumes "p < length (cm_store m)"
  shows "ac_state (cm_store (transport_run
      ([OpClose p, OpConnect p (Dialed s)] @ replicate n (OpClose p)) m) ! p) = ConnConnected
    \<and> cm_closed (transport_run ([OpClose p, OpConnect p (Dialed s)] @ replicate n (OpClose p)) m) =
        cm_closed (close_at p m)
    \<and> close_at p (transport_run [OpClose p, OpConnect p (Dialed s)] m) =
        transport_run [OpClose p, OpConnect p (Dialed s)] m"
proof -
  let ?m1 = "close_at p m"
  let ?m2 = "connect_at p (Dialed s) ?m1"
  have p: "p < length (cm_store ?m2)" and st: "ac_state (cm_store ?m2 ! p) = ConnConnected"
    and shut: "ac_close_done (cm_store ?m2 ! p)" and cl: "cm_closed ?m2 = cm_closed ?m1"
    using assms close_at_sets_done [OF assms]
    by (simp_all add: connect_at_def conn_connect_def Let_def)
  have "transport_run ([OpClose p, OpConnect p (Dialed s)] @ replicate n (OpClose p)) m =
      transport_run (replicate n (OpClose p)) ?m2"
    by (simp only: fold_append comp_apply fold_simps transport_step.simps)
  then show ?thesis
    by (simp only: close_at_repeated [OF p shut] st cl fold_simps transport_step.simps
      close_at_done [OF p shut] simp_thms)
qed

theorem reconnect_never_closed_witness:
  "ac_state (cm_store (transport_run ([OpClose 0, OpConnect 0 (Dialed 8)] @ replicate 2 (OpClose 0))
     (fst (get_or_create (new_conn_manager ''me'') ''bob'' ''ws://b''))) ! 0) = ConnConnected"
proof -
  have "0 < length (cm_store (fst (get_or_create (new_conn_manager ''me'') ''bob'' ''ws://b'')))"
    by code_simp
  from reconnect_never_closed [OF this, of 8 2] show ?thesis by (rule conjunct1)
qed

end
