(* ===== verification/LanSessions.thy ===== *)
theory LanSessions
  imports KeyedStore GoBase64
begin

text \<open>
  Chat sessions of LAN clients (\<open>pkg/social/session.go\<close>): one session per paired device, kept
  under a key made of the first 16 hexadecimal digits of the device identifier's SHA-256 hash.
  The hash function is Go's \<open>crypto/sha256\<close>, a parameter \<open>sha\<close> here; times are numbers.
\<close>

section \<open>Model\<close>

record lan_session =
  ls_device_id :: string
  ls_session_key :: string
  ls_last_active :: int

type_synonym lan_sessions = "(string, lan_session) gomap"

definition new_session_manager :: lan_sessions where
  "new_session_manager = []"

definition generate_session_key :: "(string \<Rightarrow> string) \<Rightarrow> string \<Rightarrow> string" where
  "generate_session_key sha device = ''lan:'' @ take 16 (hex_enc (sha device))"

definition get_or_create_session ::
    "(string \<Rightarrow> string) \<Rightarrow> int \<Rightarrow> string \<Rightarrow> lan_sessions \<Rightarrow> lan_sessions \<times> lan_session" where
  "get_or_create_session sha now device sm =
     (let key = generate_session_key sha device in
      case mget sm key of
        Some s \<Rightarrow> (let s' = s\<lparr>ls_last_active := now\<rparr> in (mput key s' sm, s'))
      | None \<Rightarrow>
          (let s = \<lparr>ls_device_id = device, ls_session_key = key, ls_last_active = now\<rparr> in
           (mput key s sm, s)))"

definition get_session :: "(string \<Rightarrow> string) \<Rightarrow> lan_sessions \<Rightarrow> string \<Rightarrow> lan_session option" where
  "get_session sha sm device = mget sm (generate_session_key sha device)"

definition remove_session :: "(string \<Rightarrow> string) \<Rightarrow> string \<Rightarrow> lan_sessions \<Rightarrow> lan_sessions" where
  "remove_session sha device sm = mdel (generate_session_key sha device) sm"

definition cleanup_inactive_sessions :: "int \<Rightarrow> int \<Rightarrow> lan_sessions \<Rightarrow> lan_sessions \<times> nat" where
  "cleanup_inactive_sessions now max_inactive sm =
     fold (\<lambda>(key, s) (m, removed).
             if now - ls_last_active s > max_inactive then (mdel key m, removed + 1)
             else (m, removed))
       sm (sm, 0)"

definition session_count :: "lan_sessions \<Rightarrow> nat" where
  "session_count sm = length sm"

datatype lan_op = LanActive int string | LanRemove string | LanCleanup int int

fun lan_step :: "(string \<Rightarrow> string) \<Rightarrow> lan_op \<Rightarrow> lan_sessions \<Rightarrow> lan_sessions" where
  "lan_step sha (LanActive now device) sm = fst (get_or_create_session sha now device sm)"
| "lan_step sha (LanRemove device) sm = remove_session sha device sm"
| "lan_step sha (LanCleanup now max_inactive) sm = fst (cleanup_inactive_sessions now max_inactive sm)"

abbreviation lan_run :: "(string \<Rightarrow> string) \<Rightarrow> lan_op list \<Rightarrow> lan_sessions \<Rightarrow> lan_sessions" where
  "lan_run sha ops \<equiv> fold (lan_step sha) ops"

fun lan_devices :: "lan_op list \<Rightarrow> string set" where
  "lan_devices [] = {}"
| "lan_devices (LanActive now d # ops) = insert d (lan_devices ops)"
| "lan_devices (_ # ops) = lan_devices ops"

section \<open>Clean-up\<close>

text \<open>The loop deletes from the map it ranges over; together the deletions are one filter.\<close>

lemma cleanup_loop:
  assumes "wf_map (done_part @ todo)"
  shows "fold (\<lambda>(key, s) (m, removed).
             if now - ls_last_active s > lim then (mdel key m, removed + 1) else (m, removed))
       todo (done_part @ todo, n) =
     (done_part @ filter (\<lambda>(k, s). \<not> now - ls_last_active s > lim) todo,
      n + length (filter (\<lambda>(k, s). now - ls_last_active s > lim) todo))"
  using assms
proof (induction todo arbitrary: done_part n)
  case (Cons e todo)
  obtain k s where e: "e = (k, s)" by fastforce
  show ?case
  proof (cases "now - ls_last_active s > lim")
    case True
    have fresh: "k \<notin> fst ` set done_part" "k \<notin> fst ` set todo"
      using Cons.prems e by (auto simp: wf_map_def)
    then have "mdel k (done_part @ todo) = done_part @ todo"
      by (simp add: image_Un)
    moreover have "mdel k (done_part @ e # todo) = mdel k (done_part @ todo)"
      using e by (simp add: AList.delete_eq)
    ultimately have "mdel k (done_part @ e # todo) = done_part @ todo" by simp
    moreover have "wf_map (done_part @ todo)" using Cons.prems by (auto simp: wf_map_def)
    ultimately show ?thesis using True e Cons.IH [of done_part "Suc n"] by simp
  next
    case False
    then show ?thesis using e Cons.IH [of "done_part @ [e]" n] Cons.prems by simp
  qed
qed simp

lemma cleanup_filter:
  "wf_map sm \<Longrightarrow> cleanup_inactive_sessions now lim sm =
     (filter (\<lambda>(k, s). now - ls_last_active s \<le> lim) sm,
      length (filter (\<lambda>(k, s). now - ls_last_active s > lim) sm))"
  unfolding cleanup_inactive_sessions_def
  using cleanup_loop [of "[]" sm lim now 0] by (simp add: linorder_not_less)

section \<open>Invariant\<close>

definition lan_sessions_inv :: "(string \<Rightarrow> string) \<Rightarrow> string set \<Rightarrow> lan_sessions \<Rightarrow> bool" where
  "lan_sessions_inv sha D sm \<longleftrightarrow> wf_map sm \<and>
     (\<forall>k s. mget sm k = Some s \<longrightarrow> ls_session_key s = k \<and>
        ls_device_id s \<in> D \<and> generate_session_key sha (ls_device_id s) = k)"

lemma lan_sessions_inv_mono: "lan_sessions_inv sha D sm \<Longrightarrow> D \<subseteq> E \<Longrightarrow> lan_sessions_inv sha E sm"
  unfolding lan_sessions_inv_def by blast

lemma lan_sessions_inv_active:
  "lan_sessions_inv sha D sm \<Longrightarrow>
     lan_sessions_inv sha (insert device D) (fst (get_or_create_session sha now device sm))"
  by (auto simp: lan_sessions_inv_def get_or_create_session_def Let_def split: option.splits if_splits)

lemma lan_sessions_inv_remove: "lan_sessions_inv sha D sm \<Longrightarrow> lan_sessions_inv sha D (remove_session sha device sm)"
  by (auto simp: lan_sessions_inv_def remove_session_def split: if_splits)

lemma lan_sessions_inv_cleanup:
  "lan_sessions_inv sha D sm \<Longrightarrow> lan_sessions_inv sha D (fst (cleanup_inactive_sessions now lim sm))"
  by (auto simp: lan_sessions_inv_def cleanup_filter mget_filter split: option.splits if_splits)

lemma lan_run_inv:
  "lan_sessions_inv sha D sm \<Longrightarrow> lan_sessions_inv sha (D \<union> lan_devices ops) (lan_run sha ops sm)"
proof (induction ops arbitrary: sm D)
  case (Cons a ops)
  show ?case
  proof (cases a)
    case (LanActive now d)
    with Cons.IH [OF lan_sessions_inv_active [OF Cons.prems, of d now]] show ?thesis by simp
  next
    case (LanRemove d)
    with Cons.IH [OF lan_sessions_inv_remove [OF Cons.prems, of d]] show ?thesis by simp
  next
    case (LanCleanup now lim)
    with Cons.IH [OF lan_sessions_inv_cleanup [OF Cons.prems, of now lim]] show ?thesis by simp
  qed
qed simp

lemma lan_sessions_inv_new [simp]: "lan_sessions_inv sha {} new_session_manager"
  by (simp add: lan_sessions_inv_def new_session_manager_def)

lemma lan_run_inv_new: "lan_sessions_inv sha (lan_devices ops) (lan_run sha ops new_session_manager)"
  using lan_run_inv [OF lan_sessions_inv_new, of sha ops] by simp

section \<open>Properties\<close>

text \<open>
  In every run of the LAN session manager, the session a device gets is marked active now and
  belongs to that device, or to an earlier device of the run whose hash agrees in its first 16
  digits: conversations are isolated up to collisions of the truncated hash.
\<close>

theorem session_isolation:
  "ls_last_active (snd (get_or_create_session sha now device (lan_run sha ops new_session_manager))) = now
   \<and> get_session sha (fst (get_or_create_session sha now device (lan_run sha ops new_session_manager))) device =
       Some (snd (get_or_create_session sha now device (lan_run sha ops new_session_manager)))
   \<and> (ls_device_id (snd (get_or_create_session sha now device (lan_run sha ops new_session_manager))) = device
      \<or> (\<exists>d \<in> lan_devices ops. d = ls_device_id (snd (get_or_create_session sha now device (lan_run sha ops new_session_manager)))
          \<and> generate_session_key sha d = generate_session_key sha device))"
  using lan_run_inv_new [of sha ops]
  by (auto simp: lan_sessions_inv_def get_or_create_session_def get_session_def Let_def
      split: option.splits)

text \<open>
  A clean-up removes exactly the sessions that were inactive for longer than the limit: the
  others are found unchanged, and the number returned is the drop of the session count.
\<close>

theorem cleanup_exact:
  "get_session sha (fst (cleanup_inactive_sessions now lim (lan_run sha ops new_session_manager))) device =
     (case get_session sha (lan_run sha ops new_session_manager) device of
        None \<Rightarrow> None
      | Some s \<Rightarrow> if now - ls_last_active s > lim then None else Some s)
   \<and> session_count (fst (cleanup_inactive_sessions now lim (lan_run sha ops new_session_manager)))
      + snd (cleanup_inactive_sessions now lim (lan_run sha ops new_session_manager))
      = session_count (lan_run sha ops new_session_manager)"
proof -
  let ?sm = "lan_run sha ops new_session_manager"
  have wf: "wf_map ?sm" using lan_run_inv_new [of sha ops] by (simp add: lan_sessions_inv_def)
  have "length (filter (\<lambda>(k, s). now - ls_last_active s \<le> lim) ?sm)
      + length (filter (\<lambda>(k, s). now - ls_last_active s > lim) ?sm) = length ?sm"
    using sum_length_filter_compl [of "\<lambda>(k, s). now - ls_last_active s \<le> lim" ?sm]
    by (simp add: split_beta' linorder_not_le)
  then show ?thesis
    by (simp add: cleanup_filter [OF wf] session_count_def get_session_def mget_filter [OF wf]
        linorder_not_less split: option.split)
qed

end
