(* ===== verification/BoundedLog.thy ===== *)
theory BoundedLog
  imports Prelude
begin

text \<open>
  Slices that keep only their newest entries, as the intercom's recent events and the
  blackboard's proposals do: append, then \<open>s = s[len(s)-max:]\<close> when the slice became longer than
  \<open>max\<close>. The locale \<open>bounded_log\<close> is the contract of such a log; a log that keeps it holds exactly
  the newest entries ever pushed, which is proved here once for all providers.
\<close>

section \<open>Append and trim\<close>

text \<open>\<open>None\<close> is the run-time panic of the slice expression for a negative bound.\<close>

definition append_trim :: "int \<Rightarrow> 'a \<Rightarrow> 'a list \<Rightarrow> 'a list option" where
  "append_trim max_len x xs =
     (let ys = xs @ [x] in
      if int (length ys) > max_len then
        (if max_len < 0 then None else Some (drop (length ys - nat max_len) ys))
      else Some ys)"

lemma append_trim_keep_last:
  "0 \<le> max_len \<Longrightarrow> append_trim max_len x xs = Some (keep_last (nat max_len) (xs @ [x]))"
  by (auto simp: append_trim_def keep_last_def Let_def nat_le_iff)

lemma append_trim_negative: "max_len < 0 \<Longrightarrow> append_trim max_len x xs = None"
  by (simp add: append_trim_def Let_def)

section \<open>The interface\<close>

locale bounded_log =
  fixes push :: "'e \<Rightarrow> 's \<Rightarrow> 's"
    and items :: "'s \<Rightarrow> 'i list"
    and entry :: "'e \<Rightarrow> 'i list"
    and cap :: nat
    and inv :: "'s \<Rightarrow> bool"
  assumes items_push: "inv s \<Longrightarrow> items (push e s) = keep_last cap (items s @ entry e)"
    and inv_push: "inv s \<Longrightarrow> inv (push e s)"
begin

lemma inv_pushes: "inv s \<Longrightarrow> inv (fold push es s)"
  by (induction es arbitrary: s) (auto intro: inv_push)

lemma items_pushes:
  assumes "inv s" and "length (items s) \<le> cap"
  shows "items (fold push es s) = keep_last cap (items s @ concat (map entry es))"
  using assms
proof (induction es arbitrary: s)
  case (Cons e es)
  have glue: "keep_last cap (keep_last cap xs @ ys) = keep_last cap (xs @ ys)" for xs ys :: "'i list"
  proof (cases "cap \<le> length ys")
    case True
    then show ?thesis by (simp add: keep_last_def)
  next
    case False
    then have "keep_last cap (keep_last cap xs @ ys) = keep_last (cap - length ys) (keep_last cap xs) @ ys"
      by (simp add: keep_last_append)
    also have "\<dots> = keep_last (cap - length ys) xs @ ys"
      by (simp add: keep_last_keep_last min_def)
    finally show ?thesis using False by (simp add: keep_last_append)
  qed
  have "length (items (push e s)) \<le> cap" using Cons.prems by (simp add: items_push)
  with Cons show ?case by (simp add: inv_push items_push glue)
qed simp

lemma length_items_pushes: "inv s \<Longrightarrow> length (items s) \<le> cap \<Longrightarrow> length (items (fold push es s)) \<le> cap"
  by (simp add: items_pushes)

lemma newest_kept:
  "inv s \<Longrightarrow> length (items s) \<le> cap \<Longrightarrow> length (concat (map entry es)) \<le> cap \<Longrightarrow>
     suffix (concat (map entry es)) (items (fold push es s))"
  by (simp add: items_pushes keep_last_append suffix_appendI)

end

end
