(* ===== verification/Intercom.thy ===== *)
theory Intercom
  imports KeyedStore BoundedLog "HOL-Library.Multiset"
begin

text \<open>
  The delegation system's event bus (\<open>pkg/delegation/intercom.go\<close>, type \<open>Intercom\<close>).
  Subscriptions carry a number from a counter that \<open>Clear\<close> does not reset; the unsubscribe
  closure of a subscription is the pair of its topic and its number. \<open>Emit\<close> first stores the event
  in the topic's recent events and then calls the topic's handlers and the wildcard handlers; here
  it returns the subscriptions it calls, in order. A handler that panics is recovered, so the
  calls after it still happen.

  A recent-event bound below zero makes every \<open>Emit\<close> panic; that is the value \<open>None\<close>.
\<close>

section \<open>State\<close>

record intercom_event =
  ie_topic :: string
  ie_user_id :: string
  ie_data :: "(string, string) gomap"
  ie_timestamp :: int

record 'h intercom_sub =
  sub_id :: nat
  sub_h :: 'h

record 'h intercom =
  ic_handlers :: "(string, 'h intercom_sub list) gomap"
  ic_wildcards :: "'h intercom_sub list"
  ic_recent :: "(string, intercom_event list) gomap"
  ic_max_recent :: int
  ic_next_id :: nat

definition new_intercom :: "int \<Rightarrow> 'h intercom" where
  "new_intercom max_recent =
     \<lparr>ic_handlers = [], ic_wildcards = [], ic_recent = [], ic_max_recent = max_recent, ic_next_id = 0\<rparr>"

text \<open>Reading a missing key of a map of slices yields the empty slice.\<close>

definition slot :: "('k, 'v list) gomap \<Rightarrow> 'k \<Rightarrow> 'v list" where
  "slot m k = (case mget m k of None \<Rightarrow> [] | Some xs \<Rightarrow> xs)"

lemma slot_Nil [simp]: "slot [] k = []"
  by (simp add: slot_def)

lemma slot_mput [simp]: "slot (mput k xs m) k' = (if k' = k then xs else slot m k')"
  by (simp add: slot_def)

section \<open>Operations\<close>

definition subscribe_on :: "string \<Rightarrow> 'h \<Rightarrow> 'h intercom \<Rightarrow> 'h intercom \<times> nat" where
  "subscribe_on topic h i =
     (let sid = ic_next_id i + 1 in
      (i\<lparr>ic_next_id := sid,
         ic_handlers := mput topic (slot (ic_handlers i) topic @ [\<lparr>sub_id = sid, sub_h = h\<rparr>]) (ic_handlers i)\<rparr>,
       sid))"

definition subscribe_any :: "'h \<Rightarrow> 'h intercom \<Rightarrow> 'h intercom \<times> nat" where
  "subscribe_any h i =
     (let sid = ic_next_id i + 1 in
      (i\<lparr>ic_next_id := sid, ic_wildcards := ic_wildcards i @ [\<lparr>sub_id = sid, sub_h = h\<rparr>]\<rparr>, sid))"

text \<open>The loop of both unsubscribe closures: the first entry with the number is cut out.\<close>

fun drop_sub :: "nat \<Rightarrow> 'h intercom_sub list \<Rightarrow> 'h intercom_sub list" where
  "drop_sub sid [] = []"
| "drop_sub sid (s # ss) = (if sub_id s = sid then ss else s # drop_sub sid ss)"

definition unsubscribe_on :: "string \<Rightarrow> nat \<Rightarrow> 'h intercom \<Rightarrow> 'h intercom" where
  "unsubscribe_on topic sid i =
     (if sid \<in> sub_id ` set (slot (ic_handlers i) topic)
      then i\<lparr>ic_handlers := mput topic (drop_sub sid (slot (ic_handlers i) topic)) (ic_handlers i)\<rparr>
      else i)"

definition unsubscribe_any :: "nat \<Rightarrow> 'h intercom \<Rightarrow> 'h intercom" where
  "unsubscribe_any sid i = i\<lparr>ic_wildcards := drop_sub sid (ic_wildcards i)\<rparr>"

definition store_recent :: "intercom_event \<Rightarrow> 'h intercom \<Rightarrow> 'h intercom option" where
  "store_recent ev i =
     map_option (\<lambda>events. i\<lparr>ic_recent := mput (ie_topic ev) events (ic_recent i)\<rparr>)
       (append_trim (ic_max_recent i) ev (slot (ic_recent i) (ie_topic ev)))"

definition called_subs :: "'h intercom \<Rightarrow> string \<Rightarrow> 'h intercom_sub list" where
  "called_subs i topic = slot (ic_handlers i) topic @ ic_wildcards i"

definition emit ::
    "int \<Rightarrow> string \<Rightarrow> string \<Rightarrow> (string, string) gomap \<Rightarrow> 'h intercom \<Rightarrow>
     ('h intercom \<times> ('h intercom_sub \<times> intercom_event) list) option" where
  "emit now topic user data i =
     (let ev = \<lparr>ie_topic = topic, ie_user_id = user, ie_data = data, ie_timestamp = now\<rparr> in
      map_option (\<lambda>i'. (i', map (\<lambda>s. (s, ev)) (called_subs i' topic))) (store_recent ev i))"

definition recent :: "'h intercom \<Rightarrow> string \<Rightarrow> int \<Rightarrow> intercom_event list" where
  "recent i topic limit =
     (let events = slot (ic_recent i) topic;
          n = (if limit \<le> 0 \<or> limit > int (length events) then length events else nat limit)
      in drop (length events - n) events)"

text \<open>
  The exchange sort of \<open>RecentAll\<close>: for a fixed first element, every later element with a larger
  time stamp is swapped with it.
\<close>

fun exchange :: "intercom_event \<Rightarrow> intercom_event list \<Rightarrow> intercom_event \<times> intercom_event list" where
  "exchange x [] = (x, [])"
| "exchange x (y # ys) =
     (if ie_timestamp x < ie_timestamp y
      then (let (m, r) = exchange y ys in (m, x # r))
      else (let (m, r) = exchange x ys in (m, y # r)))"

lemma exchange_length: "length (snd (exchange x ys)) = length ys"
  by (induction x ys rule: exchange.induct) (auto simp: split_beta Let_def)

function newest_first :: "intercom_event list \<Rightarrow> intercom_event list" where
  "newest_first [] = []"
| "newest_first (x # xs) = fst (exchange x xs) # newest_first (snd (exchange x xs))"
  by pat_completeness auto
termination
  by (relation "measure length") (auto simp: exchange_length)

definition recent_all :: "'h intercom \<Rightarrow> int \<Rightarrow> intercom_event list" where
  "recent_all i limit =
     (let all_events = newest_first (concat (map snd (ic_recent i))) in
      if limit > 0 \<and> int (length all_events) > limit then take (nat limit) all_events else all_events)"

definition clear_intercom :: "'h intercom \<Rightarrow> 'h intercom" where
  "clear_intercom i = i\<lparr>ic_handlers := [], ic_wildcards := [], ic_recent := []\<rparr>"

record intercom_stats =
  is_topics :: nat
  is_wildcard_count :: nat
  is_recent_events :: nat
  is_recent_by_topic :: "(string, nat) gomap"

definition intercom_stats_of :: "'h intercom \<Rightarrow> intercom_stats" where
  "intercom_stats_of i =
     \<lparr>is_topics = length (ic_handlers i),
      is_wildcard_count = length (ic_wildcards i),
      is_recent_events = fold (\<lambda>(t, events) n. n + length events) (ic_recent i) 0,
      is_recent_by_topic = map (\<lambda>(t, events). (t, length events)) (ic_recent i)\<rparr>"

section \<open>Runs\<close>

datatype 'h intercom_op =
    IcOn string 'h
  | IcOnAny 'h
  | IcOff string nat
  | IcOffAny nat
  | IcEmit int string string "(string, string) gomap"
  | IcClear

text \<open>A panicking \<open>Emit\<close> leaves the bus as it was.\<close>

fun intercom_step :: "'h intercom_op \<Rightarrow> 'h intercom \<Rightarrow> 'h intercom" where
  "intercom_step (IcOn topic h) i = fst (subscribe_on topic h i)"
| "intercom_step (IcOnAny h) i = fst (subscribe_any h i)"
| "intercom_step (IcOff topic sid) i = unsubscribe_on topic sid i"
| "intercom_step (IcOffAny sid) i = unsubscribe_any sid i"
| "intercom_step (IcEmit now topic user data) i =
     (case emit now topic user data i of None \<Rightarrow> i | Some (i', _) \<Rightarrow> i')"
| "intercom_step IcClear i = clear_intercom i"

abbreviation intercom_run :: "'h intercom_op list \<Rightarrow> 'h intercom \<Rightarrow> 'h intercom" where
  "intercom_run ops \<equiv> fold intercom_step ops"


section \<open>Subscriptions\<close>

abbreviation subs_with :: "nat \<Rightarrow> 'h intercom_sub list \<Rightarrow> 'h intercom_sub list" where
  "subs_with sid \<equiv> filter (\<lambda>s. sub_id s = sid)"

lemma drop_sub_other: "sid' \<noteq> sid \<Longrightarrow> subs_with sid (drop_sub sid' ss) = subs_with sid ss"
  by (induction ss) auto

lemma drop_sub_absent: "subs_with sid ss = [] \<Longrightarrow> drop_sub sid ss = ss"
  by (induction ss) (auto split: if_splits)

lemma drop_sub_single: "subs_with sid ss = [s] \<Longrightarrow> subs_with sid (drop_sub sid ss) = []"
  by (induction ss) (auto split: if_splits)

lemma subs_with_drop_Nil: "subs_with sid ss = [] \<Longrightarrow> subs_with sid (drop_sub sid' ss) = []"
  by (induction ss) (auto split: if_splits)

text \<open>The number is in use for one handler of one topic, or for nothing any more.\<close>

definition subscribed :: "nat \<Rightarrow> string \<Rightarrow> 'h \<Rightarrow> 'h intercom \<Rightarrow> bool" where
  "subscribed sid topic h i \<longleftrightarrow> sid \<le> ic_next_id i \<and> subs_with sid (ic_wildcards i) = [] \<and>
     (\<forall>t. subs_with sid (slot (ic_handlers i) t) =
        (if t = topic then [\<lparr>sub_id = sid, sub_h = h\<rparr>] else []))"

definition retired :: "nat \<Rightarrow> 'h intercom \<Rightarrow> bool" where
  "retired sid i \<longleftrightarrow> sid \<le> ic_next_id i \<and> subs_with sid (ic_wildcards i) = [] \<and>
     (\<forall>t. subs_with sid (slot (ic_handlers i) t) = [])"

lemmas intercom_op_defs = subscribe_on_def subscribe_any_def unsubscribe_on_def unsubscribe_any_def
  clear_intercom_def emit_def store_recent_def

lemma emit_keeps_subs:
  "emit now topic user data i = Some (i', cs) \<Longrightarrow>
     ic_next_id i' = ic_next_id i \<and> ic_handlers i' = ic_handlers i \<and> ic_wildcards i' = ic_wildcards i
     \<and> ic_max_recent i' = ic_max_recent i"
  by (auto simp: emit_def store_recent_def Let_def)

lemma retired_step: "retired sid i \<Longrightarrow> retired sid (intercom_step a i)"
proof (cases a)
  case (IcEmit now t u d)
  assume "retired sid i"
  then show ?thesis using IcEmit
    by (cases "emit now t u d i") (auto simp: retired_def dest: emit_keeps_subs)
qed (auto simp: retired_def subscribe_on_def subscribe_any_def unsubscribe_on_def unsubscribe_any_def
  clear_intercom_def Let_def subs_with_drop_Nil)

lemma retired_run: "retired sid i \<Longrightarrow> retired sid (intercom_run ops i)"
  by (induction ops arbitrary: i) (auto intro: retired_step)

lemma subscribed_step:
  "subscribed sid topic h i \<Longrightarrow> a \<noteq> IcClear \<Longrightarrow> a \<noteq> IcOff topic sid \<Longrightarrow>
     subscribed sid topic h (intercom_step a i)"
proof (cases a)
  case (IcEmit now t u d)
  assume "subscribed sid topic h i"
  then show ?thesis using IcEmit
    by (cases "emit now t u d i") (auto simp: subscribed_def dest: emit_keeps_subs)
next
  case (IcOff t sid')
  assume s: "subscribed sid topic h i" and "a \<noteq> IcOff topic sid"
  with IcOff have "t \<noteq> topic \<or> sid' \<noteq> sid" by simp
  with s IcOff show ?thesis
    by (cases "sid' = sid") (auto simp: subscribed_def unsubscribe_on_def drop_sub_other drop_sub_absent)
next
  case (IcOffAny sid')
  assume "subscribed sid topic h i"
  then show ?thesis using IcOffAny
    by (auto simp: subscribed_def unsubscribe_any_def subs_with_drop_Nil)
qed (auto simp: subscribed_def subscribe_on_def subscribe_any_def Let_def)

lemma subscribed_off: "subscribed sid topic h i \<Longrightarrow> retired sid (unsubscribe_on topic sid i)"
proof -
  assume s: "subscribed sid topic h i"
  then have "subs_with sid (drop_sub sid (slot (ic_handlers i) topic)) = []"
    by (intro drop_sub_single) (auto simp: subscribed_def)
  moreover have "sid \<in> sub_id ` set (slot (ic_handlers i) topic)"
  proof -
    from s have "subs_with sid (slot (ic_handlers i) topic) = [\<lparr>sub_id = sid, sub_h = h\<rparr>]"
      by (simp add: subscribed_def)
    then have "\<lparr>sub_id = sid, sub_h = h\<rparr> \<in> set (subs_with sid (slot (ic_handlers i) topic))" by simp
    then show ?thesis by force
  qed
  ultimately show ?thesis using s by (simp add: retired_def subscribed_def unsubscribe_on_def)
qed

lemma subscribed_clear: "subscribed sid topic h i \<Longrightarrow> retired sid (clear_intercom i)"
  by (simp add: retired_def subscribed_def clear_intercom_def)

lemma subscribed_or_retired_run:
  "subscribed sid topic h i \<or> retired sid i \<Longrightarrow>
     subscribed sid topic h (intercom_run ops i) \<or> retired sid (intercom_run ops i)"
proof (induction ops arbitrary: i)
  case (Cons a ops)
  have "subscribed sid topic h (intercom_step a i) \<or> retired sid (intercom_step a i)"
  proof (cases "retired sid i")
    case True
    then show ?thesis by (simp add: retired_step)
  next
    case False
    with Cons.prems have s: "subscribed sid topic h i" by simp
    consider "a = IcClear" | "a = IcOff topic sid" | "a \<noteq> IcClear \<and> a \<noteq> IcOff topic sid" by blast
    then show ?thesis
      by cases (use s in \<open>simp_all add: subscribed_step subscribed_off subscribed_clear\<close>)
  qed
  with Cons.IH show ?case by simp
qed simp

lemma subscribed_run:
  "subscribed sid topic h i \<Longrightarrow> IcClear \<notin> set ops \<Longrightarrow> IcOff topic sid \<notin> set ops \<Longrightarrow>
     subscribed sid topic h (intercom_run ops i)"
proof (induction ops arbitrary: i)
  case (Cons a ops)
  then have "subscribed sid topic h (intercom_step a i)" by (intro subscribed_step) auto
  with Cons show ?case by simp
qed simp

text \<open>No number above the counter is in use.\<close>

definition ids_bounded :: "'h intercom \<Rightarrow> bool" where
  "ids_bounded i \<longleftrightarrow> (\<forall>sid > ic_next_id i. subs_with sid (ic_wildcards i) = [] \<and>
     (\<forall>t. subs_with sid (slot (ic_handlers i) t) = []))"

lemma ids_bounded_step: "ids_bounded i \<Longrightarrow> ids_bounded (intercom_step a i)"
proof (cases a)
  case (IcEmit now t u d)
  assume "ids_bounded i"
  then show ?thesis using IcEmit
    by (cases "emit now t u d i") (auto simp: ids_bounded_def dest: emit_keeps_subs)
qed (auto simp: ids_bounded_def subscribe_on_def subscribe_any_def unsubscribe_on_def
  unsubscribe_any_def clear_intercom_def Let_def subs_with_drop_Nil)

lemma ids_bounded_run: "ids_bounded i \<Longrightarrow> ids_bounded (intercom_run ops i)"
  by (induction ops arbitrary: i) (auto intro: ids_bounded_step)

lemma ids_bounded_new [simp]: "ids_bounded (new_intercom cap)"
  by (simp add: ids_bounded_def new_intercom_def)

lemma subscribe_on_subscribed:
  "ids_bounded i \<Longrightarrow> subscribed (snd (subscribe_on topic h i)) topic h (fst (subscribe_on topic h i))"
  by (simp add: ids_bounded_def subscribed_def subscribe_on_def Let_def)

lemma retired_calls: "retired sid i \<Longrightarrow> subs_with sid (called_subs i t) = []"
  by (simp add: retired_def called_subs_def)

lemma subscribed_calls:
  "subscribed sid topic h i \<Longrightarrow>
     subs_with sid (called_subs i t) = (if t = topic then [\<lparr>sub_id = sid, sub_h = h\<rparr>] else [])"
  by (simp add: subscribed_def called_subs_def)

lemma max_recent_run: "ic_max_recent (intercom_run ops i) = ic_max_recent i"
proof (induction ops arbitrary: i)
  case (Cons a ops)
  have "ic_max_recent (intercom_step a i) = ic_max_recent i"
    by (cases a) (auto simp: intercom_op_defs Let_def split: option.split)
  with Cons show ?case by simp
qed simp

lemma subscription_fate:
  assumes "subscribed sid topic h i"
  shows "if IcOff topic sid \<in> set ops \<or> IcClear \<in> set ops then retired sid (intercom_run ops i)
    else subscribed sid topic h (intercom_run ops i)"
proof (cases "IcOff topic sid \<in> set ops \<or> IcClear \<in> set ops")
  case True
  then obtain a where a: "a \<in> set ops" "a = IcOff topic sid \<or> a = IcClear" by blast
  then obtain us vs where ops: "ops = us @ a # vs" by (auto simp: in_set_conv_decomp)
  have "subscribed sid topic h (intercom_run us i) \<or> retired sid (intercom_run us i)"
    using assms by (intro subscribed_or_retired_run) simp
  then have "retired sid (intercom_step a (intercom_run us i))"
  proof
    assume "subscribed sid topic h (intercom_run us i)"
    from subscribed_off [OF this] subscribed_clear [OF this] a(2) show ?thesis by auto
  qed (rule retired_step)
  then show ?thesis using True by (simp add: ops retired_run)
next
  case False
  then show ?thesis using subscribed_run [OF assms] by simp
qed

lemma called_with: "filter (\<lambda>c. sub_id (fst c) = sid) (map (\<lambda>s. (s, ev)) ss) = map (\<lambda>s. (s, ev)) (subs_with sid ss)"
  by (induction ss) auto

text \<open>
  C33: What Emit calls of a topic subscription made at any moment of any run: an event of its topic
  calls its handler exactly once, with the event, unless its unsubscribe function was called or the
  bus was cleared since; an event of another topic never does. Emit panics exactly when the bound on
  recent events is negative. The list is the snapshot that Emit takes under the lock: the calls follow
  after the lock is released, so a handler that is unsubscribed between the two is still called.
\<close>

theorem emit_calls_subscription:
  assumes "subscribe_on topic h (intercom_run ops (new_intercom cap)) = (i, sid)"
  shows "case emit now t user data (intercom_run later i) of
      None \<Rightarrow> cap < 0
    | Some (i', calls) \<Rightarrow> 0 \<le> cap \<and>
        filter (\<lambda>c. sub_id (fst c) = sid) calls =
          (if t = topic \<and> IcOff topic sid \<notin> set later \<and> IcClear \<notin> set later
           then [(\<lparr>sub_id = sid, sub_h = h\<rparr>, \<lparr>ie_topic = t, ie_user_id = user, ie_data = data, ie_timestamp = now\<rparr>)]
           else [])"
proof -
  let ?i = "intercom_run later i"
  have "subscribed sid topic h i"
    using subscribe_on_subscribed [OF ids_bounded_run [OF ids_bounded_new], of topic h ops cap] by (simp add: assms)
  note fate = subscription_fate [OF this, of later]
  have "ic_max_recent ?i = cap"
    using assms by (auto simp: max_recent_run subscribe_on_def new_intercom_def Let_def)
  moreover have "subs_with sid (called_subs i' t) = (if t = topic \<and> IcOff topic sid \<notin> set later \<and> IcClear \<notin> set later
      then [\<lparr>sub_id = sid, sub_h = h\<rparr>] else [])"
    if "ic_handlers i' = ic_handlers ?i" "ic_wildcards i' = ic_wildcards ?i" for i'
  proof -
    have "called_subs i' t = called_subs ?i t" using that by (simp add: called_subs_def)
    with fate show ?thesis
      by (cases "IcOff topic sid \<in> set later \<or> IcClear \<in> set later") (simp_all add: subscribed_calls retired_calls)
  qed
  ultimately show ?thesis
    by (cases "0 \<le> cap")
      (simp_all add: emit_def store_recent_def Let_def append_trim_keep_last append_trim_negative called_with)
qed

theorem emit_calls_subscription_witness:
  "case emit 6 ''t'' ''u'' [] (intercom_run [IcOn ''t'' False, IcEmit 5 ''t'' ''u'' []]
      (fst (subscribe_on ''t'' True (intercom_run [] (new_intercom 10))))) of
      None \<Rightarrow> False
    | Some (i', calls) \<Rightarrow> filter (\<lambda>c. sub_id (fst c) = 1) calls =
        [(\<lparr>sub_id = 1, sub_h = True\<rparr>, \<lparr>ie_topic = ''t'', ie_user_id = ''u'', ie_data = [], ie_timestamp = 6\<rparr>)]"
proof -
  have sub: "subscribe_on ''t'' True (intercom_run [] (new_intercom 10)) =
      (fst (subscribe_on ''t'' True (intercom_run [] (new_intercom 10))), 1)" by code_simp
  show ?thesis
    using emit_calls_subscription [OF sub, where now = 6 and t = "''t''" and user = "''u''" and data = "[]" and later = "[IcOn ''t'' False, IcEmit 5 ''t'' ''u'' []]"]
    by (auto split: option.split_asm option.split)
qed

section \<open>Recent events\<close>

text \<open>The events a run emits on a topic.\<close>

fun topic_entry :: "string \<Rightarrow> 'h intercom_op \<Rightarrow> intercom_event list" where
  "topic_entry topic (IcEmit now t user data) =
     (if t = topic then [\<lparr>ie_topic = t, ie_user_id = user, ie_data = data, ie_timestamp = now\<rparr>] else [])"
| "topic_entry topic _ = []"

definition unclearing_step :: "'h intercom_op \<Rightarrow> 'h intercom \<Rightarrow> 'h intercom" where
  "unclearing_step a i = (if a = IcClear then i else intercom_step a i)"

definition recent_inv :: "nat \<Rightarrow> string \<Rightarrow> 'h intercom \<Rightarrow> bool" where
  "recent_inv cap topic i \<longleftrightarrow> ic_max_recent i = int cap \<and> length (slot (ic_recent i) topic) \<le> cap"

interpretation topic_log: bounded_log unclearing_step "\<lambda>i. slot (ic_recent i) topic"
    "topic_entry topic" cap "recent_inv cap topic" for topic :: string and cap :: nat
proof
  fix i :: "'a intercom" and a
  assume inv: "recent_inv cap topic i"
  then show items: "slot (ic_recent (unclearing_step a i)) topic =
      keep_last cap (slot (ic_recent i) topic @ topic_entry topic a)"
    by (cases a) (auto simp: recent_inv_def unclearing_step_def intercom_op_defs Let_def
        append_trim_keep_last split_beta)
  have "ic_max_recent (unclearing_step a i) = ic_max_recent i"
    by (cases a) (auto simp: unclearing_step_def intercom_op_defs Let_def split: option.split)
  with items inv show "recent_inv cap topic (unclearing_step a i)" by (simp add: recent_inv_def)
qed

lemma unclearing_run:
  "IcClear \<notin> set ops \<Longrightarrow> fold unclearing_step ops i = intercom_run ops i"
  by (induction ops arbitrary: i) (auto simp: unclearing_step_def)

lemma recent_keep_last:
  "recent i topic limit = keep_last (if limit \<le> 0 then length (slot (ic_recent i) topic) else nat limit)
     (slot (ic_recent i) topic)"
  by (auto simp: recent_def Let_def keep_last_def nat_le_iff)

text \<open>
  C21: With a bound of at least zero, Recent answers the newest events of the topic that were
  emitted since the last Clear, oldest first, never more than the bound, and the newest
  \<open>limit\<close> of them when a positive limit is given: no event of the window is lost or reordered.
\<close>

theorem recent_window:
  assumes "IcClear \<notin> set ops"
  shows "recent (intercom_run ops (clear_intercom (intercom_run before (new_intercom (int cap))))) topic limit
    = keep_last (if limit \<le> 0 then cap else min (nat limit) cap) (concat (map (topic_entry topic) ops))"
proof -
  let ?i = "clear_intercom (intercom_run before (new_intercom (int cap)))"
  have "recent_inv cap topic ?i" and "slot (ic_recent ?i) topic = []"
    by (simp_all add: recent_inv_def clear_intercom_def max_recent_run new_intercom_def)
  then have "slot (ic_recent (intercom_run ops ?i)) topic =
      keep_last cap (concat (map (topic_entry topic) ops))"
    using topic_log.items_pushes [of cap topic ?i ops] by (simp add: unclearing_run assms)
  then show ?thesis by (simp add: recent_keep_last keep_last_keep_last min.commute keep_last_min_length)
qed

theorem recent_window_witness:
  "recent (intercom_run [IcEmit 1 ''t'' ''u'' [], IcEmit 2 ''x'' ''u'' [], IcEmit 3 ''t'' ''v'' []]
      (clear_intercom (intercom_run [IcOn ''t'' ()] (new_intercom (int 1))))) ''t'' 5
   = [\<lparr>ie_topic = ''t'', ie_user_id = ''v'', ie_data = [], ie_timestamp = 3\<rparr>]"
  by (subst recent_window) (simp, code_simp)

section \<open>Events of all topics\<close>

lemma exchange_mset: "add_mset (fst (exchange x ys)) (mset (snd (exchange x ys))) = add_mset x (mset ys)"
  by (induction x ys rule: exchange.induct) (auto simp: split_beta Let_def add_mset_commute)

lemma exchange_max:
  "z \<in> insert x (set ys) \<Longrightarrow> ie_timestamp z \<le> ie_timestamp (fst (exchange x ys))"
proof (induction x ys arbitrary: z rule: exchange.induct)
  case (2 x y ys)
  show ?case
  proof (cases "ie_timestamp x < ie_timestamp y")
    case True
    then have "ie_timestamp x \<le> ie_timestamp (fst (exchange y ys))"
      using "2.IH"(1) [OF True, of y] by simp
    then show ?thesis using True "2.prems" "2.IH"(1) [OF True, of z] by (auto simp: split_beta Let_def)
  next
    case False
    then have "ie_timestamp y \<le> ie_timestamp (fst (exchange x ys))"
      using "2.IH"(2) [OF False, of x] by simp
    then show ?thesis using False "2.prems" "2.IH"(2) [OF False, of z] by (auto simp: split_beta Let_def)
  qed
qed simp

lemma newest_first_mset: "mset (newest_first xs) = mset xs"
  by (induction xs rule: newest_first.induct) (auto simp: exchange_mset)

lemma newest_first_sorted: "sorted_wrt (\<lambda>a b. ie_timestamp b \<le> ie_timestamp a) (newest_first xs)"
proof (induction xs rule: newest_first.induct)
  case (2 x xs)
  have "ie_timestamp z \<le> ie_timestamp (fst (exchange x xs))"
    if "z \<in> set (newest_first (snd (exchange x xs)))" for z
  proof (rule exchange_max)
    from that have "z \<in># mset (snd (exchange x xs))"
      by (metis newest_first_mset set_mset_mset)
    then have "z \<in># add_mset x (mset xs)" by (metis exchange_mset insert_iff set_mset_add_mset_insert)
    then show "z \<in> insert x (set xs)" by simp
  qed
  with 2 show ?case by simp
qed simp

text \<open>
  C19: RecentAll without a limit answers every stored event of every topic exactly as often as it
  is stored, newest time stamp first; with a positive limit it answers the first \<open>limit\<close> of these.
\<close>

theorem recent_all_newest_first:
  "mset (recent_all i 0) = mset (concat (map snd (ic_recent i)))
   \<and> sorted_wrt (\<lambda>a b. ie_timestamp b \<le> ie_timestamp a) (recent_all i limit)
   \<and> recent_all i limit = (if limit > 0 then take (nat limit) (recent_all i 0) else recent_all i 0)"
  by (auto simp: recent_all_def Let_def newest_first_mset newest_first_sorted sorted_wrt_take)

end
