(* ===== verification/Blackboard.thy ===== *)
theory Blackboard
  imports Intercom
begin

text \<open>
  The blackboard of the delegation system (\<open>pkg/delegation/intercom.go\<close>, type \<open>Blackboard\<close>): a
  bounded list of proposals. Posting and resolving emit an event on the attached intercom in a
  goroutine of their own; an operation here returns the topic, partition and data it emits.
\<close>

section \<open>Model\<close>

record proposal =
  bp_sub_agent_id :: string
  bp_proposal :: string
  bp_timestamp :: int
  bp_resolved :: bool
  bp_resolution :: string
  bp_resolved_at :: int

record blackboard =
  bb_proposals :: "proposal list"
  bb_max_entries :: int
  bb_intercom :: bool

type_synonym bb_event = "string \<times> string \<times> (string \<times> string) list"

definition new_blackboard :: "int \<Rightarrow> blackboard" where
  "new_blackboard max_entries = \<lparr>bb_proposals = [], bb_max_entries = max_entries, bb_intercom = False\<rparr>"

definition set_intercom :: "blackboard \<Rightarrow> blackboard" where
  "set_intercom b = b\<lparr>bb_intercom := True\<rparr>"

text \<open>\<open>None\<close>: the slice expression panics (negative bound).\<close>

definition post ::
    "int \<Rightarrow> string \<Rightarrow> string \<Rightarrow> string \<Rightarrow> blackboard \<Rightarrow> (blackboard \<times> bb_event list) option" where
  "post now user agent content b =
     map_option (\<lambda>ps. (b\<lparr>bb_proposals := ps\<rparr>,
         if bb_intercom b
         then [(''blackboard:proposal'', user, [(''sub_agent_id'', agent), (''proposal'', content)])]
         else []))
       (append_trim (bb_max_entries b)
         \<lparr>bp_sub_agent_id = agent, bp_proposal = content, bp_timestamp = now, bp_resolved = False,
          bp_resolution = [], bp_resolved_at = 0\<rparr>
         (bb_proposals b))"

text \<open>The loop of \<open>Resolve\<close> returns at the first unresolved proposal of the agent.\<close>

fun resolve_first :: "int \<Rightarrow> string \<Rightarrow> string \<Rightarrow> proposal list \<Rightarrow> proposal list \<times> proposal option" where
  "resolve_first now agent resolution [] = ([], None)"
| "resolve_first now agent resolution (p # ps) =
     (if bp_sub_agent_id p = agent \<and> \<not> bp_resolved p
      then (p\<lparr>bp_resolved := True, bp_resolution := resolution, bp_resolved_at := now\<rparr> # ps, Some p)
      else (let (ps', r) = resolve_first now agent resolution ps in (p # ps', r)))"

definition resolve_proposal ::
    "int \<Rightarrow> string \<Rightarrow> string \<Rightarrow> string \<Rightarrow> blackboard \<Rightarrow> blackboard \<times> bb_event list" where
  "resolve_proposal now user agent resolution b =
     (let (ps, r) = resolve_first now agent resolution (bb_proposals b) in
      (b\<lparr>bb_proposals := ps\<rparr>,
       case r of
         None \<Rightarrow> []
       | Some p \<Rightarrow>
           if bb_intercom b
           then [(''blackboard:resolved'', user,
                  [(''sub_agent_id'', agent), (''resolution'', resolution), (''proposal'', bp_proposal p)])]
           else []))"

definition get_all :: "blackboard \<Rightarrow> proposal list" where
  "get_all b = bb_proposals b"

definition get_by_agent :: "blackboard \<Rightarrow> string \<Rightarrow> proposal list" where
  "get_by_agent b agent = filter (\<lambda>p. bp_sub_agent_id p = agent) (bb_proposals b)"

definition get_unresolved :: "blackboard \<Rightarrow> proposal list" where
  "get_unresolved b = filter (\<lambda>p. \<not> bp_resolved p) (bb_proposals b)"

definition get_resolved :: "blackboard \<Rightarrow> proposal list" where
  "get_resolved b = filter bp_resolved (bb_proposals b)"

definition clear_blackboard :: "blackboard \<Rightarrow> blackboard" where
  "clear_blackboard b = b\<lparr>bb_proposals := []\<rparr>"

datatype bb_op =
    BbPost int string string string
  | BbResolve int string string string

definition bb_step :: "bb_op \<Rightarrow> blackboard \<Rightarrow> blackboard" where
  "bb_step a b =
     (case a of
        BbPost now user agent content \<Rightarrow>
          (case post now user agent content b of None \<Rightarrow> b | Some (b', _) \<Rightarrow> b')
      | BbResolve now user agent resolution \<Rightarrow> fst (resolve_proposal now user agent resolution b))"

section \<open>The board as a bounded log\<close>

text \<open>What a resolution never touches: who proposed what and when.\<close>

definition proposal_key :: "proposal \<Rightarrow> string \<times> string \<times> int" where
  "proposal_key p = (bp_sub_agent_id p, bp_proposal p, bp_timestamp p)"

fun bb_entry :: "bb_op \<Rightarrow> (string \<times> string \<times> int) list" where
  "bb_entry (BbPost now user agent content) = [(agent, content, now)]"
| "bb_entry (BbResolve _ _ _ _) = []"

lemma resolve_first_keys:
  "map proposal_key (fst (resolve_first now agent resolution ps)) = map proposal_key ps"
  by (induction ps) (auto simp: split_beta Let_def proposal_key_def)

lemma map_keep_last: "map f (keep_last n xs) = keep_last n (map f xs)"
  by (simp add: keep_last_def drop_map)

definition bb_inv :: "nat \<Rightarrow> blackboard \<Rightarrow> bool" where
  "bb_inv cap b \<longleftrightarrow> bb_max_entries b = int cap \<and> length (bb_proposals b) \<le> cap"

interpretation board_log: bounded_log bb_step "\<lambda>b. map proposal_key (bb_proposals b)"
    bb_entry cap "bb_inv cap" for cap :: nat
proof
  fix b a
  assume inv: "bb_inv cap b"
  then show items: "map proposal_key (bb_proposals (bb_step a b)) =
      keep_last cap (map proposal_key (bb_proposals b) @ bb_entry a)"
    by (cases a) (simp_all add: bb_inv_def bb_step_def post_def append_trim_keep_last map_keep_last
        proposal_key_def resolve_proposal_def split_beta Let_def resolve_first_keys)
  have "bb_max_entries (bb_step a b) = bb_max_entries b"
    by (cases a) (auto simp: bb_step_def post_def resolve_proposal_def split_beta Let_def split: option.split)
  moreover have "length (bb_proposals (bb_step a b)) \<le> cap"
    using arg_cong [OF items, of length] by simp
  ultimately show "bb_inv cap (bb_step a b)" using inv by (simp add: bb_inv_def)
qed

section \<open>Properties\<close>

lemma resolve_first_spec:
  "case snd (resolve_first now agent resolution ps) of
     None \<Rightarrow> fst (resolve_first now agent resolution ps) = ps \<and>
       (\<forall>p \<in> set ps. bp_sub_agent_id p = agent \<longrightarrow> bp_resolved p)
   | Some p \<Rightarrow> bp_sub_agent_id p = agent \<and> \<not> bp_resolved p \<and>
       (\<exists>us vs. ps = us @ p # vs \<and> (\<forall>u \<in> set us. bp_sub_agent_id u = agent \<longrightarrow> bp_resolved u) \<and>
          fst (resolve_first now agent resolution ps) =
            us @ p\<lparr>bp_resolved := True, bp_resolution := resolution, bp_resolved_at := now\<rparr> # vs)"
proof (induction ps)
  case (Cons q ps)
  show ?case
  proof (cases "bp_sub_agent_id q = agent \<and> \<not> bp_resolved q")
    case True
    then show ?thesis by (auto intro: exI [where x = "[]"])
  next
    case False
    show ?thesis
    proof (cases "snd (resolve_first now agent resolution ps)")
      case None
      with False Cons show ?thesis by (auto simp: split_beta Let_def)
    next
      case (Some p)
      with Cons obtain us vs where ps: "ps = us @ p # vs"
          "\<forall>u \<in> set us. bp_sub_agent_id u = agent \<longrightarrow> bp_resolved u"
          "fst (resolve_first now agent resolution ps) =
            us @ p\<lparr>bp_resolved := True, bp_resolution := resolution, bp_resolved_at := now\<rparr> # vs"
        and p: "bp_sub_agent_id p = agent" "\<not> bp_resolved p" by auto
      have snd: "snd (resolve_first now agent resolution (q # ps)) = Some p"
        and fst: "fst (resolve_first now agent resolution (q # ps)) =
          q # fst (resolve_first now agent resolution ps)"
        using False Some by (auto simp: split_beta Let_def)
      have "q # ps = (q # us) @ p # vs
          \<and> (\<forall>u \<in> set (q # us). bp_sub_agent_id u = agent \<longrightarrow> bp_resolved u)
          \<and> fst (resolve_first now agent resolution (q # ps)) = (q # us) @
              p\<lparr>bp_resolved := True, bp_resolution := resolution, bp_resolved_at := now\<rparr> # vs"
        using ps False fst by auto
      then show ?thesis unfolding snd option.case using p by blast
    qed
  qed
qed simp

text \<open>
  With a bound of at least zero, the board always shows exactly the newest proposals ever
  posted, oldest first and at most the bound, whoever resolved what in between: resolving never
  adds, drops, reorders or rewrites a proposal.
\<close>

theorem board_shows_newest:
  "map proposal_key (get_all (fold bb_step ops (new_blackboard (int cap)))) =
     keep_last cap (concat (map bb_entry ops))
   \<and> length (get_all (fold bb_step ops (new_blackboard (int cap)))) \<le> cap"
proof -
  have "bb_inv cap (new_blackboard (int cap))" by (simp add: bb_inv_def new_blackboard_def)
  from board_log.items_pushes [OF this, of ops]
  have eq: "map proposal_key (bb_proposals (fold bb_step ops (new_blackboard (int cap)))) =
      keep_last cap (concat (map bb_entry ops))"
    by (simp add: new_blackboard_def)
  have "length (map proposal_key (bb_proposals (fold bb_step ops (new_blackboard (int cap))))) \<le> cap"
    unfolding eq by simp
  then have "length (bb_proposals (fold bb_step ops (new_blackboard (int cap)))) \<le> cap"
    by (simp only: length_map)
  then show ?thesis unfolding get_all_def by (intro conjI eq)
qed

text \<open>
  Resolve settles the oldest unresolved proposal of the sub-agent and nothing else: every
  other proposal is as before, the unresolved ones lose exactly that one, and when the sub-agent
  has none, the board is unchanged and no event is emitted.
\<close>

theorem resolve_settles_oldest:
  "(case filter (\<lambda>p. bp_sub_agent_id p = agent) (get_unresolved b) of
      [] \<Rightarrow> resolve_proposal now user agent resolution b = (b, [])
    | p # _ \<Rightarrow>
        (\<exists>us vs. get_all b = us @ p # vs
           \<and> get_all (fst (resolve_proposal now user agent resolution b)) =
               us @ p\<lparr>bp_resolved := True, bp_resolution := resolution, bp_resolved_at := now\<rparr> # vs
           \<and> get_unresolved (fst (resolve_proposal now user agent resolution b)) =
               filter (\<lambda>q. \<not> bp_resolved q) us @ filter (\<lambda>q. \<not> bp_resolved q) vs))"
proof (cases "snd (resolve_first now agent resolution (bb_proposals b))")
  case None
  with resolve_first_spec [of now agent resolution "bb_proposals b"]
  have same: "fst (resolve_first now agent resolution (bb_proposals b)) = bb_proposals b"
    and none: "\<forall>p \<in> set (bb_proposals b). bp_sub_agent_id p = agent \<longrightarrow> bp_resolved p" by simp_all
  from none have "filter (\<lambda>p. bp_sub_agent_id p = agent) (get_unresolved b) = []"
    by (auto simp: get_unresolved_def filter_empty_conv)
  then show ?thesis using None same by (simp add: resolve_proposal_def split_beta Let_def)
next
  case (Some p)
  with resolve_first_spec [of now agent resolution "bb_proposals b"] obtain us vs
    where ps: "bb_proposals b = us @ p # vs"
      and us: "\<forall>u \<in> set us. bp_sub_agent_id u = agent \<longrightarrow> bp_resolved u"
      and p: "bp_sub_agent_id p = agent" "\<not> bp_resolved p"
      and ps': "fst (resolve_first now agent resolution (bb_proposals b)) =
        us @ p\<lparr>bp_resolved := True, bp_resolution := resolution, bp_resolved_at := now\<rparr> # vs"
    by auto
  from us have "filter (\<lambda>p. bp_sub_agent_id p = agent) (filter (\<lambda>p. \<not> bp_resolved p) us) = []"
    by (auto simp: filter_empty_conv)
  with ps p have "filter (\<lambda>p. bp_sub_agent_id p = agent) (get_unresolved b) =
      p # filter (\<lambda>p. bp_sub_agent_id p = agent) (filter (\<lambda>p. \<not> bp_resolved p) vs)"
    by (simp add: get_unresolved_def)
  then show ?thesis using ps ps'
    by (auto simp: resolve_proposal_def get_all_def get_unresolved_def split_beta Let_def)
qed

end
