(* ===== verification/SessionQueue.thy ===== *)
theory SessionQueue
  imports Prelude "HOL-Library.Multiset"
begin

text \<open>
  The per-agent task queue of the delegation system (\<open>pkg/delegation/queue.go\<close>, type
  \<open>SessionQueue\<close>) with the interleavings of its goroutines. A transition is one stretch of code
  between two points where another goroutine can interfere: a critical section of the mutex, one
  \<open>select\<close> on the task channel, or the execution of a task.

  \<^item> A caller of \<open>Submit\<close> looks the queue up under the mutex (\<open>SqSubmit\<close>), and sends the task to
    the channel afterwards, outside the mutex (\<open>SqSend\<close>).
  \<^item> \<open>processQueue\<close> looks its queue up under the mutex (\<open>SqStart\<close>), polls the channel (\<open>SqPoll\<close>),
    finishes the task it took (\<open>SqFinish\<close>), and on an empty channel takes the mutex and retires or
    goes on (\<open>SqRetire\<close>).
  \<^item> \<open>Clear\<close> takes the mutex (\<open>SqClear\<close>) and drains the queues of the map one receive at a time (\<open>SqDrain\<close>),
    between which submitters may send and workers may poll.

  Queues are Go pointers that workers keep after \<open>Clear\<close> has dropped them, so they live in a list
  that only grows. Threads are a list as well; \<open>Exited\<close> marks a goroutine that is gone. The mutex
  is held across transitions by \<open>Clear\<close> and by the early return of \<open>processQueue\<close>, which never unlocks it.
\<close>

section \<open>State\<close>

text \<open>\<open>sq_clearing\<close>: the queues that a running \<open>Clear\<close> has still to drain.\<close>

record queued_task =
  qt_handle :: nat
  qt_task_id :: string
  qt_agent_id :: string

record agent_queue =
  aq_tasks :: "queued_task list"
  aq_running :: bool

datatype task_result = TaskDone "string option" | ErrQueueFull | ErrQueueCleared

datatype sq_thread =
    Submitting nat queued_task
  | Starting string
  | Looping nat
  | Executing nat queued_task
  | Idle nat
  | Exited

record session_queue =
  sq_locked :: bool
  sq_clearing :: "nat list option"
  sq_queues :: "(string, nat) gomap"
  sq_heap :: "agent_queue list"
  sq_threads :: "sq_thread list"
  sq_results :: "(nat \<times> task_result) list"
  sq_next :: nat

definition new_session_queue :: session_queue where
  "new_session_queue =
     \<lparr>sq_locked = False, sq_clearing = None, sq_queues = [], sq_heap = [], sq_threads = [], sq_results = [], sq_next = 0\<rparr>"

definition queue_capacity :: nat where
  "queue_capacity = 100"

definition set_tasks :: "nat \<Rightarrow> queued_task list \<Rightarrow> session_queue \<Rightarrow> session_queue" where
  "set_tasks q ts s = s\<lparr>sq_heap := (sq_heap s)[q := (sq_heap s ! q)\<lparr>aq_tasks := ts\<rparr>]\<rparr>"

definition set_running :: "nat \<Rightarrow> bool \<Rightarrow> session_queue \<Rightarrow> session_queue" where
  "set_running q b s = s\<lparr>sq_heap := (sq_heap s)[q := (sq_heap s ! q)\<lparr>aq_running := b\<rparr>]\<rparr>"

definition set_thread :: "nat \<Rightarrow> sq_thread \<Rightarrow> session_queue \<Rightarrow> session_queue" where
  "set_thread i th s = s\<lparr>sq_threads := (sq_threads s)[i := th]\<rparr>"

definition answer :: "queued_task \<Rightarrow> task_result \<Rightarrow> session_queue \<Rightarrow> session_queue" where
  "answer t r s = s\<lparr>sq_results := sq_results s @ [(qt_handle t, r)]\<rparr>"

definition spawn :: "sq_thread \<Rightarrow> session_queue \<Rightarrow> session_queue" where
  "spawn th s = s\<lparr>sq_threads := sq_threads s @ [th]\<rparr>"

section \<open>Transitions\<close>

definition find_queue :: "string \<Rightarrow> session_queue \<Rightarrow> session_queue \<times> nat" where
  "find_queue agent s =
     (case mget (sq_queues s) agent of
        Some q \<Rightarrow> (s, q)
      | None \<Rightarrow>
          (s\<lparr>sq_queues := mput agent (length (sq_heap s)) (sq_queues s),
             sq_heap := sq_heap s @ [\<lparr>aq_tasks = [], aq_running = False\<rparr>]\<rparr>,
           length (sq_heap s)))"

definition submit_locked :: "string \<Rightarrow> string \<Rightarrow> session_queue \<Rightarrow> session_queue" where
  "submit_locked agent task_id s0 =
     (let (s, q) = find_queue agent s0;
          t = \<lparr>qt_handle = sq_next s, qt_task_id = task_id, qt_agent_id = agent\<rparr>;
          s1 = spawn (Submitting q t) (s\<lparr>sq_next := sq_next s + 1\<rparr>)
      in if \<not> aq_running (sq_heap s ! q) then spawn (Starting agent) (set_running q True s1) else s1)"

definition send_task :: "nat \<Rightarrow> queued_task \<Rightarrow> session_queue \<Rightarrow> session_queue" where
  "send_task q t s =
     (if length (aq_tasks (sq_heap s ! q)) < queue_capacity
      then set_tasks q (aq_tasks (sq_heap s ! q) @ [t]) s
      else answer t ErrQueueFull s)"

definition clear_locked :: "session_queue \<Rightarrow> session_queue" where
  "clear_locked s = s\<lparr>sq_locked := True, sq_clearing := Some (map snd (sq_queues s))\<rparr>"

text \<open>One turn of the loops of \<open>Clear\<close>: a receive, the end of one queue, or the end of all.\<close>

definition drain_queue :: "nat list \<Rightarrow> session_queue \<Rightarrow> session_queue" where
  "drain_queue qs s =
     (case qs of
        [] \<Rightarrow> s\<lparr>sq_queues := [], sq_locked := False, sq_clearing := None\<rparr>
      | q # rest \<Rightarrow>
          (case aq_tasks (sq_heap s ! q) of
             [] \<Rightarrow> (set_running q False s)\<lparr>sq_clearing := Some rest\<rparr>
           | t # ts \<Rightarrow> set_tasks q ts (answer t ErrQueueCleared s)))"

datatype sq_action =
    SqSubmit string string
  | SqSend nat
  | SqStart nat
  | SqPoll nat
  | SqFinish nat "string option"
  | SqRetire nat
  | SqClear
  | SqDrain

definition thread_at :: "session_queue \<Rightarrow> nat \<Rightarrow> sq_thread" where
  "thread_at s i = (if i < length (sq_threads s) then sq_threads s ! i else Exited)"

text \<open>\<open>None\<close>: the transition is not enabled; a blocked mutex disables every critical section.\<close>

fun sq_fire :: "sq_action \<Rightarrow> session_queue \<Rightarrow> session_queue option" where
  "sq_fire (SqSubmit agent task_id) s =
     (if sq_locked s then None else Some (submit_locked agent task_id s))"
| "sq_fire (SqSend i) s =
     (case thread_at s i of
        Submitting q t \<Rightarrow> Some (send_task q t (set_thread i Exited s))
      | _ \<Rightarrow> None)"
| "sq_fire (SqStart i) s =
     (case thread_at s i of
        Starting agent \<Rightarrow>
          if sq_locked s then None
          else (case mget (sq_queues s) agent of
                  None \<Rightarrow> Some ((set_thread i Exited s)\<lparr>sq_locked := True\<rparr>)
                | Some q \<Rightarrow> Some (set_thread i (Looping q) s))
      | _ \<Rightarrow> None)"
| "sq_fire (SqPoll i) s =
     (case thread_at s i of
        Looping q \<Rightarrow>
          (case aq_tasks (sq_heap s ! q) of
             [] \<Rightarrow> Some (set_thread i (Idle q) s)
           | t # ts \<Rightarrow> Some (set_tasks q ts (set_thread i (Executing q t) s)))
      | _ \<Rightarrow> None)"
| "sq_fire (SqFinish i err) s =
     (case thread_at s i of
        Executing q t \<Rightarrow> Some (answer t (TaskDone err) (set_thread i (Looping q) s))
      | _ \<Rightarrow> None)"
| "sq_fire (SqRetire i) s =
     (case thread_at s i of
        Idle q \<Rightarrow>
          if sq_locked s then None
          else if aq_tasks (sq_heap s ! q) = [] then Some (set_running q False (set_thread i Exited s))
          else Some (set_thread i (Looping q) s)
      | _ \<Rightarrow> None)"
| "sq_fire SqClear s = (if sq_locked s then None else Some (clear_locked s))"
| "sq_fire SqDrain s = map_option (\<lambda>qs. drain_queue qs s) (sq_clearing s)"

text \<open>The read-only operations; each waits while the mutex is locked.\<close>

definition get_queue_length :: "session_queue \<Rightarrow> string \<Rightarrow> nat option" where
  "get_queue_length s agent =
     (if sq_locked s then None
      else (case mget (sq_queues s) agent of
              None \<Rightarrow> Some 0
            | Some q \<Rightarrow> Some (length (aq_tasks (sq_heap s ! q)))))"

definition get_total_queue_length :: "session_queue \<Rightarrow> nat option" where
  "get_total_queue_length s =
     (if sq_locked s then None
      else Some (sum_list (map (\<lambda>(a, q). length (aq_tasks (sq_heap s ! q))) (sq_queues s))))"

definition get_active_agents :: "session_queue \<Rightarrow> nat option" where
  "get_active_agents s = (if sq_locked s then None else Some (length (sq_queues s)))"

definition queue_stats :: "session_queue \<Rightarrow> (nat \<times> (string \<times> nat \<times> bool) list) option" where
  "queue_stats s =
     (if sq_locked s then None
      else Some (length (sq_queues s),
                 map (\<lambda>(a, q). (a, length (aq_tasks (sq_heap s ! q)), aq_running (sq_heap s ! q)))
                   (sq_queues s)))"

section \<open>Reachable states\<close>

fun sq_schedule :: "sq_action list \<Rightarrow> session_queue \<Rightarrow> session_queue option" where
  "sq_schedule [] s = Some s"
| "sq_schedule (a # as) s = (case sq_fire a s of None \<Rightarrow> None | Some s' \<Rightarrow> sq_schedule as s')"

text \<open>States reachable with any actions, and with any but \<open>Clear\<close>.\<close>

inductive sq_reach :: "bool \<Rightarrow> session_queue \<Rightarrow> bool" for clears :: bool where
  start: "sq_reach clears new_session_queue"
| step: "sq_reach clears s \<Longrightarrow> sq_fire a s = Some s' \<Longrightarrow> clears \<or> a \<noteq> SqClear \<Longrightarrow> sq_reach clears s'"

inductive_cases sq_reachE: "sq_reach clears s"

lemma sq_reach_schedule:
  "sq_reach True s \<Longrightarrow> sq_schedule as s = Some s' \<Longrightarrow> sq_reach True s'"
  by (induction as arbitrary: s) (auto split: option.splits intro: sq_reach.step)


section \<open>Where a submitted task is\<close>

fun thread_tasks :: "sq_thread \<Rightarrow> queued_task list" where
  "thread_tasks (Submitting q t) = [t]"
| "thread_tasks (Executing q t) = [t]"
| "thread_tasks _ = []"

fun thread_queue :: "sq_thread \<Rightarrow> nat option" where
  "thread_queue (Submitting q t) = Some q"
| "thread_queue (Looping q) = Some q"
| "thread_queue (Executing q t) = Some q"
| "thread_queue (Idle q) = Some q"
| "thread_queue _ = None"

definition handles :: "queued_task list \<Rightarrow> nat multiset" where
  "handles ts = image_mset qt_handle (mset ts)"

lemma handles_simps [simp]:
  "handles [] = {#}" "handles (t # ts) = add_mset (qt_handle t) (handles ts)"
  "handles (ts @ us) = handles ts + handles us"
  by (simp_all add: handles_def)

text \<open>The handles in the channels, in the hands of goroutines, and answered.\<close>

definition whereabouts :: "session_queue \<Rightarrow> nat multiset" where
  "whereabouts s = handles (concat (map aq_tasks (sq_heap s)))
     + handles (concat (map thread_tasks (sq_threads s))) + mset (map fst (sq_results s))"

lemma mset_concat_update:
  "i < length xs \<Longrightarrow> handles (concat (map f (xs[i := y]))) + handles (f (xs ! i))
     = handles (concat (map f xs)) + handles (f y)"
proof (induction xs arbitrary: i)
  case (Cons x xs)
  then show ?case by (cases i) (auto simp: ac_simps)
qed simp

lemma where_set_tasks:
  "q < length (sq_heap s) \<Longrightarrow> whereabouts (set_tasks q ts s) + handles (aq_tasks (sq_heap s ! q))
     = whereabouts s + handles ts"
  using mset_concat_update [of q "sq_heap s" aq_tasks "(sq_heap s ! q)\<lparr>aq_tasks := ts\<rparr>"]
  by (simp add: whereabouts_def set_tasks_def ac_simps)

lemma where_set_running [simp]: "whereabouts (set_running q b s) = whereabouts s"
proof (cases "q < length (sq_heap s)")
  case True
  then show ?thesis
    using mset_concat_update [of q "sq_heap s" aq_tasks "(sq_heap s ! q)\<lparr>aq_running := b\<rparr>"]
    by (simp add: whereabouts_def set_running_def)
qed (simp add: whereabouts_def set_running_def list_update_beyond)

lemma where_set_thread:
  "i < length (sq_threads s) \<Longrightarrow> whereabouts (set_thread i th s) + handles (thread_tasks (sq_threads s ! i))
     = whereabouts s + handles (thread_tasks th)"
  using mset_concat_update [of i "sq_threads s" thread_tasks th]
  by (simp add: whereabouts_def set_thread_def ac_simps)

lemma where_answer [simp]: "whereabouts (answer t r s) = add_mset (qt_handle t) (whereabouts s)"
  by (simp add: whereabouts_def answer_def)

lemma where_clearing: "whereabouts (s\<lparr>sq_clearing := c\<rparr>) = whereabouts s"
  by (simp add: whereabouts_def)

lemma where_spawn [simp]: "whereabouts (spawn th s) = whereabouts s + handles (thread_tasks th)"
  by (simp add: whereabouts_def spawn_def)

lemma frame_simps [simp]:
  "sq_heap (set_thread i th s) = sq_heap s" "sq_heap (answer t r s) = sq_heap s"
  "sq_heap (spawn th s) = sq_heap s"
  "length (sq_heap (set_tasks q ts s)) = length (sq_heap s)"
  "length (sq_heap (set_running q b s)) = length (sq_heap s)"
  "sq_threads (set_tasks q ts s) = sq_threads s" "sq_threads (set_running q b s) = sq_threads s"
  "sq_threads (answer t r s) = sq_threads s"
  "sq_queues (set_tasks q ts s) = sq_queues s" "sq_queues (set_running q b s) = sq_queues s"
  "sq_queues (answer t r s) = sq_queues s" "sq_queues (spawn th s) = sq_queues s"
  "sq_queues (set_thread i th s) = sq_queues s"
  "sq_next (set_tasks q ts s) = sq_next s" "sq_next (set_running q b s) = sq_next s"
  "sq_next (answer t r s) = sq_next s" "sq_next (spawn th s) = sq_next s"
  "sq_next (set_thread i th s) = sq_next s"
  "sq_locked (set_tasks q ts s) = sq_locked s" "sq_locked (set_running q b s) = sq_locked s"
  "sq_locked (answer t r s) = sq_locked s" "sq_locked (spawn th s) = sq_locked s"
  "sq_locked (set_thread i th s) = sq_locked s"
  "sq_results (set_tasks q ts s) = sq_results s" "sq_results (set_running q b s) = sq_results s"
  "sq_results (spawn th s) = sq_results s" "sq_results (set_thread i th s) = sq_results s"
  "sq_clearing (set_tasks q ts s) = sq_clearing s" "sq_clearing (set_running q b s) = sq_clearing s"
  "sq_clearing (answer t r s) = sq_clearing s" "sq_clearing (spawn th s) = sq_clearing s"
  "sq_clearing (set_thread i th s) = sq_clearing s"
  by (simp_all add: set_thread_def answer_def spawn_def set_tasks_def set_running_def)

text \<open>Every queue pointer of the map, of a goroutine and of a running \<open>Clear\<close> points into the heap.\<close>

definition sq_pointers :: "session_queue \<Rightarrow> bool" where
  "sq_pointers s \<longleftrightarrow> (\<forall>a q. mget (sq_queues s) a = Some q \<longrightarrow> q < length (sq_heap s))
     \<and> wf_map (sq_queues s)
     \<and> (\<forall>th \<in> set (sq_threads s). \<forall>q. thread_queue th = Some q \<longrightarrow> q < length (sq_heap s))
     \<and> (\<forall>q \<in> set (case sq_clearing s of None \<Rightarrow> [] | Some qs \<Rightarrow> qs). q < length (sq_heap s))"

lemma thread_at_cases:
  "thread_at s i = th \<Longrightarrow> th \<noteq> Exited \<Longrightarrow> i < length (sq_threads s) \<and> sq_threads s ! i = th"
  by (auto simp: thread_at_def split: if_splits)

lemma thread_pointer:
  "sq_pointers s \<Longrightarrow> thread_at s i = th \<Longrightarrow> thread_queue th = Some q \<Longrightarrow> q < length (sq_heap s)"
  unfolding sq_pointers_def thread_at_def by (auto split: if_splits)

lemma where_move_thread:
  "thread_at s i = old \<Longrightarrow> old \<noteq> Exited \<Longrightarrow>
     whereabouts (set_thread i th s) + handles (thread_tasks old) = whereabouts s + handles (thread_tasks th)"
  using where_set_thread [of i s th] thread_at_cases [of s i old] by simp

lemma pointers_set_thread:
  "sq_pointers s \<Longrightarrow> (\<And>q. thread_queue th = Some q \<Longrightarrow> q < length (sq_heap s)) \<Longrightarrow>
     sq_pointers (set_thread i th s)"
  by (auto simp: sq_pointers_def set_thread_def dest!: set_update_subset_insert [THEN subsetD])

lemma pointers_frame:
  "sq_pointers s \<Longrightarrow> sq_pointers (set_tasks q ts s)"
  "sq_pointers s \<Longrightarrow> sq_pointers (set_running q b s)"
  "sq_pointers s \<Longrightarrow> sq_pointers (answer t r s)"
  "sq_pointers s \<Longrightarrow> sq_pointers (s\<lparr>sq_next := n\<rparr>)"
  "sq_pointers s \<Longrightarrow> sq_pointers (s\<lparr>sq_locked := b\<rparr>)"
  "sq_pointers s \<Longrightarrow> sq_pointers (s\<lparr>sq_queues := []\<rparr>)"
  by (simp_all add: sq_pointers_def)

lemma pointers_spawn:
  "sq_pointers s \<Longrightarrow> (\<And>q. thread_queue th = Some q \<Longrightarrow> q < length (sq_heap s)) \<Longrightarrow> sq_pointers (spawn th s)"
  by (auto simp: sq_pointers_def spawn_def)


definition sq_accounted :: "session_queue \<Rightarrow> bool" where
  "sq_accounted s \<longleftrightarrow> sq_pointers s \<and> whereabouts s = mset [0..<sq_next s]"

lemma find_queue_accounted:
  assumes "sq_accounted s" and "find_queue agent s = (s', q)"
  shows "sq_accounted s' \<and> q < length (sq_heap s') \<and> mget (sq_queues s') agent = Some q
    \<and> sq_next s' = sq_next s \<and> sq_threads s' = sq_threads s"
proof (cases "mget (sq_queues s) agent")
  case (Some p)
  with assms show ?thesis by (auto simp: find_queue_def sq_accounted_def sq_pointers_def)
next
  case None
  then have s': "s' = s\<lparr>sq_queues := mput agent (length (sq_heap s)) (sq_queues s),
             sq_heap := sq_heap s @ [\<lparr>aq_tasks = [], aq_running = False\<rparr>]\<rparr>"
    and q: "q = length (sq_heap s)" using assms(2) by (auto simp: find_queue_def)
  have "sq_pointers s" using assms(1) by (simp add: sq_accounted_def)
  then have "sq_pointers s'" unfolding s' sq_pointers_def by (auto simp: less_Suc_eq)
  moreover have "whereabouts s' = whereabouts s" unfolding s' by (simp add: whereabouts_def)
  ultimately show ?thesis using assms(1) by (simp add: s' q sq_accounted_def)
qed

lemma accounted_spawn_worker: "sq_accounted s \<Longrightarrow> sq_accounted (spawn (Starting agent) s)"
  by (auto simp: sq_accounted_def intro: pointers_spawn)

lemma accounted_set_running: "sq_accounted s \<Longrightarrow> sq_accounted (set_running q b s)"
  by (simp add: sq_accounted_def pointers_frame)

lemma submit_accounted:
  assumes "sq_accounted s0"
  shows "sq_accounted (submit_locked agent task_id s0)"
proof -
  obtain s q where f: "find_queue agent s0 = (s, q)" by fastforce
  from find_queue_accounted [OF assms f] have acc: "sq_accounted s" and q: "q < length (sq_heap s)" by auto
  let ?t = "\<lparr>qt_handle = sq_next s, qt_task_id = task_id, qt_agent_id = agent\<rparr>"
  let ?s1 = "spawn (Submitting q ?t) (s\<lparr>sq_next := sq_next s + 1\<rparr>)"
  have "whereabouts ?s1 = add_mset (sq_next s) (whereabouts (s\<lparr>sq_next := sq_next s + 1\<rparr>))" by simp
  also have "whereabouts (s\<lparr>sq_next := sq_next s + 1\<rparr>) = whereabouts s" by (simp add: whereabouts_def)
  finally have "whereabouts ?s1 = mset [0..<sq_next ?s1]" using acc by (simp add: sq_accounted_def)
  moreover have "sq_pointers ?s1"
    using acc q by (intro pointers_spawn pointers_frame) (auto simp: sq_accounted_def)
  ultimately have "sq_accounted ?s1" by (simp add: sq_accounted_def)
  then show ?thesis
    by (simp add: submit_locked_def f Let_def accounted_spawn_worker accounted_set_running)
qed

lemma send_accounted:
  assumes acc: "sq_accounted s" and th: "thread_at s i = Submitting q t"
  shows "sq_accounted (send_task q t (set_thread i Exited s))"
proof -
  let ?s = "set_thread i Exited s"
  from acc th have q: "q < length (sq_heap s)"
    by (intro thread_pointer [of s i]) (auto simp: sq_accounted_def)
  have "sq_pointers ?s" using acc by (intro pointers_set_thread) (auto simp: sq_accounted_def)
  then have "sq_pointers (send_task q t ?s)" by (simp add: send_task_def pointers_frame)
  moreover have "whereabouts ?s + {#qt_handle t#} = whereabouts s"
    using where_move_thread [OF th, of Exited] by simp
  then have "whereabouts (send_task q t ?s) = whereabouts s"
    using where_set_tasks [of q ?s "aq_tasks (sq_heap s ! q) @ [t]"] q by (simp add: send_task_def)
  ultimately show ?thesis using acc by (simp add: sq_accounted_def send_task_def)
qed

lemma poll_accounted:
  assumes acc: "sq_accounted s" and th: "thread_at s i = Looping q"
    and ts: "aq_tasks (sq_heap s ! q) = t # ts"
  shows "sq_accounted (set_tasks q ts (set_thread i (Executing q t) s))"
proof -
  let ?s = "set_thread i (Executing q t) s"
  from acc th have q: "q < length (sq_heap s)"
    by (intro thread_pointer [of s i]) (auto simp: sq_accounted_def)
  have "sq_pointers ?s" using acc q by (intro pointers_set_thread) (auto simp: sq_accounted_def)
  then have "sq_pointers (set_tasks q ts ?s)" by (simp add: pointers_frame)
  moreover have "whereabouts ?s = whereabouts s + {#qt_handle t#}"
    using where_move_thread [OF th, of "Executing q t"] by simp
  then have "whereabouts (set_tasks q ts ?s) = whereabouts s"
    using where_set_tasks [of q ?s ts] q ts by simp
  ultimately show ?thesis using acc by (simp add: sq_accounted_def)
qed

lemma finish_accounted:
  assumes acc: "sq_accounted s" and th: "thread_at s i = Executing q t"
  shows "sq_accounted (answer t r (set_thread i (Looping q) s))"
proof -
  let ?s = "set_thread i (Looping q) s"
  from acc th have q: "q < length (sq_heap s)"
    by (intro thread_pointer [of s i]) (auto simp: sq_accounted_def)
  have "sq_pointers ?s" using acc q by (intro pointers_set_thread) (auto simp: sq_accounted_def)
  moreover have "whereabouts ?s + {#qt_handle t#} = whereabouts s"
    using where_move_thread [OF th, of "Looping q"] by simp
  ultimately show ?thesis using acc by (simp add: sq_accounted_def pointers_frame)
qed

lemma idle_thread_accounted:
  assumes acc: "sq_accounted s" and "thread_at s i = old" "old \<noteq> Exited"
    and "thread_tasks old = []" "thread_tasks new = []"
    and "\<And>q. thread_queue new = Some q \<Longrightarrow> q < length (sq_heap s)"
  shows "sq_accounted (set_thread i new s)"
proof -
  have "sq_pointers (set_thread i new s)"
    using assms by (intro pointers_set_thread) (auto simp: sq_accounted_def)
  with where_move_thread [of s i old new] assms show ?thesis by (simp add: sq_accounted_def)
qed

lemma drain_accounted:
  assumes acc: "sq_accounted s" and c: "sq_clearing s = Some qs"
  shows "sq_accounted (drain_queue qs s)"
proof (cases qs)
  case Nil
  then show ?thesis using acc by (simp add: drain_queue_def sq_accounted_def sq_pointers_def) (simp add: whereabouts_def)
next
  case (Cons q rest)
  have q: "q < length (sq_heap s)" using acc c Cons by (simp add: sq_accounted_def sq_pointers_def)
  show ?thesis
  proof (cases "aq_tasks (sq_heap s ! q)")
    case Nil
    have "sq_accounted (set_running q False s)" by (rule accounted_set_running [OF acc])
    moreover have "sq_pointers ((set_running q False s)\<lparr>sq_clearing := Some rest\<rparr>)"
      using calculation c Cons by (simp add: sq_accounted_def sq_pointers_def)
    ultimately show ?thesis using Cons Nil by (simp add: drain_queue_def sq_accounted_def where_clearing)
  next
    case t: (Cons t ts)
    have "whereabouts (set_tasks q ts (answer t ErrQueueCleared s)) = whereabouts s"
      using where_set_tasks [of q "answer t ErrQueueCleared s" ts] q t by simp
    then show ?thesis using Cons t acc by (simp add: drain_queue_def sq_accounted_def pointers_frame)
  qed
qed

lemma clear_accounted:
  assumes "sq_accounted s"
  shows "sq_accounted (clear_locked s)"
proof -
  have "\<forall>e \<in> set (sq_queues s). snd e < length (sq_heap s)"
  proof
    fix e assume "e \<in> set (sq_queues s)"
    with assms have "mget (sq_queues s) (fst e) = Some (snd e)"
      by (simp add: sq_accounted_def sq_pointers_def mget_in_set)
    with assms show "snd e < length (sq_heap s)" by (auto simp: sq_accounted_def sq_pointers_def)
  qed
  then show ?thesis using assms
    by (simp add: clear_locked_def sq_accounted_def sq_pointers_def) (simp add: whereabouts_def)
qed

lemma fire_accounted:
  assumes acc: "sq_accounted s" and "sq_fire a s = Some s'"
  shows "sq_accounted s'"
proof (cases a)
  case (SqStart i)
  with assms(2) obtain agent where th: "thread_at s i = Starting agent"
    and s': "(case mget (sq_queues s) agent of
                  None \<Rightarrow> Some ((set_thread i Exited s)\<lparr>sq_locked := True\<rparr>)
                | Some q \<Rightarrow> Some (set_thread i (Looping q) s)) = Some s'"
    by (auto split: sq_thread.splits if_splits)
  show ?thesis
  proof (cases "mget (sq_queues s) agent")
    case None
    have "sq_accounted (set_thread i Exited s)"
      by (rule idle_thread_accounted [OF acc th]) simp_all
    with None s' show ?thesis
      by (auto simp: sq_accounted_def pointers_frame) (simp add: whereabouts_def)
  next
    case (Some q)
    with acc have "q < length (sq_heap s)" by (auto simp: sq_accounted_def sq_pointers_def)
    then have "sq_accounted (set_thread i (Looping q) s)"
      by (intro idle_thread_accounted [OF acc th]) simp_all
    with Some s' show ?thesis by simp
  qed
next
  case (SqPoll i)
  with assms(2) obtain q where th: "thread_at s i = Looping q" by (auto split: sq_thread.splits)
  have q: "q < length (sq_heap s)"
    using acc th by (intro thread_pointer [of s i]) (auto simp: sq_accounted_def)
  have "sq_accounted (set_thread i (Idle q) s)"
    using q by (intro idle_thread_accounted [OF acc th]) simp_all
  with SqPoll assms th poll_accounted [OF acc th] show ?thesis by (auto split: list.splits)
next
  case (SqRetire i)
  with assms(2) obtain q where th: "thread_at s i = Idle q" by (auto split: sq_thread.splits)
  have q: "q < length (sq_heap s)"
    using acc th by (intro thread_pointer [of s i]) (auto simp: sq_accounted_def)
  have "sq_accounted (set_thread i Exited s)"
    by (rule idle_thread_accounted [OF acc th]) simp_all
  moreover have "sq_accounted (set_thread i (Looping q) s)"
    using q by (intro idle_thread_accounted [OF acc th]) simp_all
  ultimately show ?thesis using SqRetire assms(2) th
    by (auto simp: accounted_set_running split: if_splits)
qed (use assms in \<open>auto simp: submit_accounted clear_accounted drain_accounted send_accounted finish_accounted
      split: if_splits sq_thread.splits\<close>)

lemma reach_accounted: "sq_reach clears s \<Longrightarrow> sq_accounted s"
proof (induction rule: sq_reach.induct)
  case start
  show ?case by (simp add: sq_accounted_def sq_pointers_def new_session_queue_def whereabouts_def)
qed (blast intro: fire_accounted)


section \<open>One worker per queue, as long as nobody clears\<close>

fun worker_queue :: "(string, nat) gomap \<Rightarrow> sq_thread \<Rightarrow> nat option" where
  "worker_queue m (Starting agent) = mget m agent"
| "worker_queue m (Looping q) = Some q"
| "worker_queue m (Executing q t) = Some q"
| "worker_queue m (Idle q) = Some q"
| "worker_queue m _ = None"

definition workers :: "session_queue \<Rightarrow> nat \<Rightarrow> nat" where
  "workers s q = length (filter (\<lambda>th. worker_queue (sq_queues s) th = Some q) (sq_threads s))"

definition owned :: "session_queue \<Rightarrow> nat \<Rightarrow> queued_task list \<Rightarrow> bool" where
  "owned s q ts \<longleftrightarrow> (\<forall>t \<in> set ts. mget (sq_queues s) (qt_agent_id t) = Some q)"

definition sq_serial :: "session_queue \<Rightarrow> bool" where
  "sq_serial s \<longleftrightarrow> \<not> sq_locked s \<and> sq_clearing s = None \<and> sq_pointers s
     \<and> (\<forall>agent. Starting agent \<in> set (sq_threads s) \<longrightarrow> mget (sq_queues s) agent \<noteq> None)
     \<and> (\<forall>q < length (sq_heap s). owned s q (aq_tasks (sq_heap s ! q)))
     \<and> (\<forall>th \<in> set (sq_threads s). \<forall>q. thread_queue th = Some q \<longrightarrow> owned s q (thread_tasks th))
     \<and> (\<forall>q < length (sq_heap s). workers s q = (if aq_running (sq_heap s ! q) then 1 else 0))"

lemma filter_update_count:
  "i < length xs \<Longrightarrow> length (filter P (xs[i := y])) + (if P (xs ! i) then 1 else 0)
     = length (filter P xs) + (if P y then 1 else 0)"
proof (induction xs arbitrary: i)
  case (Cons x xs)
  then show ?case by (cases i) auto
qed simp

lemma two_in_filter:
  assumes "i < length xs" "j < length xs" "i \<noteq> j" "P (xs ! i)" "P (xs ! j)"
  shows "2 \<le> length (filter P xs)"
proof -
  have "card {i, j} \<le> card {k. k < length xs \<and> P (xs ! k)}"
    using assms by (intro card_mono) auto
  with assms(3) show ?thesis by (simp add: length_filter_conv_card)
qed

lemma workers_set_thread:
  "thread_at s i = old \<Longrightarrow> old \<noteq> Exited \<Longrightarrow>
     workers (set_thread i new s) q + (if worker_queue (sq_queues s) old = Some q then 1 else 0)
       = workers s q + (if worker_queue (sq_queues s) new = Some q then 1 else 0)"
  using filter_update_count [of i "sq_threads s" "\<lambda>th. worker_queue (sq_queues s) th = Some q" new]
    thread_at_cases [of s i old]
  by (simp add: workers_def set_thread_def)

lemma workers_frame [simp]:
  "workers (set_tasks q' ts s) q = workers s q" "workers (set_running q' b s) q = workers s q"
  "workers (answer t r s) q = workers s q"
  by (simp_all add: workers_def)

lemma owned_frame [simp]:
  "owned (set_tasks q' ts s) q us = owned s q us" "owned (set_running q' b s) q us = owned s q us"
  "owned (answer t r s) q us = owned s q us" "owned (set_thread i th s) q us = owned s q us"
  "owned (spawn th s) q us = owned s q us"
  by (simp_all add: owned_def)

lemma set_thread_members:
  "th' \<in> set (sq_threads (set_thread i th s)) \<Longrightarrow> th' = th \<or> th' \<in> set (sq_threads s)"
  by (auto simp: set_thread_def dest: set_update_subset_insert [THEN subsetD])

text \<open>Replacing a goroutine by its continuation on the same queue.\<close>

lemma serial_set_thread:
  assumes ser: "sq_serial s" and th: "thread_at s i = old" "old \<noteq> Exited"
    and same: "worker_queue (sq_queues s) new = worker_queue (sq_queues s) old"
    and new: "\<And>a. new \<noteq> Starting a"
    and ptr: "\<And>q. thread_queue new = Some q \<Longrightarrow> q < length (sq_heap s) \<and> owned s q (thread_tasks new)"
  shows "sq_serial (set_thread i new s)"
proof -
  have "sq_pointers (set_thread i new s)"
    using ser ptr by (intro pointers_set_thread) (auto simp: sq_serial_def)
  moreover have "workers (set_thread i new s) q = workers s q" for q
    using workers_set_thread [OF th, of new q] same by simp
  ultimately show ?thesis using ser new ptr
    by (auto simp: sq_serial_def dest!: set_thread_members)
qed

lemma heap_set_tasks:
  "q' < length (sq_heap s) \<Longrightarrow> sq_heap (set_tasks q ts s) ! q' =
     (if q' = q then (sq_heap s ! q)\<lparr>aq_tasks := ts\<rparr> else sq_heap s ! q')"
  by (simp add: set_tasks_def nth_list_update)

lemma heap_set_running:
  "q' < length (sq_heap s) \<Longrightarrow> sq_heap (set_running q b s) ! q' =
     (if q' = q then (sq_heap s ! q)\<lparr>aq_running := b\<rparr> else sq_heap s ! q')"
  by (simp add: set_running_def nth_list_update)

lemma serial_set_tasks:
  "sq_serial s \<Longrightarrow> owned s q ts \<Longrightarrow> sq_serial (set_tasks q ts s)"
  unfolding sq_serial_def by (simp add: pointers_frame heap_set_tasks)

lemma serial_answer: "sq_serial s \<Longrightarrow> sq_serial (answer t r s)"
  unfolding sq_serial_def by (simp add: pointers_frame)

lemma serial_thread:
  assumes "sq_serial s" and th: "thread_at s i = th" and q: "thread_queue th = Some q"
  shows "q < length (sq_heap s) \<and> owned s q (thread_tasks th)"
proof -
  from q have "th \<noteq> Exited" by auto
  with th have "th \<in> set (sq_threads s)" using thread_at_cases by (metis nth_mem)
  with assms(1) q show ?thesis unfolding sq_serial_def sq_pointers_def by blast
qed

lemma serial_retire:
  assumes ser: "sq_serial s" and th: "thread_at s i = Idle q"
  shows "sq_serial (set_running q False (set_thread i Exited s))"
proof -
  have q: "q < length (sq_heap s)" using serial_thread [OF ser th] by simp
  have "1 \<le> workers (set_thread i Exited s) q + 1" by simp
  then have "workers s q = 1" and w0: "workers (set_thread i Exited s) q = 0"
    using workers_set_thread [OF th, of Exited q] ser q by (auto simp: sq_serial_def split: if_splits)
  have w: "workers (set_thread i Exited s) q' = workers s q'" if "q' \<noteq> q" for q'
    using workers_set_thread [OF th, of Exited q'] that by simp
  have "sq_pointers (set_thread i Exited s)"
    using ser by (intro pointers_set_thread) (auto simp: sq_serial_def)
  then show ?thesis using ser w0 w
    by (auto simp: sq_serial_def pointers_frame heap_set_running dest!: set_thread_members)
qed

lemma serial_find_queue:
  assumes ser: "sq_serial s" and f: "find_queue agent s = (s', q)"
  shows "sq_serial s' \<and> mget (sq_queues s') agent = Some q \<and> q < length (sq_heap s')"
proof (cases "mget (sq_queues s) agent")
  case (Some p)
  with assms show ?thesis by (auto simp: find_queue_def sq_serial_def sq_pointers_def)
next
  case None
  let ?m = "mput agent (length (sq_heap s)) (sq_queues s)"
  from None f have s': "s' = s\<lparr>sq_queues := ?m,
             sq_heap := sq_heap s @ [\<lparr>aq_tasks = [], aq_running = False\<rparr>]\<rparr>"
    and q: "q = length (sq_heap s)" by (auto simp: find_queue_def)
  have wq: "worker_queue ?m th = worker_queue (sq_queues s) th" if "th \<in> set (sq_threads s)" for th
    using that ser None by (cases th rule: sq_thread.exhaust) (auto simp: sq_serial_def)
  have w: "workers s' q' = workers s q'" for q'
    unfolding workers_def s' by (simp add: wq cong: filter_cong)
  have "workers s (length (sq_heap s)) = 0"
  proof -
    have "worker_queue (sq_queues s) th \<noteq> Some (length (sq_heap s))" if "th \<in> set (sq_threads s)" for th
      using that ser by (cases th rule: sq_thread.exhaust) (force simp: sq_serial_def sq_pointers_def)+
    then show ?thesis by (auto simp: workers_def filter_empty_conv)
  qed
  moreover have own: "owned s' q' ts" if "owned s q' ts" for q' ts
    using that None by (auto simp: owned_def s')
  moreover have "sq_pointers s'" using ser unfolding s' sq_pointers_def sq_serial_def
    by (auto simp: less_Suc_eq)
  ultimately show ?thesis using ser w q None
    by (auto simp: sq_serial_def s' nth_append less_Suc_eq owned_def split: if_splits)
qed

lemma serial_submit:
  assumes ser: "sq_serial s0"
  shows "sq_serial (submit_locked agent task_id s0)"
proof -
  obtain s q where f: "find_queue agent s0 = (s, q)" by fastforce
  from serial_find_queue [OF ser f] have s: "sq_serial s" and m: "mget (sq_queues s) agent = Some q"
    and q: "q < length (sq_heap s)" by auto
  let ?t = "\<lparr>qt_handle = sq_next s, qt_task_id = task_id, qt_agent_id = agent\<rparr>"
  let ?s1 = "spawn (Submitting q ?t) (s\<lparr>sq_next := sq_next s + 1\<rparr>)"
  have "sq_pointers ?s1"
    using s q by (intro pointers_spawn pointers_frame) (auto simp: sq_serial_def)
  then have s1: "sq_serial ?s1" using s m
    by (auto simp: sq_serial_def workers_def spawn_def owned_def)
  show ?thesis
  proof (cases "aq_running (sq_heap s ! q)")
    case True
    then show ?thesis using s1 by (simp add: submit_locked_def f Let_def)
  next
    case False
    let ?s2 = "spawn (Starting agent) (set_running q True ?s1)"
    have inj: "mget (sq_queues s) agent = Some q' \<longleftrightarrow> q' = q" for q' using m by auto
    have w: "workers ?s2 q' = workers ?s1 q' + (if q' = q then 1 else 0)" for q'
      using inj [of q'] by (auto simp: workers_def spawn_def set_running_def)
    have "sq_pointers (set_running q True ?s1)"
      using s1 unfolding sq_serial_def by (blast intro: pointers_frame(2))
    then have "sq_pointers ?s2" by (rule pointers_spawn) simp
    moreover have "workers ?s2 q' = (if aq_running (sq_heap ?s2 ! q') then 1 else 0)"
      if "q' < length (sq_heap s)" for q'
      using s1 that False q unfolding w
      by (auto simp: sq_serial_def set_running_def spawn_def nth_list_update)
    moreover have "owned s q' (aq_tasks (sq_heap ?s2 ! q'))" if "q' < length (sq_heap s)" for q'
      using s that by (cases "q' = q") (auto simp: sq_serial_def set_running_def spawn_def)
    ultimately have "sq_serial ?s2" using s1 m
      unfolding sq_serial_def
      by (auto simp: owned_def) (auto simp: spawn_def set_running_def)
    then show ?thesis using False by (simp add: submit_locked_def f Let_def)
  qed
qed


lemma serial_start:
  assumes ser: "sq_serial s" and th: "thread_at s i = Starting agent" and m: "mget (sq_queues s) agent = Some q"
  shows "sq_serial (set_thread i (Looping q) s)"
proof -
  have "q < length (sq_heap s)" using ser m by (auto simp: sq_serial_def sq_pointers_def)
  then show ?thesis
    by (intro serial_set_thread [OF ser th]) (use m in \<open>auto simp: owned_def\<close>)
qed

lemma serial_send:
  assumes ser: "sq_serial s" and th: "thread_at s i = Submitting q t"
  shows "sq_serial (send_task q t (set_thread i Exited s))"
proof -
  have t: "q < length (sq_heap s)" "owned s q [t]" using serial_thread [OF ser th] by simp_all
  have "sq_serial (set_thread i Exited s)" by (rule serial_set_thread [OF ser th]) simp_all
  moreover have "owned s q (aq_tasks (sq_heap s ! q) @ [t])"
    using ser t by (simp add: sq_serial_def owned_def)
  ultimately show ?thesis by (simp add: send_task_def serial_set_tasks serial_answer)
qed

lemma serial_poll:
  assumes ser: "sq_serial s" and th: "thread_at s i = Looping q" and ts: "aq_tasks (sq_heap s ! q) = t # ts"
  shows "sq_serial (set_tasks q ts (set_thread i (Executing q t) s))"
proof -
  have q: "q < length (sq_heap s)" using serial_thread [OF ser th] by simp
  with ser have "owned s q (aq_tasks (sq_heap s ! q))" unfolding sq_serial_def by blast
  with ts have o: "owned s q (t # ts)" by simp
  then have "sq_serial (set_thread i (Executing q t) s)"
    using q by (intro serial_set_thread [OF ser th]) (auto simp: owned_def)
  with o show ?thesis by (intro serial_set_tasks) (simp_all add: owned_def)
qed

lemma serial_loop:
  assumes ser: "sq_serial s" and th: "thread_at s i = old" and old: "old \<noteq> Exited"
    and q: "worker_queue (sq_queues s) old = Some q" and tq: "thread_queue old = Some q"
    and new: "new \<in> {Looping q, Idle q}"
  shows "sq_serial (set_thread i new s)"
  by (rule serial_set_thread [OF ser th old])
    (use q new serial_thread [OF ser th tq] in \<open>auto simp: owned_def\<close>)

lemma fire_serial:
  assumes ser: "sq_serial s" and f: "sq_fire a s = Some s'" and a: "a \<noteq> SqClear"
  shows "sq_serial s'"
proof (cases a)
  case (SqStart i)
  with f obtain agent where th: "thread_at s i = Starting agent" by (auto split: sq_thread.splits)
  then have "Starting agent \<in> set (sq_threads s)"
    using thread_at_cases [OF th] by (metis nth_mem sq_thread.distinct(17))
  with ser obtain q where "mget (sq_queues s) agent = Some q" by (auto simp: sq_serial_def)
  with SqStart f th serial_start [OF ser th] ser show ?thesis by (simp add: sq_serial_def [of s])
next
  case (SqPoll i)
  with f obtain q where th: "thread_at s i = Looping q" by (auto split: sq_thread.splits)
  have "sq_serial (set_thread i (Idle q) s)" by (rule serial_loop [OF ser th]) simp_all
  with SqPoll f th serial_poll [OF ser th] show ?thesis by (auto split: list.splits)
next
  case (SqRetire i)
  with f obtain q where th: "thread_at s i = Idle q" by (auto split: sq_thread.splits)
  have "sq_serial (set_thread i (Looping q) s)" by (rule serial_loop [OF ser th]) simp_all
  with SqRetire f th serial_retire [OF ser th] show ?thesis by (auto split: if_splits)
next
  case (SqFinish i err)
  with f obtain q t where th: "thread_at s i = Executing q t" by (auto split: sq_thread.splits)
  have "sq_serial (set_thread i (Looping q) s)" by (rule serial_loop [OF ser th]) simp_all
  with SqFinish f th show ?thesis by (auto simp: serial_answer)
next
  case SqDrain
  with f ser show ?thesis by (simp add: sq_serial_def)
qed (use f a ser in \<open>auto simp: serial_submit serial_send split: if_splits sq_thread.splits\<close>)

lemma reach_serial: "sq_reach clears s \<Longrightarrow> \<not> clears \<Longrightarrow> sq_serial s"
proof (induction rule: sq_reach.induct)
  case start
  show ?case by (simp add: sq_serial_def sq_pointers_def new_session_queue_def)
qed (blast intro: fire_serial)

lemma subseteq_distinct:
  assumes "mset xs \<subseteq># mset ys" and "distinct ys"
  shows "distinct xs"
proof -
  have "count (mset xs) a = (if a \<in> set xs then 1 else 0)" for a
  proof (cases "a \<in> set xs")
    case True
    then have "0 < count (mset xs) a" by (simp add: count_greater_zero_iff)
    moreover have "count (mset xs) a \<le> count (mset ys) a"
      using assms(1) by (rule mset_subset_eq_count)
    moreover have "count (mset ys) a \<le> 1" using assms(2) by (simp add: distinct_count_atmost_1)
    ultimately have "count (mset xs) a = 1" by linarith
    with True show ?thesis by simp
  qed (simp add: count_eq_zero_iff)
  then show ?thesis by (simp add: distinct_count_atmost_1)
qed

section \<open>Properties\<close>

text \<open>
  C6: Whatever goroutines interleave, and however often the queues are cleared, every submission
  is at every moment in exactly one place: still with its submitter, in one channel, being
  executed by one worker, or answered with one result. No task is executed or answered twice and
  none disappears.
\<close>

theorem task_in_one_place:
  assumes "sq_reach clears s"
  shows "handles (concat (map aq_tasks (sq_heap s))) + handles (concat (map thread_tasks (sq_threads s)))
      + mset (map fst (sq_results s)) = mset [0..<sq_next s]
    \<and> distinct (map fst (sq_results s))"
proof -
  have w: "whereabouts s = mset [0..<sq_next s]"
    using reach_accounted [OF assms] by (simp add: sq_accounted_def)
  then have "mset (map fst (sq_results s)) \<subseteq># mset [0..<sq_next s]"
    unfolding whereabouts_def by (metis mset_subset_eq_add_right)
  from subseteq_distinct [OF this] have "distinct (map fst (sq_results s))" by simp
  with w show ?thesis by (simp add: whereabouts_def)
qed

text \<open>
  C12: As long as nobody clears the queue, two goroutines never execute tasks of the same agent at
  the same time, and the mutex is never left locked.
\<close>

theorem agent_tasks_serial:
  assumes "sq_reach False s"
    and "thread_at s i = Executing q t" and "thread_at s j = Executing q' t'"
    and "qt_agent_id t = qt_agent_id t'"
  shows "i = j \<and> \<not> sq_locked s"
proof -
  have ser: "sq_serial s" using reach_serial [OF assms(1)] by simp
  have t: "q < length (sq_heap s)" "owned s q [t]" and t': "owned s q' [t']"
    using serial_thread [OF ser assms(2)] serial_thread [OF ser assms(3)] by simp_all
  then have q': "q' = q" using assms(4) by (simp add: owned_def)
  have at: "i < length (sq_threads s)" "sq_threads s ! i = Executing q t"
    "j < length (sq_threads s)" "sq_threads s ! j = Executing q t'"
    using thread_at_cases [OF assms(2)] thread_at_cases [OF assms(3)] q' by simp_all
  have "i = j"
  proof (rule ccontr)
    assume "i \<noteq> j"
    then have "2 \<le> workers s q"
      unfolding workers_def using at by (intro two_in_filter [of i _ j]) simp_all
    moreover have "workers s q \<le> 1" using ser t(1) by (simp add: sq_serial_def)
    ultimately show False by simp
  qed
  with ser show ?thesis by (simp add: sq_serial_def)
qed


lemma reach_sample: "sq_schedule as new_session_queue = Some s \<Longrightarrow> SqClear \<notin> set as \<Longrightarrow> sq_reach False s"
proof -
  have "sq_reach False s0 \<Longrightarrow> SqClear \<notin> set as \<Longrightarrow> sq_schedule as s0 = Some s \<Longrightarrow> sq_reach False s" for s0
    by (induction as arbitrary: s0) (auto split: option.splits intro: sq_reach.step)
  from this [OF sq_reach.start]
  show "sq_schedule as new_session_queue = Some s \<Longrightarrow> SqClear \<notin> set as \<Longrightarrow> sq_reach False s" by blast
qed

definition sample_schedule :: "sq_action list" where
  "sample_schedule = [SqSubmit ''cook'' ''t1'', SqSubmit ''cook'' ''t2'', SqSend 0, SqStart 1, SqPoll 1, SqSend 2]"

definition sample_state :: session_queue where
  "sample_state = the (sq_schedule sample_schedule new_session_queue)"

lemma sample_reach: "sq_reach False sample_state"
proof (rule reach_sample)
  show "sq_schedule sample_schedule new_session_queue = Some sample_state" by code_simp
  show "SqClear \<notin> set sample_schedule" by (simp add: sample_schedule_def)
qed

theorem task_in_one_place_witness:
  "sq_reach False sample_state \<and> distinct (map fst (sq_results sample_state))"
  using task_in_one_place [OF sample_reach] sample_reach by simp

theorem agent_tasks_serial_witness:
  "thread_at sample_state 1 = Executing 0 \<lparr>qt_handle = 0, qt_task_id = ''t1'', qt_agent_id = ''cook''\<rparr>
   \<and> \<not> sq_locked sample_state"
proof -
  have e: "thread_at sample_state 1 =
      Executing 0 \<lparr>qt_handle = 0, qt_task_id = ''t1'', qt_agent_id = ''cook''\<rparr>" by code_simp
  from agent_tasks_serial [OF sample_reach e e] e show ?thesis by simp
qed

lemma drain_steps:
  assumes "thread_at s i = Looping q" and "q < length (sq_heap s)" and "aq_tasks (sq_heap s ! q) = ts"
  shows "\<exists>s'. sq_schedule (concat (map (\<lambda>t. [SqPoll i, SqFinish i (err t)]) ts)) s = Some s'
    \<and> thread_at s' i = Looping q \<and> length (sq_heap s') = length (sq_heap s)
    \<and> aq_tasks (sq_heap s' ! q) = [] \<and> sq_locked s' = sq_locked s
    \<and> sq_results s' = sq_results s @ map (\<lambda>t. (qt_handle t, TaskDone (err t))) ts"
  using assms
proof (induction ts arbitrary: s)
  case (Cons t ts)
  have i: "i < length (sq_threads s)" using thread_at_cases [OF Cons.prems(1)] by simp
  let ?s1 = "set_tasks q ts (set_thread i (Executing q t) s)"
  let ?s2 = "answer t (TaskDone (err t)) (set_thread i (Looping q) ?s1)"
  have 1: "sq_fire (SqPoll i) s = Some ?s1" using Cons.prems by simp
  have "thread_at ?s1 i = Executing q t"
    using i by (simp add: thread_at_def set_thread_def set_tasks_def)
  then have 2: "sq_fire (SqFinish i (err t)) ?s1 = Some ?s2" by simp
  have "thread_at ?s2 i = Looping q" "aq_tasks (sq_heap ?s2 ! q) = ts"
    using i Cons.prems(2) by (simp_all add: thread_at_def set_thread_def set_tasks_def answer_def)
  then obtain s' where "sq_schedule (concat (map (\<lambda>t. [SqPoll i, SqFinish i (err t)]) ts)) ?s2 = Some s'"
    "thread_at s' i = Looping q" "length (sq_heap s') = length (sq_heap ?s2)"
    "aq_tasks (sq_heap s' ! q) = []" "sq_locked s' = sq_locked ?s2"
    "sq_results s' = sq_results ?s2 @ map (\<lambda>t. (qt_handle t, TaskDone (err t))) ts"
    using Cons.IH [of ?s2] Cons.prems(2) by auto
  with 1 2 show ?case by (simp add: answer_def set_thread_def set_tasks_def del: sq_fire.simps)
qed (auto intro: exI)

lemma sq_schedule_append:
  "sq_schedule (as @ bs) s = (case sq_schedule as s of None \<Rightarrow> None | Some s' \<Rightarrow> sq_schedule bs s')"
  by (induction as arbitrary: s) (auto split: option.split)

text \<open>
  C22: A worker that is left alone drains its channel: it executes every pending task of its queue
  once, in the order the tasks were sent, answers each with its own outcome, whether tasks before it failed or
  not, and then retires, leaving the queue empty and marked as not running.
\<close>

theorem worker_drains_queue:
  assumes "sq_reach clears s" and "thread_at s i = Looping q" and "\<not> sq_locked s"
  shows "\<exists>s'. sq_schedule (concat (map (\<lambda>t. [SqPoll i, SqFinish i (err t)]) (aq_tasks (sq_heap s ! q)))
        @ [SqPoll i, SqRetire i]) s = Some s'
    \<and> sq_results s' = sq_results s @ map (\<lambda>t. (qt_handle t, TaskDone (err t))) (aq_tasks (sq_heap s ! q))
    \<and> sq_heap s' ! q = \<lparr>aq_tasks = [], aq_running = False\<rparr> \<and> thread_at s' i = Exited"
proof -
  have q: "q < length (sq_heap s)"
    using reach_accounted [OF assms(1)] assms(2) by (intro thread_pointer [of s i]) (auto simp: sq_accounted_def)
  from drain_steps [OF assms(2) q refl] obtain s1
    where 1: "sq_schedule (concat (map (\<lambda>t. [SqPoll i, SqFinish i (err t)]) (aq_tasks (sq_heap s ! q)))) s = Some s1"
      "thread_at s1 i = Looping q" "length (sq_heap s1) = length (sq_heap s)"
      "aq_tasks (sq_heap s1 ! q) = []" "sq_locked s1 = sq_locked s"
      "sq_results s1 = sq_results s @ map (\<lambda>t. (qt_handle t, TaskDone (err t))) (aq_tasks (sq_heap s ! q))"
    by blast
  have i: "i < length (sq_threads s1)" using thread_at_cases [OF 1(2)] by simp
  let ?s2 = "set_thread i (Idle q) s1"
  let ?s3 = "set_running q False (set_thread i Exited ?s2)"
  have "sq_fire (SqPoll i) s1 = Some ?s2" using 1 by simp
  moreover have "thread_at ?s2 i = Idle q" using i by (simp add: thread_at_def set_thread_def)
  then have "sq_fire (SqRetire i) ?s2 = Some ?s3" using 1 assms(3) by simp
  ultimately have "sq_schedule [SqPoll i, SqRetire i] s1 = Some ?s3" by (simp del: sq_fire.simps)
  moreover have "sq_heap ?s3 ! q = \<lparr>aq_tasks = [], aq_running = False\<rparr>" "thread_at ?s3 i = Exited"
    using 1 q i by (simp_all add: heap_set_running thread_at_def set_thread_def)
  ultimately show ?thesis using 1 by (simp add: sq_schedule_append)
qed

theorem worker_drains_queue_witness:
  "\<exists>s'. sq_schedule [SqPoll 1, SqFinish 1 (Some ''no network''), SqPoll 1, SqRetire 1]
      (the (sq_fire (SqFinish 1 None) sample_state)) = Some s' \<and> thread_at s' 1 = Exited"
proof -
  let ?s = "the (sq_fire (SqFinish 1 None) sample_state)"
  have "sq_fire (SqFinish 1 None) sample_state = Some ?s" by code_simp
  then have r: "sq_reach False ?s" by (rule sq_reach.step [OF sample_reach]) simp
  have l: "thread_at ?s 1 = Looping 0" and u: "\<not> sq_locked ?s" by code_simp+
  have ts: "aq_tasks (sq_heap ?s ! 0) = [\<lparr>qt_handle = 1, qt_task_id = ''t2'', qt_agent_id = ''cook''\<rparr>]"
    by code_simp
  from worker_drains_queue [OF r l u, where err = "\<lambda>t. Some ''no network''"] show ?thesis unfolding ts by auto
qed

section \<open>Interleavings that go wrong\<close>

lemma all_exited_disabled:
  "\<forall>i. thread_at s i = Exited \<Longrightarrow> sq_fire a s \<noteq> None \<Longrightarrow>
     a = SqClear \<or> a = SqDrain \<and> sq_clearing s \<noteq> None \<or> (\<exists>agent' task_id'. a = SqSubmit agent' task_id')"
  by (cases a) auto

text \<open>
  C33: The wake-up race of \<open>Submit\<close>: the worker that \<open>Submit\<close> starts can find the channel empty and
  retire before \<open>Submit\<close> sends its task. Then every goroutine has ended, the queue is not running,
  the task stays in the channel without a result, and no transition but a further \<open>Submit\<close> or
  \<open>Clear\<close> is enabled.
\<close>

theorem lost_wakeup:
  "\<exists>s. sq_schedule [SqSubmit agent task_id, SqStart 1, SqPoll 1, SqRetire 1, SqSend 0] new_session_queue = Some s
    \<and> sq_heap s = [\<lparr>aq_tasks = [\<lparr>qt_handle = 0, qt_task_id = task_id, qt_agent_id = agent\<rparr>], aq_running = False\<rparr>]
    \<and> sq_results s = [] \<and> (\<forall>i. thread_at s i = Exited)
    \<and> {a. sq_fire a s \<noteq> None} = insert SqClear {SqSubmit agent' task_id' | agent' task_id'. True}"
proof -
  let ?s = "\<lparr>sq_locked = False, sq_clearing = None, sq_queues = [(agent, 0)],
     sq_heap = [\<lparr>aq_tasks = [\<lparr>qt_handle = 0, qt_task_id = task_id, qt_agent_id = agent\<rparr>], aq_running = False\<rparr>],
     sq_threads = [Exited, Exited], sq_results = [], sq_next = 1\<rparr>"
  have "sq_schedule [SqSubmit agent task_id, SqStart 1, SqPoll 1, SqRetire 1, SqSend 0] new_session_queue = Some ?s"
    by (simp add: new_session_queue_def submit_locked_def find_queue_def spawn_def set_running_def
        set_thread_def thread_at_def send_task_def set_tasks_def queue_capacity_def)
  moreover have ex: "\<forall>i. thread_at ?s i = Exited"
    by (auto simp: thread_at_def nth_Cons split: nat.split)
  moreover have "{a. sq_fire a ?s \<noteq> None} = insert SqClear {SqSubmit agent' task_id' | agent' task_id'. True}"
    using all_exited_disabled [OF ex] by auto
  ultimately show ?thesis by (intro exI [where x = ?s] conjI) simp_all
qed

lemma locked_for_ever: "sq_fire a s = Some s' \<Longrightarrow> sq_locked s \<and> sq_clearing s = None \<Longrightarrow> sq_locked s' \<and> sq_clearing s' = None"
  by (cases a) (auto simp: send_task_def split: sq_thread.splits list.splits if_splits)

lemma locked_schedule: "sq_schedule as s = Some s' \<Longrightarrow> sq_locked s \<and> sq_clearing s = None \<Longrightarrow> sq_locked s' \<and> sq_clearing s' = None"
proof (induction as arbitrary: s)
  case (Cons a as)
  then obtain s1 where "sq_fire a s = Some s1" "sq_schedule as s1 = Some s'"
    by (auto split: option.splits)
  with Cons show ?case using locked_for_ever by blast
qed simp

lemma locked_blocks:
  "sq_locked s \<Longrightarrow> sq_fire (SqSubmit agent task_id) s = None \<and> sq_fire SqClear s = None
     \<and> get_queue_length s agent = None \<and> get_total_queue_length s = None
     \<and> get_active_agents s = None \<and> queue_stats s = None"
  by (simp add: get_queue_length_def get_total_queue_length_def get_active_agents_def queue_stats_def)

text \<open>
  C38: \<open>processQueue\<close> returns without unlocking when its queue is gone. When \<open>Clear\<close> runs between a
  \<open>Submit\<close> and the start of the worker it spawned, the mutex stays locked for ever: after any
  further transitions every submission, clean-up and query blocks.
\<close>

theorem clear_deadlock:
  "\<exists>s. sq_schedule [SqSubmit agent task_id, SqClear, SqDrain, SqDrain, SqStart 1] new_session_queue = Some s
    \<and> (\<forall>as. case sq_schedule as s of
          None \<Rightarrow> True
        | Some s' \<Rightarrow> sq_fire (SqSubmit agent' task_id') s' = None \<and> sq_fire SqClear s' = None
            \<and> get_queue_length s' agent' = None \<and> get_total_queue_length s' = None
            \<and> get_active_agents s' = None \<and> queue_stats s' = None)"
proof -
  let ?s = "\<lparr>sq_locked = True, sq_clearing = None, sq_queues = [], sq_heap = [\<lparr>aq_tasks = [], aq_running = False\<rparr>],
     sq_threads = [Submitting 0 \<lparr>qt_handle = 0, qt_task_id = task_id, qt_agent_id = agent\<rparr>, Exited],
     sq_results = [], sq_next = 1\<rparr>"
  have "sq_schedule [SqSubmit agent task_id, SqClear, SqDrain, SqDrain, SqStart 1] new_session_queue = Some ?s"
    by (simp add: new_session_queue_def submit_locked_def find_queue_def spawn_def set_running_def
        set_thread_def thread_at_def clear_locked_def drain_queue_def set_tasks_def)
  moreover have "case sq_schedule as ?s of
          None \<Rightarrow> True
        | Some s' \<Rightarrow> sq_fire (SqSubmit agent' task_id') s' = None \<and> sq_fire SqClear s' = None
            \<and> get_queue_length s' agent' = None \<and> get_total_queue_length s' = None
            \<and> get_active_agents s' = None \<and> queue_stats s' = None" for as
  proof (cases "sq_schedule as ?s")
    case (Some s')
    from locked_schedule [OF Some] have "sq_locked s'" by simp
    from locked_blocks [OF this] Some show ?thesis by simp
  qed simp
  ultimately show ?thesis by blast
qed

text \<open>
  C27: After \<open>Clear\<close> the tasks of an agent are no longer serial: a worker of the dropped queue goes on
  executing its task while a worker of the agent's new queue executes the next one.
\<close>

theorem clear_breaks_serial:
  "\<exists>s. sq_schedule [SqSubmit agent t1, SqSend 0, SqStart 1, SqPoll 1, SqClear, SqDrain, SqDrain,
        SqSubmit agent t2, SqSend 2, SqStart 3, SqPoll 3] new_session_queue = Some s
    \<and> thread_at s 1 = Executing 0 \<lparr>qt_handle = 0, qt_task_id = t1, qt_agent_id = agent\<rparr>
    \<and> thread_at s 3 = Executing 1 \<lparr>qt_handle = 1, qt_task_id = t2, qt_agent_id = agent\<rparr>"
  by (simp add: new_session_queue_def submit_locked_def find_queue_def spawn_def set_running_def
      set_thread_def thread_at_def clear_locked_def drain_queue_def set_tasks_def send_task_def
      queue_capacity_def nth_Cons')

end
