(* ===== verification/PriorityQueue.thy ===== *)
theory PriorityQueue
  imports SessionQueue
begin

text \<open>
  The task queue with two priorities (\<open>pkg/delegation/queue.go\<close>, type \<open>PrioritySessionQueue\<close>), with
  the interleavings of its goroutines. Here \<open>SubmitWithPriority\<close> is one critical section, including
  the send. A worker belongs to an agent and a priority; its poll of its own channel is one step,
  because nobody else receives from it. The look-up of the normal queue by a high-priority worker has
  no effect.
\<close>

section \<open>State and steps\<close>

datatype pq_thread =
    PqStarting bool string
  | PqLooping bool string
  | PqExecuting bool string queued_task
  | PqIdle bool string
  | PqExited

record priority_queue =
  pq_high :: "(string, agent_queue) gomap"
  pq_normal :: "(string, agent_queue) gomap"
  pq_threads :: "pq_thread list"
  pq_results :: "(nat \<times> task_result) list"
  pq_next :: nat

definition new_priority_queue :: priority_queue where
  "new_priority_queue = \<lparr>pq_high = [], pq_normal = [], pq_threads = [], pq_results = [], pq_next = 0\<rparr>"

definition lanes :: "bool \<Rightarrow> priority_queue \<Rightarrow> (string, agent_queue) gomap" where
  "lanes high s = (if high then pq_high s else pq_normal s)"

definition set_lane :: "bool \<Rightarrow> string \<Rightarrow> agent_queue \<Rightarrow> priority_queue \<Rightarrow> priority_queue" where
  "set_lane high agent q s =
     (if high then s\<lparr>pq_high := mput agent q (pq_high s)\<rparr> else s\<lparr>pq_normal := mput agent q (pq_normal s)\<rparr>)"

definition pq_spawn :: "pq_thread \<Rightarrow> priority_queue \<Rightarrow> priority_queue" where
  "pq_spawn t s = s\<lparr>pq_threads := pq_threads s @ [t]\<rparr>"

definition pq_set_thread :: "nat \<Rightarrow> pq_thread \<Rightarrow> priority_queue \<Rightarrow> priority_queue" where
  "pq_set_thread i t s = s\<lparr>pq_threads := (pq_threads s)[i := t]\<rparr>"

definition pq_answer :: "queued_task \<Rightarrow> task_result \<Rightarrow> priority_queue \<Rightarrow> priority_queue" where
  "pq_answer t r s = s\<lparr>pq_results := pq_results s @ [(qt_handle t, r)]\<rparr>"

definition submit_with_priority :: "bool \<Rightarrow> string \<Rightarrow> string \<Rightarrow> priority_queue \<Rightarrow> priority_queue" where
  "submit_with_priority high agent task_id s =
     (let q = (case mget (lanes high s) agent of Some q \<Rightarrow> q | None \<Rightarrow> \<lparr>aq_tasks = [], aq_running = False\<rparr>);
          t = \<lparr>qt_handle = pq_next s, qt_task_id = task_id, qt_agent_id = agent\<rparr>;
          s1 = s\<lparr>pq_next := pq_next s + 1\<rparr>;
          s2 = (if aq_running q then s1 else pq_spawn (PqStarting high agent) s1)
      in if length (aq_tasks q) < queue_capacity
         then set_lane high agent (q\<lparr>aq_tasks := aq_tasks q @ [t], aq_running := True\<rparr>) s2
         else pq_answer t ErrQueueFull (set_lane high agent (q\<lparr>aq_running := True\<rparr>) s2))"

definition submit_normal :: "string \<Rightarrow> string \<Rightarrow> priority_queue \<Rightarrow> priority_queue" where
  "submit_normal agent task_id s = submit_with_priority False agent task_id s"

datatype pq_action =
    PqSubmit bool string string
  | PqStart nat
  | PqPoll nat
  | PqFinish nat "string option"
  | PqRetire nat

definition pq_thread_at :: "priority_queue \<Rightarrow> nat \<Rightarrow> pq_thread" where
  "pq_thread_at s i = (if i < length (pq_threads s) then pq_threads s ! i else PqExited)"

fun pq_fire :: "pq_action \<Rightarrow> priority_queue \<Rightarrow> priority_queue option" where
  "pq_fire (PqSubmit high agent task_id) s = Some (submit_with_priority high agent task_id s)"
| "pq_fire (PqStart i) s =
     (case pq_thread_at s i of
        PqStarting high agent \<Rightarrow>
          (case mget (lanes high s) agent of
             None \<Rightarrow> Some (pq_set_thread i PqExited s)
           | Some _ \<Rightarrow> Some (pq_set_thread i (PqLooping high agent) s))
      | _ \<Rightarrow> None)"
| "pq_fire (PqPoll i) s =
     (case pq_thread_at s i of
        PqLooping high agent \<Rightarrow>
          (case mget (lanes high s) agent of
             None \<Rightarrow> Some (pq_set_thread i (PqIdle high agent) s)
           | Some q \<Rightarrow>
               (case aq_tasks q of
                  [] \<Rightarrow> Some (pq_set_thread i (PqIdle high agent) s)
                | t # ts \<Rightarrow> Some (set_lane high agent (q\<lparr>aq_tasks := ts\<rparr>) (pq_set_thread i (PqExecuting high agent t) s))))
      | _ \<Rightarrow> None)"
| "pq_fire (PqFinish i err) s =
     (case pq_thread_at s i of
        PqExecuting high agent t \<Rightarrow> Some (pq_answer t (TaskDone err) (pq_set_thread i (PqLooping high agent) s))
      | _ \<Rightarrow> None)"
| "pq_fire (PqRetire i) s =
     (case pq_thread_at s i of
        PqIdle high agent \<Rightarrow>
          (case mget (lanes high s) agent of
             None \<Rightarrow> Some (pq_set_thread i PqExited s)
           | Some q \<Rightarrow>
               if aq_tasks q = [] then Some (set_lane high agent (q\<lparr>aq_running := False\<rparr>) (pq_set_thread i PqExited s))
               else Some (pq_set_thread i (PqLooping high agent) s))
      | _ \<Rightarrow> None)"

fun pq_run :: "pq_action list \<Rightarrow> priority_queue \<Rightarrow> priority_queue option" where
  "pq_run [] s = Some s"
| "pq_run (a # as) s = (case pq_fire a s of None \<Rightarrow> None | Some s' \<Rightarrow> pq_run as s')"

section \<open>Workers\<close>

fun worker_of :: "pq_thread \<Rightarrow> (bool \<times> string) option" where
  "worker_of (PqStarting h a) = Some (h, a)"
| "worker_of (PqLooping h a) = Some (h, a)"
| "worker_of (PqExecuting h a t) = Some (h, a)"
| "worker_of (PqIdle h a) = Some (h, a)"
| "worker_of PqExited = None"

fun pq_thread_tasks :: "pq_thread \<Rightarrow> queued_task list" where
  "pq_thread_tasks (PqExecuting h a t) = [t]"
| "pq_thread_tasks _ = []"

definition pq_workers :: "bool \<Rightarrow> string \<Rightarrow> priority_queue \<Rightarrow> nat" where
  "pq_workers h a s = count_list (map worker_of (pq_threads s)) (Some (h, a))"

text \<open>Where the tasks are: in the queues, being executed, answered.\<close>

definition lane_handles :: "(string, agent_queue) gomap \<Rightarrow> nat multiset" where
  "lane_handles m = handles (concat (map (\<lambda>(a, q). aq_tasks q) m))"

definition pq_whereabouts :: "priority_queue \<Rightarrow> nat multiset" where
  "pq_whereabouts s = lane_handles (pq_high s) + lane_handles (pq_normal s)
     + handles (concat (map pq_thread_tasks (pq_threads s))) + mset (map fst (pq_results s))"

text \<open>
  A queue runs exactly when it has a worker, and then one; a queue with tasks runs; a worker has a
  queue; every task is in one place.
\<close>

definition pq_inv :: "priority_queue \<Rightarrow> bool" where
  "pq_inv s \<longleftrightarrow>
     (\<forall>h a. case mget (lanes h s) a of
        None \<Rightarrow> pq_workers h a s = 0
      | Some q \<Rightarrow> pq_workers h a s = (if aq_running q then 1 else 0) \<and> (aq_tasks q \<noteq> [] \<longrightarrow> aq_running q))
     \<and> pq_whereabouts s = mset [0..<pq_next s]"

lemma lanes_set_lane [simp]: "lanes h (set_lane h' a q s) = (if h = h' then mput a q (lanes h s) else lanes h s)"
  by (simp add: lanes_def set_lane_def)

lemma lanes_frame [simp]:
  "lanes h (pq_set_thread i t s) = lanes h s" "lanes h (pq_spawn t s) = lanes h s" "lanes h (pq_answer t' r s) = lanes h s"
  "lanes h (s\<lparr>pq_next := n\<rparr>) = lanes h s"
  by (simp_all add: lanes_def pq_set_thread_def pq_spawn_def pq_answer_def)

lemma workers_frames [simp]:
  "pq_workers h a (set_lane h' b q s) = pq_workers h a s" "pq_workers h a (pq_answer t r s) = pq_workers h a s"
  "pq_workers h a (s\<lparr>pq_next := n\<rparr>) = pq_workers h a s"
  by (simp_all add: pq_workers_def set_lane_def pq_answer_def)

lemma pq_workers_spawn: "pq_workers h a (pq_spawn t s) = pq_workers h a s + (if worker_of t = Some (h, a) then 1 else 0)"
  by (simp add: pq_workers_def pq_spawn_def)

lemma count_list_update:
  "i < length xs \<Longrightarrow> count_list (xs[i := y]) x + (if xs ! i = x then 1 else 0) = count_list xs x + (if y = x then 1 else 0)"
proof (induction xs arbitrary: i)
  case (Cons z xs)
  show ?case
  proof (cases i)
    case (Suc j)
    then show ?thesis using Cons.prems Cons.IH [of j] by auto
  qed auto
qed simp

lemma pq_workers_set_thread:
  "i < length (pq_threads s) \<Longrightarrow>
     pq_workers h a (pq_set_thread i t s) + (if worker_of (pq_threads s ! i) = Some (h, a) then 1 else 0)
       = pq_workers h a s + (if worker_of t = Some (h, a) then 1 else 0)"
  using count_list_update [of i "map worker_of (pq_threads s)" "worker_of t" "Some (h, a)"]
  by (simp add: pq_workers_def pq_set_thread_def map_update)

lemma lane_handles_put:
  "lane_handles (mput a q m) + (case mget m a of None \<Rightarrow> {#} | Some u \<Rightarrow> handles (aq_tasks u))
     = lane_handles m + handles (aq_tasks q)"
  by (induction m) (auto simp: lane_handles_def ac_simps)

lemma where_set_lane:
  "pq_whereabouts (set_lane h a q s) + (case mget (lanes h s) a of None \<Rightarrow> {#} | Some u \<Rightarrow> handles (aq_tasks u))
     = pq_whereabouts s + handles (aq_tasks q)"
  using lane_handles_put [of a q "lanes h s"]
  by (cases h) (simp_all add: pq_whereabouts_def set_lane_def lanes_def ac_simps)

lemma where_set_pq_thread:
  "i < length (pq_threads s) \<Longrightarrow>
     pq_whereabouts (pq_set_thread i t s) + handles (pq_thread_tasks (pq_threads s ! i))
       = pq_whereabouts s + handles (pq_thread_tasks t)"
  using mset_concat_update [of i "pq_threads s" pq_thread_tasks t]
  by (simp add: pq_whereabouts_def pq_set_thread_def ac_simps)

lemma where_pq_frames [simp]:
  "pq_whereabouts (pq_spawn t s) = pq_whereabouts s + handles (pq_thread_tasks t)"
  "pq_whereabouts (pq_answer t' r s) = add_mset (qt_handle t') (pq_whereabouts s)"
  "pq_whereabouts (s\<lparr>pq_next := n\<rparr>) = pq_whereabouts s"
  by (simp_all add: pq_whereabouts_def pq_spawn_def pq_answer_def)

lemma next_frames [simp]:
  "pq_next (set_lane h a q s) = pq_next s" "pq_next (pq_spawn t s) = pq_next s" "pq_next (pq_answer t' r s) = pq_next s"
  "pq_next (pq_set_thread i t s) = pq_next s"
  "pq_threads (set_lane h a q s) = pq_threads s"
  by (simp_all add: set_lane_def pq_spawn_def pq_answer_def pq_set_thread_def)

section \<open>Preservation\<close>

definition lane_ok :: "priority_queue \<Rightarrow> bool \<Rightarrow> string \<Rightarrow> bool" where
  "lane_ok s h a \<longleftrightarrow>
     (case mget (lanes h s) a of
        None \<Rightarrow> pq_workers h a s = 0
      | Some q \<Rightarrow> pq_workers h a s = (if aq_running q then 1 else 0) \<and> (aq_tasks q \<noteq> [] \<longrightarrow> aq_running q))"

lemma pq_inv_iff: "pq_inv s \<longleftrightarrow> (\<forall>h a. lane_ok s h a) \<and> pq_whereabouts s = mset [0..<pq_next s]"
  by (simp add: pq_inv_def lane_ok_def)

lemma lane_ok_cong:
  "mget (lanes h s') a = mget (lanes h s) a \<Longrightarrow> pq_workers h a s' = pq_workers h a s \<Longrightarrow> lane_ok s' h a = lane_ok s h a"
  by (simp only: lane_ok_def)

lemma pq_thread_at_index: "pq_thread_at s i = t \<Longrightarrow> t \<noteq> PqExited \<Longrightarrow> i < length (pq_threads s) \<and> pq_threads s ! i = t"
  by (auto simp: pq_thread_at_def split: if_splits)

lemma worker_counted: "i < length (pq_threads s) \<Longrightarrow> worker_of (pq_threads s ! i) = Some (h, a) \<Longrightarrow> pq_workers h a s \<noteq> 0"
  unfolding pq_workers_def by (metis count_list_0_iff length_map nth_map nth_mem)

lemma worker_queue_running:
  "pq_inv s \<Longrightarrow> i < length (pq_threads s) \<Longrightarrow> worker_of (pq_threads s ! i) = Some (h, a) \<Longrightarrow>
     \<exists>q. mget (lanes h s) a = Some q \<and> aq_running q"
proof -
  assume a: "pq_inv s" "i < length (pq_threads s)" "worker_of (pq_threads s ! i) = Some (h, a)"
  then have "lane_ok s h a" "pq_workers h a s \<noteq> 0" using worker_counted by (auto simp: pq_inv_iff)
  then show ?thesis by (auto simp: lane_ok_def split: option.splits if_splits)
qed

lemma workers_same_owner:
  "i < length (pq_threads s) \<Longrightarrow> worker_of t = worker_of (pq_threads s ! i) \<Longrightarrow>
     pq_workers h a (pq_set_thread i t s) = pq_workers h a s"
  using pq_workers_set_thread [of i s h a t] by simp

text \<open>A worker that goes on: its tasks move between the thread, its queue and the results.\<close>

lemma inv_same_owner:
  assumes "pq_inv s" and "i < length (pq_threads s)" and "worker_of t = worker_of (pq_threads s ! i)"
    and "pq_thread_tasks t = pq_thread_tasks (pq_threads s ! i)"
  shows "pq_inv (pq_set_thread i t s)"
proof -
  have "lane_ok (pq_set_thread i t s) h a = lane_ok s h a" for h a
    by (rule lane_ok_cong) (simp_all add: workers_same_owner [OF assms(2,3)])
  then show ?thesis using assms where_set_pq_thread [OF assms(2), of t] by (simp add: pq_inv_iff)
qed

lemma inv_submit:
  assumes i: "pq_inv s"
  shows "pq_inv (submit_with_priority high agent task_id s)"
proof -
  define q where "q = (case mget (lanes high s) agent of Some q \<Rightarrow> q | None \<Rightarrow> \<lparr>aq_tasks = [], aq_running = False\<rparr>)"
  let ?t = "\<lparr>qt_handle = pq_next s, qt_task_id = task_id, qt_agent_id = agent\<rparr>"
  let ?s1 = "s\<lparr>pq_next := pq_next s + 1\<rparr>"
  let ?s2 = "if aq_running q then ?s1 else pq_spawn (PqStarting high agent) ?s1"
  have lane: "lane_ok s h a" for h a using i by (simp add: pq_inv_iff)
  have w: "pq_workers high agent ?s2 = 1"
    using lane [of high agent] by (auto simp: q_def lane_ok_def pq_workers_spawn split: option.splits if_splits)
  have others: "pq_workers h a ?s2 = pq_workers h a s" if "(h, a) \<noteq> (high, agent)" for h a
    using that by (auto simp: pq_workers_spawn)
  have ok: "lane_ok (set_lane high agent (q\<lparr>aq_tasks := ts, aq_running := True\<rparr>) ?s2) h a" for ts h a
  proof (cases "(h, a) = (high, agent)")
    case True
    then show ?thesis using w by (simp add: lane_ok_def)
  next
    case False
    then have "lane_ok (set_lane high agent (q\<lparr>aq_tasks := ts, aq_running := True\<rparr>) ?s2) h a = lane_ok s h a"
      using others [OF False] by (intro lane_ok_cong) auto
    with lane show ?thesis by simp
  qed
  have tasks: "(case mget (lanes high s) agent of None \<Rightarrow> {#} | Some u \<Rightarrow> handles (aq_tasks u)) = handles (aq_tasks q)"
    by (auto simp: q_def split: option.split)
  have wh: "pq_whereabouts ?s2 = mset [0..<pq_next s]" "lanes high ?s2 = lanes high s"
    using i by (simp_all add: pq_inv_iff)
  have put: "pq_whereabouts (set_lane high agent (q\<lparr>aq_tasks := aq_tasks q @ ts, aq_running := True\<rparr>) ?s2)
      = mset [0..<pq_next s] + handles ts" for ts
    using where_set_lane [of high agent "q\<lparr>aq_tasks := aq_tasks q @ ts, aq_running := True\<rparr>" ?s2] wh tasks by simp
  have n: "pq_next ?s2 = Suc (pq_next s)" by simp
  have sub: "submit_with_priority high agent task_id s =
      (if length (aq_tasks q) < queue_capacity
       then set_lane high agent (q\<lparr>aq_tasks := aq_tasks q @ [?t], aq_running := True\<rparr>) ?s2
       else pq_answer ?t ErrQueueFull (set_lane high agent (q\<lparr>aq_tasks := aq_tasks q @ [], aq_running := True\<rparr>) ?s2))"
    unfolding submit_with_priority_def Let_def q_def [symmetric] by simp
  have frame: "lane_ok (pq_answer t r x) h a = lane_ok x h a" for t r x h a
    by (rule lane_ok_cong) simp_all
  define placed where "placed ts = set_lane high agent (q\<lparr>aq_tasks := aq_tasks q @ ts, aq_running := True\<rparr>) ?s2" for ts
  have p: "\<forall>h a. lane_ok (placed ts) h a" "pq_whereabouts (placed ts) = mset [0..<pq_next s] + handles ts"
    "pq_next (placed ts) = Suc (pq_next s)" for ts
    unfolding placed_def using ok put n by simp_all
  have up: "mset [0..<Suc (pq_next s)] = add_mset (pq_next s) (mset [0..<pq_next s])" by (simp only: upt_Suc) simp
  have "pq_inv (placed [?t])" unfolding pq_inv_iff p(2,3) up using p(1) [of "[?t]"] by simp
  moreover have "pq_inv (pq_answer ?t ErrQueueFull (placed []))"
    unfolding pq_inv_iff frame next_frames p(3) up where_pq_frames p(2) using p(1) [of "[]"] by simp
  ultimately show ?thesis unfolding sub placed_def [symmetric] by simp
qed

lemma inv_poll:
  assumes i: "pq_inv s" and k: "k < length (pq_threads s)" and t: "pq_threads s ! k = PqLooping h a"
    and q: "mget (lanes h s) a = Some q" and ts: "aq_tasks q = u # us"
  shows "pq_inv (set_lane h a (q\<lparr>aq_tasks := us\<rparr>) (pq_set_thread k (PqExecuting h a u) s))"
proof -
  let ?s = "pq_set_thread k (PqExecuting h a u) s"
  have w: "pq_workers h' a' ?s = pq_workers h' a' s" for h' a' using k t by (intro workers_same_owner) simp_all
  have "pq_whereabouts ?s = pq_whereabouts s + {#qt_handle u#}" using where_set_pq_thread [OF k, of "PqExecuting h a u"] t by simp
  then have "pq_whereabouts (set_lane h a (q\<lparr>aq_tasks := us\<rparr>) ?s) = pq_whereabouts s"
    using where_set_lane [of h a "q\<lparr>aq_tasks := us\<rparr>" ?s] q ts by simp
  moreover have "lane_ok (set_lane h a (q\<lparr>aq_tasks := us\<rparr>) ?s) h' a'" for h' a'
  proof (cases "(h', a') = (h, a)")
    case True
    have "lane_ok s h a" using i by (simp add: pq_inv_iff)
    with True q ts w show ?thesis by (simp add: lane_ok_def)
  next
    case False
    then have "lane_ok (set_lane h a (q\<lparr>aq_tasks := us\<rparr>) ?s) h' a' = lane_ok s h' a'"
      by (intro lane_ok_cong) (auto simp: w)
    with i show ?thesis by (simp add: pq_inv_iff)
  qed
  ultimately show ?thesis using i by (simp add: pq_inv_iff)
qed

lemma pq_inv_finish:
  assumes i: "pq_inv s" and k: "k < length (pq_threads s)" and t: "pq_threads s ! k = PqExecuting h a u"
  shows "pq_inv (pq_answer u r (pq_set_thread k (PqLooping h a) s))"
proof -
  let ?s = "pq_set_thread k (PqLooping h a) s"
  have w: "pq_workers h' a' ?s = pq_workers h' a' s" for h' a' using k t by (intro workers_same_owner) simp_all
  have "pq_whereabouts ?s + {#qt_handle u#} = pq_whereabouts s" using where_set_pq_thread [OF k, of "PqLooping h a"] t by simp
  moreover have "lane_ok (pq_answer u r ?s) h' a' = lane_ok s h' a'" for h' a'
    by (rule lane_ok_cong) (simp_all add: w)
  ultimately show ?thesis using i by (simp add: pq_inv_iff)
qed

lemma inv_retire:
  assumes i: "pq_inv s" and k: "k < length (pq_threads s)" and t: "pq_threads s ! k = PqIdle h a"
    and q: "mget (lanes h s) a = Some q" and ts: "aq_tasks q = []"
  shows "pq_inv (set_lane h a (q\<lparr>aq_running := False\<rparr>) (pq_set_thread k PqExited s))"
proof -
  let ?s = "pq_set_thread k PqExited s"
  have "pq_whereabouts ?s = pq_whereabouts s" using where_set_pq_thread [OF k, of PqExited] t by simp
  then have "pq_whereabouts (set_lane h a (q\<lparr>aq_running := False\<rparr>) ?s) = pq_whereabouts s"
    using where_set_lane [of h a "q\<lparr>aq_running := False\<rparr>" ?s] q ts by simp
  moreover have "lane_ok (set_lane h a (q\<lparr>aq_running := False\<rparr>) ?s) h' a'" for h' a'
  proof (cases "(h', a') = (h, a)")
    case True
    have "aq_running q" using worker_queue_running [OF i k, of h a] t q by simp
    moreover have "lane_ok s h a" using i by (simp add: pq_inv_iff)
    ultimately have "pq_workers h a s = 1" using q by (simp add: lane_ok_def)
    then have "pq_workers h a ?s = 0" using pq_workers_set_thread [OF k, of h a PqExited] t by simp
    with True ts show ?thesis by (simp add: lane_ok_def)
  next
    case False
    then have "pq_workers h' a' ?s = pq_workers h' a' s" using pq_workers_set_thread [OF k, of h' a' PqExited] t by auto
    moreover have "lane_ok s h' a'" using i by (simp add: pq_inv_iff)
    moreover have "lane_ok (set_lane h a (q\<lparr>aq_running := False\<rparr>) ?s) h' a' = lane_ok s h' a'"
      using False calculation(1) by (intro lane_ok_cong) auto
    ultimately show ?thesis by simp
  qed
  ultimately show ?thesis using i by (simp add: pq_inv_iff)
qed

lemma inv_pq_fire: "pq_inv s \<Longrightarrow> pq_fire x s = Some s' \<Longrightarrow> pq_inv s'"
proof (induction x s rule: pq_fire.induct)
  case (2 k s)
  then obtain h a where t: "pq_thread_at s k = PqStarting h a" by (auto split: pq_thread.splits)
  then have k: "k < length (pq_threads s)" "pq_threads s ! k = PqStarting h a" using pq_thread_at_index [of s k] by blast+
  then obtain q where "mget (lanes h s) a = Some q" using worker_queue_running [OF "2.prems"(1), of k h a] by auto
  then have "s' = pq_set_thread k (PqLooping h a) s" using "2.prems"(2) t by simp
  then show ?case using "2.prems"(1) k by (simp add: inv_same_owner)
next
  case (3 k s)
  then obtain h a where t: "pq_thread_at s k = PqLooping h a" by (auto split: pq_thread.splits)
  then have k: "k < length (pq_threads s)" "pq_threads s ! k = PqLooping h a" using pq_thread_at_index [of s k] by blast+
  then obtain q where q: "mget (lanes h s) a = Some q" using worker_queue_running [OF "3.prems"(1), of k h a] by auto
  show ?case
  proof (cases "aq_tasks q")
    case Nil
    then have "s' = pq_set_thread k (PqIdle h a) s" using "3.prems"(2) t q by simp
    then show ?thesis using "3.prems"(1) k by (simp add: inv_same_owner)
  next
    case (Cons u us)
    then have "s' = set_lane h a (q\<lparr>aq_tasks := us\<rparr>) (pq_set_thread k (PqExecuting h a u) s)" using "3.prems"(2) t q by simp
    then show ?thesis using inv_poll [OF "3.prems"(1) k q Cons] by simp
  qed
next
  case (4 k err s)
  then obtain h a u where t: "pq_thread_at s k = PqExecuting h a u" by (auto split: pq_thread.splits)
  then have k: "k < length (pq_threads s)" "pq_threads s ! k = PqExecuting h a u" using pq_thread_at_index [of s k] by blast+
  then show ?case using pq_inv_finish [OF "4.prems"(1) k] "4.prems"(2) t by auto
next
  case (5 k s)
  then obtain h a where t: "pq_thread_at s k = PqIdle h a" by (auto split: pq_thread.splits)
  then have k: "k < length (pq_threads s)" "pq_threads s ! k = PqIdle h a" using pq_thread_at_index [of s k] by blast+
  then obtain q where q: "mget (lanes h s) a = Some q" using worker_queue_running [OF "5.prems"(1), of k h a] by auto
  show ?case
  proof (cases "aq_tasks q = []")
    case True
    then show ?thesis using inv_retire [OF "5.prems"(1) k q True] "5.prems"(2) t q by auto
  next
    case False
    then have "s' = pq_set_thread k (PqLooping h a) s" using "5.prems"(2) t q by simp
    then show ?thesis using "5.prems"(1) k by (simp add: inv_same_owner)
  qed
qed (auto intro: inv_submit)

lemma inv_pq_run: "pq_inv s \<Longrightarrow> pq_run as s = Some s' \<Longrightarrow> pq_inv s'"
  by (induction as arbitrary: s) (auto split: option.splits intro: inv_pq_fire)

lemma inv_pq_new: "pq_inv new_priority_queue"
  by (simp add: pq_inv_def new_priority_queue_def lanes_def pq_workers_def pq_whereabouts_def lane_handles_def)

section \<open>Every task is answered\<close>

definition lane_empty :: "priority_queue \<Rightarrow> bool \<Rightarrow> string \<Rightarrow> bool" where
  "lane_empty s h a \<longleftrightarrow> (case mget (lanes h s) a of None \<Rightarrow> True | Some q \<Rightarrow> aq_tasks q = [])"

text \<open>How many more steps a worker can make before it takes another task.\<close>

fun worker_weight :: "priority_queue \<Rightarrow> pq_thread \<Rightarrow> nat" where
  "worker_weight s (PqStarting h a) = 3"
| "worker_weight s (PqLooping h a) = 2"
| "worker_weight s (PqExecuting h a t) = 3"
| "worker_weight s (PqIdle h a) = (if lane_empty s h a then 1 else 3)"
| "worker_weight s PqExited = 0"

definition pq_pending :: "priority_queue \<Rightarrow> nat" where
  "pq_pending s = size (lane_handles (pq_high s) + lane_handles (pq_normal s))"

definition pq_measure :: "priority_queue \<Rightarrow> nat" where
  "pq_measure s = 4 * pq_pending s + sum_list (map (worker_weight s) (pq_threads s))"

lemma worker_weight_le: "worker_weight s t \<le> 3"
  by (cases t) auto

lemma pq_measure_bound: "pq_measure s \<le> 4 * pq_pending s + 3 * length (pq_threads s)"
proof -
  have "sum_list (map (worker_weight s) ts) \<le> 3 * length ts" for ts
    using worker_weight_le by (induction ts) (simp_all add: add_mono)
  then show ?thesis by (simp add: pq_measure_def)
qed

lemma sum_list_update_at:
  "i < length xs \<Longrightarrow> sum_list (map f (xs[i := y])) + f (xs ! i) = sum_list (map f xs) + (f y :: nat)"
proof (induction xs arbitrary: i)
  case (Cons x xs)
  then show ?case by (cases i) auto
qed simp

lemma weight_cong: "(\<And>h a. lane_empty s' h a = lane_empty s h a) \<Longrightarrow> worker_weight s' t = worker_weight s t"
  by (cases t) auto

lemma measure_set_thread:
  assumes "i < length (pq_threads s)" and "worker_weight s t < worker_weight s (pq_threads s ! i)"
  shows "pq_measure (pq_set_thread i t s) < pq_measure s"
proof -
  let ?s = "pq_set_thread i t s"
  have "worker_weight ?s = worker_weight s" by (rule ext, rule weight_cong) (simp add: lane_empty_def)
  moreover have "pq_pending ?s = pq_pending s" by (simp add: pq_pending_def pq_set_thread_def)
  moreover have "pq_threads ?s = (pq_threads s)[i := t]" by (simp add: pq_set_thread_def)
  ultimately show ?thesis using sum_list_update_at [OF assms(1), of "worker_weight s" t] assms(2)
    by (simp add: pq_measure_def)
qed

lemma pending_set_lane:
  "pq_pending (set_lane h a q s) + (case mget (lanes h s) a of None \<Rightarrow> 0 | Some u \<Rightarrow> length (aq_tasks u))
     = pq_pending s + length (aq_tasks q)"
proof -
  have sz: "size (handles ts) = length ts" for ts by (simp add: handles_def)
  have "size (lane_handles (mput a q m)) + (case mget m a of None \<Rightarrow> 0 | Some u \<Rightarrow> length (aq_tasks u))
      = size (lane_handles m) + length (aq_tasks q)" for m
    using arg_cong [OF lane_handles_put [of a q m], of size] by (simp add: sz split: option.splits)
  from this [of "lanes h s"] show ?thesis
    by (cases h) (simp_all add: pq_pending_def set_lane_def lanes_def)
qed

lemma measure_running:
  assumes "mget (lanes h s) a = Some q"
  shows "pq_measure (set_lane h a (q\<lparr>aq_running := b\<rparr>) s) = pq_measure s"
proof -
  have "worker_weight (set_lane h a (q\<lparr>aq_running := b\<rparr>) s) = worker_weight s"
    using assms by (intro ext weight_cong) (auto simp: lane_empty_def)
  then show ?thesis using pending_set_lane [of h a "q\<lparr>aq_running := b\<rparr>" s] assms by (simp add: pq_measure_def)
qed

lemma measure_take:
  assumes "mget (lanes h s) a = Some q" and "aq_tasks q = u # us"
  shows "pq_measure (set_lane h a (q\<lparr>aq_tasks := us\<rparr>) s) + 4 \<le> pq_measure s"
proof -
  let ?s = "set_lane h a (q\<lparr>aq_tasks := us\<rparr>) s"
  have "worker_weight ?s t \<le> worker_weight s t" for t
    using assms by (cases t) (auto simp: lane_empty_def)
  then have "sum_list (map (worker_weight ?s) (pq_threads s)) \<le> sum_list (map (worker_weight s) (pq_threads s))"
    by (rule sum_list_mono)
  moreover have "pq_pending ?s + 1 = pq_pending s"
    using pending_set_lane [of h a "q\<lparr>aq_tasks := us\<rparr>" s] assms by simp
  ultimately show ?thesis unfolding pq_measure_def next_frames by linarith
qed

fun pq_is_submit :: "pq_action \<Rightarrow> bool" where
  "pq_is_submit (PqSubmit h a t) = True"
| "pq_is_submit _ = False"

lemma measure_answer [simp]: "pq_measure (pq_answer t r s) = pq_measure s"
proof -
  have "worker_weight (pq_answer t r s) = worker_weight s" by (intro ext weight_cong) (simp add: lane_empty_def)
  then show ?thesis by (simp add: pq_measure_def pq_pending_def pq_answer_def)
qed

lemma fire_decreases:
  "pq_inv s \<Longrightarrow> \<not> pq_is_submit x \<Longrightarrow> pq_fire x s = Some s' \<Longrightarrow> pq_measure s' < pq_measure s \<and> pq_next s' = pq_next s"
proof (induction x s rule: pq_fire.induct)
  case (2 k s)
  then obtain h a where t: "pq_thread_at s k = PqStarting h a" by (auto split: pq_thread.splits)
  then have k: "k < length (pq_threads s)" "pq_threads s ! k = PqStarting h a" using pq_thread_at_index [of s k] by blast+
  then show ?case using "2.prems" t measure_set_thread [OF k(1)] by (auto split: option.splits)
next
  case (3 k s)
  then obtain h a where t: "pq_thread_at s k = PqLooping h a" by (auto split: pq_thread.splits)
  then have k: "k < length (pq_threads s)" "pq_threads s ! k = PqLooping h a" using pq_thread_at_index [of s k] by blast+
  then obtain q where q: "mget (lanes h s) a = Some q" using worker_queue_running [OF "3.prems"(1), of k h a] by auto
  show ?case
  proof (cases "aq_tasks q")
    case Nil
    then have "s' = pq_set_thread k (PqIdle h a) s" "lane_empty s h a" using "3.prems" t q by (simp_all add: lane_empty_def)
    then show ?thesis using measure_set_thread [OF k(1), of "PqIdle h a"] k(2) by simp
  next
    case (Cons u us)
    let ?s = "pq_set_thread k (PqExecuting h a u) s"
    have "s' = set_lane h a (q\<lparr>aq_tasks := us\<rparr>) ?s" using "3.prems" t q Cons by simp
    moreover have "pq_measure (set_lane h a (q\<lparr>aq_tasks := us\<rparr>) ?s) + 4 \<le> pq_measure ?s"
      using q Cons by (intro measure_take) simp_all
    moreover have "pq_measure ?s \<le> pq_measure s + 1"
    proof -
      have "worker_weight ?s = worker_weight s" by (intro ext weight_cong) (simp add: lane_empty_def)
      then show ?thesis using sum_list_update_at [OF k(1), of "worker_weight s" "PqExecuting h a u"] k(2)
        by (simp add: pq_measure_def pq_pending_def pq_set_thread_def)
    qed
    ultimately show ?thesis by simp
  qed
next
  case (4 k err s)
  then obtain h a u where t: "pq_thread_at s k = PqExecuting h a u" by (auto split: pq_thread.splits)
  then have k: "k < length (pq_threads s)" "pq_threads s ! k = PqExecuting h a u" using pq_thread_at_index [of s k] by blast+
  then show ?case using "4.prems" t measure_set_thread [OF k(1), of "PqLooping h a"] by auto
next
  case (5 k s)
  then obtain h a where t: "pq_thread_at s k = PqIdle h a" by (auto split: pq_thread.splits)
  then have k: "k < length (pq_threads s)" "pq_threads s ! k = PqIdle h a" using pq_thread_at_index [of s k] by blast+
  then obtain q where q: "mget (lanes h s) a = Some q" using worker_queue_running [OF "5.prems"(1), of k h a] by auto
  show ?case
  proof (cases "aq_tasks q = []")
    case True
    have "s' = set_lane h a (q\<lparr>aq_running := False\<rparr>) (pq_set_thread k PqExited s)" using "5.prems" t q True by simp
    then show ?thesis
      using measure_set_thread [OF k(1), of PqExited] k(2) measure_running [of h "pq_set_thread k PqExited s" a q False] q by simp
  next
    case False
    then have "s' = pq_set_thread k (PqLooping h a) s" using "5.prems" t q by simp
    then show ?thesis using measure_set_thread [OF k(1), of "PqLooping h a"] k(2) q False by (simp add: lane_empty_def)
  qed
qed simp_all

lemma run_bounded:
  "pq_inv s \<Longrightarrow> list_all (\<lambda>x. \<not> pq_is_submit x) bs \<Longrightarrow> pq_run bs s = Some s' \<Longrightarrow>
     length bs + pq_measure s' \<le> pq_measure s \<and> pq_next s' = pq_next s"
proof (induction bs arbitrary: s)
  case (Cons b bs)
  then obtain u where u: "pq_fire b s = Some u" "pq_run bs u = Some s'" by (auto split: option.splits)
  have "pq_measure u < pq_measure s \<and> pq_next u = pq_next s" using fire_decreases [OF Cons.prems(1) _ u(1)] Cons.prems(2) by simp
  moreover have "length bs + pq_measure s' \<le> pq_measure u \<and> pq_next s' = pq_next u"
    using Cons.IH [OF inv_pq_fire [OF Cons.prems(1) u(1)]] Cons.prems(2) u(2) by simp
  ultimately show ?case by simp
qed simp

definition quiet :: "priority_queue \<Rightarrow> bool" where
  "quiet s \<longleftrightarrow> (\<forall>x. pq_is_submit x \<or> pq_fire x s = None)"

lemma quiet_exited: "quiet s \<Longrightarrow> i < length (pq_threads s) \<Longrightarrow> pq_threads s ! i = PqExited"
proof (rule ccontr)
  assume q: "quiet s" and i: "i < length (pq_threads s)" and n: "pq_threads s ! i \<noteq> PqExited"
  have none: "pq_fire (PqStart i) s = None" "pq_fire (PqPoll i) s = None" "pq_fire (PqFinish i None) s = None" "pq_fire (PqRetire i) s = None"
    using q unfolding quiet_def by (metis pq_is_submit.simps)+
  with i n show False
    by (cases "pq_threads s ! i") (auto simp: pq_thread_at_def split: option.splits list.splits if_splits)
qed

definition pq_wf :: "priority_queue \<Rightarrow> bool" where
  "pq_wf s \<longleftrightarrow> wf_map (pq_high s) \<and> wf_map (pq_normal s)"

lemma wf_set_lane: "pq_wf s \<Longrightarrow> pq_wf (set_lane h a q s)"
  by (simp add: pq_wf_def set_lane_def)

lemma wf_frames [simp]:
  "pq_wf (pq_set_thread i t s) = pq_wf s" "pq_wf (pq_spawn t s) = pq_wf s" "pq_wf (pq_answer t' r s) = pq_wf s"
  "pq_wf (s\<lparr>pq_next := n\<rparr>) = pq_wf s"
  by (simp_all add: pq_wf_def pq_set_thread_def pq_spawn_def pq_answer_def)

lemma wf_fire: "pq_wf s \<Longrightarrow> pq_fire x s = Some s' \<Longrightarrow> pq_wf s'"
proof (induction x s rule: pq_fire.induct)
  case (1 high agent task_id s)
  then have "pq_wf (if b then s\<lparr>pq_next := n\<rparr> else pq_spawn t (s\<lparr>pq_next := n\<rparr>))" for b n t by simp
  then have "pq_wf (submit_with_priority high agent task_id s)"
    unfolding submit_with_priority_def Let_def by (simp only: wf_frames wf_set_lane split: if_split) simp
  then show ?case using "1.prems"(2) by simp
qed (auto intro: wf_set_lane split: pq_thread.splits option.splits list.splits if_splits)

lemma wf_run: "pq_wf s \<Longrightarrow> pq_run as s = Some s' \<Longrightarrow> pq_wf s'"
  by (induction as arbitrary: s) (auto split: option.splits intro: wf_fire)

lemma wf_new: "pq_wf new_priority_queue"
  by (simp add: pq_wf_def new_priority_queue_def)

lemma quiet_answered:
  assumes i: "pq_inv s" and wf: "pq_wf s" and q: "quiet s"
  shows "mset (map fst (pq_results s)) = mset [0..<pq_next s]"
proof -
  have exited: "t = PqExited" if "t \<in> set (pq_threads s)" for t using quiet_exited [OF q] that by (metis in_set_conv_nth)
  then have "map worker_of (pq_threads s) = map (\<lambda>_. None) (pq_threads s)"
    by (intro map_cong refl) (metis worker_of.simps(5))
  then have w: "pq_workers h a s = 0" for h a by (simp add: pq_workers_def map_replicate_const count_list_0_iff)
  have e: "aq_tasks q = []" if "mget (lanes h s) a = Some q" for h a q
  proof -
    have "lane_ok s h a" using i by (simp add: pq_inv_iff)
    then show ?thesis using that w by (auto simp: lane_ok_def split: if_splits)
  qed
  have "lane_handles (lanes h s) = {#}" for h
  proof -
    have "wf_map (lanes h s)" using wf by (simp add: pq_wf_def lanes_def)
    then have "aq_tasks (snd x) = []" if "x \<in> set (lanes h s)" for x
      using e [of h "fst x" "snd x"] that mget_in_set [of "lanes h s" "fst x" "snd x"] by simp
    then have "concat (map (\<lambda>(a, q). aq_tasks q) (lanes h s)) = []" by auto
    then show ?thesis unfolding lane_handles_def by (simp only: handles_simps)
  qed
  from this [of True] this [of False] have lanes0: "lane_handles (pq_high s) = {#}" "lane_handles (pq_normal s) = {#}"
    by (simp_all add: lanes_def)
  have "pq_thread_tasks t = []" if "t \<in> set (pq_threads s)" for t using exited [OF that] by simp
  then have "concat (map pq_thread_tasks (pq_threads s)) = []" by simp
  then have "handles (concat (map pq_thread_tasks (pq_threads s))) = {#}" by (simp only: handles_simps)
  then show ?thesis using i lanes0 by (simp add: pq_inv_iff pq_whereabouts_def)
qed

section \<open>Properties\<close>

text \<open>
  C32: In the queue with priorities no task is forgotten. From any reachable state, as soon as nothing
  more is submitted, the goroutines can make only a bounded number of steps in whatever order they
  are scheduled, and when none can make another step every task ever submitted has been answered
  exactly once.
\<close>

theorem priority_tasks_all_answered:
  assumes "pq_run as new_priority_queue = Some s"
    and "pq_run bs s = Some s'" and "list_all (\<lambda>x. \<not> pq_is_submit x) bs"
  shows "length bs \<le> 4 * size (lane_handles (pq_high s) + lane_handles (pq_normal s)) + 3 * length (pq_threads s)
    \<and> ((\<forall>x. pq_is_submit x \<or> pq_fire x s' = None) \<longrightarrow> mset (map fst (pq_results s')) = mset [0..<pq_next s])"
proof
  have i: "pq_inv s" using inv_pq_run inv_pq_new assms(1) by blast
  have b: "length bs + pq_measure s' \<le> pq_measure s \<and> pq_next s' = pq_next s" by (rule run_bounded [OF i assms(3,2)])
  then show "length bs \<le> 4 * size (lane_handles (pq_high s) + lane_handles (pq_normal s)) + 3 * length (pq_threads s)"
    using pq_measure_bound [of s] by (simp add: pq_pending_def)
  have "pq_wf s'" using wf_run [OF wf_run [OF wf_new assms(1)] assms(2)] .
  moreover have "pq_inv s'" using inv_pq_run [OF i assms(2)] .
  ultimately show "(\<forall>x. pq_is_submit x \<or> pq_fire x s' = None) \<longrightarrow> mset (map fst (pq_results s')) = mset [0..<pq_next s]"
    using quiet_answered [of s'] b by (simp add: quiet_def)
qed

definition two_priorities :: "pq_action list" where
  "two_priorities = [PqSubmit False ''a'' ''t0'', PqSubmit True ''a'' ''t1'', PqStart 0, PqStart 1, PqPoll 0, PqPoll 1]"

definition priority_rest :: "pq_action list" where
  "priority_rest = [PqFinish 0 None, PqFinish 1 (Some ''failed''), PqPoll 0, PqPoll 1, PqRetire 1, PqRetire 0]"

theorem priority_tasks_all_answered_witness:
  "length priority_rest \<le> 4 * size (lane_handles (pq_high (the (pq_run two_priorities new_priority_queue)))
       + lane_handles (pq_normal (the (pq_run two_priorities new_priority_queue))))
     + 3 * length (pq_threads (the (pq_run two_priorities new_priority_queue)))"
proof -
  have a: "pq_run two_priorities new_priority_queue = Some (the (pq_run two_priorities new_priority_queue))" by code_simp
  have b: "pq_run priority_rest (the (pq_run two_priorities new_priority_queue))
      = Some (the (pq_run priority_rest (the (pq_run two_priorities new_priority_queue))))" by code_simp
  show ?thesis
    by (rule priority_tasks_all_answered [OF a b, THEN conjunct1]) code_simp
qed

text \<open>Tasks of different priority of one agent run at the same time: each priority has its own worker.\<close>

lemma priorities_overlap:
  "map_option pq_threads (pq_run two_priorities new_priority_queue) =
     Some [PqExecuting False ''a'' \<lparr>qt_handle = 0, qt_task_id = ''t0'', qt_agent_id = ''a''\<rparr>,
           PqExecuting True ''a'' \<lparr>qt_handle = 1, qt_task_id = ''t1'', qt_agent_id = ''a''\<rparr>]"
  by code_simp

end
