(* ===== verification/ModelRef.thy ===== *)
theory ModelRef
  imports Prelude
begin

text \<open>
  Model references and the candidate list of the fallback chain (\<open>pkg/providers/model_ref.go\<close>,
  \<open>ResolveCandidates\<close> and \<open>ResolveCandidatesWithLookup\<close> of \<open>fallback.go\<close>). The lookup callback is
  a parameter, as in the source.
\<close>

section \<open>References\<close>

record model_ref =
  mr_provider :: string
  mr_model :: string

definition normalize_provider :: "string \<Rightarrow> string" where
  "normalize_provider provider =
     (let p = to_lower (trim_space provider) in
      if p = ''z.ai'' \<or> p = ''z-ai'' then ''zai''
      else if p = ''opencode-zen'' then ''opencode''
      else if p = ''qwen'' then ''qwen-portal''
      else if p = ''kimi-code'' then ''kimi-coding''
      else if p = ''gpt'' then ''openai''
      else if p = ''claude'' then ''anthropic''
      else if p = ''glm'' then ''zhipu''
      else if p = ''google'' then ''gemini''
      else p)"

definition model_key :: "string \<Rightarrow> string \<Rightarrow> string" where
  "model_key provider model = normalize_provider provider @ ''/'' @ to_lower (trim_space model)"

text \<open>\<open>strings.Index(s, "/") > 0\<close>: there is a slash and it is not the first byte.\<close>

definition parse_model_ref :: "string \<Rightarrow> string \<Rightarrow> model_ref option" where
  "parse_model_ref raw0 default_provider =
     (let raw = trim_space raw0; before = takeWhile (\<lambda>c. c \<noteq> CHR ''/'') raw in
      if raw = [] then None
      else if CHR ''/'' \<in> set raw \<and> before \<noteq> [] then
        (let provider = normalize_provider before;
             model = trim_space (drop (length before + 1) raw)
         in if model = [] then None else Some \<lparr>mr_provider = provider, mr_model = model\<rparr>)
      else Some \<lparr>mr_provider = normalize_provider default_provider, mr_model = raw\<rparr>)"

section \<open>Candidates\<close>

record model_config =
  mc_primary :: string
  mc_fallbacks :: "string list"

record fallback_candidate =
  fc_provider :: string
  fc_model :: string

type_synonym model_lookup = "string \<Rightarrow> string option"

definition candidate_ref :: "model_lookup option \<Rightarrow> string \<Rightarrow> string \<Rightarrow> model_ref option" where
  "candidate_ref lookup default_provider raw =
     (let candidate_raw = trim_space raw;
          resolved = (case lookup of
                        None \<Rightarrow> candidate_raw
                      | Some f \<Rightarrow> (case f candidate_raw of Some r \<Rightarrow> r | None \<Rightarrow> candidate_raw))
      in parse_model_ref resolved default_provider)"

definition add_candidate ::
    "model_lookup option \<Rightarrow> string \<Rightarrow> string \<Rightarrow> string list \<times> fallback_candidate list \<Rightarrow>
     string list \<times> fallback_candidate list" where
  "add_candidate lookup default_provider raw acc =
     (case acc of (seen, candidates) \<Rightarrow>
        (case candidate_ref lookup default_provider raw of
           None \<Rightarrow> (seen, candidates)
         | Some ref \<Rightarrow>
             (let key = model_key (mr_provider ref) (mr_model ref) in
              if key \<in> set seen then (seen, candidates)
              else (key # seen,
                    candidates @ [\<lparr>fc_provider = mr_provider ref, fc_model = mr_model ref\<rparr>]))))"

definition resolve_candidates_with_lookup ::
    "model_config \<Rightarrow> string \<Rightarrow> model_lookup option \<Rightarrow> fallback_candidate list" where
  "resolve_candidates_with_lookup cfg default_provider lookup =
     snd (fold (add_candidate lookup default_provider) (mc_fallbacks cfg)
       (add_candidate lookup default_provider (mc_primary cfg) ([], [])))"

definition resolve_candidates :: "model_config \<Rightarrow> string \<Rightarrow> fallback_candidate list" where
  "resolve_candidates cfg default_provider = resolve_candidates_with_lookup cfg default_provider None"

section \<open>Reference definition: the first occurrence of every key\<close>

fun first_by :: "('a \<Rightarrow> 'k) \<Rightarrow> 'k set \<Rightarrow> 'a list \<Rightarrow> 'a list" where
  "first_by f seen [] = []"
| "first_by f seen (x # xs) =
     (if f x \<in> seen then first_by f seen xs else x # first_by f (insert (f x) seen) xs)"

lemma first_by_keys: "f ` set (first_by f seen xs) = f ` set xs - seen"
  by (induction xs arbitrary: seen) auto

lemma first_by_distinct: "distinct (map f (first_by f seen xs))"
  by (induction xs arbitrary: seen) (simp_all add: first_by_keys)

lemma first_by_subseq: "subseq (first_by f seen xs) xs"
  by (induction xs arbitrary: seen) auto

definition candidate_key :: "fallback_candidate \<Rightarrow> string" where
  "candidate_key c = model_key (fc_provider c) (fc_model c)"

definition parsed_candidates :: "model_lookup option \<Rightarrow> string \<Rightarrow> string list \<Rightarrow> fallback_candidate list" where
  "parsed_candidates lookup default_provider raws =
     map (\<lambda>ref. \<lparr>fc_provider = mr_provider ref, fc_model = mr_model ref\<rparr>)
       (map the (filter (\<lambda>r. r \<noteq> None) (map (candidate_ref lookup default_provider) raws)))"

lemma add_candidates_spec:
  "snd (fold (add_candidate lookup d) raws (seen, cs)) =
     cs @ first_by candidate_key (set seen) (parsed_candidates lookup d raws)"
proof (induction raws arbitrary: seen cs)
  case (Cons raw raws)
  show ?case
  proof (cases "candidate_ref lookup d raw")
    case None
    then show ?thesis using Cons.IH by (simp add: add_candidate_def parsed_candidates_def)
  next
    case (Some ref)
    let ?c = "\<lparr>fc_provider = mr_provider ref, fc_model = mr_model ref\<rparr>"
    have p: "parsed_candidates lookup d (raw # raws) = ?c # parsed_candidates lookup d raws"
      using Some by (simp add: parsed_candidates_def)
    have k: "candidate_key ?c = model_key (mr_provider ref) (mr_model ref)"
      by (simp add: candidate_key_def)
    show ?thesis unfolding p
      using Some Cons.IH k by (simp add: add_candidate_def Let_def)
  qed
qed (simp add: parsed_candidates_def)

lemma resolve_candidates_spec:
  "resolve_candidates_with_lookup cfg d lookup =
     first_by candidate_key {} (parsed_candidates lookup d (mc_primary cfg # mc_fallbacks cfg))"
  using add_candidates_spec [of lookup d "mc_primary cfg # mc_fallbacks cfg" "[]" "[]"]
  by (simp add: resolve_candidates_with_lookup_def)

section \<open>Properties\<close>

text \<open>
  The candidate list has no two entries with the same provider/model key, keeps the order of
  the configuration (primary first), and covers exactly the keys of the references that parse: a
  reference is left out only when it does not parse or its key came before.
\<close>

theorem candidates_deduplicated:
  "distinct (map candidate_key (resolve_candidates_with_lookup cfg d lookup))
   \<and> subseq (resolve_candidates_with_lookup cfg d lookup)
       (parsed_candidates lookup d (mc_primary cfg # mc_fallbacks cfg))
   \<and> candidate_key ` set (resolve_candidates_with_lookup cfg d lookup) =
       candidate_key ` set (parsed_candidates lookup d (mc_primary cfg # mc_fallbacks cfg))"
  unfolding resolve_candidates_spec
  by (intro conjI first_by_distinct first_by_subseq) (simp add: first_by_keys)

end
