(* ===== verification/GoRegexp.thy ===== *)
theory GoRegexp
  imports Prelude
begin

text \<open>
  The fragment of Go's regular expressions that the sources' patterns use: sequences of character
  classes with the repetitions \<open>*\<close>, \<open>+\<close> and \<open>?\<close>, word boundaries and one capture group. Matching
  is leftmost-first with greedy repetitions, as in package \<open>regexp\<close>. Patterns compiled with
  \<open>(?i)\<close> are applied to lower-case ASCII text only, where the flag has no effect.
\<close>

section \<open>Patterns and matching\<close>

datatype char_class = Lit char | OneOf string | Range char char | Digit | White | AnyChar

fun class_matches :: "char_class \<Rightarrow> char \<Rightarrow> bool" where
  "class_matches (Lit d) c = (c = d)"
| "class_matches (OneOf ds) c = (c \<in> set ds)"
| "class_matches (Range a b) c = (a \<le> c \<and> c \<le> b)"
| "class_matches Digit c = is_digit c"
| "class_matches White c = (c \<in> {CHR '' '', CHR 0x09, CHR 0x0A, CHR 0x0C, CHR 0x0D})"
| "class_matches AnyChar c = (c \<noteq> newline)"

datatype re_item = One char_class | Star char_class | Plus char_class | Opt char_class
  | WordB | Open | Close

type_synonym pattern = "re_item list"

definition word_char :: "char \<Rightarrow> bool" where
  "word_char c \<longleftrightarrow> is_digit c \<or> class_matches (Range CHR ''a'' CHR ''z'') (lower_char c) \<or> c = CHR ''_''"

definition at_boundary :: "char option \<Rightarrow> string \<Rightarrow> bool" where
  "at_boundary prev s \<longleftrightarrow>
     (case prev of None \<Rightarrow> False | Some c \<Rightarrow> word_char c) \<noteq> (case s of [] \<Rightarrow> False | c # _ \<Rightarrow> word_char c)"

text \<open>
  Match at the start of \<open>s\<close>, where \<open>prev\<close> is the byte before it; the answer is the text of the
  capture group. \<open>cap\<close> is what the group has so far, reversed, and \<open>on\<close> whether it is open.
\<close>

function match_here :: "pattern \<Rightarrow> char option \<Rightarrow> string \<Rightarrow> string \<Rightarrow> bool \<Rightarrow> string option" where
  "match_here [] prev s cap on = Some (rev cap)"
| "match_here (Open # r) prev s cap on = match_here r prev s [] True"
| "match_here (Close # r) prev s cap on = match_here r prev s cap False"
| "match_here (WordB # r) prev s cap on =
     (if at_boundary prev s then match_here r prev s cap on else None)"
| "match_here (One c # r) prev [] cap on = None"
| "match_here (One c # r) prev (x # xs) cap on =
     (if class_matches c x then match_here r (Some x) xs (if on then x # cap else cap) on else None)"
| "match_here (Plus c # r) prev [] cap on = None"
| "match_here (Plus c # r) prev (x # xs) cap on =
     (if class_matches c x then match_here (Star c # r) (Some x) xs (if on then x # cap else cap) on else None)"
| "match_here (Opt c # r) prev [] cap on = match_here r prev [] cap on"
| "match_here (Opt c # r) prev (x # xs) cap on =
     (case (if class_matches c x then match_here r (Some x) xs (if on then x # cap else cap) on else None) of
        Some m \<Rightarrow> Some m
      | None \<Rightarrow> match_here r prev (x # xs) cap on)"
| "match_here (Star c # r) prev [] cap on = match_here r prev [] cap on"
| "match_here (Star c # r) prev (x # xs) cap on =
     (case (if class_matches c x then match_here (Star c # r) (Some x) xs (if on then x # cap else cap) on else None) of
        Some m \<Rightarrow> Some m
      | None \<Rightarrow> match_here r prev (x # xs) cap on)"
  by pat_completeness auto
termination
  by (relation "measures [\<lambda>(r, prev, s, cap, on). length s, \<lambda>(r, prev, s, cap, on). length r]") auto

text \<open>The leftmost match.\<close>

fun search_from :: "pattern \<Rightarrow> char option \<Rightarrow> string \<Rightarrow> string option" where
  "search_from r prev [] = match_here r prev [] [] False"
| "search_from r prev (x # xs) =
     (case match_here r prev (x # xs) [] False of
        Some m \<Rightarrow> Some m
      | None \<Rightarrow> search_from r (Some x) xs)"

definition find_submatch :: "pattern \<Rightarrow> string \<Rightarrow> string option" where
  "find_submatch r s = search_from r None s"

definition match_string :: "pattern \<Rightarrow> string \<Rightarrow> bool" where
  "match_string r s \<longleftrightarrow> find_submatch r s \<noteq> None"

abbreviation lits :: "string \<Rightarrow> pattern" where
  "lits t \<equiv> map (\<lambda>c. One (Lit c)) t"

section \<open>Literal text\<close>

lemma match_lits_prefix: "match_here (lits t @ r) prev s cap on = Some m \<Longrightarrow> prefix t s"
proof (induction t arbitrary: prev s cap)
  case (Cons c t)
  then show ?case by (cases s) (auto split: if_splits)
qed simp

lemma match_lits_at:
  "match_here (lits t @ r) prev (t @ s) [] False =
     match_here r (if t = [] then prev else Some (last t)) s [] False"
  by (induction t arbitrary: prev) auto

lemma search_lits_sublist: "search_from (lits t @ r) prev s = Some m \<Longrightarrow> sublist t s"
proof (induction s arbitrary: prev)
  case Nil
  then show ?case using match_lits_prefix prefix_imp_sublist by fastforce
next
  case (Cons x s)
  show ?case
  proof (cases "match_here (lits t @ r) prev (x # s) [] False")
    case None
    with Cons show ?thesis by (auto intro: sublist_Cons_right [THEN iffD2])
  next
    case (Some m')
    then show ?thesis using match_lits_prefix prefix_imp_sublist by blast
  qed
qed

lemma match_string_needs: "match_string (lits t @ r) s \<Longrightarrow> sublist t s"
  by (auto simp: match_string_def find_submatch_def dest: search_lits_sublist)

text \<open>A pattern of plain text matches exactly the strings that contain the text.\<close>

lemma match_here_some_search: "match_here r prev s [] False \<noteq> None \<Longrightarrow> search_from r prev s \<noteq> None"
  by (cases s) (auto split: option.split)

lemma search_text: "sublist t s \<Longrightarrow> search_from (lits t) prev s \<noteq> None"
proof (induction s arbitrary: prev)
  case Nil
  then show ?case by simp
next
  case (Cons x s)
  from Cons.prems consider "prefix t (x # s)" | "sublist t s" by (auto simp: sublist_Cons_right)
  then show ?case
  proof cases
    case 1
    then obtain v where "x # s = t @ v" by (auto simp: prefix_def)
    then have "match_here (lits t) prev (x # s) [] False \<noteq> None"
      using match_lits_at [of t "[]" prev v] by simp
    then show ?thesis by (rule match_here_some_search)
  next
    case 2
    with Cons.IH show ?thesis by (auto split: option.split)
  qed
qed

lemma match_string_text: "match_string (lits t) s \<longleftrightarrow> sublist t s"
  using match_string_needs [of t "[]" s] search_text [of t s None]
  by (auto simp: match_string_def find_submatch_def)

section \<open>Leftmost matches\<close>

lemma search_skip:
  assumes "\<And>k p. k < length u \<Longrightarrow> match_here r p (drop k u @ w) [] False = None"
  shows "search_from r prev (u @ w) = search_from r (if u = [] then prev else Some (last u)) w"
  using assms
proof (induction u arbitrary: prev)
  case (Cons x u)
  have "match_here r prev (x # u @ w) [] False = None" using Cons.prems [of 0] by simp
  moreover have "match_here r p (drop k u @ w) [] False = None" if "k < length u" for k p
    using Cons.prems [of "Suc k"] that by simp
  ultimately show ?case using Cons.IH by simp
qed simp

lemma search_skip_lits:
  assumes "t \<noteq> []" and "\<not> sublist t (u @ butlast t)"
  shows "search_from (lits t @ r) prev (u @ t @ w) =
     search_from (lits t @ r) (if u = [] then prev else Some (last u)) (t @ w)"
proof (rule search_skip)
  fix k p assume k: "k < length u"
  show "match_here (lits t @ r) p (drop k u @ t @ w) [] False = None"
  proof (rule ccontr)
    assume "match_here (lits t @ r) p (drop k u @ t @ w) [] False \<noteq> None"
    then have p: "prefix t (drop k u @ t @ w)" using match_lits_prefix by fastforce
    have "drop k u @ t @ w = (drop k u @ butlast t) @ (last t # w)" using assms(1) by simp
    moreover have "length t \<le> length (drop k u @ butlast t)" using k assms(1) by simp
    moreover from calculation(1) have "prefix (drop k u @ butlast t) (drop k u @ t @ w)"
      by (metis prefixI)
    ultimately have "prefix t (drop k u @ butlast t)" using p prefix_length_prefix by blast
    then obtain v where "drop k u @ butlast t = t @ v" by (auto simp: prefix_def)
    then have "u @ butlast t = take k u @ t @ v" by (metis append_assoc append_take_drop_id)
    with assms(2) show False unfolding sublist_def by blast
  qed
qed

text \<open>A greedy star runs over all the bytes it can, when the rest of the pattern matches there.\<close>

lemma match_star_all:
  assumes "list_all (class_matches c) xs" and "\<And>p. match_here (Star c # r) p s [] False = Some m"
  shows "match_here (Star c # r) prev (xs @ s) [] False = Some m"
  using assms(1)
proof (induction xs arbitrary: prev)
  case Nil
  then show ?case using assms(2) by simp
qed simp

lemma match_plus_all:
  assumes "xs \<noteq> []" and "list_all (class_matches c) xs" and "\<And>p. match_here (Star c # r) p s [] False = Some m"
  shows "match_here (Plus c # r) prev (xs @ s) [] False = Some m"
  using assms(1,2) match_star_all [OF _ assms(3), of "tl xs"] by (cases xs) auto

lemma search_first: "match_here r prev s [] False = Some m \<Longrightarrow> search_from r prev s = Some m"
  by (cases s) auto

end
