(* ===== verification/Cooldown.thy ===== *)
theory Cooldown
  imports KeyedStore
begin

text \<open>
  Cooldown of LLM providers (\<open>pkg/providers/cooldown.go\<close>, \<open>FailoverReason\<close> of \<open>types.go\<close>). Times are
  nanoseconds; the zero \<open>time.Time\<close> is \<open>None\<close>, the empty reason too. The powers the source computes
  in floating point are exact there, so they are integer powers here.

  The locale \<open>cooldown_gate\<close> states what the fallback chain relies on.
\<close>

section \<open>Reasons\<close>

datatype failover_reason =
    FailoverAuth | FailoverRateLimit | FailoverBilling | FailoverTimeout | FailoverFormat
  | FailoverOverloaded | FailoverUnknown

fun reason_string :: "failover_reason \<Rightarrow> string" where
  "reason_string FailoverAuth = ''auth''"
| "reason_string FailoverRateLimit = ''rate_limit''"
| "reason_string FailoverBilling = ''billing''"
| "reason_string FailoverTimeout = ''timeout''"
| "reason_string FailoverFormat = ''format''"
| "reason_string FailoverOverloaded = ''overloaded''"
| "reason_string FailoverUnknown = ''unknown''"

section \<open>Back-off\<close>

definition ms :: "int \<Rightarrow> int" where
  "ms n = n * 1000000"

definition minutes :: "int \<Rightarrow> int" where
  "minutes n = n * 60 * ms 1000"

definition hours :: "int \<Rightarrow> int" where
  "hours n = n * 60 * minutes 1"

definition calculate_standard_cooldown :: "int \<Rightarrow> int" where
  "calculate_standard_cooldown error_count =
     (let n = max 1 error_count;
          e = min (n - 1) 3;
          m = 60000 * 5 ^ nat e
      in ms (min 3600000 m))"

definition calculate_billing_cooldown :: "int \<Rightarrow> int" where
  "calculate_billing_cooldown billing_count =
     (let base_ms = 5 * 60 * 60 * 1000;
          max_ms = 24 * 60 * 60 * 1000;
          n = max 1 billing_count;
          e = min (n - 1) 10;
          raw = base_ms * 2 ^ nat e
      in ms (min max_ms raw))"

lemmas duration_defs = ms_def minutes_def hours_def

lemma standard_cooldown_table:
  "calculate_standard_cooldown n =
     (if n \<le> 1 then minutes 1 else if n = 2 then minutes 5 else if n = 3 then minutes 25 else hours 1)"
proof -
  consider "n \<le> 1" | "n = 2" | "n = 3" | "n \<ge> 4" by linarith
  then show ?thesis
    by cases (simp_all add: calculate_standard_cooldown_def duration_defs Let_def)
qed

lemma billing_cooldown_table:
  "calculate_billing_cooldown n =
     (if n \<le> 1 then hours 5 else if n = 2 then hours 10 else if n = 3 then hours 20 else hours 24)"
proof -
  consider "n \<le> 1" | "n = 2" | "n = 3" | "n \<ge> 4" by linarith
  then show ?thesis
  proof cases
    case 4
    have "(2::nat) ^ 3 \<le> 2 ^ nat (min (n - 1) 10)" using 4 by (intro power_increasing) auto
    then have "(2::int) ^ 3 \<le> 2 ^ nat (min (n - 1) 10)"
      using 4 by (intro power_increasing) auto
    then have "86400000 \<le> (18000000::int) * 2 ^ nat (min (n - 1) 10)" by simp
    with 4 show ?thesis
      by (simp add: calculate_billing_cooldown_def duration_defs Let_def max_def)
  qed (simp_all add: calculate_billing_cooldown_def duration_defs Let_def)
qed

lemma standard_cooldown_mono: "m \<le> n \<Longrightarrow> calculate_standard_cooldown m \<le> calculate_standard_cooldown n"
  by (simp add: standard_cooldown_table duration_defs)

lemma billing_cooldown_mono: "m \<le> n \<Longrightarrow> calculate_billing_cooldown m \<le> calculate_billing_cooldown n"
  by (simp add: billing_cooldown_table duration_defs)

lemma standard_cooldown_bounds:
  "minutes 1 \<le> calculate_standard_cooldown n \<and> calculate_standard_cooldown n \<le> hours 1"
  by (simp add: standard_cooldown_table duration_defs)

lemma billing_cooldown_bounds:
  "hours 5 \<le> calculate_billing_cooldown n \<and> calculate_billing_cooldown n \<le> hours 24"
  by (simp add: billing_cooldown_table duration_defs)

section \<open>The tracker\<close>

record cooldown_entry =
  ce_error_count :: int
  ce_failure_counts :: "(failover_reason, int) gomap"
  ce_cooldown_end :: "int option"
  ce_disabled_until :: "int option"
  ce_disabled_reason :: "failover_reason option"
  ce_last_failure :: "int option"

record cooldown_tracker =
  ct_entries :: "(string, cooldown_entry) gomap"
  ct_failure_window :: int

definition new_cooldown_tracker :: cooldown_tracker where
  "new_cooldown_tracker = \<lparr>ct_entries = [], ct_failure_window = hours 24\<rparr>"

definition empty_entry :: cooldown_entry where
  "empty_entry = \<lparr>ce_error_count = 0, ce_failure_counts = [], ce_cooldown_end = None,
     ce_disabled_until = None, ce_disabled_reason = None, ce_last_failure = None\<rparr>"

definition get_or_create_entry :: "cooldown_tracker \<Rightarrow> string \<Rightarrow> cooldown_entry" where
  "get_or_create_entry ct provider =
     (case mget (ct_entries ct) provider of None \<Rightarrow> empty_entry | Some e \<Rightarrow> e)"

definition count_of :: "(failover_reason, int) gomap \<Rightarrow> failover_reason \<Rightarrow> int" where
  "count_of m r = (case mget m r of None \<Rightarrow> 0 | Some n \<Rightarrow> n)"

definition mark_entry :: "int \<Rightarrow> int \<Rightarrow> failover_reason \<Rightarrow> cooldown_entry \<Rightarrow> cooldown_entry" where
  "mark_entry window now reason e0 =
     (let e1 = (case ce_last_failure e0 of
                  None \<Rightarrow> e0
                | Some t \<Rightarrow>
                    if now - t > window then e0\<lparr>ce_error_count := 0, ce_failure_counts := []\<rparr> else e0);
          e2 = e1\<lparr>ce_error_count := ce_error_count e1 + 1,
                  ce_failure_counts :=
                    mput reason (count_of (ce_failure_counts e1) reason + 1) (ce_failure_counts e1),
                  ce_last_failure := Some now\<rparr>
      in if reason = FailoverBilling
         then e2\<lparr>ce_disabled_until :=
                   Some (now + calculate_billing_cooldown (count_of (ce_failure_counts e2) FailoverBilling)),
                 ce_disabled_reason := Some FailoverBilling\<rparr>
         else e2\<lparr>ce_cooldown_end := Some (now + calculate_standard_cooldown (ce_error_count e2))\<rparr>)"

definition mark_failure :: "int \<Rightarrow> string \<Rightarrow> failover_reason \<Rightarrow> cooldown_tracker \<Rightarrow> cooldown_tracker" where
  "mark_failure now provider reason ct =
     ct\<lparr>ct_entries := mput provider
          (mark_entry (ct_failure_window ct) now reason (get_or_create_entry ct provider)) (ct_entries ct)\<rparr>"

definition mark_success :: "string \<Rightarrow> cooldown_tracker \<Rightarrow> cooldown_tracker" where
  "mark_success provider ct =
     (case mget (ct_entries ct) provider of
        None \<Rightarrow> ct
      | Some e \<Rightarrow>
          ct\<lparr>ct_entries := mput provider
               (e\<lparr>ce_error_count := 0, ce_failure_counts := [], ce_cooldown_end := None,
                  ce_disabled_until := None, ce_disabled_reason := None\<rparr>) (ct_entries ct)\<rparr>)"

definition still_before :: "int \<Rightarrow> int option \<Rightarrow> bool" where
  "still_before now t = (case t of None \<Rightarrow> False | Some e \<Rightarrow> now < e)"

definition is_available :: "int \<Rightarrow> string \<Rightarrow> cooldown_tracker \<Rightarrow> bool" where
  "is_available now provider ct =
     (case mget (ct_entries ct) provider of
        None \<Rightarrow> True
      | Some e \<Rightarrow>
          if still_before now (ce_disabled_until e) then False
          else if still_before now (ce_cooldown_end e) then False
          else True)"

definition longer_wait :: "int \<Rightarrow> int option \<Rightarrow> int \<Rightarrow> int" where
  "longer_wait now t remaining =
     (case t of
        None \<Rightarrow> remaining
      | Some e \<Rightarrow> if now < e then (let d = e - now in if d > remaining then d else remaining) else remaining)"

definition cooldown_remaining :: "int \<Rightarrow> string \<Rightarrow> cooldown_tracker \<Rightarrow> int" where
  "cooldown_remaining now provider ct =
     (case mget (ct_entries ct) provider of
        None \<Rightarrow> 0
      | Some e \<Rightarrow> longer_wait now (ce_cooldown_end e) (longer_wait now (ce_disabled_until e) 0))"

definition error_count :: "string \<Rightarrow> cooldown_tracker \<Rightarrow> int" where
  "error_count provider ct =
     (case mget (ct_entries ct) provider of None \<Rightarrow> 0 | Some e \<Rightarrow> ce_error_count e)"

definition failure_count :: "string \<Rightarrow> failover_reason \<Rightarrow> cooldown_tracker \<Rightarrow> int" where
  "failure_count provider reason ct =
     (case mget (ct_entries ct) provider of None \<Rightarrow> 0 | Some e \<Rightarrow> count_of (ce_failure_counts e) reason)"

section \<open>The contract of a cooldown gate\<close>

datatype gate_event = GateFailed int string failover_reason | GateSucceeded string

fun gate_provider :: "gate_event \<Rightarrow> string" where
  "gate_provider (GateFailed now p r) = p"
| "gate_provider (GateSucceeded p) = p"

locale cooldown_gate =
  fixes avail :: "int \<Rightarrow> string \<Rightarrow> 's \<Rightarrow> bool"
    and failure :: "int \<Rightarrow> string \<Rightarrow> failover_reason \<Rightarrow> 's \<Rightarrow> 's"
    and success :: "string \<Rightarrow> 's \<Rightarrow> 's"
    and least :: int
  assumes failure_closes: "now \<le> t \<Longrightarrow> t < now + least \<Longrightarrow> \<not> avail t p (failure now p r s)"
    and success_opens: "avail t p (success p s)"
    and failure_other: "q \<noteq> p \<Longrightarrow> avail t q (failure now p r s) = avail t q s"
    and success_other: "q \<noteq> p \<Longrightarrow> avail t q (success p s) = avail t q s"
begin

fun gate_apply :: "gate_event \<Rightarrow> 's \<Rightarrow> 's" where
  "gate_apply (GateFailed now p r) s = failure now p r s"
| "gate_apply (GateSucceeded p) s = success p s"

lemma gate_other: "q \<noteq> gate_provider e \<Longrightarrow> avail t q (gate_apply e s) = avail t q s"
  by (cases e) (simp_all add: failure_other success_other)

lemma gate_frame: "q \<notin> gate_provider ` set es \<Longrightarrow> avail t q (fold gate_apply es s) = avail t q s"
  by (induction es arbitrary: s) (auto simp: gate_other)

lemma gate_last_failure:
  "p \<notin> gate_provider ` set es \<Longrightarrow> now \<le> t \<Longrightarrow> t < now + least \<Longrightarrow>
     \<not> avail t p (fold gate_apply (ds @ GateFailed now p r # es) s)"
  by (simp add: gate_frame failure_closes)

lemma gate_last_success:
  "p \<notin> gate_provider ` set es \<Longrightarrow> avail t p (fold gate_apply (ds @ GateSucceeded p # es) s)"
  by (simp add: gate_frame success_opens)

end

lemma mark_entry_closes:
  "now \<le> t \<Longrightarrow> t < now + minutes 1 \<Longrightarrow>
     still_before t (ce_disabled_until (mark_entry w now r e)) \<or> still_before t (ce_cooldown_end (mark_entry w now r e))"
proof -
  assume t: "now \<le> t" "t < now + minutes 1"
  have "minutes 1 \<le> calculate_standard_cooldown n" "minutes 1 \<le> calculate_billing_cooldown n" for n
    using standard_cooldown_bounds billing_cooldown_bounds [of n] by (auto simp: duration_defs)
  then have "t < now + calculate_standard_cooldown n" "t < now + calculate_billing_cooldown n" for n
    using t(2) by (meson add_left_mono less_le_trans)+
  then show ?thesis by (auto simp: mark_entry_def Let_def still_before_def split: option.split)
qed

interpretation tracker_gate: cooldown_gate is_available mark_failure mark_success "minutes 1"
proof
  show "\<not> is_available t p (mark_failure now p r s)" if "now \<le> t" "t < now + minutes 1" for now t p r s
    using mark_entry_closes [OF that, of "ct_failure_window s" r "get_or_create_entry s p"]
    by (auto simp: is_available_def mark_failure_def)
qed (auto simp: is_available_def mark_success_def mark_failure_def still_before_def split: option.split)


lemma available_iff_no_wait: "is_available now p ct \<longleftrightarrow> cooldown_remaining now p ct = 0"
  by (auto simp: is_available_def cooldown_remaining_def longer_wait_def still_before_def Let_def
      split: option.splits)

section \<open>Invariant of the entries\<close>

definition entry_inv :: "int \<Rightarrow> cooldown_entry \<Rightarrow> bool" where
  "entry_inv T e \<longleftrightarrow>
     (case ce_last_failure e of
        None \<Rightarrow> ce_cooldown_end e = None \<and> ce_disabled_until e = None
      | Some l \<Rightarrow> l \<le> T
          \<and> (\<forall>x. ce_cooldown_end e = Some x \<longrightarrow> x \<le> l + calculate_standard_cooldown (ce_error_count e))
          \<and> (\<forall>x. ce_disabled_until e = Some x \<longrightarrow>
               x \<le> l + calculate_billing_cooldown (count_of (ce_failure_counts e) FailoverBilling)))"

definition tracker_inv :: "int \<Rightarrow> cooldown_tracker \<Rightarrow> bool" where
  "tracker_inv T ct \<longleftrightarrow> ct_failure_window ct = hours 24 \<and>
     (\<forall>p e. mget (ct_entries ct) p = Some e \<longrightarrow> entry_inv T e)"

lemma entry_inv_mono: "entry_inv T e \<Longrightarrow> T \<le> U \<Longrightarrow> entry_inv U e"
  by (auto simp: entry_inv_def split: option.splits)

lemma entry_inv_empty [simp]: "entry_inv T empty_entry"
  by (simp add: entry_inv_def empty_entry_def)

text \<open>When the counters are reset, both ends have passed.\<close>

lemma entry_inv_expired:
  assumes "entry_inv T e" and "ce_last_failure e = Some l" and "now - l > hours 24"
  shows "ce_cooldown_end e = Some x \<Longrightarrow> x < now" and "ce_disabled_until e = Some x \<Longrightarrow> x < now"
  using assms standard_cooldown_bounds [of "ce_error_count e"]
    billing_cooldown_bounds [of "count_of (ce_failure_counts e) FailoverBilling"]
  by (auto simp: entry_inv_def duration_defs)

lemma count_of_mput [simp]: "count_of (mput r n m) r' = (if r' = r then n else count_of m r')"
  by (simp add: count_of_def)

lemma cooldowns_positive: "0 \<le> calculate_standard_cooldown n" "0 \<le> calculate_billing_cooldown n"
  using standard_cooldown_bounds [of n] billing_cooldown_bounds [of n] by (auto simp: duration_defs)

lemma mark_entry_ends:
  assumes inv: "entry_inv T e" and now: "T \<le> now"
  shows "ce_cooldown_end e = Some x \<Longrightarrow> now \<le> t \<Longrightarrow> t < x \<Longrightarrow>
      still_before t (ce_cooldown_end (mark_entry (hours 24) now r e))"
    and "ce_disabled_until e = Some x \<Longrightarrow> now \<le> t \<Longrightarrow> t < x \<Longrightarrow>
      still_before t (ce_disabled_until (mark_entry (hours 24) now r e))"
proof -
  have grow: "l \<le> now \<Longrightarrow> y \<le> l + f n \<Longrightarrow> f n \<le> f (n + 1) \<Longrightarrow> t < y \<Longrightarrow> t < now + f (n + 1)"
    for l y n t :: int and f by linarith
  show "still_before t (ce_cooldown_end (mark_entry (hours 24) now r e))"
    if x: "ce_cooldown_end e = Some x" and t: "now \<le> t" "t < x"
  proof (cases "ce_last_failure e")
    case (Some l)
    with inv x now have "l \<le> now" "x \<le> l + calculate_standard_cooldown (ce_error_count e)"
      by (auto simp: entry_inv_def)
    moreover have "\<not> now - l > hours 24" using entry_inv_expired(1) [OF inv Some _ x, of now] t by auto
    ultimately show ?thesis
      using Some x t grow [of l x calculate_standard_cooldown "ce_error_count e" t]
        standard_cooldown_mono [of "ce_error_count e" "ce_error_count e + 1"]
      by (simp add: mark_entry_def Let_def still_before_def)
  qed (use inv x in \<open>simp add: entry_inv_def\<close>)
  show "still_before t (ce_disabled_until (mark_entry (hours 24) now r e))"
    if x: "ce_disabled_until e = Some x" and t: "now \<le> t" "t < x"
  proof (cases "ce_last_failure e")
    case (Some l)
    let ?n = "count_of (ce_failure_counts e) FailoverBilling"
    from Some inv x now have "l \<le> now" "x \<le> l + calculate_billing_cooldown ?n"
      by (auto simp: entry_inv_def)
    moreover have "\<not> now - l > hours 24" using entry_inv_expired(2) [OF inv Some _ x, of now] t by auto
    ultimately show ?thesis
      using Some x t grow [of l x calculate_billing_cooldown ?n t]
        billing_cooldown_mono [of ?n "?n + 1"]
      by (simp add: mark_entry_def Let_def still_before_def)
  qed (use inv x in \<open>simp add: entry_inv_def\<close>)
qed

lemma mark_entry_inv:
  assumes inv: "entry_inv T e" and now: "T \<le> now"
  shows "entry_inv now (mark_entry (hours 24) now r e)"
proof (cases "ce_last_failure e")
  case None
  with inv show ?thesis by (auto simp: entry_inv_def mark_entry_def Let_def)
next
  case (Some l)
  show ?thesis
  proof (cases "now - l > hours 24")
    case True
    have "x \<le> now + calculate_standard_cooldown n" if "ce_cooldown_end e = Some x" for x n
      using entry_inv_expired(1) [OF inv Some True that] cooldowns_positive(1) [of n] by linarith
    moreover have "x \<le> now + calculate_billing_cooldown n" if "ce_disabled_until e = Some x" for x n
      using entry_inv_expired(2) [OF inv Some True that] cooldowns_positive(2) [of n] by linarith
    ultimately show ?thesis using Some True by (auto simp: entry_inv_def mark_entry_def Let_def)
  next
    case False
    let ?n = "ce_error_count e" and ?b = "count_of (ce_failure_counts e) FailoverBilling"
    from Some inv now have l: "l \<le> now"
      and s: "\<And>x. ce_cooldown_end e = Some x \<Longrightarrow> x \<le> l + calculate_standard_cooldown ?n"
      and b: "\<And>x. ce_disabled_until e = Some x \<Longrightarrow> x \<le> l + calculate_billing_cooldown ?b"
      by (auto simp: entry_inv_def)
    have "x \<le> now + calculate_standard_cooldown (?n + 1)" if "ce_cooldown_end e = Some x" for x
      using s [OF that] l standard_cooldown_mono [of ?n "?n + 1"] by linarith
    moreover have "x \<le> now + calculate_billing_cooldown ?b" if "ce_disabled_until e = Some x" for x
      using b [OF that] l by linarith
    ultimately show ?thesis using Some False by (auto simp: entry_inv_def mark_entry_def Let_def)
  qed
qed

lemma get_or_create_entry_inv: "tracker_inv T ct \<Longrightarrow> entry_inv T (get_or_create_entry ct p)"
  by (auto simp: tracker_inv_def get_or_create_entry_def split: option.split)

lemma mark_failure_inv: "tracker_inv T ct \<Longrightarrow> T \<le> now \<Longrightarrow> tracker_inv now (mark_failure now p r ct)"
  using mark_entry_inv [OF get_or_create_entry_inv, of T ct now r p]
  by (auto simp: tracker_inv_def mark_failure_def intro: entry_inv_mono)

lemma mark_success_inv: "tracker_inv T ct \<Longrightarrow> tracker_inv T (mark_success p ct)"
  by (fastforce simp: tracker_inv_def mark_success_def entry_inv_def split: option.splits if_splits)

fun tracker_step :: "gate_event \<Rightarrow> cooldown_tracker \<Rightarrow> cooldown_tracker" where
  "tracker_step (GateFailed now p r) ct = mark_failure now p r ct"
| "tracker_step (GateSucceeded p) ct = mark_success p ct"

abbreviation tracker_run :: "gate_event list \<Rightarrow> cooldown_tracker \<Rightarrow> cooldown_tracker" where
  "tracker_run es \<equiv> fold tracker_step es"

lemma tracker_step_gate: "tracker_step = tracker_gate.gate_apply"
proof (intro ext)
  show "tracker_step e ct = tracker_gate.gate_apply e ct" for e ct by (cases e) simp_all
qed

lemma still_before_iff: "still_before now t \<longleftrightarrow> (\<exists>x. t = Some x \<and> now < x)"
  by (auto simp: still_before_def split: option.split)

text \<open>Histories of one tracker, with the clock never running backwards.\<close>

fun clock_ok :: "int \<Rightarrow> gate_event list \<Rightarrow> bool" where
  "clock_ok T [] = True"
| "clock_ok T (GateFailed now p r # es) = (T \<le> now \<and> clock_ok now es)"
| "clock_ok T (GateSucceeded p # es) = clock_ok T es"

fun last_clock :: "int \<Rightarrow> gate_event list \<Rightarrow> int" where
  "last_clock T [] = T"
| "last_clock T (GateFailed now p r # es) = last_clock now es"
| "last_clock T (GateSucceeded p # es) = last_clock T es"

lemma history_inv:
  "tracker_inv T ct \<Longrightarrow> clock_ok T es \<Longrightarrow> tracker_inv (last_clock T es) (tracker_run es ct)"
  by (induction T es arbitrary: ct rule: clock_ok.induct) (auto simp: mark_failure_inv mark_success_inv)

lemma tracker_inv_new [simp]: "tracker_inv T new_cooldown_tracker"
  by (simp add: tracker_inv_def new_cooldown_tracker_def)

section \<open>Properties\<close>

text \<open>
  A further failure never shortens a cooldown: in every history with a clock that does not run
  backwards, a provider that is unavailable at a moment stays unavailable at that moment after
  another failure of any reason, including the counter reset of the 24-hour window.
\<close>

theorem cooldown_never_shortened:
  assumes "clock_ok T es" and "last_clock T es \<le> now" and "now \<le> t"
    and "\<not> is_available t p (tracker_run es new_cooldown_tracker)"
  shows "\<not> is_available t p (mark_failure now q r (tracker_run es new_cooldown_tracker))"
proof (cases "q = p")
  case False
  then show ?thesis using assms(4) tracker_gate.failure_other [of p q t now r] by simp
next
  case True
  let ?ct = "tracker_run es new_cooldown_tracker"
  have inv: "tracker_inv (last_clock T es) ?ct" by (rule history_inv [OF tracker_inv_new assms(1)])
  from assms(4) obtain e where e: "mget (ct_entries ?ct) p = Some e"
    and shut: "still_before t (ce_disabled_until e) \<or> still_before t (ce_cooldown_end e)"
    by (auto simp: is_available_def split: option.splits if_splits)
  from inv e have "entry_inv (last_clock T es) e" by (simp add: tracker_inv_def)
  from mark_entry_ends [OF this assms(2) _ assms(3)] shut
  have "still_before t (ce_disabled_until (mark_entry (hours 24) now r e))
      \<or> still_before t (ce_cooldown_end (mark_entry (hours 24) now r e))"
    unfolding still_before_iff by blast
  then show ?thesis using e inv True
    by (auto simp: is_available_def mark_failure_def get_or_create_entry_def tracker_inv_def)
qed

theorem cooldown_never_shortened_witness:
  "\<not> is_available (ms 59000) ''p''
     (mark_failure (ms 1000) ''p'' FailoverTimeout
       (tracker_run [GateFailed 0 ''p'' FailoverTimeout] new_cooldown_tracker))"
  by (rule cooldown_never_shortened [where T = 0]) (code_simp, code_simp, code_simp, code_simp)

fun gaps_within :: "int \<Rightarrow> int list \<Rightarrow> bool" where
  "gaps_within g (s # t # ts) = (s \<le> t \<and> t - s \<le> g \<and> gaps_within g (t # ts))"
| "gaps_within g _ = True"

definition fails_at :: "string \<Rightarrow> failover_reason \<Rightarrow> int list \<Rightarrow> cooldown_tracker \<Rightarrow> cooldown_tracker" where
  "fails_at p r ts ct = fold (\<lambda>t. mark_failure t p r) ts ct"

lemma fails_at_entry:
  assumes "gaps_within (hours 24) (l # ts)" and "r \<noteq> FailoverBilling"
    and "mget (ct_entries ct) p = Some e" and "ct_failure_window ct = hours 24"
    and "ce_last_failure e = Some l" and "ce_error_count e = n" and "ce_disabled_until e = None"
    and "ce_cooldown_end e = Some (l + calculate_standard_cooldown n)"
  shows "\<exists>e'. mget (ct_entries (fails_at p r ts ct)) p = Some e' \<and> ce_error_count e' = n + int (length ts)
    \<and> ce_disabled_until e' = None
    \<and> ce_cooldown_end e' = Some (last (l # ts) + calculate_standard_cooldown (n + int (length ts)))"
  using assms
proof (induction ts arbitrary: l n e ct)
  case (Cons t ts)
  let ?e = "mark_entry (hours 24) t r e"
  let ?ct = "mark_failure t p r ct"
  have e: "mget (ct_entries ?ct) p = Some ?e" and w: "ct_failure_window ?ct = hours 24"
    using Cons.prems by (simp_all add: mark_failure_def get_or_create_entry_def)
  have f: "ce_last_failure ?e = Some t" "ce_error_count ?e = n + 1" "ce_disabled_until ?e = None"
    "ce_cooldown_end ?e = Some (t + calculate_standard_cooldown (n + 1))"
    using Cons.prems by (auto simp: mark_entry_def Let_def)
  have g: "gaps_within (hours 24) (t # ts)" using Cons.prems(1) by simp
  from Cons.IH [OF g Cons.prems(2) e w f] show ?case by (simp add: fails_at_def add.assoc)
qed (auto simp: fails_at_def)

text \<open>
  C26: The documented back-off: after \<open>k\<close> consecutive failures for reasons other than billing, each
  within 24 hours of the one before, the provider is locked for exactly 1 minute, 5 minutes,
  25 minutes, or 1 hour from the fourth failure on, counted from the last failure.
\<close>

theorem backoff_schedule:
  assumes "gaps_within (hours 24) (t # ts)" and "r \<noteq> FailoverBilling"
  shows "cooldown_remaining (last (t # ts)) p (fails_at p r (t # ts) new_cooldown_tracker) =
     (if length (t # ts) = 1 then minutes 1 else if length (t # ts) = 2 then minutes 5
      else if length (t # ts) = 3 then minutes 25 else hours 1)"
proof -
  let ?ct = "mark_failure t p r new_cooldown_tracker"
  let ?e = "mark_entry (hours 24) t r empty_entry"
  have "mget (ct_entries ?ct) p = Some ?e" "ct_failure_window ?ct = hours 24"
    by (simp_all add: mark_failure_def get_or_create_entry_def new_cooldown_tracker_def)
  moreover have "ce_last_failure ?e = Some t" "ce_error_count ?e = 1" "ce_disabled_until ?e = None"
    "ce_cooldown_end ?e = Some (t + calculate_standard_cooldown 1)"
    using assms(2) by (simp_all add: mark_entry_def Let_def empty_entry_def)
  ultimately obtain e' where e': "mget (ct_entries (fails_at p r ts ?ct)) p = Some e'"
    "ce_disabled_until e' = None"
    "ce_cooldown_end e' = Some (last (t # ts) + calculate_standard_cooldown (1 + int (length ts)))"
    using fails_at_entry [OF assms] by blast
  have pos: "0 < calculate_standard_cooldown n" for n
    using standard_cooldown_bounds [of n] by (simp add: duration_defs)
  have "cooldown_remaining (last (t # ts)) p (fails_at p r ts ?ct) =
      calculate_standard_cooldown (1 + int (length ts))"
    using e' pos by (simp add: cooldown_remaining_def longer_wait_def Let_def)
  moreover have "fails_at p r (t # ts) new_cooldown_tracker = fails_at p r ts ?ct"
    by (simp add: fails_at_def)
  ultimately show ?thesis by (simp add: standard_cooldown_table)
qed

theorem backoff_schedule_witness:
  "cooldown_remaining 9 ''p'' (fails_at ''p'' FailoverTimeout [1, 9] new_cooldown_tracker) = minutes 5"
  using backoff_schedule [of 1 "[9]" FailoverTimeout "''p''"] by (simp add: duration_defs)

end
