(* ===== verification/ErrorClassifier.thy ===== *)
theory ErrorClassifier
  imports GoRegexp Cooldown
begin

text \<open>
  Classification of provider errors (\<open>pkg/providers/error_classifier.go\<close>, \<open>FailoverError\<close> of
  \<open>types.go\<close>): which failures are retried with the next candidate, and with what cooldown. An
  error value is the context's cancellation, its deadline, or any other error with its message.
\<close>

section \<open>Errors\<close>

datatype go_error = CtxCanceled | CtxDeadlineExceeded | OtherError string

fun error_text :: "go_error \<Rightarrow> string" where
  "error_text CtxCanceled = ''context canceled''"
| "error_text CtxDeadlineExceeded = ''context deadline exceeded''"
| "error_text (OtherError msg) = msg"

record failover_error =
  fe_reason :: failover_reason
  fe_provider :: string
  fe_model :: string
  fe_status :: nat
  fe_wrapped :: go_error

definition failover_error_text :: "failover_error \<Rightarrow> string" where
  "failover_error_text e =
     ''failover('' @ reason_string (fe_reason e) @ ''): provider='' @ fe_provider e @ '' model='' @
     fe_model e @ '' status='' @ show_nat (fe_status e) @ '': '' @ error_text (fe_wrapped e)"

definition is_retriable :: "failover_error \<Rightarrow> bool" where
  "is_retriable e \<longleftrightarrow> fe_reason e \<noteq> FailoverFormat"

section \<open>Patterns\<close>

datatype error_pattern = Substr string | Rxp pattern

definition digits3 :: pattern where
  "digits3 = [Open, One Digit, One Digit, One Digit, Close]"

definition status_pattern :: pattern where
  "status_pattern = lits ''status'' @ Plus (OneOf (CHR '':'' # [CHR '' '', CHR 0x09, CHR 0x0A, CHR 0x0C, CHR 0x0D])) # digits3"

definition http_pattern :: pattern where
  "http_pattern = lits ''http'' @
     [Plus (OneOf (CHR ''/'' # [CHR '' '', CHR 0x09, CHR 0x0A, CHR 0x0C, CHR 0x0D])),
      Star Digit, Opt (Lit CHR ''.''), Star Digit, Plus White] @ digits3"

definition bare_pattern :: pattern where
  "bare_pattern = [WordB, Open, One (Range CHR ''3'' CHR ''5''), One Digit, One Digit, Close, WordB]"

definition http_status_patterns :: "pattern list" where
  "http_status_patterns = [status_pattern, http_pattern, bare_pattern]"

definition gap :: pattern where
  "gap = [Star AnyChar]"

definition bounded_code :: "string \<Rightarrow> pattern" where
  "bounded_code t = WordB # lits t @ [WordB]"

definition rate_limit_patterns :: "error_pattern list" where
  "rate_limit_patterns =
     [Rxp (lits ''rate'' @ One (OneOf ''_ '') # lits ''limit''),
      Substr ''too many requests'',
      Substr ''429'',
      Substr ''exceeded your current quota'',
      Rxp (lits ''exceeded'' @ gap @ lits ''quota''),
      Rxp (lits ''resource has been exhausted''),
      Rxp (lits ''resource'' @ gap @ lits ''exhausted''),
      Substr ''resource_exhausted'',
      Substr ''quota exceeded'',
      Substr ''usage limit'']"

definition overloaded_patterns :: "error_pattern list" where
  "overloaded_patterns =
     [Rxp (lits ''overloaded_error''),
      Rxp (lits (CHR 0x22 # ''type'' @ [CHR 0x22]) @ [Star White, One (Lit CHR '':''), Star White] @
           lits (CHR 0x22 # ''overloaded_error'' @ [CHR 0x22])),
      Substr ''overloaded'']"

definition timeout_patterns :: "error_pattern list" where
  "timeout_patterns =
     [Substr ''timeout'', Substr ''timed out'', Substr ''deadline exceeded'', Substr ''context deadline exceeded'']"

definition billing_patterns :: "error_pattern list" where
  "billing_patterns =
     [Rxp (bounded_code ''402''),
      Substr ''payment required'', Substr ''insufficient credits'', Substr ''credit balance'',
      Substr ''plans & billing'', Substr ''insufficient balance'']"

definition auth_patterns :: "error_pattern list" where
  "auth_patterns =
     [Rxp (lits ''invalid'' @ Opt (OneOf ''_ '') # lits ''api'' @ Opt (OneOf ''_ '') # lits ''key''),
      Substr ''incorrect api key'', Substr ''invalid token'', Substr ''authentication'',
      Substr ''re-authenticate'', Substr ''oauth token refresh failed'', Substr ''unauthorized'',
      Substr ''forbidden'', Substr ''access denied'', Substr ''expired'', Substr ''token has expired'',
      Rxp (bounded_code ''401''), Rxp (bounded_code ''403''),
      Substr ''no credentials found'', Substr ''no api key found'']"

definition format_patterns :: "error_pattern list" where
  "format_patterns =
     [Substr ''string should match pattern'', Substr ''tool_use.id'', Substr ''tool_use_id'',
      Substr ''messages.1.content.1.tool_use.id'', Substr ''invalid request format'']"

definition image_dimension_patterns :: "error_pattern list" where
  "image_dimension_patterns = [Rxp (lits ''image dimensions exceed max'')]"

definition image_size_patterns :: "error_pattern list" where
  "image_size_patterns = [Rxp (lits ''image exceeds'' @ gap @ lits ''mb'')]"

definition transient_status_codes :: "nat list" where
  "transient_status_codes = [500, 502, 503, 521, 522, 523, 524, 529]"

section \<open>Classification\<close>

fun pattern_matches :: "string \<Rightarrow> error_pattern \<Rightarrow> bool" where
  "pattern_matches msg (Rxp r) = match_string r msg"
| "pattern_matches msg (Substr t) = (t \<noteq> [] \<and> str_contains msg t)"

definition matches_any :: "string \<Rightarrow> error_pattern list \<Rightarrow> bool" where
  "matches_any msg ps = list_ex (pattern_matches msg) ps"

definition is_image_dimension_error :: "string \<Rightarrow> bool" where
  "is_image_dimension_error msg = matches_any msg image_dimension_patterns"

definition is_image_size_error :: "string \<Rightarrow> bool" where
  "is_image_size_error msg = matches_any msg image_size_patterns"

definition parse_digits :: "string \<Rightarrow> nat" where
  "parse_digits s =
     fold (\<lambda>c n. if CHR ''0'' \<le> c \<and> c \<le> CHR ''9'' then n * 10 + (of_char c - 48) else n) s 0"

fun first_status :: "pattern list \<Rightarrow> string \<Rightarrow> nat" where
  "first_status [] msg = 0"
| "first_status (p # ps) msg =
     (case find_submatch p msg of Some m \<Rightarrow> parse_digits m | None \<Rightarrow> first_status ps msg)"

definition extract_http_status :: "string \<Rightarrow> nat" where
  "extract_http_status msg = first_status http_status_patterns msg"

definition classify_by_status :: "nat \<Rightarrow> failover_reason option" where
  "classify_by_status status =
     (if status = 401 \<or> status = 403 then Some FailoverAuth
      else if status = 402 then Some FailoverBilling
      else if status = 408 then Some FailoverTimeout
      else if status = 429 then Some FailoverRateLimit
      else if status = 400 then Some FailoverFormat
      else if status \<in> set transient_status_codes then Some FailoverTimeout
      else None)"

definition classify_by_message :: "string \<Rightarrow> failover_reason option" where
  "classify_by_message msg =
     (if matches_any msg rate_limit_patterns then Some FailoverRateLimit
      else if matches_any msg overloaded_patterns then Some FailoverRateLimit
      else if matches_any msg billing_patterns then Some FailoverBilling
      else if matches_any msg timeout_patterns then Some FailoverTimeout
      else if matches_any msg auth_patterns then Some FailoverAuth
      else if matches_any msg format_patterns then Some FailoverFormat
      else None)"

definition by_message :: "go_error \<Rightarrow> string \<Rightarrow> string \<Rightarrow> string \<Rightarrow> failover_error option" where
  "by_message err provider model msg =
     map_option (\<lambda>reason. \<lparr>fe_reason = reason, fe_provider = provider, fe_model = model,
         fe_status = 0, fe_wrapped = err\<rparr>) (classify_by_message msg)"

definition classify_error :: "go_error option \<Rightarrow> string \<Rightarrow> string \<Rightarrow> failover_error option" where
  "classify_error e provider model =
     (case e of
        None \<Rightarrow> None
      | Some CtxCanceled \<Rightarrow> None
      | Some CtxDeadlineExceeded \<Rightarrow>
          Some \<lparr>fe_reason = FailoverTimeout, fe_provider = provider, fe_model = model, fe_status = 0,
            fe_wrapped = CtxDeadlineExceeded\<rparr>
      | Some err \<Rightarrow>
          (let msg = to_lower (error_text err) in
           if is_image_dimension_error msg \<or> is_image_size_error msg
           then Some \<lparr>fe_reason = FailoverFormat, fe_provider = provider, fe_model = model,
                  fe_status = 0, fe_wrapped = err\<rparr>
           else
             (let status = extract_http_status msg in
              case (if status > 0 then classify_by_status status else None) of
                Some reason \<Rightarrow>
                  Some \<lparr>fe_reason = reason, fe_provider = provider, fe_model = model,
                    fe_status = status, fe_wrapped = err\<rparr>
              | None \<Rightarrow> by_message err provider model msg)))"


section \<open>Status codes in messages\<close>

lemma digits3_match:
  "is_digit a \<Longrightarrow> is_digit b \<Longrightarrow> is_digit c \<Longrightarrow>
     match_here digits3 prev (a # b # c # v) [] False = Some [a, b, c]"
  by (simp add: digits3_def)

lemma digit_not_separator:
  "is_digit a \<Longrightarrow> \<not> class_matches (OneOf (CHR '':'' # [CHR '' '', CHR 0x09, CHR 0x0A, CHR 0x0C, CHR 0x0D])) a"
  by (auto simp: is_digit_def less_eq_char_def)

definition status_separators :: "string \<Rightarrow> bool" where
  "status_separators s \<longleftrightarrow> s \<noteq> [] \<and>
     list_all (\<lambda>c. c \<in> set (CHR '':'' # [CHR '' '', CHR 0x09, CHR 0x0A, CHR 0x0C, CHR 0x0D])) s"

lemma status_pattern_at:
  assumes sep: "status_separators sep" and d: "is_digit a" "is_digit b" "is_digit c"
  shows "match_here status_pattern prev (''status'' @ sep @ [a, b, c] @ v) [] False = Some [a, b, c]"
proof -
  let ?cls = "OneOf (CHR '':'' # [CHR '' '', CHR 0x09, CHR 0x0A, CHR 0x0C, CHR 0x0D])"
  have "match_here (Star ?cls # digits3) p ([a, b, c] @ v) [] False = Some [a, b, c]" for p
    using digit_not_separator [OF d(1)] digits3_match [OF d] by simp
  then have "match_here (Plus ?cls # digits3) p (sep @ [a, b, c] @ v) [] False = Some [a, b, c]" for p
    using sep by (intro match_plus_all) (auto simp: status_separators_def list_all_iff)
  then show ?thesis unfolding status_pattern_def match_lits_at by simp
qed

lemma extract_status_prefixed:
  assumes "status_separators sep" and "is_digit a" "is_digit b" "is_digit c"
    and fresh: "\<not> sublist ''status'' (u @ ''statu'')"
  shows "extract_http_status (u @ ''status'' @ sep @ [a, b, c] @ v) = parse_digits [a, b, c]"
proof -
  let ?w = "sep @ [a, b, c] @ v"
  have "search_from status_pattern None (u @ ''status'' @ ?w) =
      search_from status_pattern (if u = [] then None else Some (last u)) (''status'' @ ?w)"
    unfolding status_pattern_def using fresh by (intro search_skip_lits) simp_all
  also have "\<dots> = Some [a, b, c]"
    by (intro search_first status_pattern_at assms(1-4))
  finally show ?thesis
    by (simp add: extract_http_status_def http_status_patterns_def find_submatch_def)
qed

text \<open>The standalone number: no match can start at a byte that is not a digit.\<close>

lemma bare_pattern_skip:
  "\<not> is_digit x \<Longrightarrow> match_here bare_pattern prev (x # s) [] False = None"
  by (auto simp: bare_pattern_def is_digit_def less_eq_char_def)

lemma search_bare_skip:
  "list_all (\<lambda>c. \<not> is_digit c) u \<Longrightarrow>
     search_from bare_pattern prev (u @ w) = search_from bare_pattern (if u = [] then prev else Some (last u)) w"
proof (rule search_skip)
  fix k p assume u: "list_all (\<lambda>c. \<not> is_digit c) u" and k: "k < length u"
  have "\<not> is_digit (u ! k)" using u k by (auto simp: list_all_iff)
  then show "match_here bare_pattern p (drop k u @ w) [] False = None"
    using k by (simp add: Cons_nth_drop_Suc [OF k, symmetric] bare_pattern_skip)
qed

definition standalone :: "string \<Rightarrow> string \<Rightarrow> bool" where
  "standalone u v \<longleftrightarrow> (u = [] \<or> \<not> word_char (last u)) \<and> (v = [] \<or> \<not> word_char (hd v))"

lemma chars_of_400:
  "class_matches (Range CHR ''3'' CHR ''5'') CHR ''4''" "is_digit CHR ''0''" "word_char CHR ''0''" "word_char CHR ''4''"
  by code_simp+

lemma bare_pattern_at:
  assumes "case prev of None \<Rightarrow> True | Some c \<Rightarrow> \<not> word_char c" and "v = [] \<or> \<not> word_char (hd v)"
  shows "match_here bare_pattern prev (''400'' @ v) [] False = Some ''400''"
proof -
  have "at_boundary prev (''400'' @ v)"
    using assms(1) by (cases prev) (simp_all add: at_boundary_def chars_of_400)
  moreover have "at_boundary (Some CHR ''0'') v"
    using assms(2) by (cases v) (simp_all add: at_boundary_def chars_of_400)
  ultimately show ?thesis
    using chars_of_400(1,2) by (simp add: bare_pattern_def del: class_matches.simps(3))
qed

lemma extract_bare:
  assumes "standalone u v" and "list_all (\<lambda>c. \<not> is_digit c) u"
    and "\<not> sublist ''status'' (u @ ''400'' @ v)" and "\<not> sublist ''http'' (u @ ''400'' @ v)"
  shows "extract_http_status (u @ ''400'' @ v) = 400"
proof -
  let ?s = "u @ ''400'' @ v"
  have "\<not> match_string status_pattern ?s"
    unfolding status_pattern_def using assms(3) match_string_needs by blast
  moreover have "\<not> match_string http_pattern ?s"
    unfolding http_pattern_def using assms(4) match_string_needs by blast
  ultimately have "find_submatch status_pattern ?s = None" "find_submatch http_pattern ?s = None"
    by (simp_all add: match_string_def)
  moreover have "find_submatch bare_pattern ?s = Some ''400''"
    unfolding find_submatch_def search_bare_skip [OF assms(2)]
    using assms(1) by (intro search_first bare_pattern_at) (auto simp: standalone_def)
  moreover have "parse_digits ''400'' = 400" by code_simp
  ultimately show ?thesis by (simp add: extract_http_status_def http_status_patterns_def)
qed

section \<open>Properties\<close>

lemma classify_other:
  "classify_error (Some (OtherError m)) provider model =
     (if is_image_dimension_error (to_lower m) \<or> is_image_size_error (to_lower m)
      then Some \<lparr>fe_reason = FailoverFormat, fe_provider = provider, fe_model = model,
             fe_status = 0, fe_wrapped = OtherError m\<rparr>
      else (case (if extract_http_status (to_lower m) > 0
                  then classify_by_status (extract_http_status (to_lower m)) else None) of
              Some reason \<Rightarrow> Some \<lparr>fe_reason = reason, fe_provider = provider, fe_model = model,
                  fe_status = extract_http_status (to_lower m), fe_wrapped = OtherError m\<rparr>
            | None \<Rightarrow> by_message (OtherError m) provider model (to_lower m)))"
  by (simp add: classify_error_def Let_def)

text \<open>
  An explicit status decides: when the first ``status'' of a message (in any case) is followed
  by separators and three digits that the status table knows, and the message is not about an
  image, the table alone gives the reason, whatever other patterns the message contains.
\<close>

theorem explicit_status_decides:
  assumes "to_lower m = u @ ''status'' @ sep @ [a, b, c] @ v"
    and "status_separators sep" and "is_digit a" "is_digit b" "is_digit c"
    and "\<not> sublist ''status'' (u @ ''statu'')"
    and "\<not> is_image_dimension_error (to_lower m)" and "\<not> is_image_size_error (to_lower m)"
    and "classify_by_status (parse_digits [a, b, c]) = Some reason"
  shows "classify_error (Some (OtherError m)) provider model =
    Some \<lparr>fe_reason = reason, fe_provider = provider, fe_model = model,
      fe_status = parse_digits [a, b, c], fe_wrapped = OtherError m\<rparr>"
proof -
  have e: "extract_http_status (to_lower m) = parse_digits [a, b, c]"
    using extract_status_prefixed [OF assms(2-6), of v] assms(1) by simp
  have "parse_digits [a, b, c] \<noteq> 0"
  proof
    assume "parse_digits [a, b, c] = 0"
    with assms(9) have "classify_by_status 0 = Some reason" by simp
    then show False by (simp add: classify_by_status_def transient_status_codes_def)
  qed
  then show ?thesis unfolding classify_other e using assms(7-9) by simp
qed

theorem explicit_status_decides_witness:
  "map_option fe_reason (classify_error
     (Some (OtherError ''Status: 401, rate limit exceeded (timeout)'')) ''openai'' ''gpt'') = Some FailoverAuth"
proof -
  have "classify_error (Some (OtherError ''Status: 401, rate limit exceeded (timeout)'')) ''openai'' ''gpt'' =
    Some \<lparr>fe_reason = FailoverAuth, fe_provider = ''openai'', fe_model = ''gpt'',
      fe_status = parse_digits ''401'', fe_wrapped = OtherError ''Status: 401, rate limit exceeded (timeout)''\<rparr>"
    by (rule explicit_status_decides [where u = "''''" and sep = "'': ''"
          and v = "'', rate limit exceeded (timeout)''"]) code_simp+
  then show ?thesis by simp
qed

text \<open>
  Any standalone 400 is taken for an HTTP status: when the first number of a message is a
  standalone 400, and the message mentions neither a status, nor http, nor an image, the error is
  classified as a format error, even when the message says it is a rate limit or a timeout, and is
  not retried with another candidate.
\<close>

theorem standalone_400_not_retried:
  assumes "to_lower m = u @ ''400'' @ v" and "standalone u v" and "list_all (\<lambda>c. \<not> is_digit c) u"
    and "\<not> sublist ''status'' (to_lower m)" and "\<not> sublist ''http'' (to_lower m)"
    and "\<not> sublist ''image'' (to_lower m)"
  shows "\<exists>e. classify_error (Some (OtherError m)) provider model = Some e
    \<and> fe_reason e = FailoverFormat \<and> \<not> is_retriable e"
proof -
  have e: "extract_http_status (to_lower m) = 400"
    using extract_bare [OF assms(2,3)] assms(4,5) unfolding assms(1) by simp
  have "sublist ''image'' (''image'' @ t)" for t :: string by (simp add: sublist_appendI)
  then have "\<not> match_string (lits (''image'' @ t) @ r) (to_lower m)" for t r
    using assms(6) match_string_needs [of "''image'' @ t" r] sublist_order.order_trans by blast
  from this [of "'' dimensions exceed max''" "[]"] this [of "'' exceeds''" "gap @ lits ''mb''"]
  have "\<not> is_image_dimension_error (to_lower m) \<and> \<not> is_image_size_error (to_lower m)"
    by (simp add: is_image_dimension_error_def is_image_size_error_def image_dimension_patterns_def
        image_size_patterns_def matches_any_def)
  then show ?thesis unfolding classify_other e by (simp add: classify_by_status_def is_retriable_def)
qed

theorem standalone_400_not_retried_witness:
  "\<exists>e. classify_error (Some (OtherError ''Rate limit reached: 400 requests per minute'')) ''p'' ''m'' = Some e
    \<and> fe_reason e = FailoverFormat \<and> \<not> is_retriable e"
  by (rule standalone_400_not_retried [where u = "''rate limit reached: ''" and v = "'' requests per minute''"])
    code_simp+

end
