(* ===== verification/Fallback.thy ===== *)
theory Fallback
  imports ModelRef ErrorClassifier
begin

text \<open>
  The fallback chain over LLM candidates (\<open>pkg/providers/fallback.go\<close>). What happens around one
  candidate is its environment: the clock when its cooldown is checked and when its run ends, what
  the run function answers, and whether the context is cancelled before and after the run. The
  loop is a function of the candidates and of the environment of each index; it answers the
  outcome, the cooldown tracker afterwards, and the runs it made (index, provider, model).
\<close>

section \<open>Environment, attempts and outcomes\<close>

record 'resp attempt_env =
  ae_cancelled_before :: bool
  ae_check_time :: int
  ae_run :: "string \<Rightarrow> string \<Rightarrow> go_error + 'resp"
  ae_cancelled_after :: bool
  ae_end_time :: int

datatype attempt_error = InCooldown string int | RunFailed go_error | Classified failover_error

record fallback_attempt =
  fa_provider :: string
  fa_model :: string
  fa_error :: attempt_error
  fa_reason :: "failover_reason option"
  fa_duration :: int
  fa_skipped :: bool

record 'resp fallback_result =
  fr_response :: 'resp
  fr_provider :: string
  fr_model :: string
  fr_attempts :: "fallback_attempt list"

datatype 'resp fallback_outcome =
    Succeeded "'resp fallback_result"
  | NoCandidates
  | Cancelled
  | Unclassified string string go_error
  | Aborted failover_error
  | Exhausted "fallback_attempt list"

text \<open>\<open>Duration.Round(time.Second)\<close> of a non-negative duration: half a second rounds up.\<close>

definition round_seconds :: "int \<Rightarrow> int" where
  "round_seconds d = (let s = ms 1000; r = d mod s in if r + r < s then d - r else d + (s - r))"

definition skipped_attempt :: "int \<Rightarrow> cooldown_tracker \<Rightarrow> fallback_candidate \<Rightarrow> fallback_attempt" where
  "skipped_attempt now ct c =
     \<lparr>fa_provider = fc_provider c, fa_model = fc_model c,
      fa_error = InCooldown (fc_provider c) (round_seconds (cooldown_remaining now (fc_provider c) ct)),
      fa_reason = Some FailoverRateLimit, fa_duration = 0, fa_skipped = True\<rparr>"

definition failed_attempt ::
    "'resp attempt_env \<Rightarrow> fallback_candidate \<Rightarrow> attempt_error \<Rightarrow> failover_reason option \<Rightarrow> fallback_attempt" where
  "failed_attempt env c err reason =
     \<lparr>fa_provider = fc_provider c, fa_model = fc_model c, fa_error = err, fa_reason = reason,
      fa_duration = ae_end_time env - ae_check_time env, fa_skipped = False\<rparr>"

type_synonym run_call = "nat \<times> string \<times> string"

section \<open>Text requests\<close>

fun execute_loop ::
    "(nat \<Rightarrow> 'resp attempt_env) \<Rightarrow> nat \<Rightarrow> fallback_candidate list \<Rightarrow> fallback_attempt list \<Rightarrow>
     cooldown_tracker \<Rightarrow> 'resp fallback_outcome \<times> cooldown_tracker \<times> run_call list" where
  "execute_loop env i [] attempts ct = (Exhausted attempts, ct, [])"
| "execute_loop env i (c # cs) attempts ct =
     (let e = env i; provider = fc_provider c; model = fc_model c in
      if ae_cancelled_before e then (Cancelled, ct, [])
      else if \<not> is_available (ae_check_time e) provider ct then
        execute_loop env (Suc i) cs (attempts @ [skipped_attempt (ae_check_time e) ct c]) ct
      else
        (case ae_run e provider model of
           Inr resp \<Rightarrow>
             (Succeeded \<lparr>fr_response = resp, fr_provider = provider, fr_model = model, fr_attempts = attempts\<rparr>,
              mark_success provider ct, [(i, provider, model)])
         | Inl err \<Rightarrow>
             if ae_cancelled_after e then (Cancelled, ct, [(i, provider, model)])
             else
               (case classify_error (Some err) provider model of
                  None \<Rightarrow> (Unclassified provider model err, ct, [(i, provider, model)])
                | Some fail \<Rightarrow>
                    if \<not> is_retriable fail then (Aborted fail, ct, [(i, provider, model)])
                    else
                      (let ct' = mark_failure (ae_end_time e) provider (fe_reason fail) ct;
                           attempts' = attempts @ [failed_attempt e c (Classified fail) (Some (fe_reason fail))]
                       in if cs = [] then (Exhausted attempts', ct', [(i, provider, model)])
                          else
                            (let (out, ct'', calls) = execute_loop env (Suc i) cs attempts' ct'
                             in (out, ct'', (i, provider, model) # calls))))))"

definition execute ::
    "(nat \<Rightarrow> 'resp attempt_env) \<Rightarrow> fallback_candidate list \<Rightarrow> cooldown_tracker \<Rightarrow>
     'resp fallback_outcome \<times> cooldown_tracker \<times> run_call list" where
  "execute env candidates ct =
     (if candidates = [] then (NoCandidates, ct, []) else execute_loop env 0 candidates [] ct)"

section \<open>Image requests\<close>

fun execute_image_loop ::
    "(nat \<Rightarrow> 'resp attempt_env) \<Rightarrow> nat \<Rightarrow> fallback_candidate list \<Rightarrow> fallback_attempt list \<Rightarrow>
     'resp fallback_outcome \<times> run_call list" where
  "execute_image_loop env i [] attempts = (Exhausted attempts, [])"
| "execute_image_loop env i (c # cs) attempts =
     (let e = env i; provider = fc_provider c; model = fc_model c in
      if ae_cancelled_before e then (Cancelled, [])
      else
        (case ae_run e provider model of
           Inr resp \<Rightarrow>
             (Succeeded \<lparr>fr_response = resp, fr_provider = provider, fr_model = model, fr_attempts = attempts\<rparr>,
              [(i, provider, model)])
         | Inl err \<Rightarrow>
             if ae_cancelled_after e then (Cancelled, [(i, provider, model)])
             else
               (let msg = to_lower (error_text err) in
                if is_image_dimension_error msg \<or> is_image_size_error msg then
                  (Aborted \<lparr>fe_reason = FailoverFormat, fe_provider = provider, fe_model = model,
                     fe_status = 0, fe_wrapped = err\<rparr>, [(i, provider, model)])
                else
                  (let attempts' = attempts @ [failed_attempt e c (RunFailed err) None] in
                   if cs = [] then (Exhausted attempts', [(i, provider, model)])
                   else
                     (let (out, calls) = execute_image_loop env (Suc i) cs attempts'
                      in (out, (i, provider, model) # calls))))))"

definition execute_image ::
    "(nat \<Rightarrow> 'resp attempt_env) \<Rightarrow> fallback_candidate list \<Rightarrow> 'resp fallback_outcome \<times> run_call list" where
  "execute_image env candidates =
     (if candidates = [] then (NoCandidates, []) else execute_image_loop env 0 candidates [])"

section \<open>The loop through the gate\<close>

text \<open>One turn of the loop: it ends the chain, or goes on with a tracker and at most one run.\<close>

lemma execute_loop_cases:
  obtains (cancelled) "execute_loop env i (c # cs) atts ct = (Cancelled, ct, [])"
  | (skipped) "\<not> is_available (ae_check_time (env i)) (fc_provider c) ct"
      "execute_loop env i (c # cs) atts ct =
         execute_loop env (Suc i) cs (atts @ [skipped_attempt (ae_check_time (env i)) ct c]) ct"
  | (succeeded) resp where "is_available (ae_check_time (env i)) (fc_provider c) ct"
      "ae_run (env i) (fc_provider c) (fc_model c) = Inr resp"
      "execute_loop env i (c # cs) atts ct =
         (Succeeded \<lparr>fr_response = resp, fr_provider = fc_provider c, fr_model = fc_model c, fr_attempts = atts\<rparr>,
          mark_success (fc_provider c) ct, [(i, fc_provider c, fc_model c)])"
  | (stopped) out where "is_available (ae_check_time (env i)) (fc_provider c) ct"
      "execute_loop env i (c # cs) atts ct = (out, ct, [(i, fc_provider c, fc_model c)])"
      "out = Cancelled \<or> (\<exists>err. out = Unclassified (fc_provider c) (fc_model c) err) \<or>
         (\<exists>fail. out = Aborted fail \<and> \<not> is_retriable fail)"
  | (failed) fail out ct'' calls where "is_available (ae_check_time (env i)) (fc_provider c) ct"
      "is_retriable fail"
      "execute_loop env (Suc i) cs (atts @ [failed_attempt (env i) c (Classified fail) (Some (fe_reason fail))])
         (mark_failure (ae_end_time (env i)) (fc_provider c) (fe_reason fail) ct) = (out, ct'', calls)"
      "execute_loop env i (c # cs) atts ct = (out, ct'', (i, fc_provider c, fc_model c) # calls)"
proof -
  let ?e = "env i" and ?p = "fc_provider c" and ?m = "fc_model c"
  show thesis
  proof (cases "ae_cancelled_before ?e")
    case True
    then show thesis by (intro cancelled) (simp add: Let_def)
  next
    case nc: False
    show thesis
    proof (cases "is_available (ae_check_time ?e) ?p ct")
      case False
      then show thesis using nc by (intro skipped) (simp_all add: Let_def)
    next
      case av: True
      show thesis
      proof (cases "ae_run ?e ?p ?m")
        case (Inr resp)
        then show thesis using nc av by (intro succeeded [of resp]) (simp_all add: Let_def)
      next
        case err: (Inl err)
        show thesis
        proof (cases "ae_cancelled_after ?e")
          case True
          then show thesis using nc av err by (intro stopped [of Cancelled]) (simp_all add: Let_def)
        next
          case na: False
          show thesis
          proof (cases "classify_error (Some err) ?p ?m")
            case None
            then show thesis using nc av err na by (intro stopped [of "Unclassified ?p ?m err"]) (simp_all add: Let_def)
          next
            case (Some fail)
            show thesis
            proof (cases "is_retriable fail")
              case False
              then show thesis using nc av err na Some by (intro stopped [of "Aborted fail"]) (simp_all add: Let_def)
            next
              case True
              let ?rest = "execute_loop env (Suc i) cs
                (atts @ [failed_attempt (env i) c (Classified fail) (Some (fe_reason fail))])
                (mark_failure (ae_end_time (env i)) ?p (fe_reason fail) ct)"
              show thesis using nc av err na Some True
                by (intro failed [of fail "fst ?rest" "fst (snd ?rest)" "snd (snd ?rest)"])
                  (auto simp: Let_def split_beta)
            qed
          qed
        qed
      qed
    qed
  qed
qed


declare execute_loop.simps(2) [simp del]

abbreviation call_providers :: "run_call list \<Rightarrow> string list" where
  "call_providers calls \<equiv> map (\<lambda>(i, p, m). p) calls"

lemma loop_unavailable:
  assumes "execute_loop env i cs atts ct = (out, ct', calls)"
    and "\<And>j. i \<le> j \<Longrightarrow> j < i + length cs \<Longrightarrow> \<not> is_available (ae_check_time (env j)) p ct"
  shows "p \<notin> set (call_providers calls)"
  using assms
proof (induction cs arbitrary: i atts ct out ct' calls)
  case (Cons c cs)
  have here: "\<not> is_available (ae_check_time (env i)) p ct" using Cons.prems(2) by simp
  show ?case
  proof (cases rule: execute_loop_cases [of env i c cs atts ct])
    case skipped
    have rest: "execute_loop env (Suc i) cs (atts @ [skipped_attempt (ae_check_time (env i)) ct c]) ct
        = (out, ct', calls)"
      using Cons.prems(1) unfolding skipped(2) .
    show ?thesis by (rule Cons.IH [OF rest]) (use Cons.prems(2) in simp)
  next
    case (failed fail out' ct'' calls')
    with here have p: "fc_provider c \<noteq> p" by auto
    let ?ct = "mark_failure (ae_end_time (env i)) (fc_provider c) (fe_reason fail) ct"
    have "\<not> is_available (ae_check_time (env j)) p ?ct" if "Suc i \<le> j" "j < Suc i + length cs" for j
      using Cons.prems(2) [of j] that p tracker_gate.failure_other [of p "fc_provider c"] by simp
    then have "p \<notin> set (call_providers calls')" using Cons.IH [OF failed(3)] by blast
    then show ?thesis using failed(4) Cons.prems(1) p by auto
  qed (use Cons.prems(1) here in auto)
qed simp

lemma loop_frame:
  assumes "execute_loop env i cs atts ct = (out, ct', calls)" and "p \<notin> set (call_providers calls)"
  shows "is_available t p ct' = is_available t p ct"
  using assms
proof (induction cs arbitrary: i atts ct out ct' calls)
  case (Cons c cs)
  show ?case
  proof (cases rule: execute_loop_cases [of env i c cs atts ct])
    case skipped
    have rest: "execute_loop env (Suc i) cs (atts @ [skipped_attempt (ae_check_time (env i)) ct c]) ct
        = (out, ct', calls)"
      using Cons.prems(1) unfolding skipped(2) .
    show ?thesis by (rule Cons.IH [OF rest Cons.prems(2)])
  next
    case (succeeded resp)
    then show ?thesis using Cons.prems by (auto simp: tracker_gate.success_other)
  next
    case (failed fail out' ct'' calls')
    then have "is_available t p ct'' = is_available t p
        (mark_failure (ae_end_time (env i)) (fc_provider c) (fe_reason fail) ct)"
      using Cons.IH [OF failed(3)] Cons.prems by auto
    then show ?thesis using failed Cons.prems by (auto simp: tracker_gate.failure_other)
  qed (use Cons.prems(1) in auto)
qed simp

text \<open>The clock of one execution, whose checks come within a minute of every earlier failure.\<close>

definition within_a_minute :: "(nat \<Rightarrow> 'resp attempt_env) \<Rightarrow> nat \<Rightarrow> bool" where
  "within_a_minute env n \<longleftrightarrow> (\<forall>j < n. \<forall>i < j.
     ae_end_time (env i) \<le> ae_check_time (env j) \<and> ae_check_time (env j) < ae_end_time (env i) + minutes 1)"

lemma loop_distinct:
  assumes "execute_loop env i cs atts ct = (out, ct', calls)" and "within_a_minute env (i + length cs)"
  shows "distinct (call_providers calls)"
  using assms
proof (induction cs arbitrary: i atts ct out ct' calls)
  case (Cons c cs)
  show ?case
  proof (cases rule: execute_loop_cases [of env i c cs atts ct])
    case skipped
    have rest: "execute_loop env (Suc i) cs (atts @ [skipped_attempt (ae_check_time (env i)) ct c]) ct
        = (out, ct', calls)"
      using Cons.prems(1) unfolding skipped(2) .
    show ?thesis by (rule Cons.IH [OF rest]) (use Cons.prems(2) in simp)
  next
    case (failed fail out' ct'' calls')
    let ?ct = "mark_failure (ae_end_time (env i)) (fc_provider c) (fe_reason fail) ct"
    have "\<not> is_available (ae_check_time (env j)) (fc_provider c) ?ct"
      if "Suc i \<le> j" "j < Suc i + length cs" for j
      using Cons.prems(2) that by (intro tracker_gate.failure_closes) (auto simp: within_a_minute_def)
    then have "fc_provider c \<notin> set (call_providers calls')"
      using loop_unavailable [OF failed(3)] by blast
    then show ?thesis using failed(4) Cons.prems Cons.IH [OF failed(3)] by auto
  qed (use Cons.prems(1) in auto)
qed simp

abbreviation attempt_of :: "fallback_attempt \<Rightarrow> string \<times> string" where
  "attempt_of a \<equiv> (fa_provider a, fa_model a)"

abbreviation candidate_of :: "fallback_candidate \<Rightarrow> string \<times> string" where
  "candidate_of c \<equiv> (fc_provider c, fc_model c)"

definition justified :: "fallback_attempt \<Rightarrow> bool" where
  "justified a \<longleftrightarrow> fa_skipped a \<or> (\<exists>fail. fa_error a = Classified fail \<and> is_retriable fail)"

definition outcome_ok ::
    "(nat \<Rightarrow> 'resp attempt_env) \<Rightarrow> nat \<Rightarrow> fallback_candidate list \<Rightarrow> fallback_attempt list \<Rightarrow>
     'resp fallback_outcome \<Rightarrow> cooldown_tracker \<Rightarrow> bool" where
  "outcome_ok env i cs atts out ct' \<longleftrightarrow>
     (case out of
        Succeeded r \<Rightarrow> (\<exists>k < length cs. candidate_of (cs ! k) = (fr_provider r, fr_model r)
          \<and> ae_run (env (i + k)) (fr_provider r) (fr_model r) = Inr (fr_response r)
          \<and> map attempt_of (fr_attempts r) = map attempt_of atts @ map candidate_of (take k cs)
          \<and> (\<forall>t. is_available t (fr_provider r) ct'))
      | Exhausted as \<Rightarrow> map attempt_of as = map attempt_of atts @ map candidate_of cs
          \<and> (list_all justified atts \<longrightarrow> list_all justified as)
      | Aborted fail \<Rightarrow> \<not> is_retriable fail
      | _ \<Rightarrow> True)"

lemma outcome_ok_step:
  assumes "outcome_ok env (Suc i) cs (atts @ [a]) out ct'" and "attempt_of a = candidate_of c" and "justified a"
  shows "outcome_ok env i (c # cs) atts out ct'"
proof (cases out)
  case (Succeeded r)
  with assms obtain k where "k < length cs" "candidate_of (cs ! k) = (fr_provider r, fr_model r)"
    "ae_run (env (Suc i + k)) (fr_provider r) (fr_model r) = Inr (fr_response r)"
    "map attempt_of (fr_attempts r) = map attempt_of (atts @ [a]) @ map candidate_of (take k cs)"
    "\<forall>t. is_available t (fr_provider r) ct'"
    by (auto simp: outcome_ok_def)
  with Succeeded assms(2) show ?thesis
    by (auto simp: outcome_ok_def intro!: exI [where x = "Suc k"])
qed (use assms in \<open>auto simp: outcome_ok_def\<close>)

lemma loop_outcome:
  "execute_loop env i cs atts ct = (out, ct', calls) \<Longrightarrow> outcome_ok env i cs atts out ct'"
proof (induction cs arbitrary: i atts ct out ct' calls)
  case Nil
  then show ?case by (auto simp: outcome_ok_def)
next
  case (Cons c cs)
  show ?case
  proof (cases rule: execute_loop_cases [of env i c cs atts ct])
    case skipped
    let ?a = "skipped_attempt (ae_check_time (env i)) ct c"
    have "outcome_ok env (Suc i) cs (atts @ [?a]) out ct'"
      using Cons.prems unfolding skipped(2) by (rule Cons.IH)
    then show ?thesis by (rule outcome_ok_step) (simp_all add: skipped_attempt_def justified_def)
  next
    case (succeeded resp)
    then show ?thesis using Cons.prems
      by (auto simp: outcome_ok_def tracker_gate.success_opens intro!: exI [where x = 0])
  next
    case (stopped out')
    then show ?thesis using Cons.prems by (auto simp: outcome_ok_def)
  next
    case (failed fail out' ct'' calls')
    let ?a = "failed_attempt (env i) c (Classified fail) (Some (fe_reason fail))"
    have "outcome_ok env (Suc i) cs (atts @ [?a]) out ct'" using failed Cons by simp
    then show ?thesis
      by (rule outcome_ok_step) (use failed(2) in \<open>auto simp: failed_attempt_def justified_def\<close>)
  next
    case cancelled
    then show ?thesis using Cons.prems by (auto simp: outcome_ok_def)
  qed
qed

lemma execute_loop_of:
  "execute env cs ct = (out, ct', calls) \<Longrightarrow> cs \<noteq> [] \<Longrightarrow> execute_loop env 0 cs [] ct = (out, ct', calls)"
  by (simp add: execute_def)

section \<open>Properties\<close>

text \<open>
  C17: Execute never runs a provider that is in cooldown whenever it checks: a provider that is
  unavailable at every check time is not called, and the availability of every provider that is
  not called is the same afterwards at every moment.
\<close>

theorem execute_respects_cooldown:
  assumes "execute env cs ct = (out, ct', calls)"
  shows "((\<forall>i < length cs. \<not> is_available (ae_check_time (env i)) p ct) \<longrightarrow> p \<notin> set (call_providers calls))
    \<and> (q \<notin> set (call_providers calls) \<longrightarrow> is_available t q ct' = is_available t q ct)"
proof (cases "cs = []")
  case True
  then show ?thesis using assms by (auto simp: execute_def)
next
  case False
  note loop = execute_loop_of [OF assms False]
  have "p \<notin> set (call_providers calls)" if "\<forall>i < length cs. \<not> is_available (ae_check_time (env i)) p ct"
    using loop_unavailable [OF loop, of p] that by simp
  with loop_frame [OF loop] show ?thesis by blast
qed

text \<open>
  Within one execution a provider is run at most once, as long as every check happens less
  than a minute after the earlier failures: after a retriable failure the other models of that
  provider are skipped.
\<close>

theorem provider_run_once:
  assumes "execute env cs ct = (out, ct', calls)" and "within_a_minute env (length cs)"
  shows "distinct (call_providers calls)"
proof (cases "cs = []")
  case True
  then show ?thesis using assms by (auto simp: execute_def)
next
  case False
  from loop_distinct [OF execute_loop_of [OF assms(1) False]] assms(2) show ?thesis by simp
qed

text \<open>
  C23: The outcome of Execute is accounted for. A success is the answer of the run of the named
  candidate, every candidate before it is listed as an attempt, and the provider's cooldown is
  cleared; an exhausted chain lists every candidate once, in order, each skipped for its cooldown
  or failed with a retriable error; an abort is for an error that is not retriable.
\<close>

theorem execute_outcome:
  assumes "execute env cs ct = (out, ct', calls)"
  shows "case out of
      Succeeded r \<Rightarrow> (\<exists>k < length cs. candidate_of (cs ! k) = (fr_provider r, fr_model r)
        \<and> ae_run (env k) (fr_provider r) (fr_model r) = Inr (fr_response r)
        \<and> map attempt_of (fr_attempts r) = map candidate_of (take k cs)
        \<and> (\<forall>t. is_available t (fr_provider r) ct'))
    | Exhausted as \<Rightarrow> map attempt_of as = map candidate_of cs \<and> list_all justified as
    | Aborted fail \<Rightarrow> \<not> is_retriable fail
    | NoCandidates \<Rightarrow> cs = []
    | _ \<Rightarrow> True"
proof (cases "cs = []")
  case True
  then show ?thesis using assms by (auto simp: execute_def)
next
  case False
  have "out \<noteq> NoCandidates"
  proof -
    have "execute_loop env i cs0 atts ct0 = (out0, ct1, calls0) \<Longrightarrow> out0 \<noteq> NoCandidates"
      for i cs0 atts ct0 out0 ct1 calls0
    proof (induction cs0 arbitrary: i atts ct0 out0 ct1 calls0)
      case (Cons c cs0)
      then show ?case by (cases rule: execute_loop_cases [of env i c cs0 atts ct0]) auto
    qed auto
    then show ?thesis using execute_loop_of [OF assms False] by blast
  qed
  with loop_outcome [OF execute_loop_of [OF assms False]] show ?thesis
    by (auto simp: outcome_ok_def split: fallback_outcome.splits)
qed

definition sample_env :: "nat \<Rightarrow> nat attempt_env" where
  "sample_env i = \<lparr>ae_cancelled_before = False, ae_check_time = 2 * int i,
     ae_run = (\<lambda>p m. if p = ''openai'' then Inl (OtherError ''timeout'') else Inr 7),
     ae_cancelled_after = False, ae_end_time = 2 * int i + 1\<rparr>"

definition sample_candidates :: "fallback_candidate list" where
  "sample_candidates = [\<lparr>fc_provider = ''openai'', fc_model = ''a''\<rparr>,
     \<lparr>fc_provider = ''openai'', fc_model = ''b''\<rparr>, \<lparr>fc_provider = ''zhipu'', fc_model = ''c''\<rparr>]"

definition sample_calls :: "run_call list" where
  "sample_calls = [(0, ''openai'', ''a''), (2, ''zhipu'', ''c'')]"

definition sample_attempts :: "fallback_attempt list" where
  "sample_attempts =
     (let f = \<lparr>fe_reason = FailoverTimeout, fe_provider = ''openai'', fe_model = ''a'', fe_status = 0,
         fe_wrapped = OtherError ''timeout''\<rparr>;
          c = \<lparr>fc_provider = ''openai'', fc_model = ''b''\<rparr>;
          ct = mark_failure 1 ''openai'' FailoverTimeout new_cooldown_tracker
      in [failed_attempt (sample_env 0) (sample_candidates ! 0) (Classified f) (Some FailoverTimeout),
          skipped_attempt 2 ct c])"

lemma sample_execution:
  "execute sample_env sample_candidates new_cooldown_tracker =
     (fst (execute sample_env sample_candidates new_cooldown_tracker),
      fst (snd (execute sample_env sample_candidates new_cooldown_tracker)), sample_calls)"
proof -
  have "snd (snd (execute sample_env sample_candidates new_cooldown_tracker)) = sample_calls" by code_simp
  then show ?thesis by (metis prod.collapse)
qed

theorem execute_respects_cooldown_witness:
  "is_available 9 ''gemini'' (fst (snd (execute sample_env sample_candidates new_cooldown_tracker)))
   = is_available 9 ''gemini'' new_cooldown_tracker"
  by (rule execute_respects_cooldown [OF sample_execution, THEN conjunct2, THEN mp]) code_simp

theorem provider_run_once_witness: "distinct (call_providers sample_calls)"
proof (rule provider_run_once [OF sample_execution])
  show "within_a_minute sample_env (length sample_candidates)"
    by (auto simp: within_a_minute_def sample_candidates_def sample_env_def duration_defs)
qed

theorem execute_outcome_witness:
  "map attempt_of (fr_attempts \<lparr>fr_response = 7, fr_provider = ''zhipu'', fr_model = ''c'',
      fr_attempts = sample_attempts\<rparr>) = map candidate_of (take 2 sample_candidates)"
proof -
  have s: "fst (execute sample_env sample_candidates new_cooldown_tracker) =
      Succeeded \<lparr>fr_response = 7, fr_provider = ''zhipu'', fr_model = ''c'', fr_attempts = sample_attempts\<rparr>"
    by code_simp
  obtain k where k: "k < length sample_candidates" "candidate_of (sample_candidates ! k) = (''zhipu'', ''c'')"
    "map attempt_of sample_attempts = map candidate_of (take k sample_candidates)"
    using execute_outcome [OF sample_execution] unfolding s by auto
  then have "k = 2" by (auto simp: sample_candidates_def less_Suc_eq nth_Cons split: nat.splits)
  with k show ?thesis by simp
qed

end
