(* ===== verification/Cron.thy ===== *)
theory Cron
  imports Prelude
begin

text \<open>
  The scheduler of agent tasks (\<open>pkg/cron/service.go\<close>). Times are the milliseconds of the source;
  \<open>int64\<close> arithmetic wraps. The cron-expression library \<open>gronx\<close> is a parameter, the function from an
  expression and a time to the next tick. The store file is a disk that holds nothing, a store, or
  damaged text together with what the JSON decoder salvages from it; reads and writes can fail.

  The second half gives the service its threads: every \<open>Start\<close> spawns a loop, a loop collects the
  due jobs of a tick and then runs them one after the other, and everything else can happen in
  between.
\<close>

section \<open>Data\<close>

record cron_schedule =
  sc_kind :: string
  sc_at_ms :: "int option"
  sc_every_ms :: "int option"
  sc_expr :: string
  sc_tz :: string

record cron_payload =
  cp_kind :: string
  cp_message :: string
  cp_command :: string
  cp_deliver :: bool
  cp_channel :: string
  cp_to :: string

record cron_job_state =
  js_next_run :: "int option"
  js_last_run :: "int option"
  js_last_status :: string
  js_last_error :: string

record cron_job =
  cj_id :: string
  cj_name :: string
  cj_enabled :: bool
  cj_schedule :: cron_schedule
  cj_payload :: cron_payload
  cj_state :: cron_job_state
  cj_created :: int
  cj_updated :: int
  cj_delete_after_run :: bool

record cron_store =
  st_version :: nat
  st_jobs :: "cron_job list"

datatype disk = NoFile | Stored cron_store | Damaged cron_store

record cron_service =
  cs_store :: cron_store
  cs_disk :: disk
  cs_running :: bool

type_synonym next_tick = "string \<Rightarrow> int \<Rightarrow> int option"

definition empty_store :: cron_store where
  "empty_store = \<lparr>st_version = 1, st_jobs = []\<rparr>"

abbreviation jobs_of :: "cron_service \<Rightarrow> cron_job list" where
  "jobs_of cs \<equiv> st_jobs (cs_store cs)"

definition set_jobs :: "cron_job list \<Rightarrow> cron_service \<Rightarrow> cron_service" where
  "set_jobs js cs = cs\<lparr>cs_store := (cs_store cs)\<lparr>st_jobs := js\<rparr>\<rparr>"

definition set_next_run :: "int option \<Rightarrow> cron_job \<Rightarrow> cron_job" where
  "set_next_run t j = j\<lparr>cj_state := (cj_state j)\<lparr>js_next_run := t\<rparr>\<rparr>"

abbreviation next_run_of :: "cron_job \<Rightarrow> int option" where
  "next_run_of j \<equiv> js_next_run (cj_state j)"

section \<open>Persistence\<close>

text \<open>The new service and whether an error is returned.\<close>

definition load_store :: "bool \<Rightarrow> cron_service \<Rightarrow> cron_service \<times> bool" where
  "load_store read_fails cs =
     (if read_fails then (cs\<lparr>cs_store := empty_store\<rparr>, True)
      else (case cs_disk cs of
              NoFile \<Rightarrow> (cs\<lparr>cs_store := empty_store\<rparr>, False)
            | Stored s \<Rightarrow> (cs\<lparr>cs_store := s\<rparr>, False)
            | Damaged s \<Rightarrow> (cs\<lparr>cs_store := s\<rparr>, True)))"

definition save_store :: "bool \<Rightarrow> cron_service \<Rightarrow> cron_service" where
  "save_store save_ok cs = (if save_ok then cs\<lparr>cs_disk := Stored (cs_store cs)\<rparr> else cs)"

definition new_cron_service :: "bool \<Rightarrow> disk \<Rightarrow> cron_service" where
  "new_cron_service read_fails d =
     fst (load_store read_fails \<lparr>cs_store = empty_store, cs_disk = d, cs_running = False\<rparr>)"

section \<open>Next runs\<close>

definition compute_next_run :: "next_tick \<Rightarrow> cron_schedule \<Rightarrow> int \<Rightarrow> int option" where
  "compute_next_run tick sc now =
     (if sc_kind sc = ''at'' then
        (case sc_at_ms sc of Some t \<Rightarrow> if t > now then Some t else None | None \<Rightarrow> None)
      else if sc_kind sc = ''every'' then
        (case sc_every_ms sc of None \<Rightarrow> None | Some d \<Rightarrow> if d \<le> 0 then None else Some (wrap64 (now + d)))
      else if sc_kind sc = ''cron'' then
        (if sc_expr sc = [] then None else tick (sc_expr sc) now)
      else None)"

definition recompute_next_runs :: "next_tick \<Rightarrow> int \<Rightarrow> cron_service \<Rightarrow> cron_service" where
  "recompute_next_runs tick now cs =
     set_jobs (map (\<lambda>j. if cj_enabled j then set_next_run (compute_next_run tick (cj_schedule j) now) j else j)
       (jobs_of cs)) cs"

definition get_next_wake_ms :: "cron_service \<Rightarrow> int option" where
  "get_next_wake_ms cs =
     fold (\<lambda>j wake.
         (case (if cj_enabled j then next_run_of j else None) of
            None \<Rightarrow> wake
          | Some t \<Rightarrow> (case wake of None \<Rightarrow> Some t | Some w \<Rightarrow> if t < w then Some t else wake)))
       (jobs_of cs) None"

section \<open>Start, stop, tick\<close>

datatype start_result = AlreadyRunning | LoadFailed | SaveFailed | Started

definition start_service ::
    "next_tick \<Rightarrow> bool \<Rightarrow> bool \<Rightarrow> int \<Rightarrow> cron_service \<Rightarrow> cron_service \<times> start_result" where
  "start_service tick read_fails save_ok now cs =
     (if cs_running cs then (cs, AlreadyRunning)
      else
        (let (cs1, err) = load_store read_fails cs in
         if err then (cs1, LoadFailed)
         else
           (let cs2 = save_store save_ok (recompute_next_runs tick now cs1) in
            if \<not> save_ok then (cs2, SaveFailed) else (cs2\<lparr>cs_running := True\<rparr>, Started))))"

definition stop_service :: "cron_service \<Rightarrow> cron_service" where
  "stop_service cs = (if cs_running cs then cs\<lparr>cs_running := False\<rparr> else cs)"

definition is_due :: "int \<Rightarrow> cron_job \<Rightarrow> bool" where
  "is_due now j \<longleftrightarrow> cj_enabled j \<and> (case next_run_of j of None \<Rightarrow> False | Some t \<Rightarrow> t \<le> now)"

text \<open>The locked part of \<open>checkJobs\<close>: the identifiers of the jobs to execute.\<close>

definition check_jobs :: "bool \<Rightarrow> int \<Rightarrow> cron_service \<Rightarrow> cron_service \<times> string list" where
  "check_jobs save_ok now cs =
     (if \<not> cs_running cs then (cs, [])
      else
        (let due = map cj_id (filter (is_due now) (jobs_of cs)) in
         (save_store save_ok
            (set_jobs (map (\<lambda>j. if cj_id j \<in> set due then set_next_run None j else j) (jobs_of cs)) cs),
          due)))"

definition find_job :: "string \<Rightarrow> cron_service \<Rightarrow> cron_job option" where
  "find_job jid cs = find (\<lambda>j. cj_id j = jid) (jobs_of cs)"

fun update_first :: "('a \<Rightarrow> bool) \<Rightarrow> ('a \<Rightarrow> 'a) \<Rightarrow> 'a list \<Rightarrow> 'a list" where
  "update_first P f [] = []"
| "update_first P f (x # xs) = (if P x then f x # xs else x # update_first P f xs)"

definition remove_job_unsafe :: "bool \<Rightarrow> string \<Rightarrow> cron_service \<Rightarrow> cron_service \<times> bool" where
  "remove_job_unsafe save_ok jid cs =
     (let jobs = filter (\<lambda>j. cj_id j \<noteq> jid) (jobs_of cs);
          cs1 = set_jobs jobs cs;
          removed = length jobs < length (jobs_of cs)
      in (if removed then save_store save_ok cs1 else cs1, removed))"

text \<open>
  The locked end of \<open>executeJobByID\<close>, after the handler answered: \<open>err\<close> is its error, \<open>now\<close> and
  \<open>now'\<close> the two readings of the clock.
\<close>

definition finish_job ::
    "next_tick \<Rightarrow> bool \<Rightarrow> string \<Rightarrow> int \<Rightarrow> string option \<Rightarrow> int \<Rightarrow> int \<Rightarrow> cron_service \<Rightarrow> cron_service" where
  "finish_job tick save_ok jid start_time err now now' cs =
     (case find_job jid cs of
        None \<Rightarrow> cs
      | Some job \<Rightarrow>
          (let mark = (\<lambda>j. j\<lparr>cj_updated := now,
                 cj_state := (cj_state j)\<lparr>js_last_run := Some start_time,
                   js_last_status := (case err of None \<Rightarrow> ''ok'' | Some _ \<Rightarrow> ''error''),
                   js_last_error := (case err of None \<Rightarrow> '''' | Some e \<Rightarrow> e)\<rparr>\<rparr>);
               upd = (\<lambda>f. set_jobs (update_first (\<lambda>j. cj_id j = jid) f (jobs_of cs)) cs)
           in if sc_kind (cj_schedule job) = ''at'' then
                (if cj_delete_after_run job
                 then save_store save_ok (fst (remove_job_unsafe save_ok jid (upd mark)))
                 else save_store save_ok
                   (upd (\<lambda>j. set_next_run None ((mark j)\<lparr>cj_enabled := False\<rparr>))))
              else save_store save_ok
                (upd (\<lambda>j. set_next_run (compute_next_run tick (cj_schedule job) now') (mark j)))))"

section \<open>Job management\<close>

definition new_job ::
    "next_tick \<Rightarrow> string \<Rightarrow> int \<Rightarrow> string \<Rightarrow> cron_schedule \<Rightarrow> string \<Rightarrow> bool \<Rightarrow> string \<Rightarrow> string \<Rightarrow> cron_job" where
  "new_job tick jid now name schedule message deliver channel to =
     \<lparr>cj_id = jid, cj_name = name, cj_enabled = True, cj_schedule = schedule,
      cj_payload = \<lparr>cp_kind = ''agent_turn'', cp_message = message, cp_command = [], cp_deliver = deliver,
        cp_channel = channel, cp_to = to\<rparr>,
      cj_state = \<lparr>js_next_run = compute_next_run tick schedule now, js_last_run = None,
        js_last_status = [], js_last_error = []\<rparr>,
      cj_created = now, cj_updated = now, cj_delete_after_run = (sc_kind schedule = ''at'')\<rparr>"

text \<open>\<open>None\<close> is the error of a failed save.\<close>

definition add_job :: "bool \<Rightarrow> cron_job \<Rightarrow> cron_service \<Rightarrow> cron_service \<times> cron_job option" where
  "add_job save_ok job cs =
     (let cs1 = set_jobs (jobs_of cs @ [job]) cs in
      if save_ok then (save_store True cs1, Some job) else (cs1, None))"

datatype update_result = JobNotFound | UpdateSaveFailed | Updated

definition update_job :: "bool \<Rightarrow> int \<Rightarrow> cron_job \<Rightarrow> cron_service \<Rightarrow> cron_service \<times> update_result" where
  "update_job save_ok now job cs =
     (if find_job (cj_id job) cs = None then (cs, JobNotFound)
      else (save_store save_ok
              (set_jobs (update_first (\<lambda>j. cj_id j = cj_id job) (\<lambda>j. job\<lparr>cj_updated := now\<rparr>) (jobs_of cs)) cs),
            if save_ok then Updated else UpdateSaveFailed))"

definition remove_job :: "bool \<Rightarrow> string \<Rightarrow> cron_service \<Rightarrow> cron_service \<times> bool" where
  "remove_job save_ok jid cs = remove_job_unsafe save_ok jid cs"

definition enable_job ::
    "next_tick \<Rightarrow> bool \<Rightarrow> string \<Rightarrow> bool \<Rightarrow> int \<Rightarrow> int \<Rightarrow> cron_service \<Rightarrow> cron_service \<times> bool" where
  "enable_job tick save_ok jid enabled now now' cs =
     (if find_job jid cs = None then (cs, False)
      else (save_store save_ok
              (set_jobs (update_first (\<lambda>j. cj_id j = jid)
                 (\<lambda>j. set_next_run (if enabled then compute_next_run tick (cj_schedule j) now' else None)
                        (j\<lparr>cj_enabled := enabled, cj_updated := now\<rparr>))
                 (jobs_of cs)) cs),
            True))"

definition list_jobs :: "cron_service \<Rightarrow> bool \<Rightarrow> cron_job list" where
  "list_jobs cs include_disabled =
     (if include_disabled then jobs_of cs else filter cj_enabled (jobs_of cs))"

definition cron_status :: "cron_service \<Rightarrow> bool \<times> nat \<times> int option" where
  "cron_status cs = (cs_running cs, length (jobs_of cs), get_next_wake_ms cs)"

section \<open>Threads\<close>

record cron_loop =
  lp_queue :: "string list"
  lp_current :: "(string \<times> int) option"

text \<open>
  The clock, the loops, the log of handler calls (the copied job and the start time), the
  identifiers ever given out with their schedules, and the copies of jobs that \<open>AddJob\<close> returned: the caller
  may write a changed one back with \<open>UpdateJob\<close> at any later time.
\<close>

record cron_world =
  cw_svc :: cron_service
  cw_loops :: "cron_loop list"
  cw_log :: "(cron_job \<times> int) list"
  cw_clock :: int
  cw_ids :: "(string \<times> cron_schedule) list"
  cw_copies :: "cron_job list"

datatype cron_action =
    CStart bool bool
  | CStop
  | CTick nat bool
  | CBegin nat
  | CEnd nat "string option" bool
  | CAdd bool string cron_schedule string
  | CRemove bool string
  | CEnable bool string bool
  | CCrash bool
  | CAdvance nat
  | CUpdate bool nat string
  | CLoad bool

definition set_command :: "string \<Rightarrow> cron_job \<Rightarrow> cron_job" where
  "set_command c j = j\<lparr>cj_payload := (cj_payload j)\<lparr>cp_command := c\<rparr>\<rparr>"

definition set_loop :: "nat \<Rightarrow> cron_loop \<Rightarrow> cron_world \<Rightarrow> cron_world" where
  "set_loop i l w = w\<lparr>cw_loops := (cw_loops w)[i := l]\<rparr>"

definition idle_loop :: cron_loop where
  "idle_loop = \<lparr>lp_queue = [], lp_current = None\<rparr>"

fun cron_fire :: "next_tick \<Rightarrow> cron_action \<Rightarrow> cron_world \<Rightarrow> cron_world option" where
  "cron_fire tick (CStart read_fails save_ok) w =
     (let (cs, r) = start_service tick read_fails save_ok (cw_clock w) (cw_svc w) in
      Some (w\<lparr>cw_svc := cs, cw_loops := (if r = Started then cw_loops w @ [idle_loop] else cw_loops w)\<rparr>))"
| "cron_fire tick CStop w = Some (w\<lparr>cw_svc := stop_service (cw_svc w)\<rparr>)"
| "cron_fire tick (CTick i save_ok) w =
     (if i < length (cw_loops w) \<and> cw_loops w ! i = idle_loop then
        (let (cs, due) = check_jobs save_ok (cw_clock w) (cw_svc w) in
         Some (set_loop i \<lparr>lp_queue = due, lp_current = None\<rparr> (w\<lparr>cw_svc := cs\<rparr>)))
      else None)"
| "cron_fire tick (CBegin i) w =
     (if i < length (cw_loops w) \<and> lp_current (cw_loops w ! i) = None then
        (case lp_queue (cw_loops w ! i) of
           [] \<Rightarrow> None
         | jid # rest \<Rightarrow>
             (case find_job jid (cw_svc w) of
                None \<Rightarrow> Some (set_loop i \<lparr>lp_queue = rest, lp_current = None\<rparr> w)
              | Some job \<Rightarrow>
                  Some (set_loop i \<lparr>lp_queue = rest, lp_current = Some (jid, cw_clock w)\<rparr>
                    (w\<lparr>cw_log := cw_log w @ [(job, cw_clock w)]\<rparr>))))
      else None)"
| "cron_fire tick (CEnd i err save_ok) w =
     (if i < length (cw_loops w) then
        (case lp_current (cw_loops w ! i) of
           None \<Rightarrow> None
         | Some (jid, start_time) \<Rightarrow>
             Some (set_loop i ((cw_loops w ! i)\<lparr>lp_current := None\<rparr>)
               (w\<lparr>cw_svc := finish_job tick save_ok jid start_time err (cw_clock w) (cw_clock w) (cw_svc w)\<rparr>)))
      else None)"
| "cron_fire tick (CAdd save_ok jid schedule name) w =
     (if jid \<in> fst ` set (cw_ids w) then None
      else
        (let (cs, copy) = add_job save_ok (new_job tick jid (cw_clock w) name schedule [] False [] []) (cw_svc w) in
         Some (w\<lparr>cw_ids := (jid, schedule) # cw_ids w, cw_svc := cs,
           cw_copies := (case copy of None \<Rightarrow> cw_copies w | Some j \<Rightarrow> cw_copies w @ [j])\<rparr>)))"
| "cron_fire tick (CRemove save_ok jid) w = Some (w\<lparr>cw_svc := fst (remove_job save_ok jid (cw_svc w))\<rparr>)"
| "cron_fire tick (CEnable save_ok jid enabled) w =
     Some (w\<lparr>cw_svc := fst (enable_job tick save_ok jid enabled (cw_clock w) (cw_clock w) (cw_svc w))\<rparr>)"
| "cron_fire tick (CCrash read_fails) w =
     Some (w\<lparr>cw_svc := new_cron_service read_fails (cs_disk (cw_svc w)), cw_loops := [], cw_copies := []\<rparr>)"
| "cron_fire tick (CAdvance d) w = Some (w\<lparr>cw_clock := cw_clock w + int d\<rparr>)"
| "cron_fire tick (CUpdate save_ok k command) w =
     (if k < length (cw_copies w)
      then Some (w\<lparr>cw_svc := fst (update_job save_ok (cw_clock w) (set_command command (cw_copies w ! k)) (cw_svc w))\<rparr>)
      else None)"
| "cron_fire tick (CLoad read_fails) w = Some (w\<lparr>cw_svc := fst (load_store read_fails (cw_svc w))\<rparr>)"

text \<open>
  What may bring back a run that is over: a copy of a job that has changed in the store since, and
  a file that is not what the running service holds.
\<close>

fun out_of_date :: "cron_action \<Rightarrow> cron_world \<Rightarrow> bool" where
  "out_of_date (CUpdate save_ok k command) w =
     (k < length (cw_copies w)
      \<and> (case find_job (cj_id (cw_copies w ! k)) (cw_svc w) of
           None \<Rightarrow> False
         | Some j \<Rightarrow> cj_enabled j \<noteq> cj_enabled (cw_copies w ! k) \<or> cj_state j \<noteq> cj_state (cw_copies w ! k)))"
| "out_of_date (CLoad read_fails) w =
     (cs_running (cw_svc w) \<and> \<not> read_fails
      \<and> (case cs_disk (cw_svc w) of NoFile \<Rightarrow> False | Stored s \<Rightarrow> s \<noteq> cs_store (cw_svc w) | Damaged s \<Rightarrow> True))"
| "out_of_date a w = False"

definition new_cron_world :: "int \<Rightarrow> cron_world" where
  "new_cron_world now = \<lparr>cw_svc = new_cron_service False NoFile, cw_loops = [], cw_log = [],
     cw_clock = now, cw_ids = [], cw_copies = []\<rparr>"

text \<open>States reachable with any actions, and with any that are not out of date.\<close>

inductive cron_reach :: "bool \<Rightarrow> next_tick \<Rightarrow> cron_world \<Rightarrow> bool" for stale :: bool and tick :: next_tick where
  boot: "cron_reach stale tick (new_cron_world now)"
| act: "cron_reach stale tick w \<Longrightarrow> cron_fire tick a w = Some w' \<Longrightarrow> stale \<or> \<not> out_of_date a w \<Longrightarrow> cron_reach stale tick w'"

inductive_cases cron_reachE: "cron_reach stale tick w"


section \<open>Invariant of the scheduler\<close>

text \<open>How often a job was handed to the handler or is waiting to be.\<close>

definition handed_out :: "cron_world \<Rightarrow> string \<Rightarrow> nat" where
  "handed_out w jid = length (filter (\<lambda>e. cj_id (fst e) = jid) (cw_log w))
     + sum_list (map (\<lambda>l. count_list (lp_queue l) jid) (cw_loops w))"

definition jobs_ok :: "(string \<times> cron_schedule) list \<Rightarrow> cron_job list \<Rightarrow> bool" where
  "jobs_ok ids js \<longleftrightarrow> distinct (map cj_id js) \<and> (\<forall>j \<in> set js. mget ids (cj_id j) = Some (cj_schedule j))"

definition disk_ok :: "(string \<times> cron_schedule) list \<Rightarrow> disk \<Rightarrow> bool" where
  "disk_ok ids d = (case d of NoFile \<Rightarrow> True | Stored s \<Rightarrow> jobs_ok ids (st_jobs s) | Damaged s \<Rightarrow> False)"

text \<open>An armed one-shot job is armed for its own time and was never handed out.\<close>

definition armed_ok :: "(string \<Rightarrow> nat) \<Rightarrow> cron_job \<Rightarrow> bool" where
  "armed_ok out j \<longleftrightarrow> (\<forall>t. cj_enabled j \<and> sc_kind (cj_schedule j) = ''at'' \<and> next_run_of j = Some t \<longrightarrow>
     sc_at_ms (cj_schedule j) = Some t \<and> out (cj_id j) = 0)"

definition svc_ok :: "(string \<times> cron_schedule) list \<Rightarrow> (string \<Rightarrow> nat) \<Rightarrow> cron_service \<Rightarrow> bool" where
  "svc_ok ids out cs \<longleftrightarrow> jobs_ok ids (jobs_of cs) \<and> disk_ok ids (cs_disk cs)
     \<and> (cs_running cs \<longrightarrow> (\<forall>j \<in> set (jobs_of cs). armed_ok out j))"

definition once_ok :: "(string \<times> cron_schedule) list \<Rightarrow> (string \<Rightarrow> nat) \<Rightarrow> int \<Rightarrow> bool" where
  "once_ok ids out clock \<longleftrightarrow> (\<forall>jid sc. mget ids jid = Some sc \<and> sc_kind sc = ''at'' \<longrightarrow>
     out jid \<le> 1 \<and> (out jid \<noteq> 0 \<longrightarrow> (\<exists>a. sc_at_ms sc = Some a \<and> a \<le> clock)))"

definition trace_ok :: "cron_world \<Rightarrow> bool" where
  "trace_ok w \<longleftrightarrow> (\<forall>e \<in> set (cw_log w). mget (cw_ids w) (cj_id (fst e)) = Some (cj_schedule (fst e)))
     \<and> (\<forall>l \<in> set (cw_loops w). \<forall>jid \<in> set (lp_queue l). mget (cw_ids w) jid \<noteq> None)
     \<and> (\<forall>j \<in> set (cw_copies w). mget (cw_ids w) (cj_id j) = Some (cj_schedule j))"

definition cron_inv :: "cron_world \<Rightarrow> bool" where
  "cron_inv w \<longleftrightarrow> svc_ok (cw_ids w) (handed_out w) (cw_svc w)
     \<and> once_ok (cw_ids w) (handed_out w) (cw_clock w) \<and> trace_ok w"

lemma set_jobs_simps [simp]:
  "jobs_of (set_jobs js cs) = js" "cs_disk (set_jobs js cs) = cs_disk cs"
  "cs_running (set_jobs js cs) = cs_running cs"
  "cs_store (save_store b cs) = cs_store cs" "cs_running (save_store b cs) = cs_running cs"
  by (simp_all add: set_jobs_def save_store_def)

lemma set_next_run_simps [simp]:
  "cj_id (set_next_run t j) = cj_id j" "cj_schedule (set_next_run t j) = cj_schedule j"
  "cj_enabled (set_next_run t j) = cj_enabled j" "next_run_of (set_next_run t j) = t"
  by (simp_all add: set_next_run_def)

lemma svc_ok_save: "svc_ok ids out cs \<Longrightarrow> svc_ok ids out (save_store b cs)"
  by (simp add: svc_ok_def save_store_def disk_ok_def)

lemma svc_ok_set_jobs:
  "svc_ok ids out cs \<Longrightarrow> jobs_ok ids js \<Longrightarrow> (cs_running cs \<Longrightarrow> \<forall>j \<in> set js. armed_ok out j) \<Longrightarrow>
     svc_ok ids out (set_jobs js cs)"
  by (simp add: svc_ok_def)

lemma svc_ok_less:
  "svc_ok ids out cs \<Longrightarrow> (\<And>jid. out' jid \<le> out jid) \<Longrightarrow> svc_ok ids out' cs"
  by (auto simp: svc_ok_def armed_ok_def) (metis le_zero_eq)

lemma update_first_map:
  "(\<And>x. g (f x) = g x) \<Longrightarrow> map g (update_first P f xs) = map g xs"
  by (induction xs) auto

lemma update_first_cases:
  "y \<in> set (update_first P f xs) \<Longrightarrow> y \<in> set xs \<or> (\<exists>x \<in> set xs. P x \<and> y = f x)"
  by (induction xs) (auto split: if_splits)

lemma jobs_ok_update:
  assumes "jobs_ok ids js" and "\<And>x. cj_id (f x) = cj_id x" and "\<And>x. cj_schedule (f x) = cj_schedule x"
  shows "jobs_ok ids (update_first P f js)"
  using assms update_first_map [of cj_id f P js]
  by (auto simp: jobs_ok_def dest!: update_first_cases)

lemma jobs_ok_map:
  assumes "jobs_ok ids js" and "\<And>x. cj_id (f x) = cj_id x" and "\<And>x. cj_schedule (f x) = cj_schedule x"
  shows "jobs_ok ids (map f js)"
  using assms by (auto simp: jobs_ok_def comp_def)

lemma jobs_ok_filter: "jobs_ok ids js \<Longrightarrow> jobs_ok ids (filter P js)"
  by (auto simp: jobs_ok_def distinct_map_filter)

text \<open>Whatever computes a next run for a one-shot job finds one that was never handed out.\<close>

lemma rearm:
  "once_ok ids out clock \<Longrightarrow> mget ids (cj_id j) = Some (cj_schedule j) \<Longrightarrow>
     next_run_of j = compute_next_run tick (cj_schedule j) clock \<Longrightarrow> armed_ok out j"
  unfolding once_ok_def armed_ok_def compute_next_run_def by (fastforce split: option.splits if_splits)

lemma svc_ok_load:
  "disk_ok ids (cs_disk cs) \<Longrightarrow> jobs_ok ids (jobs_of (fst (load_store b cs)))
     \<and> cs_disk (fst (load_store b cs)) = cs_disk cs \<and> cs_running (fst (load_store b cs)) = cs_running cs"
  by (auto simp: load_store_def disk_ok_def empty_store_def jobs_ok_def split: disk.splits)

lemma svc_ok_start:
  assumes ok: "svc_ok ids out cs" and once: "once_ok ids out now"
  shows "svc_ok ids out (fst (start_service tick b save_ok now cs))"
proof (cases "cs_running cs")
  case True
  then show ?thesis using ok by (simp add: start_service_def)
next
  case False
  let ?cs1 = "fst (load_store b cs)"
  let ?js = "map (\<lambda>j. if cj_enabled j then set_next_run (compute_next_run tick (cj_schedule j) now) j else j)
      (jobs_of ?cs1)"
  have l: "jobs_ok ids (jobs_of ?cs1)" "cs_disk ?cs1 = cs_disk cs" "\<not> cs_running ?cs1"
    using svc_ok_load [of ids cs b] ok False by (auto simp: svc_ok_def)
  then have ok1: "svc_ok ids out ?cs1" using ok by (simp add: svc_ok_def)
  have js: "jobs_ok ids ?js" using l(1) by (rule jobs_ok_map) simp_all
  have armed: "\<forall>j \<in> set ?js. armed_ok out j"
  proof
    fix j assume "j \<in> set ?js"
    then obtain x where x: "x \<in> set (jobs_of ?cs1)"
      "j = (if cj_enabled x then set_next_run (compute_next_run tick (cj_schedule x) now) x else x)"
      by auto
    have "mget ids (cj_id x) = Some (cj_schedule x)" using l(1) x(1) by (simp add: jobs_ok_def)
    with x(2) show "armed_ok out j"
      by (cases "cj_enabled x") (auto intro: rearm [OF once] simp: armed_ok_def [of out x])
  qed
  have ok2: "svc_ok ids out (recompute_next_runs tick now ?cs1)"
    unfolding recompute_next_runs_def using ok1 js armed by (intro svc_ok_set_jobs) auto
  have ok3: "svc_ok ids out (save_store save_ok (recompute_next_runs tick now ?cs1))"
    by (rule svc_ok_save [OF ok2])
  have "svc_ok ids out ((save_store save_ok (recompute_next_runs tick now ?cs1))\<lparr>cs_running := True\<rparr>)"
    using ok3 armed by (simp add: svc_ok_def recompute_next_runs_def)
  with ok1 ok3 False show ?thesis
    by (cases save_ok) (simp_all add: start_service_def split_beta Let_def)
qed


lemma svc_ok_stop: "svc_ok ids out cs \<Longrightarrow> svc_ok ids out (stop_service cs)"
  by (simp add: stop_service_def svc_ok_def)

lemma svc_ok_remove: "svc_ok ids out cs \<Longrightarrow> svc_ok ids out (fst (remove_job_unsafe b jid cs))"
proof -
  assume ok: "svc_ok ids out cs"
  have "svc_ok ids out (set_jobs (filter (\<lambda>j. cj_id j \<noteq> jid) (jobs_of cs)) cs)"
    using ok by (intro svc_ok_set_jobs) (auto simp: svc_ok_def jobs_ok_filter)
  then show ?thesis by (simp add: remove_job_unsafe_def Let_def svc_ok_save)
qed

lemma find_job_props:
  "find_job jid cs = Some j \<Longrightarrow> j \<in> set (jobs_of cs) \<and> cj_id j = jid"
  unfolding find_job_def by (auto simp: find_Some_iff)

lemma same_id_same_schedule:
  "jobs_ok ids js \<Longrightarrow> j \<in> set js \<Longrightarrow> j' \<in> set js \<Longrightarrow> cj_id j = cj_id j' \<Longrightarrow> cj_schedule j = cj_schedule j'"
  unfolding jobs_ok_def by (metis option.inject)

text \<open>Updating one job: it must be fit afterwards, the others are as before.\<close>

lemma svc_ok_update:
  assumes ok: "svc_ok ids out cs" and f: "\<And>x. cj_id (f x) = cj_id x" "\<And>x. cj_schedule (f x) = cj_schedule x"
    and fit: "\<And>x. x \<in> set (jobs_of cs) \<Longrightarrow> cj_id x = jid \<Longrightarrow> armed_ok out x \<Longrightarrow> armed_ok out (f x)"
  shows "svc_ok ids out (set_jobs (update_first (\<lambda>j. cj_id j = jid) f (jobs_of cs)) cs)"
proof (rule svc_ok_set_jobs [OF ok])
  show "jobs_ok ids (update_first (\<lambda>j. cj_id j = jid) f (jobs_of cs))"
    using ok f by (intro jobs_ok_update) (auto simp: svc_ok_def)
  show "\<forall>j \<in> set (update_first (\<lambda>j. cj_id j = jid) f (jobs_of cs)). armed_ok out j" if "cs_running cs"
  proof
    fix y assume "y \<in> set (update_first (\<lambda>j. cj_id j = jid) f (jobs_of cs))"
    then consider "y \<in> set (jobs_of cs)" | x where "x \<in> set (jobs_of cs)" "cj_id x = jid" "y = f x"
      using update_first_cases by fastforce
    then show "armed_ok out y" using ok that fit by cases (auto simp: svc_ok_def)
  qed
qed

lemma svc_ok_finish:
  assumes ok: "svc_ok ids out cs"
  shows "svc_ok ids out (finish_job tick save_ok jid s err now now' cs)"
proof (cases "find_job jid cs")
  case None
  with ok show ?thesis by (simp add: finish_job_def)
next
  case (Some job)
  note job = find_job_props [OF Some]
  have sched: "x \<in> set (jobs_of cs) \<Longrightarrow> cj_id x = jid \<Longrightarrow> cj_schedule x = cj_schedule job" for x
    using ok job same_id_same_schedule [of ids "jobs_of cs" x job] by (simp add: svc_ok_def)
  let ?upd = "\<lambda>f. set_jobs (update_first (\<lambda>j. cj_id j = jid) f (jobs_of cs)) cs"
  let ?mark = "\<lambda>j. j\<lparr>cj_updated := now, cj_state := (cj_state j)\<lparr>js_last_run := Some s,
         js_last_status := (case err of None \<Rightarrow> ''ok'' | Some _ \<Rightarrow> ''error''),
         js_last_error := (case err of None \<Rightarrow> '''' | Some e \<Rightarrow> e)\<rparr>\<rparr>"
  have 1: "svc_ok ids out (?upd ?mark)" by (rule svc_ok_update [OF ok]) (auto simp: armed_ok_def)
  have 2: "svc_ok ids out (?upd (\<lambda>j. set_next_run None ((?mark j)\<lparr>cj_enabled := False\<rparr>)))"
    by (rule svc_ok_update [OF ok]) (auto simp: armed_ok_def)
  have 3: "svc_ok ids out (?upd (\<lambda>j. set_next_run (compute_next_run tick (cj_schedule job) now') (?mark j)))"
    if "sc_kind (cj_schedule job) \<noteq> ''at''"
    by (rule svc_ok_update [OF ok]) (auto simp: armed_ok_def sched that)
  show ?thesis
  proof (cases "sc_kind (cj_schedule job) = ''at''")
    case True
    then show ?thesis using Some svc_ok_save [OF svc_ok_remove [OF 1]] svc_ok_save [OF 2]
      by (auto simp: finish_job_def Let_def)
  next
    case False
    then show ?thesis using Some svc_ok_save [OF 3 [OF False]]
      by (simp add: finish_job_def Let_def)
  qed
qed

lemma svc_ok_enable:
  assumes ok: "svc_ok ids out cs" and once: "once_ok ids out now'"
  shows "svc_ok ids out (fst (enable_job tick save_ok jid b now now' cs))"
proof -
  let ?f = "\<lambda>j. set_next_run (if b then compute_next_run tick (cj_schedule j) now' else None)
      (j\<lparr>cj_enabled := b, cj_updated := now\<rparr>)"
  have "svc_ok ids out (set_jobs (update_first (\<lambda>j. cj_id j = jid) ?f (jobs_of cs)) cs)"
  proof (rule svc_ok_update [OF ok])
    fix x assume "x \<in> set (jobs_of cs)"
    then have "mget ids (cj_id x) = Some (cj_schedule x)" using ok by (simp add: svc_ok_def jobs_ok_def)
    then have "armed_ok out (?f x)" if b
      using that by (intro rearm [OF once, of _ tick]) simp_all
    moreover have "armed_ok out (?f x)" if "\<not> b" using that by (simp add: armed_ok_def)
    ultimately show "armed_ok out (?f x)" by blast
  qed simp_all
  then show ?thesis using ok by (simp add: enable_job_def svc_ok_save)
qed

lemma svc_ok_add:
  assumes ok: "svc_ok ids out cs" and fresh: "mget ids jid = None" and zero: "out jid = 0"
  shows "svc_ok ((jid, sc) # ids) out (fst (add_job save_ok (new_job tick jid now name sc m d c t) cs))"
proof -
  let ?j = "new_job tick jid now name sc m d c t"
  have j: "cj_id ?j = jid" "cj_schedule ?j = sc" "next_run_of ?j = compute_next_run tick sc now"
    by (simp_all add: new_job_def)
  have old: "jobs_ok ((jid, sc) # ids) js" if "jobs_ok ids js" for js
    using that fresh by (auto simp: jobs_ok_def)
  have new: "jid \<notin> cj_id ` set js" if "jobs_ok ids js" for js
    using that fresh by (auto simp: jobs_ok_def)
  have "disk_ok ((jid, sc) # ids) (cs_disk cs)"
    using ok old by (auto simp: svc_ok_def disk_ok_def split: disk.splits)
  then have "svc_ok ((jid, sc) # ids) out cs" using ok old by (simp add: svc_ok_def)
  moreover have "jobs_ok ((jid, sc) # ids) (jobs_of cs @ [?j])"
    using old [of "jobs_of cs"] new [of "jobs_of cs"] ok j by (auto simp: svc_ok_def jobs_ok_def)
  moreover have "armed_ok out ?j" using zero j
    by (auto simp: armed_ok_def compute_next_run_def split: option.splits if_splits)
  ultimately have "svc_ok ((jid, sc) # ids) out (set_jobs (jobs_of cs @ [?j]) cs)"
    using ok by (intro svc_ok_set_jobs) (auto simp: svc_ok_def)
  then show ?thesis by (simp add: add_job_def Let_def svc_ok_save)
qed

lemma once_ok_add: "once_ok ids out now \<Longrightarrow> out jid = 0 \<Longrightarrow> once_ok ((jid, sc) # ids) out now"
  by (auto simp: once_ok_def split: if_splits)

text \<open>A job that was never given out was never handed out.\<close>

lemma handed_out_known: "trace_ok w \<Longrightarrow> mget (cw_ids w) jid = None \<Longrightarrow> handed_out w jid = 0"
proof -
  assume t: "trace_ok w" and n: "mget (cw_ids w) jid = None"
  have "filter (\<lambda>e. cj_id (fst e) = jid) (cw_log w) = []"
    using t n by (auto simp: trace_ok_def filter_empty_conv)
  moreover have "\<forall>l \<in> set (cw_loops w). count_list (lp_queue l) jid = 0"
    using t n unfolding trace_ok_def count_list_0_iff by blast
  ultimately show ?thesis by (simp add: handed_out_def)
qed

lemma sum_list_update:
  "i < length xs \<Longrightarrow> sum_list (map f (xs[i := y])) + (f (xs ! i) :: nat) = sum_list (map f xs) + f y"
proof (induction xs arbitrary: i)
  case (Cons x xs)
  then show ?case by (cases i) (auto simp: ac_simps)
qed simp

lemma handed_out_set_loop:
  "i < length (cw_loops w) \<Longrightarrow>
     handed_out (set_loop i l w) jid + count_list (lp_queue (cw_loops w ! i)) jid
       = handed_out w jid + count_list (lp_queue l) jid"
  using sum_list_update [of i "cw_loops w" "\<lambda>l. count_list (lp_queue l) jid" l]
  by (simp add: handed_out_def set_loop_def)

lemma handed_out_frame [simp]:
  "handed_out (w\<lparr>cw_svc := cs\<rparr>) = handed_out w" "handed_out (w\<lparr>cw_clock := t\<rparr>) = handed_out w"
  "handed_out (w\<lparr>cw_ids := ids\<rparr>) = handed_out w" "handed_out (w\<lparr>cw_copies := js\<rparr>) = handed_out w"
  by (simp_all add: handed_out_def fun_eq_iff)

lemma set_loop_frame [simp]:
  "cw_svc (set_loop i l w) = cw_svc w" "cw_ids (set_loop i l w) = cw_ids w"
  "cw_clock (set_loop i l w) = cw_clock w" "cw_log (set_loop i l w) = cw_log w"
  "cw_copies (set_loop i l w) = cw_copies w"
  by (simp_all add: set_loop_def)

lemma trace_ok_set_loop:
  "trace_ok w \<Longrightarrow> (\<forall>jid \<in> set (lp_queue l). mget (cw_ids w) jid \<noteq> None) \<Longrightarrow> trace_ok (set_loop i l w)"
  by (auto simp: trace_ok_def set_loop_def dest!: set_update_subset_insert [THEN subsetD])

lemma once_ok_less: "once_ok ids out now \<Longrightarrow> (\<And>jid. out' jid \<le> out jid) \<Longrightarrow> once_ok ids out' now"
  unfolding once_ok_def by (metis le_trans le_zero_eq)


lemma inv_svc:
  "cron_inv w \<Longrightarrow> svc_ok (cw_ids w) (handed_out w) cs \<Longrightarrow> cron_inv (w\<lparr>cw_svc := cs\<rparr>)"
  by (auto simp: cron_inv_def trace_ok_def)

lemma inv_start:
  assumes inv: "cron_inv w" and f: "cron_fire tick (CStart b save_ok) w = Some w'"
  shows "cron_inv w'"
proof -
  let ?r = "start_service tick b save_ok (cw_clock w) (cw_svc w)"
  have "svc_ok (cw_ids w) (handed_out w) (fst ?r)"
    using inv by (intro svc_ok_start) (auto simp: cron_inv_def)
  then have 1: "cron_inv (w\<lparr>cw_svc := fst ?r\<rparr>)" by (rule inv_svc [OF inv])
  have "handed_out (w\<lparr>cw_svc := fst ?r, cw_loops := cw_loops w @ [idle_loop]\<rparr>) = handed_out w"
    by (simp add: handed_out_def idle_loop_def fun_eq_iff)
  then have "cron_inv (w\<lparr>cw_svc := fst ?r, cw_loops := cw_loops w @ [idle_loop]\<rparr>)"
    using 1 by (auto simp: cron_inv_def trace_ok_def idle_loop_def)
  with 1 f show ?thesis by (auto simp: Let_def split_beta split: if_splits)
qed

lemma count_list_distinct: "distinct xs \<Longrightarrow> count_list xs x = (if x \<in> set xs then 1 else 0)"
  by (induction xs) auto

lemma inv_tick:
  assumes inv: "cron_inv w" and i: "i < length (cw_loops w)" "cw_loops w ! i = idle_loop"
    and run: "cs_running (cw_svc w)"
    and due: "due = map cj_id (filter (is_due (cw_clock w)) (jobs_of (cw_svc w)))"
  shows "cron_inv (set_loop i \<lparr>lp_queue = due, lp_current = None\<rparr>
    (w\<lparr>cw_svc := save_store save_ok (set_jobs
        (map (\<lambda>j. if cj_id j \<in> set due then set_next_run None j else j) (jobs_of (cw_svc w))) (cw_svc w))\<rparr>))"
proof -
  let ?js = "map (\<lambda>j. if cj_id j \<in> set due then set_next_run None j else j) (jobs_of (cw_svc w))"
  let ?w = "set_loop i \<lparr>lp_queue = due, lp_current = None\<rparr>
    (w\<lparr>cw_svc := save_store save_ok (set_jobs ?js (cw_svc w))\<rparr>)"
  have jobs: "jobs_ok (cw_ids w) (jobs_of (cw_svc w))" and once: "once_ok (cw_ids w) (handed_out w) (cw_clock w)"
    and armed: "\<forall>j \<in> set (jobs_of (cw_svc w)). armed_ok (handed_out w) j" and tr: "trace_ok w"
    and dk: "disk_ok (cw_ids w) (cs_disk (cw_svc w))"
    using inv run by (simp_all add: cron_inv_def svc_ok_def)
  have "distinct due" using jobs due by (simp add: jobs_ok_def distinct_map_filter)
  then have out: "handed_out ?w jid = handed_out w jid + (if jid \<in> set due then 1 else 0)" for jid
    using handed_out_set_loop [of i "w\<lparr>cw_svc := save_store save_ok (set_jobs ?js (cw_svc w))\<rparr>"
        "\<lparr>lp_queue = due, lp_current = None\<rparr>" jid] i
    by (simp add: count_list_distinct idle_loop_def)
  have known: "mget (cw_ids w) jid \<noteq> None" if "jid \<in> set due" for jid
    using that due jobs by (auto simp: jobs_ok_def)
  have due_once: "handed_out w jid = 0 \<and> (\<exists>a. sc_at_ms sc = Some a \<and> a \<le> cw_clock w)"
    if d: "jid \<in> set due" and m: "mget (cw_ids w) jid = Some sc" and at: "sc_kind sc = ''at''" for jid sc
  proof -
    from d due obtain j where j: "j \<in> set (jobs_of (cw_svc w))" "is_due (cw_clock w) j" "cj_id j = jid" by auto
    then obtain t where t: "cj_enabled j" "next_run_of j = Some t" "t \<le> cw_clock w"
      by (auto simp: is_due_def split: option.splits)
    have "cj_schedule j = sc" using jobs j m by (auto simp: jobs_ok_def)
    with armed j t at show ?thesis by (auto simp: armed_ok_def)
  qed
  have "once_ok (cw_ids w) (handed_out ?w) (cw_clock w)"
    unfolding once_ok_def out
  proof (intro allI impI)
    fix jid sc assume a: "mget (cw_ids w) jid = Some sc \<and> sc_kind sc = ''at''"
    show "handed_out w jid + (if jid \<in> set due then 1 else 0) \<le> 1 \<and>
        (handed_out w jid + (if jid \<in> set due then 1 else 0) \<noteq> 0 \<longrightarrow>
          (\<exists>a. sc_at_ms sc = Some a \<and> a \<le> cw_clock w))"
      using due_once [of jid sc] once a by (cases "jid \<in> set due") (auto simp: once_ok_def)
  qed
  moreover have "jobs_ok (cw_ids w) ?js" by (rule jobs_ok_map [OF jobs]) simp_all
  moreover have "\<forall>j \<in> set ?js. armed_ok (handed_out ?w) j"
    using armed by (auto simp: armed_ok_def out)
  moreover have "disk_ok (cw_ids w) (cs_disk (save_store save_ok (set_jobs ?js (cw_svc w))))"
    using dk \<open>jobs_ok (cw_ids w) ?js\<close> by (simp add: save_store_def disk_ok_def)
  moreover have "trace_ok ?w"
    using tr known by (intro trace_ok_set_loop) (auto simp: trace_ok_def)
  ultimately show ?thesis by (simp add: cron_inv_def svc_ok_def)
qed

lemma inv_less:
  assumes inv: "cron_inv w" and "cw_svc w' = cw_svc w" "cw_ids w' = cw_ids w" "cw_clock w' = cw_clock w"
    and "trace_ok w'" and "\<And>jid. handed_out w' jid \<le> handed_out w jid"
  shows "cron_inv w'"
  using assms svc_ok_less [of "cw_ids w" "handed_out w" "cw_svc w" "handed_out w'"]
    once_ok_less [of "cw_ids w" "handed_out w" "cw_clock w" "handed_out w'"]
  by (simp add: cron_inv_def)

lemma inv_begin:
  assumes inv: "cron_inv w" and f: "cron_fire tick (CBegin i) w = Some w'"
  shows "cron_inv w'"
proof -
  have i: "i < length (cw_loops w)" using f by (auto split: if_splits)
  from f obtain jid rest where q: "lp_queue (cw_loops w ! i) = jid # rest"
    by (auto split: if_splits list.splits)
  have tr: "trace_ok w" using inv by (simp add: cron_inv_def)
  then have "\<forall>jid' \<in> set (lp_queue (cw_loops w ! i)). mget (cw_ids w) jid' \<noteq> None"
    using nth_mem [OF i] unfolding trace_ok_def by blast
  then have rest: "\<forall>jid' \<in> set rest. mget (cw_ids w) jid' \<noteq> None" using q by simp
  have out: "handed_out (set_loop i \<lparr>lp_queue = rest, lp_current = c\<rparr> w) x + (if jid = x then 1 else 0)
      = handed_out w x" for x c
    using handed_out_set_loop [OF i, of "\<lparr>lp_queue = rest, lp_current = c\<rparr>" x] q by (auto split: if_splits)
  show ?thesis
  proof (cases "find_job jid (cw_svc w)")
    case None
    then have w': "w' = set_loop i \<lparr>lp_queue = rest, lp_current = None\<rparr> w"
      using f q i by (auto split: if_splits)
    show ?thesis
    proof (rule inv_less [OF inv])
      show "trace_ok w'" unfolding w' using tr rest by (intro trace_ok_set_loop) auto
      show "handed_out w' x \<le> handed_out w x" for x using out [of None x] unfolding w' by linarith
    qed (simp_all add: w')
  next
    case (Some job)
    let ?l = "\<lparr>lp_queue = rest, lp_current = Some (jid, cw_clock w)\<rparr>"
    have w': "w' = set_loop i ?l (w\<lparr>cw_log := cw_log w @ [(job, cw_clock w)]\<rparr>)"
      using f q i Some by (auto split: if_splits)
    note job = find_job_props [OF Some]
    have "jobs_ok (cw_ids w) (jobs_of (cw_svc w))" using inv by (simp add: cron_inv_def svc_ok_def)
    with job have "mget (cw_ids w) (cj_id job) = Some (cj_schedule job)"
      unfolding jobs_ok_def by blast
    then have tr': "trace_ok w'" unfolding w' using tr rest
      by (intro trace_ok_set_loop) (auto simp: trace_ok_def)
    have "handed_out w' x = handed_out (set_loop i ?l w) x + (if jid = x then 1 else 0)" for x
      unfolding w' using job by (simp add: handed_out_def set_loop_def)
    then have "handed_out w' x \<le> handed_out w x" for x using out [of _ x] by simp
    with tr' show ?thesis by (intro inv_less [OF inv]) (simp_all add: w')
  qed
qed

lemma inv_crash:
  assumes inv: "cron_inv w"
  shows "cron_inv (w\<lparr>cw_svc := new_cron_service b (cs_disk (cw_svc w)), cw_loops := [], cw_copies := []\<rparr>)"
proof -
  let ?w = "w\<lparr>cw_svc := new_cron_service b (cs_disk (cw_svc w)), cw_loops := [], cw_copies := []\<rparr>"
  let ?c = "\<lparr>cs_store = empty_store, cs_disk = cs_disk (cw_svc w), cs_running = False\<rparr>"
  have less: "handed_out ?w jid \<le> handed_out w jid" for jid by (simp add: handed_out_def)
  have "disk_ok (cw_ids w) (cs_disk ?c)" using inv by (simp add: cron_inv_def svc_ok_def)
  from svc_ok_load [OF this, of b] have "svc_ok (cw_ids w) out (new_cron_service b (cs_disk (cw_svc w)))" for out
    using inv by (simp add: new_cron_service_def svc_ok_def cron_inv_def)
  moreover have "trace_ok ?w" using inv by (simp add: cron_inv_def trace_ok_def)
  moreover have "once_ok (cw_ids w) (handed_out w) (cw_clock w)" using inv by (simp add: cron_inv_def)
  then have "once_ok (cw_ids w) (handed_out ?w) (cw_clock w)" by (rule once_ok_less) (rule less)
  ultimately show ?thesis by (simp add: cron_inv_def)
qed

lemma svc_ok_update_job:
  assumes ok: "svc_ok ids out cs" and c: "mget ids (cj_id c) = Some (cj_schedule c)"
    and same: "case find_job (cj_id c) cs of None \<Rightarrow> True | Some j \<Rightarrow> cj_enabled j = cj_enabled c \<and> cj_state j = cj_state c"
  shows "svc_ok ids out (fst (update_job save_ok now c cs))"
proof (cases "find_job (cj_id c) cs")
  case (Some j)
  note job = find_job_props [OF Some]
  let ?f = "\<lambda>x. if cj_id x = cj_id c then c\<lparr>cj_updated := now\<rparr> else x"
  have upd: "update_first (\<lambda>j. cj_id j = cj_id c) (\<lambda>j. c\<lparr>cj_updated := now\<rparr>) js = update_first (\<lambda>j. cj_id j = cj_id c) ?f js" for js
    by (induction js) auto
  have sched: "cj_schedule j = cj_schedule c" using ok c job by (auto simp: svc_ok_def jobs_ok_def)
  have fit: "armed_ok out (?f x)" if x: "x \<in> set (jobs_of cs)" "cj_id x = cj_id c" "armed_ok out x" for x
  proof -
    have "x = j" using ok job x unfolding svc_ok_def jobs_ok_def by (auto simp: distinct_map inj_on_def)
    then show ?thesis using x same Some sched by (simp add: armed_ok_def)
  qed
  have "jobs_ok ids (update_first (\<lambda>j. cj_id j = cj_id c) ?f (jobs_of cs))"
  proof -
    have "map cj_id (update_first (\<lambda>j. cj_id j = cj_id c) ?f (jobs_of cs)) = map cj_id (jobs_of cs)"
      by (rule update_first_map) simp
    then show ?thesis using ok c unfolding svc_ok_def jobs_ok_def by (auto dest!: update_first_cases)
  qed
  moreover have "\<forall>y \<in> set (update_first (\<lambda>j. cj_id j = cj_id c) ?f (jobs_of cs)). armed_ok out y" if "cs_running cs"
  proof
    fix y assume "y \<in> set (update_first (\<lambda>j. cj_id j = cj_id c) ?f (jobs_of cs))"
    then consider "y \<in> set (jobs_of cs)" | x where "x \<in> set (jobs_of cs)" "cj_id x = cj_id c" "y = ?f x"
      using update_first_cases by fastforce
    then show "armed_ok out y" using ok that fit by cases (auto simp: svc_ok_def)
  qed
  ultimately have "svc_ok ids out (set_jobs (update_first (\<lambda>j. cj_id j = cj_id c) ?f (jobs_of cs)) cs)"
    by (rule svc_ok_set_jobs [OF ok])
  then show ?thesis using Some by (simp add: update_job_def upd svc_ok_save)
qed (use ok in \<open>simp add: update_job_def\<close>)

lemma svc_ok_reload:
  assumes ok: "svc_ok ids out cs"
    and same: "cs_running cs \<Longrightarrow> \<not> b \<Longrightarrow> (case cs_disk cs of NoFile \<Rightarrow> True | Stored s \<Rightarrow> s = cs_store cs | Damaged s \<Rightarrow> False)"
  shows "svc_ok ids out (fst (load_store b cs))"
proof -
  have l: "jobs_ok ids (jobs_of (fst (load_store b cs)))" "cs_disk (fst (load_store b cs)) = cs_disk cs"
      "cs_running (fst (load_store b cs)) = cs_running cs"
    using svc_ok_load [of ids cs b] ok by (auto simp: svc_ok_def)
  have "\<forall>j \<in> set (jobs_of (fst (load_store b cs))). armed_ok out j" if r: "cs_running cs"
    using ok same [OF r] r by (auto simp: load_store_def svc_ok_def empty_store_def split: disk.splits)
  with l ok show ?thesis by (simp add: svc_ok_def)
qed

lemma inv_fire:
  assumes inv: "cron_inv w" and f: "cron_fire tick a w = Some w'" and fresh_action: "\<not> out_of_date a w"
  shows "cron_inv w'"
proof (cases a)
  case (CStart b s)
  then show ?thesis using inv f inv_start by blast
next
  case CStop
  have "svc_ok (cw_ids w) (handed_out w) (stop_service (cw_svc w))"
    using inv by (intro svc_ok_stop) (simp add: cron_inv_def)
  from inv_svc [OF inv this] show ?thesis using CStop f by simp
next
  case (CTick i s)
  with f have i: "i < length (cw_loops w)" "cw_loops w ! i = idle_loop" by (auto split: if_splits)
  show ?thesis
  proof (cases "cs_running (cw_svc w)")
    case True
    then show ?thesis using inv_tick [OF inv i True refl, of s] CTick f i
      by (auto simp: check_jobs_def Let_def)
  next
    case False
    have idle: "\<lparr>lp_queue = [], lp_current = None\<rparr> = cw_loops w ! i" using i by (simp add: idle_loop_def)
    have w': "w' = set_loop i (cw_loops w ! i) w"
      using False CTick f i by (simp add: check_jobs_def idle)
    have "(cw_loops w)[i := cw_loops w ! i] = cw_loops w" by simp
    with w' have "w' = w" unfolding set_loop_def by simp
    with inv show ?thesis by simp
  qed
next
  case (CBegin i)
  then show ?thesis using inv f inv_begin by blast
next
  case (CEnd i err s)
  with f obtain jid st where i: "i < length (cw_loops w)" "lp_current (cw_loops w ! i) = Some (jid, st)"
    and w': "w' = set_loop i ((cw_loops w ! i)\<lparr>lp_current := None\<rparr>)
      (w\<lparr>cw_svc := finish_job tick s jid st err (cw_clock w) (cw_clock w) (cw_svc w)\<rparr>)"
    by (auto split: if_splits option.splits)
  have 1: "cron_inv (w\<lparr>cw_svc := finish_job tick s jid st err (cw_clock w) (cw_clock w) (cw_svc w)\<rparr>)" (is "cron_inv ?v")
    using inv by (intro inv_svc [OF inv] svc_ok_finish) (simp add: cron_inv_def)
  have "handed_out w' x = handed_out ?v x" for x
    using handed_out_set_loop [of i ?v "(cw_loops w ! i)\<lparr>lp_current := None\<rparr>" x] i unfolding w' by simp
  moreover have "trace_ok w'" unfolding w'
    using 1 i nth_mem [OF i(1)] by (intro trace_ok_set_loop) (auto simp: cron_inv_def trace_ok_def)
  ultimately show ?thesis by (intro inv_less [OF 1]) (simp_all add: w')
next
  case (CAdd s jid sc name)
  with f have fresh: "mget (cw_ids w) jid = None"
    and w': "w' = w\<lparr>cw_ids := (jid, sc) # cw_ids w, cw_svc := fst (add_job s
        (new_job tick jid (cw_clock w) name sc [] False [] []) (cw_svc w)),
        cw_copies := (if s then cw_copies w @ [new_job tick jid (cw_clock w) name sc [] False [] []] else cw_copies w)\<rparr>"
    by (auto simp: keys_mget add_job_def Let_def split: if_splits)
  have zero: "handed_out w jid = 0" using inv fresh by (intro handed_out_known) (simp_all add: cron_inv_def)
  have "handed_out w' = handed_out w" unfolding w' by (simp add: handed_out_def fun_eq_iff)
  moreover have "trace_ok w'" unfolding w' using inv fresh
    by (auto simp: cron_inv_def trace_ok_def new_job_def)
  ultimately show ?thesis using inv zero fresh svc_ok_add once_ok_add
    unfolding cron_inv_def by (simp add: w')
next
  case (CRemove s jid)
  have "svc_ok (cw_ids w) (handed_out w) (fst (remove_job s jid (cw_svc w)))"
    using inv unfolding remove_job_def by (intro svc_ok_remove) (simp add: cron_inv_def)
  from inv_svc [OF inv this] show ?thesis using CRemove f by simp
next
  case (CEnable s jid b)
  have "svc_ok (cw_ids w) (handed_out w)
      (fst (enable_job tick s jid b (cw_clock w) (cw_clock w) (cw_svc w)))"
    using inv by (intro svc_ok_enable) (simp_all add: cron_inv_def)
  from inv_svc [OF inv this] show ?thesis using CEnable f by simp
next
  case (CCrash b)
  with f have w': "w' = w\<lparr>cw_svc := new_cron_service b (cs_disk (cw_svc w)), cw_loops := [], cw_copies := []\<rparr>" by simp
  show ?thesis unfolding w' by (rule inv_crash [OF inv])
next
  case (CAdvance d)
  have "once_ok (cw_ids w) (handed_out w) (cw_clock w + int d)"
    using inv unfolding cron_inv_def once_ok_def by force
  moreover have "trace_ok (w\<lparr>cw_clock := cw_clock w + int d\<rparr>) = trace_ok w" by (simp add: trace_ok_def)
  moreover have "w' = w\<lparr>cw_clock := cw_clock w + int d\<rparr>" using f CAdvance by simp
  ultimately show ?thesis using inv by (simp add: cron_inv_def)
next
  case (CUpdate s k command)
  let ?c = "set_command command (cw_copies w ! k)"
  have k: "k < length (cw_copies w)" using f CUpdate by (simp split: if_splits)
  have c: "mget (cw_ids w) (cj_id ?c) = Some (cj_schedule ?c)"
    using inv nth_mem [OF k] by (auto simp: cron_inv_def trace_ok_def set_command_def)
  have "svc_ok (cw_ids w) (handed_out w) (fst (update_job s (cw_clock w) ?c (cw_svc w)))"
    using inv fresh_action CUpdate k
    by (intro svc_ok_update_job c) (auto simp: cron_inv_def set_command_def split: option.splits)
  from inv_svc [OF inv this] show ?thesis using CUpdate f k by simp
next
  case (CLoad b)
  have "svc_ok (cw_ids w) (handed_out w) (fst (load_store b (cw_svc w)))"
    using inv fresh_action CLoad by (intro svc_ok_reload) (auto simp: cron_inv_def split: disk.splits)
  from inv_svc [OF inv this] show ?thesis using CLoad f by simp
qed

lemma reach_inv: "cron_reach stale tick w \<Longrightarrow> \<not> stale \<Longrightarrow> cron_inv w"
proof (induction rule: cron_reach.induct)
  case (boot now)
  show ?case
    by (simp add: cron_inv_def new_cron_world_def new_cron_service_def load_store_def svc_ok_def
        empty_store_def jobs_ok_def disk_ok_def once_ok_def trace_ok_def handed_out_def)
qed (blast intro: inv_fire)


section \<open>Properties\<close>

text \<open>
  C20: A one-shot job is executed at most once and never before its time, through any interleaving
  of ticks, executions, additions, updates, removals, enabling and disabling, failed saves and loads,
  overlapping scheduler loops after Stop and Start, and process crashes, as long as no copy of a job is
  written back that is out of date, no file is loaded over a running service that differs from it, the clock does
  not run backwards and identifiers are not given out twice.
\<close>

theorem one_shot_at_most_once:
  assumes "cron_reach False tick w"
  shows "length (filter (\<lambda>e. cj_id (fst e) = jid \<and> sc_kind (cj_schedule (fst e)) = ''at'') (cw_log w)) \<le> 1
    \<and> (\<forall>e \<in> set (cw_log w). sc_kind (cj_schedule (fst e)) = ''at'' \<longrightarrow>
        (\<exists>a. sc_at_ms (cj_schedule (fst e)) = Some a \<and> a \<le> cw_clock w))"
proof -
  have inv: "cron_inv w" using reach_inv [OF assms] by simp
  then have log: "mget (cw_ids w) (cj_id (fst e)) = Some (cj_schedule (fst e))" if "e \<in> set (cw_log w)" for e
    using that by (auto simp: cron_inv_def trace_ok_def)
  have once: "handed_out w x \<le> 1 \<and> (handed_out w x \<noteq> 0 \<longrightarrow> (\<exists>a. sc_at_ms sc = Some a \<and> a \<le> cw_clock w))"
    if "mget (cw_ids w) x = Some sc" "sc_kind sc = ''at''" for x sc
    using inv that by (simp add: cron_inv_def once_ok_def)
  let ?at = "\<lambda>e. cj_id (fst e) = jid \<and> sc_kind (cj_schedule (fst e)) = ''at''"
  have "length (filter ?at (cw_log w)) \<le> 1"
  proof (cases "filter ?at (cw_log w)")
    case (Cons e es)
    then have "e \<in> set (filter ?at (cw_log w))" by simp
    then have e: "e \<in> set (cw_log w)" "?at e" by auto
    have "length (filter ?at (cw_log w)) \<le> length (filter (\<lambda>e. cj_id (fst e) = jid) (cw_log w))"
      by (metis (no_types, lifting) filter_filter length_filter_le filter_cong)
    also have "\<dots> \<le> handed_out w jid" by (simp add: handed_out_def)
    also have "\<dots> \<le> 1" using once log [OF e(1)] e(2) by blast
    finally show ?thesis .
  qed simp
  moreover have "\<exists>a. sc_at_ms (cj_schedule (fst e)) = Some a \<and> a \<le> cw_clock w"
    if e: "e \<in> set (cw_log w)" "sc_kind (cj_schedule (fst e)) = ''at''" for e
  proof -
    have "filter (\<lambda>x. cj_id (fst x) = cj_id (fst e)) (cw_log w) \<noteq> []"
      using e(1) by (auto simp: filter_empty_conv)
    then have "handed_out w (cj_id (fst e)) \<noteq> 0" by (simp add: handed_out_def)
    with once log [OF e(1)] e(2) show ?thesis by blast
  qed
  ultimately show ?thesis by blast
qed

fun cron_run :: "next_tick \<Rightarrow> cron_action list \<Rightarrow> cron_world \<Rightarrow> cron_world option" where
  "cron_run tick [] w = Some w"
| "cron_run tick (a # as) w = (case cron_fire tick a w of None \<Rightarrow> None | Some w' \<Rightarrow> cron_run tick as w')"

text \<open>A run in which nothing is out of date.\<close>

fun careful_run :: "next_tick \<Rightarrow> cron_action list \<Rightarrow> cron_world \<Rightarrow> cron_world option" where
  "careful_run tick [] w = Some w"
| "careful_run tick (a # as) w =
     (if out_of_date a w then None else (case cron_fire tick a w of None \<Rightarrow> None | Some w' \<Rightarrow> careful_run tick as w'))"

lemma careful_reach: "cron_reach False tick w \<Longrightarrow> careful_run tick as w = Some w' \<Longrightarrow> cron_reach False tick w'"
  by (induction as arbitrary: w) (auto split: option.splits if_splits intro: cron_reach.act)

definition at_schedule :: "int \<Rightarrow> cron_schedule" where
  "at_schedule t = \<lparr>sc_kind = ''at'', sc_at_ms = Some t, sc_every_ms = None, sc_expr = [], sc_tz = []\<rparr>"

definition sample_world :: cron_world where
  "sample_world = the (careful_run (\<lambda>e t. None)
     [CStart False True, CAdd True ''j1'' (at_schedule 1500) ''remind'', CUpdate True 0 ''ls'', CAdvance 700, CTick 0 True,
      CBegin 0, CEnd 0 None True, CTick 0 True] (new_cron_world 1000))"

theorem one_shot_at_most_once_witness:
  "length (filter (\<lambda>e. cj_id (fst e) = ''j1'' \<and> sc_kind (cj_schedule (fst e)) = ''at'') (cw_log sample_world)) \<le> 1
   \<and> length (cw_log sample_world) = 1"
proof -
  have "careful_run (\<lambda>e t. None)
     [CStart False True, CAdd True ''j1'' (at_schedule 1500) ''remind'', CUpdate True 0 ''ls'', CAdvance 700, CTick 0 True,
      CBegin 0, CEnd 0 None True, CTick 0 True] (new_cron_world 1000) = Some sample_world" by code_simp
  from one_shot_at_most_once [OF careful_reach [OF cron_reach.boot this]]
  have "length (filter (\<lambda>e. cj_id (fst e) = ''j1'' \<and> sc_kind (cj_schedule (fst e)) = ''at'') (cw_log sample_world)) \<le> 1"
    by blast
  moreover have "length (cw_log sample_world) = 1" by code_simp
  ultimately show ?thesis by blast
qed

text \<open>
  A copy that is written back too late runs a one-shot job twice: the tool adds a job with a command and saves
  the command with a second call; when the job starts in between and the service is restarted, the second call
  arms the job again for the time that has passed.
\<close>

theorem stale_update_runs_twice:
  "case cron_run (\<lambda>e t. None)
      [CStart False True, CAdd True ''j1'' (at_schedule 1500) ''remind'', CAdvance 700, CTick 0 True, CBegin 0,
       CStop, CStart False True, CUpdate True 0 ''ls'', CTick 1 True, CBegin 1] (new_cron_world 1000) of
     None \<Rightarrow> False
   | Some w \<Rightarrow> map (\<lambda>e. cj_id (fst e)) (cw_log w) = [''j1'', ''j1'']"
  by code_simp

text \<open>
  The interval of a recurring job is added in 64 bits: an interval that passes the end of the
  range gives a next run before now, so the job is due on every tick.
\<close>

theorem every_overflow_always_due:
  assumes "sc_kind sc = ''every''" and "sc_every_ms sc = Some d" and "0 \<le> now" and "now < 2 ^ 63" and "d < 2 ^ 63"
    and "2 ^ 63 - now \<le> d"
  shows "is_due now (new_job tick jid now name sc m del ch to)
    \<and> compute_next_run tick sc now = Some (now + d - 2 ^ 64)"
proof -
  have "wrap64 (now + d) = now + d - 2 ^ 64"
  proof -
    have "(now + d + 2 ^ 63) mod 2 ^ 64 = (now + d + 2 ^ 63 - 2 ^ 64) mod (2 ^ 64 :: int)"
      by (rule minus_mod_self2 [symmetric])
    also have "\<dots> = now + d + 2 ^ 63 - 2 ^ 64" using assms by (intro mod_pos_pos_trivial) auto
    finally show ?thesis by (simp add: wrap64_def)
  qed
  moreover have "0 < d" using assms by auto
  ultimately have c: "compute_next_run tick sc now = Some (now + d - 2 ^ 64)"
    using assms(1,2) by (simp add: compute_next_run_def)
  have "now + d - 2 ^ 64 \<le> now" using assms(5) by simp
  then have "is_due now (new_job tick jid now name sc m del ch to)"
    unfolding is_due_def by (simp add: new_job_def c del: power_Suc)
  with c show ?thesis by blast
qed

theorem every_overflow_always_due_witness:
  "compute_next_run (\<lambda>e t. None) \<lparr>sc_kind = ''every'', sc_at_ms = None, sc_every_ms = Some (2 ^ 63 - 1),
     sc_expr = [], sc_tz = []\<rparr> 1000 = Some (1000 + (2 ^ 63 - 1) - 2 ^ 64)"
  by (rule every_overflow_always_due [THEN conjunct2]) simp_all

text \<open>
  A store that cannot be read is overwritten: the service starts with what little was loaded,
  reports nothing on creation, and the next successful addition replaces the file, so every job
  stored before is lost.
\<close>

theorem unreadable_store_overwritten:
  "cs_disk (fst (add_job True job (new_cron_service True (Stored s)))) =
     Stored \<lparr>st_version = 1, st_jobs = [job]\<rparr>
   \<and> cs_disk (fst (add_job True job (new_cron_service False (Damaged partial)))) =
       Stored \<lparr>st_version = st_version partial, st_jobs = st_jobs partial @ [job]\<rparr>"
  by (simp add: add_job_def new_cron_service_def load_store_def empty_store_def set_jobs_def
      save_store_def Let_def)

text \<open>
  An addition whose save fails is reported as an error and yet takes effect: the job is in the
  running service, and the tick of its time hands it out and tries to save it again.
\<close>

theorem failed_add_still_runs:
  assumes "cs_running cs" and "cj_enabled job" and "next_run_of job = Some t" and "t \<le> now"
  shows "snd (add_job False job cs) = None
    \<and> cj_id job \<in> set (snd (check_jobs save_ok now (fst (add_job False job cs))))"
  using assms by (simp add: add_job_def check_jobs_def is_due_def Let_def)

theorem failed_add_still_runs_witness:
  "snd (add_job False (new_job (\<lambda>e t. None) ''j'' 10 ''n'' (at_schedule 20) [] False [] [])
      (cw_svc sample_world)) = None"
  by (rule failed_add_still_runs [where t = 20 and now = 30 and save_ok = True, THEN conjunct1]) code_simp+

end
