(* ===== verification/Devices.thy ===== *)
theory Devices
  imports KeyedStore GoBase64
begin

text \<open>
  Pairing of client devices (\<open>pkg/devices/token.go\<close>, \<open>store.go\<close>, \<open>pairing.go\<close>, \<open>types.go\<close>): a
  single current pairing code, the table of paired devices with their access tokens, and the JSON
  file of the table. Random bytes are arguments (\<open>None\<close> when the source of randomness fails); the
  readings of the clock within one operation are one time, in nanoseconds; whether a save succeeds
  is an argument. The file holds a table, nothing, or text that does not parse.
\<close>

section \<open>Tokens\<close>

definition token_length :: nat where
  "token_length = 32"

definition token_validity :: int where
  "token_validity = 30 * 24 * 3600 * 1000000000"

definition code_expiry :: int where
  "code_expiry = 5 * 60 * 1000000000"

definition generate_token :: "string option \<Rightarrow> int \<Rightarrow> (string \<times> int) option" where
  "generate_token rnd now = map_option (\<lambda>bytes. (hex_enc bytes, now + token_validity)) rnd"

definition validate_token_format :: "string \<Rightarrow> bool" where
  "validate_token_format token =
     (if length token = 2 * token_length then hex_ok token
      else if length token < 10 then False
      else if b64_dec UrlAlphabet True token \<noteq> None then True
      else b64_dec UrlAlphabet False token \<noteq> None)"

section \<open>The device table\<close>

record paired_device =
  pd_id :: string
  pd_name :: string
  pd_token :: string
  pd_token_expires :: int
  pd_paired_at :: int
  pd_last_seen :: int
  pd_ip_address :: string
  pd_user_agent :: string

type_synonym device_map = "(string, paired_device) gomap"

datatype device_file = NoTable | SavedTable device_map | UnparsableTable

record device_store =
  ds_devices :: device_map
  ds_file :: device_file

definition new_device_store :: "device_file \<Rightarrow> device_store option" where
  "new_device_store f =
     (case f of
        NoTable \<Rightarrow> Some \<lparr>ds_devices = [], ds_file = f\<rparr>
      | SavedTable m \<Rightarrow> Some \<lparr>ds_devices = m, ds_file = f\<rparr>
      | UnparsableTable \<Rightarrow> None)"

definition save_devices :: "bool \<Rightarrow> device_store \<Rightarrow> device_store" where
  "save_devices save_ok s = (if save_ok then s\<lparr>ds_file := SavedTable (ds_devices s)\<rparr> else s)"

text \<open>The Boolean of the writing operations is their error.\<close>

definition add_device :: "bool \<Rightarrow> paired_device \<Rightarrow> device_store \<Rightarrow> device_store \<times> bool" where
  "add_device save_ok d s =
     (save_devices save_ok (s\<lparr>ds_devices := mput (pd_id d) d (ds_devices s)\<rparr>), \<not> save_ok)"

definition remove_device :: "bool \<Rightarrow> string \<Rightarrow> device_store \<Rightarrow> device_store \<times> bool" where
  "remove_device save_ok dev s =
     (save_devices save_ok (s\<lparr>ds_devices := mdel dev (ds_devices s)\<rparr>), \<not> save_ok)"

definition get_device :: "device_store \<Rightarrow> string \<Rightarrow> paired_device option" where
  "get_device s dev = mget (ds_devices s) dev"

definition get_device_by_token :: "device_store \<Rightarrow> string \<Rightarrow> paired_device option" where
  "get_device_by_token s token = find (\<lambda>d. pd_token d = token) (map snd (ds_devices s))"

datatype token_validation = TokenValid string int | TokenInvalid string

definition validate_token :: "int \<Rightarrow> device_store \<Rightarrow> string \<Rightarrow> token_validation" where
  "validate_token now s token =
     (if \<not> validate_token_format token then TokenInvalid ''invalid token format''
      else
        (case get_device_by_token s token of
           None \<Rightarrow> TokenInvalid ''token not found''
         | Some d \<Rightarrow>
             if now > pd_token_expires d then TokenInvalid ''token expired''
             else TokenValid (pd_id d) (pd_token_expires d)))"

definition update_last_seen :: "bool \<Rightarrow> int \<Rightarrow> string \<Rightarrow> string \<Rightarrow> device_store \<Rightarrow> device_store \<times> bool" where
  "update_last_seen save_ok now dev ip s =
     (case mget (ds_devices s) dev of
        None \<Rightarrow> (s, False)
      | Some d \<Rightarrow>
          (save_devices save_ok
             (s\<lparr>ds_devices := mput dev (d\<lparr>pd_last_seen := now, pd_ip_address := ip\<rparr>) (ds_devices s)\<rparr>),
           \<not> save_ok))"

definition list_devices :: "device_store \<Rightarrow> paired_device list" where
  "list_devices s = map snd (ds_devices s)"

definition has_device :: "device_store \<Rightarrow> string \<Rightarrow> bool" where
  "has_device s dev \<longleftrightarrow> mget (ds_devices s) dev \<noteq> None"

definition has_devices :: "device_store \<Rightarrow> bool" where
  "has_devices s \<longleftrightarrow> length (ds_devices s) > 0"

definition device_count :: "device_store \<Rightarrow> nat" where
  "device_count s = length (ds_devices s)"

definition cleanup_expired_tokens :: "bool \<Rightarrow> int \<Rightarrow> device_store \<Rightarrow> device_store \<times> nat" where
  "cleanup_expired_tokens save_ok now s =
     (let kept = filter (\<lambda>(i, d). \<not> now > pd_token_expires d) (ds_devices s);
          removed = length (ds_devices s) - length kept;
          s1 = s\<lparr>ds_devices := kept\<rparr>
      in (if removed > 0 then save_devices save_ok s1 else s1, removed))"

section \<open>Pairing codes\<close>

record pairing_code =
  pc_code :: string
  pc_created_at :: int
  pc_used_at :: "int option"
  pc_paired_with :: string

record pairing_manager =
  pm_current :: "pairing_code option"
  pm_used_codes :: "(string, pairing_code) gomap"
  pm_store :: device_store

definition new_pairing_manager :: "device_store \<Rightarrow> pairing_manager" where
  "new_pairing_manager s = \<lparr>pm_current = None, pm_used_codes = [], pm_store = s\<rparr>"

text \<open>Two random bytes for the letters, four for the digits: \<open>%s%04d\<close>.\<close>

definition pad4 :: "nat \<Rightarrow> string" where
  "pad4 n = replicate (4 - length (show_nat n)) CHR ''0'' @ show_nat n"

definition big_endian :: "nat list \<Rightarrow> nat" where
  "big_endian bs = fold (\<lambda>b n. n * 256 + b) bs 0"

definition generate_pairing_code :: "(nat \<times> nat) option \<Rightarrow> nat list option \<Rightarrow> string option" where
  "generate_pairing_code letters digits =
     (case letters of
        None \<Rightarrow> None
      | Some (a, b) \<Rightarrow>
          (case digits of
             None \<Rightarrow> None
           | Some ds \<Rightarrow>
               Some ([char_of (65 + a mod 26), char_of (65 + b mod 26)] @ pad4 (big_endian ds mod 10000))))"

definition fresh_code :: "string \<Rightarrow> int \<Rightarrow> pairing_code" where
  "fresh_code code now = \<lparr>pc_code = code, pc_created_at = now, pc_used_at = None, pc_paired_with = []\<rparr>"

text \<open>The generators answer the code, \<open>None\<close> when randomness fails.\<close>

definition generate_code_once :: "int \<Rightarrow> string option \<Rightarrow> pairing_manager \<Rightarrow> pairing_manager \<times> string option" where
  "generate_code_once now rnd pm =
     (case (case pm_current pm of
              None \<Rightarrow> None
            | Some c \<Rightarrow> if pc_used_at c = None \<and> now - pc_created_at c < code_expiry then Some (pc_code c) else None) of
        Some code \<Rightarrow> (pm, Some code)
      | None \<Rightarrow>
          (case rnd of
             None \<Rightarrow> (pm, None)
           | Some code \<Rightarrow> (pm\<lparr>pm_current := Some (fresh_code code now)\<rparr>, Some code)))"

definition get_current_code :: "int \<Rightarrow> pairing_manager \<Rightarrow> string" where
  "get_current_code now pm =
     (case pm_current pm of
        None \<Rightarrow> []
      | Some c \<Rightarrow>
          if pc_used_at c \<noteq> None then []
          else if now - pc_created_at c \<ge> code_expiry then []
          else pc_code c)"

datatype pairing_result =
    PairRefused string
  | PairError string
  | Paired string int paired_device

definition validate_code ::
    "int \<Rightarrow> string \<Rightarrow> paired_device \<Rightarrow> string option \<Rightarrow> bool \<Rightarrow> pairing_manager \<Rightarrow> pairing_manager \<times> pairing_result" where
  "validate_code now code info rnd save_ok pm =
     (case pm_current pm of
        None \<Rightarrow> (pm, PairRefused ''no pairing code available'')
      | Some c \<Rightarrow>
          if pc_code c \<noteq> code then (pm, PairRefused ''invalid pairing code'')
          else if pc_used_at c \<noteq> None then (pm, PairRefused ''pairing code already used'')
          else if now - pc_created_at c \<ge> code_expiry then (pm, PairRefused ''pairing code expired'')
          else
            (case generate_token rnd now of
               None \<Rightarrow> (pm, PairError ''failed to generate token'')
             | Some (token, expires) \<Rightarrow>
                 (let d = info\<lparr>pd_token := token, pd_token_expires := expires, pd_paired_at := now, pd_last_seen := now\<rparr>;
                      (s, err) = add_device save_ok d (pm_store pm)
                  in if err then (pm\<lparr>pm_store := s\<rparr>, PairError ''failed to store paired device'')
                     else
                       (let c' = c\<lparr>pc_used_at := Some now, pc_paired_with := pd_id d\<rparr> in
                        (pm\<lparr>pm_store := s, pm_current := Some c', pm_used_codes := mput code c' (pm_used_codes pm)\<rparr>,
                         Paired token expires d)))))"

definition is_paired :: "pairing_manager \<Rightarrow> bool" where
  "is_paired pm = has_devices (pm_store pm)"

definition retire_current :: "int \<Rightarrow> pairing_manager \<Rightarrow> pairing_manager" where
  "retire_current now pm =
     (case pm_current pm of
        None \<Rightarrow> pm
      | Some c \<Rightarrow>
          if pc_used_at c = None then
            (let c' = c\<lparr>pc_used_at := Some now, pc_paired_with := ''regenerated''\<rparr> in
             pm\<lparr>pm_current := Some c', pm_used_codes := mput (pc_code c) c' (pm_used_codes pm)\<rparr>)
          else pm)"

definition regenerate_code :: "int \<Rightarrow> string option \<Rightarrow> pairing_manager \<Rightarrow> pairing_manager \<times> string option" where
  "regenerate_code now rnd pm =
     (let pm1 = retire_current now pm in
      case rnd of
        None \<Rightarrow> (pm1, None)
      | Some code \<Rightarrow> (pm1\<lparr>pm_current := Some (fresh_code code now)\<rparr>, Some code))"

section \<open>Histories\<close>

datatype pair_op =
    PGenerate int "string option"
  | PRegenerate int "string option"
  | PValidate int string paired_device "string option" bool
  | PRemove bool string
  | PSeen bool int string string
  | PCleanup bool int
  | PRestart

text \<open>
  A token that was issued: the device, the token, the time, and the code with its creation time, as the answer of
  a validation shows it. It is issued when the device is put into the table, even when the save fails afterwards.
\<close>

type_synonym issue = "string \<times> string \<times> int \<times> string \<times> int"

record pair_world =
  pw_pm :: pairing_manager
  pw_codes :: "(string \<times> int) list"
  pw_issued :: "issue list"

definition issue_of ::
    "int \<Rightarrow> string \<Rightarrow> paired_device \<Rightarrow> string option \<Rightarrow> bool \<Rightarrow> pairing_manager \<Rightarrow> issue list" where
  "issue_of now code info rnd save_ok pm =
     (case (pm_current pm, rnd) of
        (Some c, Some bytes) \<Rightarrow>
          (case snd (validate_code now code info rnd save_ok pm) of
             Paired token expires d \<Rightarrow> [(pd_id d, token, now, code, pc_created_at c)]
           | PairError e \<Rightarrow>
               if e = ''failed to store paired device'' then [(pd_id info, hex_enc bytes, now, code, pc_created_at c)] else []
           | PairRefused e \<Rightarrow> [])
      | _ \<Rightarrow> [])"

definition codes_of :: "pairing_manager \<Rightarrow> (string \<times> int) list" where
  "codes_of pm = (case pm_current pm of None \<Rightarrow> [] | Some c \<Rightarrow> [(pc_code c, pc_created_at c)])"

definition with_pm :: "pairing_manager \<Rightarrow> pair_world \<Rightarrow> pair_world" where
  "with_pm pm w = w\<lparr>pw_pm := pm\<rparr>"

definition on_store :: "(device_store \<Rightarrow> device_store) \<Rightarrow> pair_world \<Rightarrow> pair_world" where
  "on_store f w = w\<lparr>pw_pm := (pw_pm w)\<lparr>pm_store := f (pm_store (pw_pm w))\<rparr>\<rparr>"

fun pair_step :: "pair_op \<Rightarrow> pair_world \<Rightarrow> pair_world" where
  "pair_step (PGenerate now rnd) w =
     (let pm = fst (generate_code_once now rnd (pw_pm w)) in w\<lparr>pw_pm := pm, pw_codes := codes_of pm @ pw_codes w\<rparr>)"
| "pair_step (PRegenerate now rnd) w =
     (let pm = fst (regenerate_code now rnd (pw_pm w)) in w\<lparr>pw_pm := pm, pw_codes := codes_of pm @ pw_codes w\<rparr>)"
| "pair_step (PValidate now code info rnd save_ok) w =
     w\<lparr>pw_pm := fst (validate_code now code info rnd save_ok (pw_pm w)),
       pw_issued := issue_of now code info rnd save_ok (pw_pm w) @ pw_issued w\<rparr>"
| "pair_step (PRemove save_ok dev) w = on_store (\<lambda>s. fst (remove_device save_ok dev s)) w"
| "pair_step (PSeen save_ok now dev ip) w = on_store (\<lambda>s. fst (update_last_seen save_ok now dev ip s)) w"
| "pair_step (PCleanup save_ok now) w = on_store (\<lambda>s. fst (cleanup_expired_tokens save_ok now s)) w"
| "pair_step PRestart w =
     (case new_device_store (ds_file (pm_store (pw_pm w))) of
        None \<Rightarrow> w
      | Some s \<Rightarrow> w\<lparr>pw_pm := new_pairing_manager s\<rparr>)"

abbreviation pair_run :: "pair_op list \<Rightarrow> pair_world \<Rightarrow> pair_world" where
  "pair_run ops \<equiv> fold pair_step ops"

definition new_pair_world :: pair_world where
  "new_pair_world = \<lparr>pw_pm = new_pairing_manager \<lparr>ds_devices = [], ds_file = NoTable\<rparr>, pw_codes = [], pw_issued = []\<rparr>"


section \<open>The table as a keyed store\<close>

interpretation device_table: keyed_store get_device "\<lambda>k d s. fst (add_device True d s)"
    "\<lambda>k s. fst (remove_device True k s)" "\<lambda>s. wf_map (ds_devices s)" "\<lambda>k d. pd_id d = k"
  by unfold_locales (auto simp: get_device_def add_device_def remove_device_def save_devices_def)

lemma generated_token_format: "length bytes = token_length \<Longrightarrow> validate_token_format (hex_enc bytes)"
  by (simp add: validate_token_format_def length_hex_enc hex_ok_enc)

lemma save_devices_simps [simp]: "ds_devices (save_devices b s) = ds_devices s"
  by (simp add: save_devices_def)

section \<open>Invariant\<close>

definition issued_for :: "issue list \<Rightarrow> paired_device \<Rightarrow> bool" where
  "issued_for is d \<longleftrightarrow> (\<exists>time code created. (pd_id d, pd_token d, time, code, created) \<in> set is
     \<and> pd_token_expires d = time + token_validity)"

definition table_issued :: "issue list \<Rightarrow> device_map \<Rightarrow> bool" where
  "table_issued is m \<longleftrightarrow> wf_map m \<and> (\<forall>k d. mget m k = Some d \<longrightarrow> pd_id d = k \<and> issued_for is d)"

definition store_issued :: "issue list \<Rightarrow> device_store \<Rightarrow> bool" where
  "store_issued is s \<longleftrightarrow> table_issued is (ds_devices s)
     \<and> (case ds_file s of SavedTable m \<Rightarrow> table_issued is m | _ \<Rightarrow> True)"

definition pair_inv :: "pair_world \<Rightarrow> bool" where
  "pair_inv w \<longleftrightarrow> store_issued (pw_issued w) (pm_store (pw_pm w))
     \<and> set (codes_of (pw_pm w)) \<subseteq> set (pw_codes w)
     \<and> (\<forall>(dev, token, time, code, created) \<in> set (pw_issued w).
          time - created < code_expiry \<and> (code, created) \<in> set (pw_codes w))"

lemma table_issued_more: "table_issued is m \<Longrightarrow> set is \<subseteq> set js \<Longrightarrow> table_issued js m"
  unfolding table_issued_def issued_for_def by blast

lemma store_issued_more: "store_issued is s \<Longrightarrow> set is \<subseteq> set js \<Longrightarrow> store_issued js s"
  by (auto simp: store_issued_def table_issued_more split: device_file.splits)

lemma table_issued_put: "table_issued is m \<Longrightarrow> issued_for is d \<Longrightarrow> table_issued is (mput (pd_id d) d m)"
  by (auto simp: table_issued_def split: if_splits)

lemma table_issued_del: "table_issued is m \<Longrightarrow> table_issued is (mdel k m)"
  by (auto simp: table_issued_def split: if_splits)

lemma table_issued_filter: "table_issued is m \<Longrightarrow> table_issued is (filter (\<lambda>(k, d). P k d) m)"
  by (auto simp: table_issued_def mget_filter split: option.splits if_splits)

lemma store_issued_save: "store_issued is s \<Longrightarrow> store_issued is (save_devices b s)"
  by (simp add: store_issued_def save_devices_def)

lemma store_issued_set: "store_issued is s \<Longrightarrow> table_issued is m \<Longrightarrow> store_issued is (s\<lparr>ds_devices := m\<rparr>)"
  by (simp add: store_issued_def)

lemma add_device_issued:
  "store_issued is s \<Longrightarrow> issued_for is d \<Longrightarrow> store_issued is (fst (add_device b d s))"
  by (simp add: add_device_def store_issued_save store_issued_set table_issued_put store_issued_def [of "is" s])

lemma remove_device_issued: "store_issued is s \<Longrightarrow> store_issued is (fst (remove_device b dev s))"
  by (simp add: remove_device_def store_issued_save store_issued_set table_issued_del store_issued_def [of "is" s])

lemma last_seen_issued: "store_issued is s \<Longrightarrow> store_issued is (fst (update_last_seen b now dev ip s))"
proof (cases "mget (ds_devices s) dev")
  case (Some d)
  assume s: "store_issued is s"
  then have t: "table_issued is (ds_devices s)" by (simp add: store_issued_def)
  then have d: "pd_id d = dev" "issued_for is d" using Some by (auto simp: table_issued_def)
  let ?d = "d\<lparr>pd_last_seen := now, pd_ip_address := ip\<rparr>"
  have "issued_for is ?d" using d(2) by (simp add: issued_for_def)
  from table_issued_put [OF t this] have "table_issued is (mput dev ?d (ds_devices s))" using d(1) by simp
  with s Some show ?thesis by (simp add: update_last_seen_def store_issued_save store_issued_set)
qed (simp add: update_last_seen_def)

lemma cleanup_issued: "store_issued is s \<Longrightarrow> store_issued is (fst (cleanup_expired_tokens b now s))"
proof -
  assume s: "store_issued is s"
  then have "table_issued is (filter (\<lambda>(k, d). \<not> now > pd_token_expires d) (ds_devices s))"
    by (intro table_issued_filter) (simp add: store_issued_def)
  with s have "store_issued is (s\<lparr>ds_devices := filter (\<lambda>(k, d). \<not> now > pd_token_expires d) (ds_devices s)\<rparr>)"
    by (rule store_issued_set)
  then show ?thesis by (simp add: cleanup_expired_tokens_def Let_def store_issued_save)
qed

lemma new_store_issued:
  "store_issued is s \<Longrightarrow> new_device_store (ds_file s) = Some s' \<Longrightarrow> store_issued is s'"
  by (auto simp: new_device_store_def store_issued_def table_issued_def split: device_file.splits)

lemma generate_store: "pm_store (fst (generate_code_once now rnd pm)) = pm_store pm"
  by (simp add: generate_code_once_def split: option.split)

lemma regenerate_store: "pm_store (fst (regenerate_code now rnd pm)) = pm_store pm"
  by (simp add: regenerate_code_def retire_current_def Let_def split: option.split)

text \<open>What a validation does: refuse, issue and fail to save, or issue and spend the code.\<close>

lemma validate_cases:
  obtains (refused) "issue_of now code info rnd b pm = []" "fst (validate_code now code info rnd b pm) = pm"
  | (issued) c bytes d where "pm_current pm = Some c" "rnd = Some bytes" "pc_code c = code" "pc_used_at c = None"
      "now - pc_created_at c < code_expiry"
      "d = info\<lparr>pd_token := hex_enc bytes, pd_token_expires := now + token_validity,
         pd_paired_at := now, pd_last_seen := now\<rparr>"
      "issue_of now code info rnd b pm = [(pd_id info, hex_enc bytes, now, code, pc_created_at c)]"
      "pm_store (fst (validate_code now code info rnd b pm)) = fst (add_device b d (pm_store pm))"
      "codes_of (fst (validate_code now code info rnd b pm)) = codes_of pm"
      "b \<Longrightarrow> pm_current (fst (validate_code now code info rnd b pm)) =
         Some (c\<lparr>pc_used_at := Some now, pc_paired_with := pd_id info\<rparr>)"
      "\<not> b \<Longrightarrow> pm_current (fst (validate_code now code info rnd b pm)) = Some c"
proof (cases "pm_current pm")
  case None
  then show thesis by (intro refused) (simp_all add: issue_of_def validate_code_def)
next
  case (Some c)
  show thesis
  proof (cases "pc_code c = code \<and> pc_used_at c = None \<and> now - pc_created_at c < code_expiry \<and> rnd \<noteq> None")
    case True
    then obtain bytes where "rnd = Some bytes" by auto
    with Some True show thesis
      by (intro issued [of c bytes]) (auto simp: issue_of_def validate_code_def generate_token_def
          add_device_def codes_of_def Let_def)
  next
    case False
    with Some have "fst (validate_code now code info rnd b pm) = pm \<and> (case snd (validate_code now code info rnd b pm) of
        Paired token expires d \<Rightarrow> False | PairError e \<Rightarrow> e \<noteq> ''failed to store paired device'' | PairRefused e \<Rightarrow> True)"
      by (auto simp: validate_code_def generate_token_def split: option.splits)
    then show thesis
      by (intro refused) (auto simp: issue_of_def split: option.splits pairing_result.splits)
  qed
qed

lemma pair_step_inv: "pair_inv w \<Longrightarrow> pair_inv (pair_step a w)"
proof (cases a)
  case (PGenerate now rnd)
  assume "pair_inv w"
  then show ?thesis using PGenerate by (auto simp: pair_inv_def Let_def generate_store)
next
  case (PRegenerate now rnd)
  assume "pair_inv w"
  then show ?thesis using PRegenerate by (auto simp: pair_inv_def Let_def regenerate_store)
next
  case (PValidate now code info rnd b)
  assume inv: "pair_inv w"
  show ?thesis
  proof (cases rule: validate_cases [of now code info rnd b "pw_pm w"])
    case refused
    then show ?thesis using inv PValidate by (simp add: pair_inv_def)
  next
    case (issued c bytes d)
    let ?is = "issue_of now code info rnd b (pw_pm w) @ pw_issued w"
    have "store_issued (pw_issued w) (pm_store (pw_pm w))" using inv by (simp add: pair_inv_def)
    then have "store_issued ?is (pm_store (pw_pm w))" by (rule store_issued_more) simp
    moreover have "issued_for ?is d" unfolding issued_for_def issued(6,7) by simp blast
    ultimately have "store_issued ?is (fst (add_device b d (pm_store (pw_pm w))))"
      by (rule add_device_issued)
    moreover have "(code, pc_created_at c) \<in> set (pw_codes w)"
      using inv issued(1,3) by (auto simp: pair_inv_def codes_of_def)
    moreover have "set (codes_of (pw_pm w)) \<subseteq> set (pw_codes w)" using inv by (simp add: pair_inv_def)
    ultimately show ?thesis using inv issued(5,7-9) unfolding PValidate pair_inv_def by simp
  qed
next
  case PRestart
  assume inv: "pair_inv w"
  then show ?thesis using PRestart
    by (auto simp: pair_inv_def new_pairing_manager_def codes_of_def new_store_issued split: option.split)
qed (auto simp: pair_inv_def on_store_def codes_of_def remove_device_issued last_seen_issued cleanup_issued)

lemma pair_run_inv: "pair_inv w \<Longrightarrow> pair_inv (pair_run ops w)"
  by (induction ops arbitrary: w) (simp_all add: pair_step_inv)

lemma pair_inv_new [simp]: "pair_inv new_pair_world"
  by (simp add: pair_inv_def new_pair_world_def new_pairing_manager_def store_issued_def table_issued_def codes_of_def)

section \<open>Properties\<close>

text \<open>
  C5: In every history of pairing, clean-ups, removals, failed saves and restarts, a token that the
  store accepts was issued to exactly the device it is accepted for, by a validation of a pairing
  code less than five minutes after that code was generated, and at most thirty days ago.
\<close>

theorem valid_token_was_issued:
  assumes "validate_token now (pm_store (pw_pm (pair_run ops new_pair_world))) token = TokenValid dev expires"
  shows "\<exists>time code created. (dev, token, time, code, created) \<in> set (pw_issued (pair_run ops new_pair_world))
    \<and> (code, created) \<in> set (pw_codes (pair_run ops new_pair_world))
    \<and> time - created < code_expiry \<and> now \<le> time + token_validity \<and> expires = time + token_validity"
proof -
  let ?w = "pair_run ops new_pair_world"
  let ?m = "ds_devices (pm_store (pw_pm ?w))"
  have inv: "pair_inv ?w" by (simp add: pair_run_inv)
  from assms obtain d where d: "get_device_by_token (pm_store (pw_pm ?w)) token = Some d"
    "now \<le> pd_token_expires d" "dev = pd_id d" "expires = pd_token_expires d"
    by (auto simp: validate_token_def split: if_splits option.splits)
  then have "d \<in> set (map snd ?m)" and tok: "pd_token d = token"
    unfolding get_device_by_token_def by (auto simp: find_Some_iff)
  then obtain k where "(k, d) \<in> set ?m" by auto
  moreover have t: "table_issued (pw_issued ?w) ?m" using inv by (simp add: pair_inv_def store_issued_def)
  ultimately have "mget ?m k = Some d" by (simp add: table_issued_def mget_in_set)
  with t have "issued_for (pw_issued ?w) d" by (auto simp: table_issued_def)
  then obtain time code created where i: "(pd_id d, pd_token d, time, code, created) \<in> set (pw_issued ?w)"
    "pd_token_expires d = time + token_validity" by (auto simp: issued_for_def)
  moreover from inv i(1) have "time - created < code_expiry \<and> (code, created) \<in> set (pw_codes ?w)"
    unfolding pair_inv_def by fast
  ultimately show ?thesis using d tok by auto
qed

definition sample_info :: paired_device where
  "sample_info = \<lparr>pd_id = ''phone'', pd_name = ''Phone'', pd_token = [], pd_token_expires = 0, pd_paired_at = 0,
     pd_last_seen = 0, pd_ip_address = [], pd_user_agent = []\<rparr>"

definition sample_bytes :: string where
  "sample_bytes = replicate 32 CHR ''k''"

theorem valid_token_was_issued_witness:
  "\<exists>time code created. (''phone'', hex_enc sample_bytes, time, code, created) \<in>
     set (pw_issued (pair_run [PGenerate 10 (Some ''AB1234''), PValidate 20 ''AB1234'' sample_info (Some sample_bytes) True] new_pair_world))"
proof -
  have "validate_token 30 (pm_store (pw_pm (pair_run [PGenerate 10 (Some ''AB1234''),
      PValidate 20 ''AB1234'' sample_info (Some sample_bytes) True] new_pair_world))) (hex_enc sample_bytes)
    = TokenValid ''phone'' (20 + token_validity)" by code_simp
  from valid_token_was_issued [OF this] show ?thesis by blast
qed

text \<open>What the validations of a history answer.\<close>

fun pair_results :: "pair_op list \<Rightarrow> pair_world \<Rightarrow> pairing_result list" where
  "pair_results [] w = []"
| "pair_results (a # ops) w =
     (case a of
        PValidate now code info rnd save_ok \<Rightarrow> [snd (validate_code now code info rnd save_ok (pw_pm w))]
      | _ \<Rightarrow> []) @ pair_results ops (pair_step a w)"

fun pairs_device :: "pairing_result \<Rightarrow> bool" where
  "pairs_device (Paired token expires d) = True"
| "pairs_device _ = False"

text \<open>The current code cannot pair any more.\<close>

definition spent :: "pairing_manager \<Rightarrow> bool" where
  "spent pm \<longleftrightarrow> (case pm_current pm of None \<Rightarrow> True | Some c \<Rightarrow> pc_used_at c \<noteq> None)"

fun generates :: "pair_op \<Rightarrow> bool" where
  "generates (PGenerate _ _) = True"
| "generates (PRegenerate _ _) = True"
| "generates _ = False"

lemma spent_validate:
  "spent pm \<Longrightarrow> fst (validate_code now code info rnd b pm) = pm \<and> \<not> pairs_device (snd (validate_code now code info rnd b pm))"
  by (auto simp: spent_def validate_code_def split: option.splits)

lemma spent_step: "spent (pw_pm w) \<Longrightarrow> \<not> generates a \<Longrightarrow> spent (pw_pm (pair_step a w))"
  by (cases a) (auto simp: spent_validate on_store_def spent_def new_pairing_manager_def split: option.splits)

lemma spent_run:
  "spent (pw_pm w) \<Longrightarrow> \<forall>a \<in> set ops. \<not> generates a \<Longrightarrow>
     spent (pw_pm (pair_run ops w)) \<and> list_all (\<lambda>r. \<not> pairs_device r) (pair_results ops w)"
proof (induction ops arbitrary: w)
  case (Cons a ops)
  then have "spent (pw_pm (pair_step a w))" by (intro spent_step) auto
  with Cons show ?case using spent_validate by (auto split: pair_op.split)
qed simp

text \<open>
  C26: A pairing code is good for one device: after a successful pairing every further validation is refused, whatever is
  tried, and no code is shown, until a new code is generated.
\<close>

theorem code_single_use:
  assumes "validate_code now code info rnd save_ok (pw_pm w) = (pm', Paired token expires d)"
    and "\<forall>a \<in> set ops. \<not> generates a"
  shows "list_all (\<lambda>r. \<not> pairs_device r) (pair_results ops (with_pm pm' w))
    \<and> get_current_code later (pw_pm (pair_run ops (with_pm pm' w))) = []"
proof -
  have "spent pm'"
    using assms(1) by (auto simp: validate_code_def add_device_def spent_def Let_def
        split: option.splits if_splits prod.splits)
  then have "spent (pw_pm (with_pm pm' w))" by (simp add: with_pm_def)
  from spent_run [OF this assms(2)] show ?thesis by (auto simp: spent_def get_current_code_def split: option.splits)
qed

theorem code_single_use_witness:
  "list_all (\<lambda>r. \<not> pairs_device r) (pair_results [PValidate 40 ''AB1234'' sample_info (Some sample_bytes) True]
     (with_pm (fst (validate_code 20 ''AB1234'' sample_info (Some sample_bytes) True
        (pw_pm (pair_run [PGenerate 10 (Some ''AB1234'')] new_pair_world))))
        (pair_run [PGenerate 10 (Some ''AB1234'')] new_pair_world)))"
proof -
  let ?w = "pair_run [PGenerate 10 (Some ''AB1234'')] new_pair_world"
  let ?v = "validate_code 20 ''AB1234'' sample_info (Some sample_bytes) True (pw_pm ?w)"
  let ?d = "sample_info\<lparr>pd_token := hex_enc sample_bytes, pd_token_expires := 20 + token_validity,
      pd_paired_at := 20, pd_last_seen := 20\<rparr>"
  have "snd ?v = Paired (hex_enc sample_bytes) (20 + token_validity) ?d" by code_simp
  then have v: "?v = (fst ?v, Paired (hex_enc sample_bytes) (20 + token_validity) ?d)" by (metis prod.collapse)
  have "\<forall>a \<in> set [PValidate 40 ''AB1234'' sample_info (Some sample_bytes) True]. \<not> generates a" by simp
  from code_single_use [OF v this, where later = 50] show ?thesis by blast
qed

text \<open>
  When the save of a pairing fails, the pairing is reported as failed, yet the device stays in
  the running table with a token that is accepted, and the code stays good for another device.
\<close>

theorem failed_pairing_takes_effect:
  assumes "pm_current pm = Some c" and "pc_used_at c = None" and "now - pc_created_at c < code_expiry"
    and "length bytes = token_length" and "\<forall>d \<in> set (list_devices (pm_store pm)). pd_token d \<noteq> hex_enc bytes"
    and "mget (ds_devices (pm_store pm)) (pd_id info) = None"
  shows "snd (validate_code now (pc_code c) info (Some bytes) False pm) = PairError ''failed to store paired device''
    \<and> validate_token now (pm_store (fst (validate_code now (pc_code c) info (Some bytes) False pm))) (hex_enc bytes)
        = TokenValid (pd_id info) (now + token_validity)
    \<and> pm_current (fst (validate_code now (pc_code c) info (Some bytes) False pm)) = Some c"
proof -
  let ?d = "info\<lparr>pd_token := hex_enc bytes, pd_token_expires := now + token_validity, pd_paired_at := now, pd_last_seen := now\<rparr>"
  have put: "mput k v m = m @ [(k, v)]" if "mget m k = None" for k :: string and v :: paired_device and m
    using that by (induction m) (auto split: if_splits)
  have skip: "find P (xs @ ys) = find P ys" if "\<forall>x \<in> set xs. \<not> P x" for P and xs ys :: "paired_device list"
    using that by (induction xs) auto
  have "find (\<lambda>d. pd_token d = hex_enc bytes) (map snd (ds_devices (pm_store pm)) @ [?d]) = Some ?d"
    using assms(5) by (subst skip) (simp_all add: list_devices_def)
  then have "get_device_by_token (fst (add_device False ?d (pm_store pm))) (hex_enc bytes) = Some ?d"
    using put [OF assms(6)] by (simp add: get_device_by_token_def add_device_def save_devices_def)
  then have "validate_token now (fst (add_device False ?d (pm_store pm))) (hex_enc bytes)
      = TokenValid (pd_id info) (now + token_validity)"
    using generated_token_format [OF assms(4)] by (simp add: validate_token_def token_validity_def)
  then show ?thesis using assms(1-3)
    by (simp add: validate_code_def generate_token_def add_device_def Let_def)
qed

theorem failed_pairing_takes_effect_witness:
  "snd (validate_code 20 ''AB1234'' sample_info (Some sample_bytes) False
     (pw_pm (pair_run [PGenerate 10 (Some ''AB1234'')] new_pair_world))) = PairError ''failed to store paired device''"
  using failed_pairing_takes_effect [where pm = "pw_pm (pair_run [PGenerate 10 (Some ''AB1234'')] new_pair_world)"
      and c = "fresh_code ''AB1234'' 10" and now = 20 and bytes = sample_bytes and info = sample_info]
  by code_simp

end
