(* ===== verification/RegexRuns.thy ===== *)
theory RegexRuns
  imports GoRegexp
begin

text \<open>
  Regular expressions with alternation, lazy repetition, line anchors, word boundaries and a capture group, as the
  parser of threat definitions uses them. The runs of an expression are listed in the order in which
  Go's leftmost-first matching prefers them; the first run of the leftmost start is the match.
\<close>

section \<open>Runs\<close>

datatype rx =
    RChar char_class
  | RNewlineToo
  | RNone char_class
  | REmpty
  | RSeq rx rx
  | RAlt rx rx
  | RStar bool rx
  | RGroup rx
  | RLineStart
  | RLineEnd
  | RBound

text \<open>The byte before, the rest of the text, and what the group captured.\<close>

type_synonym rx_state = "char option \<times> string \<times> string option"

definition line_start :: "char option \<Rightarrow> bool" where
  "line_start prev \<longleftrightarrow> prev = None \<or> prev = Some newline"

definition line_end :: "string \<Rightarrow> bool" where
  "line_end s \<longleftrightarrow> s = [] \<or> hd s = newline"

definition eat :: "(char \<Rightarrow> bool) \<Rightarrow> rx_state \<Rightarrow> rx_state list" where
  "eat p st =
     (case st of (prev, s, cap) \<Rightarrow>
        (case s of [] \<Rightarrow> [] | x # xs \<Rightarrow> if p x then [(Some x, xs, cap)] else []))"

text \<open>Repetitions that consume; a greedy one prefers to go on, a lazy one to stop.\<close>

fun repeat_runs :: "(rx_state \<Rightarrow> rx_state list) \<Rightarrow> bool \<Rightarrow> nat \<Rightarrow> rx_state \<Rightarrow> rx_state list" where
  "repeat_runs f greedy 0 st = [st]"
| "repeat_runs f greedy (Suc n) st =
     (let more = List.concat (map (\<lambda>st'. if length (fst (snd st')) < length (fst (snd st)) then repeat_runs f greedy n st' else [])
            (f st))
      in if greedy then more @ [st] else st # more)"

fun runs :: "rx \<Rightarrow> rx_state \<Rightarrow> rx_state list" where
  "runs (RChar c) st = eat (class_matches c) st"
| "runs RNewlineToo st = eat (\<lambda>x. True) st"
| "runs (RNone c) st = eat (\<lambda>x. \<not> class_matches c x) st"
| "runs REmpty st = [st]"
| "runs (RSeq a b) st = List.concat (map (runs b) (runs a st))"
| "runs (RAlt a b) st = runs a st @ runs b st"
| "runs (RStar greedy a) st = repeat_runs (runs a) greedy (length (fst (snd st))) st"
| "runs (RGroup a) st =
     map (\<lambda>st'. (fst st', fst (snd st'), Some (take (length (fst (snd st)) - length (fst (snd st'))) (fst (snd st))))) (runs a st)"
| "runs RLineStart st = (if line_start (fst st) then [st] else [])"
| "runs RLineEnd st = (if line_end (fst (snd st)) then [st] else [])"
| "runs RBound st = (if at_boundary (fst st) (fst (snd st)) then [st] else [])"

abbreviation rplus :: "bool \<Rightarrow> rx \<Rightarrow> rx" where
  "rplus greedy a \<equiv> RSeq a (RStar greedy a)"

abbreviation ropt :: "rx \<Rightarrow> rx" where
  "ropt a \<equiv> RAlt a REmpty"

fun rlits :: "string \<Rightarrow> rx" where
  "rlits [] = REmpty"
| "rlits (c # cs) = RSeq (RChar (Lit c)) (rlits cs)"

section \<open>Searching\<close>

record rx_match =
  rm_before :: string
  rm_text :: string
  rm_group :: "string option"
  rm_rest :: string

definition match_at :: "rx \<Rightarrow> char option \<Rightarrow> string \<Rightarrow> rx_match option" where
  "match_at r prev s =
     (case runs r (prev, s, None) of
        [] \<Rightarrow> None
      | (p, rest, cap) # _ \<Rightarrow>
          Some \<lparr>rm_before = [], rm_text = take (length s - length rest) s, rm_group = cap, rm_rest = rest\<rparr>)"

fun find_rx :: "rx \<Rightarrow> char option \<Rightarrow> string \<Rightarrow> rx_match option" where
  "find_rx r prev [] = match_at r prev []"
| "find_rx r prev (x # xs) =
     (case match_at r prev (x # xs) of
        Some m \<Rightarrow> Some m
      | None \<Rightarrow> map_option (\<lambda>m. m\<lparr>rm_before := x # rm_before m\<rparr>) (find_rx r (Some x) xs))"

text \<open>\<open>FindStringSubmatch\<close>: the text of the group of the leftmost match.\<close>

definition find_group :: "rx \<Rightarrow> string \<Rightarrow> string option" where
  "find_group r s = (case find_rx r None s of None \<Rightarrow> None | Some m \<Rightarrow> rm_group m)"

text \<open>All matches from the left, for an expression that does not match the empty text.\<close>

function find_all_rx :: "rx \<Rightarrow> char option \<Rightarrow> string \<Rightarrow> rx_match list" where
  "find_all_rx r prev s =
     (case find_rx r prev s of
        None \<Rightarrow> []
      | Some m \<Rightarrow>
          if length (rm_rest m) < length s
          then m # find_all_rx r (if rm_text m = [] then prev else Some (last (rm_text m))) (rm_rest m)
          else [])"
  by pat_completeness auto
termination by (relation "measure (\<lambda>(r, prev, s). length s)") auto

declare find_all_rx.simps [simp del]

text \<open>\<open>Split(s, -1)\<close>: the texts between the matches and the text behind the last one.\<close>

definition split_rx :: "rx \<Rightarrow> string \<Rightarrow> string list" where
  "split_rx r s =
     (let ms = find_all_rx r None s in
      map rm_before ms @ [if ms = [] then s else rm_rest (last ms)])"

section \<open>Runs consume a prefix\<close>

lemma eat_suffix: "st' \<in> set (eat p st) \<Longrightarrow> suffix (fst (snd st')) (fst (snd st))"
  by (auto simp: eat_def suffix_ConsI split: list.splits if_splits)

lemma repeat_suffix:
  "(\<And>st st'. st' \<in> set (f st) \<Longrightarrow> suffix (fst (snd st')) (fst (snd st))) \<Longrightarrow>
     st' \<in> set (repeat_runs f greedy n st) \<Longrightarrow> suffix (fst (snd st')) (fst (snd st))"
proof (induction n arbitrary: st)
  case (Suc n)
  from Suc.prems(2) have "st' = st \<or> (\<exists>u \<in> set (f st). st' \<in> set (repeat_runs f greedy n u))"
    by (auto simp: Let_def split: if_splits)
  then show ?case
  proof
    assume "\<exists>u \<in> set (f st). st' \<in> set (repeat_runs f greedy n u)"
    then obtain u where "u \<in> set (f st)" "st' \<in> set (repeat_runs f greedy n u)" by blast
    with Suc.IH [OF Suc.prems(1)] Suc.prems(1) [of u st] show ?thesis by (meson suffix_order.trans)
  qed simp
qed simp

lemma runs_suffix: "st' \<in> set (runs r st) \<Longrightarrow> suffix (fst (snd st')) (fst (snd st))"
proof (induction r arbitrary: st st')
  case (RSeq a b)
  then obtain u where "u \<in> set (runs a st)" "st' \<in> set (runs b u)" by auto
  with RSeq.IH show ?case by (meson suffix_order.trans)
next
  case (RStar greedy a)
  then show ?case using repeat_suffix [of "runs a" st' greedy "length (fst (snd st))" st] by simp
qed (auto simp: eat_suffix split: if_splits)

lemma match_at_parts: "match_at r prev s = Some m \<Longrightarrow> rm_before m = [] \<and> s = rm_text m @ rm_rest m"
proof -
  assume a: "match_at r prev s = Some m"
  then obtain p rest cap sts where run: "runs r (prev, s, None) = (p, rest, cap) # sts"
    and m: "m = \<lparr>rm_before = [], rm_text = take (length s - length rest) s, rm_group = cap, rm_rest = rest\<rparr>"
    by (auto simp: match_at_def split: list.splits)
  from runs_suffix [of "(p, rest, cap)" r "(prev, s, None)"] run have "suffix rest s" by simp
  then obtain u where "s = u @ rest" by (auto simp: suffix_def)
  with m show ?thesis by simp
qed

lemma find_rx_parts: "find_rx r prev s = Some m \<Longrightarrow> s = rm_before m @ rm_text m @ rm_rest m"
proof (induction r prev s arbitrary: m rule: find_rx.induct)
  case (1 r prev)
  then show ?case using match_at_parts by fastforce
next
  case (2 r prev x xs)
  then show ?case using match_at_parts [of r prev "x # xs"] by (auto split: option.splits)
qed

end
