(* ===== verification/Shield.thy ===== *)
theory Shield
  imports Complex_Main RegexRuns Zones
begin

text \<open>
  The threat filter (\<open>pkg/shield/types.go\<close>, \<open>parser.go\<close>, \<open>matcher.go\<close>, \<open>engine.go\<close>): threats are read
  from a Markdown file, an event is matched against their conditions, and the strongest action of
  the matching threats decides. Text is ASCII where case matters. A confidence is the exact value of
  a double; reading numbers and times is a parameter. The arguments of a tool call are met in the
  order of the list, each value as the text \<open>%v\<close> prints.
\<close>

section \<open>Types\<close>

datatype shield_action = ActionBlock | ActionRequireApproval | ActionLog | ActionOther string

datatype threat_severity = SeverityCritical | SeverityHigh | SeverityMedium | SeverityLow | SeverityOther string

datatype threat_category =
    CategoryTool | CategorySkill | CategoryMemory | CategoryNetwork | CategoryMessage | CategoryFile
  | CategoryPrompt | CategoryOther | CategoryUnknown string

datatype shield_scope =
    ScopeToolCall | ScopeSkillInstall | ScopeSkillExecute | ScopeNetworkEgress | ScopeSecretsRead
  | ScopePrompt | ScopeFile | ScopeUnknown string

record threat_entry =
  th_id :: string
  th_fingerprint :: string
  th_category :: threat_category
  th_severity :: threat_severity
  th_confidence :: rat
  th_action :: shield_action
  th_title :: string
  th_description :: string
  th_recommendation :: string
  th_expires_at :: "int option"
  th_revoked :: bool
  th_revoked_at :: "int option"

datatype tool_arg = ArgString string | ArgOther string

record shield_event =
  ev_scope :: shield_scope
  ev_tool_name :: string
  ev_tool_args :: "(string \<times> tool_arg) list"
  ev_domain :: string
  ev_secret_path :: string
  ev_skill_name :: string
  ev_input_text :: string
  ev_file_path :: string
  ev_url :: string

record shield_decision =
  sd_action :: shield_action
  sd_scope :: shield_scope
  sd_threat_id :: string
  sd_fingerprint :: string
  sd_matched_on :: string
  sd_match_value :: string
  sd_reason :: string

record directive =
  di_action :: shield_action
  di_condition :: string

record match_result =
  mr_threat :: threat_entry
  mr_directive :: directive
  mr_matched_on :: string
  mr_match_value :: string

fun valid_category :: "threat_category \<Rightarrow> bool" where
  "valid_category (CategoryUnknown _) = False"
| "valid_category _ = True"

fun valid_severity :: "threat_severity \<Rightarrow> bool" where
  "valid_severity (SeverityOther _) = False"
| "valid_severity _ = True"

fun valid_action :: "shield_action \<Rightarrow> bool" where
  "valid_action (ActionOther _) = False"
| "valid_action _ = True"

definition action_of :: "string \<Rightarrow> shield_action" where
  "action_of s =
     (if s = ''block'' then ActionBlock else if s = ''require_approval'' then ActionRequireApproval
      else if s = ''log'' then ActionLog else ActionOther s)"

definition severity_of :: "string \<Rightarrow> threat_severity" where
  "severity_of s =
     (if s = ''critical'' then SeverityCritical else if s = ''high'' then SeverityHigh
      else if s = ''medium'' then SeverityMedium else if s = ''low'' then SeverityLow else SeverityOther s)"

definition category_of :: "string \<Rightarrow> threat_category" where
  "category_of s =
     (case map_of [(''tool'', CategoryTool), (''skill'', CategorySkill), (''memory'', CategoryMemory),
         (''network'', CategoryNetwork), (''message'', CategoryMessage), (''file'', CategoryFile),
         (''prompt'', CategoryPrompt), (''other'', CategoryOther)] s of
        Some c \<Rightarrow> c
      | None \<Rightarrow> CategoryUnknown s)"

section \<open>Parser\<close>

text \<open>What \<open>ParseFloat\<close> and \<open>time.Parse\<close> answer, \<open>None\<close> for an error.\<close>

record parse_env =
  pe_float :: "string \<Rightarrow> rat option"
  pe_time :: "string \<Rightarrow> int option"

definition yaml_block_rx :: rx where
  "yaml_block_rx = RSeq (rlits ''```'') (RSeq (ropt (RAlt (rlits ''yaml'') (rlits ''yml'')))
     (RSeq (RChar (Lit newline)) (RSeq (RGroup (RStar False RNewlineToo)) (rlits ''```''))))"

definition extract_yaml_blocks :: "string \<Rightarrow> string list" where
  "extract_yaml_blocks content =
     map (\<lambda>m. case rm_group m of Some g \<Rightarrow> trim_space g | None \<Rightarrow> []) (find_all_rx yaml_block_rx None content)"

definition quote_class :: char_class where
  "quote_class = OneOf [CHR 0x22, CHR 0x27]"

definition field_rx :: "string \<Rightarrow> rx" where
  "field_rx field = RSeq RLineStart (RSeq (rlits (field @ '':'')) (RSeq (RStar True (RChar White))
     (RSeq (ropt (RChar quote_class)) (RSeq (RGroup (rplus False (RChar AnyChar)))
     (RSeq (ropt (RChar quote_class)) (RSeq (RStar True (RChar White)) RLineEnd))))))"

definition extract_field :: "string \<Rightarrow> string \<Rightarrow> string" where
  "extract_field block field = (case find_group (field_rx field) block of None \<Rightarrow> [] | Some g \<Rightarrow> trim_space g)"

definition multiline_rx :: "string \<Rightarrow> rx" where
  "multiline_rx field = RSeq RLineStart (RSeq (rlits (field @ '':'')) (RSeq (RStar True (RChar White))
     (RSeq (RChar (OneOf ''|>'')) (RSeq (RStar True (RChar White)) (RSeq (RChar (Lit newline))
     (RGroup (rplus True (RSeq (rlits ''  '') (RSeq (rplus True RNewlineToo) (ropt (RChar (Lit newline)))))))))))) "

definition unindent :: "string \<Rightarrow> string" where
  "unindent line =
     (if prefix ''  '' line then drop 2 line else if trim_space line \<noteq> [] then line else [])
     @ (if trim_space line \<noteq> [] then [newline] else [])"

definition extract_multiline_field :: "string \<Rightarrow> string \<Rightarrow> string" where
  "extract_multiline_field block field =
     (case find_group (multiline_rx field) block of
        None \<Rightarrow> []
      | Some g \<Rightarrow> trim_space (List.concat (map unindent (split_on newline g))))"

definition optional_time :: "parse_env \<Rightarrow> string \<Rightarrow> int option" where
  "optional_time env s = (if s = [] then None else pe_time env s)"

definition parse_threat_block :: "parse_env \<Rightarrow> string \<Rightarrow> threat_entry" where
  "parse_threat_block env block =
     \<lparr>th_id = extract_field block ''id'', th_fingerprint = extract_field block ''fingerprint'',
      th_category = category_of (extract_field block ''category''),
      th_severity = severity_of (extract_field block ''severity''),
      th_confidence =
        (let s = extract_field block ''confidence'' in
         if s = [] then 0 else (case pe_float env s of None \<Rightarrow> 0 | Some c \<Rightarrow> c)),
      th_action = action_of (extract_field block ''action''),
      th_title = extract_field block ''title'', th_description = extract_field block ''description'',
      th_recommendation = extract_multiline_field block ''recommendation_agent'',
      th_expires_at = optional_time env (extract_field block ''expires_at''),
      th_revoked = (to_lower (extract_field block ''revoked'') = ''true''),
      th_revoked_at = optional_time env (extract_field block ''revoked_at'')\<rparr>"

definition is_valid_threat :: "threat_entry \<Rightarrow> bool" where
  "is_valid_threat t =
     (if th_id t = [] then False
      else if \<not> valid_category (th_category t) then False
      else if \<not> valid_severity (th_severity t) then False
      else if \<not> valid_action (th_action t) then False
      else if th_confidence t < 0 \<or> th_confidence t > 1 then False
      else th_title t \<noteq> [])"

definition is_expired_or_revoked :: "int \<Rightarrow> threat_entry \<Rightarrow> bool" where
  "is_expired_or_revoked now t =
     (th_revoked t \<or> (case th_expires_at t of None \<Rightarrow> False | Some e \<Rightarrow> now > e))"

definition parse_threats :: "parse_env \<Rightarrow> int \<Rightarrow> string \<Rightarrow> threat_entry list" where
  "parse_threats env now content =
     (if content = [] then []
      else filter (\<lambda>t. is_valid_threat t \<and> \<not> is_expired_or_revoked now t)
        (map (parse_threat_block env)
          (filter (\<lambda>b. str_contains b ''id:'' \<and> str_contains b ''THREAT-'') (extract_yaml_blocks content))))"

definition parse_directive :: "string \<Rightarrow> directive option" where
  "parse_directive line0 =
     (let line = trim_space line0; upper = to_upper line;
          found = (\<lambda>a c. if c \<noteq> [] then Some \<lparr>di_action = a, di_condition = c\<rparr> else None)
      in if line = [] then None
         else if prefix ''BLOCK:'' upper then found ActionBlock (trim_space (drop 6 line))
         else if prefix ''APPROVE:'' upper then found ActionRequireApproval (trim_space (drop 8 line))
         else if prefix ''LOG:'' upper then found ActionLog (trim_space (drop 4 line))
         else None)"

definition parse_directives :: "string \<Rightarrow> directive list" where
  "parse_directives recommendation = List.map_filter parse_directive (split_on newline recommendation)"

section \<open>Matcher\<close>

type_synonym match_info = "(string \<times> string) option"

definition match_tool_call :: "string \<Rightarrow> shield_event \<Rightarrow> match_info" where
  "match_tool_call pattern ev =
     (if ev_tool_name ev = [] then None
      else if to_lower (ev_tool_name ev) = to_lower pattern \<or> str_contains (to_lower (ev_tool_name ev)) (to_lower pattern)
      then Some (''tool_name'', ev_tool_name ev) else None)"

definition paren_rx :: rx where
  "paren_rx = RSeq (RChar (Lit CHR ''('')) (RSeq (RGroup (rplus True (RNone (Lit CHR '')'')))) (RChar (Lit CHR '')'')))"

definition extract_patterns :: "string \<Rightarrow> string list" where
  "extract_patterns s =
     (case find_group paren_rx s of
        None \<Rightarrow> if s \<noteq> [] then [s] else []
      | Some g \<Rightarrow> filter (\<lambda>p. p \<noteq> []) (map trim_space (split_on (CHR '','') g)))"

fun arg_text :: "tool_arg \<Rightarrow> string" where
  "arg_text (ArgString s) = s"
| "arg_text (ArgOther s) = s"

definition args_to_string :: "(string \<times> tool_arg) list \<Rightarrow> string" where
  "args_to_string args = List.concat (map (\<lambda>(k, v). k @ ''='' @ arg_text v @ '' '') args)"

definition match_tool_args :: "string \<Rightarrow> shield_event \<Rightarrow> match_info" where
  "match_tool_args patterns ev =
     (if ev_tool_args ev = [] then None
      else map_option (\<lambda>p. (''tool_args'', p))
        (find (\<lambda>p. str_contains (to_lower (args_to_string (ev_tool_args ev))) (to_lower p)) (extract_patterns patterns)))"

definition match_skill_equals :: "string \<Rightarrow> shield_event \<Rightarrow> match_info" where
  "match_skill_equals value ev =
     (if ev_skill_name ev = [] then None
      else if equal_fold (ev_skill_name ev) value then Some (''skill_name'', ev_skill_name ev) else None)"

definition match_skill_contains :: "string \<Rightarrow> shield_event \<Rightarrow> match_info" where
  "match_skill_contains value ev =
     (if ev_skill_name ev = [] then None
      else if str_contains (to_lower (ev_skill_name ev)) (to_lower value) then Some (''skill_name'', value) else None)"

text \<open>\<open>(?i)\s+or\s+\<close>.\<close>

definition or_rx :: rx where
  "or_rx = RSeq (rplus True (RChar White)) (RSeq (RChar (OneOf ''oO'')) (RSeq (RChar (OneOf ''rR'')) (rplus True (RChar White))))"

definition split_by_or :: "string \<Rightarrow> string list" where
  "split_by_or s = filter (\<lambda>p. p \<noteq> []) (map trim_space (split_rx or_rx s))"

definition match_outbound :: "string \<Rightarrow> shield_event \<Rightarrow> match_info" where
  "match_outbound pattern ev =
     (if ev_domain ev = [] then None
      else map_option (\<lambda>p. (''domain'', p))
        (find (\<lambda>p. str_contains (to_lower (ev_domain ev)) (to_lower p)) (map trim_space (split_by_or pattern))))"

definition file_path_from_args :: "(string \<times> tool_arg) list \<Rightarrow> string" where
  "file_path_from_args args =
     (case List.map_filter (\<lambda>k. case map_of args k of Some (ArgString s) \<Rightarrow> if s \<noteq> [] then Some s else None | _ \<Rightarrow> None)
         [''path'', ''file_path'', ''filepath'', ''file'', ''filename'', ''target'', ''destination''] of
        [] \<Rightarrow> []
      | s # _ \<Rightarrow> s)"

definition match_file_equals :: "string \<Rightarrow> shield_event \<Rightarrow> match_info" where
  "match_file_equals path ev =
     (if ev_file_path ev = [] then None
      else if equal_fold (ev_file_path ev) path then Some (''file_path'', ev_file_path ev) else None)"

definition match_file_contains :: "string \<Rightarrow> shield_event \<Rightarrow> match_info" where
  "match_file_contains path ev =
     (if ev_file_path ev \<noteq> [] \<and> str_contains (to_lower (ev_file_path ev)) (to_lower path) then Some (''file_path'', path)
      else
        (let f = file_path_from_args (ev_tool_args ev) in
         if f \<noteq> [] \<and> str_contains (to_lower f) (to_lower path) then Some (''file_path'', path) else None))"

text \<open>The wildcard expression: a star stands for any text within a line.\<close>

fun glob :: "string \<Rightarrow> string \<Rightarrow> bool" where
  "glob [] s = (s = [])"
| "glob (p # ps) [] = (p = CHR ''*'' \<and> glob ps [])"
| "glob (p # ps) (c # cs) =
     (if p = CHR ''*'' then glob ps (c # cs) \<or> (c \<noteq> newline \<and> glob (p # ps) cs) else p = c \<and> glob ps cs)"

definition match_secret_equals :: "string \<Rightarrow> shield_event \<Rightarrow> match_info" where
  "match_secret_equals path ev =
     (if ev_secret_path ev = [] then None
      else if CHR ''*'' \<in> set path then (if glob path (ev_secret_path ev) then Some (''secret_path'', ev_secret_path ev) else None)
      else if equal_fold (ev_secret_path ev) path then Some (''secret_path'', ev_secret_path ev) else None)"

definition match_message_contains :: "string \<Rightarrow> shield_event \<Rightarrow> match_info" where
  "match_message_contains t ev =
     (if ev_input_text ev = [] then None
      else if str_contains (to_lower (ev_input_text ev)) (to_lower t) then Some (''input_text'', t) else None)"

text \<open>The second component is the position at which the source cuts the condition.\<close>

definition condition_table :: "(string \<times> nat \<times> (string \<Rightarrow> shield_event \<Rightarrow> match_info)) list" where
  "condition_table =
     [(''tool.call with arguments containing '', 36, match_tool_args),
      (''tool.call '', 10, match_tool_call),
      (''skill name equals '', 18, match_skill_equals),
      (''skill name contains '', 20, match_skill_contains),
      (''outbound request to '', 20, match_outbound),
      (''file path equals '', 17, match_file_equals),
      (''file path contains '', 20, match_file_contains),
      (''secrets read path equals '', 25, match_secret_equals),
      (''incoming message contains '', 26, match_message_contains),
      (''message contains '', 17, match_message_contains)]"

definition evaluate_condition :: "string \<Rightarrow> shield_event \<Rightarrow> match_info" where
  "evaluate_condition condition0 ev =
     (let condition = trim_space condition0 in
      if condition = [] then None
      else
        (case find (\<lambda>(p, n, f). prefix p (to_lower condition)) condition_table of
           None \<Rightarrow> None
         | Some (p, n, f) \<Rightarrow> f (trim_space (drop n condition)) ev))"

fun scope_categories :: "shield_scope \<Rightarrow> threat_category list" where
  "scope_categories ScopeToolCall = [CategoryTool, CategoryPrompt, CategoryMemory, CategoryFile]"
| "scope_categories ScopeSkillInstall = [CategorySkill]"
| "scope_categories ScopeSkillExecute = [CategorySkill, CategoryTool]"
| "scope_categories ScopeNetworkEgress = [CategoryNetwork]"
| "scope_categories ScopeSecretsRead = [CategoryTool, CategoryFile, CategoryOther]"
| "scope_categories ScopePrompt = [CategoryPrompt, CategoryMessage]"
| "scope_categories _ = []"

definition is_scope_compatible :: "shield_scope \<Rightarrow> threat_category \<Rightarrow> bool" where
  "is_scope_compatible scope cat \<longleftrightarrow> cat \<in> set (scope_categories scope)"

definition match_threat :: "shield_event \<Rightarrow> threat_entry \<Rightarrow> match_result list" where
  "match_threat ev t =
     (if \<not> is_scope_compatible (ev_scope ev) (th_category t) then []
      else List.map_filter
        (\<lambda>d. map_option (\<lambda>(on, v). \<lparr>mr_threat = t, mr_directive = d, mr_matched_on = on, mr_match_value = v\<rparr>)
            (evaluate_condition (di_condition d) ev))
        (parse_directives (th_recommendation t)))"

definition match_event :: "shield_event \<Rightarrow> threat_entry list \<Rightarrow> match_result list" where
  "match_event ev threats = List.concat (map (match_threat ev) threats)"

section \<open>Engine\<close>

record shield_engine =
  se_threats :: "threat_entry list"

text \<open>The double nearest to 0.85.\<close>

definition confidence_threshold :: rat where
  "confidence_threshold = 7656119366529843 / 9007199254740992"

fun action_priority :: "shield_action \<Rightarrow> nat" where
  "action_priority ActionLog = 0"
| "action_priority ActionRequireApproval = 1"
| "action_priority ActionBlock = 2"
| "action_priority (ActionOther _) = 0"

definition apply_confidence_threshold :: "threat_entry \<Rightarrow> shield_action" where
  "apply_confidence_threshold t =
     (if th_confidence t \<ge> confidence_threshold then th_action t
      else if th_severity t = SeverityCritical \<and> th_action t = ActionBlock then ActionBlock
      else if th_action t = ActionLog then ActionLog
      else ActionRequireApproval)"

definition build_reason :: "match_result \<Rightarrow> shield_action \<Rightarrow> string" where
  "build_reason m action =
     (let verb = (case action of ActionBlock \<Rightarrow> ''Blocked'' | ActionRequireApproval \<Rightarrow> ''Requires approval for''
            | ActionLog \<Rightarrow> ''Logged'' | ActionOther _ \<Rightarrow> '''')
      in verb @ '' by threat '' @ th_id (mr_threat m) @ '' ('' @ th_title (mr_threat m) @ ''): matched ''
         @ mr_matched_on m @ ''='' @ mr_match_value m)"

text \<open>The loop of \<open>Evaluate\<close>: the strongest action so far and its match.\<close>

fun strongest :: "match_result list \<Rightarrow> shield_action \<times> match_result option \<Rightarrow> shield_action \<times> match_result option" where
  "strongest [] acc = acc"
| "strongest (m # ms) (action, best) =
     (let a = apply_confidence_threshold (mr_threat m) in
      if action_priority a > action_priority action then strongest ms (a, Some m) else strongest ms (action, best))"

definition plain_decision :: "shield_action \<Rightarrow> shield_event \<Rightarrow> string \<Rightarrow> shield_decision" where
  "plain_decision action ev reason =
     \<lparr>sd_action = action, sd_scope = ev_scope ev, sd_threat_id = [], sd_fingerprint = [], sd_matched_on = [],
      sd_match_value = [], sd_reason = reason\<rparr>"

definition shield_evaluate :: "shield_engine \<Rightarrow> shield_event \<Rightarrow> shield_decision" where
  "shield_evaluate e ev =
     (if se_threats e = [] then plain_decision ActionLog ev ''no threats loaded''
      else
        (let matches = match_event ev (se_threats e) in
         if matches = [] then plain_decision ActionLog ev ''no threat matched''
         else
           (case strongest matches (ActionLog, None) of
              (action, Some m) \<Rightarrow>
                \<lparr>sd_action = action, sd_scope = ev_scope ev, sd_threat_id = th_id (mr_threat m),
                 sd_fingerprint = th_fingerprint (mr_threat m), sd_matched_on = mr_matched_on m,
                 sd_match_value = mr_match_value m, sd_reason = build_reason m action\<rparr>
            | (action, None) \<Rightarrow> plain_decision action ev ''threat detected'')))"

definition new_shield_engine :: "parse_env \<Rightarrow> int \<Rightarrow> string \<Rightarrow> shield_engine" where
  "new_shield_engine env now content = \<lparr>se_threats = parse_threats env now content\<rparr>"

text \<open>\<open>None\<close>: the file cannot be read.\<close>

definition new_engine_from_file_or_default ::
    "parse_env \<Rightarrow> int \<Rightarrow> string \<Rightarrow> string option \<Rightarrow> shield_engine" where
  "new_engine_from_file_or_default env now defaults file =
     (case file of None \<Rightarrow> new_shield_engine env now defaults | Some content \<Rightarrow> new_shield_engine env now content)"

definition shield_is_active :: "shield_engine \<Rightarrow> bool" where
  "shield_is_active e \<longleftrightarrow> length (se_threats e) > 0"

definition shield_reload :: "parse_env \<Rightarrow> int \<Rightarrow> string \<Rightarrow> shield_engine \<Rightarrow> shield_engine" where
  "shield_reload env now content e = e\<lparr>se_threats := parse_threats env now content\<rparr>"

definition reload_from_file :: "parse_env \<Rightarrow> int \<Rightarrow> string option \<Rightarrow> shield_engine \<Rightarrow> shield_engine \<times> bool" where
  "reload_from_file env now file e =
     (case file of None \<Rightarrow> (e, True) | Some content \<Rightarrow> (shield_reload env now content e, False))"

definition add_threat :: "threat_entry \<Rightarrow> shield_engine \<Rightarrow> shield_engine" where
  "add_threat t e = e\<lparr>se_threats := se_threats e @ [t]\<rparr>"

fun remove_first_threat :: "string \<Rightarrow> threat_entry list \<Rightarrow> threat_entry list \<times> bool" where
  "remove_first_threat i [] = ([], False)"
| "remove_first_threat i (t # ts) =
     (if th_id t = i then (ts, True) else (let (us, b) = remove_first_threat i ts in (t # us, b)))"

definition remove_threat :: "string \<Rightarrow> shield_engine \<Rightarrow> shield_engine \<times> bool" where
  "remove_threat i e = (let (ts, b) = remove_first_threat i (se_threats e) in (e\<lparr>se_threats := ts\<rparr>, b))"

text \<open>\<open>%q\<close> of a resource name without quotes, backslashes and control characters.\<close>

definition evaluate_zone_access :: "zone \<Rightarrow> relationship \<Rightarrow> access_level \<Rightarrow> string \<Rightarrow> shield_decision" where
  "evaluate_zone_access z rel acc resource =
     (let allowed = zone_allow z rel acc;
          text = relationship_string rel @ '' '' @ access_string acc @ '' to '' @ zone_string z @ '' zone resource '' @
            CHR 0x22 # resource @ [CHR 0x22]
      in \<lparr>sd_action = (if allowed then ActionLog else ActionBlock), sd_scope = ScopeFile, sd_threat_id = [],
          sd_fingerprint = [], sd_matched_on = ''zone:'' @ zone_string z, sd_match_value = resource,
          sd_reason = (if allowed then ''access allowed: '' else ''access denied: '') @ text\<rparr>)"

section \<open>The decision\<close>

definition threat_matches :: "shield_event \<Rightarrow> threat_entry \<Rightarrow> bool" where
  "threat_matches ev t \<longleftrightarrow> match_threat ev t \<noteq> []"

definition enforced :: "threat_entry \<Rightarrow> bool" where
  "enforced t \<longleftrightarrow> th_confidence t \<ge> confidence_threshold"

lemma match_threat_threat: "m \<in> set (match_threat ev t) \<Longrightarrow> mr_threat m = t"
  by (auto simp: match_threat_def List.map_filter_def split: if_splits)

lemma match_event_threats: "(\<exists>m \<in> set (match_event ev ts). P (mr_threat m)) \<longleftrightarrow> (\<exists>t \<in> set ts. threat_matches ev t \<and> P t)"
proof -
  have "(\<exists>m \<in> set (match_threat ev t). P (mr_threat m)) \<longleftrightarrow> threat_matches ev t \<and> P t" for t
    using match_threat_threat [of _ ev t] unfolding threat_matches_def
    by (metis list.set_sel(1) empty_iff empty_set)
  then show ?thesis by (simp add: match_event_def)
qed

lemma strongest_action:
  "a \<in> {ActionLog, ActionRequireApproval, ActionBlock} \<Longrightarrow>
     fst (strongest ms (a, best)) =
       (if a = ActionBlock \<or> (\<exists>m \<in> set ms. apply_confidence_threshold (mr_threat m) = ActionBlock) then ActionBlock
        else if a = ActionRequireApproval \<or> (\<exists>m \<in> set ms. apply_confidence_threshold (mr_threat m) = ActionRequireApproval)
        then ActionRequireApproval else ActionLog)"
proof (induction ms arbitrary: a best)
  case (Cons m ms)
  then show ?case
    by (cases "apply_confidence_threshold (mr_threat m)") (auto simp: Let_def)
qed auto

lemma strongest_match:
  "strongest ms (a, best) = (a', Some m) \<Longrightarrow>
     (m \<in> set ms \<and> apply_confidence_threshold (mr_threat m) = a') \<or> (best = Some m \<and> a' = a)"
  by (induction ms arbitrary: a best) (auto simp: Let_def split: if_splits)

lemma apply_threshold_block:
  "apply_confidence_threshold t = ActionBlock \<longleftrightarrow> th_action t = ActionBlock \<and> (enforced t \<or> th_severity t = SeverityCritical)"
  by (auto simp: apply_confidence_threshold_def enforced_def)

lemma apply_threshold_approval:
  "apply_confidence_threshold t = ActionRequireApproval \<longleftrightarrow>
     (if enforced t then th_action t = ActionRequireApproval
      else th_action t \<noteq> ActionLog \<and> \<not> (th_action t = ActionBlock \<and> th_severity t = SeverityCritical))"
  by (auto simp: apply_confidence_threshold_def enforced_def)

lemma evaluate_action: "sd_action (shield_evaluate e ev) = fst (strongest (match_event ev (se_threats e)) (ActionLog, None))"
proof (cases "match_event ev (se_threats e) = []")
  case True
  then show ?thesis by (simp add: shield_evaluate_def plain_decision_def)
next
  case False
  then have "se_threats e \<noteq> []" by (auto simp: match_event_def)
  with False show ?thesis
    by (cases "strongest (match_event ev (se_threats e)) (ActionLog, None)")
      (auto simp: shield_evaluate_def plain_decision_def Let_def split: option.split)
qed

lemma shield_decision_char:
  "sd_action (shield_evaluate e ev) =
     (if \<exists>t \<in> set (se_threats e). threat_matches ev t \<and> th_action t = ActionBlock
           \<and> (enforced t \<or> th_severity t = SeverityCritical)
      then ActionBlock
      else if \<exists>t \<in> set (se_threats e). threat_matches ev t
           \<and> (if enforced t then th_action t = ActionRequireApproval else th_action t \<noteq> ActionLog)
      then ActionRequireApproval
      else ActionLog)"
proof -
  let ?ms = "match_event ev (se_threats e)"
  have b: "(\<exists>m \<in> set ?ms. apply_confidence_threshold (mr_threat m) = ActionBlock) \<longleftrightarrow>
      (\<exists>t \<in> set (se_threats e). threat_matches ev t \<and> th_action t = ActionBlock \<and> (enforced t \<or> th_severity t = SeverityCritical))"
    using match_event_threats [where P = "\<lambda>t. apply_confidence_threshold t = ActionBlock"]
    by (simp only: apply_threshold_block)
  have r: "(\<exists>m \<in> set ?ms. apply_confidence_threshold (mr_threat m) = ActionRequireApproval) \<longleftrightarrow>
      (\<exists>t \<in> set (se_threats e). threat_matches ev t \<and> apply_confidence_threshold t = ActionRequireApproval)"
    using match_event_threats [where P = "\<lambda>t. apply_confidence_threshold t = ActionRequireApproval"] .
  show ?thesis unfolding evaluate_action strongest_action [of ActionLog, simplified] b r
    by (auto simp: apply_threshold_approval)
qed

text \<open>
  C27: The decision of the engine is determined by the set of matching threats: it blocks exactly when
  a matching threat says so with enough confidence or as a critical one, asks for approval exactly
  when it does not block and some matching threat asks for it or is too uncertain to be enforced, and
  otherwise lets the action pass.
\<close>

theorem shield_decision_exact:
  "sd_action (shield_evaluate e ev) =
     (if \<exists>t \<in> set (se_threats e). match_threat ev t \<noteq> [] \<and> th_action t = ActionBlock
           \<and> (th_confidence t \<ge> confidence_threshold \<or> th_severity t = SeverityCritical)
      then ActionBlock
      else if \<exists>t \<in> set (se_threats e). match_threat ev t \<noteq> []
           \<and> (if th_confidence t \<ge> confidence_threshold then th_action t = ActionRequireApproval else th_action t \<noteq> ActionLog)
      then ActionRequireApproval
      else ActionLog)"
  by (rule shield_decision_char [unfolded threat_matches_def enforced_def])

text \<open>
  More threats never weaken a decision: an engine whose threats include those of another one
  decides every event at least as strictly.
\<close>

theorem shield_monotone:
  assumes "set (se_threats e) \<subseteq> set (se_threats e')"
  shows "action_priority (sd_action (shield_evaluate e ev)) \<le> action_priority (sd_action (shield_evaluate e' ev))"
proof -
  define blocks where "blocks e \<longleftrightarrow> (\<exists>t \<in> set (se_threats e). threat_matches ev t \<and> th_action t = ActionBlock
      \<and> (enforced t \<or> th_severity t = SeverityCritical))" for e :: shield_engine
  define asks where "asks e \<longleftrightarrow> (\<exists>t \<in> set (se_threats e). threat_matches ev t
      \<and> (if enforced t then th_action t = ActionRequireApproval else th_action t \<noteq> ActionLog))" for e :: shield_engine
  have "blocks e \<Longrightarrow> blocks e'" "asks e \<Longrightarrow> asks e'" using assms unfolding blocks_def asks_def by blast+
  moreover have "sd_action (shield_evaluate x ev) =
      (if blocks x then ActionBlock else if asks x then ActionRequireApproval else ActionLog)" for x
    unfolding blocks_def asks_def by (rule shield_decision_char)
  ultimately show ?thesis by simp
qed

text \<open>An event that calls a tool with one path argument, and a threat on file paths.\<close>

definition tool_event :: "string \<Rightarrow> string \<Rightarrow> string \<Rightarrow> shield_event" where
  "tool_event tool key value =
     \<lparr>ev_scope = ScopeToolCall, ev_tool_name = tool, ev_tool_args = [(key, ArgString value)], ev_domain = [],
      ev_secret_path = [], ev_skill_name = [], ev_input_text = [], ev_file_path = [], ev_url = []\<rparr>"

definition sample_threat :: "shield_action \<Rightarrow> string \<Rightarrow> threat_entry" where
  "sample_threat action recommendation =
     \<lparr>th_id = ''THREAT-9'', th_fingerprint = [], th_category = CategoryFile, th_severity = SeverityHigh,
      th_confidence = 9 / 10, th_action = action, th_title = ''sample'', th_description = [],
      th_recommendation = recommendation, th_expires_at = None, th_revoked = False, th_revoked_at = None\<rparr>"

theorem shield_monotone_witness:
  "action_priority (sd_action (shield_evaluate \<lparr>se_threats = [sample_threat ActionLog ''LOG: tool.call read'']\<rparr>
       (tool_event ''read_file'' ''path'' ''/etc/passwd'')))
   \<le> action_priority (sd_action (shield_evaluate \<lparr>se_threats =
        [sample_threat ActionBlock ''BLOCK: file path contains passwd'', sample_threat ActionLog ''LOG: tool.call read'']\<rparr>
       (tool_event ''read_file'' ''path'' ''/etc/passwd'')))"
  by (rule shield_monotone) simp

section \<open>Conditions\<close>

lemma trimmed_last: "s \<noteq> [] \<Longrightarrow> trim_space s = s \<Longrightarrow> \<not> is_space (last s)"
proof -
  assume s: "s \<noteq> []" "trim_space s = s"
  let ?r = "rev (dropWhile is_space s)"
  have "rev s = dropWhile is_space ?r" using s(2) by (metis trim_space_def rev_rev_ident)
  moreover from this s(1) have "dropWhile is_space ?r \<noteq> []" by (metis rev_is_Nil_conv)
  ultimately have "\<not> is_space (hd (rev s))" using hd_dropWhile [of is_space ?r] by simp
  with s(1) show ?thesis by (simp add: hd_rev)
qed

text \<open>A keyword followed by a trimmed operand is not changed by trimming.\<close>

lemma trim_keyword:
  "p \<noteq> [] \<Longrightarrow> \<not> is_space (hd p) \<Longrightarrow> r \<noteq> [] \<Longrightarrow> \<not> is_space (last r) \<Longrightarrow> trim_space (p @ r) = p @ r"
proof -
  assume a: "p \<noteq> []" "\<not> is_space (hd p)" "r \<noteq> []" "\<not> is_space (last r)"
  have "dropWhile is_space (p @ r) = p @ r" using a(1,2) by (cases p) auto
  moreover have "dropWhile is_space (rev (p @ r)) = rev (p @ r)"
    using a(3,4) by (cases r rule: rev_cases) auto
  ultimately show ?thesis by (simp add: trim_space_def)
qed

lemma evaluate_file_contains:
  assumes "r \<noteq> []" and "\<not> is_space (last r)"
  shows "evaluate_condition (''file path contains '' @ r) ev = match_file_contains (trim_space (drop 1 r)) ev"
proof -
  have "trim_space (''file path contains '' @ r) = ''file path contains '' @ r"
    using assms by (intro trim_keyword) (simp_all add: is_space_def)
  then show ?thesis
    by (simp add: evaluate_condition_def condition_table_def lower_char_def less_eq_char_def)
qed

text \<open>
  The condition on file paths loses the first byte of its text (the source cuts one position too
  far): a threat on a path decides like one on the path without its first byte, and a one-byte text
  matches every call that names a file.
\<close>

theorem file_condition_off_by_one:
  assumes "r \<noteq> []" and "\<not> is_space (last r)"
  shows "evaluate_condition (''file path contains '' @ r) ev = match_file_contains (trim_space (tl r)) ev
    \<and> (length r = 1 \<longrightarrow> evaluate_condition (''file path contains '' @ r) ev =
         (if ev_file_path ev \<noteq> [] \<or> file_path_from_args (ev_tool_args ev) \<noteq> [] then Some (''file_path'', []) else None))"
proof -
  have "trim_space (tl r) = []" if "length r = 1"
    using that by (cases r) (auto simp: trim_space_def)
  then show ?thesis using evaluate_file_contains [OF assms, of ev]
    by (auto simp: drop_Suc match_file_contains_def)
qed

theorem file_condition_off_by_one_witness:
  "evaluate_condition (''file path contains '' @ ''.env'') (tool_event ''read_file'' ''path'' ''/srv/environment.md'')
     = match_file_contains (trim_space (tl ''.env'')) (tool_event ''read_file'' ''path'' ''/srv/environment.md'')
   \<and> match_file_contains (trim_space (tl ''.env'')) (tool_event ''read_file'' ''path'' ''/srv/environment.md'') \<noteq> None"
proof (intro conjI)
  show "evaluate_condition (''file path contains '' @ ''.env'') (tool_event ''read_file'' ''path'' ''/srv/environment.md'')
     = match_file_contains (trim_space (tl ''.env'')) (tool_event ''read_file'' ''path'' ''/srv/environment.md'')"
    by (rule file_condition_off_by_one [THEN conjunct1]) code_simp+
  show "match_file_contains (trim_space (tl ''.env'')) (tool_event ''read_file'' ''path'' ''/srv/environment.md'') \<noteq> None"
    by code_simp
qed

lemma parse_directives_line:
  assumes "newline \<notin> set s"
  shows "parse_directives s = (case parse_directive s of None \<Rightarrow> [] | Some d \<Rightarrow> [d])"
proof -
  have "split_on newline s = [s]" using assms by (induction s) auto
  then show ?thesis by (simp add: parse_directives_def split: option.split)
qed

lemma directive_of_keyword:
  assumes "c \<noteq> []" and "trim_space c = c"
  shows "parse_directive (''BLOCK: '' @ c) = Some \<lparr>di_action = ActionBlock, di_condition = c\<rparr>"
    and "parse_directive (''APPROVE: '' @ c) = Some \<lparr>di_action = ActionRequireApproval, di_condition = c\<rparr>"
    and "parse_directive (''LOG: '' @ c) = Some \<lparr>di_action = ActionLog, di_condition = c\<rparr>"
proof -
  have sp: "trim_space (CHR '' '' # c) = c"
    using assms(2) by (simp add: trim_space_def is_space_def)
  have "trim_space (k @ c) = k @ c" if "k \<noteq> []" "\<not> is_space (hd k)" for k
    using that assms trimmed_last by (intro trim_keyword) auto
  from this [of "''BLOCK: ''"] this [of "''APPROVE: ''"] this [of "''LOG: ''"] sp assms(1)
  show "parse_directive (''BLOCK: '' @ c) = Some \<lparr>di_action = ActionBlock, di_condition = c\<rparr>"
    "parse_directive (''APPROVE: '' @ c) = Some \<lparr>di_action = ActionRequireApproval, di_condition = c\<rparr>"
    "parse_directive (''LOG: '' @ c) = Some \<lparr>di_action = ActionLog, di_condition = c\<rparr>"
    by (simp_all add: parse_directive_def is_space_def upper_char_def less_eq_char_def)
qed

text \<open>
  The keyword of a directive is read and then ignored: writing LOG or APPROVE instead of BLOCK in
  front of a condition changes no decision; only the action of the whole threat counts.
\<close>

theorem directive_keyword_ignored:
  assumes "c \<noteq> []" and "trim_space c = c" and "newline \<notin> set c"
    and "keyword \<in> {''BLOCK: '', ''APPROVE: '', ''LOG: ''}"
  shows "sd_action (shield_evaluate \<lparr>se_threats = ts @ t\<lparr>th_recommendation := keyword @ c\<rparr> # us\<rparr> ev)
     = sd_action (shield_evaluate \<lparr>se_threats = ts @ t\<lparr>th_recommendation := ''BLOCK: '' @ c\<rparr> # us\<rparr> ev)"
proof -
  have one: "\<exists>a. parse_directives (k @ c) = [\<lparr>di_action = a, di_condition = c\<rparr>]"
    if "k \<in> {''BLOCK: '', ''APPROVE: '', ''LOG: ''}" for k
  proof -
    have "newline \<notin> set (k @ c)" using that assms(3) by auto
    moreover have "\<exists>a. parse_directive (k @ c) = Some \<lparr>di_action = a, di_condition = c\<rparr>"
      using that directive_of_keyword [OF assms(1,2)] by (elim insertE emptyE) (simp only:, blast)+
    ultimately show ?thesis using parse_directives_line by (metis option.simps(5))
  qed
  have m: "threat_matches ev (t\<lparr>th_recommendation := k @ c\<rparr>) \<longleftrightarrow>
      is_scope_compatible (ev_scope ev) (th_category t) \<and> evaluate_condition c ev \<noteq> None"
    if "k \<in> {''BLOCK: '', ''APPROVE: '', ''LOG: ''}" for k
    using one [OF that] by (auto simp: threat_matches_def match_threat_def split: option.splits)
  have "threat_matches ev (t\<lparr>th_recommendation := keyword @ c\<rparr>) = threat_matches ev (t\<lparr>th_recommendation := ''BLOCK: '' @ c\<rparr>)"
    unfolding m [OF assms(4)] m [OF insertI1] by (rule refl)
  moreover have "enforced (t\<lparr>th_recommendation := r\<rparr>) = enforced t" "th_action (t\<lparr>th_recommendation := r\<rparr>) = th_action t"
    "th_severity (t\<lparr>th_recommendation := r\<rparr>) = th_severity t" for r by (simp_all add: enforced_def)
  ultimately show ?thesis
    unfolding shield_decision_char shield_engine.select_convs set_append list.set(2) bex_Un bex_simps(5) by (simp only:)
qed

theorem directive_keyword_ignored_witness:
  "sd_action (shield_evaluate \<lparr>se_threats = [sample_threat ActionBlock ''LOG: tool.call exec'']\<rparr> (tool_event ''exec'' ''cmd'' ''ls''))
     = sd_action (shield_evaluate \<lparr>se_threats = [sample_threat ActionBlock ''BLOCK: tool.call exec'']\<rparr> (tool_event ''exec'' ''cmd'' ''ls''))"
proof -
  have t: "(sample_threat ActionBlock [])\<lparr>th_recommendation := r\<rparr> = sample_threat ActionBlock r" for r
    by (simp add: sample_threat_def)
  have p: "''tool.call exec'' \<noteq> []" "trim_space ''tool.call exec'' = ''tool.call exec''" "newline \<notin> set ''tool.call exec''"
    by code_simp+
  have k: "''LOG: '' \<in> {''BLOCK: '', ''APPROVE: '', ''LOG: ''}" by blast
  show ?thesis
    using directive_keyword_ignored [OF p k, of "[]" "sample_threat ActionBlock []" "[]" "tool_event ''exec'' ''cmd'' ''ls''"]
    unfolding t append_Nil by (simp only: append.simps)
qed

section \<open>The built-in command filters\<close>

text \<open>The conditions of THREAT-002 and THREAT-007 in \<open>default_threats.go\<close>.\<close>

definition threat_002_operand :: string where
  "threat_002_operand = ''($(`), $(, &&, ||, ;, |, >, <, `, 2>&1, /dev/null, curl |, wget |, bash -c, sh -c, python -c, perl -e, ruby -e)''"

definition threat_002_condition :: string where
  "threat_002_condition = ''tool.call with arguments containing '' @ threat_002_operand"

definition threat_007_operand :: string where
  "threat_007_operand = ''exec with arguments containing (rm -rf, rm -fr, mkfs, dd if=, :(){ :|:& };:, chmod 777, chown root, curl | bash, wget | bash, nc -l, nc -e, /dev/tcp, /dev/udp)''"

definition threat_007_condition :: string where
  "threat_007_condition = ''tool.call '' @ threat_007_operand"

lemma evaluate_tool_args:
  assumes "r \<noteq> []" and "\<not> is_space (last r)"
  shows "evaluate_condition (''tool.call with arguments containing '' @ r) ev = match_tool_args (trim_space r) ev"
proof -
  have "trim_space (''tool.call with arguments containing '' @ r) = ''tool.call with arguments containing '' @ r"
    using assms by (intro trim_keyword) (simp_all add: is_space_def)
  then show ?thesis
    by (simp add: evaluate_condition_def condition_table_def lower_char_def less_eq_char_def)
qed

lemma evaluate_tool_call:
  assumes "r \<noteq> []" and "\<not> is_space (last r)" and "\<not> prefix ''with arguments containing '' (to_lower r)"
  shows "evaluate_condition (''tool.call '' @ r) ev = match_tool_call (trim_space r) ev"
proof -
  have "trim_space (''tool.call '' @ r) = ''tool.call '' @ r"
    using assms by (intro trim_keyword) (simp_all add: is_space_def)
  then show ?thesis using assms(3)
    by (simp add: evaluate_condition_def condition_table_def lower_char_def less_eq_char_def)
qed

lemma threat_002_patterns: "extract_patterns (trim_space threat_002_operand) = [''$(`'']"
  by code_simp

text \<open>
  C38: Two of the built-in filters do nothing useful. The list of shell metacharacters of THREAT-002 is
  cut at the first closing parenthesis, so that only the text \<open>$(`\<close> remains; and the condition of
  THREAT-007 (dangerous commands such as \<open>rm -rf\<close>) is read as the name of a tool, so that it never
  applies to a tool whose name is shorter than the whole condition.
\<close>

theorem default_command_filters_dead:
  "evaluate_condition threat_002_condition ev =
     (if ev_tool_args ev \<noteq> [] \<and> str_contains (to_lower (args_to_string (ev_tool_args ev))) ''$(`''
      then Some (''tool_args'', ''$(`'') else None)
   \<and> evaluate_condition threat_007_condition ev =
     (if ev_tool_name ev \<noteq> [] \<and> str_contains (to_lower (ev_tool_name ev)) threat_007_operand
      then Some (''tool_name'', ev_tool_name ev) else None)"
proof
  have "to_lower ''$(`'' = ''$(`''" by code_simp
  then show "evaluate_condition threat_002_condition ev =
     (if ev_tool_args ev \<noteq> [] \<and> str_contains (to_lower (args_to_string (ev_tool_args ev))) ''$(`''
      then Some (''tool_args'', ''$(`'') else None)"
    unfolding threat_002_condition_def
    by (subst evaluate_tool_args) (simp_all add: threat_002_operand_def is_space_def match_tool_args_def
        threat_002_patterns [unfolded threat_002_operand_def])
next
  have l: "to_lower threat_007_operand = threat_007_operand" by code_simp
  have t: "trim_space threat_007_operand = threat_007_operand" by code_simp
  have e: "evaluate_condition threat_007_condition ev = match_tool_call threat_007_operand ev"
    unfolding threat_007_condition_def
    by (subst evaluate_tool_call) (simp_all only: t l, code_simp+)
  show "evaluate_condition threat_007_condition ev =
     (if ev_tool_name ev \<noteq> [] \<and> str_contains (to_lower (ev_tool_name ev)) threat_007_operand
      then Some (''tool_name'', ev_tool_name ev) else None)"
    unfolding e match_tool_call_def l by auto
qed

end
