(* ===== verification/AgentMessages.thy ===== *)
theory AgentMessages
  imports Shield
begin

text \<open>
  Messages between the agent and a provider (\<open>pkg/providers/protocoltypes/types.go\<close>), the
  normalisation of tool calls (\<open>pkg/providers/toolcall_utils.go\<close>), and how a request is composed of
  the stored history (\<open>BuildMessages\<close> and \<open>sanitizeHistoryForProvider\<close> in \<open>pkg/agent/context.go\<close>).
  JSON is a parameter. Usage counters and finish reasons are not read by the agent and left out.
\<close>

section \<open>Messages\<close>

type_synonym tool_args = "(string \<times> tool_arg) list"

record function_call =
  fn_name :: string
  fn_arguments :: string
  fn_thought :: string

text \<open>\<open>tc_args = None\<close> is the nil map; \<open>tc_extra\<close> is the Google block of \<open>ExtraContent\<close>.\<close>

record tool_call =
  tc_id :: string
  tc_type :: string
  tc_function :: "function_call option"
  tc_name :: string
  tc_args :: "tool_args option"
  tc_thought :: string
  tc_extra :: "string option option"

record content_block =
  cb_type :: string
  cb_text :: string
  cb_cache :: "string option"

record chat_message =
  cm_role :: string
  cm_content :: string
  cm_media :: "string list"
  cm_reasoning :: string
  cm_parts :: "content_block list"
  cm_tool_calls :: "tool_call list"
  cm_tool_call_id :: string

record llm_response =
  lr_content :: string
  lr_reasoning_content :: string
  lr_tool_calls :: "tool_call list"
  lr_reasoning :: string

definition text_message :: "string \<Rightarrow> string \<Rightarrow> chat_message" where
  "text_message role content =
     \<lparr>cm_role = role, cm_content = content, cm_media = [], cm_reasoning = [], cm_parts = [], cm_tool_calls = [],
      cm_tool_call_id = []\<rparr>"

definition tool_message :: "string \<Rightarrow> string \<Rightarrow> chat_message" where
  "tool_message i content = (text_message ''tool'' content)\<lparr>cm_tool_call_id := i\<rparr>"

section \<open>Tool calls of a response\<close>

text \<open>\<open>js_decode\<close> answers \<open>None\<close> for text that is no JSON object, and for \<open>null\<close>.\<close>

record json_env =
  js_encode :: "tool_args \<Rightarrow> string"
  js_decode :: "string \<Rightarrow> tool_args option"

definition normalize_tool_call :: "json_env \<Rightarrow> tool_call \<Rightarrow> tool_call" where
  "normalize_tool_call js tc =
     (let name = (if tc_name tc = [] then (case tc_function tc of None \<Rightarrow> [] | Some f \<Rightarrow> fn_name f) else tc_name tc);
          given = (case tc_args tc of None \<Rightarrow> [] | Some a \<Rightarrow> a);
          args = (case tc_function tc of
                    Some f \<Rightarrow>
                      if given = [] \<and> fn_arguments f \<noteq> []
                      then (case js_decode js (fn_arguments f) of Some parsed \<Rightarrow> parsed | None \<Rightarrow> given) else given
                  | None \<Rightarrow> given);
          text = js_encode js args;
          fn = (case tc_function tc of
                  None \<Rightarrow> \<lparr>fn_name = name, fn_arguments = text, fn_thought = []\<rparr>
                | Some f \<Rightarrow>
                    f\<lparr>fn_name := (if fn_name f = [] then name else fn_name f),
                      fn_arguments := (if fn_arguments f = [] then text else fn_arguments f)\<rparr>)
      in tc\<lparr>tc_name := (if name = [] then fn_name fn else name), tc_args := Some args, tc_function := Some fn\<rparr>)"

definition call_args :: "tool_call \<Rightarrow> tool_args" where
  "call_args tc = (case tc_args tc of None \<Rightarrow> [] | Some a \<Rightarrow> a)"

text \<open>The call as the loop stores it in the assistant message.\<close>

definition stored_call :: "json_env \<Rightarrow> tool_call \<Rightarrow> tool_call" where
  "stored_call js tc =
     (let thought = (case tc_function tc of None \<Rightarrow> [] | Some f \<Rightarrow> fn_thought f) in
      \<lparr>tc_id = tc_id tc, tc_type = ''function'',
       tc_function = Some \<lparr>fn_name = tc_name tc, fn_arguments = js_encode js (call_args tc), fn_thought = thought\<rparr>,
       tc_name = tc_name tc, tc_args = None, tc_thought = thought, tc_extra = tc_extra tc\<rparr>)"

definition assistant_message :: "json_env \<Rightarrow> llm_response \<Rightarrow> tool_call list \<Rightarrow> chat_message" where
  "assistant_message js resp calls =
     (text_message ''assistant'' (lr_content resp))
       \<lparr>cm_reasoning := lr_reasoning_content resp, cm_tool_calls := map (stored_call js) calls\<rparr>"

lemma normalized_call_complete:
  "tc_args (normalize_tool_call js tc) \<noteq> None \<and> tc_function (normalize_tool_call js tc) \<noteq> None
   \<and> tc_id (normalize_tool_call js tc) = tc_id tc"
  by (simp add: normalize_tool_call_def Let_def)

section \<open>Sanitising a history\<close>

definition is_tool :: "chat_message \<Rightarrow> bool" where
  "is_tool m \<longleftrightarrow> cm_role m = ''tool''"

definition is_call_turn :: "chat_message \<Rightarrow> bool" where
  "is_call_turn m \<longleftrightarrow> cm_role m = ''assistant'' \<and> cm_tool_calls m \<noteq> []"

text \<open>The walk backwards over tool messages to the assistant turn they answer.\<close>

definition follows_call_turn :: "chat_message list \<Rightarrow> bool" where
  "follows_call_turn kept = (case dropWhile is_tool (rev kept) of [] \<Rightarrow> False | m # _ \<Rightarrow> is_call_turn m)"

definition first_step :: "chat_message list \<Rightarrow> chat_message \<Rightarrow> chat_message list" where
  "first_step kept m =
     (if cm_role m = ''system'' then kept
      else if cm_role m = ''tool'' then
        (if kept = [] then kept else if \<not> follows_call_turn kept then kept else kept @ [m])
      else if cm_role m = ''assistant'' \<and> cm_tool_calls m \<noteq> [] \<and> kept = [] then kept
      else if cm_role m = ''assistant'' \<and> cm_tool_calls m \<noteq> []
              \<and> cm_role (last kept) \<noteq> ''user'' \<and> cm_role (last kept) \<noteq> ''tool'' then kept
      else kept @ [m])"

definition first_pass :: "chat_message list \<Rightarrow> chat_message list" where
  "first_pass ms = foldl first_step [] ms"

definition all_answered :: "chat_message \<Rightarrow> chat_message list \<Rightarrow> bool" where
  "all_answered m block = list_all (\<lambda>tc. list_ex (\<lambda>t. cm_tool_call_id t = tc_id tc) block) (cm_tool_calls m)"

function second_pass :: "chat_message list \<Rightarrow> chat_message list" where
  "second_pass [] = []"
| "second_pass (m # ms) =
     (if is_call_turn m \<and> \<not> all_answered m (takeWhile is_tool ms) then second_pass (dropWhile is_tool ms)
      else m # second_pass ms)"
  by pat_completeness auto
termination
  by (relation "measure length") (auto simp: le_imp_less_Suc length_dropWhile_le)

definition sanitize_history :: "chat_message list \<Rightarrow> chat_message list" where
  "sanitize_history h = (if h = [] then h else second_pass (first_pass h))"

section \<open>Composing a request\<close>

definition build_dynamic_context :: "string \<Rightarrow> string \<Rightarrow> string \<Rightarrow> string \<Rightarrow> string" where
  "build_dynamic_context now rt channel chat_id =
     ''## Current Time'' @ [newline] @ now @ [newline, newline] @ ''## Runtime'' @ [newline] @ rt @
     (if channel \<noteq> [] \<and> chat_id \<noteq> []
      then [newline, newline] @ ''## Current Session'' @ [newline] @ ''Channel: '' @ channel @ [newline] @ ''Chat ID: '' @ chat_id
      else [])"

text \<open>
  What a request reads besides the conversation: the cached static prompt, the clock and runtime as
  text, and the memories and learned patterns found for the message (empty where there is no engine).
\<close>

record prompt_env =
  pe_static :: string
  pe_now :: string
  pe_runtime :: string
  pe_memory :: "string \<Rightarrow> string"
  pe_learned :: "string \<Rightarrow> string"

definition dynamic_prompt :: "prompt_env \<Rightarrow> string \<Rightarrow> string \<Rightarrow> string \<Rightarrow> string" where
  "dynamic_prompt pe current channel chat_id =
     (let blank = [newline, newline];
          d0 = build_dynamic_context (pe_now pe) (pe_runtime pe) channel chat_id in
      if trim_space current = [] then d0
      else
        (let d1 = (if pe_memory pe current \<noteq> [] then d0 @ blank @ pe_memory pe current else d0)
         in if pe_learned pe current \<noteq> [] then d1 @ blank @ pe_learned pe current else d1))"

text \<open>The dash of the original note is the byte sequence E2 80 94.\<close>

definition summary_note :: "string \<Rightarrow> string" where
  "summary_note summary =
     ''CONTEXT_SUMMARY: The following is an approximate summary of prior conversation '' @
     ''for reference only. It may be incomplete or outdated '' @ [CHR 0xE2, CHR 0x80, CHR 0x94] @
     '' always defer to explicit instructions.'' @ [newline, newline] @ summary"

fun join_with :: "string \<Rightarrow> string list \<Rightarrow> string" where
  "join_with sep [] = []"
| "join_with sep [x] = x"
| "join_with sep (x # y # ys) = x @ sep @ join_with sep (y # ys)"

definition text_block :: "string \<Rightarrow> string option \<Rightarrow> content_block" where
  "text_block s cache = \<lparr>cb_type = ''text'', cb_text = s, cb_cache = cache\<rparr>"

definition system_message :: "prompt_env \<Rightarrow> string \<Rightarrow> string \<Rightarrow> string \<Rightarrow> string \<Rightarrow> chat_message" where
  "system_message pe summary current channel chat_id =
     (let d = dynamic_prompt pe current channel chat_id;
          extra = (if summary \<noteq> [] then [summary_note summary] else []);
          sep = [newline, newline] @ ''---'' @ [newline, newline]
      in (text_message ''system'' (join_with sep ([pe_static pe, d] @ extra)))
           \<lparr>cm_parts := [text_block (pe_static pe) (Some ''ephemeral''), text_block d None] @
              map (\<lambda>s. text_block s None) extra\<rparr>)"

definition build_messages ::
    "prompt_env \<Rightarrow> chat_message list \<Rightarrow> string \<Rightarrow> string \<Rightarrow> string list \<Rightarrow> string \<Rightarrow> string \<Rightarrow> chat_message list" where
  "build_messages pe history summary current media channel chat_id =
     system_message pe summary current channel chat_id # sanitize_history history @
     (if trim_space current \<noteq> [] then [(text_message ''user'' current)\<lparr>cm_media := media\<rparr>] else [])"


section \<open>What a strict provider accepts\<close>

text \<open>
  The place in a conversation: after a user message, after an assistant turn with calls, after a tool
  result, or elsewhere.
\<close>

datatype place = AfterUser | AfterCalls | AfterResult | Elsewhere

fun place_after :: "place \<Rightarrow> chat_message \<Rightarrow> place" where
  "place_after c m =
     (if is_tool m then AfterResult else if is_call_turn m then AfterCalls
      else if cm_role m = ''user'' then AfterUser else Elsewhere)"

definition in_place :: "place \<Rightarrow> chat_message \<Rightarrow> bool" where
  "in_place c m \<longleftrightarrow>
     cm_role m \<noteq> ''system'' \<and> (is_tool m \<longrightarrow> c \<in> {AfterCalls, AfterResult}) \<and>
     (is_call_turn m \<longrightarrow> c \<in> {AfterUser, AfterResult})"

text \<open>Every message is in its place, and every call of a turn is answered right after the turn.\<close>

fun ready_from :: "place \<Rightarrow> chat_message list \<Rightarrow> bool" where
  "ready_from c [] \<longleftrightarrow> True"
| "ready_from c (m # ms) \<longleftrightarrow>
     in_place c m \<and> (is_call_turn m \<longrightarrow> all_answered m (takeWhile is_tool ms)) \<and> ready_from (place_after c m) ms"

definition provider_ready :: "chat_message list \<Rightarrow> bool" where
  "provider_ready ms \<longleftrightarrow> ready_from Elsewhere ms"

text \<open>A message that is neither a system message nor part of a tool exchange.\<close>

definition is_plain :: "chat_message \<Rightarrow> bool" where
  "is_plain m \<longleftrightarrow> cm_role m \<noteq> ''system'' \<and> \<not> is_tool m \<and> \<not> is_call_turn m"

subsection \<open>The first pass\<close>

fun shaped :: "place \<Rightarrow> chat_message list \<Rightarrow> bool" where
  "shaped c [] \<longleftrightarrow> True"
| "shaped c (m # ms) \<longleftrightarrow> in_place c m \<and> shaped (place_after c m) ms"

definition end_place :: "place \<Rightarrow> chat_message list \<Rightarrow> place" where
  "end_place c ms = foldl place_after c ms"

lemma end_place_simps [simp]:
  "end_place c [] = c" "end_place c (m # ms) = end_place (place_after c m) ms"
  "end_place c (ms @ [m]) = place_after (end_place c ms) m"
  by (simp_all add: end_place_def)

lemma shaped_append: "shaped c (xs @ ys) \<longleftrightarrow> shaped c xs \<and> shaped (end_place c xs) ys"
  by (induction xs arbitrary: c) auto

lemma is_call_turn_not_tool: "is_call_turn m \<Longrightarrow> \<not> is_tool m"
  by (auto simp: is_call_turn_def is_tool_def)

lemma end_place_user_or_tool:
  "end_place Elsewhere ms \<in> {AfterUser, AfterResult} \<longleftrightarrow>
     ms \<noteq> [] \<and> (cm_role (last ms) = ''user'' \<or> cm_role (last ms) = ''tool'')"
proof (cases ms rule: rev_cases)
  case (snoc xs m)
  then show ?thesis by (auto simp: is_tool_def is_call_turn_def)
qed simp

lemma follows_call_turn_place:
  "shaped Elsewhere kept \<Longrightarrow> follows_call_turn kept \<longleftrightarrow> end_place Elsewhere kept \<in> {AfterCalls, AfterResult}"
proof (induction kept rule: rev_induct)
  case Nil
  then show ?case by (simp add: follows_call_turn_def)
next
  case (snoc m xs)
  then have xs: "shaped Elsewhere xs" and m: "in_place (end_place Elsewhere xs) m" by (simp_all add: shaped_append)
  show ?case
  proof (cases "is_tool m")
    case True
    then have "follows_call_turn (xs @ [m]) = follows_call_turn xs" by (simp add: follows_call_turn_def)
    with True m snoc.IH [OF xs] show ?thesis by (simp add: in_place_def)
  next
    case False
    then show ?thesis by (auto simp: follows_call_turn_def)
  qed
qed

lemma first_step_place:
  "shaped Elsewhere kept \<Longrightarrow>
     first_step kept m = (if in_place (end_place Elsewhere kept) m then kept @ [m] else kept)"
  using follows_call_turn_place [of kept] end_place_user_or_tool [of kept]
  by (auto simp: first_step_def in_place_def is_tool_def is_call_turn_def follows_call_turn_def)

lemma first_pass_shaped: "shaped Elsewhere (first_pass ms)"
proof -
  have "shaped Elsewhere kept \<Longrightarrow> shaped Elsewhere (foldl first_step kept ms)" for kept
    by (induction ms arbitrary: kept) (simp_all add: first_step_place shaped_append)
  then show ?thesis by (simp add: first_pass_def)
qed

lemma first_pass_id: "shaped Elsewhere ms \<Longrightarrow> first_pass ms = ms"
proof -
  have "shaped Elsewhere (kept @ ms) \<Longrightarrow> foldl first_step kept ms = kept @ ms" for kept
  proof (induction ms arbitrary: kept)
    case (Cons m ms)
    then have "shaped Elsewhere kept" "in_place (end_place Elsewhere kept) m" by (simp_all add: shaped_append)
    then have "first_step kept m = kept @ [m]" by (simp add: first_step_place)
    with Cons show ?case by simp
  qed simp
  from this [of "[]"] show "shaped Elsewhere ms \<Longrightarrow> first_pass ms = ms" by (simp add: first_pass_def)
qed

lemma plain_in_place: "is_plain m \<Longrightarrow> in_place c m"
  by (simp add: is_plain_def in_place_def)

lemma first_pass_parts: "filter is_plain (first_pass ms) = filter is_plain ms \<and> subseq (first_pass ms) ms"
proof -
  have "shaped Elsewhere kept \<Longrightarrow> filter is_plain (foldl first_step kept ms) = filter is_plain kept @ filter is_plain ms
      \<and> subseq (foldl first_step kept ms) (kept @ ms)" for kept
  proof (induction ms arbitrary: kept)
    case (Cons m ms)
    show ?case
    proof (cases "in_place (end_place Elsewhere kept) m")
      case True
      then have "shaped Elsewhere (kept @ [m])" using Cons.prems by (simp add: shaped_append)
      from Cons.IH [OF this] show ?thesis using True Cons.prems by (simp add: first_step_place)
    next
      case False
      then have "\<not> is_plain m" using plain_in_place by blast
      moreover have "subseq (kept @ ms) (kept @ m # ms)" by (simp add: subseq_append' list_emb_Cons)
      ultimately show ?thesis using Cons.IH [OF Cons.prems] False Cons.prems
        by (auto simp: first_step_place intro: subseq_order.order_trans)
    qed
  qed simp
  from this [of "[]"] show ?thesis by (simp add: first_pass_def)
qed

subsection \<open>The second pass\<close>

lemma second_pass_block: "takeWhile is_tool (second_pass ms) = takeWhile is_tool ms"
proof (induction ms rule: second_pass.induct)
  case (2 m ms)
  have "takeWhile is_tool (dropWhile is_tool ms) = []"
    by (metis hd_dropWhile takeWhile_eq_Nil_iff)
  then show ?case using 2 is_call_turn_not_tool [of m] by auto
qed simp

lemma shaped_dropWhile:
  "shaped c ms \<Longrightarrow> c \<in> {AfterCalls, AfterResult} \<Longrightarrow>
     \<exists>c' \<in> {AfterCalls, AfterResult}. shaped c' (dropWhile is_tool ms)"
  by (induction ms arbitrary: c) auto

lemma second_pass_ready:
  "shaped c ms \<Longrightarrow>
     c' = c \<or> (c \<in> {AfterCalls, AfterResult} \<and> c' \<in> {AfterUser, AfterResult} \<and> takeWhile is_tool ms = []) \<Longrightarrow>
     ready_from c' (second_pass ms)"
proof (induction ms arbitrary: c c' rule: second_pass.induct)
  case (2 m ms)
  have m: "in_place c m" and ms: "shaped (place_after c m) ms" using "2.prems"(1) by simp_all
  have m': "in_place c' m" using m "2.prems"(2) by (auto simp: in_place_def)
  show ?case
  proof (cases "is_call_turn m \<and> \<not> all_answered m (takeWhile is_tool ms)")
    case True
    then have "shaped AfterCalls ms" using ms is_call_turn_not_tool [of m] by simp
    then obtain d where d: "d \<in> {AfterCalls, AfterResult}" "shaped d (dropWhile is_tool ms)"
      using shaped_dropWhile by blast
    have "takeWhile is_tool (dropWhile is_tool ms) = []" by (metis hd_dropWhile takeWhile_eq_Nil_iff)
    moreover have "c' \<in> {AfterUser, AfterResult}" using m' True by (simp add: in_place_def)
    ultimately have "ready_from c' (second_pass (dropWhile is_tool ms))"
      using "2.IH"(1) [OF True d(2)] d(1) by blast
    with True show ?thesis by simp
  next
    case False
    have "place_after c' m = place_after c m" by simp
    then have "ready_from (place_after c' m) (second_pass ms)" using "2.IH"(2) [OF False ms] by simp
    moreover have "is_call_turn m \<longrightarrow> all_answered m (takeWhile is_tool (second_pass ms))"
      using False by (simp add: second_pass_block)
    moreover have "second_pass (m # ms) = m # second_pass ms" by (simp only: second_pass.simps False if_False)
    ultimately show ?thesis using m' by (simp del: second_pass.simps)
  qed
qed simp

lemma second_pass_id: "ready_from c ms \<Longrightarrow> second_pass ms = ms"
  by (induction ms arbitrary: c) auto

lemma ready_shaped: "ready_from c ms \<Longrightarrow> shaped c ms"
  by (induction ms arbitrary: c) auto

lemma plain_dropWhile: "filter is_plain (dropWhile is_tool ms) = filter is_plain ms"
  by (induction ms) (auto simp: is_plain_def)

lemma second_pass_parts: "filter is_plain (second_pass ms) = filter is_plain ms \<and> subseq (second_pass ms) ms"
proof (induction ms rule: second_pass.induct)
  case (2 m ms)
  show ?case
  proof (cases "is_call_turn m \<and> \<not> all_answered m (takeWhile is_tool ms)")
    case True
    have "subseq (dropWhile is_tool ms) (m # ms)"
      by (meson subseq_Cons' subseq_order.order_trans suffix_dropWhile suffix_imp_subseq list_emb_Cons subseq_order.order_refl)
    moreover have "\<not> is_plain m" using True by (simp add: is_plain_def)
    moreover have "second_pass (m # ms) = second_pass (dropWhile is_tool ms)"
      by (simp only: second_pass.simps True if_True simp_thms)
    ultimately show ?thesis using "2.IH"(1) [OF True]
      by (auto simp: plain_dropWhile simp del: second_pass.simps intro: subseq_order.order_trans)
  next
    case False
    with "2.IH"(2) show ?thesis by auto
  qed
qed simp

lemma sanitize_eq: "sanitize_history h = second_pass (first_pass h)"
  by (simp add: sanitize_history_def first_pass_def)

lemma sanitize_ready: "provider_ready (sanitize_history h)"
  unfolding provider_ready_def sanitize_eq using first_pass_shaped second_pass_ready by blast

lemma sanitize_id: "provider_ready h \<Longrightarrow> sanitize_history h = h"
  unfolding provider_ready_def sanitize_eq by (simp add: ready_shaped first_pass_id second_pass_id)

section \<open>Properties\<close>

text \<open>
  C9: Whatever history is stored, the one that is sent is accepted by a strict provider: no system
  message, no tool result without its turn, no unanswered call. It is made of stored messages in
  their order, and only system messages and tool exchanges are ever left out.
\<close>

theorem sanitized_history_ready:
  "provider_ready (sanitize_history h) \<and> subseq (sanitize_history h) h
   \<and> filter is_plain (sanitize_history h) = filter is_plain h"
  using first_pass_parts [of h] second_pass_parts [of "first_pass h"] sanitize_ready [of h]
  by (auto simp: sanitize_eq intro: subseq_order.order_trans)

text \<open>Exactly the histories that a strict provider accepts are sent unchanged.\<close>

theorem unchanged_iff_ready: "sanitize_history h = h \<longleftrightarrow> provider_ready h"
  using sanitize_ready [of h] sanitize_id [of h] by metis

text \<open>
  A result that answers no call of its turn is not removed: a second answer to a call, or an
  answer to a call that was never made, is sent to the provider.
\<close>

theorem stray_result_survives:
  assumes "cm_role u = ''user''" and "is_call_turn a" and "is_tool t" and "is_tool stray"
    and "all_answered a [t]"
  shows "sanitize_history [u, a, t, stray] = [u, a, t, stray]"
proof -
  have "\<not> is_tool u" "\<not> is_call_turn u" "\<not> is_tool a" "\<not> is_call_turn t" "\<not> is_call_turn stray" "cm_role a = ''assistant''" "cm_role t = ''tool''" "cm_role stray = ''tool''"
    using assms by (auto simp: is_tool_def is_call_turn_def)
  moreover have "all_answered a [t, stray]" using assms(5) by (auto simp: all_answered_def list_all_iff)
  ultimately have "provider_ready [u, a, t, stray]" using assms
    by (simp add: provider_ready_def in_place_def is_call_turn_not_tool)
  then show ?thesis by (rule sanitize_id)
qed

theorem stray_result_survives_witness:
  "sanitize_history [text_message ''user'' ''hi'',
      (text_message ''assistant'' [])\<lparr>cm_tool_calls := [\<lparr>tc_id = ''c1'', tc_type = ''function'', tc_function = None,
         tc_name = ''exec'', tc_args = None, tc_thought = [], tc_extra = None\<rparr>]\<rparr>,
      tool_message ''c1'' ''done'', tool_message ''c9'' ''again'']
   = [text_message ''user'' ''hi'',
      (text_message ''assistant'' [])\<lparr>cm_tool_calls := [\<lparr>tc_id = ''c1'', tc_type = ''function'', tc_function = None,
         tc_name = ''exec'', tc_args = None, tc_thought = [], tc_extra = None\<rparr>]\<rparr>,
      tool_message ''c1'' ''done'', tool_message ''c9'' ''again'']"
  by (rule stray_result_survives) (simp_all add: text_message_def tool_message_def is_call_turn_def is_tool_def all_answered_def)

end
