(* ===== verification/ToolRegistry.thy ===== *)
theory ToolRegistry
  imports AgentMessages "HOL-Library.List_Lexorder" "HOL-Library.Multiset"
begin

text \<open>
  The tools of an agent (\<open>pkg/tools/registry.go\<close>, \<open>result.go\<close>): core tools, and hidden tools that a
  search unlocks for a few rounds; the discovery tools of \<open>search_tool.go\<close> with the cache of their
  search index. What a tool does is a parameter: an implementation of the interface \<open>Tool\<close>. The
  ranking of an index and the matching of a compiled pattern are parameters as well.
\<close>

section \<open>Results\<close>

record tool_result =
  rs_for_llm :: string
  rs_for_user :: string
  rs_silent :: bool
  rs_is_error :: bool
  rs_async :: bool
  rs_requires_approval :: bool
  rs_err :: "string option"
  rs_media :: "string list"

definition new_tool_result :: "string \<Rightarrow> tool_result" where
  "new_tool_result s =
     \<lparr>rs_for_llm = s, rs_for_user = [], rs_silent = False, rs_is_error = False, rs_async = False,
      rs_requires_approval = False, rs_err = None, rs_media = []\<rparr>"

definition silent_result :: "string \<Rightarrow> tool_result" where
  "silent_result s = (new_tool_result s)\<lparr>rs_silent := True\<rparr>"

definition async_result :: "string \<Rightarrow> tool_result" where
  "async_result s = (new_tool_result s)\<lparr>rs_async := True\<rparr>"

definition error_result :: "string \<Rightarrow> tool_result" where
  "error_result s = (new_tool_result s)\<lparr>rs_is_error := True\<rparr>"

definition user_result :: "string \<Rightarrow> tool_result" where
  "user_result s = (new_tool_result s)\<lparr>rs_for_user := s\<rparr>"

definition media_result :: "string \<Rightarrow> string list \<Rightarrow> tool_result" where
  "media_result s refs = (new_tool_result s)\<lparr>rs_media := refs\<rparr>"

definition with_error :: "string \<Rightarrow> tool_result \<Rightarrow> tool_result" where
  "with_error e r = r\<lparr>rs_err := Some e\<rparr>"

section \<open>The registry\<close>

text \<open>\<open>tl_parameters\<close> is the schema as text; \<open>tl_async\<close>: the tool implements \<open>AsyncExecutor\<close>.\<close>

record tool =
  tl_name :: string
  tl_description :: string
  tl_parameters :: string
  tl_async :: bool

record tool_entry =
  te_tool :: tool
  te_core :: bool
  te_ttl :: int

text \<open>The version is a 64-bit counter.\<close>

record tool_registry =
  tr_tools :: "(string, tool_entry) gomap"
  tr_version :: nat

definition new_tool_registry :: tool_registry where
  "new_tool_registry = \<lparr>tr_tools = [], tr_version = 0\<rparr>"

definition put_tool :: "bool \<Rightarrow> tool \<Rightarrow> tool_registry \<Rightarrow> tool_registry" where
  "put_tool core t r =
     r\<lparr>tr_tools := mput (tl_name t) \<lparr>te_tool = t, te_core = core, te_ttl = 0\<rparr> (tr_tools r),
       tr_version := (tr_version r + 1) mod 2 ^ 64\<rparr>"

definition register_tool :: "tool \<Rightarrow> tool_registry \<Rightarrow> tool_registry" where
  "register_tool t r = put_tool True t r"

definition register_hidden :: "tool \<Rightarrow> tool_registry \<Rightarrow> tool_registry" where
  "register_hidden t r = put_tool False t r"

definition promote_one :: "int \<Rightarrow> string \<Rightarrow> tool_registry \<Rightarrow> tool_registry" where
  "promote_one ttl name r =
     (case mget (tr_tools r) name of
        None \<Rightarrow> r
      | Some e \<Rightarrow> if te_core e then r else r\<lparr>tr_tools := mput name (e\<lparr>te_ttl := ttl\<rparr>) (tr_tools r)\<rparr>)"

definition promote_tools :: "string list \<Rightarrow> int \<Rightarrow> tool_registry \<Rightarrow> tool_registry" where
  "promote_tools names ttl r = fold (promote_one ttl) names r"

definition tick_entry :: "tool_entry \<Rightarrow> tool_entry" where
  "tick_entry e = (if \<not> te_core e \<and> te_ttl e > 0 then e\<lparr>te_ttl := te_ttl e - 1\<rparr> else e)"

definition tick_ttl :: "tool_registry \<Rightarrow> tool_registry" where
  "tick_ttl r = r\<lparr>tr_tools := map (\<lambda>(n, e). (n, tick_entry e)) (tr_tools r)\<rparr>"

definition snapshot_hidden_tools :: "tool_registry \<Rightarrow> (string \<times> string) list \<times> nat" where
  "snapshot_hidden_tools r =
     (map (\<lambda>(n, e). (n, tl_description (te_tool e))) (filter (\<lambda>(n, e). \<not> te_core e) (tr_tools r)), tr_version r)"

definition live_entry :: "tool_entry \<Rightarrow> bool" where
  "live_entry e \<longleftrightarrow> te_core e \<or> te_ttl e > 0"

definition get_tool :: "tool_registry \<Rightarrow> string \<Rightarrow> tool option" where
  "get_tool r name =
     (case mget (tr_tools r) name of
        None \<Rightarrow> None
      | Some e \<Rightarrow> if \<not> te_core e \<and> te_ttl e \<le> 0 then None else Some (te_tool e))"

definition sorted_tool_names :: "tool_registry \<Rightarrow> string list" where
  "sorted_tool_names r = sort (map fst (tr_tools r))"

record tool_definition =
  td_name :: string
  td_description :: string
  td_parameters :: string

definition tool_schema :: "tool \<Rightarrow> tool_definition" where
  "tool_schema t = \<lparr>td_name = tl_name t, td_description = tl_description t, td_parameters = tl_parameters t\<rparr>"

definition to_provider_defs :: "tool_registry \<Rightarrow> tool_definition list" where
  "to_provider_defs r =
     List.map_filter
       (\<lambda>n. case mget (tr_tools r) n of
              None \<Rightarrow> None
            | Some e \<Rightarrow> if \<not> te_core e \<and> te_ttl e \<le> 0 then None else Some (tool_schema (te_tool e)))
       (sorted_tool_names r)"

definition get_summaries :: "tool_registry \<Rightarrow> string list" where
  "get_summaries r =
     map (\<lambda>d. ''- `'' @ td_name d @ ''` - '' @ td_description d) (to_provider_defs r)"

definition merge_entry :: "tool_entry \<Rightarrow> tool_registry \<Rightarrow> tool_registry" where
  "merge_entry e r =
     (if mget (tr_tools r) (tl_name (te_tool e)) \<noteq> None then r
      else if te_core e then register_tool (te_tool e) r else register_hidden (te_tool e) r)"

definition merge_from :: "tool_registry \<Rightarrow> tool_registry \<Rightarrow> tool_registry" where
  "merge_from src r = fold merge_entry (List.map_filter (mget (tr_tools src)) (sorted_tool_names src)) r"

section \<open>Execution\<close>

record tool_context =
  tx_channel :: string
  tx_chat_id :: string
  tx_delegation_user :: string
  tx_approved :: bool

text \<open>
  What a tool answers; the last argument is \<open>True\<close> for \<open>ExecuteAsync\<close>. A name without quotes,
  backslashes and control characters is quoted by \<open>%q\<close> as it is.
\<close>

type_synonym tool_body = "tool \<Rightarrow> tool_args \<Rightarrow> tool_context \<Rightarrow> bool \<Rightarrow> tool_result"

definition execute_with_context ::
    "tool_body \<Rightarrow> tool_registry \<Rightarrow> string \<Rightarrow> tool_args \<Rightarrow> tool_context \<Rightarrow> bool \<Rightarrow> tool_result" where
  "execute_with_context body r name args tx has_callback =
     (case get_tool r name of
        None \<Rightarrow> with_error ''tool not found'' (error_result (''tool '' @ [CHR 0x22] @ name @ [CHR 0x22] @ '' not found''))
      | Some t \<Rightarrow> body t args tx (tl_async t \<and> has_callback))"

section \<open>Discovery\<close>

text \<open>\<open>matches\<close>: the compiled pattern, \<open>None\<close> when it does not compile.\<close>

definition search_regex ::
    "(string \<Rightarrow> bool) option \<Rightarrow> int \<Rightarrow> tool_registry \<Rightarrow> (string \<times> string) list option" where
  "search_regex matches max_results r =
     (if max_results \<le> 0 then Some []
      else
        (case matches of
           None \<Rightarrow> None
         | Some m \<Rightarrow>
             Some (take (nat max_results)
               (List.map_filter
                 (\<lambda>n. case mget (tr_tools r) n of
                        None \<Rightarrow> None
                      | Some e \<Rightarrow>
                          if \<not> te_core e \<and> (m n \<or> m (tl_description (te_tool e)))
                          then Some (n, tl_description (te_tool e)) else None)
                 (sorted_tool_names r)))))"

definition nothing_found :: tool_result where
  "nothing_found = silent_result ''No tools found matching the query.''"

definition format_discovery ::
    "((string \<times> string) list \<Rightarrow> string) \<Rightarrow> (string \<times> string) list \<Rightarrow> int \<Rightarrow> tool_registry \<Rightarrow> tool_registry \<times> tool_result" where
  "format_discovery to_json results ttl r =
     (if results = [] then (r, nothing_found)
      else
        (promote_tools (map fst results) ttl r,
         silent_result (''Found '' @ show_nat (length results) @ '' tools:'' @ [newline] @ to_json results @
           [newline, newline] @ ''SUCCESS: These tools have been temporarily UNLOCKED as native tools! '' @
           ''In your next response, you can call them directly just like any normal tool'')))"

text \<open>The index of the BM25 tool is the list of documents it was built from.\<close>

record search_cache =
  sc_docs :: "(string \<times> string) list option"
  sc_version :: nat

definition get_or_build_engine :: "tool_registry \<Rightarrow> search_cache \<Rightarrow> search_cache \<times> (string \<times> string) list option" where
  "get_or_build_engine r c =
     (if sc_docs c \<noteq> None \<and> sc_version c = tr_version r then (c, sc_docs c)
      else
        (let (docs, version) = snapshot_hidden_tools r in
         if sc_docs c \<noteq> None \<and> sc_version c = version then (c, sc_docs c)
         else if docs = [] then (\<lparr>sc_docs = None, sc_version = version\<rparr>, None)
         else (\<lparr>sc_docs = Some docs, sc_version = version\<rparr>, Some docs)))"

definition bm25_execute ::
    "((string \<times> string) list \<Rightarrow> string \<Rightarrow> int \<Rightarrow> (string \<times> string) list) \<Rightarrow> ((string \<times> string) list \<Rightarrow> string) \<Rightarrow>
     int \<Rightarrow> int \<Rightarrow> string option \<Rightarrow> tool_registry \<times> search_cache \<Rightarrow> (tool_registry \<times> search_cache) \<times> tool_result" where
  "bm25_execute rank to_json ttl max_results query rc =
     (case rc of (r, c) \<Rightarrow>
     (case query of
        None \<Rightarrow> (rc, error_result ''Missing or invalid 'query' argument. Must be a non-empty string.'')
      | Some q \<Rightarrow>
          if trim_space q = [] then (rc, error_result ''Missing or invalid 'query' argument. Must be a non-empty string.'')
          else
            (case get_or_build_engine r c of
               (c', None) \<Rightarrow> ((r, c'), nothing_found)
             | (c', Some docs) \<Rightarrow>
                 (let ranked = rank docs q max_results in
                  if ranked = [] then ((r, c'), nothing_found)
                  else (let (r', res) = format_discovery to_json ranked ttl r in ((r', c'), res))))))"

definition max_regex_pattern_length :: nat where
  "max_regex_pattern_length = 200"

text \<open>\<open>compile\<close>: the standard library's compiler, an error text or the matcher.\<close>

definition regex_execute ::
    "(string \<Rightarrow> string + (string \<Rightarrow> bool)) \<Rightarrow> ((string \<times> string) list \<Rightarrow> string) \<Rightarrow> int \<Rightarrow> int \<Rightarrow> string option \<Rightarrow>
     tool_registry \<Rightarrow> tool_registry \<times> tool_result" where
  "regex_execute compile to_json ttl max_results pattern r =
     (let invalid = error_result ''Missing or invalid 'pattern' argument. Must be a non-empty string.'' in
      case pattern of
        None \<Rightarrow> (r, invalid)
      | Some p \<Rightarrow>
          if trim_space p = [] then (r, invalid)
          else if length p > max_regex_pattern_length
          then (r, error_result (''Pattern too long: max '' @ show_nat max_regex_pattern_length @ '' characters allowed''))
          else
            (let c = compile (''(?i)'' @ p) in
             case search_regex (case c of Inl _ \<Rightarrow> None | Inr m \<Rightarrow> Some m) max_results r of
               None \<Rightarrow> (r, error_result (''Invalid regex pattern syntax: failed to compile regex pattern '' @ [CHR 0x22] @
                 ''(?i)'' @ p @ [CHR 0x22] @ '': '' @ (case c of Inl e \<Rightarrow> e | Inr _ \<Rightarrow> []) @
                 ''. Please fix your regex and try again.''))
             | Some results \<Rightarrow> format_discovery to_json results ttl r))"


section \<open>Histories of a registry\<close>

datatype registry_op =
    OpRegister tool
  | OpRegisterHidden tool
  | OpPromote "string list" int
  | OpTick
  | OpMerge tool_registry

fun registry_step :: "registry_op \<Rightarrow> tool_registry \<Rightarrow> tool_registry" where
  "registry_step (OpRegister t) r = register_tool t r"
| "registry_step (OpRegisterHidden t) r = register_hidden t r"
| "registry_step (OpPromote names ttl) r = promote_tools names ttl r"
| "registry_step OpTick r = tick_ttl r"
| "registry_step (OpMerge src) r = merge_from src r"

definition registry_run :: "registry_op list \<Rightarrow> tool_registry \<Rightarrow> tool_registry" where
  "registry_run ops r = fold registry_step ops r"

text \<open>Entries are kept under the name of their tool.\<close>

definition wf_registry :: "tool_registry \<Rightarrow> bool" where
  "wf_registry r \<longleftrightarrow> wf_map (tr_tools r) \<and> (\<forall>n e. mget (tr_tools r) n = Some e \<longrightarrow> tl_name (te_tool e) = n)"

lemma wf_new_registry [simp]: "wf_registry new_tool_registry"
  by (simp add: wf_registry_def new_tool_registry_def)

lemma mget_put_tool [simp]:
  "mget (tr_tools (put_tool core t r)) n =
     (if n = tl_name t then Some \<lparr>te_tool = t, te_core = core, te_ttl = 0\<rparr> else mget (tr_tools r) n)"
  by (simp add: put_tool_def)

lemma wf_put_tool: "wf_registry r \<Longrightarrow> wf_registry (put_tool core t r)"
  by (auto simp: wf_registry_def put_tool_def)

lemma mget_promote_one:
  "mget (tr_tools (promote_one ttl name r)) n =
     (case mget (tr_tools r) n of
        None \<Rightarrow> None
      | Some e \<Rightarrow> Some (if n = name \<and> \<not> te_core e then e\<lparr>te_ttl := ttl\<rparr> else e))"
  by (auto simp: promote_one_def split: option.split)

lemma mget_promote_tools:
  "mget (tr_tools (promote_tools names ttl r)) n =
     (case mget (tr_tools r) n of
        None \<Rightarrow> None
      | Some e \<Rightarrow> Some (if n \<in> set names \<and> \<not> te_core e then e\<lparr>te_ttl := ttl\<rparr> else e))"
  unfolding promote_tools_def
  by (induction names arbitrary: r) (auto simp: mget_promote_one split: option.splits)

lemma wf_map_promote: "wf_map (tr_tools r) \<Longrightarrow> wf_map (tr_tools (promote_tools names ttl r))"
  unfolding promote_tools_def
  by (induction names arbitrary: r) (auto simp: promote_one_def split: option.splits)

lemma wf_promote_tools: "wf_registry r \<Longrightarrow> wf_registry (promote_tools names ttl r)"
  unfolding wf_registry_def
  by (auto simp: wf_map_promote mget_promote_tools split: option.splits if_splits)

lemma mget_tick_ttl: "mget (tr_tools (tick_ttl r)) n = map_option tick_entry (mget (tr_tools r) n)"
  by (simp add: tick_ttl_def map_of_map)

lemma tick_entry_tool [simp]: "te_tool (tick_entry e) = te_tool e" "te_core (tick_entry e) = te_core e"
  by (simp_all add: tick_entry_def)

lemma wf_tick_ttl: "wf_registry r \<Longrightarrow> wf_registry (tick_ttl r)"
proof -
  have "map fst (tr_tools (tick_ttl r)) = map fst (tr_tools r)" by (simp add: tick_ttl_def case_prod_beta comp_def)
  then show "wf_registry r \<Longrightarrow> wf_registry (tick_ttl r)" by (auto simp: wf_registry_def wf_map_def mget_tick_ttl)
qed

lemma merge_entry_cases:
  "merge_entry e r = r \<or> (mget (tr_tools r) (tl_name (te_tool e)) = None \<and> merge_entry e r = put_tool (te_core e) (te_tool e) r)"
  by (simp add: merge_entry_def register_tool_def register_hidden_def)

lemma wf_merge_from: "wf_registry r \<Longrightarrow> wf_registry (merge_from src r)"
proof -
  have "wf_registry r \<Longrightarrow> wf_registry (fold merge_entry es r)" for es
  proof (induction es arbitrary: r)
    case (Cons e es)
    then have "wf_registry (merge_entry e r)" using merge_entry_cases [of e r] wf_put_tool by metis
    with Cons show ?case by simp
  qed simp
  then show "wf_registry r \<Longrightarrow> wf_registry (merge_from src r)" by (simp add: merge_from_def)
qed

text \<open>A merge never replaces what the registry has.\<close>

lemma merge_from_keeps:
  "mget (tr_tools r) n = Some e \<Longrightarrow> mget (tr_tools (merge_from src r)) n = Some e"
proof -
  have "mget (tr_tools r) n = Some e \<Longrightarrow> mget (tr_tools (fold merge_entry es r)) n = Some e" for es
  proof (induction es arbitrary: r)
    case (Cons x es)
    have "mget (tr_tools (merge_entry x r)) n = Some e" using Cons.prems merge_entry_cases [of x r] by auto
    with Cons show ?case by simp
  qed simp
  then show "mget (tr_tools r) n = Some e \<Longrightarrow> mget (tr_tools (merge_from src r)) n = Some e" by (simp add: merge_from_def)
qed

lemma wf_registry_step: "wf_registry r \<Longrightarrow> wf_registry (registry_step op r)"
  by (cases op) (simp_all add: register_tool_def register_hidden_def wf_put_tool wf_promote_tools wf_tick_ttl wf_merge_from)

lemma wf_registry_run: "wf_registry r \<Longrightarrow> wf_registry (registry_run ops r)"
  unfolding registry_run_def by (induction ops arbitrary: r) (simp_all add: wf_registry_step)

section \<open>Offered tools\<close>

lemma get_tool_live: "get_tool r n = (case mget (tr_tools r) n of None \<Rightarrow> None | Some e \<Rightarrow> if live_entry e then Some (te_tool e) else None)"
  by (auto simp: get_tool_def live_entry_def split: option.split)

lemma set_map_filter_def: "set (List.map_filter f xs) = {y. \<exists>x \<in> set xs. f x = Some y}"
  by (force simp: List.map_filter_def)

lemma sorted_names_set: "set (sorted_tool_names r) = fst ` set (tr_tools r)"
  by (simp add: sorted_tool_names_def)

lemma to_provider_defs_get: "to_provider_defs r = List.map_filter (\<lambda>n. map_option tool_schema (get_tool r n)) (sorted_tool_names r)"
  unfolding to_provider_defs_def
  by (rule arg_cong [where f = "\<lambda>f. List.map_filter f (sorted_tool_names r)"])
    (auto simp: get_tool_def split: option.split)

lemma offered_get:
  assumes wf: "wf_registry r"
  shows "d \<in> set (to_provider_defs r) \<longleftrightarrow> (\<exists>t. get_tool r (td_name d) = Some t \<and> d = tool_schema t)"
proof -
  have name: "td_name (tool_schema t) = n" if "get_tool r n = Some t" for n t
    using that wf by (auto simp: wf_registry_def get_tool_def tool_schema_def split: option.splits if_splits)
  have key: "n \<in> set (sorted_tool_names r)" if "get_tool r n = Some t" for n t
    using that unfolding sorted_names_set keys_mget by (auto simp: get_tool_def split: option.splits)
  have "d \<in> set (to_provider_defs r) \<longleftrightarrow> (\<exists>n t. n \<in> set (sorted_tool_names r) \<and> get_tool r n = Some t \<and> d = tool_schema t)"
    unfolding to_provider_defs_get set_map_filter_def by (simp add: map_option_case split: option.splits) (metis option.exhaust option.inject option.discI)
  also have "\<dots> \<longleftrightarrow> (\<exists>t. get_tool r (td_name d) = Some t \<and> d = tool_schema t)"
    using name key by metis
  finally show ?thesis .
qed

text \<open>Ticks in a history.\<close>

definition ticks :: "registry_op list \<Rightarrow> nat" where
  "ticks ops = length (filter (\<lambda>op. op = OpTick) ops)"

text \<open>Steps that leave the registration of a name alone and do not promote it again.\<close>

fun leaves_alone :: "string \<Rightarrow> registry_op \<Rightarrow> bool" where
  "leaves_alone n (OpRegister t) \<longleftrightarrow> tl_name t \<noteq> n"
| "leaves_alone n (OpRegisterHidden t) \<longleftrightarrow> tl_name t \<noteq> n"
| "leaves_alone n (OpPromote names _) \<longleftrightarrow> n \<notin> set names"
| "leaves_alone n OpTick \<longleftrightarrow> True"
| "leaves_alone n (OpMerge _) \<longleftrightarrow> True"

lemma lease_step:
  "mget (tr_tools r) n = Some e \<Longrightarrow> \<not> te_core e \<Longrightarrow> leaves_alone n op \<Longrightarrow>
     mget (tr_tools (registry_step op r)) n = Some (if op = OpTick then tick_entry e else e)"
  by (cases op) (auto simp: register_tool_def register_hidden_def mget_promote_tools mget_tick_ttl merge_from_keeps)

lemma lease_run:
  "mget (tr_tools r) n = Some e \<Longrightarrow> \<not> te_core e \<Longrightarrow> list_all (leaves_alone n) ops \<Longrightarrow>
     mget (tr_tools (registry_run ops r)) n = Some ((tick_entry ^^ ticks ops) e)"
  unfolding registry_run_def
proof (induction ops arbitrary: r e)
  case (Cons op ops)
  have "mget (tr_tools (registry_step op r)) n = Some (if op = OpTick then tick_entry e else e)"
    using Cons.prems by (intro lease_step) simp_all
  moreover have "\<not> te_core (if op = OpTick then tick_entry e else e)" using Cons.prems by simp
  ultimately show ?case using Cons.IH Cons.prems
    by (cases "op = OpTick") (simp_all add: ticks_def funpow_swap1)
qed (simp add: ticks_def)

lemma tick_entry_ttl: "\<not> te_core e \<Longrightarrow> te_ttl (tick_entry e) = (if te_ttl e > 0 then te_ttl e - 1 else te_ttl e)"
  by (simp add: tick_entry_def)

lemma tick_entries: "\<not> te_core e \<Longrightarrow> live_entry ((tick_entry ^^ k) e) \<longleftrightarrow> int k < te_ttl e"
proof (induction k arbitrary: e)
  case 0
  then show ?case by (simp add: live_entry_def)
next
  case (Suc k)
  have "live_entry ((tick_entry ^^ Suc k) e) \<longleftrightarrow> live_entry ((tick_entry ^^ k) (tick_entry e))"
    by (simp add: funpow_swap1)
  also have "\<dots> \<longleftrightarrow> int k < te_ttl (tick_entry e)" using Suc by simp
  finally show ?case using tick_entry_ttl [OF Suc.prems] by (auto split: if_splits)
qed

section \<open>The index of the search tool\<close>

definition hidden_docs :: "tool_registry \<Rightarrow> (string \<times> string) list" where
  "hidden_docs r = fst (snapshot_hidden_tools r)"

text \<open>An upper bound of the registrations that a step makes.\<close>

fun registrations :: "registry_op \<Rightarrow> nat" where
  "registrations (OpRegister _) = 1"
| "registrations (OpRegisterHidden _) = 1"
| "registrations (OpMerge src) = length (tr_tools src)"
| "registrations _ = 0"

text \<open>A cached index of the current version was built from the current hidden tools.\<close>

definition cache_ok :: "tool_registry \<Rightarrow> search_cache \<Rightarrow> bool" where
  "cache_ok r c \<longleftrightarrow>
     (sc_docs c \<noteq> None \<longrightarrow> sc_version c \<le> tr_version r \<and>
        (sc_version c = tr_version r \<longrightarrow> sc_docs c = Some (hidden_docs r)))"

lemma cache_ok_put:
  "cache_ok r c \<Longrightarrow> tr_version r + 1 < 2 ^ 64 \<Longrightarrow>
     cache_ok (put_tool core t r) c \<and> tr_version (put_tool core t r) = tr_version r + 1"
  by (auto simp: cache_ok_def put_tool_def)

lemma cache_ok_merge_entry:
  "cache_ok r c \<Longrightarrow> tr_version r + 1 < 2 ^ 64 \<Longrightarrow>
     cache_ok (merge_entry e r) c \<and> tr_version (merge_entry e r) \<le> tr_version r + 1"
  using merge_entry_cases [of e r] cache_ok_put [of r c "te_core e" "te_tool e"] by auto

lemma cache_ok_merge_entries:
  "cache_ok r c \<Longrightarrow> tr_version r + length es < 2 ^ 64 \<Longrightarrow>
     cache_ok (fold merge_entry es r) c \<and> tr_version (fold merge_entry es r) \<le> tr_version r + length es"
proof (induction es arbitrary: r)
  case (Cons e es)
  have 1: "cache_ok (merge_entry e r) c" "tr_version (merge_entry e r) \<le> tr_version r + 1"
    using cache_ok_merge_entry [of r c e] Cons.prems by simp_all
  with Cons.IH [OF 1(1)] Cons.prems show ?case by simp
qed simp

lemma hidden_docs_same:
  "tr_version r' = tr_version r \<Longrightarrow> hidden_docs r' = hidden_docs r \<Longrightarrow> cache_ok r c \<Longrightarrow> cache_ok r' c"
  by (simp add: cache_ok_def)

lemma hidden_docs_promote_one:
  "hidden_docs (promote_one ttl n r) = hidden_docs r \<and> tr_version (promote_one ttl n r) = tr_version r"
proof -
  have "mget m n = Some e \<Longrightarrow> \<not> te_core e \<Longrightarrow>
      map (\<lambda>(n, e). (n, tl_description (te_tool e))) (filter (\<lambda>(n, e). \<not> te_core e) (mput n (e\<lparr>te_ttl := ttl\<rparr>) m)) =
      map (\<lambda>(n, e). (n, tl_description (te_tool e))) (filter (\<lambda>(n, e). \<not> te_core e) m)" for m e
    by (induction m) auto
  then show ?thesis by (auto simp: promote_one_def hidden_docs_def snapshot_hidden_tools_def split: option.split)
qed

lemma hidden_docs_promote:
  "hidden_docs (promote_tools names ttl r) = hidden_docs r \<and> tr_version (promote_tools names ttl r) = tr_version r"
  unfolding promote_tools_def by (induction names arbitrary: r) (simp_all add: hidden_docs_promote_one)

lemma hidden_docs_tick: "hidden_docs (tick_ttl r) = hidden_docs r \<and> tr_version (tick_ttl r) = tr_version r"
  by (simp add: hidden_docs_def snapshot_hidden_tools_def tick_ttl_def filter_map comp_def case_prod_unfold)

lemma cache_ok_step:
  assumes "cache_ok r c" and "tr_version r + registrations op < 2 ^ 64"
  shows "cache_ok (registry_step op r) c \<and> tr_version (registry_step op r) \<le> tr_version r + registrations op"
proof (cases op)
  case (OpRegister t)
  then show ?thesis using assms cache_ok_put [of r c] by (simp add: register_tool_def)
next
  case (OpRegisterHidden t)
  then show ?thesis using assms cache_ok_put [of r c] by (simp add: register_hidden_def)
next
  case (OpPromote names ttl)
  then show ?thesis using assms hidden_docs_promote [of names ttl r] hidden_docs_same [of "promote_tools names ttl r" r c] by simp
next
  case OpTick
  then show ?thesis using assms hidden_docs_tick [of r] hidden_docs_same [of "tick_ttl r" r c] by simp
next
  case (OpMerge src)
  let ?es = "List.map_filter (mget (tr_tools src)) (sorted_tool_names src)"
  have "length ?es \<le> length (tr_tools src)"
    by (simp add: List.map_filter_def sorted_tool_names_def) (metis length_filter_le length_map length_sort)
  then show ?thesis using OpMerge assms cache_ok_merge_entries [of r c ?es] by (simp add: merge_from_def)
qed

text \<open>A search tool at work beside the changes of its registry: \<open>None\<close> is one look-up of the index.\<close>

fun search_step :: "registry_op option \<Rightarrow> tool_registry \<times> search_cache \<Rightarrow> tool_registry \<times> search_cache" where
  "search_step (Some op) (r, c) = (registry_step op r, c)"
| "search_step None (r, c) = (r, fst (get_or_build_engine r c))"

definition search_registrations :: "registry_op option list \<Rightarrow> nat" where
  "search_registrations ops = sum_list (map (\<lambda>op. case op of None \<Rightarrow> 0 | Some op' \<Rightarrow> registrations op') ops)"

definition no_cache :: search_cache where
  "no_cache = \<lparr>sc_docs = None, sc_version = 0\<rparr>"

lemma engine_of_cache:
  "cache_ok r c \<Longrightarrow>
     snd (get_or_build_engine r c) = (if hidden_docs r = [] then None else Some (hidden_docs r)) \<or>
       (hidden_docs r = [] \<and> snd (get_or_build_engine r c) = Some [])"
  by (auto simp: get_or_build_engine_def cache_ok_def hidden_docs_def snapshot_hidden_tools_def Let_def split: if_splits)

lemma cache_ok_build: "cache_ok r c \<Longrightarrow> cache_ok r (fst (get_or_build_engine r c))"
  by (auto simp: get_or_build_engine_def cache_ok_def hidden_docs_def snapshot_hidden_tools_def Let_def split: if_splits)

lemma cache_ok_run:
  "cache_ok r c \<Longrightarrow> tr_version r + search_registrations ops < 2 ^ 64 \<Longrightarrow>
     cache_ok (fst (fold search_step ops (r, c))) (snd (fold search_step ops (r, c)))"
proof (induction ops arbitrary: r c)
  case (Cons op ops)
  show ?case
  proof (cases op)
    case None
    with Cons cache_ok_build [of r c] show ?thesis by (simp add: search_registrations_def)
  next
    case (Some o')
    with Cons.prems have "cache_ok (registry_step o' r) c \<and> tr_version (registry_step o' r) \<le> tr_version r + registrations o'"
      by (intro cache_ok_step) (simp_all add: search_registrations_def)
    with Cons Some show ?thesis by (simp add: search_registrations_def)
  qed
qed simp

section \<open>Properties\<close>

text \<open>
  A hidden tool is offered to the provider and can be called until as many ticks have passed since it
  was unlocked as its lease says, whatever else happens to the registry; and the tools that are offered
  are always the ones that can be called. A tick ends every round of tool calls, the unlocking one
  included, so a lease of \<open>ttl\<close> is \<open>ttl - 1\<close> further rounds, where the configuration speaks of
  conversational turns.
\<close>

theorem unlocked_for_ttl_rounds:
  assumes "wf_registry r" and "mget (tr_tools r) n = Some e" and "\<not> te_core e" and "n \<in> set names"
    and "list_all (leaves_alone n) ops"
  shows "(get_tool (registry_run ops (promote_tools names ttl r)) n \<noteq> None \<longleftrightarrow> int (ticks ops) < ttl)
    \<and> ((\<exists>d \<in> set (to_provider_defs (registry_run ops (promote_tools names ttl r))). td_name d = n) \<longleftrightarrow> int (ticks ops) < ttl)"
proof -
  let ?r = "registry_run ops (promote_tools names ttl r)"
  have "mget (tr_tools (promote_tools names ttl r)) n = Some (e\<lparr>te_ttl := ttl\<rparr>)"
    using assms by (simp add: mget_promote_tools)
  then have "mget (tr_tools ?r) n = Some ((tick_entry ^^ ticks ops) (e\<lparr>te_ttl := ttl\<rparr>))"
    using assms by (intro lease_run) simp_all
  then have g: "get_tool ?r n \<noteq> None \<longleftrightarrow> int (ticks ops) < ttl"
    using assms tick_entries [of "e\<lparr>te_ttl := ttl\<rparr>" "ticks ops"] by (simp add: get_tool_live)
  have wf: "wf_registry ?r" using assms by (simp add: wf_registry_run wf_promote_tools)
  have "(\<exists>d \<in> set (to_provider_defs ?r). td_name d = n) \<longleftrightarrow> get_tool ?r n \<noteq> None"
  proof
    assume "get_tool ?r n \<noteq> None"
    then obtain t where t: "get_tool ?r n = Some t" by blast
    then have "td_name (tool_schema t) = n"
      using wf by (auto simp: wf_registry_def get_tool_live tool_schema_def split: option.splits if_splits)
    then show "\<exists>d \<in> set (to_provider_defs ?r). td_name d = n" using offered_get [OF wf, of "tool_schema t"] t by auto
  qed (use offered_get [OF wf] in auto)
  with g show ?thesis by blast
qed

definition sample_tool :: "string \<Rightarrow> tool" where
  "sample_tool n = \<lparr>tl_name = n, tl_description = ''d'', tl_parameters = ''{}'', tl_async = False\<rparr>"

definition sample_registry :: tool_registry where
  "sample_registry = register_hidden (sample_tool ''i2c'') (register_tool (sample_tool ''exec'') new_tool_registry)"

theorem unlocked_for_ttl_rounds_witness:
  "get_tool (registry_run [OpTick] (promote_tools [''i2c''] 2 sample_registry)) ''i2c'' \<noteq> None
   \<and> get_tool (registry_run [OpTick, OpTick] (promote_tools [''i2c''] 2 sample_registry)) ''i2c'' = None"
proof -
  have e: "mget (tr_tools sample_registry) ''i2c'' = Some \<lparr>te_tool = sample_tool ''i2c'', te_core = False, te_ttl = 0\<rparr>"
    by (simp add: sample_registry_def register_hidden_def sample_tool_def)
  have wf: "wf_registry sample_registry" by (simp add: sample_registry_def register_hidden_def register_tool_def wf_put_tool)
  show ?thesis
    using unlocked_for_ttl_rounds [OF wf e, of "[''i2c'']" "[OpTick]" 2]
      unlocked_for_ttl_rounds [OF wf e, of "[''i2c'']" "[OpTick, OpTick]" 2] by (simp add: ticks_def)
qed

text \<open>
  C34: The index of the search tool is never stale: after any changes of the registry and any searches,
  the next search ranks exactly the hidden tools that are registered, as long as fewer than \<open>2 ^ 64\<close>
  registrations were made.
\<close>

theorem search_index_current:
  assumes "search_registrations ops < 2 ^ 64"
    and "fold search_step ops (new_tool_registry, no_cache) = (r, c)"
  shows "mset (case snd (get_or_build_engine r c) of None \<Rightarrow> [] | Some docs \<Rightarrow> docs) = mset (fst (snapshot_hidden_tools r))"
proof -
  have "cache_ok new_tool_registry no_cache" by (simp add: cache_ok_def no_cache_def)
  then have "cache_ok r c"
    using cache_ok_run [of new_tool_registry no_cache ops] assms by (simp add: new_tool_registry_def)
  from engine_of_cache [OF this] show ?thesis by (auto simp: hidden_docs_def)
qed

theorem search_index_current_witness:
  "mset (case snd (get_or_build_engine (register_hidden (sample_tool ''spi'') (register_hidden (sample_tool ''i2c'') new_tool_registry))
       \<lparr>sc_docs = Some [(''i2c'', ''d'')], sc_version = 1\<rparr>) of None \<Rightarrow> [] | Some docs \<Rightarrow> docs) =
   mset (fst (snapshot_hidden_tools (register_hidden (sample_tool ''spi'') (register_hidden (sample_tool ''i2c'') new_tool_registry))))"
  by (rule search_index_current [of "[Some (OpRegisterHidden (sample_tool ''i2c'')), None, Some (OpRegisterHidden (sample_tool ''spi''))]"])
    (simp_all add: search_registrations_def register_hidden_def put_tool_def sample_tool_def new_tool_registry_def
      get_or_build_engine_def no_cache_def snapshot_hidden_tools_def)

end
