(* ===== verification/Approval.thy ===== *)
theory Approval
  imports Shield
begin

text \<open>
  Approval of risky tool calls (\<open>pkg/shield/approval.go\<close>): requests, the one-place channel on which
  the answer to a request travels, callers that wait for it, and the periodic clean-up. A transition
  is one section under the mutex or one way out of the \<open>select\<close> of \<open>WaitForApproval\<close>. Identifiers
  are UUIDs: a request is created under an identifier that was never used before.
\<close>

section \<open>State\<close>

datatype approval_status = ApprovalPending | ApprovalApproved | ApprovalRejected | ApprovalExpired

record approval_request =
  ap_id :: string
  ap_threat_id :: string
  ap_tool_name :: string
  ap_tool_args :: "(string \<times> tool_arg) list"
  ap_reason :: string
  ap_created_at :: int
  ap_expires_at :: int
  ap_status :: approval_status
  ap_scope :: shield_scope
  ap_skill_name :: string
  ap_domain :: string
  ap_url :: string

text \<open>A channel: its buffered value, and whether it is closed.\<close>

record answer_chan =
  an_buffer :: "bool option"
  an_closed :: bool

record approval_manager =
  am_requests :: "(string, approval_request) gomap"
  am_responses :: "(string, unit) gomap"
  am_chans :: "(string, answer_chan) gomap"
  am_timeout :: int
  am_pending_ch :: "string list"

definition minutes :: "int \<Rightarrow> int" where
  "minutes n = n * 60 * 1000000000"

definition new_approval_manager :: "int \<Rightarrow> approval_manager" where
  "new_approval_manager timeout =
     \<lparr>am_requests = [], am_responses = [], am_chans = [],
      am_timeout = (if timeout \<le> 0 then minutes 5 else timeout), am_pending_ch = []\<rparr>"

definition set_request :: "string \<Rightarrow> approval_request \<Rightarrow> approval_manager \<Rightarrow> approval_manager" where
  "set_request i r m = m\<lparr>am_requests := mput i r (am_requests m)\<rparr>"

definition create_request ::
    "string \<Rightarrow> int \<Rightarrow> shield_event \<Rightarrow> shield_decision \<Rightarrow> approval_manager \<Rightarrow> approval_manager \<times> approval_request" where
  "create_request i now ev d m =
     (let r = \<lparr>ap_id = i, ap_threat_id = sd_threat_id d, ap_tool_name = ev_tool_name ev, ap_tool_args = ev_tool_args ev,
               ap_reason = sd_reason d, ap_created_at = now, ap_expires_at = now + am_timeout m,
               ap_status = ApprovalPending, ap_scope = ev_scope ev, ap_skill_name = ev_skill_name ev,
               ap_domain = ev_domain ev, ap_url = ev_url ev\<rparr>
      in ((set_request i r m)\<lparr>am_responses := mput i () (am_responses m),
            am_chans := mput i \<lparr>an_buffer = None, an_closed = False\<rparr> (am_chans m),
            am_pending_ch := (if length (am_pending_ch m) < 100 then am_pending_ch m @ [i] else am_pending_ch m)\<rparr>, r))"

text \<open>The non-blocking send of an answer.\<close>

definition send_answer :: "string \<Rightarrow> bool \<Rightarrow> approval_manager \<Rightarrow> approval_manager" where
  "send_answer i b m =
     (case mget (am_responses m) i of
        None \<Rightarrow> m
      | Some _ \<Rightarrow>
          (case mget (am_chans m) i of
             None \<Rightarrow> m
           | Some c \<Rightarrow> if an_buffer c = None then m\<lparr>am_chans := mput i (c\<lparr>an_buffer := Some b\<rparr>) (am_chans m)\<rparr> else m))"

definition respond :: "bool \<Rightarrow> string \<Rightarrow> approval_manager \<Rightarrow> approval_manager \<times> bool" where
  "respond b i m =
     (case mget (am_requests m) i of
        None \<Rightarrow> (m, False)
      | Some r \<Rightarrow>
          if ap_status r \<noteq> ApprovalPending then (m, False)
          else (send_answer i b (set_request i (r\<lparr>ap_status := (if b then ApprovalApproved else ApprovalRejected)\<rparr>) m), True))"

definition approve :: "string \<Rightarrow> approval_manager \<Rightarrow> approval_manager \<times> bool" where
  "approve i m = respond True i m"

definition reject :: "string \<Rightarrow> approval_manager \<Rightarrow> approval_manager \<times> bool" where
  "reject i m = respond False i m"

definition get_pending :: "approval_manager \<Rightarrow> approval_request list" where
  "get_pending m = filter (\<lambda>r. ap_status r = ApprovalPending) (map snd (am_requests m))"

definition get_request :: "approval_manager \<Rightarrow> string \<Rightarrow> approval_request option" where
  "get_request m i = mget (am_requests m) i"

definition drop_response :: "string \<Rightarrow> approval_manager \<Rightarrow> approval_manager" where
  "drop_response i m = m\<lparr>am_responses := mdel i (am_responses m)\<rparr>"

definition close_response :: "string \<Rightarrow> approval_manager \<Rightarrow> approval_manager" where
  "close_response i m =
     (case mget (am_responses m) i of
        None \<Rightarrow> m
      | Some _ \<Rightarrow>
          drop_response i (case mget (am_chans m) i of
              None \<Rightarrow> m | Some c \<Rightarrow> m\<lparr>am_chans := mput i (c\<lparr>an_closed := True\<rparr>) (am_chans m)\<rparr>))"

definition expire :: "approval_request \<Rightarrow> approval_request" where
  "expire r = (if ap_status r = ApprovalPending then r\<lparr>ap_status := ApprovalExpired\<rparr> else r)"

definition cleanup_one :: "int \<Rightarrow> string \<Rightarrow> approval_manager \<Rightarrow> approval_manager" where
  "cleanup_one now i m =
     (case mget (am_requests m) i of
        None \<Rightarrow> m
      | Some r \<Rightarrow>
          (let late = ap_status r = ApprovalPending \<and> now > ap_expires_at r;
               m1 = (if late then close_response i (set_request i (expire r) m) else m);
               r1 = (if late then expire r else r)
           in if ap_status r1 \<noteq> ApprovalPending \<and> now - ap_expires_at r1 > minutes 5
              then m1\<lparr>am_requests := mdel i (am_requests m1)\<rparr> else m1))"

text \<open>One tick of the clean-up goroutine.\<close>

definition cleanup_expired :: "int \<Rightarrow> approval_manager \<Rightarrow> approval_manager" where
  "cleanup_expired now m = fold (cleanup_one now) (map fst (am_requests m)) m"

definition close_manager :: "approval_manager \<Rightarrow> approval_manager" where
  "close_manager m = (fold close_response (map fst (am_responses m)) m)\<lparr>am_requests := []\<rparr>"

section \<open>Waiting callers\<close>

datatype wait_result = WaitAnswer bool | WaitNotFound | WaitClosed | WaitExpired | WaitCancelled

datatype waiter = LookedUp string | Selecting string int | Returned

datatype approval_event = Created string | Answered string bool | WaitReturned string wait_result

record approval_world =
  aw_manager :: approval_manager
  aw_waiters :: "waiter list"
  aw_log :: "approval_event list"

datatype approval_action =
    ACreate string int shield_event shield_decision
  | AApprove string
  | AReject string
  | AWait string
  | ALookup nat
  | AReceive nat
  | ATimer nat int
  | ACancel nat
  | ACleanup int
  | APollPending
  | AClose

definition log_event :: "approval_event \<Rightarrow> approval_world \<Rightarrow> approval_world" where
  "log_event e w = w\<lparr>aw_log := aw_log w @ [e]\<rparr>"

definition finish_wait :: "nat \<Rightarrow> string \<Rightarrow> wait_result \<Rightarrow> approval_world \<Rightarrow> approval_world" where
  "finish_wait k i res w = log_event (WaitReturned i res) (w\<lparr>aw_waiters := (aw_waiters w)[k := Returned]\<rparr>)"

definition waiter_at :: "approval_world \<Rightarrow> nat \<Rightarrow> waiter" where
  "waiter_at w k = (if k < length (aw_waiters w) then aw_waiters w ! k else Returned)"

definition respond_step :: "bool \<Rightarrow> string \<Rightarrow> approval_world \<Rightarrow> approval_world" where
  "respond_step b i w =
     (let (m, ok) = respond b i (aw_manager w); w1 = w\<lparr>aw_manager := m\<rparr>
      in if ok then log_event (Answered i b) w1 else w1)"

text \<open>\<open>None\<close>: the step is not possible in this state.\<close>

fun approval_fire :: "approval_action \<Rightarrow> approval_world \<Rightarrow> approval_world option" where
  "approval_fire (ACreate i now ev d) w =
     (if Created i \<in> set (aw_log w) then None
      else Some (log_event (Created i) (w\<lparr>aw_manager := fst (create_request i now ev d (aw_manager w))\<rparr>)))"
| "approval_fire (AApprove i) w = Some (respond_step True i w)"
| "approval_fire (AReject i) w = Some (respond_step False i w)"
| "approval_fire (AWait i) w =
     (case mget (am_responses (aw_manager w)) i of
        None \<Rightarrow> Some (log_event (WaitReturned i WaitNotFound) (w\<lparr>aw_waiters := aw_waiters w @ [Returned]\<rparr>))
      | Some _ \<Rightarrow> Some (w\<lparr>aw_waiters := aw_waiters w @ [LookedUp i]\<rparr>))"
| "approval_fire (ALookup k) w =
     (case waiter_at w k of
        LookedUp i \<Rightarrow>
          (case mget (am_requests (aw_manager w)) i of
             None \<Rightarrow> Some (finish_wait k i WaitNotFound w)
           | Some r \<Rightarrow> Some (w\<lparr>aw_waiters := (aw_waiters w)[k := Selecting i (ap_expires_at r)]\<rparr>))
      | _ \<Rightarrow> None)"
| "approval_fire (AReceive k) w =
     (case waiter_at w k of
        Selecting i e \<Rightarrow>
          (case mget (am_chans (aw_manager w)) i of
             None \<Rightarrow> None
           | Some c \<Rightarrow>
               (case an_buffer c of
                  Some b \<Rightarrow>
                    Some (finish_wait k i (WaitAnswer b)
                      (w\<lparr>aw_manager := (aw_manager w)\<lparr>am_chans := mput i (c\<lparr>an_buffer := None\<rparr>) (am_chans (aw_manager w))\<rparr>\<rparr>))
                | None \<Rightarrow> if an_closed c then Some (finish_wait k i WaitClosed w) else None))
      | _ \<Rightarrow> None)"
| "approval_fire (ATimer k now) w =
     (case waiter_at w k of
        Selecting i e \<Rightarrow>
          if now < e then None
          else
            (let m = aw_manager w;
                 m1 = (case mget (am_requests m) i of None \<Rightarrow> m | Some r \<Rightarrow> set_request i (expire r) m)
             in Some (finish_wait k i WaitExpired (w\<lparr>aw_manager := drop_response i m1\<rparr>)))
      | _ \<Rightarrow> None)"
| "approval_fire (ACancel k) w =
     (case waiter_at w k of
        Selecting i e \<Rightarrow> Some (finish_wait k i WaitCancelled w)
      | _ \<Rightarrow> None)"
| "approval_fire (ACleanup now) w = Some (w\<lparr>aw_manager := cleanup_expired now (aw_manager w)\<rparr>)"
| "approval_fire APollPending w =
     (case am_pending_ch (aw_manager w) of
        [] \<Rightarrow> None
      | _ # is \<Rightarrow> Some (w\<lparr>aw_manager := (aw_manager w)\<lparr>am_pending_ch := is\<rparr>\<rparr>))"
| "approval_fire AClose w = Some (w\<lparr>aw_manager := close_manager (aw_manager w)\<rparr>)"

fun approval_run :: "approval_action list \<Rightarrow> approval_world \<Rightarrow> approval_world option" where
  "approval_run [] w = Some w"
| "approval_run (a # as) w = (case approval_fire a w of None \<Rightarrow> None | Some w' \<Rightarrow> approval_run as w')"

definition new_approval_world :: "int \<Rightarrow> approval_world" where
  "new_approval_world timeout = \<lparr>aw_manager = new_approval_manager timeout, aw_waiters = [], aw_log = []\<rparr>"

section \<open>Invariant\<close>

fun answers_of :: "string \<Rightarrow> approval_event list \<Rightarrow> bool list" where
  "answers_of i [] = []"
| "answers_of i (Answered j b # es) = (if i = j then b # answers_of i es else answers_of i es)"
| "answers_of i (_ # es) = answers_of i es"

fun deliveries_of :: "string \<Rightarrow> approval_event list \<Rightarrow> bool list" where
  "deliveries_of i [] = []"
| "deliveries_of i (WaitReturned j (WaitAnswer b) # es) = (if i = j then b # deliveries_of i es else deliveries_of i es)"
| "deliveries_of i (_ # es) = deliveries_of i es"

definition buffered :: "string \<Rightarrow> approval_manager \<Rightarrow> bool list" where
  "buffered i m =
     (case mget (am_chans m) i of None \<Rightarrow> [] | Some c \<Rightarrow> (case an_buffer c of None \<Rightarrow> [] | Some b \<Rightarrow> [b]))"

definition is_pending :: "string \<Rightarrow> approval_manager \<Rightarrow> bool" where
  "is_pending i m \<longleftrightarrow> (case mget (am_requests m) i of None \<Rightarrow> False | Some r \<Rightarrow> ap_status r = ApprovalPending)"

text \<open>
  What was delivered together with what is in the channel is a part of the at most one answer, a
  pending request has none, and only created requests are known.
\<close>

definition request_inv :: "string \<Rightarrow> approval_manager \<Rightarrow> approval_event list \<Rightarrow> bool" where
  "request_inv i m evs \<longleftrightarrow>
     (deliveries_of i evs @ buffered i m = [] \<or> deliveries_of i evs @ buffered i m = answers_of i evs)
     \<and> length (answers_of i evs) \<le> 1
     \<and> (is_pending i m \<longrightarrow> answers_of i evs = [])
     \<and> (Created i \<notin> set evs \<longrightarrow> answers_of i evs = [] \<and> mget (am_requests m) i = None)"

lemma answers_append [simp]: "answers_of i (es @ fs) = answers_of i es @ answers_of i fs"
  by (induction i es rule: answers_of.induct) auto

lemma deliveries_append [simp]: "deliveries_of i (es @ fs) = deliveries_of i es @ deliveries_of i fs"
  by (induction i es rule: deliveries_of.induct) auto

text \<open>A change that only forgets: it keeps or empties buffers, settles or drops requests.\<close>

definition forgets :: "approval_manager \<Rightarrow> approval_manager \<Rightarrow> bool" where
  "forgets m m' \<longleftrightarrow> (\<forall>i. buffered i m' = buffered i m \<and> (is_pending i m' \<longrightarrow> is_pending i m)
     \<and> (mget (am_requests m) i = None \<longrightarrow> mget (am_requests m') i = None))"

lemma forgets_refl [simp]: "forgets m m"
  by (simp add: forgets_def)

lemma forgets_trans: "forgets m m' \<Longrightarrow> forgets m' m'' \<Longrightarrow> forgets m m''"
  unfolding forgets_def by metis

lemma forgets_inv: "forgets m m' \<Longrightarrow> request_inv i m evs \<Longrightarrow> request_inv i m' evs"
  unfolding forgets_def request_inv_def by metis

lemma forgets_fold: "(\<And>x m. x \<in> set xs \<Longrightarrow> forgets m (f x m)) \<Longrightarrow> forgets m (fold f xs m)"
proof (induction xs arbitrary: m)
  case (Cons x xs)
  have "forgets m (f x m)" by (rule Cons.prems) simp
  moreover have "forgets (f x m) (fold f xs (f x m))" by (rule Cons.IH, rule Cons.prems) simp
  ultimately show ?case using forgets_trans by simp
qed simp

lemma forgets_drop_response: "forgets m (drop_response i m)"
  by (simp add: forgets_def drop_response_def buffered_def is_pending_def)

lemma forgets_close_response: "forgets m (close_response i m)"
  by (simp add: forgets_def close_response_def drop_response_def buffered_def is_pending_def split: option.split)

lemma forgets_expire: "mget (am_requests m) i = Some r \<Longrightarrow> forgets m (set_request i (expire r) m)"
  by (auto simp: forgets_def set_request_def buffered_def is_pending_def expire_def)

lemma forgets_delete: "forgets m (m\<lparr>am_requests := mdel i (am_requests m)\<rparr>)"
  by (simp add: forgets_def buffered_def is_pending_def)

lemma forgets_cleanup_one: "forgets m (cleanup_one now i m)"
proof (cases "mget (am_requests m) i")
  case (Some r)
  have 1: "forgets m (close_response i (set_request i (expire r) m))"
    using forgets_expire [OF Some] forgets_close_response forgets_trans by blast
  then show ?thesis using forgets_delete forgets_trans Some
    unfolding cleanup_one_def Let_def by (auto intro: forgets_trans [OF 1 forgets_delete] forgets_delete)
qed (simp add: cleanup_one_def)

lemma forgets_cleanup: "forgets m (cleanup_expired now m)"
  unfolding cleanup_expired_def by (intro forgets_fold forgets_cleanup_one)

lemma forgets_close: "forgets m (close_manager m)"
proof -
  have "forgets m (fold close_response (map fst (am_responses m)) m)" by (intro forgets_fold forgets_close_response)
  moreover have "forgets m' (m'\<lparr>am_requests := []\<rparr>)" for m' :: approval_manager
    by (simp add: forgets_def buffered_def is_pending_def)
  ultimately show ?thesis unfolding close_manager_def using forgets_trans by blast
qed

definition approval_inv :: "approval_world \<Rightarrow> bool" where
  "approval_inv w \<longleftrightarrow> (\<forall>i. request_inv i (aw_manager w) (aw_log w))"

lemma inv_forgets: "approval_inv w \<Longrightarrow> forgets (aw_manager w) m \<Longrightarrow> approval_inv (w\<lparr>aw_manager := m\<rparr>)"
  using forgets_inv by (simp add: approval_inv_def)

lemma inv_waiters: "approval_inv (w\<lparr>aw_waiters := ws\<rparr>) = approval_inv w"
  by (simp add: approval_inv_def)

lemma inv_log_return: "res \<in> {WaitNotFound, WaitClosed, WaitExpired, WaitCancelled} \<Longrightarrow> approval_inv w \<Longrightarrow> approval_inv (log_event (WaitReturned i res) w)"
  by (auto simp: approval_inv_def log_event_def request_inv_def)

lemma approval_inv_finish: "res \<in> {WaitNotFound, WaitClosed, WaitExpired, WaitCancelled} \<Longrightarrow> approval_inv w \<Longrightarrow> approval_inv (finish_wait k i res w)"
  unfolding finish_wait_def by (intro inv_log_return) (simp_all add: inv_waiters)

lemma inv_create:
  assumes "approval_inv w" and "Created i \<notin> set (aw_log w)"
  shows "approval_inv (log_event (Created i) (w\<lparr>aw_manager := fst (create_request i now ev d (aw_manager w))\<rparr>))"
  unfolding approval_inv_def
proof
  fix j
  have "request_inv j (aw_manager w) (aw_log w)" using assms(1) by (simp add: approval_inv_def)
  then show "request_inv j (aw_manager (log_event (Created i) (w\<lparr>aw_manager := fst (create_request i now ev d (aw_manager w))\<rparr>)))
      (aw_log (log_event (Created i) (w\<lparr>aw_manager := fst (create_request i now ev d (aw_manager w))\<rparr>)))"
    using assms(2)
    by (cases "i = j") (auto simp: request_inv_def log_event_def create_request_def Let_def buffered_def is_pending_def set_request_def)
qed

lemma buffered_send:
  "buffered j (send_answer i b m) = buffered j m \<or> (j = i \<and> buffered i m = [] \<and> buffered i (send_answer i b m) = [b])"
  by (auto simp: send_answer_def buffered_def split: option.split)

lemma requests_send [simp]: "am_requests (send_answer i b m) = am_requests m"
  by (simp add: send_answer_def split: option.split)

lemma inv_respond:
  assumes "approval_inv w"
  shows "approval_inv (respond_step b i w)"
proof (cases "is_pending i (aw_manager w)")
  case False
  then show ?thesis using assms
    by (auto simp: respond_step_def respond_def is_pending_def approval_inv_def split: option.splits)
next
  case True
  then obtain r where r: "mget (am_requests (aw_manager w)) i = Some r" "ap_status r = ApprovalPending"
    by (auto simp: is_pending_def split: option.splits)
  let ?m = "set_request i (r\<lparr>ap_status := (if b then ApprovalApproved else ApprovalRejected)\<rparr>) (aw_manager w)"
  have step: "respond_step b i w = log_event (Answered i b) (w\<lparr>aw_manager := send_answer i b ?m\<rparr>)"
    using r by (simp add: respond_step_def respond_def)
  have buf: "buffered j ?m = buffered j (aw_manager w)" for j by (simp add: buffered_def set_request_def)
  show ?thesis unfolding step approval_inv_def
  proof
    fix j
    have inv: "request_inv j (aw_manager w) (aw_log w)" using assms by (simp add: approval_inv_def)
    show "request_inv j (aw_manager (log_event (Answered i b) (w\<lparr>aw_manager := send_answer i b ?m\<rparr>)))
       (aw_log (log_event (Answered i b) (w\<lparr>aw_manager := send_answer i b ?m\<rparr>)))"
    proof (cases "j = i")
      case True
      have "answers_of i (aw_log w) = []" "Created i \<in> set (aw_log w)"
        using inv True \<open>is_pending i (aw_manager w)\<close> r(1) by (auto simp: request_inv_def)
      then have "deliveries_of i (aw_log w) = []" "buffered i ?m = []"
        using inv True buf by (auto simp: request_inv_def)
      then show ?thesis
        using buffered_send [of i i b ?m] True \<open>answers_of i (aw_log w) = []\<close> \<open>Created i \<in> set (aw_log w)\<close>
        by (auto simp: request_inv_def log_event_def is_pending_def set_request_def)
    next
      case False
      then have "buffered j (send_answer i b ?m) = buffered j (aw_manager w)" using buffered_send [of j i b ?m] buf by auto
      then show ?thesis using inv False by (simp add: request_inv_def log_event_def is_pending_def set_request_def)
    qed
  qed
qed

lemma inv_receive:
  assumes "approval_inv w" and c: "mget (am_chans (aw_manager w)) i = Some c" and b: "an_buffer c = Some b"
  shows "approval_inv (finish_wait k i (WaitAnswer b)
     (w\<lparr>aw_manager := (aw_manager w)\<lparr>am_chans := mput i (c\<lparr>an_buffer := None\<rparr>) (am_chans (aw_manager w))\<rparr>\<rparr>))"
  unfolding approval_inv_def
proof
  fix j
  have inv: "request_inv j (aw_manager w) (aw_log w)" using assms(1) by (simp add: approval_inv_def)
  have "buffered i (aw_manager w) = [b]" using c b by (simp add: buffered_def)
  then show "request_inv j (aw_manager (finish_wait k i (WaitAnswer b)
       (w\<lparr>aw_manager := (aw_manager w)\<lparr>am_chans := mput i (c\<lparr>an_buffer := None\<rparr>) (am_chans (aw_manager w))\<rparr>\<rparr>)))
     (aw_log (finish_wait k i (WaitAnswer b)
       (w\<lparr>aw_manager := (aw_manager w)\<lparr>am_chans := mput i (c\<lparr>an_buffer := None\<rparr>) (am_chans (aw_manager w))\<rparr>\<rparr>)))"
    using inv by (cases "j = i") (auto simp: request_inv_def finish_wait_def log_event_def buffered_def is_pending_def)
qed

lemma inv_timer:
  assumes "approval_inv w"
  shows "approval_inv (finish_wait k i WaitExpired (w\<lparr>aw_manager := drop_response i
     (case mget (am_requests (aw_manager w)) i of None \<Rightarrow> aw_manager w | Some r \<Rightarrow> set_request i (expire r) (aw_manager w))\<rparr>))"
proof (rule approval_inv_finish)
  have "forgets (aw_manager w) (case mget (am_requests (aw_manager w)) i of None \<Rightarrow> aw_manager w
      | Some r \<Rightarrow> set_request i (expire r) (aw_manager w))"
    using forgets_expire by (auto split: option.split)
  then show "approval_inv (w\<lparr>aw_manager := drop_response i
     (case mget (am_requests (aw_manager w)) i of None \<Rightarrow> aw_manager w | Some r \<Rightarrow> set_request i (expire r) (aw_manager w))\<rparr>)"
    using forgets_drop_response forgets_trans by (intro inv_forgets [OF assms]) blast
qed simp

lemma approval_inv_fire: "approval_inv w \<Longrightarrow> approval_fire a w = Some w' \<Longrightarrow> approval_inv w'"
proof (induction a w rule: approval_fire.induct)
  case (4 i w)
  then show ?case using inv_log_return [of WaitNotFound "w\<lparr>aw_waiters := aw_waiters w @ [Returned]\<rparr>" i]
    by (auto simp: inv_waiters split: option.splits)
next
  case (5 k w)
  then show ?case by (auto simp: inv_waiters intro: approval_inv_finish split: waiter.splits option.splits)
next
  case (6 k w)
  then show ?case by (auto intro: approval_inv_finish inv_receive split: waiter.splits option.splits if_splits)
next
  case (7 k now w)
  then show ?case by (auto simp: Let_def intro: inv_timer split: waiter.splits if_splits)
next
  case (8 k w)
  then show ?case by (auto intro: approval_inv_finish split: waiter.splits)
next
  case (10 w)
  then show ?case by (auto simp: approval_inv_def request_inv_def buffered_def is_pending_def split: list.splits)
qed (auto simp: inv_create inv_respond intro: inv_forgets forgets_cleanup forgets_close split: if_splits)

lemma approval_inv_run: "approval_inv w \<Longrightarrow> approval_run as w = Some w' \<Longrightarrow> approval_inv w'"
  by (induction as arbitrary: w) (auto split: option.splits intro: approval_inv_fire)

lemma inv_new: "approval_inv (new_approval_world timeout)"
  by (simp add: approval_inv_def new_approval_world_def new_approval_manager_def request_inv_def buffered_def is_pending_def)

lemma answers_set: "Answered i b \<in> set es \<longleftrightarrow> b \<in> set (answers_of i es)"
  by (induction i es rule: answers_of.induct) auto

lemma deliveries_set: "WaitReturned i (WaitAnswer b) \<in> set es \<longleftrightarrow> b \<in> set (deliveries_of i es)"
  by (induction i es rule: deliveries_of.induct) auto

section \<open>Properties\<close>

text \<open>
  C28: In every run of callers, answers, time-outs and clean-ups a request is answered at most once,
  and a waiting caller is told yes (or no) only when that answer was given, at most once in all: a
  call that needs approval goes ahead only after its own request was approved and not rejected.
\<close>

theorem approval_only_by_answer:
  "case approval_run as (new_approval_world timeout) of
     None \<Rightarrow> True
   | Some w \<Rightarrow>
       length (answers_of i (aw_log w)) \<le> 1 \<and> length (deliveries_of i (aw_log w)) \<le> 1
     \<and> {b. WaitReturned i (WaitAnswer b) \<in> set (aw_log w)} \<subseteq> {b. Answered i b \<in> set (aw_log w)}
     \<and> \<not> (WaitReturned i (WaitAnswer True) \<in> set (aw_log w) \<and> Answered i False \<in> set (aw_log w))"
proof (cases "approval_run as (new_approval_world timeout)")
  case (Some w)
  then have "request_inv i (aw_manager w) (aw_log w)"
    using approval_inv_run [OF inv_new] by (auto simp: approval_inv_def)
  then have "length (answers_of i (aw_log w)) \<le> 1" "set (deliveries_of i (aw_log w)) \<subseteq> set (answers_of i (aw_log w))"
    "length (deliveries_of i (aw_log w)) \<le> length (answers_of i (aw_log w))"
    unfolding request_inv_def by (metis, metis append_is_Nil_conv empty_iff empty_set set_append subsetI sup_ge1,
        metis append_is_Nil_conv le_add1 length_append list.size(3) zero_le)
  then show ?thesis
    unfolding Some option.case deliveries_set answers_set
    by (cases "answers_of i (aw_log w)"; cases "tl (answers_of i (aw_log w))") auto
qed simp

text \<open>
  An approval can be accepted and still have no effect: at the expiry the timer of the waiting
  caller may win against an answer that is already in its channel. The caller is told that the
  request expired although Approve returned true and the request stays approved.
\<close>

definition late_approval :: "approval_action list" where
  "late_approval =
     [ACreate ''r1'' 0 (tool_event ''exec'' ''cmd'' ''ls'') (plain_decision ActionRequireApproval (tool_event ''exec'' ''cmd'' ''ls'') []),
      AWait ''r1'', ALookup 0, AApprove ''r1'', ATimer 0 (minutes 5)]"

theorem approval_lost_at_expiry:
  "case approval_run late_approval (new_approval_world 0) of
     None \<Rightarrow> False
   | Some w \<Rightarrow>
       Answered ''r1'' True \<in> set (aw_log w) \<and> WaitReturned ''r1'' WaitExpired \<in> set (aw_log w)
     \<and> map_option ap_status (get_request (aw_manager w) ''r1'') = Some ApprovalApproved"
  by code_simp

end
