(* ===== verification/SessionStore.thy ===== *)
theory SessionStore
  imports Prelude
begin

text \<open>
  The interface \<open>SessionStore\<close> of \<open>pkg/session/session_store.go\<close>: what the agent loop relies on,
  whichever backend keeps the conversations. Two keys can name the same session of a backend
  (\<open>same\<close>), and a backend may keep only part of a message (\<open>keep\<close>: the JSON backend drops the
  fields tagged \<open>json:"-"\<close>). The contract covers every operation that changes a session and both
  reads; it is interpreted by the in-memory manager and by the JSONL backend.
\<close>

section \<open>Conversations\<close>

datatype 'm session_op = SAdd 'm | SSetHistory "'m list" | SSetSummary string | STruncate int | SSave

text \<open>Whether the session exists, its history and its summary.\<close>

type_synonym 'm conversation = "bool \<times> 'm list \<times> string"

text \<open>Keep the last \<open>n\<close> messages, none when \<open>n\<close> is not positive.\<close>

definition truncate_list :: "int \<Rightarrow> 'm list \<Rightarrow> 'm list" where
  "truncate_list n ms = keep_last (nat n) ms"

lemma truncate_map: "truncate_list n (map f ms) = map f (truncate_list n ms)"
  by (simp add: truncate_list_def keep_last_def drop_map)

text \<open>Replacing the history or the summary of a session that does not exist does nothing.\<close>

fun conversation_step :: "('m \<Rightarrow> 'm) \<Rightarrow> 'm session_op \<Rightarrow> 'm conversation \<Rightarrow> 'm conversation" where
  "conversation_step keep (SAdd m) (known, ms, s) = (True, ms @ [keep m], s)"
| "conversation_step keep (SSetHistory us) (known, ms, s) = (known, if known then map keep us else ms, s)"
| "conversation_step keep (SSetSummary t) (known, ms, s) = (known, ms, if known then t else s)"
| "conversation_step keep (STruncate n) (known, ms, s) = (known, truncate_list n ms, s)"
| "conversation_step keep SSave c = c"

fun op_message_ok :: "('m \<Rightarrow> bool) \<Rightarrow> 'm session_op \<Rightarrow> bool" where
  "op_message_ok ok (SAdd m) = ok m"
| "op_message_ok ok (SSetHistory us) = list_all ok us"
| "op_message_ok ok _ = True"

lemma op_message_ok_any: "op_message_ok (\<lambda>m. True) op"
  by (cases op) (simp_all add: list_all_iff)

text \<open>
  Before the first message a session is only cleared, never given a history or a summary: the
  backends differ on whether such a call creates the session.
\<close>

fun created_first :: "'m session_op list \<Rightarrow> bool" where
  "created_first [] = True"
| "created_first (SAdd m # ops) = True"
| "created_first (SSetHistory us # ops) = (us = [] \<and> created_first ops)"
| "created_first (SSetSummary t # ops) = (t = [] \<and> created_first ops)"
| "created_first (op # ops) = created_first ops"

definition calls_for :: "string \<Rightarrow> ('e \<times> string \<times> 'm session_op) list \<Rightarrow> 'm session_op list" where
  "calls_for k ops = map (\<lambda>a. snd (snd a)) (filter (\<lambda>a. fst (snd a) = k) ops)"

text \<open>
  Two backends, one that keeps whole messages and one that keeps \<open>f\<close> of each: their conversations
  stay related.
\<close>

lemma conversations_agree:
  assumes "if known then True else ms = [] \<and> s = [] \<and> created_first ops"
  shows "snd (fold (conversation_step f) ops (True, map f ms, s)) =
    map_prod (map f) id (snd (fold (conversation_step (\<lambda>m. m)) ops (known, ms, s)))"
  using assms
proof (induction ops arbitrary: known ms s)
  case (Cons a ops)
  show ?case
  proof (cases a)
    case (SAdd m)
    then show ?thesis using Cons.IH [of True "ms @ [m]" s] by simp
  next
    case (SSetHistory us)
    then show ?thesis using Cons.IH [of known "if known then us else ms" s] Cons.prems
      by (cases known) simp_all
  next
    case (SSetSummary t)
    then show ?thesis using Cons.IH [of known ms "if known then t else s"] Cons.prems
      by (cases known) simp_all
  next
    case (STruncate n)
    then show ?thesis using Cons.IH [of known "truncate_list n ms" s] Cons.prems
      by (cases known) (simp_all add: truncate_map truncate_list_def keep_last_def drop_map)
  next
    case SSave
    then show ?thesis using Cons.IH [of known ms s] Cons.prems by (cases known) simp_all
  qed
qed simp

section \<open>The interface\<close>

text \<open>Every operation takes what it meets (the clock, whether a file can be written) as a first argument.\<close>

locale session_store =
  fixes view :: "'s \<Rightarrow> string \<Rightarrow> 'm conversation"
    and add :: "'e \<Rightarrow> string \<Rightarrow> 'm \<Rightarrow> 's \<Rightarrow> 's"
    and replace :: "'e \<Rightarrow> string \<Rightarrow> 'm list \<Rightarrow> 's \<Rightarrow> 's"
    and describe :: "'e \<Rightarrow> string \<Rightarrow> string \<Rightarrow> 's \<Rightarrow> 's"
    and trunc :: "'e \<Rightarrow> string \<Rightarrow> int \<Rightarrow> 's \<Rightarrow> 's"
    and save :: "'e \<Rightarrow> string \<Rightarrow> 's \<Rightarrow> 's"
    and inv :: "'s \<Rightarrow> bool"
    and same :: "string \<Rightarrow> string \<Rightarrow> bool"
    and ok :: "'m \<Rightarrow> bool"
    and keep :: "'m \<Rightarrow> 'm"
  assumes view_add: "inv s \<Longrightarrow> ok m \<Longrightarrow> view (add e k m s) k' =
      (if same k k' then conversation_step keep (SAdd m) (view s k') else view s k')"
    and view_replace: "inv s \<Longrightarrow> list_all ok us \<Longrightarrow> view (replace e k us s) k' =
      (if same k k' then conversation_step keep (SSetHistory us) (view s k') else view s k')"
    and view_describe: "inv s \<Longrightarrow> view (describe e k t s) k' =
      (if same k k' then conversation_step keep (SSetSummary t) (view s k') else view s k')"
    and view_trunc: "inv s \<Longrightarrow> view (trunc e k n s) k' =
      (if same k k' then conversation_step keep (STruncate n) (view s k') else view s k')"
    and view_save: "inv s \<Longrightarrow> view (save e k s) k' = view s k'"
    and inv_add: "inv s \<Longrightarrow> ok m \<Longrightarrow> inv (add e k m s)"
    and inv_replace: "inv s \<Longrightarrow> list_all ok us \<Longrightarrow> inv (replace e k us s)"
    and inv_describe: "inv s \<Longrightarrow> inv (describe e k t s)"
    and inv_trunc: "inv s \<Longrightarrow> inv (trunc e k n s)"
    and inv_save: "inv s \<Longrightarrow> inv (save e k s)"
begin

fun session_step :: "'e \<times> string \<times> 'm session_op \<Rightarrow> 's \<Rightarrow> 's" where
  "session_step (e, k, SAdd m) s = add e k m s"
| "session_step (e, k, SSetHistory us) s = replace e k us s"
| "session_step (e, k, SSetSummary t) s = describe e k t s"
| "session_step (e, k, STruncate n) s = trunc e k n s"
| "session_step (e, k, SSave) s = save e k s"

lemma inv_step: "inv s \<Longrightarrow> op_message_ok ok (snd (snd a)) \<Longrightarrow> inv (session_step a s)"
  by (cases "(a, s)" rule: session_step.cases) (auto simp: inv_add inv_replace inv_describe inv_trunc inv_save)

lemma view_step:
  "inv s \<Longrightarrow> op_message_ok ok (snd (snd a)) \<Longrightarrow>
     view (session_step a s) k = (if same (fst (snd a)) k then conversation_step keep (snd (snd a)) (view s k) else view s k)"
  by (cases "(a, s)" rule: session_step.cases)
    (simp_all add: view_add view_replace view_describe view_trunc view_save)

lemma view_run:
  "inv s \<Longrightarrow> list_all (\<lambda>a. op_message_ok ok (snd (snd a))) ops \<Longrightarrow>
     view (fold session_step ops s) k =
       fold (conversation_step keep) (map (\<lambda>a. snd (snd a)) (filter (\<lambda>a. same (fst (snd a)) k) ops)) (view s k)"
  by (induction ops arbitrary: s) (auto simp: inv_step view_step)

lemma inv_run: "inv s \<Longrightarrow> list_all (\<lambda>a. op_message_ok ok (snd (snd a))) ops \<Longrightarrow> inv (fold session_step ops s)"
  by (induction ops arbitrary: s) (auto simp: inv_step)

end

end
