(* ===== verification/SessionManager.thy ===== *)
theory SessionManager
  imports SessionStore
begin

text \<open>
  The in-memory session manager with its JSON files (\<open>pkg/session/manager.go\<close>). Messages are of any
  type; the JSON text of a session is the session itself (a file that does not parse is
  \<open>BadFile\<close>). The directory lists its files in the order of the map. A write is atomic (temporary
  file and rename): it happens or fails.
\<close>

section \<open>Model\<close>

record 'm session =
  ss_key :: string
  ss_messages :: "'m list"
  ss_summary :: string
  ss_created :: int
  ss_updated :: int

datatype 'm session_file = SessionFile "'m session" | BadFile

record 'm session_manager =
  sm_sessions :: "(string, 'm session) gomap"
  sm_storage :: bool
  sm_files :: "(string, 'm session_file) gomap"

text \<open>Go's \<open>strings.ReplaceAll\<close> for the three separators.\<close>

definition sanitize_filename :: "string \<Rightarrow> string" where
  "sanitize_filename key =
     replace_char (CHR 0x5C) (CHR ''_'') (replace_char (CHR ''/'') (CHR ''_'') (replace_char (CHR '':'') (CHR ''_'') key))"

text \<open>\<open>filepath.IsLocal\<close> on Unix for a name without slashes.\<close>

definition is_local :: "string \<Rightarrow> bool" where
  "is_local name \<longleftrightarrow> name \<noteq> [] \<and> name \<noteq> ''..''"

definition load_sessions :: "(string, 'm session_file) gomap \<Rightarrow> (string, 'm session) gomap" where
  "load_sessions files =
     fold (\<lambda>(name, f) m. case f of SessionFile s \<Rightarrow> (if suffix ''.json'' name then mput (ss_key s) s m else m) | BadFile \<Rightarrow> m)
       files []"

definition new_session_manager_at :: "bool \<Rightarrow> (string, 'm session_file) gomap \<Rightarrow> 'm session_manager" where
  "new_session_manager_at storage files =
     \<lparr>sm_sessions = (if storage then load_sessions files else []), sm_storage = storage, sm_files = files\<rparr>"

definition empty_session :: "string \<Rightarrow> int \<Rightarrow> int \<Rightarrow> 'm session" where
  "empty_session key created updated =
     \<lparr>ss_key = key, ss_messages = [], ss_summary = [], ss_created = created, ss_updated = updated\<rparr>"

definition get_or_create_at :: "int \<Rightarrow> string \<Rightarrow> 'm session_manager \<Rightarrow> 'm session_manager \<times> 'm session" where
  "get_or_create_at now key sm =
     (case mget (sm_sessions sm) key of
        Some s \<Rightarrow> (sm, s)
      | None \<Rightarrow>
          (let s = empty_session key now now in (sm\<lparr>sm_sessions := mput key s (sm_sessions sm)\<rparr>, s)))"

definition add_full_message :: "int \<Rightarrow> string \<Rightarrow> 'm \<Rightarrow> 'm session_manager \<Rightarrow> 'm session_manager" where
  "add_full_message now key msg sm =
     (let s = (case mget (sm_sessions sm) key of Some s \<Rightarrow> s | None \<Rightarrow> empty_session key now 0)
      in sm\<lparr>sm_sessions := mput key (s\<lparr>ss_messages := ss_messages s @ [msg], ss_updated := now\<rparr>) (sm_sessions sm)\<rparr>)"

definition add_message ::
    "(string \<Rightarrow> string \<Rightarrow> 'm) \<Rightarrow> int \<Rightarrow> string \<Rightarrow> string \<Rightarrow> string \<Rightarrow> 'm session_manager \<Rightarrow> 'm session_manager" where
  "add_message text_message now key role content sm = add_full_message now key (text_message role content) sm"

definition get_history :: "'m session_manager \<Rightarrow> string \<Rightarrow> 'm list" where
  "get_history sm key = (case mget (sm_sessions sm) key of None \<Rightarrow> [] | Some s \<Rightarrow> ss_messages s)"

definition get_summary :: "'m session_manager \<Rightarrow> string \<Rightarrow> string" where
  "get_summary sm key = (case mget (sm_sessions sm) key of None \<Rightarrow> [] | Some s \<Rightarrow> ss_summary s)"

definition set_summary :: "int \<Rightarrow> string \<Rightarrow> string \<Rightarrow> 'm session_manager \<Rightarrow> 'm session_manager" where
  "set_summary now key summary sm =
     (case mget (sm_sessions sm) key of
        None \<Rightarrow> sm
      | Some s \<Rightarrow> sm\<lparr>sm_sessions := mput key (s\<lparr>ss_summary := summary, ss_updated := now\<rparr>) (sm_sessions sm)\<rparr>)"

definition truncate_history :: "int \<Rightarrow> string \<Rightarrow> int \<Rightarrow> 'm session_manager \<Rightarrow> 'm session_manager" where
  "truncate_history now key n sm =
     (case mget (sm_sessions sm) key of
        None \<Rightarrow> sm
      | Some s \<Rightarrow>
          if n \<le> 0 then sm\<lparr>sm_sessions := mput key (s\<lparr>ss_messages := [], ss_updated := now\<rparr>) (sm_sessions sm)\<rparr>
          else if int (length (ss_messages s)) \<le> n then sm
          else sm\<lparr>sm_sessions := mput key
                 (s\<lparr>ss_messages := drop (length (ss_messages s) - nat n) (ss_messages s), ss_updated := now\<rparr>)
                 (sm_sessions sm)\<rparr>)"

definition set_history :: "int \<Rightarrow> string \<Rightarrow> 'm list \<Rightarrow> 'm session_manager \<Rightarrow> 'm session_manager" where
  "set_history now key msgs sm =
     (case mget (sm_sessions sm) key of
        None \<Rightarrow> sm
      | Some s \<Rightarrow> sm\<lparr>sm_sessions := mput key (s\<lparr>ss_messages := msgs, ss_updated := now\<rparr>) (sm_sessions sm)\<rparr>)"

datatype save_result = SaveOk | ErrInvalid | SaveIOError

definition save_session :: "bool \<Rightarrow> string \<Rightarrow> 'm session_manager \<Rightarrow> 'm session_manager \<times> save_result" where
  "save_session io_ok key sm =
     (if \<not> sm_storage sm then (sm, SaveOk)
      else
        (let filename = sanitize_filename key in
         if filename = ''.'' \<or> \<not> is_local filename then (sm, ErrInvalid)
         else
           (case mget (sm_sessions sm) key of
              None \<Rightarrow> (sm, SaveOk)
            | Some s \<Rightarrow>
                if io_ok then (sm\<lparr>sm_files := mput (filename @ ''.json'') (SessionFile s) (sm_files sm)\<rparr>, SaveOk)
                else (sm, SaveIOError))))"

section \<open>The manager keeps the contract\<close>

lemma truncate_list_cases:
  "truncate_list n ms =
     (if n \<le> 0 then [] else if int (length ms) \<le> n then ms else drop (length ms - nat n) ms)"
  by (auto simp: truncate_list_def keep_last_def nat_le_iff)

definition manager_view :: "'m session_manager \<Rightarrow> string \<Rightarrow> 'm conversation" where
  "manager_view sm key = (mget (sm_sessions sm) key \<noteq> None, get_history sm key, get_summary sm key)"

interpretation manager_store: session_store manager_view "\<lambda>e. add_full_message (fst e)"
    "\<lambda>e. set_history (fst e)" "\<lambda>e. set_summary (fst e)"
    "\<lambda>e. truncate_history (fst e)" "\<lambda>e k s. fst (save_session (snd e) k s)" "\<lambda>s. True" "(=)" "\<lambda>m. True" "\<lambda>m. m"
  by unfold_locales
    (auto simp: manager_view_def get_history_def get_summary_def add_full_message_def set_history_def set_summary_def
      truncate_history_def save_session_def Let_def empty_session_def truncate_list_cases split: option.split)

text \<open>One call on the manager, at a clock reading and with an answer of the file system.\<close>

fun manager_step :: "(int \<times> bool) \<times> string \<times> 'm session_op \<Rightarrow> 'm session_manager \<Rightarrow> 'm session_manager" where
  "manager_step ((now, io), k, SAdd m) sm = add_full_message now k m sm"
| "manager_step ((now, io), k, SSetHistory us) sm = set_history now k us sm"
| "manager_step ((now, io), k, SSetSummary t) sm = set_summary now k t sm"
| "manager_step ((now, io), k, STruncate n) sm = truncate_history now k n sm"
| "manager_step ((now, io), k, SSave) sm = fst (save_session io k sm)"

lemma manager_step_eq: "manager_step = manager_store.session_step"
proof (intro ext)
  fix a and sm :: "'m session_manager"
  show "manager_step a sm = manager_store.session_step a sm"
    by (cases "(a, sm)" rule: manager_step.cases) simp_all
qed

lemma sanitize_filename_safe:
  "c \<in> {CHR '':'', CHR ''/'', CHR 0x5C} \<Longrightarrow> c \<notin> set (sanitize_filename key)"
  by (auto simp: sanitize_filename_def replace_char_def)

section \<open>Properties\<close>

text \<open>
  Keys that differ only in their separators share a file: saving both sessions keeps the second
  only, and after a restart the first conversation is gone.
\<close>

theorem colliding_keys_lose_session:
  assumes "sanitize_filename k1 = sanitize_filename k2" and "k1 \<noteq> k2"
    and "is_local (sanitize_filename k1)" and "sanitize_filename k1 \<noteq> ''.''"
    and "mget (sm_sessions sm) k1 = Some s1" and "mget (sm_sessions sm) k2 = Some s2"
    and "ss_key s1 = k1" and "ss_key s2 = k2" and "sm_storage sm" and "sm_files sm = []"
  shows "get_history (new_session_manager_at True
      (sm_files (fst (save_session True k2 (fst (save_session True k1 sm)))))) k1 = []
    \<and> get_history (new_session_manager_at True
      (sm_files (fst (save_session True k2 (fst (save_session True k1 sm)))))) k2 = ss_messages s2
    \<and> snd (save_session True k2 (fst (save_session True k1 sm))) = SaveOk"
proof -
  let ?f = "sanitize_filename k2 @ ''.json''"
  let ?sm1 = "sm\<lparr>sm_files := [(?f, SessionFile s1)]\<rparr>"
  have 1: "save_session True k1 sm = (?sm1, SaveOk)"
    using assms by (simp add: save_session_def Let_def)
  have 2: "save_session True k2 ?sm1 = (?sm1\<lparr>sm_files := [(?f, SessionFile s2)]\<rparr>, SaveOk)"
    using assms by (simp add: save_session_def Let_def)
  have "suffix ''.json'' ?f" by (simp add: suffix_def)
  then show ?thesis using assms unfolding 1 fst_conv 2 snd_conv
    by (simp add: new_session_manager_at_def load_sessions_def get_history_def)
qed

theorem colliding_keys_lose_session_witness:
  "get_history (new_session_manager_at True (sm_files (fst (save_session True ''a_b'' (fst (save_session True ''a:b''
      (add_full_message 2 ''a_b'' (20::nat) (add_full_message 1 ''a:b'' 10 (new_session_manager_at True [])))))))))
     ''a:b'' = []"
  by (rule colliding_keys_lose_session [THEN conjunct1]) (code_simp, code_simp, code_simp, code_simp, (simp add: add_full_message_def new_session_manager_at_def load_sessions_def empty_session_def Let_def)+)

end
