(* ===== verification/AgentTurn.thy ===== *)
theory AgentTurn
  imports ToolRegistry Approval Fallback SessionManager GoBase64
begin

text \<open>
  One turn of an agent (\<open>pkg/agent/loop.go\<close>): \<open>runAgentLoop\<close> and \<open>runLLMIteration\<close> with the retries of
  a failing call, the emergency compression of the history, the execution of tool calls behind the
  threat filter, and the stored conversation; \<open>resolveMediaRefs\<close> of \<open>loop_media.go\<close>. The answers of
  providers, tools, users and the file system are environments, given per iteration, retry and call.
  Tool calls run in parallel; their events are listed call by call, and the registry a call meets is
  part of its environment. The events of a turn are what leaves it: requests, tool executions,
  approval requests, messages to the user and activity events. Reasoning channels and logs are left
  out. The sessions are those of the in-memory manager; \<open>StoredTurns\<close> replays the calls of a turn on the
  JSONL backend, which is the default.
\<close>

section \<open>Agents and options\<close>

record agent_instance =
  ag_id :: string
  ag_model :: string
  ag_candidates :: "fallback_candidate list"
  ag_max_iterations :: int
  ag_shield :: "shield_engine option"
  ag_approvals :: bool
  ag_compactor :: bool

record process_options =
  po_session_key :: string
  po_channel :: string
  po_chat_id :: string
  po_user_message :: string
  po_media :: "string list"
  po_default_response :: string
  po_enable_summary :: bool
  po_send_response :: bool
  po_no_history :: bool

datatype turn_event =
    EvRequest string "chat_message list"
  | EvToolStart string
  | EvToolRun string tool_args
  | EvToolEnd string string
  | EvApprovalAsked string string
  | EvOutbound string
  | EvOutboundMedia "string list"
  | EvThinking string
  | EvContentChunk string
  | EvCompressed
  | EvLastChannel string
  | EvError string
  | EvDone string

record turn_state =
  ts_sessions :: "chat_message session_manager"
  ts_cooldown :: cooldown_tracker
  ts_tools :: tool_registry
  ts_events :: "turn_event list"

definition emit_event :: "turn_event \<Rightarrow> turn_state \<Rightarrow> turn_state" where
  "emit_event e st = st\<lparr>ts_events := ts_events st @ [e]\<rparr>"

definition emit_events :: "turn_event list \<Rightarrow> turn_state \<Rightarrow> turn_state" where
  "emit_events es st = st\<lparr>ts_events := ts_events st @ es\<rparr>"

definition is_internal_channel :: "string \<Rightarrow> bool" where
  "is_internal_channel c \<longleftrightarrow> c \<in> {''cli'', ''system'', ''subagent''}"

definition delegation_user_id :: "process_options \<Rightarrow> string" where
  "delegation_user_id o' =
     (let sk = trim_space (po_session_key o');
          c = to_lower (trim_space (po_channel o')); ch = trim_space (po_chat_id o') in
      if sk \<noteq> [] then ''deleg:'' @ to_lower sk
      else if c \<noteq> [] \<or> ch \<noteq> [] then ''deleg:'' @ c @ ''|'' @ ch
      else ''default'')"

section \<open>Environments\<close>

text \<open>
  The provider of the agent: what the attempt \<open>i\<close> of a call answers to the messages, the offered tools
  and a model, with the clock and the cancellation around it. \<open>le_show\<close> prints a duration.
\<close>

record llm_env =
  le_chat :: "nat \<Rightarrow> chat_message list \<Rightarrow> tool_definition list \<Rightarrow> string \<Rightarrow> go_error + llm_response"
  le_cancelled_before :: "nat \<Rightarrow> bool"
  le_check_time :: "nat \<Rightarrow> int"
  le_cancelled_after :: "nat \<Rightarrow> bool"
  le_end_time :: "nat \<Rightarrow> int"
  le_show :: "int \<Rightarrow> string"

text \<open>What the compactor answers: an error, nothing, or the number of messages to keep and a summary.\<close>

datatype compact_answer = CompactError | CompactNothing | Compacted int string

record call_env =
  ca_registry :: tool_registry
  ca_body :: tool_body
  ca_request_id :: string
  ca_wait :: wait_result
  ca_post_registry :: tool_registry
  ca_post_request_id :: string
  ca_post_wait :: wait_result

record iteration_env =
  it_llm :: "nat \<Rightarrow> llm_env"
  it_prompt :: "nat \<Rightarrow> prompt_env"
  it_compact :: "nat \<Rightarrow> compact_answer"
  it_tiered :: "nat \<Rightarrow> string"
  it_call :: "nat \<Rightarrow> call_env"
  it_tools :: tool_registry
  it_now :: int
  it_save :: bool

text \<open>Of the libraries: JSON and the host name of a parsed URL (empty when it does not parse).\<close>

record lib_env =
  lb_json :: json_env
  lb_hostname :: "string \<Rightarrow> string"

section \<open>Errors of a call\<close>

text \<open>\<open>ce_deadline\<close>: \<open>errors.Is(err, context.DeadlineExceeded)\<close>.\<close>

record call_error =
  ce_text :: string
  ce_deadline :: bool

definition plain_error :: "go_error \<Rightarrow> call_error" where
  "plain_error e = \<lparr>ce_text = error_text e, ce_deadline = (e = CtxDeadlineExceeded)\<rparr>"

definition round_millis :: "int \<Rightarrow> int" where
  "round_millis d = (let s = ms 1; r = d mod s in if r + r < s then d - r else d + (s - r))"

definition attempt_text :: "(int \<Rightarrow> string) \<Rightarrow> nat \<times> fallback_attempt \<Rightarrow> string" where
  "attempt_text show_dur = (\<lambda>(i, a).
     [newline] @ ''  ['' @ show_nat (i + 1) @ ''] '' @ fa_provider a @ ''/'' @ fa_model a @ '': '' @
     (if fa_skipped a then ''skipped (cooldown)''
      else (case fa_error a of InCooldown p d \<Rightarrow> [] | RunFailed e \<Rightarrow> error_text e | Classified f \<Rightarrow> failover_error_text f) @
        '' (reason='' @ (case fa_reason a of None \<Rightarrow> [] | Some r \<Rightarrow> reason_string r) @ '', '' @
        show_dur (round_millis (fa_duration a)) @ '')''))"

fun fallback_error :: "(int \<Rightarrow> string) \<Rightarrow> 'r fallback_outcome \<Rightarrow> call_error" where
  "fallback_error show_dur NoCandidates = \<lparr>ce_text = ''fallback: no candidates configured'', ce_deadline = False\<rparr>"
| "fallback_error show_dur Cancelled = plain_error CtxCanceled"
| "fallback_error show_dur (Unclassified p m e) =
     \<lparr>ce_text = ''fallback: unclassified error from '' @ p @ ''/'' @ m @ '': '' @ error_text e,
      ce_deadline = (e = CtxDeadlineExceeded)\<rparr>"
| "fallback_error show_dur (Aborted f) =
     \<lparr>ce_text = failover_error_text f, ce_deadline = (fe_wrapped f = CtxDeadlineExceeded)\<rparr>"
| "fallback_error show_dur (Exhausted as) =
     \<lparr>ce_text = ''fallback: all '' @ show_nat (length as) @ '' candidates failed:'' @
        concat (map (attempt_text show_dur) (enumerate 0 as)), ce_deadline = False\<rparr>"
| "fallback_error show_dur (Succeeded _) = \<lparr>ce_text = [], ce_deadline = False\<rparr>"

definition is_timeout_error :: "call_error \<Rightarrow> bool" where
  "is_timeout_error e \<longleftrightarrow>
     ce_deadline e \<or>
     list_ex (str_contains (to_lower (ce_text e)))
       [''deadline exceeded'', ''client.timeout'', ''timed out'', ''timeout exceeded'']"

definition is_context_error :: "call_error \<Rightarrow> bool" where
  "is_context_error e \<longleftrightarrow>
     \<not> is_timeout_error e \<and>
     list_ex (str_contains (to_lower (ce_text e)))
       [''context_length_exceeded'', ''context window'', ''maximum context length'', ''token limit'', ''too many tokens'',
        ''max_tokens'', ''invalidparameter'', ''prompt is too long'', ''request too large'']"

section \<open>Calling the provider\<close>

text \<open>The fallback chain hands every candidate's model to the provider of the agent.\<close>

definition attempt_of_call ::
    "llm_env \<Rightarrow> chat_message list \<Rightarrow> tool_definition list \<Rightarrow> nat \<Rightarrow> llm_response attempt_env" where
  "attempt_of_call le msgs defs i =
     \<lparr>ae_cancelled_before = le_cancelled_before le i, ae_check_time = le_check_time le i,
      ae_run = (\<lambda>provider model. le_chat le i msgs defs model),
      ae_cancelled_after = le_cancelled_after le i, ae_end_time = le_end_time le i\<rparr>"

definition call_llm ::
    "llm_env \<Rightarrow> fallback_candidate list \<Rightarrow> string \<Rightarrow> chat_message list \<Rightarrow> turn_state \<Rightarrow>
     (call_error + llm_response) \<times> turn_state" where
  "call_llm le candidates model msgs st =
     (let defs = to_provider_defs (ts_tools st) in
      if length candidates > 1 then
        (case execute (attempt_of_call le msgs defs) candidates (ts_cooldown st) of
           (out, ct, calls) \<Rightarrow>
             (case out of Succeeded r \<Rightarrow> Inr (fr_response r) | _ \<Rightarrow> Inl (fallback_error (le_show le) out),
              emit_events (map (\<lambda>(i, provider, m). EvRequest m msgs) calls) (st\<lparr>ts_cooldown := ct\<rparr>)))
      else
        (case le_chat le 0 msgs defs model of Inl e \<Rightarrow> Inl (plain_error e) | Inr r \<Rightarrow> Inr r,
         emit_event (EvRequest model msgs) st))"

section \<open>Emergency compression\<close>

definition compression_note :: "nat \<Rightarrow> string" where
  "compression_note dropped =
     [newline, newline] @ ''[System Note: Emergency compression dropped '' @ show_nat dropped @
     '' oldest messages due to context limit]''"

definition legacy_compressed :: "chat_message list \<Rightarrow> chat_message list" where
  "legacy_compressed h =
     (let conversation = butlast (tl h); mid = length conversation div 2 in
      (hd h)\<lparr>cm_content := cm_content (hd h) @ compression_note mid\<rparr> # drop mid conversation @ [last h])"

definition legacy_force_compression :: "int \<Rightarrow> bool \<Rightarrow> string \<Rightarrow> turn_state \<Rightarrow> turn_state" where
  "legacy_force_compression now save key st =
     (let h = get_history (ts_sessions st) key in
      if length h \<le> 4 then st
      else emit_event EvCompressed
        (st\<lparr>ts_sessions := fst (save_session save key (set_history now key (legacy_compressed h) (ts_sessions st)))\<rparr>))"

text \<open>What a compaction leaves of the session: the newest messages and the new summary, if any.\<close>

definition apply_compaction ::
    "int \<Rightarrow> bool \<Rightarrow> string \<Rightarrow> chat_message list \<Rightarrow> int \<Rightarrow> string \<Rightarrow> chat_message session_manager \<Rightarrow> chat_message session_manager" where
  "apply_compaction now save key h kept l2 sm =
     (let sm1 = (if kept > 0 \<and> kept < int (length h) then set_history now key (keep_last (nat kept) h) sm else sm);
          sm2 = (if l2 \<noteq> [] then set_summary now key l2 sm1 else sm1)
      in fst (save_session save key sm2))"

definition force_compact :: "compact_answer \<Rightarrow> int \<Rightarrow> bool \<Rightarrow> string \<Rightarrow> turn_state \<Rightarrow> turn_state" where
  "force_compact answer now save key st =
     (let h = get_history (ts_sessions st) key in
      if length h \<le> 4 then st
      else
        (case answer of
           CompactError \<Rightarrow> legacy_force_compression now save key st
         | CompactNothing \<Rightarrow> st
         | Compacted kept l2 \<Rightarrow>
             emit_event EvCompressed (st\<lparr>ts_sessions := apply_compaction now save key h kept l2 (ts_sessions st)\<rparr>)))"

definition force_compression :: "agent_instance \<Rightarrow> compact_answer \<Rightarrow> int \<Rightarrow> bool \<Rightarrow> string \<Rightarrow> turn_state \<Rightarrow> turn_state" where
  "force_compression ag answer now save key st =
     (if ag_compactor ag then force_compact answer now save key st
      else legacy_force_compression now save key st)"

section \<open>The retry loop\<close>

definition max_retries :: nat where
  "max_retries = 2"

definition compressing_note :: string where
  "compressing_note = ''Context window exceeded. Compressing history and retrying...''"

text \<open>\<open>left\<close>: retries that are left; the number of this try is \<open>max_retries - left\<close>.\<close>

fun call_with_retries ::
    "agent_instance \<Rightarrow> process_options \<Rightarrow> iteration_env \<Rightarrow> fallback_candidate list \<Rightarrow> string \<Rightarrow> nat \<Rightarrow>
     chat_message list \<Rightarrow> turn_state \<Rightarrow> (call_error + llm_response) \<times> chat_message list \<times> turn_state" where
  "call_with_retries ag opts e candidates model left msgs st =
     (let retry = max_retries - left; key = po_session_key opts;
          (res, st1) = call_llm (it_llm e retry) candidates model msgs st in
      case res of
        Inr resp \<Rightarrow> (Inr resp, msgs, st1)
      | Inl err \<Rightarrow>
          (case left of
             0 \<Rightarrow> (Inl err, msgs, st1)
           | Suc left' \<Rightarrow>
               if is_timeout_error err then call_with_retries ag opts e candidates model left' msgs st1
               else if is_context_error err then
                 (let st2 = (if retry = 0 \<and> \<not> is_internal_channel (po_channel opts)
                             then emit_event (EvOutbound compressing_note) st1 else st1);
                      st3 = force_compression ag (it_compact e retry) (it_now e) (it_save e) key st2;
                      history = get_history (ts_sessions st3) key;
                      stored = get_summary (ts_sessions st3) key;
                      summary = (if ag_compactor ag \<and> stored = [] then it_tiered e retry else stored)
                  in call_with_retries ag opts e candidates model left'
                       (build_messages (it_prompt e retry) history summary [] [] (po_channel opts) (po_chat_id opts)) st3)
               else (Inl err, msgs, st1)))"

declare call_with_retries.simps [simp del]


section \<open>Tool calls\<close>

definition call_event :: "tool_call \<Rightarrow> shield_event" where
  "call_event tc =
     \<lparr>ev_scope = ScopeToolCall, ev_tool_name = tc_name tc, ev_tool_args = call_args tc, ev_domain = [],
      ev_secret_path = [], ev_skill_name = [], ev_input_text = [], ev_file_path = [], ev_url = []\<rparr>"

text \<open>A string argument of the call, empty when there is none.\<close>

definition string_arg :: "string \<Rightarrow> tool_call \<Rightarrow> string" where
  "string_arg k tc = (case mget (call_args tc) k of Some (ArgString s) \<Rightarrow> s | _ \<Rightarrow> [])"

definition shield_event_for_pending_tool :: "(string \<Rightarrow> string) \<Rightarrow> tool_call \<Rightarrow> shield_event" where
  "shield_event_for_pending_tool hostname tc =
     (if tc_name tc = ''web_fetch'' then
        (call_event tc)\<lparr>ev_scope := ScopeNetworkEgress, ev_url := string_arg ''url'' tc,
           ev_domain := hostname (string_arg ''url'' tc)\<rparr>
      else if tc_name tc = ''install_skill'' then
        (call_event tc)\<lparr>ev_scope := ScopeSkillInstall, ev_skill_name := string_arg ''slug'' tc\<rparr>
      else call_event tc)"

text \<open>The first bytes are the warning sign of the original text.\<close>

definition approval_message :: "string \<Rightarrow> string \<Rightarrow> string \<Rightarrow> string" where
  "approval_message name reason request_id =
     [CHR 0xE2, CHR 0x9A, CHR 0xA0, CHR 0xEF, CHR 0xB8, CHR 0x8F] @ '' **Approval Required**'' @ [newline, newline] @
     ''Tool: `'' @ name @ ''`'' @ [newline] @ ''Reason: '' @ reason @ [newline, newline] @
     ''Please respond with `approve '' @ request_id @ ''` or `reject '' @ request_id @ ''`''"

definition ran_event :: "tool_registry \<Rightarrow> tool_call \<Rightarrow> turn_event list" where
  "ran_event r tc = (if get_tool r (tc_name tc) = None then [] else [EvToolRun (tc_name tc) (call_args tc)])"

definition turn_context :: "process_options \<Rightarrow> bool \<Rightarrow> tool_context" where
  "turn_context opts approved =
     \<lparr>tx_channel = po_channel opts, tx_chat_id = po_chat_id opts, tx_delegation_user = delegation_user_id opts,
      tx_approved = approved\<rparr>"

text \<open>A tool that asked for approval itself is run again once the user agreed.\<close>

definition run_tool_pending_approval ::
    "lib_env \<Rightarrow> agent_instance \<Rightarrow> process_options \<Rightarrow> call_env \<Rightarrow> tool_call \<Rightarrow> tool_result \<Rightarrow> tool_result \<times> turn_event list" where
  "run_tool_pending_approval lib ag opts e tc pending =
     (case ag_shield ag of
        Some engine \<Rightarrow>
          if \<not> ag_approvals ag
          then (error_result (rs_for_llm pending @ '' (approval system unavailable)''), [])
          else
            (let d = shield_evaluate engine (shield_event_for_pending_tool (lb_hostname lib) tc);
                 reason = (if sd_action d \<noteq> ActionRequireApproval then rs_for_llm pending else sd_reason d);
                 asked = [EvApprovalAsked (ca_post_request_id e) (tc_name tc),
                          EvOutbound (approval_message (tc_name tc) reason (ca_post_request_id e))]
             in if ca_post_wait e \<noteq> WaitAnswer True
                then (error_result (''Tool call rejected or approval timed out: '' @ reason), asked)
                else (execute_with_context (ca_body e) (ca_post_registry e) (tc_name tc) (call_args tc) (turn_context opts True) True,
                      asked @ ran_event (ca_post_registry e) tc))
      | None \<Rightarrow> (error_result (rs_for_llm pending @ '' (approval system unavailable)''), []))"

definition error_or_empty :: "tool_result \<Rightarrow> string" where
  "error_or_empty r = (case rs_err r of None \<Rightarrow> [] | Some e \<Rightarrow> e)"

text \<open>The end of the goroutine of a call: the tool is run.\<close>

definition execute_call ::
    "lib_env \<Rightarrow> agent_instance \<Rightarrow> process_options \<Rightarrow> call_env \<Rightarrow> tool_call \<Rightarrow> tool_result \<times> turn_event list" where
  "execute_call lib ag opts e tc =
     (let r = execute_with_context (ca_body e) (ca_registry e) (tc_name tc) (call_args tc) (turn_context opts False) True;
          ran = ran_event (ca_registry e) tc;
          (r', more) = (if rs_requires_approval r \<and> \<not> rs_async r then run_tool_pending_approval lib ag opts e tc r else (r, []))
      in (r', ran @ more @ [EvToolEnd (tc_name tc) (error_or_empty r')]))"

definition engine_active :: "agent_instance \<Rightarrow> shield_engine option" where
  "engine_active ag = (case ag_shield ag of None \<Rightarrow> None | Some eng \<Rightarrow> if shield_is_active eng then Some eng else None)"

text \<open>
  The goroutine of a call. The decision is looked at for \<open>ActionBlock\<close> and \<open>ActionLog\<close> only: the
  request for approval stands in the branch of \<open>ActionBlock\<close>.
\<close>

definition run_tool_call ::
    "lib_env \<Rightarrow> agent_instance \<Rightarrow> process_options \<Rightarrow> call_env \<Rightarrow> tool_call \<Rightarrow> tool_result \<times> turn_event list" where
  "run_tool_call lib ag opts e tc =
     (case engine_active ag of
        None \<Rightarrow> execute_call lib ag opts e tc
      | Some engine \<Rightarrow>
          (let d = shield_evaluate engine (call_event tc) in
           case sd_action d of
             ActionBlock \<Rightarrow>
               (let asked = [EvApprovalAsked (ca_request_id e) (tc_name tc),
                             EvOutbound (approval_message (tc_name tc) (sd_reason d) (ca_request_id e))]
                in if ca_wait e \<noteq> WaitAnswer True
                   then (error_result (''Tool call rejected: '' @ sd_reason d),
                         asked @ [EvToolEnd (tc_name tc) (''rejected: '' @ sd_reason d)])
                   else (case execute_call lib ag opts e tc of (r, es) \<Rightarrow> (r, asked @ es)))
           | _ \<Rightarrow> execute_call lib ag opts e tc))"

section \<open>Results of a round\<close>

definition content_for_llm :: "tool_result \<Rightarrow> string" where
  "content_for_llm r = (if rs_for_llm r = [] then error_or_empty r else rs_for_llm r)"

definition result_events :: "process_options \<Rightarrow> tool_result \<Rightarrow> turn_event list" where
  "result_events opts r =
     (if \<not> rs_silent r \<and> rs_for_user r \<noteq> [] \<and> po_send_response opts then [EvOutbound (rs_for_user r)] else []) @
     (if rs_media r \<noteq> [] then [EvOutboundMedia (rs_media r)] else [])"

definition record_result ::
    "int \<Rightarrow> process_options \<Rightarrow> tool_call \<times> tool_result \<Rightarrow> chat_message list \<times> turn_state \<Rightarrow> chat_message list \<times> turn_state" where
  "record_result now opts = (\<lambda>(tc, r) (msgs, st).
     (let m = tool_message (tc_id tc) (content_for_llm r);
          st1 = emit_events (result_events opts r) st
      in (msgs @ [m], st1\<lparr>ts_sessions := add_full_message now (po_session_key opts) m (ts_sessions st1)\<rparr>)))"

text \<open>The round of the tool calls of one response.\<close>

definition run_tool_round ::
    "lib_env \<Rightarrow> agent_instance \<Rightarrow> process_options \<Rightarrow> iteration_env \<Rightarrow> llm_response \<Rightarrow>
     chat_message list \<Rightarrow> turn_state \<Rightarrow> chat_message list \<times> turn_state" where
  "run_tool_round lib ag opts e resp msgs st =
     (let calls = map (normalize_tool_call (lb_json lib)) (lr_tool_calls resp);
          a = assistant_message (lb_json lib) resp calls;
          st1 = st\<lparr>ts_sessions := add_full_message (it_now e) (po_session_key opts) a (ts_sessions st)\<rparr>;
          results = map (\<lambda>(i, tc). run_tool_call lib ag opts (it_call e i) tc) (enumerate 0 calls);
          st2 = emit_events (map (\<lambda>tc. EvToolStart (tc_name tc)) calls @ concat (map snd results)) st1;
          (msgs3, st3) = fold (record_result (it_now e) opts) (zip calls (map fst results)) (msgs @ [a], st2)
      in (msgs3, st3\<lparr>ts_tools := tick_ttl (it_tools e)\<rparr>))"

section \<open>The iterations of a turn\<close>

definition final_content :: "llm_response \<Rightarrow> string" where
  "final_content resp = (if lr_content resp = [] then lr_reasoning_content resp else lr_content resp)"

text \<open>\<open>left\<close>: iterations that are left; \<open>k\<close>: iterations done.\<close>

fun llm_iterations ::
    "lib_env \<Rightarrow> agent_instance \<Rightarrow> process_options \<Rightarrow> (nat \<Rightarrow> iteration_env) \<Rightarrow> fallback_candidate list \<Rightarrow> string \<Rightarrow>
     nat \<Rightarrow> nat \<Rightarrow> chat_message list \<Rightarrow> turn_state \<Rightarrow> (string + string) \<times> nat \<times> turn_state" where
  "llm_iterations lib ag opts env candidates model 0 k msgs st = (Inr [], k, emit_event (EvDone []) st)"
| "llm_iterations lib ag opts env candidates model (Suc left) k msgs st =
     (let (res, msgs1, st1) = call_with_retries ag opts (env k) candidates model max_retries msgs st in
      case res of
        Inl err \<Rightarrow>
          (Inl (''LLM call failed after retries: '' @ ce_text err), Suc k,
           emit_event (EvError (''LLM call failed: '' @ ce_text err)) st1)
      | Inr resp \<Rightarrow>
          (let st2 = (if lr_reasoning_content resp \<noteq> [] then emit_event (EvThinking (lr_reasoning_content resp)) st1 else st1) in
           if lr_tool_calls resp = [] then
             (Inr (final_content resp), Suc k,
              emit_events [EvContentChunk (final_content resp), EvDone (final_content resp)] st2)
           else
             (let (msgs3, st3) = run_tool_round lib ag opts (env k) resp msgs1 st2
              in llm_iterations lib ag opts env candidates model left (Suc k) msgs3 st3)))"

section \<open>Media\<close>

text \<open>
  The media store and the files behind it: path and stored type of a reference, size, detected type,
  content (\<open>None\<close>: it fails).
\<close>

record media_env =
  me_resolve :: "string \<Rightarrow> (string \<times> string) option"
  me_size :: "string \<Rightarrow> int option"
  me_kind :: "string \<Rightarrow> string option"
  me_read :: "string \<Rightarrow> string option"

definition resolve_media_ref :: "media_env \<Rightarrow> int \<Rightarrow> string \<Rightarrow> string option" where
  "resolve_media_ref me max_size ref =
     (if \<not> has_prefix ref ''media://'' then Some ref
      else
        (case me_resolve me ref of
           None \<Rightarrow> None
         | Some (path, stored) \<Rightarrow>
             (case me_size me path of
                None \<Rightarrow> None
              | Some bytes \<Rightarrow>
                  if bytes > max_size then None
                  else
                    (case (if stored = [] then me_kind me path else Some stored) of
                       None \<Rightarrow> None
                     | Some mime \<Rightarrow>
                         map_option (\<lambda>d. ''data:'' @ mime @ '';base64,'' @ b64_enc StdAlphabet d) (me_read me path)))))"

definition resolve_media_refs :: "media_env option \<Rightarrow> int \<Rightarrow> chat_message list \<Rightarrow> chat_message list" where
  "resolve_media_refs store max_size msgs =
     (case store of
        None \<Rightarrow> msgs
      | Some me \<Rightarrow>
          map (\<lambda>m. if cm_media m = [] then m else m\<lparr>cm_media := List.map_filter (resolve_media_ref me max_size) (cm_media m)\<rparr>)
            msgs)"

section \<open>A turn\<close>

text \<open>
  The decision of the model router for a message: none (no router, or no light candidates), the
  primary model, the light model with its candidates, or a model of a tier with that tier's
  candidates, if it has any.
\<close>

datatype router_choice =
    NoRouter
  | RouterPrimary
  | RouterLight string "fallback_candidate list"
  | RouterTier string "fallback_candidate list"

definition select_candidates :: "agent_instance \<Rightarrow> router_choice \<Rightarrow> fallback_candidate list \<times> string" where
  "select_candidates ag choice =
     (case choice of
        NoRouter \<Rightarrow> (ag_candidates ag, ag_model ag)
      | RouterPrimary \<Rightarrow> (ag_candidates ag, ag_model ag)
      | RouterLight model cands \<Rightarrow> (cands, model)
      | RouterTier model cands \<Rightarrow> (if cands \<noteq> [] then (cands, model) else (ag_candidates ag, model)))"

text \<open>
  The environment of a turn: that of its iterations, the start of the turn, and its end. What the
  model router decided is \<open>te_choice\<close>; \<open>te_injected\<close> are finished background tasks, \<open>te_tiered\<close> the
  stored summary of the compactor.
\<close>

record turn_env =
  te_iteration :: "nat \<Rightarrow> iteration_env"
  te_choice :: router_choice
  te_prompt :: prompt_env
  te_tiered :: string
  te_injected :: string
  te_media :: "media_env option"
  te_max_media :: int
  te_now :: int
  te_end :: int
  te_save :: bool

definition turn_candidates :: "agent_instance \<Rightarrow> turn_env \<Rightarrow> fallback_candidate list" where
  "turn_candidates ag te = fst (select_candidates ag (te_choice te))"

definition turn_model :: "agent_instance \<Rightarrow> turn_env \<Rightarrow> string" where
  "turn_model ag te = snd (select_candidates ag (te_choice te))"

definition turn_messages :: "agent_instance \<Rightarrow> process_options \<Rightarrow> turn_env \<Rightarrow> turn_state \<Rightarrow> chat_message list" where
  "turn_messages ag opts te st =
     (let key = po_session_key opts;
          history = (if po_no_history opts then [] else get_history (ts_sessions st) key);
          stored = (if po_no_history opts then [] else get_summary (ts_sessions st) key);
          summary = (if \<not> po_no_history opts \<and> ag_compactor ag \<and> stored = [] then te_tiered te else stored);
          user = (if te_injected te \<noteq> [] then te_injected te @ [newline, newline] @ po_user_message opts else po_user_message opts)
      in resolve_media_refs (te_media te) (te_max_media te)
           (build_messages (te_prompt te) history summary user (po_media opts) (po_channel opts) (po_chat_id opts)))"

definition run_agent_loop ::
    "lib_env \<Rightarrow> agent_instance \<Rightarrow> process_options \<Rightarrow> turn_env \<Rightarrow> turn_state \<Rightarrow> (string + string) \<times> turn_state" where
  "run_agent_loop lib ag opts te st =
     (let key = po_session_key opts;
          st1 = (if po_channel opts \<noteq> [] \<and> po_chat_id opts \<noteq> [] \<and> \<not> is_internal_channel (po_channel opts)
                 then emit_event (EvLastChannel (po_channel opts @ '':'' @ po_chat_id opts)) st else st);
          msgs = turn_messages ag opts te st1;
          st2 = st1\<lparr>ts_sessions := add_message text_message (te_now te) key ''user'' (po_user_message opts) (ts_sessions st1)\<rparr>;
          (res, iterations, st3) =
            llm_iterations lib ag opts (te_iteration te) (turn_candidates ag te) (turn_model ag te) (nat (ag_max_iterations ag)) 0 msgs st2
      in case res of
           Inl err \<Rightarrow> (Inl err, st3)
         | Inr content \<Rightarrow>
             (let final = (if content = [] then po_default_response opts else content);
                  st4 = st3\<lparr>ts_sessions := fst (save_session (te_save te) key
                          (add_message text_message (te_end te) key ''assistant'' final (ts_sessions st3)))\<rparr>
              in (Inr final, if po_send_response opts then emit_event (EvOutbound final) st4 else st4)))"


section \<open>Requests\<close>

text \<open>
  What every request has to be, even after an emergency: one system message, in front; every tool
  result belongs to a turn with calls; all calls of a turn are answered right after it. The flag says
  that the messages before are a turn with calls and its results.
\<close>

fun answered_from :: "bool \<Rightarrow> chat_message list \<Rightarrow> bool" where
  "answered_from b [] \<longleftrightarrow> True"
| "answered_from b (m # ns) \<longleftrightarrow>
     cm_role m \<noteq> ''system'' \<and> (is_tool m \<longrightarrow> b) \<and> (is_call_turn m \<longrightarrow> all_answered m (takeWhile is_tool ns)) \<and>
     answered_from (is_tool m \<or> is_call_turn m) ns"

definition request_ok :: "chat_message list \<Rightarrow> bool" where
  "request_ok msgs \<longleftrightarrow> (case msgs of [] \<Rightarrow> False | m # ns \<Rightarrow> cm_role m = ''system'' \<and> answered_from False ns)"

definition starts_new :: "chat_message list \<Rightarrow> bool" where
  "starts_new ns \<longleftrightarrow> takeWhile is_tool ns = []"

lemma ready_answered: "ready_from c ns \<Longrightarrow> answered_from (c \<in> {AfterCalls, AfterResult}) ns"
proof (induction ns arbitrary: c)
  case (Cons m ns)
  then have "answered_from (place_after c m \<in> {AfterCalls, AfterResult}) ns" by simp
  moreover have "(place_after c m \<in> {AfterCalls, AfterResult}) = (is_tool m \<or> is_call_turn m)" by simp
  ultimately show ?case using Cons.prems by (simp add: in_place_def)
qed simp

lemma takeWhile_starts_new: "starts_new ys \<Longrightarrow> takeWhile is_tool (xs @ ys) = takeWhile is_tool xs"
  by (induction xs) (auto simp: starts_new_def)

lemma answered_append:
  "answered_from b xs \<Longrightarrow> starts_new ys \<Longrightarrow> answered_from False ys \<Longrightarrow> answered_from b (xs @ ys)"
proof (induction xs arbitrary: b)
  case Nil
  then show ?case by (cases ys) (auto simp: starts_new_def split: if_splits)
next
  case (Cons m xs)
  then show ?case by (simp add: takeWhile_starts_new)
qed

lemma request_append: "request_ok xs \<Longrightarrow> starts_new ys \<Longrightarrow> answered_from False ys \<Longrightarrow> request_ok (xs @ ys)"
  by (auto simp: request_ok_def answered_append split: list.splits)

lemma text_message_kind:
  "\<not> is_call_turn (text_message role content)" "is_tool (text_message role content) \<longleftrightarrow> role = ''tool''"
  by (simp_all add: text_message_def is_call_turn_def is_tool_def)

lemma build_messages_ok: "request_ok (build_messages pe history summary current media channel chat_id)"
proof -
  have "ready_from Elsewhere (sanitize_history history)" using sanitize_ready by (simp add: provider_ready_def)
  then have "answered_from False (sanitize_history history)" using ready_answered by fastforce
  moreover have "cm_role (system_message pe summary current channel chat_id) = ''system''"
    by (simp add: system_message_def text_message_def Let_def)
  ultimately show ?thesis
    by (auto simp: build_messages_def request_ok_def text_message_def is_tool_def is_call_turn_def starts_new_def
        intro!: answered_append)
qed

lemma media_kind:
  "is_tool (m\<lparr>cm_media := x\<rparr>) = is_tool m" "is_call_turn (m\<lparr>cm_media := x\<rparr>) = is_call_turn m"
  "all_answered (m\<lparr>cm_media := x\<rparr>) ns = all_answered m ns"
  by (simp_all add: is_tool_def is_call_turn_def all_answered_def)

lemma answered_map:
  assumes "\<And>m. cm_role (f m) = cm_role m" and "\<And>m. cm_tool_calls (f m) = cm_tool_calls m"
    and "\<And>m. cm_tool_call_id (f m) = cm_tool_call_id m"
  shows "answered_from b (map f ns) = answered_from b ns"
proof -
  have k: "is_tool (f m) = is_tool m" "is_call_turn (f m) = is_call_turn m" for m
    using assms by (simp_all add: is_tool_def is_call_turn_def)
  have t: "takeWhile is_tool (map f ns) = map f (takeWhile is_tool ns)" for ns
    by (simp add: takeWhile_map comp_def k)
  have a: "all_answered (f m) (map f ns) = all_answered m ns" for m ns
    using assms by (simp add: all_answered_def list_ex_iff)
  show ?thesis by (induction ns arbitrary: b) (simp_all add: assms k t a)
qed

lemma resolve_media_ok: "request_ok msgs \<Longrightarrow> request_ok (resolve_media_refs store n msgs)"
proof (cases store)
  case (Some me)
  let ?f = "\<lambda>m. if cm_media m = [] then m else m\<lparr>cm_media := List.map_filter (resolve_media_ref me n) (cm_media m)\<rparr>"
  have "answered_from b (map ?f ns) = answered_from b ns" for b ns by (rule answered_map) simp_all
  then show "request_ok msgs \<Longrightarrow> request_ok (resolve_media_refs store n msgs)"
    using Some by (auto simp: resolve_media_refs_def request_ok_def split: list.splits)
qed (simp add: resolve_media_refs_def)

text \<open>A turn with calls and its results, in order.\<close>

definition exchange_messages :: "json_env \<Rightarrow> llm_response \<Rightarrow> (tool_call \<times> tool_result) list \<Rightarrow> chat_message list" where
  "exchange_messages js resp rs =
     assistant_message js resp (map fst rs) # map (\<lambda>(tc, r). tool_message (tc_id tc) (content_for_llm r)) rs"

lemma tool_message_kind: "is_tool (tool_message i c)" "\<not> is_call_turn (tool_message i c)" "cm_role (tool_message i c) = ''tool''"
  by (simp_all add: tool_message_def text_message_def is_tool_def is_call_turn_def)

lemma takeWhile_results:
  "takeWhile is_tool (map (\<lambda>(tc, r). tool_message (tc_id tc) (content_for_llm r)) rs) =
     map (\<lambda>(tc, r). tool_message (tc_id tc) (content_for_llm r)) rs"
  by (simp add: takeWhile_eq_all_conv tool_message_kind split: prod.split)

lemma exchange_answered:
  "all_answered (assistant_message js resp (map fst rs)) (map (\<lambda>(tc, r). tool_message (tc_id tc) (content_for_llm r)) rs)"
  by (force simp: all_answered_def assistant_message_def stored_call_def Let_def list_all_iff list_ex_iff tool_message_def)

lemma results_ready: "c \<in> {AfterCalls, AfterResult} \<Longrightarrow> ready_from c (map (\<lambda>(tc, r). tool_message (tc_id tc) (content_for_llm r)) rs)"
proof (induction rs arbitrary: c)
  case (Cons x rs)
  let ?m = "tool_message (tc_id (fst x)) (content_for_llm (snd x))"
  have "in_place c ?m" "place_after c ?m = AfterResult" using Cons.prems by (simp_all add: tool_message_kind in_place_def)
  with Cons.IH [of AfterResult] show ?case by (simp add: case_prod_unfold tool_message_kind)
qed simp

lemma exchange_ready:
  assumes "rs \<noteq> []" and "c \<in> {AfterUser, AfterResult}"
  shows "ready_from c (exchange_messages js resp rs) \<and> end_place c (exchange_messages js resp rs) = AfterResult
    \<and> starts_new (exchange_messages js resp rs)"
proof -
  let ?a = "assistant_message js resp (map fst rs)"
  have a: "is_call_turn ?a" "\<not> is_tool ?a" "cm_role ?a \<noteq> ''system''"
    using assms(1) by (simp_all add: assistant_message_def text_message_def is_call_turn_def is_tool_def)
  have "rs \<noteq> [] \<Longrightarrow> end_place d (map (\<lambda>(tc, r). tool_message (tc_id tc) (content_for_llm r)) rs) = AfterResult" for d
    by (induction rs rule: rev_induct) (auto simp: tool_message_kind)
  then show ?thesis using assms a exchange_answered [of js resp rs] results_ready [of AfterCalls rs]
    by (simp add: exchange_messages_def in_place_def takeWhile_results starts_new_def)
qed

lemma exchange_request:
  "rs \<noteq> [] \<Longrightarrow> answered_from False (exchange_messages js resp rs) \<and> starts_new (exchange_messages js resp rs)"
  using exchange_ready [of rs AfterUser js resp] ready_answered [of AfterUser "exchange_messages js resp rs"] by simp

section \<open>Steps of a turn\<close>

lemma emit_simps [simp]:
  "ts_events (emit_event e st) = ts_events st @ [e]" "ts_sessions (emit_event e st) = ts_sessions st"
  "ts_tools (emit_event e st) = ts_tools st" "ts_cooldown (emit_event e st) = ts_cooldown st"
  "ts_events (emit_events es st) = ts_events st @ es" "ts_sessions (emit_events es st) = ts_sessions st"
  "ts_tools (emit_events es st) = ts_tools st" "ts_cooldown (emit_events es st) = ts_cooldown st"
  by (simp_all add: emit_event_def emit_events_def)

lemma get_history_add [simp]:
  "get_history (add_full_message now k m sm) k' = (if k = k' then get_history sm k' @ [m] else get_history sm k')"
  by (auto simp: add_full_message_def get_history_def Let_def empty_session_def split: option.split)

lemma get_history_add_text [simp]:
  "get_history (add_message tm now k r c sm) k' = (if k = k' then get_history sm k' @ [tm r c] else get_history sm k')"
  by (simp add: add_message_def)

lemma get_history_save [simp]: "get_history (fst (save_session io k sm)) k' = get_history sm k'"
  by (simp add: save_session_def get_history_def Let_def split: option.split)

lemma get_history_adds:
  "get_history (fold (add_full_message now k) ns sm) k' = (if k = k' then get_history sm k' @ ns else get_history sm k')"
  by (induction ns arbitrary: sm) auto

lemma fold_record_result:
  "\<exists>st'. fold (record_result now opts) rs (msgs, st) =
       (msgs @ map (\<lambda>(tc, r). tool_message (tc_id tc) (content_for_llm r)) rs, st')
     \<and> ts_events st' = ts_events st @ concat (map (\<lambda>(tc, r). result_events opts r) rs)
     \<and> ts_sessions st' = fold (add_full_message now (po_session_key opts))
         (map (\<lambda>(tc, r). tool_message (tc_id tc) (content_for_llm r)) rs) (ts_sessions st)"
proof (induction rs arbitrary: msgs st)
  case (Cons x rs)
  let ?m = "tool_message (tc_id (fst x)) (content_for_llm (snd x))"
  let ?st = "(emit_events (result_events opts (snd x)) st)\<lparr>ts_sessions := add_full_message now (po_session_key opts) ?m (ts_sessions st)\<rparr>"
  have 1: "record_result now opts x (msgs, st) = (msgs @ [?m], ?st)"
    by (simp add: record_result_def Let_def case_prod_unfold)
  obtain st' where "fold (record_result now opts) rs (msgs @ [?m], ?st) =
       ((msgs @ [?m]) @ map (\<lambda>(tc, r). tool_message (tc_id tc) (content_for_llm r)) rs, st')"
    "ts_events st' = ts_events ?st @ concat (map (\<lambda>(tc, r). result_events opts r) rs)"
    "ts_sessions st' = fold (add_full_message now (po_session_key opts))
         (map (\<lambda>(tc, r). tool_message (tc_id tc) (content_for_llm r)) rs) (ts_sessions ?st)"
    using Cons.IH [of "msgs @ [?m]" ?st] by blast
  then show ?case by (intro exI [of _ st']) (simp add: 1 case_prod_unfold)
qed simp

text \<open>The results of a round, call by call.\<close>

definition round_results ::
    "lib_env \<Rightarrow> agent_instance \<Rightarrow> process_options \<Rightarrow> iteration_env \<Rightarrow> llm_response \<Rightarrow> (tool_call \<times> tool_result) list" where
  "round_results lib ag opts e resp =
     map (\<lambda>(i, tc). (tc, fst (run_tool_call lib ag opts (it_call e i) tc)))
       (enumerate 0 (map (normalize_tool_call (lb_json lib)) (lr_tool_calls resp)))"

definition round_events ::
    "lib_env \<Rightarrow> agent_instance \<Rightarrow> process_options \<Rightarrow> iteration_env \<Rightarrow> llm_response \<Rightarrow> turn_event list" where
  "round_events lib ag opts e resp =
     (let calls = map (normalize_tool_call (lb_json lib)) (lr_tool_calls resp) in
      map (\<lambda>tc. EvToolStart (tc_name tc)) calls @
      concat (map (\<lambda>(i, tc). snd (run_tool_call lib ag opts (it_call e i) tc)) (enumerate 0 calls)) @
      concat (map (\<lambda>(tc, r). result_events opts r) (round_results lib ag opts e resp)))"

lemma zip_enumerate:
  "zip cs (map fst (map (\<lambda>(i, tc). f i tc) (enumerate n cs))) = map (\<lambda>(i, tc). (tc, fst (f i tc))) (enumerate n cs)"
  by (induction cs arbitrary: n) simp_all

lemma round_results_fst: "map fst (round_results lib ag opts e resp) = map (normalize_tool_call (lb_json lib)) (lr_tool_calls resp)"
proof -
  have "map fst (map (\<lambda>(i, tc). (tc, f i tc)) (enumerate n cs)) = cs" for f :: "nat \<Rightarrow> tool_call \<Rightarrow> tool_result" and n and cs
    by (induction cs arbitrary: n) simp_all
  then show ?thesis by (simp add: round_results_def)
qed

lemma run_tool_round_eq:
  "\<exists>st'. run_tool_round lib ag opts e resp msgs st =
       (msgs @ exchange_messages (lb_json lib) resp (round_results lib ag opts e resp), st')
     \<and> ts_events st' = ts_events st @ round_events lib ag opts e resp
     \<and> ts_sessions st' = fold (add_full_message (it_now e) (po_session_key opts))
         (exchange_messages (lb_json lib) resp (round_results lib ag opts e resp)) (ts_sessions st)"
proof -
  let ?calls = "map (normalize_tool_call (lb_json lib)) (lr_tool_calls resp)"
  let ?a = "assistant_message (lb_json lib) resp ?calls"
  let ?run = "\<lambda>(i, tc). run_tool_call lib ag opts (it_call e i) tc"
  let ?st2 = "emit_events (map (\<lambda>tc. EvToolStart (tc_name tc)) ?calls @ concat (map snd (map ?run (enumerate 0 ?calls))))
    (st\<lparr>ts_sessions := add_full_message (it_now e) (po_session_key opts) ?a (ts_sessions st)\<rparr>)"
  have z: "zip ?calls (map fst (map ?run (enumerate 0 ?calls))) = round_results lib ag opts e resp"
    unfolding round_results_def by (rule zip_enumerate)
  have a: "exchange_messages (lb_json lib) resp (round_results lib ag opts e resp) =
      ?a # map (\<lambda>(tc, r). tool_message (tc_id tc) (content_for_llm r)) (round_results lib ag opts e resp)"
    by (simp add: exchange_messages_def round_results_fst)
  obtain st3 where st3: "fold (record_result (it_now e) opts) (round_results lib ag opts e resp) (msgs @ [?a], ?st2) =
       ((msgs @ [?a]) @ map (\<lambda>(tc, r). tool_message (tc_id tc) (content_for_llm r)) (round_results lib ag opts e resp), st3)"
    "ts_events st3 = ts_events ?st2 @ concat (map (\<lambda>(tc, r). result_events opts r) (round_results lib ag opts e resp))"
    "ts_sessions st3 = fold (add_full_message (it_now e) (po_session_key opts))
         (map (\<lambda>(tc, r). tool_message (tc_id tc) (content_for_llm r)) (round_results lib ag opts e resp)) (ts_sessions ?st2)"
    using fold_record_result [of "it_now e" opts "round_results lib ag opts e resp" "msgs @ [?a]" ?st2] by blast
  show ?thesis
    unfolding run_tool_round_def Let_def z st3(1) prod.case
    by (rule exI [of _ "st3\<lparr>ts_tools := tick_ttl (it_tools e)\<rparr>"])
      (simp add: a st3 round_events_def Let_def map_concat comp_def case_prod_unfold)
qed


section \<open>What a turn does to events and conversations\<close>

fun event_ok :: "turn_event \<Rightarrow> bool" where
  "event_ok (EvRequest model msgs) \<longleftrightarrow> request_ok msgs"
| "event_ok _ \<longleftrightarrow> True"

fun is_request :: "turn_event \<Rightarrow> bool" where
  "is_request (EvRequest model msgs) \<longleftrightarrow> True"
| "is_request _ \<longleftrightarrow> False"

definition requests :: "turn_event list \<Rightarrow> nat" where
  "requests es = length (filter is_request es)"

lemma requests_simps [simp]: "requests [] = 0" "requests (es @ es') = requests es + requests es'"
  by (simp_all add: requests_def)

text \<open>
  A turn touches the sessions only through the interface of the session store, and only its own
  session; without an emergency compression it only adds messages and saves.
\<close>

fun plain_call :: "'m session_op \<Rightarrow> bool" where
  "plain_call (SAdd m) = True"
| "plain_call SSave = True"
| "plain_call _ = False"

definition by_calls :: "string \<Rightarrow> bool \<Rightarrow> 'm session_manager \<Rightarrow> 'm session_manager \<Rightarrow> bool" where
  "by_calls key b sm sm' \<longleftrightarrow> (\<exists>ops. sm' = fold manager_step ops sm
     \<and> list_all (\<lambda>a. fst (snd a) = key \<and> (b \<or> plain_call (snd (snd a)))) ops)"

lemma by_calls_refl [simp]: "by_calls key b sm sm"
  unfolding by_calls_def by (rule exI [of _ "[]"]) simp

lemma by_calls_trans: "by_calls key b sm sm1 \<Longrightarrow> by_calls key b sm1 sm2 \<Longrightarrow> by_calls key b sm sm2"
proof -
  assume "by_calls key b sm sm1" "by_calls key b sm1 sm2"
  then obtain ops us where "sm1 = fold manager_step ops sm" "sm2 = fold manager_step us sm1"
    "list_all (\<lambda>a. fst (snd a) = key \<and> (b \<or> plain_call (snd (snd a)))) (ops @ us)" by (auto simp: by_calls_def)
  then show ?thesis unfolding by_calls_def by (intro exI [of _ "ops @ us"]) simp
qed

lemma by_calls_mono: "by_calls key b sm sm' \<Longrightarrow> (b \<Longrightarrow> c) \<Longrightarrow> by_calls key c sm sm'"
  unfolding by_calls_def by (auto simp: list_all_iff)

lemma by_calls_one:
  "by_calls key b sm (add_full_message now key m sm)" "by_calls key True sm (set_history now key us sm)"
  "by_calls key True sm (set_summary now key t sm)" "by_calls key b sm (fst (save_session io key sm))"
  unfolding by_calls_def
  by (rule exI [of _ "[((now, True), key, SAdd m)]"], simp,
      rule exI [of _ "[((now, True), key, SSetHistory us)]"], simp,
      rule exI [of _ "[((now, True), key, SSetSummary t)]"], simp,
      rule exI [of _ "[((0, io), key, SSave)]"], simp)

lemma by_calls_adds: "by_calls key b sm (fold (add_full_message now key) us sm)"
  by (induction us arbitrary: sm) (auto intro: by_calls_trans by_calls_one)

lemma by_calls_answer: "by_calls key b sm (fst (save_session io key (add_message tm now key role content sm)))"
  unfolding add_message_def by (rule by_calls_trans [OF by_calls_one(1,4)])

lemma by_calls_start: "by_calls key b sm (add_message tm now key role content sm)"
  unfolding add_message_def by (rule by_calls_one(1))

lemma by_calls_replaced: "by_calls key True sm (fst (save_session io key (set_history now key us sm)))"
  by (rule by_calls_trans [OF by_calls_one(2,4)])

lemma by_calls_compacted: "by_calls key True sm (apply_compaction now save key h n l2 sm)"
  unfolding apply_compaction_def Let_def
  by (intro by_calls_trans [OF _ by_calls_one(4)]) (auto intro: by_calls_one by_calls_trans [OF by_calls_one(2,3)])

text \<open>New events are fine and hold at most \<open>n\<close> requests; other conversations stay.\<close>

definition advances :: "string \<Rightarrow> nat \<Rightarrow> turn_state \<Rightarrow> turn_state \<Rightarrow> bool" where
  "advances key n st st' \<longleftrightarrow>
     (\<exists>new. ts_events st' = ts_events st @ new \<and> list_all event_ok new \<and> requests new \<le> n)
     \<and> (\<forall>k. k \<noteq> key \<longrightarrow> get_history (ts_sessions st') k = get_history (ts_sessions st) k)
     \<and> by_calls key (EvCompressed \<in> set (ts_events st')) (ts_sessions st) (ts_sessions st')"

text \<open>Without a compression the conversation itself stays as well.\<close>

definition keeps_history :: "turn_state \<Rightarrow> turn_state \<Rightarrow> bool" where
  "keeps_history st st' \<longleftrightarrow>
     (EvCompressed \<notin> set (ts_events st') \<longrightarrow>
        EvCompressed \<notin> set (ts_events st) \<and> (\<forall>k. get_history (ts_sessions st') k = get_history (ts_sessions st) k))"

lemma advances_trans: "advances key a st st1 \<Longrightarrow> advances key b st1 st2 \<Longrightarrow> advances key (a + b) st st2"
proof -
  assume a: "advances key a st st1" and b: "advances key b st1 st2"
  from a obtain new1 where n1: "ts_events st1 = ts_events st @ new1" "list_all event_ok new1" "requests new1 \<le> a"
    by (auto simp: advances_def)
  from b obtain new2 where n2: "ts_events st2 = ts_events st1 @ new2" "list_all event_ok new2" "requests new2 \<le> b"
    by (auto simp: advances_def)
  have "ts_events st2 = ts_events st @ (new1 @ new2) \<and> list_all event_ok (new1 @ new2) \<and> requests (new1 @ new2) \<le> a + b"
    using n1 n2 by simp
  moreover have "by_calls key (EvCompressed \<in> set (ts_events st2)) (ts_sessions st) (ts_sessions st2)"
  proof (rule by_calls_trans)
    have "by_calls key (EvCompressed \<in> set (ts_events st1)) (ts_sessions st) (ts_sessions st1)" using a by (simp add: advances_def)
    then show "by_calls key (EvCompressed \<in> set (ts_events st2)) (ts_sessions st) (ts_sessions st1)"
      by (rule by_calls_mono) (simp add: n2(1))
    show "by_calls key (EvCompressed \<in> set (ts_events st2)) (ts_sessions st1) (ts_sessions st2)" using b by (simp add: advances_def)
  qed
  moreover have "\<forall>k. k \<noteq> key \<longrightarrow> get_history (ts_sessions st2) k = get_history (ts_sessions st) k"
    using a b by (simp add: advances_def)
  ultimately show ?thesis unfolding advances_def by (intro conjI exI [of _ "new1 @ new2"]) simp_all
qed

lemma advances_mono: "advances key a st st' \<Longrightarrow> a \<le> b \<Longrightarrow> advances key b st st'"
proof -
  assume a: "advances key a st st'" and "a \<le> b"
  then obtain new where "ts_events st' = ts_events st @ new" "list_all event_ok new" "requests new \<le> b"
    by (auto simp: advances_def)
  with a show ?thesis unfolding advances_def by (intro conjI exI [of _ new]) simp_all
qed

lemma keeps_trans: "keeps_history st st1 \<Longrightarrow> keeps_history st1 st2 \<Longrightarrow> keeps_history st st2"
  unfolding keeps_history_def by metis

lemma advances_emit: "\<not> is_request e \<Longrightarrow> advances key 0 st (emit_event e st)"
  unfolding advances_def by (cases e) (auto simp: requests_def)

lemma keeps_emit: "keeps_history st (emit_event e st)"
  by (simp add: keeps_history_def)

lemma execute_loop_calls: "execute_loop env i cs atts ct = (out, ct', calls) \<Longrightarrow> length calls \<le> length cs"
proof (induction cs arbitrary: i atts ct out ct' calls)
  case (Cons c cs)
  then show ?case by (cases rule: execute_loop_cases [of env i c cs atts ct]) (auto dest: le_SucI, fastforce)
qed auto

lemma call_llm_advances:
  assumes "call_llm le cands model msgs st = (res, st1)" and "request_ok msgs"
  shows "advances key (max 1 (length cands)) st st1 \<and> keeps_history st st1"
proof (cases "length cands > 1")
  case True
  obtain out ct calls where x: "execute (attempt_of_call le msgs (to_provider_defs (ts_tools st))) cands (ts_cooldown st) = (out, ct, calls)"
    by (metis prod_cases3)
  have "cands \<noteq> []" using True by auto
  then have l: "length calls \<le> length cands" using x execute_loop_calls by (auto simp: execute_def)
  have e: "st1 = emit_events (map (\<lambda>(i, provider, m). EvRequest m msgs) calls) (st\<lparr>ts_cooldown := ct\<rparr>)"
    using assms(1) True x by (simp add: call_llm_def Let_def)
  have "list_all event_ok (map (\<lambda>(i, provider, m). EvRequest m msgs) calls)"
    "requests (map (\<lambda>(i, provider, m). EvRequest m msgs) calls) \<le> length calls"
    "EvCompressed \<notin> set (map (\<lambda>(i, provider, m). EvRequest m msgs) calls)"
    using assms(2) by (auto simp: list_all_iff requests_def intro: order_trans [OF length_filter_le])
  with l show ?thesis unfolding e advances_def keeps_history_def by (auto simp: le_max_iff_disj)
next
  case False
  then have "st1 = emit_event (EvRequest model msgs) st" using assms(1) by (simp add: call_llm_def Let_def)
  then show ?thesis using assms(2) by (simp add: advances_def keeps_history_def requests_def)
qed

lemma get_history_set [simp]:
  "get_history (set_history now k ns sm) k' =
     (if k = k' \<and> mget (sm_sessions sm) k \<noteq> None then ns else get_history sm k')"
  by (auto simp: set_history_def get_history_def split: option.split)

lemma get_history_set_summary [simp]: "get_history (set_summary now k s sm) k' = get_history sm k'"
  by (auto simp: set_summary_def get_history_def split: option.split)

lemma legacy_compression_advances:
  "advances key 0 st (legacy_force_compression now save key st) \<and> keeps_history st (legacy_force_compression now save key st)"
  by (simp add: legacy_force_compression_def Let_def advances_def keeps_history_def requests_def by_calls_replaced)

lemma apply_compaction_other: "k \<noteq> key \<Longrightarrow> get_history (apply_compaction now save key h n l2 sm) k = get_history sm k"
  by (simp add: apply_compaction_def Let_def)

lemma force_compression_advances:
  "advances key 0 st (force_compression ag answer now save key st) \<and> keeps_history st (force_compression ag answer now save key st)"
  using legacy_compression_advances [of key st now save]
  by (cases answer)
    (auto simp: force_compression_def force_compact_def Let_def advances_def keeps_history_def requests_def apply_compaction_other by_calls_compacted)

lemma retries_advance:
  "call_with_retries ag opts e cands model left msgs st = (res, msgs', st') \<Longrightarrow> request_ok msgs \<Longrightarrow>
     advances (po_session_key opts) (Suc left * max 1 (length cands)) st st' \<and> keeps_history st st' \<and> request_ok msgs'"
proof (induction left arbitrary: msgs st)
  case 0
  obtain r st1 where c: "call_llm (it_llm e max_retries) cands model msgs st = (r, st1)" by force
  have "st' = st1" "msgs' = msgs" using "0.prems"(1) c by (auto simp: call_with_retries.simps Let_def split: sum.splits)
  then show ?case using call_llm_advances [OF c "0.prems"(2)] "0.prems"(2) by simp
next
  case (Suc left)
  let ?key = "po_session_key opts" and ?n = "max 1 (length cands)" and ?retry = "max_retries - Suc left"
  obtain r st1 where c: "call_llm (it_llm e ?retry) cands model msgs st = (r, st1)" by force
  have 1: "advances ?key ?n st st1" "keeps_history st st1" using call_llm_advances [OF c Suc.prems(2)] by simp_all
  have stop: ?case if "st' = st1" "msgs' = msgs"
    using that 1 Suc.prems(2) advances_mono [OF 1(1), of "Suc (Suc left) * ?n"] by simp
  have go: ?case
    if "call_with_retries ag opts e cands model left msgs2 st2 = (res, msgs', st')" "request_ok msgs2"
      "advances ?key 0 st1 st2" "keeps_history st1 st2" for msgs2 st2
  proof -
    have "advances ?key (Suc left * ?n) st2 st' \<and> keeps_history st2 st' \<and> request_ok msgs'" by (rule Suc.IH [OF that(1,2)])
    then show ?thesis
      using advances_trans [OF advances_trans [OF 1(1) that(3)]] keeps_trans [OF keeps_trans [OF 1(2) that(4)]] by fastforce
  qed
  show ?case
  proof (cases r)
    case (Inr resp)
    then show ?thesis using Suc.prems(1) c stop by (simp add: call_with_retries.simps Let_def)
  next
    case (Inl err)
    show ?thesis
    proof (cases "is_timeout_error err")
      case True
      then have "call_with_retries ag opts e cands model left msgs st1 = (res, msgs', st')"
        using Suc.prems(1) c Inl by (subst (asm) call_with_retries.simps) (simp add: Let_def)
      then show ?thesis by (rule go) (use Suc.prems(2) in \<open>simp_all add: advances_def keeps_history_def requests_def\<close>)
    next
      case nt: False
      show ?thesis
      proof (cases "is_context_error err")
        case False
        then show ?thesis using Suc.prems(1) c Inl nt stop by (simp add: call_with_retries.simps Let_def)
      next
        case True
        let ?st2 = "if ?retry = 0 \<and> \<not> is_internal_channel (po_channel opts) then emit_event (EvOutbound compressing_note) st1 else st1"
        let ?st3 = "force_compression ag (it_compact e ?retry) (it_now e) (it_save e) ?key ?st2"
        have "advances ?key 0 st1 ?st2" "keeps_history st1 ?st2"
          by (simp_all add: advances_def keeps_history_def requests_def)
        then have "advances ?key 0 st1 ?st3" "keeps_history st1 ?st3"
          using force_compression_advances [of ?key ?st2 ag "it_compact e ?retry" "it_now e" "it_save e"]
            advances_trans [of ?key 0 st1 ?st2 0 ?st3] keeps_trans [of st1 ?st2 ?st3] by simp_all
        moreover have "\<exists>msgs3. call_with_retries ag opts e cands model left msgs3 ?st3 = (res, msgs', st') \<and> request_ok msgs3"
          using Suc.prems(1) c Inl nt True build_messages_ok
          by (subst (asm) call_with_retries.simps) (auto simp: Let_def simp del: max_retries_def)
        ultimately show ?thesis using go by blast
      qed
    qed
  qed
qed

lemma call_events_ok: "list_all (\<lambda>e. event_ok e \<and> \<not> is_request e \<and> e \<noteq> EvCompressed) (snd (run_tool_call lib ag opts ce tc))"
proof -
  have p: "list_all (\<lambda>e. event_ok e \<and> \<not> is_request e \<and> e \<noteq> EvCompressed) (snd (run_tool_pending_approval lib ag opts ce tc r))" for r
    by (simp add: run_tool_pending_approval_def ran_event_def Let_def split: option.split)
  then have x: "list_all (\<lambda>e. event_ok e \<and> \<not> is_request e \<and> e \<noteq> EvCompressed) (snd (execute_call lib ag opts ce tc))"
    by (simp add: execute_call_def ran_event_def Let_def case_prod_unfold)
  then show ?thesis
    by (simp add: run_tool_call_def Let_def case_prod_unfold split: option.split shield_action.split)
qed

lemma list_all_concat_map: "(\<And>x. list_all P (f x)) \<Longrightarrow> list_all P (concat (map f xs))"
  by (induction xs) simp_all

lemma round_events_ok: "list_all (\<lambda>e. event_ok e \<and> \<not> is_request e \<and> e \<noteq> EvCompressed) (round_events lib ag opts e resp)"
proof -
  have r: "list_all (\<lambda>e. event_ok e \<and> \<not> is_request e \<and> e \<noteq> EvCompressed) (result_events opts r)" for r
    by (simp add: result_events_def)
  show ?thesis unfolding round_events_def Let_def list_all_append
    by (intro conjI list_all_concat_map)
      (simp add: list_all_length, simp only: case_prod_unfold call_events_ok, simp only: case_prod_unfold r)
qed


lemma round_advances:
  assumes "run_tool_round lib ag opts e resp msgs st = (msgs', st')" and "lr_tool_calls resp \<noteq> []"
  shows "advances (po_session_key opts) 0 st st'"
    and "request_ok msgs \<Longrightarrow> request_ok msgs'"
    and "EvCompressed \<in> set (ts_events st') \<longleftrightarrow> EvCompressed \<in> set (ts_events st)"
    and "get_history (ts_sessions st') (po_session_key opts) =
      get_history (ts_sessions st) (po_session_key opts) @ exchange_messages (lb_json lib) resp (round_results lib ag opts e resp)"
proof -
  have eq: "msgs' = msgs @ exchange_messages (lb_json lib) resp (round_results lib ag opts e resp)"
    "ts_events st' = ts_events st @ round_events lib ag opts e resp"
    "ts_sessions st' = fold (add_full_message (it_now e) (po_session_key opts))
         (exchange_messages (lb_json lib) resp (round_results lib ag opts e resp)) (ts_sessions st)"
    using run_tool_round_eq [of lib ag opts e resp msgs st] assms(1) by auto
  have "map fst (round_results lib ag opts e resp) \<noteq> []" using assms(2) by (simp only: round_results_fst map_is_Nil_conv not_False_eq_True)
  then have ne: "round_results lib ag opts e resp \<noteq> []" by simp
  have ok: "list_all event_ok (round_events lib ag opts e resp)" "requests (round_events lib ag opts e resp) = 0"
    "EvCompressed \<notin> set (round_events lib ag opts e resp)"
    using round_events_ok [of lib ag opts e resp] by (auto simp: list_all_iff requests_def filter_empty_conv)
  show "advances (po_session_key opts) 0 st st'" using eq(2,3) ok by (simp add: advances_def get_history_adds by_calls_adds)
  show "request_ok msgs \<Longrightarrow> request_ok msgs'" using eq(1) exchange_request [OF ne] by (simp add: request_append)
  show "EvCompressed \<in> set (ts_events st') \<longleftrightarrow> EvCompressed \<in> set (ts_events st)" using eq(2) ok(3) by simp
  show "get_history (ts_sessions st') (po_session_key opts) =
      get_history (ts_sessions st) (po_session_key opts) @ exchange_messages (lb_json lib) resp (round_results lib ag opts e resp)"
    using eq(3) by (simp add: get_history_adds)
qed

lemma iterations_advance:
  "llm_iterations lib ag opts env cands model left k msgs st = (res, k', st') \<Longrightarrow> request_ok msgs \<Longrightarrow>
     advances (po_session_key opts) (left * (3 * max 1 (length cands))) st st'"
proof (induction left arbitrary: k msgs st)
  case 0
  then show ?case using advances_emit [of "EvDone []" "po_session_key opts" st] by simp
next
  case (Suc left)
  let ?key = "po_session_key opts" and ?n = "3 * max 1 (length cands)"
  obtain r msgs1 st1 where c: "call_with_retries ag opts (env k) cands model max_retries msgs st = (r, msgs1, st1)"
    by (metis prod_cases3)
  have 1: "advances ?key ?n st st1" "request_ok msgs1"
    using retries_advance [OF c Suc.prems(2)] by (simp_all add: max_retries_def eval_nat_numeral)
  show ?case
  proof (cases r)
    case (Inl err)
    then have "st' = emit_event (EvError (''LLM call failed: '' @ ce_text err)) st1" using Suc.prems(1) c by (auto simp: Let_def)
    then have "advances ?key 0 st1 st'" by (simp only: advances_emit is_request.simps not_False_eq_True)
    then have "advances ?key (?n + 0) st st'" by (rule advances_trans [OF 1(1)])
    then show ?thesis by (rule advances_mono) simp
  next
    case (Inr resp)
    let ?st2 = "if lr_reasoning_content resp \<noteq> [] then emit_event (EvThinking (lr_reasoning_content resp)) st1 else st1"
    have 2: "advances ?key 0 st1 ?st2" by (simp add: advances_def requests_def)
    show ?thesis
    proof (cases "lr_tool_calls resp = []")
      case True
      then have st': "st' = emit_events [EvContentChunk (final_content resp), EvDone (final_content resp)] ?st2"
        using Suc.prems(1) c Inr by (simp add: Let_def)
      have "advances ?key 0 ?st2 st'" unfolding st' by (simp add: advances_def requests_def)
      then have "advances ?key (?n + 0 + 0) st st'" using advances_trans [OF advances_trans [OF 1(1) 2]] by blast
      then show ?thesis by (rule advances_mono) simp
    next
      case False
      obtain msgs3 st3 where r: "run_tool_round lib ag opts (env k) resp msgs1 ?st2 = (msgs3, st3)" by force
      have "llm_iterations lib ag opts env cands model left (Suc k) msgs3 st3 = (res, k', st')"
        using Suc.prems(1) c Inr False r by (simp add: Let_def)
      then have "advances ?key (left * ?n) st3 st'" using Suc.IH round_advances(2) [OF r False 1(2)] by blast
      moreover have "advances ?key 0 ?st2 st3" by (rule round_advances(1) [OF r False])
      ultimately have "advances ?key (?n + 0 + 0 + left * ?n) st st'"
        using advances_trans [OF advances_trans [OF advances_trans [OF 1(1) 2]]] by blast
      then show ?thesis by (rule advances_mono) simp
    qed
  qed
qed

text \<open>A history at which a turn with calls can be stored.\<close>

definition open_history :: "chat_message list \<Rightarrow> bool" where
  "open_history h \<longleftrightarrow> provider_ready h \<and> end_place Elsewhere h \<in> {AfterUser, AfterResult}"

lemma ready_append:
  "ready_from c xs \<Longrightarrow> starts_new ys \<Longrightarrow> ready_from (end_place c xs) ys \<Longrightarrow> ready_from c (xs @ ys)"
  by (induction xs arbitrary: c) (simp_all add: takeWhile_starts_new)

lemma end_place_append: "end_place c (xs @ ys) = end_place (end_place c xs) ys"
  by (simp add: end_place_def)

lemma open_history_exchange:
  "open_history h \<Longrightarrow> rs \<noteq> [] \<Longrightarrow> open_history (h @ exchange_messages js resp rs)"
  using exchange_ready [of rs "end_place Elsewhere h" js resp]
  by (simp add: open_history_def provider_ready_def ready_append end_place_append)

lemma ready_text: "provider_ready h \<Longrightarrow> role \<notin> {''tool'', ''system''} \<Longrightarrow> provider_ready (h @ [text_message role content])"
  unfolding provider_ready_def
  by (rule ready_append) (simp_all add: starts_new_def in_place_def text_message_kind, simp add: text_message_def)

lemma open_text: "provider_ready h \<Longrightarrow> open_history (h @ [text_message ''user'' content])"
  using ready_text [of h "''user''" content] by (simp add: open_history_def text_message_kind) (simp add: text_message_def)

lemma iterations_open:
  "llm_iterations lib ag opts env cands model left k msgs st = (res, k', st') \<Longrightarrow> request_ok msgs \<Longrightarrow>
     open_history (get_history (ts_sessions st) (po_session_key opts)) \<Longrightarrow> EvCompressed \<notin> set (ts_events st') \<Longrightarrow>
     EvCompressed \<notin> set (ts_events st) \<and> open_history (get_history (ts_sessions st') (po_session_key opts))"
proof (induction left arbitrary: k msgs st)
  case (Suc left)
  let ?key = "po_session_key opts"
  obtain r msgs1 st1 where c: "call_with_retries ag opts (env k) cands model max_retries msgs st = (r, msgs1, st1)"
    by (metis prod_cases3)
  have kept: "keeps_history st st1" and ok: "request_ok msgs1" using retries_advance [OF c Suc.prems(2)] by simp_all
  show ?case
  proof (cases r)
    case (Inl err)
    then have "st' = emit_event (EvError (''LLM call failed: '' @ ce_text err)) st1" using Suc.prems(1) c by (auto simp: Let_def)
    then show ?thesis using kept Suc.prems(3,4) by (simp add: keeps_history_def)
  next
    case (Inr resp)
    let ?st2 = "if lr_reasoning_content resp \<noteq> [] then emit_event (EvThinking (lr_reasoning_content resp)) st1 else st1"
    show ?thesis
    proof (cases "lr_tool_calls resp = []")
      case True
      then have "st' = emit_events [EvContentChunk (final_content resp), EvDone (final_content resp)] ?st2"
        using Suc.prems(1) c Inr by (simp add: Let_def)
      then show ?thesis using kept Suc.prems(3,4) by (simp add: keeps_history_def split: if_splits)
    next
      case False
      obtain msgs3 st3 where r: "run_tool_round lib ag opts (env k) resp msgs1 ?st2 = (msgs3, st3)" by force
      have it: "llm_iterations lib ag opts env cands model left (Suc k) msgs3 st3 = (res, k', st')"
        using Suc.prems(1) c Inr False r by (simp add: Let_def)
      have adv: "advances ?key (left * (3 * max 1 (length cands))) st3 st'"
        by (rule iterations_advance [OF it round_advances(2) [OF r False ok]])
      then have "EvCompressed \<notin> set (ts_events st3)" using Suc.prems(4) by (auto simp: advances_def)
      then have "EvCompressed \<notin> set (ts_events ?st2)" using round_advances(3) [OF r False] by simp
      then have st1: "EvCompressed \<notin> set (ts_events st1)" by (simp split: if_splits)
      have "round_results lib ag opts (env k) resp \<noteq> []"
        using False round_results_fst [of lib ag opts "env k" resp] by (metis map_is_Nil_conv)
      then have "open_history (get_history (ts_sessions st3) ?key)"
        using kept st1 Suc.prems(3) open_history_exchange round_advances(4) [OF r False] by (simp add: keeps_history_def)
      then show ?thesis using Suc.IH [OF it round_advances(2) [OF r False ok]] Suc.prems(4) kept st1 by (simp add: keeps_history_def)
    qed
  qed
qed auto

lemma turn_messages_ok: "request_ok (turn_messages ag opts te st)"
  by (simp add: turn_messages_def Let_def resolve_media_ok build_messages_ok)

text \<open>The state in which the iterations of a turn start, and how the turn ends.\<close>

definition turn_start :: "process_options \<Rightarrow> turn_env \<Rightarrow> turn_state \<Rightarrow> turn_state" where
  "turn_start opts te st =
     (let st1 = (if po_channel opts \<noteq> [] \<and> po_chat_id opts \<noteq> [] \<and> \<not> is_internal_channel (po_channel opts)
                 then emit_event (EvLastChannel (po_channel opts @ '':'' @ po_chat_id opts)) st else st)
      in st1\<lparr>ts_sessions := add_message text_message (te_now te) (po_session_key opts) ''user'' (po_user_message opts) (ts_sessions st1)\<rparr>)"

lemma turn_parts:
  obtains res k st3 msgs where
    "llm_iterations lib ag opts (te_iteration te) (turn_candidates ag te) (turn_model ag te) (nat (ag_max_iterations ag)) 0
       msgs (turn_start opts te st) = (res, k, st3)"
    "request_ok msgs"
    "case res of
       Inl err \<Rightarrow> run_agent_loop lib ag opts te st = (Inl err, st3)
     | Inr content \<Rightarrow>
         (let final = (if content = [] then po_default_response opts else content);
              st4 = st3\<lparr>ts_sessions := fst (save_session (te_save te) (po_session_key opts)
                  (add_message text_message (te_end te) (po_session_key opts) ''assistant'' final (ts_sessions st3)))\<rparr>
          in run_agent_loop lib ag opts te st = (Inr final, if po_send_response opts then emit_event (EvOutbound final) st4 else st4))"
proof -
  let ?st1 = "if po_channel opts \<noteq> [] \<and> po_chat_id opts \<noteq> [] \<and> \<not> is_internal_channel (po_channel opts)
                 then emit_event (EvLastChannel (po_channel opts @ '':'' @ po_chat_id opts)) st else st"
  obtain res k st3 where it: "llm_iterations lib ag opts (te_iteration te) (turn_candidates ag te) (turn_model ag te)
      (nat (ag_max_iterations ag)) 0 (turn_messages ag opts te ?st1) (turn_start opts te st) = (res, k, st3)"
    by (metis prod_cases3)
  show thesis
    by (rule that [OF it turn_messages_ok])
      (use it in \<open>simp add: run_agent_loop_def turn_start_def Let_def split: sum.split\<close>)
qed

lemma turn_start_advances: "advances (po_session_key opts) 0 st (turn_start opts te st)"
  by (simp add: turn_start_def Let_def advances_def requests_def by_calls_start)

lemma turn_advances:
  "advances (po_session_key opts) (nat (ag_max_iterations ag) * (3 * max 1 (length (turn_candidates ag te)))) st
     (snd (run_agent_loop lib ag opts te st))"
proof -
  let ?key = "po_session_key opts" and ?n = "nat (ag_max_iterations ag) * (3 * max 1 (length (turn_candidates ag te)))"
  obtain res k st3 msgs where it:
    "llm_iterations lib ag opts (te_iteration te) (turn_candidates ag te) (turn_model ag te) (nat (ag_max_iterations ag)) 0
       msgs (turn_start opts te st) = (res, k, st3)" "request_ok msgs"
    "case res of
       Inl err \<Rightarrow> run_agent_loop lib ag opts te st = (Inl err, st3)
     | Inr content \<Rightarrow>
         (let final = (if content = [] then po_default_response opts else content);
              st4 = st3\<lparr>ts_sessions := fst (save_session (te_save te) (po_session_key opts)
                  (add_message text_message (te_end te) (po_session_key opts) ''assistant'' final (ts_sessions st3)))\<rparr>
          in run_agent_loop lib ag opts te st = (Inr final, if po_send_response opts then emit_event (EvOutbound final) st4 else st4))"
    by (rule turn_parts)
  have 1: "advances ?key (0 + ?n) st st3"
    by (rule advances_trans [OF turn_start_advances iterations_advance [OF it(1,2)]])
  have "advances ?key 0 st3 (snd (run_agent_loop lib ag opts te st))"
    using it(3) by (auto simp: Let_def advances_def requests_def by_calls_answer split: sum.splits)
  from advances_trans [OF 1 this] show ?thesis by simp
qed


lemma turn_history_ready:
  assumes "provider_ready (get_history (ts_sessions st) (po_session_key opts))"
    and "EvCompressed \<notin> set (ts_events (snd (run_agent_loop lib ag opts te st)))"
  shows "provider_ready (get_history (ts_sessions (snd (run_agent_loop lib ag opts te st))) (po_session_key opts))"
proof -
  let ?key = "po_session_key opts" and ?out = "run_agent_loop lib ag opts te st"
  obtain res k st3 msgs where it:
    "llm_iterations lib ag opts (te_iteration te) (turn_candidates ag te) (turn_model ag te) (nat (ag_max_iterations ag)) 0
       msgs (turn_start opts te st) = (res, k, st3)" "request_ok msgs"
    "case res of
       Inl err \<Rightarrow> ?out = (Inl err, st3)
     | Inr content \<Rightarrow>
         (let final = (if content = [] then po_default_response opts else content);
              st4 = st3\<lparr>ts_sessions := fst (save_session (te_save te) ?key
                  (add_message text_message (te_end te) ?key ''assistant'' final (ts_sessions st3)))\<rparr>
          in ?out = (Inr final, if po_send_response opts then emit_event (EvOutbound final) st4 else st4))"
    by (rule turn_parts)
  have "get_history (ts_sessions (turn_start opts te st)) ?key =
      get_history (ts_sessions st) ?key @ [text_message ''user'' (po_user_message opts)]"
    by (simp add: turn_start_def Let_def)
  then have start: "open_history (get_history (ts_sessions (turn_start opts te st)) ?key)" using assms(1) open_text by simp
  have "EvCompressed \<notin> set (ts_events st3)"
    using it(3) assms(2) by (auto simp: Let_def split: sum.splits if_splits)
  then have "open_history (get_history (ts_sessions st3) ?key)" using iterations_open [OF it(1,2) start] by blast
  then have "provider_ready (get_history (ts_sessions st3) ?key)" by (simp add: open_history_def)
  then show ?thesis
    using it(3) ready_text by (auto simp: Let_def split: sum.splits)
qed

section \<open>Properties\<close>

text \<open>
  C8: Whatever providers, tools and users answer, a turn ends after at most three calls per iteration
  and candidate, and every request it sends has one system message, in front, and no tool result and
  no call without its counterpart, also after an emergency compression.
\<close>

theorem turn_requests_well_formed:
  "\<exists>new. ts_events (snd (run_agent_loop lib ag opts te st)) = ts_events st @ new \<and> list_all event_ok new
     \<and> requests new \<le> 3 * nat (ag_max_iterations ag) * max 1 (length (turn_candidates ag te))"
  using turn_advances [of opts ag te st lib] unfolding advances_def by (simp add: ac_simps)

text \<open>A turn never touches the conversation of another session.\<close>

theorem turn_touches_own_session:
  "k = po_session_key opts \<or>
     get_history (ts_sessions (snd (run_agent_loop lib ag opts te st))) k = get_history (ts_sessions st) k"
  using turn_advances [of opts ag te st lib] unfolding advances_def by blast

text \<open>
  C16: If a strict provider accepts the stored history before a turn, and the turn meets no emergency
  compression, the stored history after it is one that such a provider accepts as well, whether the turn
  succeeds or fails: the next request repeats it without loss. The history is that of the in-memory
  manager; \<open>StoredTurns\<close> carries the result over to the JSONL backend.
\<close>

theorem turn_keeps_history_ready:
  assumes "provider_ready (get_history (ts_sessions st) (po_session_key opts))"
    and "EvCompressed \<notin> set (ts_events (snd (run_agent_loop lib ag opts te st)))"
  shows "sanitize_history (get_history (ts_sessions (snd (run_agent_loop lib ag opts te st))) (po_session_key opts)) =
    get_history (ts_sessions (snd (run_agent_loop lib ag opts te st))) (po_session_key opts)"
  by (rule sanitize_id [OF turn_history_ready [OF assms]])

lemma call_llm_model: "length cands > 1 \<Longrightarrow> call_llm le cands model msgs st = call_llm le cands model' msgs st"
  by (simp add: call_llm_def)

lemma force_compression_model [simp]: "force_compression (ag\<lparr>ag_model := x\<rparr>) = force_compression ag"
  by (intro ext) (simp add: force_compression_def)

lemma other_parts: "ag_compactor (ag\<lparr>ag_model := x\<rparr>) = ag_compactor ag"
    "ag_shield (ag\<lparr>ag_model := x\<rparr>) = ag_shield ag" "ag_approvals (ag\<lparr>ag_model := x\<rparr>) = ag_approvals ag"
  by simp_all

lemma retries_model:
  assumes "length cands > 1"
  shows "call_with_retries (ag\<lparr>ag_model := x\<rparr>) opts e cands model' left msgs st = call_with_retries ag opts e cands model left msgs st"
proof (induction left arbitrary: msgs st)
  case 0
  show ?case
    by (subst (1 2) call_with_retries.simps) (simp only: call_llm_model [OF assms, where model = model' and model' = model] nat.case)
next
  case (Suc left)
  show ?case
    unfolding call_with_retries.simps [of _ _ _ _ _ "Suc left"] call_llm_model [OF assms, where model = model' and model' = model]
      nat.case Suc.IH force_compression_model other_parts by (rule refl)
qed

lemma tool_round_model:
  "run_tool_round lib (ag\<lparr>ag_model := x\<rparr>) opts e resp msgs st = run_tool_round lib ag opts e resp msgs st"
proof -
  have pending: "run_tool_pending_approval lib (ag\<lparr>ag_model := x\<rparr>) = run_tool_pending_approval lib ag"
    by (intro ext) (simp only: run_tool_pending_approval_def other_parts)
  have execute: "execute_call lib (ag\<lparr>ag_model := x\<rparr>) = execute_call lib ag"
    by (intro ext) (simp only: execute_call_def pending)
  have "run_tool_call lib (ag\<lparr>ag_model := x\<rparr>) = run_tool_call lib ag"
    by (intro ext) (simp only: run_tool_call_def engine_active_def execute other_parts)
  then show ?thesis by (simp only: run_tool_round_def)
qed

lemma iterations_model:
  assumes "length cands > 1"
  shows "llm_iterations lib (ag\<lparr>ag_model := x\<rparr>) opts env cands model' left k msgs st = llm_iterations lib ag opts env cands model left k msgs st"
proof (induction left arbitrary: k msgs st)
  case 0
  show ?case by simp
next
  case (Suc left)
  show ?case unfolding llm_iterations.simps tool_round_model retries_model [OF assms, where model = model] Suc.IH ..
qed

text \<open>
  With two or more candidates the model of the agent is never used: a turn does the same whatever
  model was chosen with the switch command.
\<close>

theorem switch_model_ignored:
  assumes "length (ag_candidates ag) > 1" and "te_choice te = NoRouter"
  shows "run_agent_loop lib (ag\<lparr>ag_model := x\<rparr>) opts te st = run_agent_loop lib ag opts te st"
  using assms
  by (simp add: run_agent_loop_def turn_candidates_def turn_model_def select_candidates_def turn_messages_def Let_def
      iterations_model [where model = "ag_model ag"])

text \<open>
  C29: The threat filter asks at the wrong place. A call whose decision is to require approval is run
  at once, without a question; a call whose decision is to block is offered to the user and run when
  the user agrees.
\<close>

theorem approval_gate_inverted:
  assumes "engine_active ag = Some engine" and "get_tool (ca_registry e) (tc_name tc) \<noteq> None"
    and "\<not> rs_requires_approval (execute_with_context (ca_body e) (ca_registry e) (tc_name tc) (call_args tc) (turn_context opts False) True)"
  shows "case sd_action (shield_evaluate engine (call_event tc)) of
      ActionRequireApproval \<Rightarrow>
        run_tool_call lib ag opts e tc =
          (let r = execute_with_context (ca_body e) (ca_registry e) (tc_name tc) (call_args tc) (turn_context opts False) True
           in (r, [EvToolRun (tc_name tc) (call_args tc), EvToolEnd (tc_name tc) (error_or_empty r)]))
    | ActionBlock \<Rightarrow>
        EvApprovalAsked (ca_request_id e) (tc_name tc) \<in> set (snd (run_tool_call lib ag opts e tc))
        \<and> (EvToolRun (tc_name tc) (call_args tc) \<in> set (snd (run_tool_call lib ag opts e tc)) \<longleftrightarrow> ca_wait e = WaitAnswer True)
    | _ \<Rightarrow> True"
  using assms by (auto simp: run_tool_call_def execute_call_def ran_event_def Let_def split: shield_action.split)

definition sample_call_env :: "wait_result \<Rightarrow> call_env" where
  "sample_call_env w =
     \<lparr>ca_registry = \<lparr>tr_tools = [(''exec'', \<lparr>te_tool = sample_tool ''exec'', te_core = True, te_ttl = 0\<rparr>)], tr_version = 1\<rparr>,
      ca_body = (\<lambda>t args tx a. new_tool_result ''done''),
      ca_request_id = ''r1'', ca_wait = w, ca_post_registry = new_tool_registry, ca_post_request_id = [],
      ca_post_wait = WaitNotFound\<rparr>"

definition sample_call :: tool_call where
  "sample_call =
     \<lparr>tc_id = ''c1'', tc_type = ''function'', tc_function = None, tc_name = ''exec'', tc_args = Some [(''cmd'', ArgString ''ls'')],
      tc_thought = [], tc_extra = None\<rparr>"

definition sample_agent :: "shield_action \<Rightarrow> agent_instance" where
  "sample_agent action =
     \<lparr>ag_id = ''main'', ag_model = ''m'', ag_candidates = [], ag_max_iterations = 5,
      ag_shield = Some \<lparr>se_threats = [(sample_threat action ''BLOCK: tool.call exec'')\<lparr>th_category := CategoryTool\<rparr>]\<rparr>, ag_approvals = True, ag_compactor = False\<rparr>"

definition sample_options :: process_options where
  "sample_options =
     \<lparr>po_session_key = ''agent:main:main'', po_channel = ''telegram'', po_chat_id = ''7'', po_user_message = ''hello'', po_media = [],
      po_default_response = ''nothing to say'', po_enable_summary = True, po_send_response = False, po_no_history = False\<rparr>"

definition sample_lib :: lib_env where
  "sample_lib = \<lparr>lb_json = \<lparr>js_encode = (\<lambda>a. ''{}''), js_decode = (\<lambda>s. None)\<rparr>, lb_hostname = (\<lambda>u. [])\<rparr>"

theorem approval_gate_inverted_witness:
  "snd (run_tool_call sample_lib (sample_agent ActionRequireApproval) sample_options (sample_call_env (WaitAnswer False)) sample_call) =
     [EvToolRun ''exec'' [(''cmd'', ArgString ''ls'')], EvToolEnd ''exec'' []]
   \<and> EvToolRun ''exec'' [(''cmd'', ArgString ''ls'')] \<in>
      set (snd (run_tool_call sample_lib (sample_agent ActionBlock) sample_options (sample_call_env (WaitAnswer True)) sample_call))"
proof -
  let ?eng = "\<lambda>a. \<lparr>se_threats = [(sample_threat a ''BLOCK: tool.call exec'')\<lparr>th_category := CategoryTool\<rparr>]\<rparr>"
  have eng: "engine_active (sample_agent a) = Some (?eng a)" for a
    by (simp add: engine_active_def sample_agent_def shield_is_active_def)
  have d: "sd_action (shield_evaluate (?eng ActionRequireApproval) (call_event sample_call)) = ActionRequireApproval"
    "sd_action (shield_evaluate (?eng ActionBlock) (call_event sample_call)) = ActionBlock"
    by code_simp+
  have t: "get_tool (ca_registry (sample_call_env w)) (tc_name sample_call) = Some (sample_tool ''exec'')" for w
    by (simp add: sample_call_env_def sample_call_def get_tool_def)
  have r: "execute_with_context (ca_body (sample_call_env w)) (ca_registry (sample_call_env w)) (tc_name sample_call) args tx b =
      new_tool_result ''done''" for w args tx b
    using t [of w] by (simp add: execute_with_context_def) (simp add: sample_call_env_def)
  have w: "ca_wait (sample_call_env w) = w" for w by (simp add: sample_call_env_def)
  have n: "\<not> rs_requires_approval (new_tool_result ''done'')" "rs_err (new_tool_result ''done'') = None"
    by (simp_all add: new_tool_result_def)
  have c: "tc_name sample_call = ''exec''" "call_args sample_call = [(''cmd'', ArgString ''ls'')]"
    by (simp_all add: sample_call_def call_args_def)
  show ?thesis
    using approval_gate_inverted [OF eng [of ActionRequireApproval], where e = "sample_call_env (WaitAnswer False)" and tc = sample_call
          and opts = sample_options and lib = sample_lib]
      approval_gate_inverted [OF eng [of ActionBlock], where e = "sample_call_env (WaitAnswer True)" and tc = sample_call
          and opts = sample_options and lib = sample_lib]
    unfolding r d using w by (simp add: t [unfolded c] n c error_or_empty_def Let_def)
qed

definition sample_iteration :: "llm_response \<Rightarrow> iteration_env" where
  "sample_iteration resp =
     \<lparr>it_llm = (\<lambda>i. \<lparr>le_chat = (\<lambda>j msgs defs model. Inr resp), le_cancelled_before = (\<lambda>j. False), le_check_time = (\<lambda>j. 0),
        le_cancelled_after = (\<lambda>j. False), le_end_time = (\<lambda>j. 0), le_show = (\<lambda>d. [])\<rparr>),
      it_prompt = (\<lambda>i. \<lparr>pe_static = ''be helpful'', pe_now = ''noon'', pe_runtime = ''go'', pe_memory = (\<lambda>s. []), pe_learned = (\<lambda>s. [])\<rparr>),
      it_compact = (\<lambda>i. CompactNothing), it_tiered = (\<lambda>i. []), it_call = (\<lambda>i. sample_call_env (WaitAnswer False)),
      it_tools = new_tool_registry, it_now = 5, it_save = True\<rparr>"

definition sample_turn :: turn_env where
  "sample_turn =
     \<lparr>te_iteration = (\<lambda>k. sample_iteration
         (if k = 0 then \<lparr>lr_content = [], lr_reasoning_content = [], lr_tool_calls = [sample_call], lr_reasoning = []\<rparr>
          else \<lparr>lr_content = ''done'', lr_reasoning_content = [], lr_tool_calls = [], lr_reasoning = []\<rparr>)),
      te_choice = NoRouter, te_prompt = it_prompt (sample_iteration \<lparr>lr_content = [], lr_reasoning_content = [],
        lr_tool_calls = [], lr_reasoning = []\<rparr>) 0, te_tiered = [], te_injected = [], te_media = None, te_max_media = 100,
      te_now = 1, te_end = 9, te_save = True\<rparr>"

definition sample_state :: turn_state where
  "sample_state = \<lparr>ts_sessions = new_session_manager_at False [], ts_cooldown = new_cooldown_tracker, ts_tools = new_tool_registry,
     ts_events = []\<rparr>"

theorem turn_keeps_history_ready_witness:
  "sanitize_history (get_history (ts_sessions (snd (run_agent_loop sample_lib (sample_agent ActionLog) sample_options sample_turn
      sample_state))) (po_session_key sample_options)) =
    get_history (ts_sessions (snd (run_agent_loop sample_lib (sample_agent ActionLog) sample_options sample_turn sample_state)))
      (po_session_key sample_options)"
  by (rule turn_keeps_history_ready) code_simp+


definition fallback_agent :: agent_instance where
  "fallback_agent =
     (sample_agent ActionLog)\<lparr>ag_candidates := [\<lparr>fc_provider = ''openai'', fc_model = ''gpt''\<rparr>, \<lparr>fc_provider = ''groq'', fc_model = ''llama''\<rparr>]\<rparr>"

theorem switch_model_ignored_witness:
  "run_agent_loop sample_lib (fallback_agent\<lparr>ag_model := ''big''\<rparr>) sample_options sample_turn sample_state =
     run_agent_loop sample_lib fallback_agent sample_options sample_turn sample_state"
  by (rule switch_model_ignored) (simp_all add: fallback_agent_def sample_turn_def)

end
