(* ===== verification/JsonlStore.thy ===== *)
theory JsonlStore
  imports SessionManager
begin

text \<open>
  The append-only session store (\<open>pkg/memory/jsonl.go\<close>) and its adapter to the session interface
  (\<open>pkg/session/jsonl_backend.go\<close>). A session is a \<open>.jsonl\<close> file of bytes, one message per line, and
  a metadata file with the number of lines to skip. The JSON encoding of messages is a pair of
  parameters \<open>enc\<close> and \<open>dec\<close>; metadata files are written atomically, so a metadata file holds its
  record.

  An operation is a plan, the list of disk writes it makes in order (or an error before the first
  write); running the first few writes of a plan is what a crash in the middle leaves behind.
\<close>

section \<open>Files and lines\<close>

record session_meta =
  me_key :: string
  me_summary :: string
  me_skip :: nat
  me_count :: nat
  me_created :: "int option"
  me_updated :: "int option"

record jsonl_disk =
  jd_lines :: "(string, string) gomap"
  jd_meta :: "(string, session_meta) gomap"

definition max_line_size :: nat where
  "max_line_size = 10 * 1024 * 1024"

text \<open>\<open>strings.ReplaceAll(s, "..", "_")\<close>.\<close>

fun replace_dots :: "string \<Rightarrow> string" where
  "replace_dots (a # b # s) =
     (if a = CHR ''.'' \<and> b = CHR ''.'' then CHR ''_'' # replace_dots s else a # replace_dots (b # s))"
| "replace_dots s = s"

text \<open>\<open>filepath.Base\<close> of a name without slashes.\<close>

definition base_name :: "string \<Rightarrow> string" where
  "base_name s = (if s = [] then ''.'' else s)"

definition sanitize_key :: "string \<Rightarrow> string" where
  "sanitize_key key = replace_dots (base_name (sanitize_filename key))"

text \<open>The hash fallback of the source is for names that are not local; \<open>fnv\<close> renders the hash.\<close>

definition jsonl_path :: "(string \<Rightarrow> string) \<Rightarrow> string \<Rightarrow> string" where
  "jsonl_path fnv key =
     (let name = sanitize_key key @ ''.jsonl'' in if is_local name then name else fnv key @ ''.jsonl'')"

definition meta_path :: "(string \<Rightarrow> string) \<Rightarrow> string \<Rightarrow> string" where
  "meta_path fnv key =
     (let name = sanitize_key key @ ''.meta.json'' in if is_local name then name else fnv key @ ''.meta.json'')"

lemma paths_local: "jsonl_path fnv key = sanitize_key key @ ''.jsonl''"
    "meta_path fnv key = sanitize_key key @ ''.meta.json''"
proof -
  have "length (sanitize_key key @ ''.jsonl'') \<noteq> length ''..''"
    "length (sanitize_key key @ ''.meta.json'') \<noteq> length ''..''" by simp_all
  then have "sanitize_key key @ ''.jsonl'' \<noteq> ''..''" "sanitize_key key @ ''.meta.json'' \<noteq> ''..''"
    by metis+
  then show "jsonl_path fnv key = sanitize_key key @ ''.jsonl''"
    "meta_path fnv key = sanitize_key key @ ''.meta.json''"
    by (simp_all add: jsonl_path_def meta_path_def is_local_def)
qed

definition file_of :: "string \<Rightarrow> jsonl_disk \<Rightarrow> string" where
  "file_of key d = (case mget (jd_lines d) (jsonl_path id key) of None \<Rightarrow> [] | Some s \<Rightarrow> s)"

definition read_meta :: "string \<Rightarrow> jsonl_disk \<Rightarrow> session_meta" where
  "read_meta key d =
     (case mget (jd_meta d) (meta_path id key) of
        Some m \<Rightarrow> m
      | None \<Rightarrow> \<lparr>me_key = key, me_summary = [], me_skip = 0, me_count = 0, me_created = None, me_updated = None\<rparr>)"

text \<open>
  \<open>bufio.Scanner\<close>: lines without their terminator and a trailing carriage return; a line as long as
  the buffer is an error. The non-empty lines are what both readers count.
\<close>

definition drop_cr :: "string \<Rightarrow> string" where
  "drop_cr l = (if l \<noteq> [] \<and> last l = CHR 0x0D then butlast l else l)"

definition scan_lines :: "string \<Rightarrow> string list option" where
  "scan_lines s =
     (let raw = split_on newline s in
      if list_ex (\<lambda>l. length l \<ge> max_line_size) raw then None
      else Some (filter (\<lambda>l. l \<noteq> []) (map drop_cr raw)))"

definition read_messages :: "(string \<Rightarrow> 'm option) \<Rightarrow> string \<Rightarrow> nat \<Rightarrow> 'm list option" where
  "read_messages dec s skip =
     map_option (\<lambda>ls. List.map_filter dec (drop skip ls)) (scan_lines s)"

definition count_lines :: "string \<Rightarrow> nat option" where
  "count_lines s = map_option length (scan_lines s)"

section \<open>Plans\<close>

datatype disk_write = AppendTo string string | PutMeta string session_meta | Rewrite string string

fun apply_disk :: "disk_write \<Rightarrow> jsonl_disk \<Rightarrow> jsonl_disk" where
  "apply_disk (AppendTo p s) d =
     d\<lparr>jd_lines := mput p ((case mget (jd_lines d) p of None \<Rightarrow> [] | Some t \<Rightarrow> t) @ s) (jd_lines d)\<rparr>"
| "apply_disk (PutMeta p m) d = d\<lparr>jd_meta := mput p m (jd_meta d)\<rparr>"
| "apply_disk (Rewrite p s) d = d\<lparr>jd_lines := mput p s (jd_lines d)\<rparr>"

abbreviation run_plan :: "disk_write list \<Rightarrow> jsonl_disk \<Rightarrow> jsonl_disk" where
  "run_plan ws \<equiv> fold apply_disk ws"

definition put_meta :: "string \<Rightarrow> session_meta \<Rightarrow> disk_write" where
  "put_meta key m = PutMeta (meta_path id key) m"

definition encode_line :: "('m \<Rightarrow> string) \<Rightarrow> 'm \<Rightarrow> string" where
  "encode_line enc m = enc m @ [newline]"

definition add_plan :: "('m \<Rightarrow> string) \<Rightarrow> int \<Rightarrow> string \<Rightarrow> 'm \<Rightarrow> jsonl_disk \<Rightarrow> disk_write list" where
  "add_plan enc now key msg d =
     (let meta = read_meta key d;
          meta1 = (if me_count meta = 0 \<and> me_created meta = None then meta\<lparr>me_created := Some now\<rparr> else meta);
          meta2 = meta1\<lparr>me_count := me_count meta1 + 1, me_updated := Some now\<rparr>
      in [AppendTo (jsonl_path id key) (encode_line enc msg), put_meta key meta2])"

definition get_history_jsonl :: "(string \<Rightarrow> 'm option) \<Rightarrow> string \<Rightarrow> jsonl_disk \<Rightarrow> 'm list option" where
  "get_history_jsonl dec key d = read_messages dec (file_of key d) (me_skip (read_meta key d))"

definition get_summary_jsonl :: "string \<Rightarrow> jsonl_disk \<Rightarrow> string" where
  "get_summary_jsonl key d = me_summary (read_meta key d)"

definition set_summary_plan :: "int \<Rightarrow> string \<Rightarrow> string \<Rightarrow> jsonl_disk \<Rightarrow> disk_write list" where
  "set_summary_plan now key summary d =
     (let meta = read_meta key d;
          meta1 = (if me_created meta = None then meta\<lparr>me_created := Some now\<rparr> else meta)
      in [put_meta key (meta1\<lparr>me_summary := summary, me_updated := Some now\<rparr>)])"

text \<open>\<open>None\<close>: the line count fails and nothing is written.\<close>

definition truncate_plan :: "int \<Rightarrow> string \<Rightarrow> int \<Rightarrow> jsonl_disk \<Rightarrow> disk_write list option" where
  "truncate_plan now key keep d =
     (let meta = read_meta key d in
      case count_lines (file_of key d) of
        None \<Rightarrow> None
      | Some n \<Rightarrow>
          (let meta1 = meta\<lparr>me_count := n\<rparr>;
               effective = int n - int (me_skip meta);
               meta2 = (if keep \<le> 0 then meta1\<lparr>me_skip := n\<rparr>
                        else if keep < effective then meta1\<lparr>me_skip := n - nat keep\<rparr> else meta1)
           in Some [put_meta key (meta2\<lparr>me_updated := Some now\<rparr>)]))"

definition rewrite_jsonl :: "('m \<Rightarrow> string) \<Rightarrow> string \<Rightarrow> 'm list \<Rightarrow> disk_write" where
  "rewrite_jsonl enc key msgs = Rewrite (jsonl_path id key) (concat (map (encode_line enc) msgs))"

definition set_history_plan :: "('m \<Rightarrow> string) \<Rightarrow> int \<Rightarrow> string \<Rightarrow> 'm list \<Rightarrow> jsonl_disk \<Rightarrow> disk_write list" where
  "set_history_plan enc now key msgs d =
     (let meta = read_meta key d;
          meta1 = (if me_created meta = None then meta\<lparr>me_created := Some now\<rparr> else meta);
          meta2 = meta1\<lparr>me_skip := 0, me_count := length msgs, me_updated := Some now\<rparr>
      in [put_meta key meta2, rewrite_jsonl enc key msgs])"

definition compact_plan ::
    "('m \<Rightarrow> string) \<Rightarrow> (string \<Rightarrow> 'm option) \<Rightarrow> int \<Rightarrow> string \<Rightarrow> jsonl_disk \<Rightarrow> disk_write list option" where
  "compact_plan enc dec now key d =
     (let meta = read_meta key d in
      if me_skip meta = 0 then Some []
      else
        (case read_messages dec (file_of key d) (me_skip meta) of
           None \<Rightarrow> None
         | Some active \<Rightarrow>
             Some [put_meta key (meta\<lparr>me_skip := 0, me_count := length active, me_updated := Some now\<rparr>),
                   rewrite_jsonl enc key active]))"

section \<open>The adapter: errors are logged and dropped\<close>

definition backend_add :: "('m \<Rightarrow> string) \<Rightarrow> int \<Rightarrow> string \<Rightarrow> 'm \<Rightarrow> jsonl_disk \<Rightarrow> jsonl_disk" where
  "backend_add enc now key msg d = run_plan (add_plan enc now key msg d) d"

definition backend_history :: "(string \<Rightarrow> 'm option) \<Rightarrow> jsonl_disk \<Rightarrow> string \<Rightarrow> 'm list" where
  "backend_history dec d key = (case get_history_jsonl dec key d of None \<Rightarrow> [] | Some ms \<Rightarrow> ms)"

definition backend_summary :: "jsonl_disk \<Rightarrow> string \<Rightarrow> string" where
  "backend_summary d key = get_summary_jsonl key d"

definition backend_set_summary :: "int \<Rightarrow> string \<Rightarrow> string \<Rightarrow> jsonl_disk \<Rightarrow> jsonl_disk" where
  "backend_set_summary now key summary d = run_plan (set_summary_plan now key summary d) d"

definition backend_set_history :: "('m \<Rightarrow> string) \<Rightarrow> int \<Rightarrow> string \<Rightarrow> 'm list \<Rightarrow> jsonl_disk \<Rightarrow> jsonl_disk" where
  "backend_set_history enc now key msgs d = run_plan (set_history_plan enc now key msgs d) d"

definition backend_truncate :: "int \<Rightarrow> string \<Rightarrow> int \<Rightarrow> jsonl_disk \<Rightarrow> jsonl_disk" where
  "backend_truncate now key keep d =
     (case truncate_plan now key keep d of None \<Rightarrow> d | Some ws \<Rightarrow> run_plan ws d)"

definition backend_save ::
    "('m \<Rightarrow> string) \<Rightarrow> (string \<Rightarrow> 'm option) \<Rightarrow> int \<Rightarrow> string \<Rightarrow> jsonl_disk \<Rightarrow> jsonl_disk \<times> bool" where
  "backend_save enc dec now key d =
     (case compact_plan enc dec now key d of None \<Rightarrow> (d, True) | Some ws \<Rightarrow> (run_plan ws d, False))"

definition empty_disk :: jsonl_disk where
  "empty_disk = \<lparr>jd_lines = [], jd_meta = []\<rparr>"


section \<open>What a key sees of the disk\<close>

definition same_session :: "string \<Rightarrow> string \<Rightarrow> bool" where
  "same_session k k' \<longleftrightarrow> sanitize_key k = sanitize_key k'"

definition skip_of :: "string \<Rightarrow> jsonl_disk \<Rightarrow> nat" where
  "skip_of key d = me_skip (read_meta key d)"

definition summary_of :: "string \<Rightarrow> jsonl_disk \<Rightarrow> string" where
  "summary_of key d = me_summary (read_meta key d)"

lemma path_same:
  "jsonl_path fnv k = jsonl_path fnv k' \<longleftrightarrow> same_session k k'"
  "meta_path fnv k = meta_path fnv k' \<longleftrightarrow> same_session k k'"
  by (simp_all add: paths_local same_session_def)

lemma file_of_same: "same_session k k' \<Longrightarrow> file_of k d = file_of k' d"
  by (simp add: file_of_def paths_local same_session_def)

lemma skip_of_same: "same_session k k' \<Longrightarrow> skip_of k d = skip_of k' d"
  by (simp add: skip_of_def read_meta_def paths_local same_session_def split: option.split)

lemma summary_of_same: "same_session k k' \<Longrightarrow> summary_of k d = summary_of k' d"
  by (simp add: summary_of_def read_meta_def paths_local same_session_def split: option.split)

lemma same_session_sym: "same_session k k' \<longleftrightarrow> same_session k' k"
  by (auto simp: same_session_def)

lemma file_of_put_meta [simp]: "file_of k (apply_disk (put_meta k' m) d) = file_of k d"
  by (simp add: file_of_def put_meta_def)

lemma skip_of_put_meta [simp]:
  "skip_of k (apply_disk (put_meta k' m) d) = (if same_session k' k then me_skip m else skip_of k d)"
proof -
  have "meta_path id k = meta_path id k' \<longleftrightarrow> same_session k' k"
    using path_same(2) [of id k' k] by auto
  then show ?thesis by (simp add: skip_of_def read_meta_def put_meta_def split: option.split)
qed

lemma summary_of_put_meta [simp]:
  "summary_of k (apply_disk (put_meta k' m) d) = (if same_session k' k then me_summary m else summary_of k d)"
proof -
  have "meta_path id k = meta_path id k' \<longleftrightarrow> same_session k' k"
    using path_same(2) [of id k' k] by auto
  then show ?thesis by (simp add: summary_of_def read_meta_def put_meta_def split: option.split)
qed

lemma file_of_append [simp]:
  "file_of k (apply_disk (AppendTo (jsonl_path id k') s) d) =
     (if same_session k' k then file_of k d @ s else file_of k d)"
proof -
  have "jsonl_path id k = jsonl_path id k' \<longleftrightarrow> same_session k' k"
    using path_same(1) [of id k' k] by auto
  then show ?thesis by (auto simp: file_of_def split: option.split)
qed

lemma skip_of_append [simp]: "skip_of k (apply_disk (AppendTo p s) d) = skip_of k d"
  by (simp add: skip_of_def read_meta_def)

lemma file_of_rewrite [simp]:
  "file_of k (apply_disk (rewrite_jsonl enc k' ms) d) =
     (if same_session k' k then concat (map (encode_line enc) ms) else file_of k d)"
proof -
  have "jsonl_path id k = jsonl_path id k' \<longleftrightarrow> same_session k' k"
    using path_same(1) [of id k' k] by auto
  then show ?thesis by (simp add: file_of_def rewrite_jsonl_def)
qed

lemma skip_of_rewrite [simp]: "skip_of k (apply_disk (rewrite_jsonl enc k' ms) d) = skip_of k d"
  by (simp add: skip_of_def read_meta_def rewrite_jsonl_def)

lemma summary_of_files [simp]:
  "summary_of k (apply_disk (AppendTo p s) d) = summary_of k d"
  "summary_of k (apply_disk (rewrite_jsonl enc k' ms) d) = summary_of k d"
  by (simp_all add: summary_of_def read_meta_def rewrite_jsonl_def)

declare apply_disk.simps [simp del]

section \<open>Clean files\<close>

text \<open>
  What the store relies on of the JSON encoder: its text is not empty, has no newline and does not
  end in a carriage return, and is decoded to a message (\<open>kept\<close>), which need not be the one that
  was written: a field tagged \<open>json:"-"\<close> (the name, the arguments and the signature of a tool call)
  is not written. What is read once is stable: written again it is read as it is, and its line is not
  longer.
\<close>

definition codec_ok :: "('m \<Rightarrow> string) \<Rightarrow> (string \<Rightarrow> 'm option) \<Rightarrow> bool" where
  "codec_ok enc dec \<longleftrightarrow> (\<forall>m. enc m \<noteq> [] \<and> newline \<notin> set (enc m) \<and> last (enc m) \<noteq> CHR 0x0D
     \<and> (case dec (enc m) of None \<Rightarrow> False | Some m' \<Rightarrow> dec (enc m') = Some m' \<and> length (enc m') \<le> length (enc m)))"

text \<open>What the file keeps of a message.\<close>

definition kept :: "('m \<Rightarrow> string) \<Rightarrow> (string \<Rightarrow> 'm option) \<Rightarrow> 'm \<Rightarrow> 'm" where
  "kept enc dec m = (case dec (enc m) of None \<Rightarrow> m | Some m' \<Rightarrow> m')"

lemma codec_read:
  assumes "codec_ok enc dec"
  shows "dec (enc m) = Some (kept enc dec m)" and "kept enc dec (kept enc dec m) = kept enc dec m"
    and "length (enc (kept enc dec m)) \<le> length (enc m)"
  using assms [unfolded codec_ok_def, rule_format, of m] by (auto simp: kept_def split: option.splits)

definition fits :: "('m \<Rightarrow> string) \<Rightarrow> 'm \<Rightarrow> bool" where
  "fits enc m \<longleftrightarrow> length (enc m) < max_line_size"

lemma fits_kept: "codec_ok enc dec \<Longrightarrow> fits enc m \<Longrightarrow> fits enc (kept enc dec m)"
  using codec_read(3) [of enc dec m] by (simp add: fits_def)

lemma kept_twice [simp]: "codec_ok enc dec \<Longrightarrow> map (kept enc dec \<circ> kept enc dec) ms = map (kept enc dec) ms"
  by (simp add: codec_read)

definition holds :: "('m \<Rightarrow> string) \<Rightarrow> string \<Rightarrow> 'm list \<Rightarrow> jsonl_disk \<Rightarrow> bool" where
  "holds enc key ms d \<longleftrightarrow> file_of key d = concat (map (encode_line enc) ms)
     \<and> list_all (fits enc) ms \<and> skip_of key d \<le> length ms"

definition jsonl_inv :: "('m \<Rightarrow> string) \<Rightarrow> (string \<Rightarrow> 'm option) \<Rightarrow> jsonl_disk \<Rightarrow> bool" where
  "jsonl_inv enc dec d \<longleftrightarrow> codec_ok enc dec \<and> (\<forall>key. \<exists>ms. holds enc key ms d)"

lemma split_on_line: "c \<notin> set l \<Longrightarrow> split_on c (l @ c # s) = l # split_on c s"
  by (induction l) auto

lemma split_encoded:
  "codec_ok enc dec \<Longrightarrow> split_on newline (concat (map (encode_line enc) ms) @ s) = map enc ms @ split_on newline s"
proof (induction ms)
  case (Cons m ms)
  then have "newline \<notin> set (enc m)" by (simp add: codec_ok_def)
  from split_on_line [OF this] Cons show ?case by (simp add: encode_line_def)
qed simp

lemma max_line_size_pos: "0 < max_line_size"
  by (simp add: max_line_size_def)

lemma scan_encoded:
  assumes c: "codec_ok enc dec" and f: "list_all (fits enc) ms"
  shows "scan_lines (concat (map (encode_line enc) ms)) = Some (map enc ms)"
proof -
  have "split_on newline (concat (map (encode_line enc) ms)) = map enc ms @ [[]]"
    using split_encoded [OF c, of ms "[]"] by simp
  moreover have "\<not> list_ex (\<lambda>l. length l \<ge> max_line_size) (map enc ms @ [[]])"
    using f max_line_size_pos by (auto simp: list_ex_iff list_all_iff fits_def)
  moreover have "map drop_cr (map enc ms) = map enc ms"
    using c by (auto simp: codec_ok_def drop_cr_def)
  moreover have "filter (\<lambda>l. l \<noteq> []) (map enc ms) = map enc ms"
    using c by (auto simp: codec_ok_def filter_id_conv)
  moreover have "drop_cr [] = []" by (simp add: drop_cr_def)
  ultimately show ?thesis by (simp add: scan_lines_def del: map_map)
qed

lemma decode_all: "codec_ok enc dec \<Longrightarrow> List.map_filter dec (map enc ms) = map (kept enc dec) ms"
  by (induction ms) (auto simp: codec_read List.map_filter_simps)

lemma read_encoded:
  "codec_ok enc dec \<Longrightarrow> list_all (fits enc) ms \<Longrightarrow>
     read_messages dec (concat (map (encode_line enc) ms)) n = Some (map (kept enc dec) (drop n ms))"
  using decode_all [of enc dec "drop n ms"] by (simp add: read_messages_def scan_encoded drop_map)

lemma holds_history:
  "codec_ok enc dec \<Longrightarrow> holds enc key ms d \<Longrightarrow> get_history_jsonl dec key d = Some (map (kept enc dec) (drop (skip_of key d) ms))"
  by (simp add: get_history_jsonl_def holds_def read_encoded skip_of_def)

lemma holds_backend:
  "codec_ok enc dec \<Longrightarrow> holds enc key ms d \<Longrightarrow> backend_history dec d key = map (kept enc dec) (drop (skip_of key d) ms)"
  by (simp add: backend_history_def holds_history)

section \<open>Effect of the operations\<close>

lemma add_view:
  "file_of k (backend_add enc now k' m d) = (if same_session k' k then file_of k d @ encode_line enc m else file_of k d)"
  "skip_of k (backend_add enc now k' m d) = skip_of k d"
  "summary_of k (backend_add enc now k' m d) = summary_of k d"
proof -
  have "same_session k' k \<Longrightarrow> me_skip (read_meta k' d) = skip_of k d"
    "same_session k' k \<Longrightarrow> me_summary (read_meta k' d) = summary_of k d"
    using skip_of_same [of k' k d] summary_of_same [of k' k d] by (simp_all add: skip_of_def summary_of_def)
  then show "skip_of k (backend_add enc now k' m d) = skip_of k d"
    "summary_of k (backend_add enc now k' m d) = summary_of k d"
    by (simp_all add: backend_add_def add_plan_def Let_def)
qed (simp add: backend_add_def add_plan_def Let_def)

lemma set_history_view:
  "file_of k (backend_set_history enc now k' us d) =
     (if same_session k' k then concat (map (encode_line enc) us) else file_of k d)"
  "skip_of k (backend_set_history enc now k' us d) = (if same_session k' k then 0 else skip_of k d)"
  "summary_of k (backend_set_history enc now k' us d) = summary_of k d"
proof -
  have "same_session k' k \<Longrightarrow> me_summary (read_meta k' d) = summary_of k d"
    using summary_of_same [of k' k d] by (simp add: summary_of_def)
  then show "summary_of k (backend_set_history enc now k' us d) = summary_of k d"
    by (simp add: backend_set_history_def set_history_plan_def Let_def)
qed (simp_all add: backend_set_history_def set_history_plan_def Let_def)

lemma set_summary_view:
  "file_of k (backend_set_summary now k' t d) = file_of k d"
  "skip_of k (backend_set_summary now k' t d) = skip_of k d"
  "summary_of k (backend_set_summary now k' t d) = (if same_session k' k then t else summary_of k d)"
proof -
  have "same_session k' k \<Longrightarrow> me_skip (read_meta k' d) = skip_of k d"
    using skip_of_same [of k' k d] by (simp add: skip_of_def)
  then show "skip_of k (backend_set_summary now k' t d) = skip_of k d"
    by (simp add: backend_set_summary_def set_summary_plan_def Let_def)
qed (simp_all add: backend_set_summary_def set_summary_plan_def Let_def)

lemma set_history_holds:
  "holds enc k ms d \<Longrightarrow> list_all (fits enc) us \<Longrightarrow>
     holds enc k (if same_session k' k then us else ms) (backend_set_history enc now k' us d)"
  by (simp add: holds_def set_history_view)

lemma set_summary_holds: "holds enc k ms (backend_set_summary now k' t d) \<longleftrightarrow> holds enc k ms d"
  by (simp add: holds_def set_summary_view)

lemma add_holds:
  "holds enc k ms d \<Longrightarrow> fits enc m \<Longrightarrow>
     holds enc k (if same_session k' k then ms @ [m] else ms) (backend_add enc now k' m d)"
  by (simp add: holds_def add_view)

lemma truncate_view:
  assumes c: "codec_ok enc dec" and h: "holds enc k' ms d"
  shows "file_of k (backend_truncate now k' n d) = file_of k d"
    and "skip_of k (backend_truncate now k' n d) =
      (if same_session k' k then
         (if n \<le> 0 then length ms
          else if n < int (length ms) - int (skip_of k d) then length ms - nat n else skip_of k d)
       else skip_of k d)"
    and "summary_of k (backend_truncate now k' n d) = summary_of k d"
proof -
  have n: "count_lines (file_of k' d) = Some (length ms)"
    using h scan_encoded [OF c] by (simp add: holds_def count_lines_def)
  show "file_of k (backend_truncate now k' n d) = file_of k d"
    by (simp add: backend_truncate_def truncate_plan_def n Let_def)
  have "same_session k' k \<Longrightarrow> me_skip (read_meta k' d) = skip_of k d"
    using skip_of_same [of k' k d] by (simp add: skip_of_def)
  then show "skip_of k (backend_truncate now k' n d) =
      (if same_session k' k then
         (if n \<le> 0 then length ms
          else if n < int (length ms) - int (skip_of k d) then length ms - nat n else skip_of k d)
       else skip_of k d)"
    by (simp add: backend_truncate_def truncate_plan_def n Let_def)
  have "same_session k' k \<Longrightarrow> me_summary (read_meta k' d) = summary_of k d"
    using summary_of_same [of k' k d] by (simp add: summary_of_def)
  then show "summary_of k (backend_truncate now k' n d) = summary_of k d"
    by (simp add: backend_truncate_def truncate_plan_def n Let_def)
qed

lemma holds_same: "same_session k k' \<Longrightarrow> holds enc k ms d \<Longrightarrow> holds enc k' ms d"
  by (simp add: holds_def file_of_same [of k k'] skip_of_same [of k k'])

lemma truncate_nothing: "truncate_list n [] = []"
  by (simp add: truncate_list_def keep_last_def)

lemma truncated_list:
  "s \<le> length ms \<Longrightarrow>
     drop (if n \<le> 0 then length ms else if n < int (length ms) - int s then length ms - nat n else s) ms
       = truncate_list n (drop s ms)"
proof -
  assume s: "s \<le> length ms"
  have "drop (length ms - nat n) ms = truncate_list n (drop s ms)" if "0 < n" "n < int (length ms) - int s"
  proof -
    have "length ms - s - nat n + s = length ms - nat n" using that s by linarith
    with that s show ?thesis by (simp add: truncate_list_def keep_last_def add.commute)
  qed
  moreover have "truncate_list n (drop s ms) = drop s ms" if "\<not> n < int (length ms) - int s"
    using that by (simp add: truncate_list_def keep_last_def)
  ultimately show ?thesis by (auto simp: truncate_list_def)
qed

lemma save_view:
  assumes c: "codec_ok enc dec" and h: "holds enc k' ms d"
  shows "backend_save enc dec now k' d =
      (if skip_of k' d = 0 then d
       else run_plan [put_meta k' ((read_meta k' d)\<lparr>me_skip := 0, me_count := length (drop (skip_of k' d) ms), me_updated := Some now\<rparr>),
              rewrite_jsonl enc k' (map (kept enc dec) (drop (skip_of k' d) ms))] d, False)"
  using h read_encoded [OF c, of ms] by (simp add: backend_save_def compact_plan_def skip_of_def holds_def Let_def)

lemma save_holds:
  assumes c: "codec_ok enc dec" and h: "holds enc k' ms d" and k: "holds enc k us d"
  shows "holds enc k (if same_session k' k \<and> skip_of k d \<noteq> 0 then map (kept enc dec) (drop (skip_of k d) ms) else us)
      (fst (backend_save enc dec now k' d))
    \<and> (same_session k' k \<longrightarrow> skip_of k (fst (backend_save enc dec now k' d)) = 0)
    \<and> (\<not> same_session k' k \<longrightarrow> skip_of k (fst (backend_save enc dec now k' d)) = skip_of k d)
    \<and> summary_of k (fst (backend_save enc dec now k' d)) = summary_of k d"
proof (cases "same_session k' k")
  case True
  then have "holds enc k ms d" "skip_of k' d = skip_of k d" using h holds_same skip_of_same by blast+
  moreover have "list_all (fits enc) (map (kept enc dec) (drop n ms))" for n
    using h fits_kept [OF c] by (auto simp: holds_def list_all_iff dest: in_set_dropD)
  moreover have "me_summary (read_meta k' d) = summary_of k d"
    using summary_of_same [OF True, of d] by (simp add: summary_of_def)
  ultimately show ?thesis using True k unfolding save_view [OF c h]
    by (cases "skip_of k d = 0") (simp_all add: holds_def)
next
  case False
  then show ?thesis using k unfolding save_view [OF c h] by (simp add: holds_def)
qed

text \<open>A session of the disk exists for every key: its metadata are empty until something is written.\<close>

definition backend_view :: "(string \<Rightarrow> 'm option) \<Rightarrow> jsonl_disk \<Rightarrow> string \<Rightarrow> 'm conversation" where
  "backend_view dec d key = (True, backend_history dec d key, backend_summary d key)"

lemma summary_view: "backend_summary d key = summary_of key d"
  by (simp add: backend_summary_def get_summary_jsonl_def summary_of_def)

lemma backend_laws:
  assumes inv: "jsonl_inv enc dec d"
  shows "fits enc m \<Longrightarrow> backend_history dec (backend_add enc now k m d) k' =
      (if same_session k k' then backend_history dec d k' @ [kept enc dec m] else backend_history dec d k')"
    and "fits enc m \<Longrightarrow> jsonl_inv enc dec (backend_add enc now k m d)"
    and "backend_history dec (backend_truncate now k n d) k' =
      (if same_session k k' then truncate_list n (backend_history dec d k') else backend_history dec d k')"
    and "jsonl_inv enc dec (backend_truncate now k n d)"
    and "backend_history dec (fst (backend_save enc dec now k d)) k' = backend_history dec d k'"
    and "jsonl_inv enc dec (fst (backend_save enc dec now k d))"
proof -
  have c: "codec_ok enc dec" using inv by (simp add: jsonl_inv_def)
  obtain ms where h: "holds enc k ms d" using inv by (auto simp: jsonl_inv_def)
  obtain us where h': "holds enc k' us d" using inv by (auto simp: jsonl_inv_def)
  show "backend_history dec (backend_add enc now k m d) k' =
      (if same_session k k' then backend_history dec d k' @ [kept enc dec m] else backend_history dec d k')" if "fits enc m"
    using holds_backend [OF c add_holds [OF h' that, of k now]] holds_backend [OF c h'] h'
    by (simp add: add_view holds_def)
  show "jsonl_inv enc dec (backend_add enc now k m d)" if "fits enc m"
    unfolding jsonl_inv_def using inv c add_holds that by (meson jsonl_inv_def)
  have skip: "holds enc x vs (backend_truncate now k n d)" if "holds enc x vs d" "same_session k x \<Longrightarrow> vs = ms" for x vs
    using that unfolding holds_def truncate_view [OF c h] by auto
  have eq: "holds enc k' (if same_session k k' then ms else us) d"
    using h' holds_same [OF _ h, of k'] by (cases "same_session k k'") simp_all
  show "backend_history dec (backend_truncate now k n d) k' =
      (if same_session k k' then truncate_list n (backend_history dec d k') else backend_history dec d k')"
    using holds_backend [OF c skip [OF eq]] holds_backend [OF c eq] truncated_list [of "skip_of k' d" ms n] eq
    by (simp add: truncate_view [OF c h] holds_def truncate_nothing truncate_map split: if_splits)
  show "jsonl_inv enc dec (backend_truncate now k n d)"
    unfolding jsonl_inv_def using c inv skip h holds_same by (metis jsonl_inv_def)
  show "backend_history dec (fst (backend_save enc dec now k d)) k' = backend_history dec d k'"
    using save_holds [OF c h eq, of now] holds_backend [OF c eq] c
      holds_backend [OF c, of k' "if same_session k k' \<and> skip_of k' d \<noteq> 0 then map (kept enc dec) (drop (skip_of k' d) ms)
        else if same_session k k' then ms else us"]
    by (cases "same_session k k'"; cases "skip_of k' d = 0") simp_all
  show "jsonl_inv enc dec (fst (backend_save enc dec now k d))"
    unfolding jsonl_inv_def using c inv save_holds [OF c h] by (meson jsonl_inv_def)
qed

lemma backend_set_laws:
  assumes inv: "jsonl_inv enc dec d"
  shows "list_all (fits enc) us \<Longrightarrow> backend_history dec (backend_set_history enc now k us d) k' =
      (if same_session k k' then map (kept enc dec) us else backend_history dec d k')"
    and "list_all (fits enc) us \<Longrightarrow> jsonl_inv enc dec (backend_set_history enc now k us d)"
    and "backend_history dec (backend_set_summary now k t d) k' = backend_history dec d k'"
    and "jsonl_inv enc dec (backend_set_summary now k t d)"
proof -
  have c: "codec_ok enc dec" using inv by (simp add: jsonl_inv_def)
  obtain vs where h: "holds enc k' vs d" using inv by (auto simp: jsonl_inv_def)
  show "backend_history dec (backend_set_history enc now k us d) k' =
      (if same_session k k' then map (kept enc dec) us else backend_history dec d k')" if "list_all (fits enc) us"
    using holds_backend [OF c set_history_holds [OF h that, of k now]] holds_backend [OF c h]
    by (simp add: set_history_view)
  show "jsonl_inv enc dec (backend_set_history enc now k us d)" if "list_all (fits enc) us"
    unfolding jsonl_inv_def using inv c set_history_holds that by (meson jsonl_inv_def)
  show "backend_history dec (backend_set_summary now k t d) k' = backend_history dec d k'"
    using holds_backend [OF c h] holds_backend [OF c, of k' vs "backend_set_summary now k t d"] h
    by (simp add: set_summary_holds set_summary_view)
  show "jsonl_inv enc dec (backend_set_summary now k t d)"
    using inv by (simp add: jsonl_inv_def set_summary_holds)
qed

lemma backend_summary_laws:
  assumes inv: "jsonl_inv enc dec d"
  shows "backend_summary (backend_add enc now k m d) k' = backend_summary d k'"
    and "backend_summary (backend_set_history enc now k us d) k' = backend_summary d k'"
    and "backend_summary (backend_set_summary now k t d) k' = (if same_session k k' then t else backend_summary d k')"
    and "backend_summary (backend_truncate now k n d) k' = backend_summary d k'"
    and "backend_summary (fst (backend_save enc dec now k d)) k' = backend_summary d k'"
proof -
  have c: "codec_ok enc dec" using inv by (simp add: jsonl_inv_def)
  obtain ms where h: "holds enc k ms d" using inv by (auto simp: jsonl_inv_def)
  obtain us where h': "holds enc k' us d" using inv by (auto simp: jsonl_inv_def)
  show "backend_summary (backend_truncate now k n d) k' = backend_summary d k'"
    using truncate_view [OF c h] by (simp add: summary_view)
  show "backend_summary (fst (backend_save enc dec now k d)) k' = backend_summary d k'"
    using save_holds [OF c h h'] by (simp add: summary_view)
qed (simp_all add: summary_view add_view set_history_view set_summary_view)

interpretation jsonl_store: session_store "backend_view dec" "\<lambda>e. backend_add enc (fst e)"
    "\<lambda>e. backend_set_history enc (fst e)" "\<lambda>e. backend_set_summary (fst e)"
    "\<lambda>e. backend_truncate (fst e)" "\<lambda>e k d. fst (backend_save enc dec (fst e) k d)"
    "jsonl_inv enc dec" same_session "fits enc" "kept enc dec"
    for enc :: "'m \<Rightarrow> string" and dec :: "string \<Rightarrow> 'm option"
  by unfold_locales (simp_all add: backend_view_def backend_laws backend_set_laws backend_summary_laws)

text \<open>One call on the backend, at a clock reading.\<close>

fun backend_step ::
    "('m \<Rightarrow> string) \<Rightarrow> (string \<Rightarrow> 'm option) \<Rightarrow> (int \<times> bool) \<times> string \<times> 'm session_op \<Rightarrow> jsonl_disk \<Rightarrow> jsonl_disk" where
  "backend_step enc dec ((now, io), k, SAdd m) d = backend_add enc now k m d"
| "backend_step enc dec ((now, io), k, SSetHistory us) d = backend_set_history enc now k us d"
| "backend_step enc dec ((now, io), k, SSetSummary t) d = backend_set_summary now k t d"
| "backend_step enc dec ((now, io), k, STruncate n) d = backend_truncate now k n d"
| "backend_step enc dec ((now, io), k, SSave) d = fst (backend_save enc dec now k d)"

lemma backend_step_eq: "backend_step enc dec = jsonl_store.session_step enc dec"
proof (intro ext)
  fix a and d :: jsonl_disk
  show "backend_step enc dec a d = jsonl_store.session_step enc dec a d"
    by (cases "(enc, dec, a, d)" rule: backend_step.cases) simp_all
qed

lemma empty_disk_inv: "codec_ok enc dec \<Longrightarrow> jsonl_inv enc dec empty_disk"
  by (auto simp: jsonl_inv_def holds_def file_of_def skip_of_def read_meta_def empty_disk_def intro!: exI [where x = "[]"])

lemma empty_view: "codec_ok enc dec \<Longrightarrow> backend_view dec empty_disk k = (True, [], [])"
  using holds_backend [of enc dec k "[]" empty_disk]
  by (simp add: backend_view_def holds_def file_of_def skip_of_def read_meta_def empty_disk_def
      backend_summary_def get_summary_jsonl_def)

section \<open>Crashes\<close>

datatype 'm jsonl_change =
  JAdd 'm | JSetSummary string | JTruncate int | JSetHistory "'m list" | JCompact

fun change_plan ::
    "('m \<Rightarrow> string) \<Rightarrow> (string \<Rightarrow> 'm option) \<Rightarrow> int \<Rightarrow> string \<Rightarrow> 'm jsonl_change \<Rightarrow> jsonl_disk \<Rightarrow> disk_write list option" where
  "change_plan enc dec now key (JAdd m) d = Some (add_plan enc now key m d)"
| "change_plan enc dec now key (JSetSummary s) d = Some (set_summary_plan now key s d)"
| "change_plan enc dec now key (JTruncate n) d = truncate_plan now key n d"
| "change_plan enc dec now key (JSetHistory ms) d = Some (set_history_plan enc now key ms d)"
| "change_plan enc dec now key JCompact d = compact_plan enc dec now key d"

fun change_fits :: "('m \<Rightarrow> string) \<Rightarrow> 'm jsonl_change \<Rightarrow> bool" where
  "change_fits enc (JAdd m) = fits enc m"
| "change_fits enc (JSetHistory ms) = list_all (fits enc) ms"
| "change_fits enc _ = True"

lemma holdsI:
  "file_of k d = concat (map (encode_line enc) ms) \<Longrightarrow> list_all (fits enc) ms \<Longrightarrow> skip_of k d \<le> length ms \<Longrightarrow> holds enc k ms d"
  by (simp add: holds_def)

lemma same_session_refl [simp]: "same_session k k"
  by (simp add: same_session_def)

lemma change_complete:
  assumes c: "codec_ok enc dec" and h: "holds enc key ms d" and f: "change_fits enc ch"
    and p: "change_plan enc dec now key ch d = Some ws"
  shows "\<exists>ms'. holds enc key ms' (run_plan ws d)"
proof (cases ch)
  case (JAdd m)
  then have "run_plan ws d = backend_add enc now key m d" using p by (simp add: backend_add_def)
  then show ?thesis using add_holds [OF h, of m key now] f JAdd by auto
next
  case (JSetSummary s)
  then have "holds enc key ms (run_plan ws d)"
    using p h by (auto simp: set_summary_plan_def Let_def holds_def skip_of_def [symmetric])
  then show ?thesis ..
next
  case (JTruncate n)
  then have "run_plan ws d = backend_truncate now key n d" using p by (simp add: backend_truncate_def)
  then have "holds enc key ms (run_plan ws d)" using h truncate_view [OF c h] by (auto simp: holds_def)
  then show ?thesis ..
next
  case (JSetHistory us)
  then have "holds enc key us (run_plan ws d)"
    using p f by (auto simp: set_history_plan_def Let_def holds_def)
  then show ?thesis ..
next
  case JCompact
  then have "run_plan ws d = fst (backend_save enc dec now key d)" using p by (simp add: backend_save_def)
  then show ?thesis using save_holds [OF c h h, of now] by metis
qed

lemma change_first_write:
  assumes c: "codec_ok enc dec" and h: "holds enc key ms d" and f: "change_fits enc ch"
    and p: "change_plan enc dec now key ch d = Some (w # w' # ws)"
  shows "\<exists>ms'. holds enc key ms' (apply_disk w d)
      \<and> (map (kept enc dec) (drop (skip_of key (apply_disk w d)) ms') = backend_history dec (run_plan (w # w' # ws) d) key
         \<or> skip_of key (apply_disk w d) = 0 \<and> ms' = ms)"
proof (cases ch)
  case (JAdd m)
  then have w: "w = AppendTo (jsonl_path id key) (encode_line enc m)"
    and all: "run_plan (w # w' # ws) d = backend_add enc now key m d"
    using p by (auto simp: add_plan_def backend_add_def Let_def)
  have "holds enc key (ms @ [m]) (apply_disk w d)" using h f JAdd by (simp add: w holds_def)
  moreover have "map (kept enc dec) (drop (skip_of key (apply_disk w d)) (ms @ [m])) = backend_history dec (run_plan (w # w' # ws) d) key"
    using holds_backend [OF c add_holds [OF h, of m key now]] f JAdd unfolding all by (simp add: w add_view)
  ultimately show ?thesis by blast
next
  case (JSetSummary s)
  then show ?thesis using p by (simp add: set_summary_plan_def Let_def)
next
  case (JTruncate n)
  then show ?thesis using p by (simp add: truncate_plan_def Let_def split: option.splits)
next
  case (JSetHistory us)
  then have "holds enc key ms (apply_disk w d) \<and> skip_of key (apply_disk w d) = 0"
    using p h by (auto simp: set_history_plan_def Let_def holds_def)
  then show ?thesis by blast
next
  case JCompact
  then have "holds enc key ms (apply_disk w d) \<and> skip_of key (apply_disk w d) = 0"
    using p h by (auto simp: compact_plan_def Let_def holds_def split: if_splits option.splits)
  then show ?thesis by blast
qed

lemma change_short: "change_plan enc dec now key ch d = Some ws \<Longrightarrow> length ws \<le> 2"
  by (cases ch) (auto simp: add_plan_def set_summary_plan_def truncate_plan_def set_history_plan_def compact_plan_def
      Let_def split: option.splits if_splits)

lemma change_prefix:
  assumes c: "codec_ok enc dec" and h: "holds enc key ms d" and f: "change_fits enc ch"
    and p: "change_plan enc dec now key ch d = Some ws" and d': "d' = run_plan (take n ws) d"
  shows "\<exists>ms'. holds enc key ms' d'
      \<and> (d' = d \<or> backend_history dec d' key = backend_history dec (run_plan ws d) key
         \<or> backend_history dec d' key = map (kept enc dec) ms)"
proof -
  from change_short [OF p] consider "ws = []" | w where "ws = [w]" | w w' where "ws = [w, w']"
    by (cases ws; cases "tl ws") auto
  then consider "d' = d" | "d' = run_plan ws d" | w w' where "ws = [w, w']" "d' = apply_disk w d"
    unfolding d' by cases (cases n; cases "n - 1"; simp)+
  then show ?thesis
  proof cases
    case 1
    then show ?thesis using h by blast
  next
    case 2
    then show ?thesis using change_complete [OF c h f p] by blast
  next
    case 3
    with change_first_write [OF c h f, of now w w' "[]"] p obtain ms' where
      "holds enc key ms' d'" "map (kept enc dec) (drop (skip_of key d') ms') = backend_history dec (run_plan ws d) key
         \<or> skip_of key d' = 0 \<and> ms' = ms" by auto
    then show ?thesis using holds_backend [OF c, of key ms' d'] by auto
  qed
qed

lemma change_elsewhere:
  assumes p: "change_plan enc dec now key ch d = Some ws" and k: "\<not> same_session key k"
  shows "w \<in> set ws \<Longrightarrow> file_of k (apply_disk w e) = file_of k e \<and> skip_of k (apply_disk w e) = skip_of k e"
  using p k by (cases ch) (auto simp: add_plan_def set_summary_plan_def truncate_plan_def set_history_plan_def compact_plan_def
      Let_def split: option.splits if_splits)

lemma fold_elsewhere:
  "(\<And>w e. w \<in> set ws \<Longrightarrow> file_of k (apply_disk w e) = file_of k e \<and> skip_of k (apply_disk w e) = skip_of k e) \<Longrightarrow>
     file_of k (run_plan ws d) = file_of k d \<and> skip_of k (run_plan ws d) = skip_of k d"
  by (induction ws arbitrary: d) simp_all

lemma change_prefix_elsewhere:
  assumes "change_plan enc dec now key ch d = Some ws" and "\<not> same_session key k"
  shows "file_of k (run_plan (take n ws) d) = file_of k d \<and> skip_of k (run_plan (take n ws) d) = skip_of k d"
  proof (rule fold_elsewhere)
  fix w e
  assume "w \<in> set (take n ws)"
  then have "w \<in> set ws" by (rule in_set_takeD)
  then show "file_of k (apply_disk w e) = file_of k e \<and> skip_of k (apply_disk w e) = skip_of k e"
    by (rule change_elsewhere [OF assms])
qed

lemma history_of_view:
  "file_of k d' = file_of k d \<Longrightarrow> skip_of k d' = skip_of k d \<Longrightarrow> backend_history dec d' k = backend_history dec d k"
  by (simp add: backend_history_def get_history_jsonl_def skip_of_def)

lemma holds_view:
  "file_of k d' = file_of k d \<Longrightarrow> skip_of k d' = skip_of k d \<Longrightarrow> holds enc k ms d \<Longrightarrow> holds enc k ms d'"
  by (simp add: holds_def)

lemma change_prefix_inv:
  assumes i: "jsonl_inv enc dec d" and f: "change_fits enc ch" and p: "change_plan enc dec now key ch d = Some ws"
  shows "jsonl_inv enc dec (run_plan (take n ws) d)"
  unfolding jsonl_inv_def
proof (intro conjI allI)
  show c: "codec_ok enc dec" using i by (simp add: jsonl_inv_def)
  fix k
  obtain us where us: "holds enc k us d" using i by (auto simp: jsonl_inv_def)
  obtain ms where ms: "holds enc key ms d" using i by (auto simp: jsonl_inv_def)
  show "\<exists>ms. holds enc k ms (run_plan (take n ws) d)"
  proof (cases "same_session key k")
    case True
    then show ?thesis using change_prefix [OF c ms f p refl, of n] holds_same by blast
  next
    case False
    from change_prefix_elsewhere [OF p False, of n] us holds_view show ?thesis by blast
  qed
qed

section \<open>A codec for the examples\<close>

text \<open>
  Messages are pairs: a number, written as a braced row of ones, and a second field that is not
  written and is read as zero.
\<close>

definition enc_ones :: "nat \<times> nat \<Rightarrow> string" where
  "enc_ones m = CHR ''{'' # replicate (fst m) (CHR ''1'') @ ''}''"

definition dec_ones :: "string \<Rightarrow> (nat \<times> nat) option" where
  "dec_ones s = (if s = enc_ones (length s - 2, 0) then Some (length s - 2, 0) else None)"

lemma codec_ones: "codec_ok enc_ones dec_ones"
  by (auto simp: codec_ok_def dec_ones_def enc_ones_def)

lemma fits_ones: "fits enc_ones m \<longleftrightarrow> fst m + 2 < max_line_size"
  by (simp add: fits_def enc_ones_def)


lemma map_filter_snoc: "f t = None \<Longrightarrow> List.map_filter f (xs @ [t]) = List.map_filter f xs"
  by (simp add: List.map_filter_def)

lemma read_encoded_tail:
  assumes c: "codec_ok enc dec" and f: "list_all (fits enc) ms" and tail: "tail = t \<or> tail = t @ [newline]"
    and t: "t \<noteq> []" "newline \<notin> set t" "last t \<noteq> CHR 0x0D" "length t < max_line_size" "dec t = None"
    and n: "n \<le> length ms"
  shows "read_messages dec (concat (map (encode_line enc) ms) @ tail) n = Some (map (kept enc dec) (drop n ms))"
proof -
  have "split_on newline t = [t]" using t(2) by (induction t) auto
  moreover have "split_on newline (t @ [newline]) = [t, []]" using split_on_line [OF t(2), of "[]"] by simp
  ultimately have "split_on newline (concat (map (encode_line enc) ms) @ tail) \<in> {map enc ms @ [t], map enc ms @ [t, []]}"
    using tail by (auto simp: split_encoded [OF c])
  moreover have "\<not> list_ex (\<lambda>l. length l \<ge> max_line_size) (map enc ms @ [t, []])"
    using f t max_line_size_pos by (auto simp: list_ex_iff list_all_iff fits_def)
  moreover have "map drop_cr (map enc ms) = map enc ms" "drop_cr t = t" "drop_cr [] = []"
    using c t by (auto simp: codec_ok_def drop_cr_def)
  moreover have "filter (\<lambda>l. l \<noteq> []) (map enc ms) = map enc ms"
    using c by (auto simp: codec_ok_def filter_id_conv)
  ultimately have "scan_lines (concat (map (encode_line enc) ms) @ tail) = Some (map enc ms @ [t])"
    using t(1) by (auto simp: scan_lines_def simp del: map_map)
  then show ?thesis using n t(5) decode_all [OF c, of "drop n ms"]
    by (simp add: read_messages_def drop_map map_filter_snoc)
qed

section \<open>Properties\<close>

lemma history_of_same: "same_session k k' \<Longrightarrow> backend_history dec d k = backend_history dec d k'"
  by (simp add: backend_history_def get_history_jsonl_def file_of_same [of k k'] skip_of_same [of k k'] skip_of_def [symmetric])

text \<open>
  C13: Whatever a crash cuts off an operation (adding, truncating, replacing or compacting a history,
  or setting a summary), the disk stays well-formed, the other sessions are unchanged, and the
  session reads as before, as after the operation, or with already dropped messages in front of
  what it had: no message is lost.
\<close>

theorem crash_keeps_history:
  assumes "jsonl_inv enc dec d" and "change_fits enc ch" and "change_plan enc dec now key ch d = Some ws"
  shows "jsonl_inv enc dec (run_plan (take n ws) d)
    \<and> (if same_session key k
       then backend_history dec (run_plan (take n ws) d) k = backend_history dec (run_plan ws d) k
         \<or> suffix (backend_history dec d k) (backend_history dec (run_plan (take n ws) d) k)
       else backend_history dec (run_plan (take n ws) d) k = backend_history dec d k)"
proof (intro conjI)
  show "jsonl_inv enc dec (run_plan (take n ws) d)" using change_prefix_inv assms by metis
  have c: "codec_ok enc dec" using assms(1) by (simp add: jsonl_inv_def)
  obtain ms where h: "holds enc key ms d" using assms(1) by (auto simp: jsonl_inv_def)
  show "if same_session key k
       then backend_history dec (run_plan (take n ws) d) k = backend_history dec (run_plan ws d) k
         \<or> suffix (backend_history dec d k) (backend_history dec (run_plan (take n ws) d) k)
       else backend_history dec (run_plan (take n ws) d) k = backend_history dec d k"
  proof (cases "same_session key k")
    case True
    then have "backend_history dec e k = backend_history dec e key" for e using history_of_same by metis
    moreover have "suffix (backend_history dec d key) (map (kept enc dec) ms)"
      using holds_backend [OF c h] by (simp add: suffix_drop flip: drop_map)
    ultimately show ?thesis using True change_prefix [OF c h assms(2,3) refl, of n] by auto
  next
    case False
    then show ?thesis
      using history_of_view [of k "run_plan (take n ws) d" d dec] change_prefix_elsewhere [OF assms(3) False, of n] by simp
  qed
qed

text \<open>Two messages, the first of them truncated away.\<close>

definition example_disk :: jsonl_disk where
  "example_disk = backend_truncate 3 ''s'' 1 (backend_add enc_ones 2 ''s'' (5, 1) (backend_add enc_ones 1 ''s'' (4, 1) empty_disk))"

theorem crash_keeps_history_witness:
  "let ws = set_history_plan enc_ones 4 ''s'' [(9, 1)] example_disk; d' = run_plan (take 1 ws) example_disk in
     backend_history dec_ones d' ''s'' = backend_history dec_ones (run_plan ws example_disk) ''s''
     \<or> suffix (backend_history dec_ones example_disk ''s'') (backend_history dec_ones d' ''s'')"
proof -
  have f: "fits enc_ones (4, 1)" "fits enc_ones (5, 1)" "fits enc_ones (9, 1)" by (simp_all add: fits_ones max_line_size_def)
  have i: "jsonl_inv enc_ones dec_ones example_disk"
    unfolding example_disk_def by (intro backend_laws(2,4) empty_disk_inv codec_ones f)
  have c: "change_fits enc_ones (JSetHistory [(9, 1)])" using f by simp
  show ?thesis
    using crash_keeps_history [OF i c, of 4 "''s''" _ 1 "''s''"] by (simp add: Let_def)
qed

text \<open>
  C14: Both session backends are one abstract store: after any calls of the interface, with any clock
  and file-system answers, a key has in the JSONL backend the summary and the history it has in the
  in-memory manager, of each message what the JSON text keeps, provided no other key in use is mapped
  to the same file and the session is at most cleared before its first message.
\<close>

theorem backends_agree:
  fixes enc :: "'m \<Rightarrow> string"
  assumes "codec_ok enc dec" and "list_all (\<lambda>a. op_message_ok (fits enc) (snd (snd a))) ops"
    and "\<forall>a \<in> set ops. sanitize_key (fst (snd a)) = sanitize_key k \<longrightarrow> fst (snd a) = k"
    and "created_first (calls_for k ops)"
  shows "let d = fold (backend_step enc dec) ops empty_disk;
      sm = fold manager_step ops (new_session_manager_at storage [])
    in backend_history dec d k = map (kept enc dec) (get_history sm k) \<and> backend_summary d k = get_summary sm k"
proof -
  have all: "list_all (\<lambda>a. op_message_ok (\<lambda>m. True) (snd (snd a))) ops"
    by (rule list.pred_mono_strong [OF assms(2)]) (auto intro: op_message_ok_any)
  have "filter (\<lambda>a. same_session (fst (snd a)) k) ops = filter (\<lambda>a. fst (snd a) = k) ops"
    using assms(3) by (auto simp: same_session_def intro: filter_cong)
  then have j: "backend_view dec (fold (backend_step enc dec) ops empty_disk) k
      = fold (conversation_step (kept enc dec)) (calls_for k ops) (True, [], [])"
    using jsonl_store.view_run [OF empty_disk_inv [OF assms(1)] assms(2), of k] empty_view [OF assms(1)]
    by (simp add: backend_step_eq calls_for_def)
  have "manager_view (new_session_manager_at storage [] :: 'm session_manager) k = (False, [], [])"
    by (simp add: manager_view_def get_history_def get_summary_def new_session_manager_at_def load_sessions_def)
  then have m: "manager_view (fold manager_step ops (new_session_manager_at storage [])) k
      = fold (conversation_step (\<lambda>m. m)) (calls_for k ops) (False, [], [])"
    using manager_store.view_run [OF TrueI all, of "new_session_manager_at storage []" k]
    by (simp add: manager_step_eq calls_for_def eq_commute)
  have "snd (fold (conversation_step (kept enc dec)) (calls_for k ops) (True, [], [])) =
      map_prod (map (kept enc dec)) id (snd (fold (conversation_step (\<lambda>m. m)) (calls_for k ops) (False, [], [])))"
    using conversations_agree [of False "[]" "[]" "calls_for k ops" "kept enc dec"] assms(4) by simp
  then show ?thesis unfolding j [symmetric] m [symmetric]
    by (simp add: backend_view_def manager_view_def Let_def)
qed

text \<open>The calls of two sessions: one is given messages, a summary, a new history and is truncated.\<close>

definition example_calls :: "((int \<times> bool) \<times> string \<times> (nat \<times> nat) session_op) list" where
  "example_calls =
     [((1, True), ''a:b'', SSetHistory []), ((2, True), ''a:b'', SAdd (7, 1)), ((3, True), ''c'', SAdd (8, 1)),
      ((4, True), ''a:b'', SSetSummary ''s''), ((5, True), ''a:b'', SSetHistory [(3, 1), (4, 2), (5, 3)]),
      ((6, False), ''a:b'', STruncate 2), ((7, True), ''a:b'', SSave)]"

theorem backends_agree_witness:
  "let d = fold (backend_step enc_ones dec_ones) example_calls empty_disk;
      sm = fold manager_step example_calls (new_session_manager_at True [])
    in backend_history dec_ones d ''a:b'' = map (kept enc_ones dec_ones) (get_history sm ''a:b'')
      \<and> backend_summary d ''a:b'' = get_summary sm ''a:b''"
proof (rule backends_agree [OF codec_ones])
  show "list_all (\<lambda>a. op_message_ok (fits enc_ones) (snd (snd a))) example_calls"
    by (simp add: example_calls_def fits_ones max_line_size_def)
  show "\<forall>a \<in> set example_calls. sanitize_key (fst (snd a)) = sanitize_key ''a:b'' \<longrightarrow> fst (snd a) = ''a:b''"
    by code_simp
  show "created_first (calls_for ''a:b'' example_calls)" by code_simp
qed

text \<open>
  The backends differ on a session that has no message yet: the JSONL backend creates it when it is
  given a history or a summary, the manager drops both.
\<close>

theorem backends_differ_before_first_message:
  assumes "jsonl_inv enc dec d" and "list_all (fits enc) us" and "mget (sm_sessions sm) k = None"
  shows "let d' = backend_set_summary now k t (backend_set_history enc now k us d);
      sm' = set_summary now k t (set_history now k us sm)
    in backend_history dec d' k = map (kept enc dec) us \<and> backend_summary d' k = t
      \<and> get_history sm' k = [] \<and> get_summary sm' k = []"
  using assms backend_set_laws [OF assms(1)] backend_set_laws(3) [OF backend_set_laws(2) [OF assms(1,2)]]
    backend_summary_laws(3) [OF backend_set_laws(2) [OF assms(1,2)]]
  by (simp add: Let_def set_history_def set_summary_def get_history_def get_summary_def)

theorem backends_differ_before_first_message_witness:
  "let d' = backend_set_summary 1 ''s'' ''t'' (backend_set_history enc_ones 1 ''s'' [(2, 5)] empty_disk);
      sm' = set_summary 1 ''s'' ''t'' (set_history 1 ''s'' [(2::nat, 5::nat)] (new_session_manager_at True []))
    in backend_history dec_ones d' ''s'' = map (kept enc_ones dec_ones) [(2, 5)] \<and> backend_summary d' ''s'' = ''t''
      \<and> get_history sm' ''s'' = [] \<and> get_summary sm' ''s'' = []"
  by (rule backends_differ_before_first_message [OF empty_disk_inv [OF codec_ones]])
    (simp_all add: fits_ones max_line_size_def new_session_manager_at_def load_sessions_def)

text \<open>
  After a write torn by a crash the next message is lost although its addition succeeds: it is
  glued to the torn line and neither can be read.
\<close>

theorem torn_append_loses_next:
  assumes "jsonl_inv enc dec d" and "torn \<noteq> []" and "newline \<notin> set torn" and "last torn \<noteq> CHR 0x0D"
    and "length (torn @ enc m) < max_line_size" and "dec torn = None" and "dec (torn @ enc m) = None"
  shows "let d' = apply_disk (AppendTo (jsonl_path id key) torn) d in
      backend_history dec d' key = backend_history dec d key
    \<and> backend_history dec (backend_add enc now key m d') key = backend_history dec d key"
proof -
  let ?d' = "apply_disk (AppendTo (jsonl_path id key) torn) d"
  have c: "codec_ok enc dec" using assms(1) by (simp add: jsonl_inv_def)
  obtain ms where h: "holds enc key ms d" using assms(1) by (auto simp: jsonl_inv_def)
  have one: "get_history_jsonl dec key e = Some (map (kept enc dec) (drop (skip_of key d) ms))"
    if "file_of key e = concat (map (encode_line enc) ms) @ tail" "skip_of key e = skip_of key d"
      "tail = t \<or> tail = t @ [newline]" "t \<noteq> []" "newline \<notin> set t" "last t \<noteq> CHR 0x0D"
      "length t < max_line_size" "dec t = None" for e tail t
    using read_encoded_tail [OF c _ that(3-8), of ms "skip_of key d"] that(1,2) h
    by (simp add: get_history_jsonl_def holds_def skip_of_def)
  have "enc m \<noteq> [] \<and> newline \<notin> set (enc m) \<and> last (enc m) \<noteq> CHR 0x0D" using c by (simp add: codec_ok_def)
  then have "get_history_jsonl dec key (backend_add enc now key m ?d') = Some (map (kept enc dec) (drop (skip_of key d) ms))"
    using assms h by (intro one [of _ "(torn @ enc m) @ [newline]" "torn @ enc m"])
      (auto simp: add_view holds_def encode_line_def)
  moreover have "get_history_jsonl dec key ?d' = Some (map (kept enc dec) (drop (skip_of key d) ms))"
    using assms h by (intro one [of _ torn torn]) (auto simp: holds_def)
  ultimately show ?thesis using holds_backend [OF c h] by (simp add: backend_history_def)
qed

theorem torn_append_loses_next_witness:
  "let d' = apply_disk (AppendTo (jsonl_path id ''s'') ''{11'') example_disk in
      backend_history dec_ones d' ''s'' = backend_history dec_ones example_disk ''s''
    \<and> backend_history dec_ones (backend_add enc_ones 9 ''s'' (2, 1) d') ''s'' = backend_history dec_ones example_disk ''s''"
proof (rule torn_append_loses_next)
  show "jsonl_inv enc_ones dec_ones example_disk"
    unfolding example_disk_def by (intro backend_laws(2,4) empty_disk_inv codec_ones) (simp_all add: fits_ones max_line_size_def)
  show "length (''{11'' @ enc_ones (2, 1)) < max_line_size" by (simp add: enc_ones_def max_line_size_def)
  show "dec_ones ''{11'' = None" "dec_ones (''{11'' @ enc_ones (2, 1)) = None"
    by (simp_all add: dec_ones_def enc_ones_def numeral_eq_Suc)
qed simp_all

text \<open>
  A message whose line reaches the scanner's limit is accepted, but from then on the session
  reads as empty, whatever is added after it; truncating has no effect and saving fails. Other
  sessions are not affected.
\<close>

theorem oversized_line_hides_session:
  assumes "length (enc m) \<ge> max_line_size" and "jsonl_inv enc dec d"
  shows "let d' = fold (\<lambda>(t, u). backend_add enc t key u) us (backend_add enc now key m d) in
      backend_history dec d' key = [] \<and> backend_truncate now' key n d' = d'
    \<and> (skip_of key d' > 0 \<longrightarrow> snd (backend_save enc dec now' key d'))
    \<and> (\<not> same_session key k \<longrightarrow> backend_history dec d' k = backend_history dec d k)"
proof -
  let ?e = "backend_add enc now key m d"
  let ?d = "fold (\<lambda>(t, u). backend_add enc t key u) us ?e"
  obtain ms where h: "holds enc key ms d" using assms(2) by (auto simp: jsonl_inv_def)
  have c: "codec_ok enc dec" using assms(2) by (simp add: jsonl_inv_def)
  then have nl: "newline \<notin> set (enc m)" by (simp add: codec_ok_def)
  have f: "file_of key (fold (\<lambda>(t, u). backend_add enc t key u) us e)
      = file_of key e @ concat (map (encode_line enc \<circ> snd) us)"
    "\<not> same_session key k \<Longrightarrow> file_of k (fold (\<lambda>(t, u). backend_add enc t key u) us e) = file_of k e"
    "skip_of x (fold (\<lambda>(t, u). backend_add enc t key u) us e) = skip_of x e" for e x
    by (induction us arbitrary: e) (auto simp: add_view)
  have "file_of key ?d = concat (map (encode_line enc) ms) @ enc m @ newline # concat (map (encode_line enc \<circ> snd) us)"
    using h by (simp add: f(1) add_view holds_def encode_line_def)
  then have "enc m \<in> set (split_on newline (file_of key ?d))"
    using nl by (simp add: split_encoded [OF c] split_on_line)
  then have s: "scan_lines (file_of key ?d) = None"
    using assms(1) by (auto simp: scan_lines_def list_ex_iff Let_def)
  have "backend_history dec ?d k = backend_history dec d k" if "\<not> same_session key k"
    using that f(2,3) by (intro history_of_view) (auto simp: add_view)
  with s show ?thesis
    by (simp add: Let_def backend_history_def get_history_jsonl_def read_messages_def backend_truncate_def
        truncate_plan_def count_lines_def backend_save_def compact_plan_def skip_of_def)
qed

theorem oversized_line_hides_session_witness:
  "let d' = fold (\<lambda>(t, u). backend_add enc_ones t ''s'' u) [(6, (1, 1)), (7, (2, 1))] (backend_add enc_ones 5 ''s'' (max_line_size, 1) example_disk) in
      backend_history dec_ones d' ''s'' = [] \<and> backend_truncate 8 ''s'' 0 d' = d'
    \<and> (skip_of ''s'' d' > 0 \<longrightarrow> snd (backend_save enc_ones dec_ones 8 ''s'' d'))
    \<and> (\<not> same_session ''s'' ''t'' \<longrightarrow> backend_history dec_ones d' ''t'' = backend_history dec_ones example_disk ''t'')"
proof (rule oversized_line_hides_session)
  show "jsonl_inv enc_ones dec_ones example_disk"
    unfolding example_disk_def by (intro backend_laws(2,4) empty_disk_inv codec_ones) (simp_all add: fits_ones max_line_size_def)
qed (simp add: enc_ones_def)

end
