(* ===== verification/StoredTurns.thy ===== *)
theory StoredTurns
  imports AgentTurn JsonlStore
begin

text \<open>
  Turns over the JSONL backend, the store that \<open>initSessionStore\<close> of \<open>pkg/agent/instance.go\<close> chooses by
  default. \<open>AgentTurn\<close> runs a turn over the in-memory manager; a turn uses either backend through the
  calls of the interface only, so its calls can be replayed on the disk. What differs is what is read
  back: the JSON text drops the fields of a tool call that are tagged \<open>json:"-"\<close> in
  \<open>pkg/providers/protocoltypes/types.go\<close>. None of them decides whether a provider accepts a history.
\<close>

section \<open>What the file keeps of a message\<close>

definition on_file_call :: "tool_call \<Rightarrow> tool_call" where
  "on_file_call tc = tc\<lparr>tc_name := [], tc_args := None, tc_thought := []\<rparr>"

definition on_file_message :: "chat_message \<Rightarrow> chat_message" where
  "on_file_message m = m\<lparr>cm_tool_calls := map on_file_call (cm_tool_calls m)\<rparr>"

lemma on_file_simps [simp]:
  "cm_role (on_file_message m) = cm_role m" "cm_tool_call_id (on_file_message m) = cm_tool_call_id m"
  "cm_tool_calls (on_file_message m) = map on_file_call (cm_tool_calls m)" "tc_id (on_file_call tc) = tc_id tc"
  "is_tool (on_file_message m) = is_tool m" "is_call_turn (on_file_message m) = is_call_turn m"
  by (simp_all add: on_file_message_def on_file_call_def is_tool_def is_call_turn_def)

lemma on_file_answered: "all_answered (on_file_message m) (map on_file_message block) = all_answered m block"
  by (simp add: all_answered_def list_all_iff list_ex_iff)

lemma on_file_tools: "takeWhile is_tool (map on_file_message ns) = map on_file_message (takeWhile is_tool ns)"
  by (simp add: takeWhile_map comp_def)

lemma on_file_ready_from: "ready_from c (map on_file_message ns) = ready_from c ns"
  by (induction ns arbitrary: c) (simp_all add: in_place_def on_file_tools on_file_answered)

lemma on_file_ready: "provider_ready (map on_file_message ns) = provider_ready ns"
  by (simp add: provider_ready_def on_file_ready_from)

section \<open>Replaying the calls of a turn\<close>

text \<open>The messages that plain calls add.\<close>

fun added :: "'m session_op \<Rightarrow> 'm list" where
  "added (SAdd m) = [m]"
| "added _ = []"

lemma plain_calls_view:
  "list_all (\<lambda>a. fst (snd a) = key \<and> plain_call (snd (snd a))) ops \<Longrightarrow>
     fst (snd (fold (conversation_step keep) (map (\<lambda>a. snd (snd a)) (filter (\<lambda>a. same (fst (snd a)) key) ops)) c)) =
       fst (snd c) @ (if same key key then map keep (concat (map (\<lambda>a. added (snd (snd a))) ops)) else [])"
proof (induction ops arbitrary: c)
  case (Cons a ops)
  obtain known ns s where c: "c = (known, ns, s)" by (metis prod_cases3)
  from Cons show ?case unfolding c by (cases "snd (snd a)") auto
qed simp

lemma plain_calls_manager:
  assumes "list_all (\<lambda>a. fst (snd a) = key \<and> plain_call (snd (snd a))) ops"
  shows "get_history (fold manager_step ops sm) key = get_history sm key @ concat (map (\<lambda>a. added (snd (snd a))) ops)"
proof -
  have "list_all (\<lambda>a. op_message_ok (\<lambda>m. True) (snd (snd a))) ops" by (simp add: list_all_iff op_message_ok_any)
  from arg_cong [OF manager_store.view_run [OF TrueI this, of sm key], of "\<lambda>c. fst (snd c)"]
  show ?thesis
    unfolding plain_calls_view [OF assms, where same = "(=)" and keep = "\<lambda>m. m"] manager_step_eq [symmetric]
    by (simp add: manager_view_def)
qed

lemma plain_calls_backend:
  assumes "jsonl_inv enc dec d" and "list_all (\<lambda>a. fst (snd a) = key \<and> plain_call (snd (snd a))) ops"
    and "list_all (fits enc) (concat (map (\<lambda>a. added (snd (snd a))) ops))"
  shows "backend_history dec (fold (backend_step enc dec) ops d) key =
    backend_history dec d key @ map (kept enc dec) (concat (map (\<lambda>a. added (snd (snd a))) ops))"
proof -
  have "list_all (\<lambda>a. op_message_ok (fits enc) (snd (snd a))) ops"
    using assms(2,3) unfolding list_all_iff
  proof (intro ballI)
    fix a assume all: "\<forall>a \<in> set ops. fst (snd a) = key \<and> plain_call (snd (snd a))"
      "\<forall>m \<in> set (concat (map (\<lambda>a. added (snd (snd a))) ops)). fits enc m" and a: "a \<in> set ops"
    have "set (added (snd (snd a))) \<subseteq> set (concat (map (\<lambda>a. added (snd (snd a))) ops))" using a by auto
    then show "op_message_ok (fits enc) (snd (snd a))" using all a by (cases "snd (snd a)") auto
  qed
  from arg_cong [OF jsonl_store.view_run [OF assms(1) this, of key], of "\<lambda>c. fst (snd c)"]
  show ?thesis
    unfolding plain_calls_view [OF assms(2), where same = same_session and keep = "kept enc dec"] backend_step_eq [symmetric]
    by (simp add: backend_view_def)
qed

section \<open>Properties\<close>

text \<open>
  C15: A turn without an emergency compression changes its session by a list of calls of the session
  interface; the same calls on the JSONL backend leave there the history of the manager as the JSON
  text keeps it, and it is one that is sent to a strict provider without loss, if the history
  before the turn was. The lines have to fit the scanner's limit.
\<close>

theorem stored_turn_ready:
  assumes "jsonl_inv enc dec d"
    and "backend_history dec d (po_session_key opts) = map on_file_message (get_history (ts_sessions st) (po_session_key opts))"
    and "provider_ready (get_history (ts_sessions st) (po_session_key opts))"
    and "EvCompressed \<notin> set (ts_events (snd (run_agent_loop lib ag opts te st)))"
    and "list_all (\<lambda>m. fits enc m \<and> kept enc dec m = on_file_message m)
      (get_history (ts_sessions (snd (run_agent_loop lib ag opts te st))) (po_session_key opts))"
  shows "\<exists>calls. ts_sessions (snd (run_agent_loop lib ag opts te st)) = fold manager_step calls (ts_sessions st)
    \<and> fst ` snd ` set calls \<subseteq> {po_session_key opts}
    \<and> (let h = backend_history dec (fold (backend_step enc dec) calls d) (po_session_key opts) in
         h = map on_file_message (get_history (ts_sessions (snd (run_agent_loop lib ag opts te st))) (po_session_key opts))
         \<and> sanitize_history h = h)"
proof -
  let ?key = "po_session_key opts" and ?out = "snd (run_agent_loop lib ag opts te st)"
  have "by_calls ?key (EvCompressed \<in> set (ts_events ?out)) (ts_sessions st) (ts_sessions ?out)"
    using turn_advances [of opts ag te st lib] by (simp add: advances_def)
  then obtain calls where c: "ts_sessions ?out = fold manager_step calls (ts_sessions st)"
    "list_all (\<lambda>a. fst (snd a) = ?key \<and> plain_call (snd (snd a))) calls"
    using assms(4) by (auto simp: by_calls_def)
  note h = plain_calls_manager [OF c(2), of "ts_sessions st", folded c(1)]
  have new: "list_all (fits enc) (concat (map (\<lambda>a. added (snd (snd a))) calls))"
    "map (kept enc dec) (concat (map (\<lambda>a. added (snd (snd a))) calls)) = map on_file_message (concat (map (\<lambda>a. added (snd (snd a))) calls))"
    using assms(5) unfolding h by (simp_all add: list_all_iff del: set_concat)
  have b: "backend_history dec (fold (backend_step enc dec) calls d) ?key = map on_file_message (get_history (ts_sessions ?out) ?key)"
    using plain_calls_backend [OF assms(1) c(2) new(1)] unfolding h by (simp add: assms(2) new(2))
  have "provider_ready (get_history (ts_sessions ?out) ?key)"
    using turn_history_ready [OF assms(3,4)] .
  then have "provider_ready (map on_file_message (get_history (ts_sessions ?out) ?key))" by (simp add: on_file_ready)
  then have "sanitize_history (map on_file_message (get_history (ts_sessions ?out) ?key)) = map on_file_message (get_history (ts_sessions ?out) ?key)"
    by (rule sanitize_id)
  moreover have "fst ` snd ` set calls \<subseteq> {?key}" using c(2) by (auto simp: list_all_iff)
  ultimately show ?thesis using c(1) b by (auto simp: Let_def)
qed

subsection \<open>A turn on a disk\<close>

text \<open>A codec for the messages of a given list; every other message is kept as the first of them.\<close>

definition line_index :: "chat_message list \<Rightarrow> chat_message \<Rightarrow> nat" where
  "line_index ns m = (if on_file_message m \<in> set ns then length (takeWhile (\<lambda>x. x \<noteq> on_file_message m) ns) else 0)"

definition enc_line :: "chat_message list \<Rightarrow> chat_message \<Rightarrow> string" where
  "enc_line ns m = enc_ones (line_index ns m, 0)"

definition dec_line :: "chat_message list \<Rightarrow> string \<Rightarrow> chat_message option" where
  "dec_line ns s = (case dec_ones s of None \<Rightarrow> None | Some (i, j) \<Rightarrow> if i < length ns then Some (ns ! i) else None)"

lemma on_file_twice [simp]: "on_file_message (on_file_message m) = on_file_message m"
  by (simp add: on_file_message_def on_file_call_def comp_def)

lemma line_index_found:
  assumes "on_file_message m \<in> set ns"
  shows "line_index ns m < length ns" and "ns ! line_index ns m = on_file_message m"
proof -
  have "length (takeWhile (\<lambda>x. x \<noteq> on_file_message m) ns) < length ns"
    using assms by (metis (full_types) linorder_neqE_nat length_takeWhile_le not_le takeWhile_eq_all_conv takeWhile_eq_take take_all order_refl)
  then show "line_index ns m < length ns" "ns ! line_index ns m = on_file_message m"
    using nth_length_takeWhile [of "\<lambda>x. x \<noteq> on_file_message m" ns] assms by (simp_all add: line_index_def)
qed

lemma dec_enc_line:
  assumes "ns = on_file_message m0 # us"
  shows "dec_line ns (enc_line ns m) = Some (ns ! line_index ns m)" and "line_index ns (ns ! line_index ns m) = line_index ns m"
proof -
  have i: "line_index ns m < length ns" using assms line_index_found(1) [of m ns] by (cases "on_file_message m \<in> set ns") (auto simp: line_index_def)
  show "dec_line ns (enc_line ns m) = Some (ns ! line_index ns m)"
    using i by (simp add: dec_line_def enc_line_def dec_ones_def enc_ones_def)
  show "line_index ns (ns ! line_index ns m) = line_index ns m"
  proof (cases "on_file_message m \<in> set ns")
    case True
    then show ?thesis using line_index_found(2) [OF True] by (simp add: line_index_def)
  next
    case False
    then show ?thesis by (simp add: line_index_def assms)
  qed
qed

lemma line_codec:
  assumes "ns = on_file_message m0 # us"
  shows "codec_ok (enc_line ns) (dec_line ns)"
  unfolding codec_ok_def using dec_enc_line [OF assms] codec_ones [unfolded codec_ok_def]
  by (auto simp: enc_line_def enc_ones_def)

lemma line_kept:
  assumes "on_file_message m \<in> set ns" and "length ns + 2 < max_line_size" and "ns = on_file_message m0 # us"
  shows "fits (enc_line ns) m \<and> kept (enc_line ns) (dec_line ns) m = on_file_message m"
  using line_index_found [OF assms(1)] dec_enc_line(1) [OF assms(3), of m] assms(2)
  by (simp add: kept_def fits_def enc_line_def enc_ones_def)

definition sample_lines :: "chat_message list" where
  "sample_lines = map on_file_message
     (get_history (ts_sessions (snd (run_agent_loop sample_lib (sample_agent ActionLog) sample_options sample_turn sample_state)))
       (po_session_key sample_options))"

theorem stored_turn_ready_witness:
  "\<exists>calls. let h = backend_history (dec_line sample_lines)
       (fold (backend_step (enc_line sample_lines) (dec_line sample_lines)) calls empty_disk) (po_session_key sample_options)
     in h = sample_lines \<and> sanitize_history h = h \<and> length h = 4"
proof -
  let ?st = "snd (run_agent_loop sample_lib (sample_agent ActionLog) sample_options sample_turn sample_state)"
  let ?h = "get_history (ts_sessions ?st) (po_session_key sample_options)"
  have n: "length sample_lines = 4" by code_simp
  then obtain m0 us where "?h = m0 # us" unfolding sample_lines_def by (cases ?h) simp_all
  then have s: "sample_lines = on_file_message m0 # map on_file_message us" by (simp add: sample_lines_def)
  note c = line_codec [OF s]
  have "list_all (\<lambda>m. fits (enc_line sample_lines) m \<and> kept (enc_line sample_lines) (dec_line sample_lines) m = on_file_message m) ?h"
    unfolding list_all_iff by (intro ballI line_kept [OF _ _ s]) (simp_all add: n max_line_size_def, simp add: sample_lines_def)
  moreover have "backend_history (dec_line sample_lines) empty_disk (po_session_key sample_options) =
      map on_file_message (get_history (ts_sessions sample_state) (po_session_key sample_options))"
    using empty_view [OF c, of "po_session_key sample_options"]
    by (simp add: backend_view_def sample_state_def new_session_manager_at_def load_sessions_def get_history_def)
  moreover have "provider_ready (get_history (ts_sessions sample_state) (po_session_key sample_options))" by code_simp
  moreover have "EvCompressed \<notin> set (ts_events ?st)" by code_simp
  ultimately show ?thesis
    using stored_turn_ready [OF empty_disk_inv [OF c], of sample_options sample_state sample_lib "sample_agent ActionLog" sample_turn] n
    by (auto simp: Let_def sample_lines_def)
qed

end
