(* ===== verification/Commands.thy ===== *)
theory Commands
  imports AgentMessages
begin

text \<open>
  Slash commands (\<open>pkg/commands/\<close>): how a text is read as a command (\<open>request.go\<close>), the registry with
  names and aliases (\<open>registry.go\<close>, \<open>definition.go\<close>), the dispatch (\<open>executor.go\<close>), and the built-in
  commands (\<open>cmd_*.go\<close>, \<open>handler_agents.go\<close>) over a runtime whose functions may be missing and may
  change the state of the agent. A reply always succeeds. Text is ASCII where case or white space
  matters.
\<close>

section \<open>Reading a command\<close>

fun split_spaces :: "string \<Rightarrow> string list" where
  "split_spaces [] = [[]]"
| "split_spaces (c # cs) =
     (if is_space c then [] # split_spaces cs
      else (case split_spaces cs of [] \<Rightarrow> [[c]] | w # ws \<Rightarrow> (c # w) # ws))"

definition split_fields :: "string \<Rightarrow> string list" where
  "split_fields s = filter (\<lambda>w. w \<noteq> []) (split_spaces s)"

definition nth_token :: "string \<Rightarrow> nat \<Rightarrow> string" where
  "nth_token input n = (let parts = split_fields (trim_space input) in if n \<ge> length parts then [] else parts ! n)"

definition trim_command_prefix :: "string \<Rightarrow> string option" where
  "trim_command_prefix token =
     (case token of c # rest \<Rightarrow> if c = CHR ''/'' \<or> c = CHR ''!'' then Some rest else None | [] \<Rightarrow> None)"

definition has_command_prefix :: "string \<Rightarrow> bool" where
  "has_command_prefix input =
     (let token = nth_token input 0 in token \<noteq> [] \<and> trim_command_prefix token \<noteq> None)"

definition normalize_command_name :: "string \<Rightarrow> string" where
  "normalize_command_name name = to_lower (trim_space name)"

definition parse_command_name :: "string \<Rightarrow> string option" where
  "parse_command_name input =
     (let token = nth_token input 0 in
      if token = [] then None
      else
        (case trim_command_prefix token of
           None \<Rightarrow> None
         | Some rest \<Rightarrow>
             (let name = normalize_command_name (takeWhile (\<lambda>c. c \<noteq> CHR ''@'') rest)
              in if name = [] then None else Some name)))"

section \<open>Definitions and registry\<close>

record 'h sub_command =
  sc_name :: string
  sc_args_usage :: string
  sc_handler :: "'h option"

record 'h command_definition =
  cd_name :: string
  cd_description :: string
  cd_usage :: string
  cd_aliases :: "string list"
  cd_subs :: "'h sub_command list"
  cd_handler :: "'h option"

definition effective_usage :: "'h command_definition \<Rightarrow> string" where
  "effective_usage d =
     (if cd_subs d = [] then cd_usage d
      else ''/'' @ cd_name d @ '' ['' @
        join_with ''|'' (map (\<lambda>s. sc_name s @ (if sc_args_usage s \<noteq> [] then '' '' @ sc_args_usage s else [])) (cd_subs d)) @ '']'')"

record 'h command_registry =
  cr_defs :: "'h command_definition list"
  cr_index :: "(string, nat) gomap"

definition register_command_name :: "nat \<Rightarrow> string \<Rightarrow> (string, nat) gomap \<Rightarrow> (string, nat) gomap" where
  "register_command_name i name index =
     (let key = normalize_command_name name in
      if key = [] then index else if mget index key \<noteq> None then index else mput key i index)"

definition new_command_registry :: "'h command_definition list \<Rightarrow> 'h command_registry" where
  "new_command_registry defs =
     \<lparr>cr_defs = defs,
      cr_index = fold (\<lambda>(i, d). fold (register_command_name i) (cd_name d # cd_aliases d)) (enumerate 0 defs) []\<rparr>"

definition lookup_command :: "'h command_registry \<Rightarrow> string \<Rightarrow> 'h command_definition option" where
  "lookup_command reg name =
     (let key = normalize_command_name name in
      if key = [] then None else map_option (\<lambda>i. cr_defs reg ! i) (mget (cr_index reg) key))"

section \<open>Dispatch\<close>

text \<open>What is done with a text: not a command (with the name, if it has one), a handler, or a fixed reply.\<close>

datatype 'h dispatch = Passthrough string | RunHandler string 'h | ReplyText string string

definition execute_definition :: "string \<Rightarrow> 'h command_definition \<Rightarrow> 'h dispatch" where
  "execute_definition input d =
     (if cd_subs d = [] then
        (case cd_handler d of None \<Rightarrow> Passthrough (cd_name d) | Some h \<Rightarrow> RunHandler (cd_name d) h)
      else
        (let sub = nth_token input 1 in
         if sub = [] then ReplyText (cd_name d) (''Usage: '' @ effective_usage d)
         else
           (case find (\<lambda>s. normalize_command_name (sc_name s) = normalize_command_name sub) (cd_subs d) of
              Some s \<Rightarrow> (case sc_handler s of None \<Rightarrow> Passthrough (cd_name d) | Some h \<Rightarrow> RunHandler (cd_name d) h)
            | None \<Rightarrow> ReplyText (cd_name d) (''Unknown option: '' @ sub @ ''. Usage: '' @ effective_usage d))))"

definition execute_command :: "'h command_registry \<Rightarrow> string \<Rightarrow> 'h dispatch" where
  "execute_command reg input =
     (case parse_command_name input of
        None \<Rightarrow> Passthrough []
      | Some name \<Rightarrow>
          (case lookup_command reg name of
             None \<Rightarrow> Passthrough name
           | Some d \<Rightarrow> execute_definition input d))"

section \<open>Built-in commands\<close>

datatype builtin =
    HStart | HHelp | HShowModel | HShowChannel | HAgents | HListModels | HListChannels | HSwitchModel | HSwitchChannel
  | HCheckChannel | HClear | HApprove | HReject

text \<open>The functions of the runtime; \<open>None\<close> is a nil function. A failing function answers an error text.\<close>

record 's command_runtime =
  rt_model_info :: "('s \<Rightarrow> string \<times> string) option"
  rt_list_agents :: "('s \<Rightarrow> string list) option"
  rt_enabled_channels :: "('s \<Rightarrow> string list) option"
  rt_switch_model :: "(string \<Rightarrow> 's \<Rightarrow> 's \<times> (string + string)) option"
  rt_switch_channel :: "(string \<Rightarrow> 's \<Rightarrow> string option) option"
  rt_clear_history :: "('s \<Rightarrow> 's \<times> string option) option"
  rt_approve :: "(string \<Rightarrow> 's \<Rightarrow> 's \<times> bool) option"
  rt_reject :: "(string \<Rightarrow> 's \<Rightarrow> 's \<times> bool) option"

definition unavailable_msg :: string where
  "unavailable_msg = ''Command unavailable in current context.''"

definition sub_cmd :: "string \<Rightarrow> string \<Rightarrow> builtin \<Rightarrow> builtin sub_command" where
  "sub_cmd name args h = \<lparr>sc_name = name, sc_args_usage = args, sc_handler = Some h\<rparr>"

definition simple_cmd :: "string \<Rightarrow> string \<Rightarrow> string \<Rightarrow> builtin \<Rightarrow> builtin command_definition" where
  "simple_cmd name descr usage h =
     \<lparr>cd_name = name, cd_description = descr, cd_usage = usage, cd_aliases = [], cd_subs = [], cd_handler = Some h\<rparr>"

definition group_cmd :: "string \<Rightarrow> string \<Rightarrow> builtin sub_command list \<Rightarrow> builtin command_definition" where
  "group_cmd name descr subs =
     \<lparr>cd_name = name, cd_description = descr, cd_usage = [], cd_aliases = [], cd_subs = subs, cd_handler = None\<rparr>"

definition start_command :: "builtin command_definition" where
  "start_command = simple_cmd ''start'' ''Start the bot'' ''/start'' HStart"

definition help_command :: "builtin command_definition" where
  "help_command = simple_cmd ''help'' ''Show this help message'' ''/help'' HHelp"

definition show_command :: "builtin command_definition" where
  "show_command = group_cmd ''show'' ''Show current configuration''
     [sub_cmd ''model'' [] HShowModel, sub_cmd ''channel'' [] HShowChannel, sub_cmd ''agents'' [] HAgents]"

definition list_command :: "builtin command_definition" where
  "list_command = group_cmd ''list'' ''List available options''
     [sub_cmd ''models'' [] HListModels, sub_cmd ''channels'' [] HListChannels, sub_cmd ''agents'' [] HAgents]"

definition switch_command :: "builtin command_definition" where
  "switch_command = group_cmd ''switch'' ''Switch model''
     [sub_cmd ''model'' ''to <name>'' HSwitchModel, sub_cmd ''channel'' [] HSwitchChannel]"

definition check_command :: "builtin command_definition" where
  "check_command = group_cmd ''check'' ''Check channel availability'' [sub_cmd ''channel'' ''<name>'' HCheckChannel]"

definition clear_command :: "builtin command_definition" where
  "clear_command = simple_cmd ''clear'' ''Clear the chat history'' ''/clear'' HClear"

definition approve_command :: "builtin command_definition" where
  "approve_command = simple_cmd ''approve'' ''Approve a pending shield approval request'' ''approve <approval_id>'' HApprove"

definition reject_command :: "builtin command_definition" where
  "reject_command = simple_cmd ''reject'' ''Reject a pending shield approval request'' ''reject <approval_id>'' HReject"

definition builtin_definitions :: "builtin command_definition list" where
  "builtin_definitions =
     [start_command, help_command, show_command, list_command, switch_command, check_command, clear_command,
      approve_command, reject_command]"

definition format_help_message :: "'h command_definition list \<Rightarrow> string" where
  "format_help_message defs =
     (if defs = [] then ''No commands available.''
      else join_with [newline]
        (map (\<lambda>d. (if effective_usage d = [] then ''/'' @ cd_name d else effective_usage d) @ '' - '' @
           (if cd_description d = [] then ''No description'' else cd_description d)) defs))"

definition handle_switch_model :: "string \<Rightarrow> 's command_runtime \<Rightarrow> 's \<Rightarrow> 's \<times> string" where
  "handle_switch_model input rt s =
     (case rt_switch_model rt of
        None \<Rightarrow> (s, unavailable_msg)
      | Some f \<Rightarrow>
          (let v = nth_token input 3 in
           if nth_token input 2 \<noteq> ''to'' \<or> v = [] then (s, ''Usage: /switch model to <name>'')
           else (case f v s of
                   (s', Inl err) \<Rightarrow> (s', err)
                 | (s', Inr old) \<Rightarrow> (s', ''Switched model from '' @ old @ '' to '' @ v))))"

definition handle_check_channel :: "string \<Rightarrow> 's command_runtime \<Rightarrow> 's \<Rightarrow> 's \<times> string" where
  "handle_check_channel input rt s =
     (case rt_switch_channel rt of
        None \<Rightarrow> (s, unavailable_msg)
      | Some f \<Rightarrow>
          (let v = nth_token input 2 in
           if v = [] then (s, ''Usage: /check channel <name>'')
           else (case f v s of
                   Some err \<Rightarrow> (s, err)
                 | None \<Rightarrow> (s, ''Channel '' @ [CHR 0x27] @ v @ [CHR 0x27] @ '' is available and enabled''))))"

definition handle_clear :: "'s command_runtime \<Rightarrow> 's \<Rightarrow> 's \<times> string" where
  "handle_clear rt s =
     (case rt_clear_history rt of
        None \<Rightarrow> (s, unavailable_msg)
      | Some f \<Rightarrow>
          (case f s of
             (s', Some err) \<Rightarrow> (s', ''Failed to clear chat history: '' @ err)
           | (s', None) \<Rightarrow> (s', ''Chat history cleared!'')))"

text \<open>The check mark E2 9C 85, the cross E2 9D 8C and the sign F0 9F 9A AB begin the replies.\<close>

definition handle_approve :: "string \<Rightarrow> 's command_runtime \<Rightarrow> 's \<Rightarrow> 's \<times> string" where
  "handle_approve input rt s =
     (let i = nth_token input 1 in
      if i = [] then (s, ''Usage: approve <approval_id>'')
      else
        (case rt_approve rt of
           None \<Rightarrow> (s, ''Error: approval system not available'')
         | Some f \<Rightarrow>
             (case f i s of (s', ok) \<Rightarrow>
                (s', if ok then [CHR 0xE2, CHR 0x9C, CHR 0x85] @ '' Approved request '' @ i
                     else [CHR 0xE2, CHR 0x9D, CHR 0x8C] @ '' Failed to approve '' @ i @ '' (not found or already processed)''))))"

definition handle_reject :: "string \<Rightarrow> 's command_runtime \<Rightarrow> 's \<Rightarrow> 's \<times> string" where
  "handle_reject input rt s =
     (let i = nth_token input 1 in
      if i = [] then (s, ''Usage: reject <approval_id>'')
      else
        (case rt_reject rt of
           None \<Rightarrow> (s, ''Error: approval system not available'')
         | Some f \<Rightarrow>
             (case f i s of (s', ok) \<Rightarrow>
                (s', if ok then [CHR 0xF0, CHR 0x9F, CHR 0x9A, CHR 0xAB] @ '' Rejected request '' @ i
                     else [CHR 0xE2, CHR 0x9D, CHR 0x8C] @ '' Failed to reject '' @ i @ '' (not found or already processed)''))))"

definition handle_agents :: "'s command_runtime \<Rightarrow> 's \<Rightarrow> string" where
  "handle_agents rt s =
     (case rt_list_agents rt of
        None \<Rightarrow> unavailable_msg
      | Some f \<Rightarrow> if f s = [] then ''No agents registered'' else ''Registered agents: '' @ join_with '', '' (f s))"

text \<open>The handlers on a request: channel, text, and the definitions that \<open>/help\<close> lists.\<close>

fun run_builtin ::
    "builtin \<Rightarrow> string \<Rightarrow> string \<Rightarrow> builtin command_definition list \<Rightarrow> 's command_runtime \<Rightarrow> 's \<Rightarrow> 's \<times> string" where
  "run_builtin HStart channel input defs rt s = (s, ''Hello! I am MoonHub '' @ [CHR 0xF0, CHR 0x9F, CHR 0xA6, CHR 0x9E])"
| "run_builtin HHelp channel input defs rt s = (s, format_help_message defs)"
| "run_builtin HShowModel channel input defs rt s =
     (s, case rt_model_info rt of None \<Rightarrow> unavailable_msg
         | Some f \<Rightarrow> (case f s of (name, provider) \<Rightarrow> ''Current Model: '' @ name @ '' (Provider: '' @ provider @ '')''))"
| "run_builtin HShowChannel channel input defs rt s = (s, ''Current Channel: '' @ channel)"
| "run_builtin HAgents channel input defs rt s = (s, handle_agents rt s)"
| "run_builtin HListModels channel input defs rt s =
     (s, case rt_model_info rt of None \<Rightarrow> unavailable_msg
         | Some f \<Rightarrow> (case f s of (name, provider) \<Rightarrow>
             ''Configured Model: '' @ name @ [newline] @ ''Provider: '' @
             (if provider = [] then ''configured default'' else provider) @ [newline, newline] @
             ''To change models, update config.json''))"
| "run_builtin HListChannels channel input defs rt s =
     (s, case rt_enabled_channels rt of None \<Rightarrow> unavailable_msg
         | Some f \<Rightarrow> if f s = [] then ''No channels enabled''
             else ''Enabled Channels:'' @ [newline] @ ''- '' @ join_with ([newline] @ ''- '') (f s))"
| "run_builtin HSwitchModel channel input defs rt s = handle_switch_model input rt s"
| "run_builtin HSwitchChannel channel input defs rt s = (s, ''This command has moved. Please use: /check channel <name>'')"
| "run_builtin HCheckChannel channel input defs rt s = handle_check_channel input rt s"
| "run_builtin HClear channel input defs rt s = handle_clear rt s"
| "run_builtin HApprove channel input defs rt s = handle_approve input rt s"
| "run_builtin HReject channel input defs rt s = handle_reject input rt s"

section \<open>Lookup\<close>

definition names_of :: "'h command_definition \<Rightarrow> string set" where
  "names_of d = normalize_command_name ` set (cd_name d # cd_aliases d)"

lemma mget_register_names:
  "key \<noteq> [] \<Longrightarrow> mget (fold (register_command_name i) names index) key =
     (case mget index key of Some j \<Rightarrow> Some j
      | None \<Rightarrow> if key \<in> normalize_command_name ` set names then Some i else None)"
proof (induction names arbitrary: index)
  case (Cons name names)
  have "mget (register_command_name i name index) key =
      (case mget index key of Some j \<Rightarrow> Some j | None \<Rightarrow> if key = normalize_command_name name then Some i else None)"
    using Cons.prems by (auto simp: register_command_name_def Let_def split: option.split)
  then show ?case using Cons.IH [OF Cons.prems, of "register_command_name i name index"]
    by (auto split: option.splits)
qed (simp split: option.split)

lemma mget_index:
  "key \<noteq> [] \<Longrightarrow> mget (fold (\<lambda>(i, d). fold (register_command_name i) (cd_name d # cd_aliases d)) (enumerate n ds) index) key =
     (case mget index key of Some j \<Rightarrow> Some j
      | None \<Rightarrow> map_option fst (find (\<lambda>(i, d). key \<in> names_of d) (enumerate n ds)))"
proof (induction ds arbitrary: n index)
  case (Cons d ds)
  let ?index = "fold (register_command_name n) (cd_name d # cd_aliases d) index"
  have "mget ?index key = (case mget index key of Some j \<Rightarrow> Some j | None \<Rightarrow> if key \<in> names_of d then Some n else None)"
    unfolding names_of_def by (rule mget_register_names [OF Cons.prems])
  then show ?case using Cons.IH [OF Cons.prems, of "Suc n" ?index] by (auto split: option.splits)
qed (simp split: option.split)

lemma find_enumerate:
  "find (\<lambda>(i, d). P d) (enumerate n ds) = Some (i, d) \<Longrightarrow> n \<le> i \<and> i < n + length ds \<and> ds ! (i - n) = d \<and> find P ds = Some d"
proof (induction ds arbitrary: n)
  case (Cons a ds)
  show ?case
  proof (cases "P a")
    case False
    then have "find (\<lambda>(i, d). P d) (enumerate (Suc n) ds) = Some (i, d)" using Cons.prems by simp
    from Cons.IH [OF this] False show ?thesis by (auto simp: nth_Cons')
  qed (use Cons.prems in auto)
qed simp

lemma find_enumerate_None: "find (\<lambda>(i, d). P d) (enumerate n ds) = None \<longleftrightarrow> find P ds = None"
  by (induction ds arbitrary: n) auto

section \<open>Properties\<close>

text \<open>A name or an alias leads to the first definition that has it, whatever its letter case.\<close>

theorem lookup_first_definition:
  "lookup_command (new_command_registry defs) name =
     (if normalize_command_name name = [] then None
      else find (\<lambda>d. list_ex (\<lambda>n. normalize_command_name n = normalize_command_name name) (cd_name d # cd_aliases d)) defs)"
proof (cases "normalize_command_name name = []")
  case False
  let ?key = "normalize_command_name name"
  have P: "(\<lambda>d. list_ex (\<lambda>n. normalize_command_name n = ?key) (cd_name d # cd_aliases d)) = (\<lambda>d. ?key \<in> names_of d)"
    by (rule ext) (simp add: names_of_def list_ex_iff image_iff eq_commute [of "normalize_command_name name"])
  have m: "mget (cr_index (new_command_registry defs)) ?key =
      map_option fst (find (\<lambda>(i, d). ?key \<in> names_of d) (enumerate 0 defs))"
    using mget_index [OF False, of 0 defs "[]"] by (simp add: new_command_registry_def)
  show ?thesis
  proof (cases "find (\<lambda>(i, d). ?key \<in> names_of d) (enumerate 0 defs)")
    case None
    then show ?thesis using False m find_enumerate_None [of "\<lambda>d. ?key \<in> names_of d" 0 defs]
      unfolding P by (simp add: lookup_command_def)
  next
    case (Some x)
    then obtain i d where x: "find (\<lambda>(i, d). ?key \<in> names_of d) (enumerate 0 defs) = Some (i, d)" by (cases x) simp
    from find_enumerate [OF this] show ?thesis using False m x
      unfolding P by (simp add: lookup_command_def new_command_registry_def)
  qed
qed (simp add: lookup_command_def)

lemma trim_head: "\<not> is_space c \<Longrightarrow> \<exists>rest. trim_space (c # s) = c # rest"
proof -
  assume c: "\<not> is_space c"
  have "dropWhile is_space (ys @ [c]) = dropWhile is_space ys @ [c]" for ys
    using c by (induction ys) auto
  from this [of "rev s"] show ?thesis using c by (simp add: trim_space_def)
qed

lemma first_token: "\<not> is_space c \<Longrightarrow> \<exists>rest. nth_token (c # s) 0 = c # rest"
proof -
  assume c: "\<not> is_space c"
  then obtain r where r: "trim_space (c # s) = c # r" using trim_head by blast
  have "\<exists>w ws. split_fields (c # r) = (c # w) # ws" using c by (auto simp: split_fields_def split: list.split)
  then show ?thesis unfolding nth_token_def r by (auto simp: Let_def)
qed

text \<open>
  The request for approval tells the user to answer with \<open>approve\<close> or \<open>reject\<close> and the identifier.
  Such an answer is not a command: it lacks the prefix and goes to the model as an ordinary message.
\<close>

theorem approval_answer_is_no_command:
  "\<not> has_command_prefix (''approve '' @ i) \<and> execute_command reg (''approve '' @ i) = Passthrough []
   \<and> \<not> has_command_prefix (''reject '' @ i) \<and> execute_command reg (''reject '' @ i) = Passthrough []"
proof -
  have s: "\<not> is_space (CHR ''a'')" "\<not> is_space (CHR ''r'')" by (simp_all add: is_space_def)
  have no: "\<not> has_command_prefix (c # s) \<and> execute_command reg (c # s) = Passthrough []"
    if "\<not> is_space c" "c \<noteq> CHR ''/''" "c \<noteq> CHR ''!''" for c s
  proof -
    have "\<exists>rest. nth_token (c # s) 0 = c # rest" by (rule first_token) (rule that(1))
    then show ?thesis using that(2,3)
      by (elim exE) (simp add: has_command_prefix_def execute_command_def parse_command_name_def trim_command_prefix_def Let_def)
  qed
  show ?thesis using no [OF s(1)] no [OF s(2)] by simp
qed

end
