(* ===== verification/SessionKeys.thy ===== *)
theory SessionKeys
  imports Prelude
begin

text \<open>
  Identifiers of agents and accounts (\<open>pkg/routing/agent_id.go\<close>) and the keys under which
  conversations are kept (\<open>pkg/routing/session_key.go\<close>). Text is ASCII where case or white space
  matters. A map of identity links is met in the order of the list.
\<close>

section \<open>Identifiers\<close>

definition default_agent_id :: string where
  "default_agent_id = ''main''"

definition default_main_key :: string where
  "default_main_key = ''main''"

definition default_account_id :: string where
  "default_account_id = ''default''"

definition max_agent_id_length :: nat where
  "max_agent_id_length = 64"

definition id_start :: "char \<Rightarrow> bool" where
  "id_start c \<longleftrightarrow> is_digit c \<or> (CHR ''a'' \<le> c \<and> c \<le> CHR ''z'')"

definition id_char :: "char \<Rightarrow> bool" where
  "id_char c \<longleftrightarrow> id_start c \<or> c = CHR ''_'' \<or> c = CHR ''-''"

text \<open>The expression \<open>^[a-z0-9][a-z0-9_-]{0,63}$\<close>.\<close>

definition valid_id :: "string \<Rightarrow> bool" where
  "valid_id s \<longleftrightarrow> (case s of [] \<Rightarrow> False | c # cs \<Rightarrow> id_start c \<and> list_all id_char cs \<and> length cs \<le> 63)"

text \<open>Each run of bytes outside the alphabet becomes one dash.\<close>

fun collapse_invalid :: "bool \<Rightarrow> string \<Rightarrow> string" where
  "collapse_invalid run [] = []"
| "collapse_invalid run (c # cs) =
     (if id_char c then c # collapse_invalid False cs
      else if run then collapse_invalid True cs
      else CHR ''-'' # collapse_invalid True cs)"

definition strip_dashes :: "string \<Rightarrow> string" where
  "strip_dashes s = rev (dropWhile (\<lambda>c. c = CHR ''-'') (rev (dropWhile (\<lambda>c. c = CHR ''-'') s)))"

definition normalize_id :: "string \<Rightarrow> string \<Rightarrow> string" where
  "normalize_id dflt i =
     (let trimmed = trim_space i; lower = to_lower trimmed in
      if trimmed = [] then dflt
      else if valid_id lower then lower
      else
        (let result = take max_agent_id_length (strip_dashes (collapse_invalid False lower)) in
         if result = [] then dflt else result))"

definition normalize_agent_id :: "string \<Rightarrow> string" where
  "normalize_agent_id i = normalize_id default_agent_id i"

definition normalize_account_id :: "string \<Rightarrow> string" where
  "normalize_account_id i = normalize_id default_account_id i"

section \<open>Session keys\<close>

datatype dm_scope =
    DMScopeUnset
  | DMScopeMain
  | DMScopePerPeer
  | DMScopePerChannelPeer
  | DMScopePerAccountChannelPeer
  | DMScopeOther string

record route_peer =
  rp_kind :: string
  rp_id :: string

type_synonym identity_links = "(string \<times> string list) list"

record session_key_params =
  kp_agent_id :: string
  kp_channel :: string
  kp_account_id :: string
  kp_peer :: "route_peer option"
  kp_dm_scope :: dm_scope
  kp_links :: identity_links

record parsed_session_key =
  ps_agent_id :: string
  ps_rest :: string

text \<open>Fields joined by colons, as the format strings of the source write them.\<close>

fun colons :: "string list \<Rightarrow> string" where
  "colons [] = []"
| "colons [s] = s"
| "colons (s # ss) = s @ CHR '':'' # colons ss"

definition build_main_session_key :: "string \<Rightarrow> string" where
  "build_main_session_key agent = colons [''agent'', normalize_agent_id agent, default_main_key]"

definition normalize_channel :: "string \<Rightarrow> string" where
  "normalize_channel channel =
     (let c = trim_space (to_lower channel) in if c = [] then ''unknown'' else c)"

text \<open>The part behind the first colon, when it is neither the first nor the last byte.\<close>

definition bare_id :: "string \<Rightarrow> string option" where
  "bare_id s =
     (let before = takeWhile (\<lambda>c. c \<noteq> CHR '':'') s; after = drop (length before) s in
      if before \<noteq> [] \<and> length after > 1 then Some (tl after) else None)"

definition link_candidates :: "string \<Rightarrow> string \<Rightarrow> string list" where
  "link_candidates channel peer =
     (let raw = to_lower peer; ch = to_lower (trim_space channel) in
      (if raw \<noteq> [] then [raw] else []) @ (if ch \<noteq> [] then [ch @ CHR '':'' # raw] else [])
      @ (case bare_id raw of None \<Rightarrow> [] | Some b \<Rightarrow> [b]))"

text \<open>\<open>[]\<close>: no link.\<close>

definition resolve_linked_peer_id :: "identity_links \<Rightarrow> string \<Rightarrow> string \<Rightarrow> string" where
  "resolve_linked_peer_id links channel peer0 =
     (let peer = trim_space peer0 in
      if links = [] \<or> peer = [] then []
      else
        (case find (\<lambda>(canonical, ids). trim_space canonical \<noteq> []
                \<and> list_ex (\<lambda>i. to_lower (trim_space i) \<noteq> [] \<and> to_lower (trim_space i) \<in> set (link_candidates channel peer)) ids)
             links of
           None \<Rightarrow> []
         | Some (canonical, ids) \<Rightarrow> trim_space canonical))"

definition direct_peer_id :: "session_key_params \<Rightarrow> route_peer \<Rightarrow> dm_scope \<Rightarrow> string" where
  "direct_peer_id p peer scope =
     (let i = trim_space (rp_id peer);
          linked = (if scope \<noteq> DMScopeMain \<and> i \<noteq> [] then resolve_linked_peer_id (kp_links p) (kp_channel p) i else [])
      in to_lower (if linked \<noteq> [] then linked else i))"

definition build_peer_session_key :: "session_key_params \<Rightarrow> string" where
  "build_peer_session_key p =
     (let agent = normalize_agent_id (kp_agent_id p);
          peer = (case kp_peer p of None \<Rightarrow> \<lparr>rp_kind = ''direct'', rp_id = []\<rparr> | Some r \<Rightarrow> r);
          kind = (if trim_space (rp_kind peer) = [] then ''direct'' else trim_space (rp_kind peer));
          channel = normalize_channel (kp_channel p)
      in
      if kind = ''direct'' then
        (let scope = (if kp_dm_scope p = DMScopeUnset then DMScopeMain else kp_dm_scope p);
             i = direct_peer_id p peer scope
         in case scope of
              DMScopePerAccountChannelPeer \<Rightarrow>
                if i \<noteq> [] then colons [''agent'', agent, channel, normalize_account_id (kp_account_id p), ''direct'', i]
                else build_main_session_key agent
            | DMScopePerChannelPeer \<Rightarrow>
                if i \<noteq> [] then colons [''agent'', agent, channel, ''direct'', i] else build_main_session_key agent
            | DMScopePerPeer \<Rightarrow>
                if i \<noteq> [] then colons [''agent'', agent, ''direct'', i] else build_main_session_key agent
            | _ \<Rightarrow> build_main_session_key agent)
      else
        (let i = to_lower (trim_space (rp_id peer)) in
         colons [''agent'', agent, channel, kind, if i = [] then ''unknown'' else i]))"

text \<open>\<open>strings.SplitN(s, ":", n)\<close> for a positive \<open>n\<close>: the last part is the whole rest.\<close>

fun split_colon :: "nat \<Rightarrow> string \<Rightarrow> string list" where
  "split_colon 0 s = [s]"
| "split_colon (Suc n) s =
     (let before = takeWhile (\<lambda>c. c \<noteq> CHR '':'') s in
      if length before = length s then [s] else before # split_colon n (drop (length before + 1) s))"

definition parse_agent_session_key :: "string \<Rightarrow> parsed_session_key option" where
  "parse_agent_session_key key =
     (case split_colon 2 (trim_space key) of
        [p, a, rest] \<Rightarrow>
          if p \<noteq> ''agent'' then None
          else if trim_space a = [] \<or> rest = [] then None
          else Some \<lparr>ps_agent_id = trim_space a, ps_rest = rest\<rparr>
      | _ \<Rightarrow> None)"

definition is_subagent_session_key :: "string \<Rightarrow> bool" where
  "is_subagent_session_key key =
     (let raw = trim_space key in
      if raw = [] then False
      else if prefix ''subagent:'' (to_lower raw) then True
      else (case parse_agent_session_key raw of
              None \<Rightarrow> False
            | Some p \<Rightarrow> prefix ''subagent:'' (to_lower (ps_rest p))))"

section \<open>Shape of identifiers\<close>

lemma collapse_chars: "list_all id_char (collapse_invalid run s)"
  by (induction run s rule: collapse_invalid.induct) (auto simp: id_char_def)

lemma strip_dashes_chars: "list_all id_char s \<Longrightarrow> list_all id_char (strip_dashes s)"
  by (auto simp: strip_dashes_def list_all_iff dest!: set_dropWhileD)

lemma strip_dashes_hd: "strip_dashes s \<noteq> [] \<Longrightarrow> hd (strip_dashes s) \<noteq> CHR ''-''"
proof -
  let ?d = "dropWhile (\<lambda>c. c = CHR ''-'') s"
  assume ne: "strip_dashes s \<noteq> []"
  have "prefix (strip_dashes s) ?d"
    unfolding strip_dashes_def
    using suffix_dropWhile [of "\<lambda>c. c = CHR ''-''" "rev ?d"] by (simp add: suffix_to_prefix)
  then obtain zs where "?d = strip_dashes s @ zs" unfolding prefix_def by blast
  then have "?d \<noteq> []" "hd (strip_dashes s) = hd ?d" using ne by (metis append_is_Nil_conv, metis hd_append2)
  then show ?thesis using hd_dropWhile [of "\<lambda>c. c = CHR ''-''" s] by simp
qed

definition id_shape :: "string \<Rightarrow> bool" where
  "id_shape s \<longleftrightarrow> s \<noteq> [] \<and> length s \<le> max_agent_id_length \<and> list_all id_char s \<and> hd s \<noteq> CHR ''-''"

lemma valid_id_shape: "valid_id s \<Longrightarrow> id_shape s"
  by (cases s) (auto simp: valid_id_def id_shape_def id_char_def id_start_def is_digit_def max_agent_id_length_def)

lemma default_shapes: "id_shape default_agent_id" "id_shape default_account_id"
  by (code_simp, code_simp)

lemma normalize_id_shape: "id_shape dflt \<Longrightarrow> id_shape (normalize_id dflt i)"
proof -
  assume d: "id_shape dflt"
  let ?s = "strip_dashes (collapse_invalid False (to_lower (trim_space i)))"
  have "id_shape (take max_agent_id_length ?s)" if "take max_agent_id_length ?s \<noteq> []"
    using that strip_dashes_chars [OF collapse_chars] strip_dashes_hd [of "collapse_invalid False (to_lower (trim_space i))"]
    by (auto simp: id_shape_def list_all_iff dest: in_set_takeD)
  with d valid_id_shape show ?thesis by (simp add: normalize_id_def Let_def)
qed

lemma agent_id_shape: "id_shape (normalize_agent_id i)"
  by (simp add: normalize_agent_id_def normalize_id_shape default_shapes)

lemma account_id_shape: "id_shape (normalize_account_id i)"
  by (simp add: normalize_account_id_def normalize_id_shape default_shapes)

text \<open>The characters of an identifier are not changed by the operations around it.\<close>

lemma id_char_plain: "id_char c \<Longrightarrow> c \<noteq> CHR '':'' \<and> \<not> is_space c \<and> lower_char c = c"
  by (auto simp: id_char_def id_start_def is_digit_def is_space_def lower_char_def less_eq_char_def)

lemma to_lower_id: "list_all id_char s \<Longrightarrow> to_lower s = s"
  by (induction s) (auto simp: id_char_plain)

lemma trim_no_space: "list_all (\<lambda>c. \<not> is_space c) s \<Longrightarrow> trim_space s = s"
proof -
  assume n: "list_all (\<lambda>c. \<not> is_space c) s"
  then have "dropWhile is_space s = s" by (cases s) auto
  moreover have "dropWhile is_space (rev s) = rev s" using n by (cases "rev s") (auto simp: list_all_iff)
  ultimately show ?thesis by (simp add: trim_space_def)
qed

lemma trim_id: "list_all id_char s \<Longrightarrow> trim_space s = s"
  using id_char_plain by (intro trim_no_space) (auto simp: list_all_iff)

lemma collapse_id: "list_all id_char s \<Longrightarrow> collapse_invalid run s = s"
  by (induction s arbitrary: run) auto

section \<open>Fields between colons\<close>

lemma append_colon_inject:
  "CHR '':'' \<notin> set a \<Longrightarrow> CHR '':'' \<notin> set b \<Longrightarrow> a @ CHR '':'' # x = b @ CHR '':'' # y \<longleftrightarrow> a = b \<and> x = y"
proof (induction a arbitrary: b)
  case Nil
  then show ?case by (cases b) auto
next
  case (Cons c a)
  then show ?case by (cases b) auto
qed

lemma takeWhile_colon: "CHR '':'' \<notin> set a \<Longrightarrow> takeWhile (\<lambda>c. c \<noteq> CHR '':'') (a @ CHR '':'' # x) = a"
  by (induction a) auto

lemma split_colon_field:
  "CHR '':'' \<notin> set a \<Longrightarrow> split_colon (Suc n) (a @ CHR '':'' # x) = a # split_colon n x"
  by (simp add: takeWhile_colon)

lemma id_no_colon: "list_all id_char s \<Longrightarrow> CHR '':'' \<notin> set s"
  using id_char_plain by (auto simp: list_all_iff)

lemma trim_space_ends:
  "s \<noteq> [] \<Longrightarrow> \<not> is_space (hd s) \<Longrightarrow> \<not> is_space (last s) \<Longrightarrow> trim_space s = s"
proof -
  assume a: "s \<noteq> []" "\<not> is_space (hd s)" "\<not> is_space (last s)"
  then have "dropWhile is_space s = s" by (cases s) auto
  moreover have "dropWhile is_space (rev s) = rev s" using a by (cases s rule: rev_cases) auto
  ultimately show ?thesis by (simp add: trim_space_def)
qed

lemma last_trim_space: "trim_space s \<noteq> [] \<Longrightarrow> \<not> is_space (last (trim_space s))"
proof -
  let ?d = "dropWhile is_space (rev (dropWhile is_space s))"
  assume "trim_space s \<noteq> []"
  then have "?d \<noteq> []" by (simp add: trim_space_def)
  then show ?thesis using hd_dropWhile [of is_space "rev (dropWhile is_space s)"]
    by (simp add: trim_space_def last_rev)
qed

lemma char_code_eq: "c = d \<longleftrightarrow> (of_char c :: nat) = of_char d"
  by simp

lemma lower_char_code: "(of_char (lower_char c) :: nat) = (if 65 \<le> (of_char c :: nat) \<and> (of_char c :: nat) \<le> 90 then of_char c + 32 else of_char c)"
  by (auto simp: lower_char_def less_eq_char_def)

lemma is_space_code: "is_space c \<longleftrightarrow> (of_char c :: nat) \<in> {32, 9, 10, 11, 12, 13}"
  unfolding is_space_def by (simp add: char_code_eq del: of_char_eq_iff)

lemma is_space_lower [simp]: "is_space (lower_char c) = is_space c"
  unfolding is_space_code lower_char_code by auto

lemma last_to_lower: "s \<noteq> [] \<Longrightarrow> is_space (last (to_lower s)) = is_space (last s)"
  by (simp add: last_map)

section \<open>Keys and their agents\<close>

definition key_of_agent :: "string \<Rightarrow> string \<Rightarrow> string" where
  "key_of_agent agent rest = ''agent'' @ CHR '':'' # agent @ CHR '':'' # rest"

lemma parse_key_of_agent:
  assumes "list_all id_char agent" and "agent \<noteq> []" and "rest \<noteq> []" and "\<not> is_space (last rest)"
  shows "parse_agent_session_key (key_of_agent agent rest) = Some \<lparr>ps_agent_id = agent, ps_rest = rest\<rparr>"
proof -
  have "last (key_of_agent agent rest) = last rest" using assms(3) by (simp add: key_of_agent_def)
  then have "trim_space (key_of_agent agent rest) = key_of_agent agent rest"
    using assms(4) by (intro trim_space_ends) (auto simp: key_of_agent_def is_space_def)
  moreover have "split_colon 2 (key_of_agent agent rest) = [''agent'', agent, rest]"
    using split_colon_field [of "''agent''" 1] split_colon_field [OF id_no_colon [OF assms(1)], of 0]
    by (simp add: key_of_agent_def numeral_2_eq_2 del: split_colon.simps(2))
  ultimately show ?thesis using assms by (simp add: parse_agent_session_key_def trim_id)
qed

lemma lower_key_of_agent:
  "list_all id_char agent \<Longrightarrow> to_lower (key_of_agent agent rest) = key_of_agent agent (to_lower rest)"
  by (simp add: key_of_agent_def to_lower_id) (simp add: lower_char_def less_eq_char_def)

lemma colons_agent: "ss \<noteq> [] \<Longrightarrow> colons (''agent'' # a # ss) = key_of_agent a (colons ss)"
  by (cases ss) (auto simp: key_of_agent_def)

lemma colons_last: "s \<noteq> [] \<Longrightarrow> colons (ss @ [s]) \<noteq> [] \<and> last (colons (ss @ [s])) = last s"
proof (induction ss)
  case (Cons a ss)
  then show ?case by (cases "ss @ [s]") auto
qed simp

lemma main_key_agent: "build_main_session_key a = key_of_agent (normalize_agent_id a) default_main_key"
  by (simp add: build_main_session_key_def key_of_agent_def)

lemma normalize_twice: "id_start (hd (normalize_agent_id i)) \<Longrightarrow> normalize_agent_id (normalize_agent_id i) = normalize_agent_id i"
proof -
  let ?r = "normalize_agent_id i"
  assume s: "id_start (hd ?r)"
  have sh: "id_shape ?r" by (rule agent_id_shape)
  then have c: "list_all id_char ?r" "?r \<noteq> []" by (simp_all add: id_shape_def)
  then have "valid_id ?r" using sh s by (cases ?r) (auto simp: valid_id_def id_shape_def max_agent_id_length_def)
  then have "normalize_id default_agent_id ?r = ?r"
    using c by (simp add: normalize_id_def trim_id to_lower_id Let_def)
  then show ?thesis by (simp add: normalize_agent_id_def [of ?r])
qed

lemma default_main_key_ends: "default_main_key \<noteq> []" "\<not> is_space (last default_main_key)"
  by (simp_all add: default_main_key_def is_space_def)

lemma lower_trim_last: "to_lower (trim_space s) \<noteq> [] \<Longrightarrow> \<not> is_space (last (to_lower (trim_space s)))"
  using last_trim_space [of s] by (simp add: last_map)

lemma linked_trimmed: "resolve_linked_peer_id links ch s \<noteq> [] \<Longrightarrow> \<exists>c. resolve_linked_peer_id links ch s = trim_space c"
  by (auto simp: resolve_linked_peer_id_def Let_def split: if_splits option.splits)

lemma direct_peer_id_last: "direct_peer_id p peer scope \<noteq> [] \<Longrightarrow> \<not> is_space (last (direct_peer_id p peer scope))"
proof -
  assume ne: "direct_peer_id p peer scope \<noteq> []"
  have "\<exists>c. direct_peer_id p peer scope = to_lower (trim_space c)"
    unfolding direct_peer_id_def Let_def
    using linked_trimmed [of "kp_links p" "kp_channel p" "trim_space (rp_id peer)"] by (auto split: if_splits) blast
  with ne lower_trim_last show ?thesis by metis
qed

text \<open>The agent part of a key is normalized once more when the key falls back to the main session.\<close>

text \<open>The agent a key names: normalized once more in a key that falls back to the main session.\<close>

definition key_agent :: "string \<Rightarrow> string \<Rightarrow> string" where
  "key_agent agent rest =
     (if rest = default_main_key then normalize_agent_id (normalize_agent_id agent) else normalize_agent_id agent)"

definition keyed_by :: "string \<Rightarrow> string \<Rightarrow> bool" where
  "keyed_by agent k \<longleftrightarrow> (\<exists>rest. k = key_of_agent (key_agent agent rest) rest \<and> rest \<noteq> [] \<and> \<not> is_space (last rest))"

lemma keyed_main: "keyed_by agent (build_main_session_key (normalize_agent_id agent))"
  using default_main_key_ends by (auto simp: keyed_by_def main_key_agent key_agent_def)

lemma not_main_key: "CHR '':'' \<in> set rest \<Longrightarrow> rest \<noteq> default_main_key"
  by (auto simp: default_main_key_def)

lemma colons_colon: "ss \<noteq> [] \<Longrightarrow> CHR '':'' \<in> set (colons (ss @ [s]))"
  by (cases ss; cases "tl ss") auto

lemma keyed_fields:
  assumes "s \<noteq> []" and "\<not> is_space (last s)" and "ss \<noteq> []"
  shows "keyed_by agent (colons (''agent'' # normalize_agent_id agent # ss @ [s]))"
proof -
  have "key_agent agent (colons (ss @ [s])) = normalize_agent_id agent"
    using not_main_key [OF colons_colon [OF assms(3)]] by (simp add: key_agent_def)
  then show ?thesis
    using colons_last [OF assms(1), of ss] colons_agent [of "ss @ [s]" "normalize_agent_id agent"] assms(2)
    unfolding keyed_by_def by (intro exI [of _ "colons (ss @ [s])"]) simp
qed

lemma keyed_by_fields:
  assumes "s \<noteq> []" and "\<not> is_space (last s)"
  shows "keyed_by agent (colons [''agent'', normalize_agent_id agent, x, s])"
    and "keyed_by agent (colons [''agent'', normalize_agent_id agent, x, y, s])"
    and "keyed_by agent (colons [''agent'', normalize_agent_id agent, x, y, z, s])"
  using keyed_fields [OF assms, where agent = agent and ss = "[x]"] keyed_fields [OF assms, where agent = agent and ss = "[x, y]"]
    keyed_fields [OF assms, where agent = agent and ss = "[x, y, z]"] by simp_all

lemma unknown_ends: "\<not> is_space (last ''unknown'')"
  by (simp add: is_space_def)

lemma peer_key_shape: "keyed_by (kp_agent_id p) (build_peer_session_key p)"
  unfolding build_peer_session_key_def Let_def
  using keyed_main keyed_by_fields direct_peer_id_last lower_trim_last unknown_ends
  by (simp split: dm_scope.split del: colons.simps)

text \<open>
  C31: Reading a session key back: every key made for any channel, peer, scope and identity links parses,
  and its two fields make up the key. Its agent is the normalized agent identifier; in a key of the
  main session, and only there, it is normalized twice, which makes a difference for an identifier
  that a cut at 64 bytes lets end in a dash after a leading underscore.
\<close>

theorem session_key_parses:
  "case parse_agent_session_key (build_peer_session_key p) of
     None \<Rightarrow> False
   | Some k \<Rightarrow> build_peer_session_key p = colons [''agent'', ps_agent_id k, ps_rest k]
       \<and> ps_agent_id k = (if ps_rest k = ''main'' then normalize_agent_id (normalize_agent_id (kp_agent_id p))
           else normalize_agent_id (kp_agent_id p))"
proof -
  obtain rest where k: "build_peer_session_key p = key_of_agent (key_agent (kp_agent_id p) rest) rest"
    and r: "rest \<noteq> []" "\<not> is_space (last rest)"
    using peer_key_shape [of p] by (auto simp: keyed_by_def)
  have "id_shape (key_agent (kp_agent_id p) rest)" using agent_id_shape by (simp add: key_agent_def)
  then have "parse_agent_session_key (build_peer_session_key p) = Some \<lparr>ps_agent_id = key_agent (kp_agent_id p) rest, ps_rest = rest\<rparr>"
    unfolding k using r by (intro parse_key_of_agent) (auto simp: id_shape_def)
  then show ?thesis using k by (simp add: key_agent_def key_of_agent_def default_main_key_def)
qed

text \<open>
  An agent identifier is always usable in keys and file names: at most 64 bytes of lower-case
  letters, digits, dashes and underscores, not empty and not starting with a dash; unless it starts
  with an underscore it has the documented shape and is left alone by a second normalization.
\<close>

theorem agent_id_format:
  "normalize_agent_id i \<noteq> [] \<and> length (normalize_agent_id i) \<le> 64
   \<and> set (normalize_agent_id i) \<subseteq> {c. is_digit c \<or> CHR ''a'' \<le> c \<and> c \<le> CHR ''z'' \<or> c = CHR ''_'' \<or> c = CHR ''-''}
   \<and> hd (normalize_agent_id i) \<noteq> CHR ''-''
   \<and> (hd (normalize_agent_id i) = CHR ''_''
      \<or> valid_id (normalize_agent_id i) \<and> normalize_agent_id (normalize_agent_id i) = normalize_agent_id i)"
proof -
  let ?r = "normalize_agent_id i"
  have sh: "id_shape ?r" by (rule agent_id_shape)
  then have start: "hd ?r = CHR ''_'' \<or> id_start (hd ?r)"
    by (cases ?r) (auto simp: id_shape_def id_char_def)
  have "valid_id ?r" if "id_start (hd ?r)"
    using that sh by (cases ?r) (auto simp: id_shape_def valid_id_def max_agent_id_length_def)
  with start sh normalize_twice [of i] show ?thesis
    by (auto simp: id_shape_def max_agent_id_length_def list_all_iff id_char_def id_start_def)
qed

text \<open>Private conversations: scope per account, channel and peer, with a known peer.\<close>

definition private_dm :: "session_key_params \<Rightarrow> route_peer \<Rightarrow> bool" where
  "private_dm p peer \<longleftrightarrow> kp_peer p = Some peer \<and> rp_kind peer = ''direct'' \<and> kp_dm_scope p = DMScopePerAccountChannelPeer
     \<and> direct_peer_id p peer DMScopePerAccountChannelPeer \<noteq> []"

lemma private_dm_key:
  "private_dm p peer \<Longrightarrow> build_peer_session_key p =
     colons [''agent'', normalize_agent_id (kp_agent_id p), normalize_channel (kp_channel p),
       normalize_account_id (kp_account_id p), ''direct'', direct_peer_id p peer DMScopePerAccountChannelPeer]"
proof -
  assume d: "private_dm p peer"
  have "trim_space ''direct'' = ''direct''" by code_simp
  with d show ?thesis by (simp add: private_dm_def build_peer_session_key_def)
qed

lemma channel_no_colon: "CHR '':'' \<notin> set ch \<Longrightarrow> CHR '':'' \<notin> set (normalize_channel ch)"
proof -
  assume n: "CHR '':'' \<notin> set ch"
  have plain: "lower_char c \<noteq> CHR '':''" if "c \<noteq> CHR '':''" for c
    using that unfolding char_code_eq lower_char_code by auto
  have "CHR '':'' \<notin> set (to_lower ch)"
  proof
    assume "CHR '':'' \<in> set (to_lower ch)"
    then obtain c where "c \<in> set ch" and "CHR '':'' = lower_char c" unfolding list.set_map by (rule imageE)
    with n plain [of c] show False by metis
  qed
  moreover have "set (trim_space s) \<subseteq> set s" for s
    by (auto simp: trim_space_def dest!: set_dropWhileD)
  ultimately have "CHR '':'' \<notin> set (trim_space (to_lower ch))" by blast
  then show ?thesis by (simp add: normalize_channel_def Let_def)
qed

text \<open>
  With the scope per account, channel and peer, two direct conversations share a session only if
  agent, channel, account and peer (as the identity links see it) are the same.
\<close>

theorem private_sessions_separate:
  assumes "private_dm p peer" and "private_dm q peer'"
    and "CHR '':'' \<notin> set (kp_channel p)" and "CHR '':'' \<notin> set (kp_channel q)"
    and "build_peer_session_key p = build_peer_session_key q"
  shows "normalize_agent_id (kp_agent_id p) = normalize_agent_id (kp_agent_id q)
    \<and> normalize_channel (kp_channel p) = normalize_channel (kp_channel q)
    \<and> normalize_account_id (kp_account_id p) = normalize_account_id (kp_account_id q)
    \<and> direct_peer_id p peer DMScopePerAccountChannelPeer = direct_peer_id q peer' DMScopePerAccountChannelPeer"
proof -
  have c: "CHR '':'' \<notin> set (normalize_agent_id i)" "CHR '':'' \<notin> set (normalize_account_id i)" for i
    using agent_id_shape account_id_shape id_no_colon by (auto simp: id_shape_def)
  show ?thesis
    using assms(5) channel_no_colon [OF assms(3)] channel_no_colon [OF assms(4)]
    unfolding private_dm_key [OF assms(1)] private_dm_key [OF assms(2)]
    by (simp add: append_colon_inject c)
qed

definition sample_dm :: "string \<Rightarrow> session_key_params" where
  "sample_dm peer = \<lparr>kp_agent_id = ''Main'', kp_channel = ''Telegram'', kp_account_id = '''',
     kp_peer = Some \<lparr>rp_kind = ''direct'', rp_id = peer\<rparr>, kp_dm_scope = DMScopePerAccountChannelPeer,
     kp_links = [(''alice'', [''telegram:17'', ''slack:u4''])]\<rparr>"

theorem private_sessions_separate_witness:
  "build_peer_session_key (sample_dm ''17'') \<noteq> build_peer_session_key (sample_dm ''18'')
   \<and> build_peer_session_key (sample_dm ''17'') = ''agent:main:telegram:default:direct:alice''"
proof (intro conjI notI)
  assume "build_peer_session_key (sample_dm ''17'') = build_peer_session_key (sample_dm ''18'')"
  moreover have "private_dm (sample_dm ''17'') \<lparr>rp_kind = ''direct'', rp_id = ''17''\<rparr>" by code_simp
  moreover have "private_dm (sample_dm ''18'') \<lparr>rp_kind = ''direct'', rp_id = ''18''\<rparr>" by code_simp
  moreover have "CHR '':'' \<notin> set (kp_channel (sample_dm ''17''))" "CHR '':'' \<notin> set (kp_channel (sample_dm ''18''))"
    by code_simp+
  ultimately have "direct_peer_id (sample_dm ''17'') \<lparr>rp_kind = ''direct'', rp_id = ''17''\<rparr> DMScopePerAccountChannelPeer
      = direct_peer_id (sample_dm ''18'') \<lparr>rp_kind = ''direct'', rp_id = ''18''\<rparr> DMScopePerAccountChannelPeer"
    using private_sessions_separate by blast
  then show False by code_simp
next
  show "build_peer_session_key (sample_dm ''17'') = ''agent:main:telegram:default:direct:alice''" by code_simp
qed

end
