(* ===== verification/Routes.thy ===== *)
theory Routes
  imports SessionKeys
begin

text \<open>
  Which agent handles an inbound message (\<open>pkg/routing/route.go\<close>): a cascade of seven levels over
  the bindings of the configuration, and the session key of the route. The configuration is what the
  resolver reads of it.
\<close>

section \<open>Configuration and routes\<close>

record agent_binding =
  ab_agent_id :: string
  ab_channel :: string
  ab_account_id :: string
  ab_peer :: "route_peer option"
  ab_guild_id :: string
  ab_team_id :: string

record route_config =
  rc_bindings :: "agent_binding list"
  rc_agents :: "(string \<times> bool) list"
  rc_dm_scope :: dm_scope
  rc_links :: identity_links

record route_input =
  ri_channel :: string
  ri_account_id :: string
  ri_peer :: "route_peer option"
  ri_parent_peer :: "route_peer option"
  ri_guild_id :: string
  ri_team_id :: string

record resolved_route =
  rr_agent_id :: string
  rr_channel :: string
  rr_account_id :: string
  rr_session_key :: string
  rr_main_session_key :: string
  rr_matched_by :: string

definition matches_account_id :: "string \<Rightarrow> string \<Rightarrow> bool" where
  "matches_account_id match_account actual =
     (let trimmed = trim_space match_account in
      if trimmed = [] then actual = default_account_id
      else if trimmed = ''*'' then True
      else to_lower trimmed = to_lower actual)"

definition filter_bindings :: "route_config \<Rightarrow> string \<Rightarrow> string \<Rightarrow> agent_binding list" where
  "filter_bindings cfg channel account =
     filter (\<lambda>b. let mc = to_lower (trim_space (ab_channel b)) in
               mc \<noteq> [] \<and> mc = channel \<and> matches_account_id (ab_account_id b) account) (rc_bindings cfg)"

definition peer_matches :: "route_peer \<Rightarrow> agent_binding \<Rightarrow> bool" where
  "peer_matches peer b =
     (case ab_peer b of
        None \<Rightarrow> False
      | Some bp \<Rightarrow>
          (let kind = to_lower (trim_space (rp_kind bp)); i = trim_space (rp_id bp) in
           kind \<noteq> [] \<and> i \<noteq> [] \<and> kind = to_lower (rp_kind peer) \<and> i = rp_id peer))"

definition find_peer_match :: "agent_binding list \<Rightarrow> route_peer \<Rightarrow> agent_binding option" where
  "find_peer_match bs peer = find (peer_matches peer) bs"

definition guild_matches :: "string \<Rightarrow> agent_binding \<Rightarrow> bool" where
  "guild_matches guild b \<longleftrightarrow> trim_space (ab_guild_id b) \<noteq> [] \<and> trim_space (ab_guild_id b) = guild"

definition find_guild_match :: "agent_binding list \<Rightarrow> string \<Rightarrow> agent_binding option" where
  "find_guild_match bs guild = find (guild_matches guild) bs"

definition team_matches :: "string \<Rightarrow> agent_binding \<Rightarrow> bool" where
  "team_matches team b \<longleftrightarrow> trim_space (ab_team_id b) \<noteq> [] \<and> trim_space (ab_team_id b) = team"

definition find_team_match :: "agent_binding list \<Rightarrow> string \<Rightarrow> agent_binding option" where
  "find_team_match bs team = find (team_matches team) bs"

text \<open>Neither a peer nor a guild nor a team.\<close>

definition unspecific :: "agent_binding \<Rightarrow> bool" where
  "unspecific b \<longleftrightarrow> ab_peer b = None \<and> ab_guild_id b = [] \<and> ab_team_id b = []"

definition find_account_match :: "agent_binding list \<Rightarrow> agent_binding option" where
  "find_account_match bs = find (\<lambda>b. trim_space (ab_account_id b) \<noteq> ''*'' \<and> unspecific b) bs"

definition find_channel_wildcard_match :: "agent_binding list \<Rightarrow> agent_binding option" where
  "find_channel_wildcard_match bs = find (\<lambda>b. trim_space (ab_account_id b) = ''*'' \<and> unspecific b) bs"

definition resolve_default_agent_id :: "route_config \<Rightarrow> string" where
  "resolve_default_agent_id cfg =
     (case rc_agents cfg of
        [] \<Rightarrow> default_agent_id
      | (first, _) # _ \<Rightarrow>
          (case find (\<lambda>(i, is_default). is_default \<and> trim_space i \<noteq> []) (rc_agents cfg) of
             Some (i, _) \<Rightarrow> normalize_agent_id (trim_space i)
           | None \<Rightarrow> if trim_space first \<noteq> [] then normalize_agent_id (trim_space first) else default_agent_id))"

definition pick_agent_id :: "route_config \<Rightarrow> string \<Rightarrow> string" where
  "pick_agent_id cfg agent =
     (let trimmed = trim_space agent; normalized = normalize_agent_id trimmed in
      if trimmed = [] then normalize_agent_id (resolve_default_agent_id cfg)
      else if rc_agents cfg = [] then normalized
      else if list_ex (\<lambda>(i, _). normalize_agent_id i = normalized) (rc_agents cfg) then normalized
      else normalize_agent_id (resolve_default_agent_id cfg))"

definition route_params :: "route_config \<Rightarrow> route_input \<Rightarrow> string \<Rightarrow> session_key_params" where
  "route_params cfg input agent =
     \<lparr>kp_agent_id = agent, kp_channel = to_lower (trim_space (ri_channel input)),
      kp_account_id = normalize_account_id (ri_account_id input), kp_peer = ri_peer input,
      kp_dm_scope = (if rc_dm_scope cfg = DMScopeUnset then DMScopeMain else rc_dm_scope cfg), kp_links = rc_links cfg\<rparr>"

definition choose_route :: "route_config \<Rightarrow> route_input \<Rightarrow> string \<Rightarrow> string \<Rightarrow> resolved_route" where
  "choose_route cfg input agent matched_by =
     (let resolved = pick_agent_id cfg agent in
      \<lparr>rr_agent_id = resolved, rr_channel = to_lower (trim_space (ri_channel input)),
       rr_account_id = normalize_account_id (ri_account_id input),
       rr_session_key = to_lower (build_peer_session_key (route_params cfg input resolved)),
       rr_main_session_key = to_lower (build_main_session_key resolved),
       rr_matched_by = matched_by\<rparr>)"

definition peer_lookup :: "agent_binding list \<Rightarrow> route_peer option \<Rightarrow> agent_binding option" where
  "peer_lookup bs peer =
     (case peer of None \<Rightarrow> None | Some p \<Rightarrow> if trim_space (rp_id p) \<noteq> [] then find_peer_match bs p else None)"

definition resolve_route :: "route_config \<Rightarrow> route_input \<Rightarrow> resolved_route" where
  "resolve_route cfg input =
     (let channel = to_lower (trim_space (ri_channel input));
          account = normalize_account_id (ri_account_id input);
          bs = filter_bindings cfg channel account;
          guild = trim_space (ri_guild_id input); team = trim_space (ri_team_id input) in
      case peer_lookup bs (ri_peer input) of
        Some b \<Rightarrow> choose_route cfg input (ab_agent_id b) ''binding.peer''
      | None \<Rightarrow>
      case peer_lookup bs (ri_parent_peer input) of
        Some b \<Rightarrow> choose_route cfg input (ab_agent_id b) ''binding.peer.parent''
      | None \<Rightarrow>
      case (if guild \<noteq> [] then find_guild_match bs guild else None) of
        Some b \<Rightarrow> choose_route cfg input (ab_agent_id b) ''binding.guild''
      | None \<Rightarrow>
      case (if team \<noteq> [] then find_team_match bs team else None) of
        Some b \<Rightarrow> choose_route cfg input (ab_agent_id b) ''binding.team''
      | None \<Rightarrow>
      case find_account_match bs of
        Some b \<Rightarrow> choose_route cfg input (ab_agent_id b) ''binding.account''
      | None \<Rightarrow>
      case find_channel_wildcard_match bs of
        Some b \<Rightarrow> choose_route cfg input (ab_agent_id b) ''binding.channel''
      | None \<Rightarrow> choose_route cfg input (resolve_default_agent_id cfg) ''default'')"

section \<open>Relevance of a binding\<close>

text \<open>
  The specification: a binding has a level for the message, from the most specific (0, the peer) to
  the least (5, any account of the channel), and the best binding is the first of the lowest level.
\<close>

definition peer_applies :: "route_peer option \<Rightarrow> agent_binding \<Rightarrow> bool" where
  "peer_applies peer b = (case peer of None \<Rightarrow> False | Some p \<Rightarrow> trim_space (rp_id p) \<noteq> [] \<and> peer_matches p b)"

definition level_tests :: "route_input \<Rightarrow> (agent_binding \<Rightarrow> bool) list" where
  "level_tests input =
     [peer_applies (ri_peer input), peer_applies (ri_parent_peer input),
      \<lambda>b. trim_space (ri_guild_id input) \<noteq> [] \<and> guild_matches (trim_space (ri_guild_id input)) b,
      \<lambda>b. trim_space (ri_team_id input) \<noteq> [] \<and> team_matches (trim_space (ri_team_id input)) b,
      \<lambda>b. trim_space (ab_account_id b) \<noteq> ''*'' \<and> unspecific b,
      \<lambda>b. trim_space (ab_account_id b) = ''*'' \<and> unspecific b]"

definition level_names :: "string list" where
  "level_names = [''binding.peer'', ''binding.peer.parent'', ''binding.guild'', ''binding.team'',
     ''binding.account'', ''binding.channel'']"

fun level_from :: "nat \<Rightarrow> ('b \<Rightarrow> bool) list \<Rightarrow> 'b \<Rightarrow> nat option" where
  "level_from l [] b = None"
| "level_from l (p # ps) b = (if p b then Some l else level_from (Suc l) ps b)"

definition best_of :: "('b \<Rightarrow> nat option) \<Rightarrow> 'b list \<Rightarrow> ('b \<times> nat) option" where
  "best_of level bs =
     (let ls = List.map_filter level bs in
      if ls = [] then None
      else (let m = Min (set ls) in map_option (\<lambda>b. (b, m)) (find (\<lambda>b. level b = Some m) bs)))"

fun cascade :: "nat \<Rightarrow> ('b \<Rightarrow> bool) list \<Rightarrow> 'b list \<Rightarrow> ('b \<times> nat) option" where
  "cascade l [] bs = None"
| "cascade l (p # ps) bs = (case find p bs of Some b \<Rightarrow> Some (b, l) | None \<Rightarrow> cascade (Suc l) ps bs)"

lemma level_from_ge: "level_from l ps b = Some m \<Longrightarrow> l \<le> m"
  by (induction l ps b rule: level_from.induct) (auto split: if_splits dest: Suc_leD)

lemma level_from_first: "level_from l (p # ps) b = Some l \<longleftrightarrow> p b"
  using level_from_ge [of "Suc l" ps b l] by auto

lemma set_map_filter_iff: "x \<in> set (List.map_filter f xs) \<longleftrightarrow> (\<exists>y \<in> set xs. f y = Some x)"
  by (induction xs) (auto split: option.split)

lemma map_filter_None: "(\<And>x. x \<in> set xs \<Longrightarrow> f x = None) \<Longrightarrow> List.map_filter f xs = []"
  by (induction xs) auto

lemma map_filter_cong: "(\<And>x. x \<in> set xs \<Longrightarrow> f x = g x) \<Longrightarrow> List.map_filter f xs = List.map_filter g xs"
  by (induction xs) (auto split: option.split)

lemma find_cong_set: "(\<And>x. x \<in> set xs \<Longrightarrow> P x = Q x) \<Longrightarrow> find P xs = find Q xs"
  by (induction xs) auto

lemma find_Some_set: "find P xs = Some x \<Longrightarrow> x \<in> set xs \<and> P x"
  by (induction xs) (auto split: if_splits)

lemma best_of_cong: "(\<And>b. b \<in> set bs \<Longrightarrow> f b = g b) \<Longrightarrow> best_of f bs = best_of g bs"
proof -
  assume eq: "\<And>b. b \<in> set bs \<Longrightarrow> f b = g b"
  have 1: "find (\<lambda>b. f b = Some m) bs = find (\<lambda>b. g b = Some m) bs" for m
    by (rule find_cong_set) (simp add: eq)
  have 2: "List.map_filter f bs = List.map_filter g bs" by (rule map_filter_cong) (rule eq)
  show ?thesis unfolding best_of_def Let_def 1 2 by (rule refl)
qed

lemma cascade_best: "cascade l ps bs = best_of (level_from l ps) bs"
proof (induction l ps bs rule: cascade.induct)
  case (1 l bs)
  then show ?case by (simp add: best_of_def map_filter_None)
next
  case (2 l p ps bs)
  let ?f = "level_from l (p # ps)"
  show ?case
  proof (cases "find p bs")
    case None
    then have "\<And>b. b \<in> set bs \<Longrightarrow> \<not> p b" by (simp add: find_None_iff)
    then have "best_of ?f bs = best_of (level_from (Suc l) ps) bs" by (intro best_of_cong) simp
    with 2 None show ?thesis by (simp del: level_from.simps)
  next
    case (Some b)
    then have b: "b \<in> set bs" "p b" using find_Some_set [of p bs b] by blast+
    let ?ls = "List.map_filter ?f bs"
    have in_ls: "l \<in> set ?ls" unfolding set_map_filter_iff using b by (intro bexI [of _ b]) auto
    have ge: "\<And>m. m \<in> set ?ls \<Longrightarrow> l \<le> m" by (auto simp: set_map_filter_iff simp del: level_from.simps dest: level_from_ge)
    have "Min (set ?ls) = l" by (rule Min_eqI [OF finite_set ge in_ls])
    moreover have "find (\<lambda>b. ?f b = Some l) bs = find p bs"
      by (rule find_cong_set) (rule level_from_first)
    moreover have "?ls \<noteq> []" using in_ls by auto
    ultimately have "best_of ?f bs = Some (b, l)"
      using Some unfolding best_of_def Let_def by (simp only: if_False option.map)
    with Some show ?thesis by (simp only: cascade.simps option.case)
  qed
qed

lemma peer_lookup_find: "peer_lookup bs peer = find (peer_applies peer) bs"
proof (cases peer)
  case None
  then have "find (peer_applies peer) bs = None" by (simp add: peer_applies_def find_None_iff)
  with None show ?thesis by (simp add: peer_lookup_def)
next
  case (Some p)
  then show ?thesis
    by (auto simp: peer_lookup_def peer_applies_def [abs_def] find_peer_match_def find_None_iff [THEN iffD2])
qed

lemma guarded_find: "(if c then find p bs else None) = find (\<lambda>b. c \<and> p b) bs"
  by (simp add: find_None_iff [THEN iffD2])

text \<open>
  C30: The cascade of the resolver is the specification: a message goes to the first binding of the
  lowest relevance level among the bindings of its channel and account, and to the default agent
  when no binding has a level.
\<close>

theorem route_is_best_binding:
  "resolve_route cfg input =
     (case best_of (level_from 0 (level_tests input))
         (filter_bindings cfg (to_lower (trim_space (ri_channel input))) (normalize_account_id (ri_account_id input))) of
        None \<Rightarrow> choose_route cfg input (resolve_default_agent_id cfg) ''default''
      | Some (b, l) \<Rightarrow> choose_route cfg input (ab_agent_id b) (level_names ! l))"
  unfolding cascade_best [symmetric] resolve_route_def Let_def peer_lookup_find find_guild_match_def find_team_match_def
    guarded_find find_account_match_def find_channel_wildcard_match_def level_tests_def
  by (simp add: level_names_def split: option.split)

section \<open>The agent of a route\<close>

lemma valid_id_fixed: "valid_id i \<Longrightarrow> normalize_agent_id i = i \<and> trim_space i = i"
proof -
  assume v: "valid_id i"
  then have "id_shape i" by (rule valid_id_shape)
  then have "list_all id_char i" "i \<noteq> []" by (simp_all add: id_shape_def)
  with v show ?thesis by (simp add: normalize_agent_id_def normalize_id_def trim_id to_lower_id Let_def)
qed

definition valid_agents :: "route_config \<Rightarrow> bool" where
  "valid_agents cfg \<longleftrightarrow> rc_agents cfg \<noteq> [] \<and> list_all (\<lambda>(i, _). valid_id i) (rc_agents cfg)"

lemma valid_agents_id: "valid_agents cfg \<Longrightarrow> a \<in> set (rc_agents cfg) \<Longrightarrow> valid_id (fst a)"
  by (auto simp: valid_agents_def list_all_iff)

lemma default_configured: "valid_agents cfg \<Longrightarrow> resolve_default_agent_id cfg \<in> fst ` set (rc_agents cfg)"
proof -
  assume v: "valid_agents cfg"
  then obtain first d rest where a: "rc_agents cfg = (first, d) # rest"
    by (cases "rc_agents cfg") (auto simp: valid_agents_def)
  have fixed: "normalize_agent_id (trim_space (fst x)) = fst x \<and> trim_space (fst x) \<noteq> []" if "x \<in> set (rc_agents cfg)" for x
    using valid_id_fixed [OF valid_agents_id [OF v that]] valid_agents_id [OF v that] by (auto simp: valid_id_def)
  show ?thesis
  proof (cases "find (\<lambda>(i, is_default). is_default \<and> trim_space i \<noteq> []) (rc_agents cfg)")
    case None
    then show ?thesis using fixed [of "(first, d)"] by (simp add: resolve_default_agent_id_def a)
  next
    case (Some x)
    then have "x \<in> set (rc_agents cfg)" using find_Some_set by fast
    moreover have "resolve_default_agent_id cfg = normalize_agent_id (trim_space (fst x))"
      using Some a by (cases x) (simp add: resolve_default_agent_id_def)
    ultimately show ?thesis using fixed [of x] by simp
  qed
qed

lemma pick_configured: "valid_agents cfg \<Longrightarrow> pick_agent_id cfg agent \<in> fst ` set (rc_agents cfg)"
proof -
  assume v: "valid_agents cfg"
  have d: "normalize_agent_id (resolve_default_agent_id cfg) \<in> fst ` set (rc_agents cfg)"
  proof -
    from default_configured [OF v] obtain x where "x \<in> set (rc_agents cfg)" "resolve_default_agent_id cfg = fst x" by blast
    then show ?thesis using valid_id_fixed [OF valid_agents_id [OF v]] by auto
  qed
  have "normalize_agent_id (trim_space agent) \<in> fst ` set (rc_agents cfg)"
    if "list_ex (\<lambda>(i, _). normalize_agent_id i = normalize_agent_id (trim_space agent)) (rc_agents cfg)"
  proof -
    from that obtain x where "x \<in> set (rc_agents cfg)" "normalize_agent_id (fst x) = normalize_agent_id (trim_space agent)"
      by (auto simp: list_ex_iff)
    then have "normalize_agent_id (trim_space agent) = fst x" using valid_id_fixed [OF valid_agents_id [OF v]] by simp
    with \<open>x \<in> set (rc_agents cfg)\<close> show ?thesis by simp
  qed
  with d v show ?thesis by (simp add: pick_agent_id_def Let_def valid_agents_def)
qed

lemma route_shape: "\<exists>agent name. resolve_route cfg input = choose_route cfg input agent name"
  unfolding resolve_route_def Let_def by (auto split: option.split)

lemma lower_key_parses:
  assumes "keyed_by agent k" and "valid_id agent"
  shows "\<exists>rest. parse_agent_session_key (to_lower k) = Some \<lparr>ps_agent_id = agent, ps_rest = rest\<rparr>"
proof -
  have "key_agent agent rest = agent" for rest using valid_id_fixed [OF assms(2)] by (simp add: key_agent_def)
  then obtain rest where k: "k = key_of_agent agent rest" "rest \<noteq> []" "\<not> is_space (last rest)"
    using assms(1) by (auto simp: keyed_by_def)
  have c: "list_all id_char agent" "agent \<noteq> []" using valid_id_shape [OF assms(2)] by (auto simp: id_shape_def)
  have "parse_agent_session_key (key_of_agent agent (to_lower rest)) = Some \<lparr>ps_agent_id = agent, ps_rest = to_lower rest\<rparr>"
    using c k by (intro parse_key_of_agent) (auto simp: last_map)
  then show ?thesis using k c by (simp add: lower_key_of_agent)
qed

text \<open>
  When the configured agents have identifiers of the documented shape, every message is routed to
  a configured agent, whatever the bindings name, and both session keys of the route read back as
  keys of that agent.
\<close>

theorem route_to_configured_agent:
  assumes "rc_agents cfg \<noteq> []" and "\<forall>(i, d) \<in> set (rc_agents cfg). valid_id i"
  shows "rr_agent_id (resolve_route cfg input) \<in> fst ` set (rc_agents cfg)
    \<and> map_option ps_agent_id (parse_agent_session_key (rr_session_key (resolve_route cfg input)))
      = Some (rr_agent_id (resolve_route cfg input))
    \<and> map_option ps_agent_id (parse_agent_session_key (rr_main_session_key (resolve_route cfg input)))
      = Some (rr_agent_id (resolve_route cfg input))"
proof -
  have v: "valid_agents cfg" using assms by (simp add: valid_agents_def list_all_iff)
  obtain agent name where r: "resolve_route cfg input = choose_route cfg input agent name" using route_shape by blast
  let ?a = "pick_agent_id cfg agent"
  have p: "?a \<in> fst ` set (rc_agents cfg)" by (rule pick_configured [OF v])
  then have va: "valid_id ?a" using valid_agents_id [OF v] by auto
  have "keyed_by ?a (build_peer_session_key (route_params cfg input ?a))"
    using peer_key_shape [of "route_params cfg input ?a"] by (simp add: route_params_def)
  moreover have "keyed_by ?a (build_main_session_key ?a)"
    using keyed_main [of ?a] valid_id_fixed [OF va] by simp
  ultimately obtain r1 r2 where
    "parse_agent_session_key (to_lower (build_peer_session_key (route_params cfg input ?a))) = Some \<lparr>ps_agent_id = ?a, ps_rest = r1\<rparr>"
    "parse_agent_session_key (to_lower (build_main_session_key ?a)) = Some \<lparr>ps_agent_id = ?a, ps_rest = r2\<rparr>"
    using lower_key_parses [OF _ va] by metis
  then show ?thesis using p by (simp add: r choose_route_def Let_def)
qed

definition sample_routes :: route_config where
  "sample_routes = \<lparr>rc_bindings =
      [\<lparr>ab_agent_id = ''ops'', ab_channel = ''slack'', ab_account_id = ''*'', ab_peer = None, ab_guild_id = [], ab_team_id = []\<rparr>,
       \<lparr>ab_agent_id = ''ghost'', ab_channel = ''slack'', ab_account_id = [],
         ab_peer = Some \<lparr>rp_kind = ''direct'', rp_id = ''u1''\<rparr>, ab_guild_id = [], ab_team_id = []\<rparr>,
       \<lparr>ab_agent_id = ''ops'', ab_channel = ''slack'', ab_account_id = ''My Bot'', ab_peer = None, ab_guild_id = [], ab_team_id = []\<rparr>],
     rc_agents = [(''main'', True), (''ops'', False)], rc_dm_scope = DMScopePerPeer, rc_links = []\<rparr>"

definition sample_input :: "string \<Rightarrow> string \<Rightarrow> route_input" where
  "sample_input account peer = \<lparr>ri_channel = ''Slack'', ri_account_id = account,
     ri_peer = Some \<lparr>rp_kind = ''direct'', rp_id = peer\<rparr>, ri_parent_peer = None, ri_guild_id = [], ri_team_id = []\<rparr>"

theorem route_to_configured_agent_witness:
  "rr_agent_id (resolve_route sample_routes (sample_input [] ''u1'')) \<in> {''main'', ''ops''}
   \<and> rr_matched_by (resolve_route sample_routes (sample_input [] ''u1'')) = ''binding.peer''"
proof -
  have "rr_agent_id (resolve_route sample_routes (sample_input [] ''u1'')) \<in> fst ` set (rc_agents sample_routes)"
    by (rule route_to_configured_agent [THEN conjunct1]) code_simp+
  moreover have "rr_matched_by (resolve_route sample_routes (sample_input [] ''u1'')) = ''binding.peer''" by code_simp
  ultimately show ?thesis by (simp add: sample_routes_def)
qed

text \<open>
  A binding whose account name has a character that normalization replaces (a space, a dot, an
  at sign) never applies: the message's account is compared in normalized form, the binding's is not.
\<close>

theorem unnormalized_account_binding_dead:
  assumes "c \<in> set (trim_space (ab_account_id b))" and "\<not> id_char (lower_char c)"
    and "trim_space (ab_account_id b) \<noteq> ''*''"
  shows "b \<notin> set (filter_bindings cfg channel (normalize_account_id account))"
proof -
  let ?t = "trim_space (ab_account_id b)" and ?n = "normalize_account_id account"
  have n: "list_all id_char ?n" using account_id_shape [of account] by (simp add: id_shape_def)
  have "lower_char c \<in> set (to_lower ?t)" using assms(1) by simp
  then have "to_lower ?t \<noteq> ?n" using assms(2) n by (metis list_all_iff)
  then have "\<not> matches_account_id (ab_account_id b) ?n"
    using assms(1,3) n by (auto simp: matches_account_id_def Let_def to_lower_id)
  then show ?thesis by (simp add: filter_bindings_def)
qed

theorem unnormalized_account_binding_dead_witness:
  "rc_bindings sample_routes ! 2 \<notin> set (filter_bindings sample_routes ''slack'' (normalize_account_id ''My Bot''))
   \<and> rr_matched_by (resolve_route sample_routes (sample_input ''My Bot'' ''u2'')) = ''binding.channel''"
proof
  show "rc_bindings sample_routes ! 2 \<notin> set (filter_bindings sample_routes ''slack'' (normalize_account_id ''My Bot''))"
    by (rule unnormalized_account_binding_dead [where c = "CHR '' ''"]) code_simp+
  show "rr_matched_by (resolve_route sample_routes (sample_input ''My Bot'' ''u2'')) = ''binding.channel''" by code_simp
qed

end
