(* ===== verification/AgentLoop.thy ===== *)
theory AgentLoop
  imports AgentTurn Commands Routes
begin

text \<open>
  The loop over inbound messages (\<open>pkg/agent/loop.go\<close>: \<open>Run\<close>, \<open>processMessage\<close>, \<open>processSystemMessage\<close>,
  \<open>ProcessHeartbeat\<close>, \<open>handleCommand\<close> and its runtime), the registry of agents
  (\<open>pkg/agent/registry.go\<close>), and the per-round state of the message tool (\<open>pkg/tools/message.go\<close>). A
  round handles one message, after the transcription of its audio. What a turn meets is its
  environment; the providers' cooldowns are shared by all agents. A handler is given the state of the
  agent it is routed to and returns it; sessions are those of the in-memory manager (see \<open>StoredTurns\<close>
  for the JSONL backend). The second part puts the loop over the bus and the requests for approval
  together: while a turn waits for an answer, that loop handles nothing else; messages of browsers and LAN
  endpoints are handled next to it.
\<close>

section \<open>Messages and agents\<close>

record inbound_message =
  ib_channel :: string
  ib_sender :: string
  ib_chat_id :: string
  ib_content :: string
  ib_media :: "string list"
  ib_peer_kind :: string
  ib_peer_id :: string
  ib_session_key :: string
  ib_metadata :: "(string, string) gomap"

record outbound_message =
  ob_channel :: string
  ob_chat_id :: string
  ob_content :: string

text \<open>
  \<open>sl_sent\<close>: the flag of the agent's message tool, \<open>None\<close> when it has no such tool. Each agent has a
  message tool of its own, unless a plugin brings one, which all agents then share (\<open>lo_shared_message\<close>).
\<close>

record agent_slot =
  sl_agent :: agent_instance
  sl_sessions :: "chat_message session_manager"
  sl_tools :: tool_registry
  sl_approvals :: approval_manager
  sl_subagents :: "string list option"
  sl_sent :: "bool option"

record loop_state =
  lo_agents :: "(string, agent_slot) gomap"
  lo_cooldown :: cooldown_tracker
  lo_routes :: route_config
  lo_provider :: string
  lo_shared_message :: bool

text \<open>One agent per configured identifier, a later one replacing an earlier one; without agents the agent \<open>main\<close>.\<close>

definition new_agent_registry :: "(string \<Rightarrow> agent_slot) \<Rightarrow> route_config \<Rightarrow> (string, agent_slot) gomap" where
  "new_agent_registry mk cfg =
     (if rc_agents cfg = [] then [(''main'', mk ''main'')]
      else fold (\<lambda>(i, d) m. mput (normalize_agent_id i) (mk i) m) (rc_agents cfg) [])"

definition get_agent :: "(string, agent_slot) gomap \<Rightarrow> string \<Rightarrow> (string \<times> agent_slot) option" where
  "get_agent agents i = map_option (Pair (normalize_agent_id i)) (mget agents (normalize_agent_id i))"

definition get_default_agent :: "(string, agent_slot) gomap \<Rightarrow> (string \<times> agent_slot) option" where
  "get_default_agent agents =
     (case mget agents ''main'' of
        Some s \<Rightarrow> Some (''main'', s)
      | None \<Rightarrow> (case agents of [] \<Rightarrow> None | a # _ \<Rightarrow> Some a))"

definition can_spawn_subagent :: "(string, agent_slot) gomap \<Rightarrow> string \<Rightarrow> string \<Rightarrow> bool" where
  "can_spawn_subagent agents parent target =
     (case get_agent agents parent of
        None \<Rightarrow> False
      | Some (_, s) \<Rightarrow>
          (case sl_subagents s of
             None \<Rightarrow> False
           | Some allowed \<Rightarrow> list_ex (\<lambda>a. a = ''*'' \<or> normalize_agent_id a = normalize_agent_id target) allowed))"

section \<open>Routing of a message\<close>

definition inbound_metadata :: "inbound_message \<Rightarrow> string \<Rightarrow> string" where
  "inbound_metadata m k = (case mget (ib_metadata m) k of None \<Rightarrow> [] | Some v \<Rightarrow> v)"

definition extract_peer :: "inbound_message \<Rightarrow> route_peer option" where
  "extract_peer m =
     (if ib_peer_kind m = [] then None
      else Some \<lparr>rp_kind = ib_peer_kind m,
        rp_id = (if ib_peer_id m \<noteq> [] then ib_peer_id m
                 else if ib_peer_kind m = ''direct'' then ib_sender m else ib_chat_id m)\<rparr>)"

definition extract_parent_peer :: "inbound_message \<Rightarrow> route_peer option" where
  "extract_parent_peer m =
     (let kind = inbound_metadata m ''parent_peer_kind''; i = inbound_metadata m ''parent_peer_id'' in
      if kind = [] \<or> i = [] then None else Some \<lparr>rp_kind = kind, rp_id = i\<rparr>)"

definition message_route_input :: "inbound_message \<Rightarrow> route_input" where
  "message_route_input m =
     \<lparr>ri_channel = ib_channel m, ri_account_id = inbound_metadata m ''account_id'', ri_peer = extract_peer m,
      ri_parent_peer = extract_parent_peer m, ri_guild_id = inbound_metadata m ''guild_id'',
      ri_team_id = inbound_metadata m ''team_id''\<rparr>"

definition resolve_message_route :: "loop_state \<Rightarrow> inbound_message \<Rightarrow> (resolved_route \<times> string \<times> agent_slot) option" where
  "resolve_message_route lo m =
     (let route = resolve_route (lo_routes lo) (message_route_input m) in
      case get_agent (lo_agents lo) (rr_agent_id route) of
        Some a \<Rightarrow> Some (route, a)
      | None \<Rightarrow> map_option (Pair route) (get_default_agent (lo_agents lo)))"

definition resolve_scope_key :: "resolved_route \<Rightarrow> string \<Rightarrow> string" where
  "resolve_scope_key route key = (if key \<noteq> [] \<and> has_prefix key ''agent:'' then key else rr_session_key route)"

section \<open>Commands of an agent\<close>

text \<open>What a command meets: the channels, the agents, the clock, and whether the session file can be written.\<close>

record command_env =
  cv_channels :: "string list option"
  cv_now :: int
  cv_save :: bool

definition clear_history :: "command_env \<Rightarrow> string \<Rightarrow> agent_slot \<Rightarrow> agent_slot" where
  "clear_history cv key s =
     s\<lparr>sl_sessions := fst (save_session (cv_save cv) key
         (set_summary (cv_now cv) key [] (set_history (cv_now cv) key [] (sl_sessions s))))\<rparr>"

definition switch_channel :: "command_env \<Rightarrow> string \<Rightarrow> string option" where
  "switch_channel cv v =
     (case cv_channels cv of
        None \<Rightarrow> Some ''channel manager not initialized''
      | Some cs \<Rightarrow>
          if v \<notin> set cs \<and> v \<noteq> ''cli''
          then Some (''channel '' @ [CHR 0x27] @ v @ [CHR 0x27] @ '' not found or not enabled'') else None)"

definition commands_runtime :: "command_env \<Rightarrow> loop_state \<Rightarrow> string \<Rightarrow> agent_slot command_runtime" where
  "commands_runtime cv lo key =
     \<lparr>rt_model_info = Some (\<lambda>s. (ag_model (sl_agent s), lo_provider lo)),
      rt_list_agents = Some (\<lambda>s. map fst (lo_agents lo)),
      rt_enabled_channels = Some (\<lambda>s. case cv_channels cv of None \<Rightarrow> [] | Some cs \<Rightarrow> cs),
      rt_switch_model = Some (\<lambda>v s. (s\<lparr>sl_agent := (sl_agent s)\<lparr>ag_model := v\<rparr>\<rparr>, Inr (ag_model (sl_agent s)))),
      rt_switch_channel = Some (\<lambda>v s. switch_channel cv v),
      rt_clear_history = Some (\<lambda>s. (clear_history cv key s, None)),
      rt_approve = Some (\<lambda>i s. case approve i (sl_approvals s) of (m, ok) \<Rightarrow> (s\<lparr>sl_approvals := m\<rparr>, ok)),
      rt_reject = Some (\<lambda>i s. case reject i (sl_approvals s) of (m, ok) \<Rightarrow> (s\<lparr>sl_approvals := m\<rparr>, ok))\<rparr>"

text \<open>\<open>None\<close>: the message goes on to the model.\<close>

definition handle_command ::
    "command_env \<Rightarrow> loop_state \<Rightarrow> string \<Rightarrow> inbound_message \<Rightarrow> agent_slot \<Rightarrow> (agent_slot \<times> string) option" where
  "handle_command cv lo key m s =
     (if \<not> has_command_prefix (ib_content m) then None
      else
        (case execute_command (new_command_registry builtin_definitions) (ib_content m) of
           Passthrough _ \<Rightarrow> None
         | ReplyText _ reply \<Rightarrow> Some (s, reply)
         | RunHandler _ h \<Rightarrow>
             Some (run_builtin h (ib_channel m) (ib_content m) builtin_definitions (commands_runtime cv lo key) s)))"

section \<open>A round\<close>

text \<open>
  What a round meets: the libraries, the environment of its turn, whether the message tool sends
  something in the turn, and the environment of commands.
\<close>

record round_env =
  rn_lib :: lib_env
  rn_turn :: turn_env
  rn_sent :: bool
  rn_command :: command_env

definition default_response :: string where
  "default_response =
     ''I've completed processing but have no response to give. Increase `max_tool_iterations` in config.json.''"

definition mark_sent :: "bool \<Rightarrow> string \<Rightarrow> loop_state \<Rightarrow> loop_state" where
  "mark_sent b i lo =
     lo\<lparr>lo_agents := map (\<lambda>(j, s).
         (j, if lo_shared_message lo \<or> j = i then s\<lparr>sl_sent := map_option (\<lambda>_. b) (sl_sent s)\<rparr> else s)) (lo_agents lo)\<rparr>"

text \<open>A turn of the agent in its slot, with the shared cooldowns; the events of the turn.\<close>

definition run_slot_turn ::
    "round_env \<Rightarrow> process_options \<Rightarrow> string \<times> agent_slot \<Rightarrow> loop_state \<Rightarrow> loop_state \<times> (string + string) \<times> turn_event list" where
  "run_slot_turn rn opts = (\<lambda>(i, s) lo.
     (case run_agent_loop (rn_lib rn) (sl_agent s) opts (rn_turn rn)
         \<lparr>ts_sessions = sl_sessions s, ts_cooldown = lo_cooldown lo, ts_tools = sl_tools s, ts_events = []\<rparr> of
        (res, st) \<Rightarrow>
          (let lo1 = lo\<lparr>lo_agents := mput i (s\<lparr>sl_sessions := ts_sessions st, sl_tools := ts_tools st\<rparr>) (lo_agents lo),
                 lo_cooldown := ts_cooldown st\<rparr>
           in (if rn_sent rn then mark_sent True i lo1 else lo1, res, ts_events st))))"

definition find_sub :: "string \<Rightarrow> string \<Rightarrow> nat option" where
  "find_sub t s = find (\<lambda>i. has_prefix (drop i s) t) [0..<Suc (length s)]"

definition origin_of :: "string \<Rightarrow> string \<times> string" where
  "origin_of chat_id =
     (case find_sub '':'' chat_id of
        Some (Suc i) \<Rightarrow> (take (Suc i) chat_id, drop (Suc (Suc i)) chat_id)
      | _ \<Rightarrow> (''cli'', chat_id))"

definition process_system_message ::
    "round_env \<Rightarrow> inbound_message \<Rightarrow> loop_state \<Rightarrow> loop_state \<times> (string + string) \<times> turn_event list" where
  "process_system_message rn m lo =
     (case origin_of (ib_chat_id m) of (channel, chat) \<Rightarrow>
       if is_internal_channel channel then (lo, Inr [], [])
       else
         (case get_default_agent (lo_agents lo) of
            None \<Rightarrow> (lo, Inl ''no default agent for system message'', [])
          | Some (i, s) \<Rightarrow>
              run_slot_turn rn
                \<lparr>po_session_key = build_main_session_key (ag_id (sl_agent s)), po_channel = channel, po_chat_id = chat,
                 po_user_message = ''[System: '' @ ib_sender m @ ''] '' @ ib_content m, po_media = [],
                 po_default_response = ''Background task completed.'', po_enable_summary = False,
                 po_send_response = True, po_no_history = False\<rparr> (i, s) lo))"

definition process_message ::
    "round_env \<Rightarrow> inbound_message \<Rightarrow> loop_state \<Rightarrow> loop_state \<times> (string + string) \<times> turn_event list" where
  "process_message rn m lo =
     (if ib_channel m = ''system'' then process_system_message rn m lo
      else
        (case resolve_message_route lo m of
           None \<Rightarrow>
             (lo, Inl (''no agent available for route (agent_id='' @
                rr_agent_id (resolve_route (lo_routes lo) (message_route_input m)) @ '')''), [])
         | Some (route, i, s) \<Rightarrow>
             (let s1 = s\<lparr>sl_sent := map_option (\<lambda>_. False) (sl_sent s)\<rparr>;
                  lo1 = mark_sent False i lo;
                  key = resolve_scope_key route (ib_session_key m)
              in case handle_command (rn_command rn) lo1 key m s1 of
                   Some (s2, reply) \<Rightarrow> (lo1\<lparr>lo_agents := mput i s2 (lo_agents lo1)\<rparr>, Inr reply, [])
                 | None \<Rightarrow>
                     run_slot_turn rn
                       \<lparr>po_session_key = key, po_channel = ib_channel m, po_chat_id = ib_chat_id m,
                        po_user_message = ib_content m, po_media = ib_media m, po_default_response = default_response,
                        po_enable_summary = True, po_send_response = False, po_no_history = False\<rparr> (i, s1) lo1)))"

definition process_heartbeat ::
    "round_env \<Rightarrow> string \<Rightarrow> string \<Rightarrow> string \<Rightarrow> loop_state \<Rightarrow> loop_state \<times> (string + string) \<times> turn_event list" where
  "process_heartbeat rn content channel chat_id lo =
     (case get_default_agent (lo_agents lo) of
        None \<Rightarrow> (lo, Inl ''no default agent for heartbeat'', [])
      | Some (i, s) \<Rightarrow>
          run_slot_turn rn
            \<lparr>po_session_key = ''heartbeat'', po_channel = channel, po_chat_id = chat_id, po_user_message = content, po_media = [],
             po_default_response = default_response, po_enable_summary = False, po_send_response = False,
             po_no_history = True\<rparr> (i, s) lo)"

text \<open>One message taken by \<open>Run\<close>: the answer is not published when the default agent's message tool has sent.\<close>

definition run_round :: "round_env \<Rightarrow> inbound_message \<Rightarrow> loop_state \<Rightarrow> loop_state \<times> outbound_message list \<times> turn_event list" where
  "run_round rn m lo =
     (case process_message rn m lo of (lo1, res, evs) \<Rightarrow>
       (let response = (case res of Inl err \<Rightarrow> ''Error processing message: '' @ err | Inr r \<Rightarrow> r);
            already_sent = (case get_default_agent (lo_agents lo1) of None \<Rightarrow> False | Some (_, s) \<Rightarrow> sl_sent s = Some True)
        in (lo1,
            if response \<noteq> [] \<and> \<not> already_sent
            then [\<lparr>ob_channel = ib_channel m, ob_chat_id = ib_chat_id m, ob_content = response\<rparr>] else [],
            evs)))"

section \<open>Every message finds its agent\<close>

lemma mget_registry:
  fixes as :: "(string \<times> bool) list"
  shows "mget (fold (\<lambda>(i, d) m. mput (normalize_agent_id i) (mk i) m) as m0) k =
     (case find (\<lambda>(i, d). normalize_agent_id i = k) (rev as) of
        Some (i, d) \<Rightarrow> Some (mk i) | None \<Rightarrow> mget m0 k)"
proof (induction as arbitrary: m0)
  case (Cons a as)
  obtain i d where a: "a = (i, d)" by fastforce
  have f: "find P (xs @ [x]) = (case find P xs of Some y \<Rightarrow> Some y | None \<Rightarrow> if P x then Some x else None)" for P xs and x :: "string \<times> bool"
    by (induction xs) auto
  show ?case by (simp add: a Cons.IH f split: option.split)
qed simp

lemma registry_has:
  "rc_agents cfg \<noteq> [] \<Longrightarrow> (i, d) \<in> set (rc_agents cfg) \<Longrightarrow>
     \<exists>j e. (j, e) \<in> set (rc_agents cfg) \<and> normalize_agent_id j = normalize_agent_id i
       \<and> mget (new_agent_registry mk cfg) (normalize_agent_id i) = Some (mk j)"
proof -
  assume a: "rc_agents cfg \<noteq> []" "(i, d) \<in> set (rc_agents cfg)"
  have "find (\<lambda>(j, e). normalize_agent_id j = normalize_agent_id i) (rev (rc_agents cfg)) \<noteq> None"
    using a(2) by (auto simp: find_None_iff)
  then obtain j e where f: "find (\<lambda>(j, e). normalize_agent_id j = normalize_agent_id i) (rev (rc_agents cfg)) = Some (j, e)" by auto
  then have "(j, e) \<in> set (rc_agents cfg)" "normalize_agent_id j = normalize_agent_id i"
    using find_Some_set [OF f] by auto
  then show ?thesis using a(1) f by (auto simp: new_agent_registry_def mget_registry)
qed

text \<open>
  C10: With valid agents configured, every message of a channel is handled by the configured agent that
  its route names: nothing is lost for want of an agent, and the fallback to the default agent is
  never taken.
\<close>

theorem message_reaches_routed_agent:
  assumes "rc_agents (lo_routes lo) \<noteq> []" and "\<forall>(i, d) \<in> set (rc_agents (lo_routes lo)). valid_id i"
    and "lo_agents lo = new_agent_registry mk (lo_routes lo)"
  shows "\<exists>route i. resolve_message_route lo m = Some (route, i, mk i)
    \<and> i = rr_agent_id (resolve_route (lo_routes lo) (message_route_input m)) \<and> i \<in> fst ` set (rc_agents (lo_routes lo))"
proof -
  let ?cfg = "lo_routes lo" and ?r = "resolve_route (lo_routes lo) (message_route_input m)"
  have v: "valid_agents ?cfg" using assms by (simp add: valid_agents_def list_all_iff)
  obtain agent name where "?r = choose_route ?cfg (message_route_input m) agent name" using route_shape by blast
  then have "rr_agent_id ?r = pick_agent_id ?cfg agent" by (simp add: choose_route_def Let_def)
  then have i: "rr_agent_id ?r \<in> fst ` set (rc_agents ?cfg)" using pick_configured [OF v] by simp
  then obtain d where d: "(rr_agent_id ?r, d) \<in> set (rc_agents ?cfg)" by force
  have fixed: "normalize_agent_id k = k" if "(k, e) \<in> set (rc_agents ?cfg)" for k e
    using valid_id_fixed [OF valid_agents_id [OF v that]] by simp
  obtain j e where j: "(j, e) \<in> set (rc_agents ?cfg)" "normalize_agent_id j = normalize_agent_id (rr_agent_id ?r)"
    "mget (new_agent_registry mk ?cfg) (normalize_agent_id (rr_agent_id ?r)) = Some (mk j)"
    using registry_has [OF assms(1) d] by blast
  have "j = rr_agent_id ?r" using j(2) fixed [OF j(1)] fixed [OF d] by simp
  then have "get_agent (lo_agents lo) (rr_agent_id ?r) = Some (rr_agent_id ?r, mk (rr_agent_id ?r))"
    using j(3) fixed [OF d] assms(3) by (simp add: get_agent_def)
  then show ?thesis using i by (simp add: resolve_message_route_def Let_def)
qed


definition sample_slot :: "string \<Rightarrow> agent_slot" where
  "sample_slot i =
     \<lparr>sl_agent = (sample_agent ActionLog)\<lparr>ag_id := i\<rparr>, sl_sessions = new_session_manager_at False [], sl_tools = new_tool_registry,
      sl_approvals = new_approval_manager 300, sl_subagents = None, sl_sent = Some False\<rparr>"

definition sample_loop :: "bool \<Rightarrow> loop_state" where
  "sample_loop shared =
     \<lparr>lo_agents = new_agent_registry sample_slot sample_routes, lo_cooldown = new_cooldown_tracker, lo_routes = sample_routes,
      lo_provider = ''openai'', lo_shared_message = shared\<rparr>"

definition sample_message :: inbound_message where
  "sample_message =
     \<lparr>ib_channel = ''slack'', ib_sender = ''u9'', ib_chat_id = ''c9'', ib_content = ''hello'', ib_media = [], ib_peer_kind = ''direct'',
      ib_peer_id = [], ib_session_key = [], ib_metadata = []\<rparr>"

theorem message_reaches_routed_agent_witness:
  "\<exists>route i. resolve_message_route (sample_loop True) sample_message = Some (route, i, sample_slot i) \<and> i \<in> {''main'', ''ops''}"
proof -
  have "\<exists>route i. resolve_message_route (sample_loop True) sample_message = Some (route, i, sample_slot i)
    \<and> i = rr_agent_id (resolve_route (lo_routes (sample_loop True)) (message_route_input sample_message))
    \<and> i \<in> fst ` set (rc_agents (lo_routes (sample_loop True)))"
    by (rule message_reaches_routed_agent) (simp_all add: sample_loop_def, code_simp+)
  then show ?thesis by (auto simp: sample_loop_def sample_routes_def)
qed

section \<open>The answer of a round\<close>

lemma mget_map_values: "mget (map (\<lambda>(j, s). (j, f j s)) m) k = map_option (f k) (mget m k)"
  by (induction m) auto

lemma mark_sent_other: "\<not> lo_shared_message lo \<Longrightarrow> j \<noteq> i \<Longrightarrow> mget (lo_agents (mark_sent b i lo)) j = mget (lo_agents lo) j"
  by (cases "mget (lo_agents lo) j") (simp_all add: mark_sent_def mget_map_values [where f = "\<lambda>j s. if P j then g s else s" for P g])

lemma mark_sent_mode [simp]: "lo_shared_message (mark_sent b i lo) = lo_shared_message lo"
  by (simp add: mark_sent_def)

text \<open>A message of a channel leaves the slots of the other agents alone when every agent has a message tool of its own.\<close>

lemma round_other_agent:
  assumes "resolve_message_route lo m = Some (route, i, s)" and "ib_channel m \<noteq> ''system''"
    and "\<not> lo_shared_message lo" and "j \<noteq> i"
  shows "mget (lo_agents (fst (process_message rn m lo))) j = mget (lo_agents lo) j"
  using assms mark_sent_other [OF assms(3,4), of False]
  by (simp add: process_message_def run_slot_turn_def Let_def mark_sent_other split: option.split prod.split)

text \<open>
  C40: Without a shared message tool, an answer can be swallowed. When the message tool of the agent
  \<open>main\<close> has sent something in its last round, a message that is routed to another agent is answered
  with silence, whatever the turn or the command says, for the flag that the loop looks at is the
  main agent's and the round has reset only the other agent's.
\<close>

theorem answer_swallowed:
  assumes "resolve_message_route lo m = Some (route, i, s)" and "ib_channel m \<noteq> ''system''"
    and "\<not> lo_shared_message lo" and "i \<noteq> ''main''"
    and "mget (lo_agents lo) ''main'' = Some s0" and "sl_sent s0 = Some True"
  shows "fst (snd (run_round rn m lo)) = []"
proof -
  have "mget (lo_agents (fst (process_message rn m lo))) ''main'' = Some s0"
    using round_other_agent [OF assms(1-3), of "''main''" rn] assms(4,5) by simp
  then show ?thesis
    using assms(6) by (auto simp: run_round_def get_default_agent_def Let_def split: prod.split)
qed


definition sample_round :: "bool \<Rightarrow> round_env" where
  "sample_round sent =
     \<lparr>rn_lib = sample_lib, rn_turn = sample_turn, rn_sent = sent, rn_command = \<lparr>cv_channels = None, cv_now = 3, cv_save = True\<rparr>\<rparr>"

definition silenced_loop :: loop_state where
  "silenced_loop = mark_sent True ''main'' (sample_loop False)"

theorem answer_swallowed_witness:
  "fst (snd (run_round (sample_round False) sample_message silenced_loop)) = []"
proof -
  obtain route where r: "resolve_message_route silenced_loop sample_message = Some (route, ''ops'', sample_slot ''ops'')"
  proof
    show "resolve_message_route silenced_loop sample_message =
        Some (resolve_route sample_routes (message_route_input sample_message), ''ops'', sample_slot ''ops'')"
      by code_simp
  qed
  show ?thesis
    by (rule answer_swallowed [OF r, where ?s0.0 = "(sample_slot ''main'')\<lparr>sl_sent := Some True\<rparr>"]) (code_simp)+
qed

lemma run_builtin_sent: "sl_sent (fst (run_builtin h ch txt defs (commands_runtime cv lo key) s)) = sl_sent s"
  by (cases h)
    (simp_all add: handle_switch_model_def handle_check_channel_def handle_clear_def handle_approve_def handle_reject_def
      commands_runtime_def clear_history_def Let_def split: option.split prod.split)

lemma handle_command_sent: "handle_command cv lo key m s = Some (s', reply) \<Longrightarrow> sl_sent s' = sl_sent s"
  using run_builtin_sent [of _ "ib_channel m" "ib_content m" builtin_definitions cv lo key s]
  by (auto simp: handle_command_def split: if_splits dispatch.splits) (metis fst_conv)

definition all_sent :: "bool \<Rightarrow> (string, agent_slot) gomap \<Rightarrow> bool" where
  "all_sent b agents \<longleftrightarrow> (\<forall>(j, s) \<in> set agents. sl_sent s = Some b)"

lemma all_sent_mark: "lo_shared_message lo \<Longrightarrow> (\<forall>(j, s) \<in> set (lo_agents lo). sl_sent s \<noteq> None) \<Longrightarrow> all_sent b (lo_agents (mark_sent b i lo))"
  by (fastforce simp: all_sent_def mark_sent_def)

lemma all_sent_put: "all_sent b agents \<Longrightarrow> sl_sent s = Some b \<Longrightarrow> all_sent b (mput i s agents)"
  unfolding all_sent_def by (induction agents) (auto split: if_splits)

lemma all_sent_default: "all_sent b agents \<Longrightarrow> agents \<noteq> [] \<Longrightarrow> \<exists>j s. get_default_agent agents = Some (j, s) \<and> sl_sent s = Some b"
  by (fastforce simp: get_default_agent_def all_sent_def split: option.split list.split dest: map_of_SomeD)

lemma all_sent_not_None: "all_sent b agents \<Longrightarrow> \<forall>(j, s) \<in> set agents. sl_sent s \<noteq> None"
  by (auto simp: all_sent_def)

lemma routed_slot: "resolve_message_route lo m = Some (route, i, s) \<Longrightarrow> \<exists>j. (j, s) \<in> set (lo_agents lo)"
  by (auto simp: resolve_message_route_def get_agent_def get_default_agent_def Let_def
      split: option.splits list.splits dest: map_of_SomeD)

lemma mput_not_Nil [simp]: "mput i s agents \<noteq> []"
  by (cases agents) auto

text \<open>What the flags are after a message: those of the message tool in its turn.\<close>

lemma flags_after_message:
  assumes "resolve_message_route lo m = Some (route, i, s)" and "ib_channel m \<noteq> ''system''"
    and "lo_shared_message lo" and "\<forall>(j, s) \<in> set (lo_agents lo). sl_sent s \<noteq> None"
  defines "s1 \<equiv> s\<lparr>sl_sent := map_option (\<lambda>_. False) (sl_sent s)\<rparr>"
  shows "all_sent (handle_command (rn_command rn) (mark_sent False i lo) (resolve_scope_key route (ib_session_key m)) m s1 = None \<and> rn_sent rn)
      (lo_agents (fst (process_message rn m lo))) \<and> lo_agents (fst (process_message rn m lo)) \<noteq> []"
proof -
  let ?lo = "mark_sent False i lo"
  obtain j where "(j, s) \<in> set (lo_agents lo)" using routed_slot [OF assms(1)] by blast
  then have s1: "sl_sent s1 = Some False" using assms(4) by (auto simp: s1_def)
  have f: "all_sent False (lo_agents ?lo)" using all_sent_mark [OF assms(3,4)] by blast
  show ?thesis
  proof (cases "handle_command (rn_command rn) ?lo (resolve_scope_key route (ib_session_key m)) m s1")
    case (Some r)
    obtain s2 reply where r: "r = (s2, reply)" by fastforce
    have "sl_sent s2 = Some False" using handle_command_sent [OF Some [unfolded r]] s1 by simp
    then show ?thesis using Some r assms(1,2) all_sent_put [OF f]
      by (simp add: process_message_def Let_def s1_def)
  next
    case None
    have put: "all_sent False (mput i (s1\<lparr>sl_sessions := x, sl_tools := y\<rparr>) (lo_agents ?lo))" for x y
      using all_sent_put [OF f] s1 by simp
    have mark: "all_sent True (lo_agents (mark_sent True i (?lo\<lparr>lo_agents := mput i (s1\<lparr>sl_sessions := x, sl_tools := y\<rparr>) (lo_agents ?lo),
        lo_cooldown := c\<rparr>)))" for x y c
      by (rule all_sent_mark) (use assms(3) all_sent_not_None [OF put] in simp_all)
    have ne: "lo_agents (mark_sent True i (lo'\<lparr>lo_agents := mput i s' a, lo_cooldown := c\<rparr>)) \<noteq> []" for lo' s' a c
      by (simp add: mark_sent_def)
    show ?thesis using None assms(1,2) put mark ne
      by (cases "rn_sent rn") (simp_all add: process_message_def run_slot_turn_def Let_def s1_def split: prod.split)
  qed
qed

text \<open>
  C11: With a shared message tool, the answer to a message of a channel is published exactly when there
  is one and the message tool has not spoken in the turn of this very message: what earlier rounds
  sent does not matter, and the answer of a command is always published.
\<close>

theorem answer_published:
  assumes "resolve_message_route lo m = Some (route, i, s)" and "ib_channel m \<noteq> ''system''"
    and "lo_shared_message lo" and "\<forall>(j, s) \<in> set (lo_agents lo). sl_sent s \<noteq> None"
  shows "fst (snd (run_round rn m lo)) =
    (let s1 = s\<lparr>sl_sent := map_option (\<lambda>_. False) (sl_sent s)\<rparr>; key = resolve_scope_key route (ib_session_key m);
         command = handle_command (rn_command rn) (mark_sent False i lo) key m s1;
         response = (case fst (snd (process_message rn m lo)) of Inl err \<Rightarrow> ''Error processing message: '' @ err | Inr r \<Rightarrow> r)
     in if response \<noteq> [] \<and> (command \<noteq> None \<or> \<not> rn_sent rn)
        then [\<lparr>ob_channel = ib_channel m, ob_chat_id = ib_chat_id m, ob_content = response\<rparr>] else [])"
proof -
  let ?lo = "fst (process_message rn m lo)"
  obtain j s' where d: "get_default_agent (lo_agents ?lo) = Some (j, s')"
    "sl_sent s' = Some (handle_command (rn_command rn) (mark_sent False i lo) (resolve_scope_key route (ib_session_key m)) m
      (s\<lparr>sl_sent := map_option (\<lambda>_. False) (sl_sent s)\<rparr>) = None \<and> rn_sent rn)"
    using flags_after_message [OF assms, of rn] all_sent_default by blast
  obtain lo1 res evs where "process_message rn m lo = (lo1, res, evs)" by (cases "process_message rn m lo") auto
  then show ?thesis using d by (auto simp: run_round_def Let_def)
qed


definition spoken_loop :: loop_state where
  "spoken_loop = mark_sent True ''main'' (sample_loop True)"

theorem answer_published_witness:
  "fst (snd (run_round (sample_round False) sample_message spoken_loop)) =
     [\<lparr>ob_channel = ''slack'', ob_chat_id = ''c9'', ob_content = ''done''\<rparr>]
   \<and> fst (snd (run_round (sample_round True) sample_message spoken_loop)) = []"
proof -
  let ?s = "(sample_slot ''ops'')\<lparr>sl_sent := Some True\<rparr>"
  have r: "resolve_message_route spoken_loop sample_message =
      Some (resolve_route sample_routes (message_route_input sample_message), ''ops'', ?s)"
    by code_simp
  have "lo_shared_message spoken_loop" "ib_channel sample_message \<noteq> ''system''" by code_simp+
  moreover have "\<forall>(j, s) \<in> set (lo_agents spoken_loop). sl_sent s \<noteq> None"
    unfolding list_all_iff [symmetric] by code_simp
  moreover have "fst (snd (process_message (sample_round b) sample_message spoken_loop)) = Inr ''done''" for b
    by (cases b; simp only:) code_simp+
  moreover have "handle_command (rn_command (sample_round b)) lo key sample_message s = None" for b lo key s
    by (simp add: handle_command_def sample_message_def) code_simp
  ultimately show ?thesis
    using answer_published [OF r, where rn = "sample_round False"] answer_published [OF r, where rn = "sample_round True"]
    by (simp add: sample_message_def) (simp add: sample_round_def)
qed

section \<open>Approvals and the loop\<close>

text \<open>
  The loop over the bus handles one message at a time. A command, among them \<open>/approve\<close> and
  \<open>/reject\<close>, is handled when no turn of the loop runs; a turn creates requests and waits for those
  that it has created, and it ends when none of its calls waits any more. The waiting calls, the periodic
  cleanup and the readers of the pending queue take their own steps at any time. A message that a
  browser or a LAN endpoint sends is handled in a goroutine of its own (\<open>ProcessDirectWithChannel\<close>, called
  by \<open>pkg/api/chat_ws.go\<close> and \<open>web/backend/api/lan.go\<close>), next to the loop: its commands and its turns
  act at any time (\<open>Direct\<close>).
\<close>

record desk =
  dk_world :: approval_world
  dk_turn :: "string list option"

datatype desk_action = StartTurn | EndTurn | Act approval_action | Direct approval_action

fun waits_in :: "string list \<Rightarrow> waiter \<Rightarrow> bool" where
  "waits_in mine (LookedUp i) = (i \<in> set mine)"
| "waits_in mine (Selecting i e) = (i \<in> set mine)"
| "waits_in mine Returned = False"

definition new_desk :: "int \<Rightarrow> desk" where
  "new_desk timeout = \<lparr>dk_world = new_approval_world timeout, dk_turn = None\<rparr>"

definition act :: "approval_action \<Rightarrow> desk \<Rightarrow> desk option" where
  "act a d = map_option (\<lambda>w. d\<lparr>dk_world := w\<rparr>) (approval_fire a (dk_world d))"

fun desk_fire :: "desk_action \<Rightarrow> desk \<Rightarrow> desk option" where
  "desk_fire StartTurn d = (case dk_turn d of None \<Rightarrow> Some (d\<lparr>dk_turn := Some []\<rparr>) | Some _ \<Rightarrow> None)"
| "desk_fire EndTurn d =
     (case dk_turn d of
        None \<Rightarrow> None
      | Some mine \<Rightarrow> if list_ex (waits_in mine) (aw_waiters (dk_world d)) then None else Some (d\<lparr>dk_turn := None\<rparr>))"
| "desk_fire (Act a) d =
     (case a of
        AApprove i \<Rightarrow> if dk_turn d = None then act a d else None
      | AReject i \<Rightarrow> if dk_turn d = None then act a d else None
      | ACreate i now ev dec \<Rightarrow>
          (case dk_turn d of None \<Rightarrow> None | Some mine \<Rightarrow> act a (d\<lparr>dk_turn := Some (i # mine)\<rparr>))
      | AWait i \<Rightarrow> (case dk_turn d of None \<Rightarrow> None | Some mine \<Rightarrow> if i \<in> set mine then act a d else None)
      | _ \<Rightarrow> act a d)"
| "desk_fire (Direct a) d = act a d"

fun desk_run :: "desk_action list \<Rightarrow> desk \<Rightarrow> desk option" where
  "desk_run [] d = Some d"
| "desk_run (a # as) d = (case desk_fire a d of None \<Rightarrow> None | Some d' \<Rightarrow> desk_run as d')"

fun over_the_bus :: "desk_action \<Rightarrow> bool" where
  "over_the_bus (Direct a) = False"
| "over_the_bus _ = True"

text \<open>The calls that still wait, each with its request.\<close>

definition waits_for :: "approval_world \<Rightarrow> string set" where
  "waits_for w = {i. \<exists>x \<in> set (aw_waiters w). x = LookedUp i \<or> (\<exists>e. x = Selecting i e)}"

definition desk_inv :: "desk \<Rightarrow> bool" where
  "desk_inv d \<longleftrightarrow> approval_inv (dk_world d) \<and> (\<forall>i b. WaitReturned i (WaitAnswer b) \<notin> set (aw_log (dk_world d)))
     \<and> (case dk_turn d of
          None \<Rightarrow> waits_for (dk_world d) = {}
        | Some mine \<Rightarrow> waits_for (dk_world d) \<subseteq> set mine \<and> (\<forall>i \<in> set mine. answers_of i (aw_log (dk_world d)) = []))"


lemma waits_finish: "waits_for (finish_wait k i res w) \<subseteq> waits_for w"
  by (auto simp: waits_for_def finish_wait_def log_event_def dest!: set_update_subset_insert [THEN subsetD])

lemma waits_manager [simp]: "waits_for (w\<lparr>aw_manager := m\<rparr>) = waits_for w"
  by (simp add: waits_for_def)

lemma waits_log [simp]: "waits_for (log_event e w) = waits_for w"
  by (simp add: waits_for_def log_event_def)

lemma waits_new [simp]:
  "waits_for (w\<lparr>aw_waiters := aw_waiters w @ [LookedUp i]\<rparr>) = insert i (waits_for w)"
  "waits_for (w\<lparr>aw_waiters := aw_waiters w @ [Returned]\<rparr>) = waits_for w"
  by (auto simp: waits_for_def)

lemma respond_effect:
  "waits_for (respond_step b i w) = waits_for w"
  "WaitReturned j res \<in> set (aw_log (respond_step b i w)) \<longleftrightarrow> WaitReturned j res \<in> set (aw_log w)"
  by (auto simp: respond_step_def Let_def log_event_def waits_for_def split: prod.split)

lemma waits_waiter: "waiter_at w k = LookedUp i \<or> waiter_at w k = Selecting i e \<Longrightarrow> i \<in> waits_for w"
  unfolding waits_for_def waiter_at_def by (auto split: if_splits) (metis nth_mem)+

lemma answers_finish [simp]: "answers_of i (aw_log (finish_wait k j res w)) = answers_of i (aw_log w)"
  by (simp add: finish_wait_def log_event_def)

lemma log_finish: "WaitReturned i (WaitAnswer b) \<in> set (aw_log (finish_wait k j res w)) \<longleftrightarrow>
    WaitReturned i (WaitAnswer b) \<in> set (aw_log w) \<or> (i = j \<and> res = WaitAnswer b)"
  by (auto simp: finish_wait_def log_event_def)

text \<open>The steps that a waiting call, the cleanup and the readers of the queue take by themselves.\<close>

definition own_step :: "approval_action \<Rightarrow> bool" where
  "own_step a \<longleftrightarrow> (case a of ACreate i now ev d \<Rightarrow> False | AApprove i \<Rightarrow> False | AReject i \<Rightarrow> False | AWait i \<Rightarrow> False | _ \<Rightarrow> True)"

lemma own_step_effect:
  assumes "approval_fire a w = Some w'" and "own_step a" and "approval_inv w"
    and unanswered: "\<forall>i \<in> waits_for w. answers_of i (aw_log w) = []"
  shows "waits_for w' \<subseteq> waits_for w \<and> (\<forall>i. answers_of i (aw_log w') = answers_of i (aw_log w))
    \<and> (\<forall>i b. WaitReturned i (WaitAnswer b) \<in> set (aw_log w') \<longrightarrow> WaitReturned i (WaitAnswer b) \<in> set (aw_log w))"
proof (cases a)
  case (ALookup k)
  show ?thesis
  proof (cases "waiter_at w k")
    case (LookedUp i)
    then have *: "waits_for (w\<lparr>aw_waiters := (aw_waiters w)[k := Selecting i e]\<rparr>) \<subseteq> waits_for w" for e
      using waits_waiter [of w k i] by (auto simp: waits_for_def dest!: set_update_subset_insert [THEN subsetD])
    show ?thesis using assms(1) ALookup LookedUp
      by (auto simp: log_finish split: option.splits dest!: subsetD [OF *] waits_finish [THEN subsetD])
  qed (use assms(1) ALookup in simp_all)
next
  case (AReceive k)
  then obtain i e c where s: "waiter_at w k = Selecting i e" "mget (am_chans (aw_manager w)) i = Some c"
    using assms(1) by (auto split: waiter.splits option.splits)
  have "request_inv i (aw_manager w) (aw_log w)" using assms(3) by (simp add: approval_inv_def)
  moreover have "answers_of i (aw_log w) = []" using unanswered waits_waiter [of w k i e] s(1) by simp
  ultimately have "an_buffer c = None" using s(2) by (auto simp: request_inv_def buffered_def split: option.splits)
  then show ?thesis using assms(1) AReceive s
    by (auto simp: log_finish split: if_splits dest!: waits_finish [THEN subsetD])
next
  case (ATimer k now)
  then show ?thesis using assms(1) waits_finish [THEN subset_trans]
    by (auto simp: log_finish Let_def split: waiter.splits if_splits dest!: waits_finish [THEN subsetD])
next
  case (ACancel k)
  then show ?thesis using assms(1) by (auto simp: log_finish split: waiter.splits dest!: waits_finish [THEN subsetD])
qed (use assms in \<open>auto simp: own_step_def split: list.splits\<close>)

lemma waits_ended:
  "waits_for w \<subseteq> set mine \<Longrightarrow> \<not> list_ex (waits_in mine) (aw_waiters w) \<Longrightarrow> waits_for w = {}"
proof -
  assume a: "waits_for w \<subseteq> set mine" "\<not> list_ex (waits_in mine) (aw_waiters w)"
  have "i \<notin> waits_for w" for i
  proof
    assume i: "i \<in> waits_for w"
    then obtain x where "x \<in> set (aw_waiters w)" "x = LookedUp i \<or> (\<exists>e. x = Selecting i e)" by (auto simp: waits_for_def)
    moreover have "i \<in> set mine" using i a(1) by blast
    ultimately show False using a(2) by (auto simp: list_ex_iff)
  qed
  then show ?thesis by blast
qed

lemma desk_inv_fire: "desk_inv d \<Longrightarrow> over_the_bus x \<Longrightarrow> desk_fire x d = Some d' \<Longrightarrow> desk_inv d'"
proof (cases x)
  case StartTurn
  then show "desk_inv d \<Longrightarrow> desk_fire x d = Some d' \<Longrightarrow> desk_inv d'" by (auto simp: desk_inv_def split: option.splits)
next
  case EndTurn
  then show "desk_inv d \<Longrightarrow> desk_fire x d = Some d' \<Longrightarrow> desk_inv d'"
    by (auto simp: desk_inv_def waits_ended split: option.splits if_splits)
next
  case (Act a)
  assume inv: "desk_inv d" and fire: "desk_fire x d = Some d'"
  show "desk_inv d'"
  proof (cases "own_step a")
    case True
    then have "act a d = Some d'" using fire Act by (cases a) (simp_all add: own_step_def)
    then obtain w' where w': "approval_fire a (dk_world d) = Some w'" "d' = d\<lparr>dk_world := w'\<rparr>" by (auto simp: act_def)
    have "\<forall>i \<in> waits_for (dk_world d). answers_of i (aw_log (dk_world d)) = []"
      using inv by (auto simp: desk_inv_def split: option.splits)
    then have e: "waits_for w' \<subseteq> waits_for (dk_world d)" "\<forall>i. answers_of i (aw_log w') = answers_of i (aw_log (dk_world d))"
      "\<forall>i b. WaitReturned i (WaitAnswer b) \<in> set (aw_log w') \<longrightarrow> WaitReturned i (WaitAnswer b) \<in> set (aw_log (dk_world d))"
      using own_step_effect [OF w'(1) True] inv by (auto simp: desk_inv_def)
    show ?thesis using inv e w'(2) approval_inv_fire [OF _ w'(1)] by (auto simp: desk_inv_def split: option.splits)
  next
    case False
    then show ?thesis
    proof (cases a)
      case (ACreate i now ev dec)
      then obtain mine where m: "dk_turn d = Some mine" "act a (d\<lparr>dk_turn := Some (i # mine)\<rparr>) = Some d'"
        using fire Act by (auto split: option.splits)
      then obtain w' where w': "approval_fire a (dk_world d) = Some w'" "d' = d\<lparr>dk_turn := Some (i # mine), dk_world := w'\<rparr>"
        by (auto simp: act_def)
      have new: "Created i \<notin> set (aw_log (dk_world d))" using w'(1) ACreate by (auto split: if_splits)
      have "answers_of i (aw_log (dk_world d)) = []"
        using inv new by (auto simp: desk_inv_def approval_inv_def request_inv_def)
      moreover have "w' = log_event (Created i) ((dk_world d)\<lparr>aw_manager := fst (create_request i now ev dec (aw_manager (dk_world d)))\<rparr>)"
        using w'(1) ACreate by (auto split: if_splits)
      moreover have "aw_log (log_event e w) = aw_log w @ [e]" for e w by (simp add: log_event_def)
      ultimately show ?thesis using inv m(1) w'(2) approval_inv_fire [OF _ w'(1)]
        by (auto simp: desk_inv_def)
    next
      case (AWait i)
      then obtain mine where m: "dk_turn d = Some mine" "i \<in> set mine" "act a d = Some d'"
        using fire Act by (auto split: option.splits if_splits)
      then obtain w' where w': "approval_fire a (dk_world d) = Some w'" "d' = d\<lparr>dk_world := w'\<rparr>" by (auto simp: act_def)
      have l: "aw_log (log_event e w) = aw_log w @ [e]" for e w by (simp add: log_event_def)
      show ?thesis
      proof (cases "mget (am_responses (aw_manager (dk_world d))) i")
        case None
        then show ?thesis using inv m w' AWait approval_inv_fire [OF _ w'(1)] by (auto simp: desk_inv_def l)
      next
        case (Some u)
        then show ?thesis using inv m w' AWait approval_inv_fire [OF _ w'(1)] by (auto simp: desk_inv_def)
      qed
    next
      case (AApprove i)
      then have m: "dk_turn d = None" "act a d = Some d'" using fire Act by (auto split: if_splits)
      then obtain w' where w': "approval_fire a (dk_world d) = Some w'" "d' = d\<lparr>dk_world := w'\<rparr>" by (auto simp: act_def)
      show ?thesis using inv m w' AApprove approval_inv_fire [OF _ w'(1)] by (auto simp: desk_inv_def respond_effect)
    next
      case (AReject i)
      then have m: "dk_turn d = None" "act a d = Some d'" using fire Act by (auto split: if_splits)
      then obtain w' where w': "approval_fire a (dk_world d) = Some w'" "d' = d\<lparr>dk_world := w'\<rparr>" by (auto simp: act_def)
      show ?thesis using inv m w' AReject approval_inv_fire [OF _ w'(1)] by (auto simp: desk_inv_def respond_effect)
    qed (simp_all add: own_step_def)
  qed
qed simp

lemma desk_inv_run: "desk_inv d \<Longrightarrow> list_all over_the_bus as \<Longrightarrow> desk_run as d = Some d' \<Longrightarrow> desk_inv d'"
  by (induction as arbitrary: d) (auto split: option.splits dest: desk_inv_fire)

lemma desk_inv_new: "desk_inv (new_desk timeout)"
  using inv_new [of timeout] by (simp add: desk_inv_def new_desk_def waits_for_def new_approval_world_def)

text \<open>
  As long as every message comes in through the bus, an approval that is given in a chat message never
  reaches the call that waits for it: in no run of the loop does a waiting call return with an answer, of
  either kind. The answer is a message of the queue behind the turn that waits, and the turn goes on
  only when its request has expired.
\<close>

theorem chat_approval_never_arrives:
  assumes "list_all over_the_bus as"
  shows "case desk_run as (new_desk timeout) of
     None \<Rightarrow> True
   | Some d \<Rightarrow> WaitReturned i (WaitAnswer b) \<notin> set (aw_log (dk_world d))"
  using desk_inv_run [OF desk_inv_new assms, of timeout] by (auto simp: desk_inv_def split: option.split)

text \<open>A run that asks, expires, goes on, and then meets the approval.\<close>

definition late_answer :: "desk_action list" where
  "late_answer =
     [StartTurn, Act (ACreate ''r1'' 0 (call_event sample_call)
        \<lparr>sd_action = ActionBlock, sd_scope = ScopeToolCall,
        sd_threat_id = ''T1'', sd_fingerprint = [], sd_matched_on = [], sd_match_value = [], sd_reason = ''blocked''\<rparr>),
      Act (AWait ''r1''), Act (ALookup 0), Act (ATimer 0 300), EndTurn, Act (AApprove ''r1'')]"

theorem chat_approval_never_arrives_witness:
  "case desk_run late_answer (new_desk 300) of
     None \<Rightarrow> False
   | Some d \<Rightarrow> WaitReturned ''r1'' (WaitAnswer True) \<notin> set (aw_log (dk_world d))
       \<and> aw_log (dk_world d) = [Created ''r1'', WaitReturned ''r1'' WaitExpired]"
proof -
  have "list_all over_the_bus late_answer" by code_simp
  note chat_approval_never_arrives [OF this, where timeout = 300 and i = "''r1''" and b = True]
  moreover have "map_option (\<lambda>d. aw_log (dk_world d)) (desk_run late_answer (new_desk 300)) = Some [Created ''r1'', WaitReturned ''r1'' WaitExpired]"
    by code_simp
  ultimately show ?thesis by (auto split: option.splits)
qed

text \<open>The same call gets its answer when it is given in a browser, whose message the loop does not wait for.\<close>

definition browser_answer :: "desk_action list" where
  "browser_answer =
     [StartTurn, Act (ACreate ''r1'' 0 (call_event sample_call)
        \<lparr>sd_action = ActionBlock, sd_scope = ScopeToolCall,
        sd_threat_id = ''T1'', sd_fingerprint = [], sd_matched_on = [], sd_match_value = [], sd_reason = ''blocked''\<rparr>),
      Act (AWait ''r1''), Act (ALookup 0), Direct (AApprove ''r1''), Act (AReceive 0), EndTurn]"

lemma browser_answer_arrives:
  "map_option (\<lambda>d. WaitReturned ''r1'' (WaitAnswer True) \<in> set (aw_log (dk_world d))) (desk_run browser_answer (new_desk 300)) = Some True"
  by code_simp

end
