(* ===== verification/Summaries.thy ===== *)
theory Summaries
  imports AgentTurn
begin

text \<open>
  Summaries of long conversations (\<open>pkg/agent/loop.go\<close>): when a summary is due, what is sent to the
  provider for it, and what becomes of the session. A summary runs in a goroutine of its own: what
  other turns do to the sessions between its first reading and its last writing is a parameter. A
  count of runes is the length of the text (ASCII). The answers of the provider are given per call
  and attempt.
\<close>

section \<open>Asking for a summary\<close>

text \<open>The attempts of one call: an error, or the content of the response.\<close>

type_synonym summary_answers = "nat \<Rightarrow> string \<Rightarrow> go_error + string"

text \<open>\<open>i\<close>: attempts made; the answer of the last attempt is returned when none is usable.\<close>

fun retry_llm_call :: "summary_answers \<Rightarrow> nat \<Rightarrow> nat \<Rightarrow> string \<Rightarrow> go_error + string" where
  "retry_llm_call answers i 0 prompt = answers (i - 1) prompt"
| "retry_llm_call answers i (Suc left) prompt =
     (case answers i prompt of
        Inr content \<Rightarrow> if content \<noteq> [] then Inr content else retry_llm_call answers (Suc i) left prompt
      | Inl _ \<Rightarrow> retry_llm_call answers (Suc i) left prompt)"

definition llm_max_retries :: nat where
  "llm_max_retries = 3"

definition batch_prompt :: "chat_message list \<Rightarrow> string \<Rightarrow> string" where
  "batch_prompt batch existing =
     ''Provide a concise summary of this conversation segment, preserving core context and key points.'' @ [newline] @
     (if existing \<noteq> [] then ''Existing context: '' @ existing @ [newline] else []) @
     [newline] @ ''CONVERSATION:'' @ [newline] @
     concat (map (\<lambda>m. cm_role m @ '': '' @ cm_content m @ [newline]) batch)"

definition fallback_part :: "chat_message \<Rightarrow> string" where
  "fallback_part m =
     (let content = trim_space (cm_content m); n = length content;
          keep = min n (max 200 (n * 10 div 100)) in
      if n = 0 then cm_role m @ '': ''
      else cm_role m @ '': '' @ take keep content @ (if keep < n then ''...'' else []))"

definition fallback_summary :: "chat_message list \<Rightarrow> string" where
  "fallback_summary batch = ''Conversation summary: '' @ join_with '' | '' (map fallback_part batch)"

definition summarize_batch :: "summary_answers \<Rightarrow> chat_message list \<Rightarrow> string \<Rightarrow> string" where
  "summarize_batch answers batch existing =
     (case retry_llm_call answers 0 llm_max_retries (batch_prompt batch existing) of
        Inr content \<Rightarrow> if content \<noteq> [] then trim_space content else fallback_summary batch
      | Inl _ \<Rightarrow> fallback_summary batch)"

section \<open>Where to split\<close>

fun back_to_user :: "chat_message list \<Rightarrow> nat \<Rightarrow> nat" where
  "back_to_user xs 0 = 0"
| "back_to_user xs (Suc n) = (if cm_role (xs ! Suc n) \<noteq> ''user'' then back_to_user xs n else Suc n)"

definition forward_to_user :: "chat_message list \<Rightarrow> nat \<Rightarrow> nat" where
  "forward_to_user xs mid = mid + length (takeWhile (\<lambda>m. cm_role m \<noteq> ''user'') (drop mid xs))"

definition find_nearest_user_message :: "chat_message list \<Rightarrow> nat \<Rightarrow> nat" where
  "find_nearest_user_message xs mid =
     (let b = back_to_user xs mid in
      if cm_role (xs ! b) = ''user'' then b
      else (let f = forward_to_user xs mid in if f < length xs then f else mid))"

section \<open>The summary of a session\<close>

definition max_summarization_messages :: nat where
  "max_summarization_messages = 10"

definition kept_messages :: nat where
  "kept_messages = 4"

definition summarizable :: "nat \<Rightarrow> chat_message \<Rightarrow> bool" where
  "summarizable context_window m \<longleftrightarrow>
     (cm_role m = ''user'' \<or> cm_role m = ''assistant'') \<and> \<not> length (cm_content m) div 2 > context_window div 2"

definition oversized :: "nat \<Rightarrow> chat_message \<Rightarrow> bool" where
  "oversized context_window m \<longleftrightarrow>
     (cm_role m = ''user'' \<or> cm_role m = ''assistant'') \<and> length (cm_content m) div 2 > context_window div 2"

definition merge_prompt :: "string \<Rightarrow> string \<Rightarrow> string" where
  "merge_prompt s1 s2 =
     ''Merge these two conversation summaries into one cohesive summary:'' @ [newline, newline] @
     ''1: '' @ s1 @ [newline, newline] @ ''2: '' @ s2"

definition omitted_note :: string where
  "omitted_note = newline # ''[Note: Some oversized messages were omitted from this summary for efficiency.]''"

text \<open>The new summary of a conversation, empty when there is none. Calls are numbered in order.\<close>

definition session_summary :: "(nat \<Rightarrow> summary_answers) \<Rightarrow> nat \<Rightarrow> chat_message list \<Rightarrow> string \<Rightarrow> string" where
  "session_summary answers context_window history summary =
     (if length history \<le> kept_messages then []
      else
        (let to_summarize = take (length history - kept_messages) history;
             valid = filter (summarizable context_window) to_summarize;
             omitted = list_ex (oversized context_window) to_summarize in
         if valid = [] then []
         else
           (let final =
              (if length valid > max_summarization_messages then
                 (let mid = find_nearest_user_message valid (length valid div 2);
                      s1 = summarize_batch (answers 0) (take mid valid) [];
                      s2 = summarize_batch (answers 1) (drop mid valid) []
                  in case retry_llm_call (answers 2) 0 llm_max_retries (merge_prompt s1 s2) of
                       Inr content \<Rightarrow> if content \<noteq> [] then content else s1 @ '' '' @ s2
                     | Inl _ \<Rightarrow> s1 @ '' '' @ s2)
               else summarize_batch (answers 0) valid summary)
            in if omitted \<and> final \<noteq> [] then final @ omitted_note else final)))"

text \<open>\<open>others\<close>: what happens to the sessions between the reading and the writing.\<close>

definition summarize_session ::
    "(nat \<Rightarrow> summary_answers) \<Rightarrow> nat \<Rightarrow> string \<Rightarrow> int \<Rightarrow> bool \<Rightarrow>
     (chat_message session_manager \<Rightarrow> chat_message session_manager) \<Rightarrow> chat_message session_manager \<Rightarrow> chat_message session_manager" where
  "summarize_session answers context_window key now save others sm =
     (let final = session_summary answers context_window (get_history sm key) (get_summary sm key);
          sm1 = others sm in
      if final \<noteq> []
      then fst (save_session save key (truncate_history now key (int kept_messages) (set_summary now key final sm1)))
      else sm1)"

section \<open>When a summary is due\<close>

definition estimate_tokens :: "chat_message list \<Rightarrow> nat" where
  "estimate_tokens xs = sum_list (map (length \<circ> cm_content) xs) * 2 div 5"

record summary_config =
  su_agent_id :: string
  su_context_window :: nat
  su_token_percent :: nat
  su_message_threshold :: nat

text \<open>
  The keys of running summaries are \<open>sync.Map\<close> entries; \<open>True\<close>: a goroutine is started. With a
  compactor the estimate and the threshold of the token count are the compactor's.
\<close>

definition start_once :: "bool \<Rightarrow> string \<Rightarrow> string set \<Rightarrow> bool \<times> string set" where
  "start_once due k running = (if due \<and> k \<notin> running then (True, insert k running) else (False, running))"

definition maybe_summarize :: "summary_config \<Rightarrow> string \<Rightarrow> chat_message session_manager \<Rightarrow> string set \<Rightarrow> bool \<times> string set" where
  "maybe_summarize cfg key sm running =
     (let h = get_history sm key;
          threshold = su_context_window cfg * su_token_percent cfg div 100 in
      start_once (length h > su_message_threshold cfg \<or> estimate_tokens h > threshold) (su_agent_id cfg @ '':'' @ key) running)"

text \<open>
  The compaction pipeline in its goroutine: the answer of the compactor for the history that was
  read, \<open>others\<close> as above.
\<close>

definition compact_session ::
    "(chat_message list \<Rightarrow> compact_answer) \<Rightarrow> string \<Rightarrow> int \<Rightarrow> bool \<Rightarrow>
     (chat_message session_manager \<Rightarrow> chat_message session_manager) \<Rightarrow> chat_message session_manager \<Rightarrow> chat_message session_manager" where
  "compact_session compactor key now save others sm =
     (let h = get_history sm key in
      case compactor h of
        Compacted kept l2 \<Rightarrow> apply_compaction now save key h kept l2 (others sm)
      | _ \<Rightarrow> others sm)"

fun get_tier :: "nat \<Rightarrow> string \<times> string \<times> string \<Rightarrow> string" where
  "get_tier tier (l0, l1, l2) = (if tier = 0 then l0 else if tier = 1 then l1 else l2)"

definition select_tier :: "nat \<Rightarrow> nat" where
  "select_tier history_len = (if history_len > 40 then 0 else if history_len > 20 then 1 else 2)"

text \<open>\<open>None\<close>: nothing is stored, or the store cannot be read.\<close>

definition get_tiered_summary :: "(string \<times> string \<times> string) option \<Rightarrow> nat \<Rightarrow> string" where
  "get_tiered_summary stored history_len =
     (case stored of None \<Rightarrow> [] | Some tiers \<Rightarrow> get_tier (select_tier history_len) tiers)"

section \<open>Lemmas\<close>

lemma back_to_user_le: "back_to_user xs mid \<le> mid"
  by (induction mid) auto

lemma back_to_user_last:
  "n \<le> mid \<Longrightarrow> cm_role (xs ! n) = ''user'' \<Longrightarrow> n \<le> back_to_user xs mid \<and> cm_role (xs ! back_to_user xs mid) = ''user''"
proof (induction mid)
  case (Suc mid)
  show ?case
  proof (cases "cm_role (xs ! Suc mid) = ''user''")
    case True
    then have "back_to_user xs (Suc mid) = Suc mid" by simp
    with True Suc.prems show ?thesis by simp
  next
    case False
    then have "n \<noteq> Suc mid" using Suc.prems(2) by metis
    then have "n \<le> mid" using Suc.prems(1) by simp
    moreover have "back_to_user xs (Suc mid) = back_to_user xs mid" using False by simp
    ultimately show ?thesis using Suc by simp
  qed
qed simp

lemma back_to_user_none:
  "cm_role (xs ! back_to_user xs mid) \<noteq> ''user'' \<Longrightarrow> n \<le> mid \<Longrightarrow> cm_role (xs ! n) \<noteq> ''user''"
  by (metis back_to_user_last)

text \<open>The split falls on a user message whenever there is one, and on the nearest before the middle if any.\<close>

lemma nearest_user_message:
  assumes "mid < length xs" and "\<exists>m \<in> set xs. cm_role m = ''user''"
  shows "find_nearest_user_message xs mid < length xs
    \<and> cm_role (xs ! find_nearest_user_message xs mid) = ''user''
    \<and> (\<forall>n \<le> mid. cm_role (xs ! n) = ''user'' \<longrightarrow> n \<le> find_nearest_user_message xs mid \<and> find_nearest_user_message xs mid \<le> mid)"
proof (cases "cm_role (xs ! back_to_user xs mid) = ''user''")
  case True
  then have eq: "find_nearest_user_message xs mid = back_to_user xs mid" by (simp add: find_nearest_user_message_def)
  have "back_to_user xs mid \<le> mid" by (rule back_to_user_le)
  then show ?thesis unfolding eq using True back_to_user_last assms(1) by (meson le_less_trans)
next
  case False
  let ?P = "\<lambda>m. cm_role m \<noteq> ''user''" and ?f = "forward_to_user xs mid"
  obtain n where n: "n < length xs" "cm_role (xs ! n) = ''user''" using assms(2) by (metis in_set_conv_nth)
  have none: "k \<le> mid \<Longrightarrow> cm_role (xs ! k) \<noteq> ''user''" for k using back_to_user_none [OF False] by blast
  have lt: "mid < n" using none n(2) not_le by blast
  have "n - mid < length (drop mid xs)" using n(1) lt by simp
  then have "drop mid xs ! (n - mid) \<in> set (drop mid xs)" by (rule nth_mem)
  moreover have "drop mid xs ! (n - mid) = xs ! n" using n(1) lt by simp
  ultimately have "xs ! n \<in> set (drop mid xs)" by (simp only:)
  then have "dropWhile ?P (drop mid xs) \<noteq> []" using n(2) by (auto simp only: dropWhile_eq_Nil_conv)
  moreover have "length (drop mid xs) = length (takeWhile ?P (drop mid xs)) + length (dropWhile ?P (drop mid xs))"
    by (metis length_append takeWhile_dropWhile_id)
  ultimately have l: "length (takeWhile ?P (drop mid xs)) < length (drop mid xs)" by (metis length_greater_0_conv less_add_same_cancel1)
  then have "cm_role (drop mid xs ! length (takeWhile ?P (drop mid xs))) = ''user''" using nth_length_takeWhile by blast
  then have "cm_role (xs ! ?f) = ''user''" "?f < length xs" using l assms(1) by (simp_all add: forward_to_user_def)
  then show ?thesis using False none by (simp add: find_nearest_user_message_def Let_def)
qed

lemma get_history_truncate:
  "get_history (truncate_history now k n sm) k' = (if k = k' then truncate_list n (get_history sm k') else get_history sm k')"
  by (auto simp: get_history_def truncate_history_def truncate_list_cases split: option.split)

lemma get_summary_set [simp]:
  "get_summary (set_summary now k s sm) k' = (if k = k' \<and> mget (sm_sessions sm) k \<noteq> None then s else get_summary sm k')"
  by (auto simp: set_summary_def get_summary_def split: option.split)

lemma get_summary_truncate [simp]: "get_summary (truncate_history now k n sm) k' = get_summary sm k'"
  by (auto simp: get_summary_def truncate_history_def split: option.split)

lemma get_summary_save [simp]: "get_summary (fst (save_session io k sm)) k' = get_summary sm k'"
  by (simp add: save_session_def get_summary_def Let_def split: option.split)

lemma session_summary_prefix:
  "length h > kept_messages \<Longrightarrow> length t = kept_messages \<Longrightarrow>
     session_summary answers w (take (length h - kept_messages) h @ t) s = session_summary answers w h s"
  by (simp add: session_summary_def)

section \<open>Properties\<close>

text \<open>
  A summary that is split in two parts never reads the previous summary, which it replaces: what
  was summarised before and is no longer in the history is forgotten.
\<close>

theorem long_summary_forgets_previous:
  assumes "length (filter (summarizable w) (take (length h - kept_messages) h)) > max_summarization_messages"
  shows "session_summary answers w h old = session_summary answers w h []"
  using assms by (simp add: session_summary_def Let_def)

theorem long_summary_forgets_previous_witness:
  "session_summary (\<lambda>c i p. Inr ''short'') 1000 (replicate 15 (text_message ''user'' ''hi'')) ''the name is Ada'' =
   session_summary (\<lambda>c i p. Inr ''short'') 1000 (replicate 15 (text_message ''user'' ''hi'')) []"
proof (rule long_summary_forgets_previous)
  have "summarizable 1000 (text_message ''user'' ''hi'')" by code_simp
  then show "length (filter (summarizable 1000) (take (length (replicate 15 (text_message ''user'' ''hi'')) - kept_messages)
      (replicate 15 (text_message ''user'' ''hi'')))) > max_summarization_messages"
    by (simp add: kept_messages_def max_summarization_messages_def)
qed

text \<open>
  C39: Messages that arrive while a summary is made are cut off with the rest: the history is reduced
  to its newest four messages, but the summary covers only what was older than the newest four at the
  start. Everything in between is lost.
\<close>

theorem summary_loses_new_messages:
  assumes "mget (sm_sessions sm) key = Some s" and "length (ss_messages s) > kept_messages"
    and "session_summary answers w (ss_messages s) (ss_summary s) \<noteq> []"
    and "get_history (others sm) key = ss_messages s @ new" and "mget (sm_sessions (others sm)) key \<noteq> None"
    and "length t = kept_messages"
  shows "get_history (summarize_session answers w key now save others sm) key = keep_last kept_messages (ss_messages s @ new)
    \<and> get_summary (summarize_session answers w key now save others sm) key =
        session_summary answers w (take (length (ss_messages s) - kept_messages) (ss_messages s) @ t) (ss_summary s)"
proof -
  have h: "get_history sm key = ss_messages s" "get_summary sm key = ss_summary s"
    using assms(1) by (simp_all add: get_history_def get_summary_def)
  show ?thesis using assms session_summary_prefix [OF assms(2,6)]
    by (simp add: summarize_session_def Let_def h get_history_truncate truncate_list_def)
qed

definition sample_sessions :: "nat \<Rightarrow> chat_message session_manager" where
  "sample_sessions n =
     fold (add_full_message 1 ''k'') (map (\<lambda>i. text_message ''user'' (show_nat i)) [0..<n]) (new_session_manager_at False [])"

definition add_later :: "chat_message session_manager \<Rightarrow> chat_message session_manager" where
  "add_later sm = fold (add_full_message 2 ''k'') (map (\<lambda>i. text_message ''user'' (''new '' @ show_nat i)) [0..<5]) sm"

lemma sample_present: "mget (sm_sessions (add_later (sample_sessions 6))) ''k'' \<noteq> None"
proof -
  have "map_option (\<lambda>s. ()) (mget (sm_sessions (add_later (sample_sessions 6))) ''k'') = Some ()" by code_simp
  then show ?thesis by auto
qed

theorem summary_loses_new_messages_witness:
  "map cm_content (get_history (summarize_session (\<lambda>c i p. Inr ''short'') 1000 ''k'' 3 True add_later (sample_sessions 6)) ''k'') =
     [''new 1'', ''new 2'', ''new 3'', ''new 4'']"
proof -
  obtain s where s: "mget (sm_sessions (sample_sessions 6)) ''k'' = Some s" "ss_messages s = map (\<lambda>i. text_message ''user'' (show_nat i)) [0..<6]"
    "ss_summary s = []"
  proof -
    have "map_option (\<lambda>s. (ss_messages s, ss_summary s)) (mget (sm_sessions (sample_sessions 6)) ''k'') =
        Some (map (\<lambda>i. text_message ''user'' (show_nat i)) [0..<6], [])"
      by code_simp
    then show thesis using that by auto
  qed
  have p: "length (ss_messages s) > kept_messages" unfolding s(2) by (simp add: kept_messages_def)
  have n: "session_summary (\<lambda>c i p. Inr ''short'') 1000 (ss_messages s) (ss_summary s) \<noteq> []" unfolding s(2,3) by code_simp
  have o': "get_history (add_later (sample_sessions 6)) ''k'' = ss_messages s @ map (\<lambda>i. text_message ''user'' (''new '' @ show_nat i)) [0..<5]"
    unfolding s(2) by code_simp
  have e: "mget (sm_sessions (add_later (sample_sessions 6))) ''k'' \<noteq> None"
    by (rule sample_present)
  have t: "length (replicate kept_messages (text_message ''user'' [])) = kept_messages" by simp
  show ?thesis
    unfolding conjunct1 [OF summary_loses_new_messages [where others = add_later, OF s(1) p n o' e t, of 3 True]] s(2) by code_simp
qed

text \<open>
  A compaction writes back the tail of the history it has read: messages that were stored
  meanwhile are gone, and with an empty summary the older messages are gone without any trace.
\<close>

theorem compaction_loses_new_messages:
  assumes "compactor (get_history sm key) = Compacted kept l2" and "kept > 0" and "kept < int (length (get_history sm key))"
    and "mget (sm_sessions (others sm)) key \<noteq> None"
  shows "get_history (compact_session compactor key now save others sm) key = keep_last (nat kept) (get_history sm key)
    \<and> get_summary (compact_session compactor key now save others sm) key = (if l2 = [] then get_summary (others sm) key else l2)"
proof -
  have s: "get_summary (set_history now key x m) k = get_summary m k" for x m k
    by (auto simp: get_summary_def set_history_def split: option.split)
  have m: "mget (sm_sessions (set_history now key x m)) key \<noteq> None \<longleftrightarrow> mget (sm_sessions m) key \<noteq> None" for x m
    by (auto simp: set_history_def split: option.split)
  show ?thesis using assms m [of _ "others sm"] by (auto simp: compact_session_def apply_compaction_def Let_def s)
qed
theorem compaction_loses_new_messages_witness:
  "map cm_content (get_history (compact_session (\<lambda>h. Compacted 2 []) ''k'' 3 True add_later (sample_sessions 6)) ''k'') = [''4'', ''5'']"
proof -
  have e: "mget (sm_sessions (add_later (sample_sessions 6))) ''k'' \<noteq> None"
    by (rule sample_present)
  have l: "2 < int (length (get_history (sample_sessions 6) ''k''))" by code_simp
  have k: "map cm_content (keep_last (nat 2) (get_history (sample_sessions 6) ''k'')) = [''4'', ''5'']" by code_simp
  show ?thesis
    using compaction_loses_new_messages [where others = add_later and compactor = "\<lambda>h. Compacted 2 []" and now = 3 and save = True
        and key = "''k''", OF refl _ l e] k by simp
qed

end
