(* ===== verification/GoFloat.thy ===== *)
theory GoFloat
  imports Complex_Main "HOL-Library.Log_Nat"
begin

text \<open>
  Go's float64 arithmetic on finite values: an operation is the exact result, rounded to 53 bits of
  mantissa, to the nearest with ties to even, and to multiples of \<open>2 ^ -1074\<close> for small values. A
  float is the rational that it stands for. Overflow to infinity, division by zero and the sign of
  zero are not represented; the modelled code stays far below \<open>2 ^ 1023\<close>.
\<close>

type_synonym float64 = rat

definition round_even :: "rat \<Rightarrow> int" where
  "round_even y =
     (let f = \<lfloor>y\<rfloor>; d = y - of_int f
      in if d < 1 / 2 then f else if d > 1 / 2 then f + 1 else if even f then f else f + 1)"

text \<open>The \<open>e\<close> with \<open>2 ^ e \<le> x < 2 ^ (e + 1)\<close>.\<close>

definition exponent_of :: "rat \<Rightarrow> int" where
  "exponent_of x = (case quotient_of x of (p, q) \<Rightarrow>
     (let b = bitlen p - bitlen q in if 2 powi b \<le> x then b else b - 1))"

definition unit_of :: "rat \<Rightarrow> rat" where
  "unit_of x = 2 powi (max (exponent_of x - 52) (- 1074))"

definition round_pos :: "rat \<Rightarrow> float64" where
  "round_pos x = of_int (round_even (x / unit_of x)) * unit_of x"

definition fl :: "rat \<Rightarrow> float64" where
  "fl x = (if x = 0 then 0 else if x < 0 then - round_pos (- x) else round_pos x)"

abbreviation (input) fadd :: "float64 \<Rightarrow> float64 \<Rightarrow> float64" where "fadd x y \<equiv> fl (x + y)"
abbreviation (input) fsub :: "float64 \<Rightarrow> float64 \<Rightarrow> float64" where "fsub x y \<equiv> fl (x - y)"
abbreviation (input) fmul :: "float64 \<Rightarrow> float64 \<Rightarrow> float64" where "fmul x y \<equiv> fl (x * y)"
abbreviation (input) fdiv :: "float64 \<Rightarrow> float64 \<Rightarrow> float64" where "fdiv x y \<equiv> fl (x / y)"

section \<open>Rounding is monotone and keeps what is exact\<close>

lemma round_even_int [simp]: "round_even (of_int n) = n"
  by (simp add: round_even_def)

lemma round_even_near: "\<lfloor>y\<rfloor> \<le> round_even y" "round_even y \<le> \<lfloor>y\<rfloor> + 1"
  by (simp_all add: round_even_def Let_def)

lemma round_even_mono: "x \<le> y \<Longrightarrow> round_even x \<le> round_even y"
proof -
  assume le: "x \<le> y"
  show ?thesis
  proof (cases "\<lfloor>x\<rfloor> = \<lfloor>y\<rfloor>")
    case True
    then have "x - of_int \<lfloor>x\<rfloor> \<le> y - of_int \<lfloor>y\<rfloor>" using le by simp
    then show ?thesis using True by (auto simp: round_even_def Let_def)
  next
    case False
    then have "\<lfloor>x\<rfloor> + 1 \<le> \<lfloor>y\<rfloor>" using floor_mono [OF le] by simp
    then show ?thesis using round_even_near [of x] round_even_near [of y] by linarith
  qed
qed

lemma two_powi_mono: "a \<le> b \<Longrightarrow> (2::rat) powi a \<le> 2 powi b"
  by (rule power_int_increasing) simp_all

lemma two_powi_pos [simp]: "0 < (2::rat) powi a"
  by (simp add: zero_less_power_int)

lemma bitlen_powi: "0 < p \<Longrightarrow> (2::rat) powi (bitlen p - 1) \<le> of_int p \<and> of_int p < (2::rat) powi (bitlen p)"
proof -
  assume p: "0 < p"
  then have b: "0 < bitlen p" using bitlen_eq_zero_iff [of p] bitlen_nonneg [of p] by linarith
  have "2 ^ nat (bitlen p - 1) \<le> p" "p < 2 ^ nat (bitlen p)" using bitlen_bounds [OF p] by auto
  then have "of_int (2 ^ nat (bitlen p - 1)) \<le> (of_int p :: rat)" "(of_int p :: rat) < of_int (2 ^ nat (bitlen p))"
    by (simp_all only: of_int_le_iff of_int_less_iff)
  then show ?thesis using b by (simp add: power_int_def)
qed

lemma exponent_bounds:
  assumes "0 < x"
  shows "2 powi (exponent_of x) \<le> x \<and> x < 2 powi (exponent_of x + 1)"
proof -
  obtain p q where pq: "quotient_of x = (p, q)" by fastforce
  have q: "0 < q" and x: "x = of_int p / of_int q" using quotient_of_denom_pos [OF pq] quotient_of_div [OF pq] by auto
  then have p: "0 < p" using assms by (simp add: zero_less_divide_iff)
  let ?b = "bitlen p - bitlen q"
  have 1: "(2::rat) powi (bitlen p - 1) / 2 powi (bitlen q) \<le> of_int p / of_int q"
    using bitlen_powi [OF p] bitlen_powi [OF q] p q by (intro frac_le) (auto simp: less_imp_le)
  have 2: "(of_int p :: rat) / of_int q < 2 powi (bitlen p) / 2 powi (bitlen q - 1)"
    using bitlen_powi [OF p] bitlen_powi [OF q] p by (intro frac_less) auto
  have "(2::rat) powi (bitlen p - 1) / 2 powi (bitlen q) = 2 powi (?b - 1)"
    by (simp add: power_int_diff)
  moreover have "(2::rat) powi (bitlen p) / 2 powi (bitlen q - 1) = 2 powi (?b + 1)"
    by (simp add: power_int_diff power_int_add)
  ultimately have "2 powi (?b - 1) \<le> x" "x < 2 powi (?b + 1)" using 1 2 x by simp_all
  then show ?thesis by (auto simp: exponent_of_def pq Let_def)
qed

lemma exponent_mono: "0 < x \<Longrightarrow> x \<le> y \<Longrightarrow> exponent_of x \<le> exponent_of y"
proof (rule ccontr)
  assume x: "0 < x" "x \<le> y" and "\<not> exponent_of x \<le> exponent_of y"
  then have "(2::rat) powi (exponent_of y + 1) \<le> 2 powi (exponent_of x)" by (intro two_powi_mono) simp
  then show False using exponent_bounds [of x] exponent_bounds [of y] x by linarith
qed

lemma powi_quotient: "b \<le> a \<Longrightarrow> (2::rat) powi a / 2 powi b = of_int (2 ^ nat (a - b))"
  by (simp add: power_int_diff [symmetric]) (simp add: power_int_def)

lemma round_pos_powi:
  assumes "max (exponent_of x - 52) (- 1074) \<le> e"
  shows "x \<le> 2 powi e \<Longrightarrow> round_pos x \<le> 2 powi e" "2 powi e \<le> x \<Longrightarrow> 2 powi e \<le> round_pos x"
proof -
  let ?u = "unit_of x"
  have u: "0 < ?u" by (simp add: unit_of_def)
  have q: "2 powi e / ?u = of_int (2 ^ nat (e - max (exponent_of x - 52) (- 1074)))"
    using powi_quotient [OF assms] by (simp add: unit_of_def)
  { assume "x \<le> 2 powi e"
    then have "x / ?u \<le> 2 powi e / ?u" using u by (simp add: divide_right_mono less_imp_le)
    then have "round_even (x / ?u) \<le> 2 ^ nat (e - max (exponent_of x - 52) (- 1074))"
      unfolding q by (metis round_even_int round_even_mono)
    then have "(of_int (round_even (x / ?u)) :: rat) \<le> 2 powi e / ?u" unfolding q by (simp only: of_int_le_iff)
    then show "round_pos x \<le> 2 powi e" using u by (simp add: round_pos_def pos_le_divide_eq) }
  { assume "2 powi e \<le> x"
    then have "2 powi e / ?u \<le> x / ?u" using u by (simp add: divide_right_mono less_imp_le)
    then have "2 ^ nat (e - max (exponent_of x - 52) (- 1074)) \<le> round_even (x / ?u)"
      unfolding q by (metis round_even_int round_even_mono)
    then have "2 powi e / ?u \<le> (of_int (round_even (x / ?u)) :: rat)" unfolding q by (simp only: of_int_le_iff)
    then show "2 powi e \<le> round_pos x" using u by (simp add: round_pos_def pos_divide_le_eq) }
qed

lemma round_pos_mono: "0 < x \<Longrightarrow> x \<le> y \<Longrightarrow> round_pos x \<le> round_pos y"
proof -
  assume x: "0 < x" "x \<le> y"
  have e: "exponent_of x \<le> exponent_of y" by (rule exponent_mono [OF x])
  show ?thesis
  proof (cases "unit_of x = unit_of y")
    case True
    have "0 < unit_of y" by (simp add: unit_of_def)
    then have "round_even (x / unit_of y) \<le> round_even (y / unit_of y)"
      using x by (intro round_even_mono divide_right_mono) auto
    then show ?thesis unfolding round_pos_def True by (intro mult_right_mono) (simp_all add: unit_of_def less_imp_le)
  next
    case False
    let ?p = "2 powi (exponent_of y)"
    have lt: "exponent_of x < exponent_of y" "- 1074 < exponent_of y - 52"
      using False e by (auto simp: unit_of_def max_def order_less_le split: if_splits)
    have "x \<le> ?p"
    proof -
      have "(2::rat) powi (exponent_of x + 1) \<le> ?p" using lt by (intro two_powi_mono) simp
      then show ?thesis using exponent_bounds [OF x(1)] by linarith
    qed
    then have "round_pos x \<le> ?p" using lt by (intro round_pos_powi(1)) auto
    moreover have "?p \<le> round_pos y" using lt exponent_bounds [of y] x by (intro round_pos_powi(2)) auto
    ultimately show ?thesis by linarith
  qed
qed

lemma round_pos_nonneg: "0 < x \<Longrightarrow> 0 \<le> round_pos x"
proof -
  assume "0 < x"
  moreover have "0 < unit_of x" by (simp add: unit_of_def)
  ultimately have "0 \<le> round_even (x / unit_of x)" using round_even_mono [of 0 "x / unit_of x"] round_even_int [of 0] by simp
  then show ?thesis by (simp add: round_pos_def unit_of_def less_imp_le)
qed

lemma fl_0 [simp]: "fl 0 = 0"
  by (simp add: fl_def)

lemma fl_nonneg: "0 \<le> x \<Longrightarrow> 0 \<le> fl x"
  using round_pos_nonneg by (simp add: fl_def)

lemma fl_mono: "x \<le> y \<Longrightarrow> fl x \<le> fl y"
  using round_pos_nonneg [of y] round_pos_nonneg [of "- x"] round_pos_mono [of x y] round_pos_mono [of "- y" "- x"]
  by (auto simp: fl_def)

lemma fl_powi [simp]: "- 1074 \<le> e \<Longrightarrow> fl (2 powi e) = 2 powi e"
proof -
  assume e: "- 1074 \<le> e"
  have "exponent_of (2 powi e :: rat) = e"
  proof (rule antisym)
    show "exponent_of (2 powi e :: rat) \<le> e"
    proof (rule ccontr)
      assume "\<not> exponent_of (2 powi e :: rat) \<le> e"
      then have "(2::rat) powi e < 2 powi (exponent_of (2 powi e :: rat))" by (intro power_int_strict_increasing) simp_all
      then show False using exponent_bounds [of "2 powi e"] by simp
    qed
    show "e \<le> exponent_of (2 powi e :: rat)"
    proof (rule ccontr)
      assume "\<not> e \<le> exponent_of (2 powi e :: rat)"
      then have "(2::rat) powi (exponent_of (2 powi e :: rat) + 1) \<le> 2 powi e" by (intro two_powi_mono) simp
      then show False using exponent_bounds [of "2 powi e"] by simp
    qed
  qed
  then have "round_pos (2 powi e) = 2 powi e" using e by (intro antisym round_pos_powi) simp_all
  then show ?thesis by (simp add: fl_def) (metis two_powi_pos less_asym less_irrefl)
qed

lemma fl_1 [simp]: "fl 1 = 1"
  using fl_powi [of 0] by simp

lemma fl_unit: "0 \<le> x \<Longrightarrow> x \<le> 1 \<Longrightarrow> 0 \<le> fl x \<and> fl x \<le> 1"
  using fl_nonneg fl_mono [of x 1] by simp


section \<open>Rounding again changes nothing\<close>

lemma round_pos_exact:
  assumes "0 < x" and "x = of_int n * 2 powi k" and "x < 2 powi (k + 53)" and "- 1074 \<le> k"
  shows "round_pos x = x"
proof -
  have "(2::rat) powi (exponent_of x) < 2 powi (k + 53)" using exponent_bounds [OF assms(1)] assms(3) by linarith
  then have "exponent_of x < k + 53" by (metis not_less two_powi_mono)
  then have le: "max (exponent_of x - 52) (- 1074) \<le> k" using assms(4) by simp
  have "x / unit_of x = of_int (n * 2 ^ nat (k - max (exponent_of x - 52) (- 1074)))"
  proof -
    have "x / unit_of x = of_int n * (2 powi k / 2 powi max (exponent_of x - 52) (- 1074))"
      using assms(2) by (metis times_divide_eq_right unit_of_def)
    then show ?thesis unfolding powi_quotient [OF le] by simp
  qed
  moreover have "unit_of x \<noteq> 0" by (simp add: unit_of_def)
  ultimately show ?thesis by (metis nonzero_eq_divide_eq round_even_int round_pos_def)
qed

lemma round_pos_idem: "0 < x \<Longrightarrow> round_pos x = 0 \<or> 0 < round_pos x \<and> round_pos (round_pos x) = round_pos x"
proof -
  assume x: "0 < x"
  let ?k = "max (exponent_of x - 52) (- 1074)" and ?n = "round_even (x / unit_of x)"
  have r: "round_pos x = of_int ?n * 2 powi ?k" by (simp add: round_pos_def unit_of_def)
  have "x < 2 powi (exponent_of x + 1)" using exponent_bounds [OF x] by simp
  also have "\<dots> \<le> 2 powi (?k + 53)" by (rule two_powi_mono) simp
  finally have le: "round_pos x \<le> 2 powi (?k + 53)" by (intro round_pos_powi(1)) auto
  show ?thesis
  proof (cases "round_pos x = 0")
    case False
    then have pos: "0 < round_pos x" using round_pos_nonneg [OF x] by simp
    have "round_pos (round_pos x) = round_pos x"
    proof (cases "round_pos x = 2 powi (?k + 53)")
      case True
      then show ?thesis using fl_powi [of "?k + 53"] pos by (simp add: fl_def split: if_split_asm)
    next
      case False
      then show ?thesis using round_pos_exact [OF pos r] le by simp
    qed
    then show ?thesis using pos by simp
  qed simp
qed

lemma fl_idem: "fl (fl x) = fl x"
proof -
  consider "x = 0" | "0 < x" | "x < 0" by linarith
  then show ?thesis
  proof cases
    case 2
    then show ?thesis using round_pos_idem [of x] by (auto simp: fl_def)
  next
    case 3
    then show ?thesis using round_pos_idem [of "- x"] by (auto simp: fl_def)
  qed simp
qed

lemma fl_minus: "fl (- x) = - fl x"
  by (simp add: fl_def)

end
