(* ===== verification/SubAgents.thy ===== *)
theory SubAgents
  imports KeyedStore GoFloat
begin

text \<open>
  Sub-agents: the tables of \<open>pkg/delegation/store.go\<close>, the records of \<open>types.go\<close> and the life cycle
  of \<open>lifecycle.go\<close>. A table is the list of its rows in rowid order: \<open>INSERT OR REPLACE\<close> drops the row
  with the same primary key and appends the new one, a plain \<open>INSERT\<close> fails on a known key, \<open>UPDATE\<close>
  rewrites in place, \<open>ORDER BY\<close> is a stable sort. The argument \<open>db\<close> says whether the n-th call of an
  operation is answered. Times are milliseconds. Rates are floats (\<open>GoFloat\<close>), without a fused
  multiply-add, as on amd64.
\<close>

section \<open>Lists in a column\<close>

fun join_bars :: "string list \<Rightarrow> string" where
  "join_bars [] = []"
| "join_bars [x] = x"
| "join_bars (x # y # xs) = x @ ''||'' @ join_bars (y # xs)"

fun split_bars :: "string \<Rightarrow> string list" where
  "split_bars [] = [[]]"
| "split_bars [c] = [[c]]"
| "split_bars (c # d # cs) =
     (if c = CHR ''|'' \<and> d = CHR ''|'' then [] # split_bars cs
      else (case split_bars (d # cs) of [] \<Rightarrow> [[c]] | w # ws \<Rightarrow> (c # w) # ws))"

definition parse_json_array :: "string \<Rightarrow> string list" where
  "parse_json_array s = (if s = [] \<or> s = ''[]'' then [] else split_bars s)"

text \<open>What a list is after a column of text held it.\<close>

definition through_column :: "string list \<Rightarrow> string list" where
  "through_column xs = parse_json_array (join_bars xs)"

section \<open>Records\<close>

datatype sub_agent_status = StatusActive | StatusSuspended | StatusDismissed

type_synonym task_category = string

record sub_agent =
  sa_id :: string
  sa_user :: string
  sa_label :: string
  sa_role_prompt :: string
  sa_keywords :: "string list"
  sa_tools :: "string list"
  sa_status :: sub_agent_status
  sa_created :: int
  sa_last_active :: int
  sa_completed :: int
  sa_rate :: float64
  sa_session_key :: string

record background_task =
  bt_id :: string
  bt_sub_agent :: string
  bt_user :: string
  bt_task :: string
  bt_category :: task_category
  bt_status :: string
  bt_result :: string
  bt_created :: int
  bt_completed :: int
  bt_delivered :: bool
  bt_channel :: string
  bt_chat_id :: string

record role_template =
  rt_id :: string
  rt_user :: string
  rt_name :: string
  rt_role_prompt :: string
  rt_keywords :: "string list"
  rt_tools :: "string list"
  rt_category :: task_category
  rt_successes :: int
  rt_failures :: int
  rt_avg_duration :: int
  rt_created :: int
  rt_last_used :: int

record task_metric =
  tm_id :: string
  tm_user :: string
  tm_category :: task_category
  tm_hint :: string
  tm_duration :: int
  tm_success :: bool
  tm_created :: int

record sub_agent_message =
  sm_id :: string
  sm_sub_agent :: string
  sm_role :: string
  sm_content :: string
  sm_created :: int

record delegation_config =
  dc_default_tools :: "string list"
  dc_max_active :: int
  dc_max_tasks :: int
  dc_retention :: int
  dc_reuse_threshold :: float64

record delegation_store =
  ds_agents :: "sub_agent list"
  ds_templates :: "role_template list"
  ds_tasks :: "background_task list"
  ds_metrics :: "task_metric list"
  ds_messages :: "sub_agent_message list"

definition new_sqlite_store :: delegation_store where
  "new_sqlite_store = \<lparr>ds_agents = [], ds_templates = [], ds_tasks = [], ds_metrics = [], ds_messages = []\<rparr>"

section \<open>The tables\<close>

definition put_row :: "('r \<Rightarrow> string) \<Rightarrow> 'r \<Rightarrow> 'r list \<Rightarrow> 'r list" where
  "put_row key r t = filter (\<lambda>x. key x \<noteq> key r) t @ [r]"

definition update_rows :: "('r \<Rightarrow> string) \<Rightarrow> string \<Rightarrow> ('r \<Rightarrow> 'r) \<Rightarrow> 'r list \<Rightarrow> 'r list" where
  "update_rows key k f t = map (\<lambda>x. if key x = k then f x else x) t"

definition delete_rows :: "('r \<Rightarrow> string) \<Rightarrow> string \<Rightarrow> 'r list \<Rightarrow> 'r list" where
  "delete_rows key k t = filter (\<lambda>x. key x \<noteq> k) t"

definition row_of :: "('r \<Rightarrow> string) \<Rightarrow> string \<Rightarrow> 'r list \<Rightarrow> 'r option" where
  "row_of key k t = find (\<lambda>x. key x = k) t"

definition save_sub_agent :: "sub_agent \<Rightarrow> delegation_store \<Rightarrow> delegation_store" where
  "save_sub_agent a s =
     s\<lparr>ds_agents := put_row sa_id (a\<lparr>sa_keywords := through_column (sa_keywords a), sa_tools := through_column (sa_tools a)\<rparr>)
         (ds_agents s)\<rparr>"

definition get_sub_agent :: "string \<Rightarrow> delegation_store \<Rightarrow> sub_agent option" where
  "get_sub_agent i s = row_of sa_id i (ds_agents s)"

definition get_active_sub_agents :: "string \<Rightarrow> delegation_store \<Rightarrow> sub_agent list" where
  "get_active_sub_agents user s =
     sort_key (\<lambda>a. - sa_last_active a) (filter (\<lambda>a. sa_user a = user \<and> sa_status a = StatusActive) (ds_agents s))"

definition update_sub_agent :: "string \<Rightarrow> (sub_agent \<Rightarrow> sub_agent) \<Rightarrow> delegation_store \<Rightarrow> delegation_store" where
  "update_sub_agent i f s = s\<lparr>ds_agents := update_rows sa_id i f (ds_agents s)\<rparr>"

definition delete_sub_agent :: "string \<Rightarrow> delegation_store \<Rightarrow> delegation_store" where
  "delete_sub_agent i s = s\<lparr>ds_agents := delete_rows sa_id i (ds_agents s)\<rparr>"

definition save_role_template :: "role_template \<Rightarrow> delegation_store \<Rightarrow> delegation_store" where
  "save_role_template t s =
     s\<lparr>ds_templates := put_row rt_id (t\<lparr>rt_keywords := through_column (rt_keywords t), rt_tools := through_column (rt_tools t)\<rparr>)
         (ds_templates s)\<rparr>"

definition get_role_templates :: "string \<Rightarrow> delegation_store \<Rightarrow> role_template list" where
  "get_role_templates user s = sort_key (\<lambda>t. - rt_last_used t) (filter (\<lambda>t. rt_user t = user) (ds_templates s))"

definition delete_role_template :: "string \<Rightarrow> delegation_store \<Rightarrow> delegation_store" where
  "delete_role_template i s = s\<lparr>ds_templates := delete_rows rt_id i (ds_templates s)\<rparr>"

text \<open>The score is a float quotient of two small counts.\<close>

definition keyword_overlap_score :: "string list \<Rightarrow> string list \<Rightarrow> float64" where
  "keyword_overlap_score ks1 ks2 =
     (if ks1 = [] \<or> ks2 = [] then 0
      else fdiv (of_nat (length (filter (\<lambda>k. to_lower k \<in> set (map to_lower ks1)) ks2)))
                (of_nat (max (length ks1) (length ks2))))"

text \<open>The first entry with the highest score above the threshold.\<close>

definition best_match :: "('r \<Rightarrow> float64) \<Rightarrow> float64 \<Rightarrow> 'r list \<Rightarrow> 'r option" where
  "best_match score threshold rs =
     fst (foldl (\<lambda>(best, top) r. if score r > top then (Some r, score r) else (best, top)) (None, threshold) rs)"

definition find_best_match_template ::
    "string \<Rightarrow> string list \<Rightarrow> float64 \<Rightarrow> delegation_store \<Rightarrow> role_template option" where
  "find_best_match_template user keywords threshold s =
     best_match (\<lambda>t. keyword_overlap_score keywords (rt_keywords t)) threshold (get_role_templates user s)"

definition save_background_task :: "background_task \<Rightarrow> delegation_store \<Rightarrow> delegation_store" where
  "save_background_task t s = s\<lparr>ds_tasks := put_row bt_id t (ds_tasks s)\<rparr>"

definition update_background_task :: "string \<Rightarrow> (background_task \<Rightarrow> background_task) \<Rightarrow> delegation_store \<Rightarrow> delegation_store" where
  "update_background_task i f s = s\<lparr>ds_tasks := update_rows bt_id i f (ds_tasks s)\<rparr>"

definition get_undelivered_tasks :: "string \<Rightarrow> delegation_store \<Rightarrow> background_task list" where
  "get_undelivered_tasks user s =
     sort_key bt_completed
       (filter (\<lambda>t. bt_user t = user \<and> \<not> bt_delivered t \<and> bt_status t \<in> {''completed'', ''failed''}) (ds_tasks s))"

definition mark_task_delivered :: "string \<Rightarrow> delegation_store \<Rightarrow> delegation_store" where
  "mark_task_delivered i s = update_background_task i (\<lambda>t. t\<lparr>bt_delivered := True\<rparr>) s"

definition save_task_metric :: "task_metric \<Rightarrow> delegation_store \<Rightarrow> delegation_store option" where
  "save_task_metric m s =
     (if row_of tm_id (tm_id m) (ds_metrics s) \<noteq> None then None else Some (s\<lparr>ds_metrics := ds_metrics s @ [m]\<rparr>))"

definition get_task_metrics :: "string \<Rightarrow> task_category \<Rightarrow> nat \<Rightarrow> delegation_store \<Rightarrow> task_metric list" where
  "get_task_metrics user category limit s =
     take limit (sort_key (\<lambda>m. - tm_created m) (filter (\<lambda>m. tm_user m = user \<and> tm_category m = category) (ds_metrics s)))"

definition save_sub_agent_message :: "sub_agent_message \<Rightarrow> delegation_store \<Rightarrow> delegation_store option" where
  "save_sub_agent_message m s =
     (if row_of sm_id (sm_id m) (ds_messages s) \<noteq> None then None else Some (s\<lparr>ds_messages := ds_messages s @ [m]\<rparr>))"

definition get_sub_agent_messages :: "string \<Rightarrow> nat \<Rightarrow> delegation_store \<Rightarrow> sub_agent_message list" where
  "get_sub_agent_messages i limit s =
     rev (take limit (sort_key (\<lambda>m. - sm_created m) (filter (\<lambda>m. sm_sub_agent m = i) (ds_messages s))))"

text \<open>The four deletions, each of which may fail and then ends the clean-up.\<close>

definition store_cleanup :: "(nat \<Rightarrow> bool) \<Rightarrow> int \<Rightarrow> delegation_store \<Rightarrow> delegation_store \<times> bool" where
  "store_cleanup db cutoff s =
     (if \<not> db 0 then (s, False)
      else let s1 = s\<lparr>ds_agents := filter (\<lambda>a. \<not> (sa_status a = StatusDismissed \<and> sa_last_active a < cutoff)) (ds_agents s)\<rparr> in
      if \<not> db 1 then (s1, False)
      else let s2 = s1\<lparr>ds_metrics := filter (\<lambda>m. \<not> tm_created m < cutoff) (ds_metrics s1)\<rparr> in
      if \<not> db 2 then (s2, False)
      else let s3 = s2\<lparr>ds_tasks := filter (\<lambda>t. \<not> (bt_delivered t \<and> bt_completed t < cutoff)) (ds_tasks s2)\<rparr> in
      if \<not> db 3 then (s3, False)
      else (s3\<lparr>ds_messages := filter (\<lambda>m. \<not> sm_created m < cutoff) (ds_messages s3)\<rparr>, True))"

section \<open>The life cycle\<close>

datatype lifecycle_error = StoreError | AgentNotFound string | AgentNotActive sub_agent_status
  | AgentNotSuspended sub_agent_status | MaxActiveReached int

text \<open>Events: topic, user and agent; a killed agent is reported as dismissed.\<close>

datatype lifecycle_event = AgentCreated string string | AgentSuspended string string
  | AgentDismissed string string bool | AgentRevived string string

type_synonym 'a lifecycle_result = "(lifecycle_error + 'a) \<times> delegation_store \<times> lifecycle_event list"

definition with_agent ::
    "(nat \<Rightarrow> bool) \<Rightarrow> nat \<Rightarrow> string \<Rightarrow> (sub_agent \<Rightarrow> delegation_store \<Rightarrow> unit lifecycle_result) \<Rightarrow>
     delegation_store \<Rightarrow> unit lifecycle_result" where
  "with_agent db n i k s =
     (if \<not> db n then (Inl StoreError, s, [])
      else (case get_sub_agent i s of None \<Rightarrow> (Inl (AgentNotFound i), s, []) | Some a \<Rightarrow> k a s))"

definition change_status ::
    "(nat \<Rightarrow> bool) \<Rightarrow> nat \<Rightarrow> int \<Rightarrow> string \<Rightarrow> sub_agent_status \<Rightarrow> lifecycle_event \<Rightarrow> delegation_store \<Rightarrow> unit lifecycle_result" where
  "change_status db n now i st ev s =
     (if db n then (Inr (), update_sub_agent i (\<lambda>a. a\<lparr>sa_status := st, sa_last_active := now\<rparr>) s, [ev])
      else (Inl StoreError, s, []))"

definition suspend_agent :: "(nat \<Rightarrow> bool) \<Rightarrow> int \<Rightarrow> string \<Rightarrow> delegation_store \<Rightarrow> unit lifecycle_result" where
  "suspend_agent db now i =
     with_agent db 0 i (\<lambda>a s.
       if sa_status a \<noteq> StatusActive then (Inl (AgentNotActive (sa_status a)), s, [])
       else change_status db 1 now i StatusSuspended (AgentSuspended (sa_user a) i) s)"

definition dismiss_from :: "nat \<Rightarrow> (nat \<Rightarrow> bool) \<Rightarrow> int \<Rightarrow> string \<Rightarrow> delegation_store \<Rightarrow> unit lifecycle_result" where
  "dismiss_from n db now i =
     with_agent db n i (\<lambda>a s. change_status db (Suc n) now i StatusDismissed (AgentDismissed (sa_user a) i False) s)"

definition dismiss_agent :: "(nat \<Rightarrow> bool) \<Rightarrow> int \<Rightarrow> string \<Rightarrow> delegation_store \<Rightarrow> unit lifecycle_result" where
  "dismiss_agent = dismiss_from 0"

definition revive_agent :: "delegation_config \<Rightarrow> (nat \<Rightarrow> bool) \<Rightarrow> int \<Rightarrow> string \<Rightarrow> delegation_store \<Rightarrow> unit lifecycle_result" where
  "revive_agent cfg db now i =
     with_agent db 0 i (\<lambda>a s.
       if sa_status a \<noteq> StatusSuspended then (Inl (AgentNotSuspended (sa_status a)), s, [])
       else if \<not> db 1 then (Inl StoreError, s, [])
       else if int (length (get_active_sub_agents (sa_user a) s)) \<ge> dc_max_active cfg
       then (Inl (MaxActiveReached (dc_max_active cfg)), s, [])
       else change_status db 2 now i StatusActive (AgentRevived (sa_user a) i) s)"

definition kill_agent :: "(nat \<Rightarrow> bool) \<Rightarrow> string \<Rightarrow> delegation_store \<Rightarrow> unit lifecycle_result" where
  "kill_agent db i =
     with_agent db 0 i (\<lambda>a s.
       if db 1 then (Inr (), delete_sub_agent i s, [AgentDismissed (sa_user a) i True]) else (Inl StoreError, s, []))"

text \<open>The first of the least recently used agents.\<close>

fun oldest_of :: "sub_agent \<Rightarrow> sub_agent list \<Rightarrow> sub_agent" where
  "oldest_of o' [] = o'"
| "oldest_of o' (a # as) = oldest_of (if sa_last_active a < sa_last_active o' then a else o') as"

definition dismiss_oldest_inactive ::
    "(nat \<Rightarrow> bool) \<Rightarrow> int \<Rightarrow> sub_agent list \<Rightarrow> delegation_store \<Rightarrow> unit lifecycle_result" where
  "dismiss_oldest_inactive db now agents s =
     (case agents of [] \<Rightarrow> (Inr (), s, []) | a # as \<Rightarrow> dismiss_from 1 db now (sa_id (oldest_of a as)) s)"

text \<open>\<open>Create\<close> in its two parts: making room, and saving the new agent. Another goroutine may run in between.\<close>

definition make_room :: "delegation_config \<Rightarrow> (nat \<Rightarrow> bool) \<Rightarrow> int \<Rightarrow> string \<Rightarrow> delegation_store \<Rightarrow> unit lifecycle_result" where
  "make_room cfg db now user s =
     (if \<not> db 0 then (Inl StoreError, s, [])
      else let active = get_active_sub_agents user s in
      if int (length active) \<ge> dc_max_active cfg
      then (case dismiss_oldest_inactive db now active s of
              (Inl e, s1, es) \<Rightarrow> (Inl (MaxActiveReached (dc_max_active cfg)), s1, es)
            | (Inr _, s1, es) \<Rightarrow> (Inr (), s1, es))
      else (Inr (), s, []))"

definition fresh_agent ::
    "int \<Rightarrow> string \<Rightarrow> string \<Rightarrow> string \<Rightarrow> string \<Rightarrow> string \<Rightarrow> string list \<Rightarrow> string list \<Rightarrow> sub_agent" where
  "fresh_agent now i session user label prompt keywords tools =
     \<lparr>sa_id = i, sa_user = user, sa_label = label, sa_role_prompt = prompt, sa_keywords = keywords, sa_tools = tools,
      sa_status = StatusActive, sa_created = now, sa_last_active = now, sa_completed = 0, sa_rate = 0,
      sa_session_key = ''subagent:'' @ session\<rparr>"

definition save_created :: "(nat \<Rightarrow> bool) \<Rightarrow> sub_agent \<Rightarrow> delegation_store \<Rightarrow> sub_agent lifecycle_result" where
  "save_created db a s =
     (if db 3 then (Inr a, save_sub_agent a s, [AgentCreated (sa_user a) (sa_id a)]) else (Inl StoreError, s, []))"

definition create_agent ::
    "delegation_config \<Rightarrow> (nat \<Rightarrow> bool) \<Rightarrow> int \<Rightarrow> sub_agent \<Rightarrow> delegation_store \<Rightarrow> sub_agent lifecycle_result" where
  "create_agent cfg db now a s =
     (case make_room cfg db now (sa_user a) s of
        (Inl e, s1, es) \<Rightarrow> (Inl e, s1, es)
      | (Inr _, s1, es) \<Rightarrow> (case save_created db a s1 of (r, s2, es2) \<Rightarrow> (r, s2, es @ es2)))"

definition find_reusable ::
    "delegation_config \<Rightarrow> bool \<Rightarrow> string \<Rightarrow> string list \<Rightarrow> delegation_store \<Rightarrow> lifecycle_error + sub_agent option" where
  "find_reusable cfg db user keywords s =
     (if \<not> db then Inl StoreError
      else Inr (best_match (\<lambda>a. keyword_overlap_score keywords (sa_keywords a)) (dc_reuse_threshold cfg)
                  (get_active_sub_agents user s)))"

definition alpha :: float64 where "alpha = fl (1 / 5)"

definition next_rate :: "bool \<Rightarrow> int \<Rightarrow> float64 \<Rightarrow> float64" where
  "next_rate success completed rate =
     (if completed = 0 then (if success then 1 else 0)
      else if success then fadd (fmul rate (fsub 1 alpha)) (fmul 1 alpha)
      else fmul rate (fsub 1 alpha))"

text \<open>An unknown agent is no error; the count that decides about the dismissal is the one before this task.\<close>

definition record_task_result ::
    "(nat \<Rightarrow> bool) \<Rightarrow> int \<Rightarrow> int \<Rightarrow> string \<Rightarrow> bool \<Rightarrow> delegation_store \<Rightarrow> unit lifecycle_result" where
  "record_task_result db now later i success s =
     (if \<not> db 0 then (Inl StoreError, s, [])
      else (case get_sub_agent i s of
              None \<Rightarrow> (Inr (), s, [])
            | Some a \<Rightarrow>
                (let rate = next_rate success (sa_completed a) (sa_rate a) in
                 if \<not> db 1 then (Inl StoreError, s, [])
                 else let s1 = update_sub_agent i (\<lambda>a'. a'\<lparr>sa_last_active := now, sa_completed := sa_completed a + 1, sa_rate := rate\<rparr>) s in
                 if sa_completed a \<ge> 5 \<and> rate < alpha then dismiss_from 2 db later i s1 else (Inr (), s1, []))))"


section \<open>Histories of the life cycle\<close>

datatype lifecycle_op =
    OpCreate "nat \<Rightarrow> bool" int string string string string string "string list" "string list"
  | OpSuspend "nat \<Rightarrow> bool" int string
  | OpDismiss "nat \<Rightarrow> bool" int string
  | OpRevive "nat \<Rightarrow> bool" int string
  | OpKill "nat \<Rightarrow> bool" string
  | OpRecord "nat \<Rightarrow> bool" int int string bool
  | OpCleanup "nat \<Rightarrow> bool" int

fun lifecycle_apply :: "delegation_config \<Rightarrow> lifecycle_op \<Rightarrow> delegation_store \<Rightarrow> delegation_store" where
  "lifecycle_apply cfg (OpCreate db now i session user label prompt kws tools) s =
     fst (snd (create_agent cfg db now (fresh_agent now i session user label prompt kws tools) s))"
| "lifecycle_apply cfg (OpSuspend db now i) s = fst (snd (suspend_agent db now i s))"
| "lifecycle_apply cfg (OpDismiss db now i) s = fst (snd (dismiss_agent db now i s))"
| "lifecycle_apply cfg (OpRevive db now i) s = fst (snd (revive_agent cfg db now i s))"
| "lifecycle_apply cfg (OpKill db i) s = fst (snd (kill_agent db i s))"
| "lifecycle_apply cfg (OpRecord db now later i success) s = fst (snd (record_task_result db now later i success s))"
| "lifecycle_apply cfg (OpCleanup db cutoff) s = fst (store_cleanup db cutoff s)"

definition lifecycle_run :: "delegation_config \<Rightarrow> lifecycle_op list \<Rightarrow> delegation_store \<Rightarrow> delegation_store" where
  "lifecycle_run cfg ops s = fold (lifecycle_apply cfg) ops s"

text \<open>Every operation is a sequence of four kinds of change of the table of agents.\<close>

inductive agents_step :: "delegation_config \<Rightarrow> sub_agent list \<Rightarrow> sub_agent list \<Rightarrow> bool" for cfg where
  unchanged: "agents_step cfg t t"
| dismissed: "agents_step cfg t (update_rows sa_id i (\<lambda>a. a\<lparr>sa_status := StatusDismissed, sa_last_active := now\<rparr>) t)"
| suspended: "agents_step cfg t (update_rows sa_id i (\<lambda>a. a\<lparr>sa_status := StatusSuspended, sa_last_active := now\<rparr>) t)"
    if "\<exists>a. row_of sa_id i t = Some a \<and> sa_status a = StatusActive"
| rated: "agents_step cfg t (update_rows sa_id i (\<lambda>a'. a'\<lparr>sa_last_active := now, sa_completed := sa_completed a + 1,
      sa_rate := next_rate success (sa_completed a) (sa_rate a)\<rparr>) t)"
    if "row_of sa_id i t = Some a"
| dropped: "agents_step cfg t (filter P t)"

lemmas agents_step_dismissed = agents_step.dismissed [unfolded update_rows_def]

definition active_rows :: "string \<Rightarrow> sub_agent list \<Rightarrow> nat" where
  "active_rows user t = length (filter (\<lambda>a. sa_user a = user \<and> sa_status a = StatusActive) t)"

lemma active_rows_store: "length (get_active_sub_agents user s) = active_rows user (ds_agents s)"
  by (simp add: get_active_sub_agents_def active_rows_def)

lemma update_rows_split: "update_rows key k f (xs @ ys) = update_rows key k f xs @ update_rows key k f ys"
  by (simp add: update_rows_def)

lemma active_rows_simps [simp]:
  "active_rows user [] = 0"
  "active_rows user (a # t) = (if sa_user a = user \<and> sa_status a = StatusActive then 1 else 0) + active_rows user t"
  by (simp_all add: active_rows_def)

lemma update_rows_simps [simp]:
  "update_rows key i f [] = []"
  "update_rows key i f (x # t) = (if key x = i then f x else x) # update_rows key i f t"
  by (simp_all add: update_rows_def)

lemma active_update:
  assumes "\<And>a. sa_user (f a) = sa_user a" and "\<And>a. sa_status (f a) \<noteq> StatusActive \<or> sa_status (f a) = sa_status a"
  shows "active_rows user (update_rows sa_id i f t) \<le> active_rows user t"
  using assms by (induction t) (force intro: add_mono)+

lemma active_dismiss_less:
  "a \<in> set t \<Longrightarrow> sa_id a = i \<Longrightarrow> sa_user a = user \<Longrightarrow> sa_status a = StatusActive \<Longrightarrow>
     active_rows user (update_rows sa_id i (\<lambda>a. a\<lparr>sa_status := StatusDismissed, sa_last_active := now\<rparr>) t) < active_rows user t"
proof (induction t)
  case (Cons b t)
  have le: "active_rows user (update_rows sa_id i (\<lambda>a. a\<lparr>sa_status := StatusDismissed, sa_last_active := now\<rparr>) t) \<le> active_rows user t"
    by (rule active_update) auto
  show ?case
  proof (cases "a \<in> set t")
    case True
    then show ?thesis using Cons.IH [OF True Cons.prems(2-4)] le by simp
  next
    case False
    then have "b = a" using Cons.prems(1) by simp
    then show ?thesis using Cons.prems le by simp
  qed
qed simp

lemma active_filter: "active_rows user (filter P t) \<le> active_rows user t"
  by (induction t) auto

lemma agents_step_active: "agents_step cfg t t' \<Longrightarrow> active_rows user t' \<le> active_rows user t"
  by (induction rule: agents_step.induct) (auto intro!: active_update active_filter)

lemma with_agent_step:
  assumes "\<And>a. get_sub_agent i s = Some a \<Longrightarrow> agents_step cfg (ds_agents s) (ds_agents (fst (snd (k a s))))"
  shows "agents_step cfg (ds_agents s) (ds_agents (fst (snd (with_agent db n i k s))))"
  using assms by (auto simp: with_agent_def intro: agents_step.unchanged split: option.split)

lemma dismiss_step: "agents_step cfg (ds_agents s) (ds_agents (fst (snd (dismiss_from n db now i s))))"
  unfolding dismiss_from_def
  by (rule with_agent_step) (auto simp: change_status_def update_sub_agent_def intro: agents_step.unchanged agents_step.dismissed)

lemma suspend_step: "agents_step cfg (ds_agents s) (ds_agents (fst (snd (suspend_agent db now i s))))"
  unfolding suspend_agent_def
  by (rule with_agent_step)
    (auto simp: change_status_def update_sub_agent_def get_sub_agent_def intro: agents_step.unchanged agents_step.suspended)

lemma kill_step: "agents_step cfg (ds_agents s) (ds_agents (fst (snd (kill_agent db i s))))"
  unfolding kill_agent_def
  by (rule with_agent_step) (auto simp: delete_sub_agent_def delete_rows_def intro: agents_step.unchanged agents_step.dropped)

lemma cleanup_step: "agents_step cfg (ds_agents s) (ds_agents (fst (store_cleanup db cutoff s)))"
  by (auto simp: store_cleanup_def Let_def intro: agents_step.unchanged agents_step.dropped)

lemma room_step: "agents_step cfg (ds_agents s) (ds_agents (fst (snd (make_room cfg db now user s))))"
  using dismiss_step [of cfg s 1 db now]
  by (auto simp: make_room_def dismiss_oldest_inactive_def Let_def intro: agents_step.unchanged split: list.split sum.split prod.split)
     (metis fst_conv snd_conv)+


section \<open>Invariant\<close>

lemma alpha_unit: "0 \<le> alpha" "alpha \<le> 1"
  by code_simp+

lemma next_rate_unit:
  assumes "0 \<le> rate" "rate \<le> 1"
  shows "0 \<le> next_rate success n rate \<and> next_rate success n rate \<le> 1"
proof -
  let ?b = "fl (1 - alpha)"
  have b: "0 \<le> ?b" "?b \<le> 1" using fl_unit [of "1 - alpha"] alpha_unit by auto
  have top: "fl (fl (1 * ?b) + fl (1 * alpha)) \<le> 1" by code_simp
  have m: "0 \<le> fl (rate * ?b)" "fl (rate * ?b) \<le> fl (1 * ?b)"
    using assms b mult_right_mono [of rate 1 ?b] by (simp_all add: fl_nonneg fl_mono)
  have a: "0 \<le> fl (1 * alpha)" using alpha_unit by (auto intro: fl_nonneg)
  have "fl (fl (rate * ?b) + fl (1 * alpha)) \<le> 1" using top fl_mono [of "fl (rate * ?b) + fl (1 * alpha)"] m(2) by (meson add_right_mono order_trans)
  moreover have "0 \<le> fl (fl (rate * ?b) + fl (1 * alpha))" using m(1) a by (intro fl_nonneg) simp
  moreover have "fl (rate * ?b) \<le> 1" using m(2) fl_unit [of "1 * ?b"] b by simp
  ultimately show ?thesis using m(1) by (simp add: next_rate_def)
qed

definition agents_ok :: "delegation_config \<Rightarrow> sub_agent list \<Rightarrow> bool" where
  "agents_ok cfg t \<longleftrightarrow> distinct (map sa_id t) \<and> (\<forall>user. active_rows user t \<le> max 1 (nat (dc_max_active cfg)))
     \<and> (\<forall>a \<in> set t. 0 \<le> sa_rate a \<and> sa_rate a \<le> 1)"

lemma update_ids: "(\<And>a. sa_id (f a) = sa_id a) \<Longrightarrow> map sa_id (update_rows sa_id i f t) = map sa_id t"
  by (simp add: update_rows_def)

lemma row_of_set: "row_of key i t = Some a \<Longrightarrow> a \<in> set t \<and> key a = i"
  by (auto simp: row_of_def find_Some_iff)

lemma rates_step: "agents_step cfg t t' \<Longrightarrow> \<forall>a \<in> set t. 0 \<le> sa_rate a \<and> sa_rate a \<le> 1 \<Longrightarrow> \<forall>a \<in> set t'. 0 \<le> sa_rate a \<and> sa_rate a \<le> 1"
proof (induction rule: agents_step.induct)
  case (rated i t a success now)
  then have "0 \<le> next_rate success (sa_completed a) (sa_rate a) \<and> next_rate success (sa_completed a) (sa_rate a) \<le> 1"
    using next_rate_unit [of "sa_rate a"] row_of_set [OF rated.hyps] by simp
  then show ?case using rated.prems by (auto simp: update_rows_def)
qed (auto simp: update_rows_def)

lemma ids_step: "agents_step cfg t t' \<Longrightarrow> distinct (map sa_id t) \<Longrightarrow> distinct (map sa_id t')"
  by (induction rule: agents_step.induct) (simp_all add: update_ids distinct_map_filter)

lemma ok_step: "agents_step cfg t t' \<Longrightarrow> agents_ok cfg t \<Longrightarrow> agents_ok cfg t'"
  unfolding agents_ok_def using rates_step ids_step agents_step_active by (meson order_trans)

lemma oldest_in: "oldest_of o' xs = o' \<or> oldest_of o' xs \<in> set xs"
proof (induction xs arbitrary: o')
  case (Cons x xs)
  show ?case using Cons [of "if sa_last_active x < sa_last_active o' then x else o'"] by (auto split: if_splits)
qed simp

text \<open>Room for one more.\<close>

lemma room_made:
  assumes "agents_ok cfg (ds_agents s)" and "make_room cfg db now user s = (Inr u, s1, es)"
  shows "active_rows user (ds_agents s1) < max 1 (nat (dc_max_active cfg))"
proof -
  have le: "active_rows user (ds_agents s) \<le> max 1 (nat (dc_max_active cfg))" using assms(1) by (simp add: agents_ok_def)
  show ?thesis
  proof (cases "int (length (get_active_sub_agents user s)) \<ge> dc_max_active cfg")
    case False
    then have "s1 = s" using assms(2) by (auto simp: make_room_def Let_def split: if_splits)
    then show ?thesis using False by (simp add: active_rows_store)
  next
    case True
    show ?thesis
    proof (cases "get_active_sub_agents user s")
      case Nil
      then have "s1 = s" using assms(2) True
        by (auto simp: make_room_def Let_def dismiss_oldest_inactive_def split: if_splits)
      then show ?thesis using Nil active_rows_store [of user s] by simp
    next
      case (Cons a as)
      have "oldest_of a as \<in> set (get_active_sub_agents user s)" using oldest_in [of a as] Cons by simp
      then have o: "oldest_of a as \<in> set (ds_agents s)" "sa_user (oldest_of a as) = user" "sa_status (oldest_of a as) = StatusActive"
        by (auto simp: get_active_sub_agents_def)
      have "ds_agents s1 = update_rows sa_id (sa_id (oldest_of a as)) (\<lambda>a. a\<lparr>sa_status := StatusDismissed, sa_last_active := now\<rparr>) (ds_agents s)"
        using assms(2) True Cons
        by (auto simp: make_room_def Let_def dismiss_oldest_inactive_def dismiss_from_def with_agent_def change_status_def
            update_sub_agent_def split: if_splits option.splits sum.splits)
      then show ?thesis using active_dismiss_less [OF o(1) refl o(2,3), of now] le by simp
    qed
  qed
qed

lemma active_put:
  "active_rows user (put_row sa_id a t) \<le> active_rows user t + (if sa_user a = user then 1 else 0)"
  using active_filter [of user "\<lambda>x. sa_id x \<noteq> sa_id a" t] by (auto simp: put_row_def active_rows_def)

lemma ok_put:
  assumes "agents_ok cfg t" and "active_rows (sa_user a) t < max 1 (nat (dc_max_active cfg))" and "0 \<le> sa_rate a \<and> sa_rate a \<le> 1"
  shows "agents_ok cfg (put_row sa_id a t)"
proof -
  have "active_rows user (put_row sa_id a t) \<le> max 1 (nat (dc_max_active cfg))" for user
    using active_put [of user a t] assms(1,2) unfolding agents_ok_def by (cases "sa_user a = user") (force intro: order_trans)+
  moreover have "distinct (map sa_id (put_row sa_id a t))"
    using assms(1) by (auto simp: agents_ok_def put_row_def distinct_map_filter)
  ultimately show ?thesis using assms(1,3) by (auto simp: agents_ok_def put_row_def)
qed

lemma active_revive:
  assumes "distinct (map sa_id t)" and "row_of sa_id i t = Some a"
  shows "active_rows user (update_rows sa_id i (\<lambda>a. a\<lparr>sa_status := StatusActive, sa_last_active := now\<rparr>) t) \<le>
    active_rows user t + (if sa_user a = user then 1 else 0)"
  using assms
proof (induction t)
  case (Cons b t)
  show ?case
  proof (cases "sa_id b = i")
    case True
    then have "update_rows sa_id i (\<lambda>a. a\<lparr>sa_status := StatusActive, sa_last_active := now\<rparr>) t = t"
      using Cons.prems(1) True by (auto simp: update_rows_def image_iff intro!: map_idI)
    moreover have "b = a" using Cons.prems(2) True by (simp add: row_of_def)
    ultimately show ?thesis using True by simp
  next
    case False
    then have "row_of sa_id i t = Some a" using Cons.prems(2) by (simp add: row_of_def)
    then show ?thesis using Cons False by (auto simp: active_rows_def update_rows_def)
  qed
qed (simp add: row_of_def)

lemma ok_revive:
  assumes "agents_ok cfg (ds_agents s)"
  shows "agents_ok cfg (ds_agents (fst (snd (revive_agent cfg db now i s))))"
proof (cases "get_sub_agent i s")
  case None
  then show ?thesis using assms by (simp add: revive_agent_def with_agent_def)
next
  case (Some a)
  let ?t = "update_rows sa_id i (\<lambda>a. a\<lparr>sa_status := StatusActive, sa_last_active := now\<rparr>) (ds_agents s)"
  have r: "row_of sa_id i (ds_agents s) = Some a" using Some by (simp add: get_sub_agent_def)
  { assume "int (length (get_active_sub_agents (sa_user a) s)) < dc_max_active cfg"
    then have less: "active_rows (sa_user a) (ds_agents s) < max 1 (nat (dc_max_active cfg))" by (simp add: active_rows_store)
    have "active_rows user ?t \<le> max 1 (nat (dc_max_active cfg))" for user
      using active_revive [OF _ r, of user now] assms less unfolding agents_ok_def
      by (cases "sa_user a = user") (force intro: order_trans)+
    then have "agents_ok cfg ?t" using assms by (auto simp: agents_ok_def update_ids) (auto simp: update_rows_def) }
  then show ?thesis using assms Some
    by (auto simp: revive_agent_def with_agent_def change_status_def update_sub_agent_def not_le)
qed

lemma ok_record:
  assumes "agents_ok cfg (ds_agents s)"
  shows "agents_ok cfg (ds_agents (fst (snd (record_task_result db now later i success s))))"
proof (cases "get_sub_agent i s")
  case None
  then show ?thesis using assms by (simp add: record_task_result_def)
next
  case (Some a)
  let ?s1 = "update_sub_agent i (\<lambda>a'. a'\<lparr>sa_last_active := now, sa_completed := sa_completed a + 1,
      sa_rate := next_rate success (sa_completed a) (sa_rate a)\<rparr>) s"
  have "agents_ok cfg (ds_agents ?s1)"
    using ok_step [OF agents_step.rated assms] Some by (auto simp: update_sub_agent_def get_sub_agent_def)
  then show ?thesis using assms Some ok_step [OF dismiss_step, of cfg ?s1 2 db later i]
    by (simp add: record_task_result_def Let_def)
qed

lemma ok_create:
  assumes "agents_ok cfg (ds_agents s)" and "0 \<le> sa_rate a \<and> sa_rate a \<le> 1"
  shows "agents_ok cfg (ds_agents (fst (snd (create_agent cfg db now a s))))"
proof -
  obtain r s1 es where m: "make_room cfg db now (sa_user a) s = (r, s1, es)" by (cases "make_room cfg db now (sa_user a) s") auto
  have ok: "agents_ok cfg (ds_agents s1)" using ok_step [OF room_step assms(1), of db now "sa_user a"] m by simp
  let ?a = "a\<lparr>sa_keywords := through_column (sa_keywords a), sa_tools := through_column (sa_tools a)\<rparr>"
  show ?thesis
  proof (cases r)
    case (Inr u)
    have "agents_ok cfg (put_row sa_id ?a (ds_agents s1))"
      by (rule ok_put [OF ok]) (use room_made [OF assms(1) m [unfolded Inr]] assms(2) in simp_all)
    then show ?thesis using m Inr ok by (simp add: create_agent_def save_created_def save_sub_agent_def)
  qed (use m ok in \<open>simp add: create_agent_def\<close>)
qed

lemma ok_apply: "agents_ok cfg (ds_agents s) \<Longrightarrow> agents_ok cfg (ds_agents (lifecycle_apply cfg x s))"
  by (cases x)
    (simp_all add: ok_create ok_revive ok_record fresh_agent_def dismiss_agent_def ok_step [OF dismiss_step] ok_step [OF suspend_step]
      ok_step [OF kill_step] ok_step [OF cleanup_step])

lemma ok_run: "agents_ok cfg (ds_agents s) \<Longrightarrow> agents_ok cfg (ds_agents (lifecycle_run cfg ops s))"
  unfolding lifecycle_run_def by (induction ops arbitrary: s) (simp_all add: ok_apply)

lemma ok_new: "agents_ok cfg (ds_agents new_sqlite_store)"
  by (simp add: agents_ok_def new_sqlite_store_def active_rows_def)


section \<open>States of one agent\<close>

fun created_id :: "lifecycle_op \<Rightarrow> string option" where
  "created_id (OpCreate db now i session user label prompt kws tools) = Some i"
| "created_id _ = None"

fun is_suspend :: "lifecycle_op \<Rightarrow> bool" where
  "is_suspend (OpSuspend db now i) \<longleftrightarrow> True"
| "is_suspend _ \<longleftrightarrow> False"

text \<open>How the state of an agent may change: only a suspension leads to \<open>StatusSuspended\<close>, only from there an agent comes back.\<close>

definition may_move :: "bool \<Rightarrow> sub_agent_status \<Rightarrow> sub_agent_status \<Rightarrow> bool" where
  "may_move suspend st st' \<longleftrightarrow> st' = st \<or> st' = StatusDismissed \<or> (st = StatusActive \<and> st' = StatusSuspended \<and> suspend)
     \<or> (st = StatusSuspended \<and> st' = StatusActive)"

definition moved :: "bool \<Rightarrow> sub_agent list \<Rightarrow> sub_agent list \<Rightarrow> bool" where
  "moved suspend t t' \<longleftrightarrow> (\<forall>a' \<in> set t'. \<exists>a \<in> set t. sa_id a = sa_id a' \<and> may_move suspend (sa_status a) (sa_status a'))"

lemma moved_refl [simp]: "moved b t t"
  by (auto simp: moved_def may_move_def)

lemma moved_filter: "moved b t (filter P t)"
  by (auto simp: moved_def may_move_def)

lemma moved_update:
  "(\<And>a. a \<in> set t \<Longrightarrow> sa_id a = i \<Longrightarrow> sa_id (f a) = sa_id a \<and> may_move b (sa_status a) (sa_status (f a))) \<Longrightarrow> moved b t (update_rows sa_id i f t)"
  by (auto simp: moved_def update_rows_def) (auto simp: may_move_def)

lemma moved_dismiss: "moved b (ds_agents s) (ds_agents (fst (snd (dismiss_from n db now i s))))"
  by (auto simp: dismiss_from_def with_agent_def change_status_def update_sub_agent_def may_move_def intro!: moved_update split: option.split)

lemma only_row: "distinct (map sa_id t) \<Longrightarrow> row_of sa_id i t = Some a \<Longrightarrow> a' \<in> set t \<Longrightarrow> sa_id a' = i \<Longrightarrow> a' = a"
  using row_of_set [of sa_id i t a] by (auto simp: distinct_map inj_on_def)

lemma moved_guarded:
  assumes "distinct (map sa_id t)" and "row_of sa_id i t = Some a" and "may_move b (sa_status a) st"
  shows "moved b t (update_rows sa_id i (\<lambda>a. a\<lparr>sa_status := st, sa_last_active := now\<rparr>) t)"
proof (rule moved_update)
  fix a' assume "a' \<in> set t" "sa_id a' = i"
  then have "a' = a" using only_row [OF assms(1,2)] by blast
  then show "sa_id (a'\<lparr>sa_status := st, sa_last_active := now\<rparr>) = sa_id a'
      \<and> may_move b (sa_status a') (sa_status (a'\<lparr>sa_status := st, sa_last_active := now\<rparr>))"
    using assms(3) by simp
qed

lemma moved_suspend:
  assumes "distinct (map sa_id (ds_agents s))"
  shows "moved True (ds_agents s) (ds_agents (fst (snd (suspend_agent db now i s))))"
proof (cases "get_sub_agent i s")
  case (Some a)
  then show ?thesis using moved_guarded [OF assms, of i a True StatusSuspended now]
    by (simp add: suspend_agent_def with_agent_def change_status_def update_sub_agent_def get_sub_agent_def may_move_def)
qed (simp add: suspend_agent_def with_agent_def)

lemma moved_revive:
  assumes "distinct (map sa_id (ds_agents s))"
  shows "moved b (ds_agents s) (ds_agents (fst (snd (revive_agent cfg db now i s))))"
proof (cases "get_sub_agent i s")
  case (Some a)
  then show ?thesis using moved_guarded [OF assms, of i a b StatusActive now]
    by (simp add: revive_agent_def with_agent_def change_status_def update_sub_agent_def get_sub_agent_def may_move_def)
qed (simp add: revive_agent_def with_agent_def)

lemma moved_record: "moved b (ds_agents s) (ds_agents (fst (snd (record_task_result db now later i success s))))"
proof (cases "get_sub_agent i s")
  case (Some a)
  let ?s1 = "update_sub_agent i (\<lambda>a'. a'\<lparr>sa_last_active := now, sa_completed := sa_completed a + 1,
      sa_rate := next_rate success (sa_completed a) (sa_rate a)\<rparr>) s"
  have 1: "moved b (ds_agents s) (ds_agents ?s1)" by (simp add: update_sub_agent_def moved_update may_move_def)
  have "moved b (ds_agents ?s1) (ds_agents (fst (snd (dismiss_from 2 db later i ?s1))))" by (rule moved_dismiss)
  then have "moved b (ds_agents s) (ds_agents (fst (snd (dismiss_from 2 db later i ?s1))))"
    unfolding moved_def update_sub_agent_def update_rows_def by fastforce
  then show ?thesis using 1 Some by (simp add: record_task_result_def Let_def)
qed (simp add: record_task_result_def)

lemma moved_room: "moved b (ds_agents s) (ds_agents (fst (snd (make_room cfg db now user s))))"
proof (cases "get_active_sub_agents user s")
  case (Cons a as)
  show ?thesis using moved_dismiss [of b s 1 db now "sa_id (oldest_of a as)"] Cons
    by (auto simp: make_room_def Let_def dismiss_oldest_inactive_def split: sum.split prod.split)
qed (simp add: make_room_def dismiss_oldest_inactive_def Let_def)

lemma moved_create:
  assumes "a' \<in> set (ds_agents (fst (snd (create_agent cfg db now a s))))" and "sa_id a' \<noteq> sa_id a"
  shows "\<exists>a \<in> set (ds_agents s). sa_id a = sa_id a' \<and> may_move b (sa_status a) (sa_status a')"
proof -
  obtain r s1 es where m: "make_room cfg db now (sa_user a) s = (r, s1, es)" by (cases "make_room cfg db now (sa_user a) s") auto
  have "a' \<in> set (ds_agents s1)"
    using assms m by (cases r) (auto simp: create_agent_def save_created_def save_sub_agent_def put_row_def split: if_splits)
  then show ?thesis using moved_room [of b s cfg db now "sa_user a"] m by (simp add: moved_def)
qed

lemma apply_moves:
  assumes "distinct (map sa_id (ds_agents s))" and "a' \<in> set (ds_agents (lifecycle_apply cfg x s))" and "created_id x \<noteq> Some (sa_id a')"
  shows "\<exists>a \<in> set (ds_agents s). sa_id a = sa_id a' \<and> may_move (is_suspend x) (sa_status a) (sa_status a')"
proof (cases x)
  case (OpCreate db now i session user label prompt kws tools)
  then show ?thesis using assms(2,3) moved_create by (simp add: fresh_agent_def)
next
  case (OpSuspend db now i)
  then show ?thesis using moved_suspend [OF assms(1), of db now i] assms(2) by (simp add: moved_def)
next
  case (OpRevive db now i)
  then show ?thesis using moved_revive [OF assms(1)] assms(2) by (simp add: moved_def)
next
  case (OpDismiss db now i)
  then show ?thesis using moved_dismiss assms(2) by (simp add: moved_def dismiss_agent_def)
next
  case (OpKill db i)
  have "moved False (ds_agents s) (ds_agents (fst (snd (kill_agent db i s))))"
    by (auto simp: kill_agent_def with_agent_def delete_sub_agent_def delete_rows_def moved_filter split: option.split)
  then show ?thesis using OpKill assms(2) by (simp add: moved_def)
next
  case (OpRecord db now later i success)
  then show ?thesis using moved_record assms(2) by (simp add: moved_def)
next
  case (OpCleanup db cutoff)
  have "moved False (ds_agents s) (ds_agents (fst (store_cleanup db cutoff s)))"
    by (auto simp: store_cleanup_def Let_def moved_filter)
  then show ?thesis using OpCleanup assms(2) by (simp add: moved_def)
qed

lemma dismissed_run:
  assumes "agents_ok cfg (ds_agents s)" and "\<forall>a \<in> set (ds_agents s). sa_id a = i \<longrightarrow> sa_status a = StatusDismissed"
    and "\<forall>x \<in> set ops. created_id x \<noteq> Some i"
  shows "\<forall>a \<in> set (ds_agents (lifecycle_run cfg ops s)). sa_id a = i \<longrightarrow> sa_status a = StatusDismissed"
  using assms
proof (induction ops arbitrary: s)
  case (Cons x ops)
  have "\<forall>a \<in> set (ds_agents (lifecycle_apply cfg x s)). sa_id a = i \<longrightarrow> sa_status a = StatusDismissed"
  proof (intro ballI impI)
    fix a' assume a': "a' \<in> set (ds_agents (lifecycle_apply cfg x s))" "sa_id a' = i"
    then obtain a where "a \<in> set (ds_agents s)" "sa_id a = i" "may_move (is_suspend x) (sa_status a) (sa_status a')"
      using apply_moves [OF _ a'(1)] Cons.prems(1,3) by (auto simp: agents_ok_def)
    then show "sa_status a' = StatusDismissed" using Cons.prems(2) by (auto simp: may_move_def)
  qed
  then show ?case using Cons.IH [of "lifecycle_apply cfg x s"] Cons.prems ok_apply by (simp add: lifecycle_run_def)
qed (simp add: lifecycle_run_def)

lemma never_suspended:
  assumes "agents_ok cfg (ds_agents s)" and "\<forall>a \<in> set (ds_agents s). sa_status a \<noteq> StatusSuspended"
    and "\<forall>x \<in> set ops. \<not> is_suspend x"
  shows "\<forall>a \<in> set (ds_agents (lifecycle_run cfg ops s)). sa_status a \<noteq> StatusSuspended"
  using assms
proof (induction ops arbitrary: s)
  case (Cons x ops)
  have "\<forall>a \<in> set (ds_agents (lifecycle_apply cfg x s)). sa_status a \<noteq> StatusSuspended"
  proof
    fix a' assume a': "a' \<in> set (ds_agents (lifecycle_apply cfg x s))"
    show "sa_status a' \<noteq> StatusSuspended"
    proof (cases "created_id x = Some (sa_id a')")
      case True
      then obtain db now session user label prompt kws tools where x: "x = OpCreate db now (sa_id a') session user label prompt kws tools"
        by (cases x) auto
      obtain r s1 es where m: "make_room cfg db now user s = (r, s1, es)" by (cases "make_room cfg db now user s") auto
      have s1: "\<forall>a \<in> set (ds_agents s1). sa_status a \<noteq> StatusSuspended"
        using moved_room [of False s cfg db now user] m Cons.prems(2) by (fastforce simp: moved_def may_move_def)
      have "a' \<in> set (ds_agents s1) \<or> sa_status a' = StatusActive" using a' x m
        by (cases r) (auto simp: create_agent_def save_created_def save_sub_agent_def put_row_def fresh_agent_def
            dest: arg_cong [where f = sa_status] split: if_splits)
      then show ?thesis using s1 by auto
    next
      case False
      then show ?thesis using apply_moves [OF _ a' False] Cons.prems by (force simp: agents_ok_def may_move_def)
    qed
  qed
  then show ?case using Cons.IH [of "lifecycle_apply cfg x s"] Cons.prems ok_apply by (simp add: lifecycle_run_def)
qed (simp add: lifecycle_run_def)


section \<open>The tables are keyed stores\<close>

lemma find_filter_other: "find P (filter Q t) = find (\<lambda>x. P x \<and> Q x) t"
  by (induction t) auto

lemma find_append: "find P (xs @ ys) = (case find P xs of Some x \<Rightarrow> Some x | None \<Rightarrow> find P ys)"
  by (induction xs) auto

lemma row_of_put: "row_of key k (put_row key r t) = (if k = key r then Some r else row_of key k t)"
proof (cases "k = key r")
  case True
  then have "find (\<lambda>x. key x = k) (filter (\<lambda>x. key x \<noteq> key r) t) = None" by (auto simp: find_None_iff)
  then show ?thesis using True by (simp add: row_of_def put_row_def find_append)
next
  case False
  then have "(\<lambda>x. key x = k \<and> key x \<noteq> key r) = (\<lambda>x. key x = k)" by auto
  then show ?thesis using False by (simp add: row_of_def put_row_def find_append find_filter_other split: option.split)
qed

lemma row_of_delete: "row_of key k' (delete_rows key k t) = (if k' = k then None else row_of key k' t)"
proof (cases "k' = k")
  case True
  then show ?thesis by (auto simp: row_of_def delete_rows_def find_None_iff)
next
  case False
  then have "(\<lambda>x. key x = k' \<and> key x \<noteq> k) = (\<lambda>x. key x = k')" by auto
  then show ?thesis using False by (simp add: row_of_def delete_rows_def find_filter_other)
qed

interpretation agent_rows: keyed_store "\<lambda>t k. row_of sa_id k t" "\<lambda>k r. put_row sa_id r" "delete_rows sa_id"
    "\<lambda>t. True" "\<lambda>k r. sa_id r = k"
  by unfold_locales (auto simp: row_of_put row_of_delete)

interpretation task_rows: keyed_store "\<lambda>t k. row_of bt_id k t" "\<lambda>k r. put_row bt_id r" "delete_rows bt_id"
    "\<lambda>t. True" "\<lambda>k r. bt_id r = k"
  by unfold_locales (auto simp: row_of_put row_of_delete)

interpretation template_rows: keyed_store "\<lambda>t k. row_of rt_id k t" "\<lambda>k r. put_row rt_id r" "delete_rows rt_id"
    "\<lambda>t. True" "\<lambda>k r. rt_id r = k"
  by unfold_locales (auto simp: row_of_put row_of_delete)

section \<open>Properties\<close>

text \<open>
  C38: From an empty database, and through operations that run one after the other, no user ever has more
  active sub-agents than the configured limit (one, when the limit is not positive), whichever database
  calls fail. Creations that overlap can exceed it (\<open>parallel_creation_exceeds_limit\<close>).
\<close>

theorem active_limit_kept:
  "length (get_active_sub_agents user (lifecycle_run cfg ops new_sqlite_store)) \<le> max 1 (nat (dc_max_active cfg))"
  using ok_run [OF ok_new, of cfg ops] by (simp add: agents_ok_def active_rows_store)

text \<open>
  The success rate of every sub-agent stays between 0 and 1, with the rounding errors of the
  floating-point average included.
\<close>

theorem success_rate_bounded:
  "list_all (\<lambda>a. 0 \<le> sa_rate a \<and> sa_rate a \<le> 1) (ds_agents (lifecycle_run cfg ops new_sqlite_store))"
  using ok_run [OF ok_new, of cfg ops] by (simp add: agents_ok_def list_all_iff)

text \<open>
  A dismissed sub-agent stays dismissed until its record is deleted: no operation brings it back,
  only a new agent with the same identifier could. The tools describe a dismissal as a suspension that
  Revive undoes; in the code Revive refuses it.
\<close>

theorem dismissed_is_final:
  assumes "get_sub_agent i (lifecycle_run cfg ops new_sqlite_store) = Some a" and "sa_status a = StatusDismissed"
    and "\<forall>x \<in> set later. created_id x \<noteq> Some i"
  shows "case get_sub_agent i (lifecycle_run cfg (ops @ later) new_sqlite_store) of
     None \<Rightarrow> True | Some b \<Rightarrow> sa_status b = StatusDismissed"
proof -
  let ?s = "lifecycle_run cfg ops new_sqlite_store"
  have ok: "agents_ok cfg (ds_agents ?s)" by (rule ok_run [OF ok_new])
  have "\<forall>b \<in> set (ds_agents ?s). sa_id b = i \<longrightarrow> sa_status b = StatusDismissed"
    using only_row ok assms(1,2) by (auto simp: agents_ok_def get_sub_agent_def)
  then have "\<forall>b \<in> set (ds_agents (lifecycle_run cfg later ?s)). sa_id b = i \<longrightarrow> sa_status b = StatusDismissed"
    by (rule dismissed_run [OF ok _ assms(3)])
  moreover have "lifecycle_run cfg (ops @ later) new_sqlite_store = lifecycle_run cfg later ?s" by (simp add: lifecycle_run_def)
  ultimately show ?thesis
    using row_of_set [of sa_id i] by (auto simp: get_sub_agent_def split: option.split)
qed

definition all_db :: "nat \<Rightarrow> bool" where "all_db n = True"

definition sample_delegation :: delegation_config where
  "sample_delegation =
     \<lparr>dc_default_tools = [''read_file''], dc_max_active = 1, dc_max_tasks = 3, dc_retention = 14, dc_reuse_threshold = fl (3 / 5)\<rparr>"

definition sample_life :: "lifecycle_op list" where
  "sample_life =
     [OpCreate all_db 1 ''agent-1'' ''s1'' ''u'' ''a'' ''be brief'' [''go''] [''read_file''],
      OpCreate all_db 2 ''agent-2'' ''s2'' ''u'' ''b'' ''be brief'' [''go''] [''read_file'']]"

theorem dismissed_is_final_witness:
  "case get_sub_agent ''agent-1'' (lifecycle_run sample_delegation (sample_life @ [OpRevive all_db 3 ''agent-1'']) new_sqlite_store) of
     None \<Rightarrow> True | Some b \<Rightarrow> sa_status b = StatusDismissed"
proof (rule dismissed_is_final)
  show "get_sub_agent ''agent-1'' (lifecycle_run sample_delegation sample_life new_sqlite_store) =
      Some ((fresh_agent 1 ''agent-1'' ''s1'' ''u'' ''a'' ''be brief'' [''go''] [''read_file''])\<lparr>sa_status := StatusDismissed, sa_last_active := 2\<rparr>)"
    by code_simp
qed simp_all

text \<open>
  The state \<open>suspended\<close> is out of reach, and so is reviving. The only operation that suspends
  has no caller (the tool's action \<open>dismiss\<close>, described as suspending, dismisses for good), so
  without it \<open>Revive\<close> fails in every reachable state, for every agent.
\<close>

theorem revive_is_dead:
  assumes "\<forall>x \<in> set ops. \<not> is_suspend x"
  shows "fst (revive_agent cfg db now i (lifecycle_run cfg ops new_sqlite_store)) \<noteq> Inr ()"
proof -
  let ?s = "lifecycle_run cfg ops new_sqlite_store"
  have "\<forall>a \<in> set (ds_agents ?s). sa_status a \<noteq> StatusSuspended"
    by (rule never_suspended [OF ok_new _ assms]) (simp add: new_sqlite_store_def)
  then have "sa_status a \<noteq> StatusSuspended" if "get_sub_agent i ?s = Some a" for a
    using row_of_set [of sa_id i "ds_agents ?s" a] that by (auto simp: get_sub_agent_def)
  then show ?thesis by (auto simp: revive_agent_def with_agent_def split: option.split)
qed

theorem revive_is_dead_witness:
  "fst (revive_agent sample_delegation all_db 3 ''agent-1'' (lifecycle_run sample_delegation sample_life new_sqlite_store)) \<noteq> Inr ()"
  by (rule revive_is_dead) (simp add: sample_life_def)

lemma active_saved:
  "distinct (map sa_id as) \<Longrightarrow> \<forall>a \<in> set as. sa_user a = user \<and> sa_status a = StatusActive \<Longrightarrow>
     \<forall>a \<in> set as. \<forall>b \<in> set (ds_agents s). sa_id b \<noteq> sa_id a \<Longrightarrow>
     active_rows user (ds_agents (fold save_sub_agent as s)) = active_rows user (ds_agents s) + length as"
proof (induction as arbitrary: s)
  case (Cons a as)
  let ?a = "a\<lparr>sa_keywords := through_column (sa_keywords a), sa_tools := through_column (sa_tools a)\<rparr>"
  have t: "ds_agents (save_sub_agent a s) = ds_agents s @ [?a]"
    using Cons.prems(3) by (auto simp: save_sub_agent_def put_row_def intro!: filter_True)
  have "active_rows user (ds_agents (fold save_sub_agent as (save_sub_agent a s))) =
      active_rows user (ds_agents (save_sub_agent a s)) + length as"
    by (rule Cons.IH) (use Cons.prems t in \<open>auto simp: image_iff\<close>)
  then show ?case using Cons.prems(2) by (simp add: t active_rows_def)
qed simp

text \<open>
  Goroutines that create sub-agents at the same time get past the limit together: when all of
  them have looked for room before the first one saves, every agent is created and stays active, as
  many as there are goroutines. (\<open>delegate_tasks\<close> runs up to ten of them in parallel.)
\<close>

theorem parallel_creation_exceeds_limit:
  assumes "1 \<le> dc_max_active cfg" and "distinct (map sa_id as)" and "\<forall>a \<in> set as. sa_user a = user \<and> sa_status a = StatusActive"
  shows "fst (make_room cfg all_db now user new_sqlite_store) = Inr ()
    \<and> fst (snd (make_room cfg all_db now user new_sqlite_store)) = new_sqlite_store
    \<and> length (get_active_sub_agents user (fold (\<lambda>a s. fst (snd (save_created all_db a s))) as new_sqlite_store)) = length as"
proof -
  have f: "fold (\<lambda>a s. fst (snd (save_created all_db a s))) as s = fold save_sub_agent as s" for s
    by (induction as arbitrary: s) (simp_all add: save_created_def all_db_def)
  have "active_rows user (ds_agents (fold save_sub_agent as new_sqlite_store)) = length as"
    using active_saved [OF assms(2,3), of new_sqlite_store] by (simp add: new_sqlite_store_def)
  then show ?thesis using assms(1)
    by (simp add: make_room_def all_db_def f active_rows_store) (simp add: new_sqlite_store_def get_active_sub_agents_def)
qed

theorem parallel_creation_exceeds_limit_witness:
  "dc_max_active sample_delegation = 1
   \<and> length (get_active_sub_agents ''u'' (fold (\<lambda>a s. fst (snd (save_created all_db a s)))
       [fresh_agent 1 ''agent-1'' ''s1'' ''u'' ''a'' [] [] [], fresh_agent 1 ''agent-2'' ''s2'' ''u'' ''b'' [] [] []] new_sqlite_store)) = 2"
  using parallel_creation_exceeds_limit [of sample_delegation
      "[fresh_agent 1 ''agent-1'' ''s1'' ''u'' ''a'' [] [] [], fresh_agent 1 ''agent-2'' ''s2'' ''u'' ''b'' [] [] []]" "''u''" 1]
  by (simp add: sample_delegation_def fresh_agent_def)

end
