(* ===== verification/Delegation.thy ===== *)
theory Delegation
  imports SubAgents RegexRuns ToolRegistry
begin

text \<open>
  Delegating a task: keywords and category of a task and the timeout estimate
  (\<open>pkg/delegation/timeout_estimator.go\<close>), role templates (\<open>templates.go\<close>), the tools of
  \<open>tools_delegate.go\<close>, \<open>tools_background.go\<close> and \<open>tools_manage.go\<close>, and the delivery of background
  results (\<open>agent/delegation_integration.go\<close>). The model that runs a task is a parameter. Durations
  are nanoseconds.
\<close>

section \<open>Categories and keywords\<close>

definition code_patterns :: "string list" where
  "code_patterns =
     [''write code'', ''implement'', ''debug'', ''fix bug'', ''refactor'', ''create function'', ''create class'', ''add method'', ''script'',
      ''program'', ''coding'', ''development'', ''build'', ''compile'']"

definition code_extensions :: "string list" where
  "code_extensions = [''.go'', ''.py'', ''.js'', ''.ts'', ''.java'', ''.cpp'', ''.c'', ''.rs'', ''.rb'']"

definition research_patterns :: "string list" where
  "research_patterns =
     [''research'', ''investigate'', ''explore'', ''find information'', ''look up'', ''search'', ''gather'', ''analyze data'', ''compare'',
      ''evaluate options'', ''survey'']"

definition analysis_patterns :: "string list" where
  "analysis_patterns =
     [''analyze'', ''review'', ''examine'', ''assess'', ''audit'', ''evaluate'', ''check'', ''verify'', ''validate'', ''inspect'',
      ''summarize findings'', ''report on'']"

definition writing_patterns :: "string list" where
  "writing_patterns =
     [''write'', ''draft'', ''compose'', ''create document'', ''generate'', ''prepare report'', ''document'', ''article'', ''blog'', ''email'',
      ''message'', ''proposal'', ''specification'']"

definition contains_any :: "string list \<Rightarrow> string \<Rightarrow> bool" where
  "contains_any ps s \<longleftrightarrow> list_ex (\<lambda>p. str_contains s p) ps"

definition classify_task :: "string \<Rightarrow> task_category" where
  "classify_task task =
     (let t = to_lower task in
      if contains_any code_patterns t then ''code''
      else if str_contains t ''```'' \<or> contains_any code_extensions t then ''code''
      else if contains_any research_patterns t then ''research''
      else if contains_any analysis_patterns t then ''analysis''
      else if contains_any writing_patterns t then ''writing''
      else ''general'')"

definition stop_words :: "string list" where
  "stop_words =
     [''the'', ''a'', ''an'', ''is'', ''are'', ''was'', ''were'', ''be'', ''been'', ''being'', ''have'', ''has'', ''had'', ''do'', ''does'',
      ''did'', ''will'', ''would'', ''could'', ''should'', ''may'', ''might'', ''must'', ''shall'', ''can'', ''need'', ''to'', ''of'', ''in'',
      ''for'', ''on'', ''with'', ''at'', ''by'', ''from'', ''as'', ''into'', ''through'', ''during'', ''before'', ''after'', ''above'',
      ''below'', ''between'', ''under'', ''again'', ''further'', ''then'', ''once'', ''here'', ''there'', ''when'', ''where'', ''why'', ''how'',
      ''all'', ''each'', ''few'', ''more'', ''most'', ''other'', ''some'', ''such'', ''no'', ''nor'', ''not'', ''only'', ''own'', ''same'', ''so'',
      ''than'', ''too'', ''very'', ''just'', ''and'', ''but'', ''if'', ''or'', ''because'', ''until'', ''while'', ''please'', ''help'', ''me'',
      ''i'', ''you'', ''we'', ''they'', ''it'', ''this'', ''that'', ''these'', ''those'', ''what'', ''which'', ''who'']"

definition is_letter :: "char \<Rightarrow> bool" where
  "is_letter c \<longleftrightarrow> class_matches (Range CHR ''a'' CHR ''z'') c"

text \<open>The matches of \<open>[a-z]+\<close>: the longest runs of letters.\<close>

function letter_runs :: "string \<Rightarrow> string list" where
  "letter_runs s =
     (case dropWhile (\<lambda>c. \<not> is_letter c) s of
        [] \<Rightarrow> []
      | c # cs \<Rightarrow> takeWhile is_letter (c # cs) # letter_runs (dropWhile is_letter (c # cs)))"
  by pat_completeness auto
termination
proof (relation "measure length", goal_cases)
  case (2 s c cs)
  then have c: "is_letter c" by (metis hd_dropWhile list.sel(1) list.distinct(1))
  have "length (c # cs) \<le> length s" using length_dropWhile_le [of "\<lambda>c. \<not> is_letter c" s] 2 by simp
  moreover have "length (dropWhile is_letter (c # cs)) \<le> length cs" using c length_dropWhile_le [of is_letter cs] by simp
  ultimately show ?case by simp
qed simp

declare letter_runs.simps [simp del]

definition add_keyword :: "string \<Rightarrow> string list \<Rightarrow> string list" where
  "add_keyword w ks = (if w \<in> set ks then ks else ks @ [w])"

definition plain_keywords :: "string \<Rightarrow> string list" where
  "plain_keywords t = foldl (\<lambda>ks w. if length w < 3 \<or> w \<in> set stop_words then ks else add_keyword w ks) [] (letter_runs t)"

definition tech_terms :: "string list list" where
  "tech_terms =
     [[''api'', ''sdk'', ''cli'', ''http'', ''json'', ''yaml'', ''xml'', ''sql'', ''git'', ''docker''],
      [''golang'', ''python'', ''javascript'', ''typescript'', ''rust'', ''java''],
      [''test'', ''debug'', ''deploy'', ''build'', ''compile'', ''lint''],
      [''database'', ''server'', ''client'', ''backend'', ''frontend''],
      [''auth'', ''login'', ''logout'', ''token'', ''session'']]"

fun any_of :: "string list \<Rightarrow> rx" where
  "any_of [] = RNone AnyChar"
| "any_of [w] = rlits w"
| "any_of (w # v # ws) = RAlt (rlits w) (any_of (v # ws))"

definition tech_pattern :: "string list \<Rightarrow> rx" where
  "tech_pattern ws = RSeq RBound (RSeq (any_of ws) RBound)"

definition extract_keywords :: "string \<Rightarrow> string list" where
  "extract_keywords task =
     (let t = to_lower task in
      foldl (\<lambda>ks p. foldl (\<lambda>ks m. add_keyword (rm_text m) ks) ks (find_all_rx (tech_pattern p) None t))
        (plain_keywords t) tech_terms)"

section \<open>Timeouts\<close>

record timeout_estimate =
  to_duration :: int
  to_category :: task_category
  to_confidence :: float64

record timeout_estimator =
  te_defaults :: "(task_category, int) gomap"
  te_max :: int
  te_min :: int

definition second_ns :: int where "second_ns = 1000000000"

definition new_timeout_estimator :: timeout_estimator where
  "new_timeout_estimator =
     \<lparr>te_defaults =
        [(''research'', 5 * 60 * second_ns), (''code'', 10 * 60 * second_ns), (''analysis'', 7 * 60 * second_ns),
         (''writing'', 8 * 60 * second_ns), (''general'', 5 * 60 * second_ns), (''custom'', 5 * 60 * second_ns)],
      te_max = 30 * 60 * second_ns, te_min = 30 * second_ns\<rparr>"

definition set_default_timeout :: "task_category \<Rightarrow> int \<Rightarrow> timeout_estimator \<Rightarrow> timeout_estimator" where
  "set_default_timeout c d e = e\<lparr>te_defaults := mput c d (te_defaults e)\<rparr>"

definition set_limits :: "int \<Rightarrow> int \<Rightarrow> timeout_estimator \<Rightarrow> timeout_estimator" where
  "set_limits lo hi e = e\<lparr>te_min := lo, te_max := hi\<rparr>"

definition default_estimate :: "timeout_estimator \<Rightarrow> task_category \<Rightarrow> timeout_estimate" where
  "default_estimate e c =
     \<lparr>to_duration =
        (case mget (te_defaults e) c of
           Some d \<Rightarrow> d
         | None \<Rightarrow> (case mget (te_defaults e) ''general'' of Some d \<Rightarrow> d | None \<Rightarrow> 0)),
      to_category = c, to_confidence = fl (1 / 2)\<rparr>"

text \<open>The loop over the metrics, newest first: weighted sum and total weight.\<close>

fun weigh :: "nat \<Rightarrow> task_metric list \<Rightarrow> float64 \<times> float64 \<Rightarrow> float64 \<times> float64" where
  "weigh i [] (acc, weight) = (acc, weight)"
| "weigh i (m # ms) (acc, weight) =
     (let w = fl (of_nat (Suc i))
      in weigh (Suc i) ms (fadd acc (fmul (fl (of_int (tm_duration m))) w), fadd weight w))"

definition clamp :: "timeout_estimator \<Rightarrow> int \<Rightarrow> int" where
  "clamp e d = (let d1 = (if d < te_min e then te_min e else d) in if d1 > te_max e then te_max e else d1)"

text \<open>The conversion of a float to a duration cuts off the fraction.\<close>

definition truncate_float :: "float64 \<Rightarrow> int" where
  "truncate_float x = (if x < 0 then \<lceil>x\<rceil> else \<lfloor>x\<rfloor>)"

definition estimate_timeout ::
    "timeout_estimator \<Rightarrow> bool \<Rightarrow> string \<Rightarrow> task_category \<Rightarrow> delegation_store \<Rightarrow> timeout_estimate" where
  "estimate_timeout e db user category s =
     (let metrics = get_task_metrics user category 20 s in
      if \<not> db \<or> length metrics < 3 then default_estimate e category
      else
        (let (acc, weight) = weigh 0 metrics (0, 0) in
         if weight = 0 then default_estimate e category
         else
           (let avg = fdiv acc weight;
                confidence = fdiv (of_nat (length (filter tm_success metrics))) (of_nat (length metrics));
                buffer = fsub (fl (3 / 2)) (fmul confidence (fl (1 / 2)));
                ms = fmul avg buffer
            in \<lparr>to_duration = clamp e (wrap64 (truncate_float ms * 1000000)), to_category = category, to_confidence = confidence\<rparr>)))"

definition estimate_with_hint ::
    "timeout_estimator \<Rightarrow> bool \<Rightarrow> string \<Rightarrow> task_category \<Rightarrow> int \<Rightarrow> delegation_store \<Rightarrow> timeout_estimate" where
  "estimate_with_hint e db user category hint s =
     (let d = wrap64 (hint * second_ns) in
      if hint > 0 \<and> te_min e \<le> d \<and> d \<le> te_max e
      then \<lparr>to_duration = d, to_category = category, to_confidence = 1\<rparr>
      else estimate_timeout e db user category s)"

definition record_metric :: "bool \<Rightarrow> int \<Rightarrow> string \<Rightarrow> string \<Rightarrow> string \<Rightarrow> int \<Rightarrow> bool \<Rightarrow> delegation_store \<Rightarrow> delegation_store" where
  "record_metric db now i user task duration_ms success s =
     (if \<not> db then s
      else (case save_task_metric \<lparr>tm_id = i, tm_user = user, tm_category = classify_task task, tm_hint = take 100 task,
                tm_duration = duration_ms, tm_success = success, tm_created = now\<rparr> s of
              None \<Rightarrow> s | Some s' \<Rightarrow> s'))"

section \<open>Role templates\<close>

fun dedupe_strings :: "string list \<Rightarrow> string list \<Rightarrow> string list" where
  "dedupe_strings seen [] = []"
| "dedupe_strings seen (x # xs) = (if x \<in> set seen then dedupe_strings seen xs else x # dedupe_strings (x # seen) xs)"

definition category_tools :: "string list \<Rightarrow> task_category \<Rightarrow> string list" where
  "category_tools defaults c =
     dedupe_strings [] (defaults @
       (if c = ''research'' then [''web_search'', ''web_fetch'']
        else if c = ''code'' then [''read_file'', ''write_file'', ''edit_file'', ''list_dir'']
        else if c = ''analysis'' then [''read_file'', ''list_dir'']
        else if c = ''writing'' then [''read_file'', ''write_file'', ''edit_file'']
        else []))"

definition effective_tools :: "string list \<Rightarrow> string list \<Rightarrow> string list" where
  "effective_tools defaults custom = (if custom \<noteq> [] then custom else defaults)"

text \<open>\<open>prompts\<close>: the fixed role prompts of the categories.\<close>

definition new_template ::
    "int \<Rightarrow> string \<Rightarrow> string \<Rightarrow> string \<Rightarrow> string \<Rightarrow> string list \<Rightarrow> string list \<Rightarrow> task_category \<Rightarrow> role_template" where
  "new_template now i user name prompt keywords tools category =
     \<lparr>rt_id = i, rt_user = user, rt_name = name, rt_role_prompt = prompt, rt_keywords = keywords, rt_tools = tools,
      rt_category = category, rt_successes = 0, rt_failures = 0, rt_avg_duration = 0, rt_created = now, rt_last_used = now\<rparr>"

definition create_default_template ::
    "(task_category \<Rightarrow> string) \<Rightarrow> string list \<Rightarrow> int \<Rightarrow> string \<Rightarrow> string \<Rightarrow> task_category \<Rightarrow> string list \<Rightarrow> role_template" where
  "create_default_template prompts defaults now i user category keywords =
     new_template now i user (category @ ''-specialist'') (prompts category) keywords (category_tools defaults category) category"

text \<open>The flag tells whether a stored template was found; database calls: the search and the update of the last use.\<close>

definition find_or_create ::
    "(task_category \<Rightarrow> string) \<Rightarrow> string list \<Rightarrow> (nat \<Rightarrow> bool) \<Rightarrow> int \<Rightarrow> string \<Rightarrow> string \<Rightarrow> string \<Rightarrow> string \<Rightarrow> string list \<Rightarrow>
     delegation_store \<Rightarrow> role_template \<times> bool \<times> delegation_store" where
  "find_or_create prompts defaults db now i user task prompt tools s =
     (let keywords = extract_keywords task; category = classify_task task in
      if prompt \<noteq> [] then
        (new_template now i user (''custom-'' @ category) prompt keywords (effective_tools defaults tools) category, False, s)
      else
        (case (if db 0 then find_best_match_template user keywords (fl (3 / 5)) s else None) of
           Some t \<Rightarrow>
             (let t' = t\<lparr>rt_last_used := now\<rparr> in (t', True, if db 1 then save_role_template t' s else s))
         | None \<Rightarrow> (create_default_template prompts defaults now i user category keywords, False, s)))"

definition save_template :: "bool \<Rightarrow> int \<Rightarrow> role_template \<Rightarrow> delegation_store \<Rightarrow> delegation_store" where
  "save_template db now t s = (if db then save_role_template (t\<lparr>rt_last_used := now\<rparr>) s else s)"

text \<open>Division by two rounds towards zero.\<close>

definition half :: "int \<Rightarrow> int" where
  "half x = (if x < 0 then - ((- x) div 2) else x div 2)"

definition record_success :: "bool \<Rightarrow> bool \<Rightarrow> int \<Rightarrow> string \<Rightarrow> int \<Rightarrow> delegation_store \<Rightarrow> bool \<times> delegation_store" where
  "record_success db db2 now i duration s =
     (if \<not> db then (False, s)
      else (case find_best_match_template [] [] 0 s of
              None \<Rightarrow> (True, s)
            | Some t \<Rightarrow>
                if rt_id t \<noteq> i then (True, s)
                else if \<not> db2 then (False, s)
                else (True, save_role_template
                       (t\<lparr>rt_successes := rt_successes t + 1, rt_last_used := now,
                          rt_avg_duration := (if rt_avg_duration t = 0 then duration else half (wrap64 (rt_avg_duration t + duration)))\<rparr>) s)))"


section \<open>Arguments and answers of the tools\<close>

text \<open>A value of type \<open>any\<close>. Decoding JSON makes neither a \<open>GoInt\<close> nor a \<open>GoStrings\<close>.\<close>

datatype go_any = GoNil | GoString string | GoFloat float64 | GoInt int | GoBool bool | GoSlice "go_any list"
  | GoStrings "string list" | GoMap "(string \<times> go_any) list"

type_synonym go_args = "(string, go_any) gomap"

fun from_json :: "go_any \<Rightarrow> bool" where
  "from_json (GoInt i) \<longleftrightarrow> False"
| "from_json (GoStrings ss) \<longleftrightarrow> False"
| "from_json (GoSlice vs) \<longleftrightarrow> (\<forall>v \<in> set vs. from_json v)"
| "from_json (GoMap m) \<longleftrightarrow> (\<forall>kv \<in> set m. from_json (snd kv))"
| "from_json _ \<longleftrightarrow> True"

definition string_value :: "go_args \<Rightarrow> string \<Rightarrow> string option" where
  "string_value args k = (case mget args k of Some (GoString s) \<Rightarrow> Some s | _ \<Rightarrow> None)"

definition string_or_empty :: "go_args \<Rightarrow> string \<Rightarrow> string" where
  "string_or_empty args k = (case string_value args k of Some s \<Rightarrow> s | None \<Rightarrow> [])"

definition int_or_zero :: "go_args \<Rightarrow> string \<Rightarrow> int" where
  "int_or_zero args k = (case mget args k of Some (GoInt i) \<Rightarrow> i | _ \<Rightarrow> 0)"

definition to_string_slice :: "go_any option \<Rightarrow> string list" where
  "to_string_slice v =
     (case v of
        Some (GoStrings ss) \<Rightarrow> ss
      | Some (GoSlice vs) \<Rightarrow> List.map_filter (\<lambda>x. case x of GoString s \<Rightarrow> Some s | _ \<Rightarrow> None) vs
      | _ \<Rightarrow> [])"

definition get_optional_bool :: "go_any option \<Rightarrow> bool \<Rightarrow> bool" where
  "get_optional_bool v d = (case v of Some (GoBool b) \<Rightarrow> b | _ \<Rightarrow> d)"

definition tool_error_result :: "string \<Rightarrow> tool_result" where
  "tool_error_result msg = (error_result msg)\<lparr>rs_for_user := msg\<rparr>"

definition tool_success_result :: "string \<Rightarrow> string \<Rightarrow> tool_result" where
  "tool_success_result llm user = (new_tool_result llm)\<lparr>rs_for_user := user\<rparr>"

section \<open>Running a delegated task\<close>

text \<open>
  What a delegated task meets: the fixed role prompts, the texts of errors, the answers of the
  database per step, clocks, fresh identifiers and the model, which is called under a deadline: its
  answer, or its error, may depend on it.
\<close>

record delegate_env =
  de_prompts :: "task_category \<Rightarrow> string"
  de_show :: "lifecycle_error \<Rightarrow> string"
  de_template_db :: "nat \<Rightarrow> bool"
  de_reuse_db :: bool
  de_create_db :: "nat \<Rightarrow> bool"
  de_metrics_db :: bool
  de_record_db :: "nat \<Rightarrow> bool"
  de_now :: int
  de_end :: int
  de_dismissed :: int
  de_template_id :: string
  de_agent_id :: string
  de_session_id :: string
  de_chat :: "int \<Rightarrow> chat_message list \<Rightarrow> string + string"

record delegation_system =
  dg_store :: delegation_store
  dg_config :: delegation_config
  dg_estimator :: timeout_estimator
  dg_workspace :: string

definition executor_messages :: "string \<Rightarrow> string \<Rightarrow> string \<Rightarrow> chat_message list" where
  "executor_messages workspace prompt task =
     [text_message ''system''
        (prompt @ [newline, newline] @ ''You are a specialized sub-agent working on a delegated task.'' @ [newline] @
         ''Complete the task independently and provide a clear summary of your work.'' @ [newline, newline] @
         ''Working directory: '' @ workspace),
      text_message ''user'' task]"

text \<open>The check mark and the cross in front of an answer.\<close>

definition check_mark :: string where "check_mark = [CHR 0xE2, CHR 0x9C, CHR 0x85]"
definition cross_mark :: string where "cross_mark = [CHR 0xE2, CHR 0x9D, CHR 0x8C]"
definition hourglass :: string where "hourglass = [CHR 0xE2, CHR 0x8F, CHR 0xB3]"

definition quoted :: "string \<Rightarrow> string" where
  "quoted s = [CHR 0x27] @ s @ [CHR 0x27]"

text \<open>The life cycle's view of a task that has run; the error of the database is ignored.\<close>

definition note_result :: "delegate_env \<Rightarrow> string \<Rightarrow> bool \<Rightarrow> delegation_store \<Rightarrow> delegation_store" where
  "note_result e i success s = fst (snd (record_task_result (de_record_db e) (de_end e) (de_dismissed e) i success s))"

definition delegate_task :: "delegate_env \<Rightarrow> string \<Rightarrow> go_args \<Rightarrow> delegation_system \<Rightarrow> tool_result \<times> delegation_system \<times> int" where
  "delegate_task e user args ds =
     (case string_value args ''task'' of
        None \<Rightarrow> (tool_error_result ''task is required'', ds, 0)
      | Some task \<Rightarrow>
          (let label = string_or_empty args ''label'';
               cat = string_or_empty args ''category'';
               category = (if cat \<noteq> [] then cat else classify_task task);
               keywords = extract_keywords task;
               (template, found, s1) = find_or_create (de_prompts e) (dc_default_tools (dg_config ds)) (de_template_db e) (de_now e)
                 (de_template_id e) user task (string_or_empty args ''role_prompt'') (to_string_slice (mget args ''tools'')) (dg_store ds);
               reused = (if get_optional_bool (mget args ''reuse_existing'') True
                         then (case find_reusable (dg_config ds) (de_reuse_db e) user keywords s1 of Inl err \<Rightarrow> None | Inr a \<Rightarrow> a) else None);
               (made, s2) = (case reused of
                   Some a \<Rightarrow> (Inr a, s1)
                 | None \<Rightarrow> (case create_agent (dg_config ds) (de_create_db e) (de_now e)
                              (fresh_agent (de_now e) (de_agent_id e) (de_session_id e) user label (rt_role_prompt template)
                                 (rt_keywords template) (rt_tools template)) s1 of
                              (r, s', es) \<Rightarrow> (r, s')))
           in case made of
                Inl err \<Rightarrow> (tool_error_result (''Failed to create sub-agent: '' @ de_show e err), ds\<lparr>dg_store := s2\<rparr>, 0)
              | Inr agent \<Rightarrow>
                  (let timeout = estimate_with_hint (dg_estimator ds) (de_metrics_db e) user category (int_or_zero args ''timeout_hint'') s2 in
                   case de_chat e (to_duration timeout) (executor_messages (dg_workspace ds) (rt_role_prompt template) task) of
                     Inl err \<Rightarrow>
                       (tool_error_result (''Task execution failed: '' @ err), ds\<lparr>dg_store := note_result e (sa_id agent) False s2\<rparr>,
                        to_duration timeout)
                   | Inr answer \<Rightarrow>
                       (let shown = (if label = [] then sa_label agent else label) in
                        (tool_success_result
                           (''Sub-agent '' @ quoted shown @ '' completed task successfully.'' @ [newline, newline] @ ''Result:'' @ [newline] @ answer)
                           (check_mark @ '' Sub-agent '' @ quoted shown @ '' completed the task.''),
                         ds\<lparr>dg_store := note_result e (sa_id agent) True s2\<rparr>, to_duration timeout)))))"

text \<open>A task of a batch; \<open>de_now\<close> is the clock of its default label too.\<close>

record batch_result =
  ba_label :: string
  ba_result :: string
  ba_success :: bool

definition execute_single_task ::
    "delegate_env \<Rightarrow> string \<Rightarrow> string \<Rightarrow> string \<Rightarrow> task_category \<Rightarrow> delegation_system \<Rightarrow> batch_result \<times> delegation_system" where
  "execute_single_task e user task label category ds =
     (let shown = (if label = [] then ''Task-'' @ show_int (de_now e mod 10000) else label);
          (template, found, s1) = find_or_create (de_prompts e) (dc_default_tools (dg_config ds)) (de_template_db e) (de_now e)
            (de_template_id e) user task [] [] (dg_store ds);
          (made, s2, es) = create_agent (dg_config ds) (de_create_db e) (de_now e)
            (fresh_agent (de_now e) (de_agent_id e) (de_session_id e) user shown (rt_role_prompt template) (rt_keywords template)
               (rt_tools template)) s1
      in case made of
           Inl err \<Rightarrow> (\<lparr>ba_label = shown, ba_result = de_show e err, ba_success = False\<rparr>, ds\<lparr>dg_store := s2\<rparr>)
         | Inr agent \<Rightarrow>
             (let timeout = estimate_timeout (dg_estimator ds) (de_metrics_db e) user category s2 in
              case de_chat e (to_duration timeout) (executor_messages (dg_workspace ds) (rt_role_prompt template) task) of
                Inl err \<Rightarrow>
                  (\<lparr>ba_label = shown, ba_result = err, ba_success = False\<rparr>,
                   ds\<lparr>dg_store := note_result e (sa_id agent) False s2\<rparr>)
              | Inr answer \<Rightarrow>
                  (\<lparr>ba_label = shown, ba_result = (if length answer > 200 then take 200 answer @ ''...'' else answer), ba_success = True\<rparr>,
                   ds\<lparr>dg_store := note_result e (sa_id agent) True s2\<rparr>)))"

text \<open>Several summaries are printed with \<open>%s\<close> as a slice: in brackets, separated by blanks.\<close>

definition format_batch_results :: "batch_result list \<Rightarrow> tool_result" where
  "format_batch_results rs =
     (let ok = length (filter ba_success rs); bad = length (filter (\<lambda>r. \<not> ba_success r) rs);
          line = (\<lambda>r. (if ba_success r then check_mark else cross_mark) @ '' **'' @ ba_label r @ ''**: '' @ ba_result r);
          counts = show_nat ok @ '' succeeded, '' @ show_nat bad @ '' failed''
      in tool_success_result
           (''Batch delegation completed: '' @ counts @ [newline, newline] @ ''['' @ join_with '' '' (map line rs) @ '']'')
           (''Batch complete: '' @ counts))"

text \<open>The parsed tasks of a batch: text, label and category.\<close>

fun parse_batch :: "nat \<Rightarrow> go_any list \<Rightarrow> string + (string \<times> string \<times> task_category) list" where
  "parse_batch i [] = Inr []"
| "parse_batch i (v # vs) =
     (case v of
        GoMap m \<Rightarrow>
          (case string_value m ''task'' of
             None \<Rightarrow> Inl (''Task '' @ show_nat (Suc i) @ '' is missing '' @ quoted ''task'' @ '' field'')
           | Some task \<Rightarrow>
               (let cat = string_or_empty m ''category'' in
                case parse_batch (Suc i) vs of
                  Inl err \<Rightarrow> Inl err
                | Inr ts \<Rightarrow> Inr ((task, string_or_empty m ''label'', if cat \<noteq> [] then cat else classify_task task) # ts)))
      | _ \<Rightarrow> Inl (''Task '' @ show_nat (Suc i) @ '' must be an object''))"

fun run_batch ::
    "(nat \<Rightarrow> delegate_env) \<Rightarrow> string \<Rightarrow> nat \<Rightarrow> (string \<times> string \<times> task_category) list \<Rightarrow> delegation_system \<Rightarrow>
     batch_result list \<times> delegation_system" where
  "run_batch env user i [] ds = ([], ds)"
| "run_batch env user i ((task, label, category) # ts) ds =
     (let (r, ds1) = execute_single_task (env i) user task label category ds; (rs, ds2) = run_batch env user (Suc i) ts ds1
      in (r # rs, ds2))"

text \<open>The tasks of a batch one after the other, as with \<open>parallel = false\<close>.\<close>

definition delegate_tasks ::
    "(nat \<Rightarrow> delegate_env) \<Rightarrow> string \<Rightarrow> go_args \<Rightarrow> delegation_system \<Rightarrow> tool_result \<times> delegation_system" where
  "delegate_tasks env user args ds =
     (case mget args ''tasks'' of
        None \<Rightarrow> (tool_error_result ''tasks is required'', ds)
      | Some (GoSlice vs) \<Rightarrow>
          if length vs > 10 then (tool_error_result ''Maximum 10 tasks allowed'', ds)
          else if vs = [] then (tool_error_result ''At least one task is required'', ds)
          else (case parse_batch 0 vs of
                  Inl err \<Rightarrow> (tool_error_result err, ds)
                | Inr ts \<Rightarrow> (case run_batch env user 0 ts ds of (rs, ds') \<Rightarrow> (format_batch_results rs, ds')))
      | Some _ \<Rightarrow> (tool_error_result ''tasks must be an array'', ds))"

definition manage_sub_agent ::
    "delegation_config \<Rightarrow> (nat \<Rightarrow> bool) \<Rightarrow> int \<Rightarrow> (lifecycle_error \<Rightarrow> string) \<Rightarrow> go_args \<Rightarrow> delegation_store \<Rightarrow>
     tool_result \<times> delegation_store" where
  "manage_sub_agent cfg db now show_error args s =
     (case string_value args ''sub_agent_id'' of
        None \<Rightarrow> (tool_error_result ''sub_agent_id is required'', s)
      | Some i \<Rightarrow>
          (case string_value args ''action'' of
             None \<Rightarrow> (tool_error_result ''action is required'', s)
           | Some action \<Rightarrow>
               (let finish = (\<lambda>msg r. case r of
                     (Inl err, s', es) \<Rightarrow> (tool_error_result (''Failed to '' @ action @ '' sub-agent: '' @ show_error err), s')
                   | (Inr _, s', es) \<Rightarrow> (tool_success_result (''Sub-agent '' @ quoted i @ msg) (''Sub-agent '' @ quoted i @ msg), s'))
                in if action = ''dismiss'' then finish '' dismissed.'' (dismiss_agent db now i s)
                   else if action = ''revive'' then finish '' revived.'' (revive_agent cfg db now i s)
                   else if action = ''kill'' then finish '' permanently deleted.'' (kill_agent db i s)
                   else (tool_error_result (''Unknown action: '' @ action @ ''. Use '' @ quoted ''dismiss'' @ '', '' @ quoted ''revive'' @
                           '', or '' @ quoted ''kill'' @ ''.''), s))))"

section \<open>Results of background tasks\<close>

definition format_task_result :: "background_task \<Rightarrow> string" where
  "format_task_result t =
     ''**Task ID**: '' @ bt_id t @ [newline] @ ''**Category**: '' @ (if bt_category t = [] then ''general'' else bt_category t) @ [newline] @
     ''**Status**: '' @ (if bt_status t = ''failed'' then ''failed'' else ''completed'') @ [newline] @ ''**Result**:'' @ [newline] @ bt_result t"

definition format_results_for_context :: "background_task list \<Rightarrow> string" where
  "format_results_for_context ts =
     (if ts = [] then []
      else ''[System: Background Task Results]'' @ [newline, newline] @ ''The following background tasks have completed:'' @ [newline, newline] @
           List.concat (map (\<lambda>t. format_task_result t @ [newline, newline]) ts) @
           ''These results are from tasks you delegated earlier. Acknowledge them and continue the conversation naturally.'')"

text \<open>The marks may fail one by one; \<open>db 0\<close> is the query.\<close>

definition mark_all :: "(nat \<Rightarrow> bool) \<Rightarrow> background_task list \<Rightarrow> delegation_store \<Rightarrow> delegation_store" where
  "mark_all db ts s = fold (\<lambda>(n, t) s. if db n then mark_task_delivered (bt_id t) s else s) (enumerate 1 ts) s"

definition inject_background_results :: "(nat \<Rightarrow> bool) \<Rightarrow> string \<Rightarrow> delegation_store \<Rightarrow> string \<times> delegation_store" where
  "inject_background_results db user s =
     (if \<not> db 0 then ([], s)
      else (let ts = get_undelivered_tasks user s in
            if ts = [] then ([], s) else (format_results_for_context ts, mark_all db ts s)))"

definition confirm_task :: "(nat \<Rightarrow> bool) \<Rightarrow> string \<Rightarrow> string \<Rightarrow> go_args \<Rightarrow> delegation_store \<Rightarrow> tool_result \<times> delegation_store" where
  "confirm_task db db_error user args s =
     (let i = string_or_empty args ''task_id''; ts = get_undelivered_tasks user s; wanted = filter (\<lambda>t. i = [] \<or> bt_id t = i) ts in
      if \<not> db 0 then (tool_error_result (''Failed to get undelivered tasks: '' @ db_error), s)
      else if ts = [] then (tool_success_result ''No pending background task results.'' ''No pending results.'', s)
      else if wanted = [] then (tool_success_result ''No matching task found.'' ''No matching task.'', s)
      else
        (tool_success_result
           (''Background Task Results:'' @ [newline, newline] @
            join_with ([newline, newline] @ ''---'' @ [newline, newline]) (map format_task_result wanted))
           (''Received '' @ show_nat (length wanted) @ '' background task result(s).''),
         if get_optional_bool (mget args ''mark_delivered'') True then mark_all db wanted s else s))"


section \<open>The technical terms add nothing\<close>

lemma runs_rlits:
  "runs (rlits w) (prev, s, cap) =
     (if prefix w s then [(if w = [] then prev else Some (last w), drop (length w) s, cap)] else [])"
proof (induction w arbitrary: prev s)
  case (Cons c w)
  show ?case by (cases s) (auto simp: eat_def Cons.IH)
qed simp

lemma runs_any_of:
  "ws \<noteq> [] \<Longrightarrow> st' \<in> set (runs (any_of ws) (prev, s, cap)) \<Longrightarrow>
     \<exists>w \<in> set ws. prefix w s \<and> st' = (if w = [] then prev else Some (last w), drop (length w) s, cap)"
proof (induction ws rule: any_of.induct)
  case (2 w)
  then show ?case by (simp add: runs_rlits split: if_split_asm)
next
  case (3 w v ws)
  then have "st' \<in> set (runs (rlits w) (prev, s, cap)) \<or> st' \<in> set (runs (any_of (v # ws)) (prev, s, cap))" by simp
  then show ?case
  proof
    assume "st' \<in> set (runs (rlits w) (prev, s, cap))"
    then show ?thesis by (simp add: runs_rlits split: if_split_asm)
  next
    assume "st' \<in> set (runs (any_of (v # ws)) (prev, s, cap))"
    then obtain w' where "w' \<in> set (v # ws)" "prefix w' s" "st' = (if w' = [] then prev else Some (last w'), drop (length w') s, cap)"
      using "3.IH" by blast
    then show ?thesis by (intro bexI [of _ w']) simp_all
  qed
qed simp

lemma match_tech:
  assumes "ws \<noteq> []" and "[] \<notin> set ws" and "match_at (tech_pattern ws) prev s = Some m"
  shows "rm_text m \<in> set ws \<and> s = rm_text m @ rm_rest m \<and> at_boundary prev s \<and> at_boundary (Some (last (rm_text m))) (rm_rest m)"
proof -
  obtain p rest cap more where r: "runs (tech_pattern ws) (prev, s, None) = (p, rest, cap) # more"
    "m = \<lparr>rm_before = [], rm_text = take (length s - length rest) s, rm_group = cap, rm_rest = rest\<rparr>"
    using assms(3) by (auto simp: match_at_def split: list.splits)
  then have "(p, rest, cap) \<in> set (runs (tech_pattern ws) (prev, s, None))" by simp
  then have b: "at_boundary prev s" and "\<exists>st \<in> set (runs (any_of ws) (prev, s, None)). (p, rest, cap) \<in> set (runs RBound st)"
    by (auto simp: tech_pattern_def split: if_splits)
  then obtain st where st: "st \<in> set (runs (any_of ws) (prev, s, None))" "(p, rest, cap) = st" "at_boundary (fst st) (fst (snd st))"
    by (auto split: if_splits)
  obtain w where w: "w \<in> set ws" "prefix w s" "st = (if w = [] then prev else Some (last w), drop (length w) s, None)"
    using runs_any_of [OF assms(1) st(1)] by blast
  have ne: "w \<noteq> []" using w(1) assms(2) by auto
  obtain v where v: "s = w @ v" using w(2) by (auto simp: prefix_def)
  have "rest = v" "p = Some (last w)" using st(2) w(3) ne v by auto
  then show ?thesis using r(2) v w(1) b st(2,3) by auto
qed

definition before :: "string \<Rightarrow> char option" where
  "before u = (if u = [] then None else Some (last u))"

lemma find_rx_at:
  "find_rx r (before u) s = Some m \<Longrightarrow>
     \<exists>m'. match_at r (before (u @ rm_before m)) (rm_text m @ rm_rest m) = Some m' \<and> rm_text m' = rm_text m \<and> rm_rest m' = rm_rest m"
proof (induction s arbitrary: u m)
  case Nil
  then show ?case using match_at_parts [of r "before u" "[]" m] by auto
next
  case (Cons x xs)
  show ?case
  proof (cases "match_at r (before u) (x # xs)")
    case None
    then obtain m1 where m1: "find_rx r (Some x) xs = Some m1" "m = m1\<lparr>rm_before := x # rm_before m1\<rparr>" using Cons.prems by auto
    have "before (u @ [x]) = Some x" by (simp add: before_def)
    then show ?thesis using Cons.IH [of "u @ [x]" m1] m1 by auto
  next
    case (Some m0)
    then have "m0 = m" using Cons.prems by simp
    then show ?thesis using Some match_at_parts [OF Some] by auto
  qed
qed

lemma find_all_at:
  assumes "\<And>p s m. match_at r p s = Some m \<Longrightarrow> rm_text m \<noteq> []" and "m \<in> set (find_all_rx r (before u) s)"
  shows "\<exists>u' m'. u @ s = u' @ rm_text m @ rm_rest m \<and> match_at r (before u') (rm_text m @ rm_rest m) = Some m' \<and> rm_text m' = rm_text m
    \<and> rm_rest m' = rm_rest m"
  using assms(2)
proof (induction "length s" arbitrary: u s rule: less_induct)
  case less
  show ?case
  proof (cases "find_rx r (before u) s")
    case None
    then show ?thesis using less.prems by (subst (asm) find_all_rx.simps) simp
  next
    case (Some m0)
    have p: "s = rm_before m0 @ rm_text m0 @ rm_rest m0" by (rule find_rx_parts [OF Some])
    obtain m' where m': "match_at r (before (u @ rm_before m0)) (rm_text m0 @ rm_rest m0) = Some m'" "rm_text m' = rm_text m0"
      "rm_rest m' = rm_rest m0"
      using find_rx_at [OF Some] by blast
    have ne: "rm_text m0 \<noteq> []" using assms(1) [OF m'(1)] m'(2) by simp
    then have short: "length (rm_rest m0) < length s" using arg_cong [OF p, of length] by simp
    have next_before: "before (u @ rm_before m0 @ rm_text m0) = Some (last (rm_text m0))" using ne by (simp add: before_def)
    from less.prems Some ne short have "m = m0 \<or> m \<in> set (find_all_rx r (before (u @ rm_before m0 @ rm_text m0)) (rm_rest m0))"
      by (subst (asm) find_all_rx.simps) (auto simp: next_before)
    then show ?thesis
    proof
      assume "m = m0"
      then have "u @ s = (u @ rm_before m0) @ rm_text m @ rm_rest m" using p by simp
      then show ?thesis using m' \<open>m = m0\<close> by blast
    next
      assume "m \<in> set (find_all_rx r (before (u @ rm_before m0 @ rm_text m0)) (rm_rest m0))"
      then show ?thesis using less.hyps [OF short] p by (metis append.assoc)
    qed
  qed
qed

lemma letter_runs_unfold:
  "letter_runs (c # cs) = (if is_letter c then takeWhile is_letter (c # cs) # letter_runs (dropWhile is_letter (c # cs)) else letter_runs cs)"
  by (subst letter_runs.simps, subst (3) letter_runs.simps) simp

lemma letter_runs_suffix:
  "u = [] \<or> \<not> is_letter (last u) \<Longrightarrow> set (letter_runs x) \<subseteq> set (letter_runs (u @ x))"
proof (induction "length u" arbitrary: u rule: less_induct)
  case less
  show ?case
  proof (cases u)
    case (Cons c cs)
    show ?thesis
    proof (cases "is_letter c")
      case False
      then show ?thesis using less.hyps [of cs] less.prems Cons by (cases "cs = []") (simp_all add: letter_runs_unfold)
    next
      case True
      have ex: "\<exists>d \<in> set u. \<not> is_letter d" using less.prems Cons by (metis last_in_set list.distinct(1))
      then obtain d where "d \<in> set u" "\<not> is_letter d" by blast
      then have d: "dropWhile is_letter (u @ x) = dropWhile is_letter u @ x" by (rule dropWhile_append1)
      have ne: "dropWhile is_letter u \<noteq> []" using ex by (auto simp: dropWhile_eq_Nil_conv)
      then have l: "last (dropWhile is_letter u) = last u" by (metis last_append takeWhile_dropWhile_id)
      have "length (dropWhile is_letter u) < length u" using True Cons length_dropWhile_le [of is_letter cs] by simp
      then have "set (letter_runs x) \<subseteq> set (letter_runs (dropWhile is_letter u @ x))"
        using less.hyps [of "dropWhile is_letter u"] l less.prems Cons by auto
      moreover have "letter_runs (u @ x) = takeWhile is_letter (u @ x) # letter_runs (dropWhile is_letter (u @ x))"
        using Cons True by (simp add: letter_runs_unfold)
      ultimately show ?thesis using d by auto
    qed
  qed simp
qed

lemma run_in:
  assumes "w \<noteq> []" "list_all is_letter w" "u = [] \<or> \<not> is_letter (last u)" "v = [] \<or> \<not> is_letter (hd v)"
  shows "w \<in> set (letter_runs (u @ w @ v))"
proof -
  obtain c cs where w: "w = c # cs" using assms(1) by (cases w) auto
  have "takeWhile is_letter (w @ v) = w" using assms(2,4) by (cases v) (auto simp: list_all_iff takeWhile_append)
  then have "w \<in> set (letter_runs (w @ v))" using w assms(2) by (auto simp: letter_runs_unfold)
  then show ?thesis using letter_runs_suffix [OF assms(3)] by blast
qed

lemma letter_word: "is_letter c \<Longrightarrow> word_char c"
proof -
  assume "is_letter c"
  then have "lower_char c = c" by (auto simp: is_letter_def lower_char_def less_eq_char_def)
  then show ?thesis using \<open>is_letter c\<close> by (simp add: word_char_def is_letter_def)
qed

lemma tech_match_is_run:
  assumes "ws \<in> set tech_terms" and "m \<in> set (find_all_rx (tech_pattern ws) None t)"
  shows "rm_text m \<in> set (letter_runs t) \<and> rm_text m \<in> set ws"
proof -
  have ok: "list_all (\<lambda>ws. ws \<noteq> [] \<and> list_all (\<lambda>w. w \<noteq> [] \<and> list_all is_letter w) ws) tech_terms" by code_simp
  then have ws: "ws \<noteq> []" "[] \<notin> set ws" "\<forall>w \<in> set ws. w \<noteq> [] \<and> list_all is_letter w"
    using assms(1) by (auto simp: list_all_iff)
  have nonempty: "rm_text m \<noteq> []" if "match_at (tech_pattern ws) p s = Some m" for p s m
    using match_tech [OF ws(1,2) that] ws(2) by auto
  have "m \<in> set (find_all_rx (tech_pattern ws) (before []) t)" using assms(2) by (simp add: before_def)
  then obtain u m' where u: "[] @ t = u @ rm_text m @ rm_rest m" "match_at (tech_pattern ws) (before u) (rm_text m @ rm_rest m) = Some m'"
    "rm_text m' = rm_text m" "rm_rest m' = rm_rest m"
    using find_all_at [where r = "tech_pattern ws" and m = m and u = "[]" and s = t] nonempty by blast
  have b: "rm_text m \<in> set ws" "at_boundary (before u) (rm_text m @ rm_rest m)" "at_boundary (Some (last (rm_text m))) (rm_rest m)"
    using match_tech [OF ws(1,2) u(2)] u(3,4) by auto
  then have w: "rm_text m \<noteq> []" "list_all is_letter (rm_text m)" using ws(3) by auto
  then have ends: "word_char (hd (rm_text m))" "word_char (last (rm_text m))" by (auto intro: letter_word simp: list_all_iff)
  have "u = [] \<or> \<not> is_letter (last u)"
    using b(2) ends(1) w(1) letter_word by (cases "rm_text m") (auto simp: at_boundary_def before_def)
  moreover have "rm_rest m = [] \<or> \<not> is_letter (hd (rm_rest m))"
    using b(3) ends(2) letter_word by (cases "rm_rest m") (auto simp: at_boundary_def)
  ultimately show ?thesis using run_in [OF w] u(1) b(1) by simp
qed

lemma plain_keywords_all: "w \<in> set (letter_runs t) \<Longrightarrow> 3 \<le> length w \<Longrightarrow> w \<notin> set stop_words \<Longrightarrow> w \<in> set (plain_keywords t)"
proof -
  have "w \<in> set ws \<or> w \<in> set ks \<Longrightarrow> 3 \<le> length w \<Longrightarrow> w \<notin> set stop_words \<Longrightarrow>
      w \<in> set (foldl (\<lambda>ks w. if length w < 3 \<or> w \<in> set stop_words then ks else add_keyword w ks) ks ws)" for ws ks
  proof (induction ws arbitrary: ks)
    case (Cons v ws)
    let ?ks = "if length v < 3 \<or> v \<in> set stop_words then ks else add_keyword v ks"
    have "w \<in> set ws \<or> w \<in> set ?ks" using Cons.prems by (auto simp: add_keyword_def)
    then show ?case using Cons.IH [of ?ks] Cons.prems by simp
  qed simp
  then show "w \<in> set (letter_runs t) \<Longrightarrow> 3 \<le> length w \<Longrightarrow> w \<notin> set stop_words \<Longrightarrow> w \<in> set (plain_keywords t)"
    by (simp add: plain_keywords_def)
qed


lemma add_known: "w \<in> set ks \<Longrightarrow> add_keyword w ks = ks"
  by (simp add: add_keyword_def)

section \<open>Properties\<close>

text \<open>
  The search for technical terms adds nothing: every match of one of its five patterns is already
  among the words that the first pass has collected, so the keywords of a task are those of the first
  pass, in the same order.
\<close>

theorem tech_terms_redundant: "extract_keywords task = plain_keywords (to_lower task)"
proof -
  let ?t = "to_lower task"
  have long: "list_all (list_all (\<lambda>w. 3 \<le> length w \<and> w \<notin> set stop_words)) tech_terms" by code_simp
  have known: "rm_text m \<in> set (plain_keywords ?t)" if "ws \<in> set tech_terms" "m \<in> set (find_all_rx (tech_pattern ws) None ?t)" for ws m
    using tech_match_is_run [OF that] long that(1) plain_keywords_all [of "rm_text m" ?t] by (auto simp: list_all_iff)
  have one: "foldl (\<lambda>ks m. add_keyword (rm_text m) ks) ks ms = ks" if "\<forall>m \<in> set ms. rm_text m \<in> set ks" for ms ks
    using that by (induction ms) (simp_all add: add_known)
  have "foldl (\<lambda>ks p. foldl (\<lambda>ks m. add_keyword (rm_text m) ks) ks (find_all_rx (tech_pattern p) None ?t)) (plain_keywords ?t) ps
      = plain_keywords ?t" if "set ps \<subseteq> set tech_terms" for ps
    using that
  proof (induction ps)
    case (Cons p ps)
    have "foldl (\<lambda>ks m. add_keyword (rm_text m) ks) (plain_keywords ?t) (find_all_rx (tech_pattern p) None ?t) = plain_keywords ?t"
      by (rule one) (use Cons.prems known in auto)
    then show ?case using Cons by simp
  qed simp
  then show ?thesis by (simp add: extract_keywords_def Let_def)
qed

lemma clamp_range: "te_min e \<le> te_max e \<Longrightarrow> te_min e \<le> clamp e d \<and> clamp e d \<le> te_max e"
  by (auto simp: clamp_def Let_def)

text \<open>
  C37: A delegated task always gets between 30 seconds and 30 minutes: whatever was measured before,
  whatever hint is given, for every category, and when the database fails.
\<close>

theorem timeout_in_limits:
  "30 * second_ns \<le> to_duration (estimate_with_hint new_timeout_estimator db user category hint s)
   \<and> to_duration (estimate_with_hint new_timeout_estimator db user category hint s) \<le> 30 * 60 * second_ns"
proof -
  let ?e = new_timeout_estimator
  have c: "30 * second_ns \<le> clamp ?e d \<and> clamp ?e d \<le> 30 * 60 * second_ns" for d
    using clamp_range [of ?e d] by (simp add: new_timeout_estimator_def second_ns_def)
  have d: "30 * second_ns \<le> to_duration (default_estimate ?e category) \<and> to_duration (default_estimate ?e category) \<le> 30 * 60 * second_ns"
    by (simp add: default_estimate_def new_timeout_estimator_def second_ns_def)
  have "30 * second_ns \<le> to_duration (estimate_timeout ?e db user category s)
      \<and> to_duration (estimate_timeout ?e db user category s) \<le> 30 * 60 * second_ns"
    using c d by (auto simp: estimate_timeout_def Let_def split: prod.split)
  then show ?thesis
    by (auto simp: estimate_with_hint_def Let_def) (simp_all add: new_timeout_estimator_def)
qed

lemma mark_task_id: "ds_tasks (mark_task_delivered i s) = update_rows bt_id i (\<lambda>t. t\<lparr>bt_delivered := True\<rparr>) (ds_tasks s)"
  by (simp add: mark_task_delivered_def update_background_task_def)

definition all_marked :: "string set \<Rightarrow> background_task list \<Rightarrow> background_task list" where
  "all_marked is t = map (\<lambda>x. if bt_id x \<in> is then x\<lparr>bt_delivered := True\<rparr> else x) t"

lemma marked_tasks:
  "ds_tasks (fold (\<lambda>(n, t) s. if all_db n then mark_task_delivered (bt_id t) s else s) (enumerate k ts) s) =
     all_marked (bt_id ` set ts) (ds_tasks s)"
proof (induction ts arbitrary: k s)
  case (Cons t ts)
  show ?case
    by (simp add: all_db_def [abs_def] Cons.IH [unfolded all_db_def if_True] mark_task_id)
      (simp add: all_marked_def update_rows_def)
qed (simp add: all_marked_def)

text \<open>
  Background results are delivered once: after an injection whose database calls succeed nothing
  is left to deliver to the user, what was injected are the finished and undelivered tasks, and the
  tasks of other users are untouched.
\<close>

theorem results_delivered_once:
  assumes "distinct (map bt_id (ds_tasks s))"
  shows "case inject_background_results all_db user s of (txt, s') \<Rightarrow>
      txt = format_results_for_context (get_undelivered_tasks user s) \<and> get_undelivered_tasks user s' = []
      \<and> filter (\<lambda>t. bt_user t \<noteq> user) (ds_tasks s') = filter (\<lambda>t. bt_user t \<noteq> user) (ds_tasks s)"
proof -
  let ?ts = "get_undelivered_tasks user s" and ?is = "bt_id ` set (get_undelivered_tasks user s)"
  have mine: "bt_user t = user" if "t \<in> set (ds_tasks s)" "bt_id t \<in> ?is" for t
    using that assms by (auto simp: get_undelivered_tasks_def distinct_map inj_on_def)
  have "get_undelivered_tasks user (s\<lparr>ds_tasks := all_marked ?is (ds_tasks s)\<rparr>) = []"
  proof -
    have e: "sort_key bt_completed xs = [] \<longleftrightarrow> xs = []" for xs by (metis length_0_conv length_sort)
    show ?thesis by (simp add: get_undelivered_tasks_def e) (auto simp: all_marked_def filter_empty_conv)
  qed
  moreover have "filter (\<lambda>t. bt_user t \<noteq> user) (all_marked ?is (ds_tasks s)) = filter (\<lambda>t. bt_user t \<noteq> user) (ds_tasks s)"
  proof -
    have "filter (\<lambda>t. bt_user t \<noteq> user) (all_marked ?is xs) = filter (\<lambda>t. bt_user t \<noteq> user) xs" if "set xs \<subseteq> set (ds_tasks s)" for xs
      using that mine by (induction xs) (auto simp: all_marked_def)
    then show ?thesis by simp
  qed
  moreover have "ds_tasks (mark_all all_db ?ts s) = all_marked ?is (ds_tasks s)" by (simp add: mark_all_def marked_tasks)
  ultimately show ?thesis
    by (simp add: inject_background_results_def all_db_def get_undelivered_tasks_def format_results_for_context_def Let_def)
qed

definition sample_task :: "string \<Rightarrow> string \<Rightarrow> string \<Rightarrow> background_task" where
  "sample_task i user status =
     \<lparr>bt_id = i, bt_sub_agent = ''agent-1'', bt_user = user, bt_task = ''look it up'', bt_category = ''research'', bt_status = status,
      bt_result = ''found'', bt_created = 1, bt_completed = 2, bt_delivered = False, bt_channel = ''telegram'', bt_chat_id = ''7''\<rparr>"

theorem results_delivered_once_witness:
  "get_undelivered_tasks ''u'' (snd (inject_background_results all_db ''u''
     (new_sqlite_store\<lparr>ds_tasks := [sample_task ''t1'' ''u'' ''completed'', sample_task ''t2'' ''v'' ''failed'', sample_task ''t3'' ''u'' ''running'']\<rparr>))) = []"
  using results_delivered_once [of "new_sqlite_store\<lparr>ds_tasks := [sample_task ''t1'' ''u'' ''completed'', sample_task ''t2'' ''v'' ''failed'',
      sample_task ''t3'' ''u'' ''running'']\<rparr>" "''u''"]
  by (simp add: sample_task_def split: prod.splits)

text \<open>
  The timeout hint of \<open>delegate_task\<close> has no effect: a number in the arguments of a tool call is
  decoded as a float, and the tool asks for an integer.
\<close>

theorem timeout_hint_ignored:
  assumes "case mget args ''timeout_hint'' of None \<Rightarrow> True | Some v \<Rightarrow> from_json v"
  shows "delegate_task e user args ds = delegate_task e user (mdel ''timeout_hint'' args) ds"
proof -
  have "int_or_zero args ''timeout_hint'' = 0" using assms by (auto simp: int_or_zero_def split: option.splits go_any.splits)
  moreover have "int_or_zero (mdel ''timeout_hint'' args) ''timeout_hint'' = 0" by (simp add: int_or_zero_def)
  moreover have "mget (mdel ''timeout_hint'' args) k = mget args k" if "k \<noteq> ''timeout_hint''" for k using that by simp
  then have "mget (mdel ''timeout_hint'' args) ''task'' = mget args ''task''" "mget (mdel ''timeout_hint'' args) ''label'' = mget args ''label''"
    "mget (mdel ''timeout_hint'' args) ''category'' = mget args ''category''" "mget (mdel ''timeout_hint'' args) ''tools'' = mget args ''tools''"
    "mget (mdel ''timeout_hint'' args) ''role_prompt'' = mget args ''role_prompt''"
    "mget (mdel ''timeout_hint'' args) ''reuse_existing'' = mget args ''reuse_existing''" by simp_all
  ultimately show ?thesis unfolding delegate_task_def string_or_empty_def string_value_def by (simp only:)
qed

definition sample_delegate_env :: delegate_env where
  "sample_delegate_env =
     \<lparr>de_prompts = (\<lambda>c. ''you are '' @ c), de_show = (\<lambda>e. ''error''), de_template_db = all_db, de_reuse_db = True, de_create_db = all_db,
      de_metrics_db = True, de_record_db = all_db, de_now = 5, de_end = 9, de_dismissed = 9, de_template_id = ''template-1'',
      de_agent_id = ''agent-1'', de_session_id = ''s1'', de_chat = (\<lambda>limit ms. Inr ''done'')\<rparr>"

definition sample_system :: delegation_system where
  "sample_system = \<lparr>dg_store = new_sqlite_store, dg_config = sample_delegation, dg_estimator = new_timeout_estimator, dg_workspace = ''/w''\<rparr>"

theorem timeout_hint_ignored_witness:
  "delegate_task sample_delegate_env ''u'' [(''task'', GoString ''fix the build''), (''timeout_hint'', GoFloat 60)] sample_system =
   delegate_task sample_delegate_env ''u'' [(''task'', GoString ''fix the build'')] sample_system"
  by (subst timeout_hint_ignored) simp_all

lemma best_match_zero: "\<forall>r \<in> set rs. score r \<le> threshold \<Longrightarrow> best_match score threshold rs = None"
proof -
  have "\<forall>r \<in> set rs. score r \<le> threshold \<Longrightarrow>
      foldl (\<lambda>(best, top) r. if score r > top then (Some r, score r) else (best, top)) (b, threshold) rs = (b, threshold)" for b
    by (induction rs) auto
  then show "\<forall>r \<in> set rs. score r \<le> threshold \<Longrightarrow> ?thesis" by (simp add: best_match_def)
qed

text \<open>
  The success of a template is never recorded: the lookup of the template runs with an empty user
  and without keywords, so that no template can reach a positive score.
\<close>

theorem template_success_lost: "record_success db db2 now i duration s = (db, s)"
proof -
  have "find_best_match_template [] [] 0 s = None"
    unfolding find_best_match_template_def by (rule best_match_zero) (simp add: keyword_overlap_score_def)
  then show ?thesis by (simp add: record_success_def)
qed

definition sample_metrics :: "int list \<Rightarrow> delegation_store" where
  "sample_metrics ds =
     new_sqlite_store\<lparr>ds_metrics := map (\<lambda>(n, d). \<lparr>tm_id = show_nat n, tm_user = ''u'', tm_category = ''code'', tm_hint = [], tm_duration = d,
       tm_success = True, tm_created = int n\<rparr>) (enumerate 0 ds)\<rparr>"

text \<open>
  Older measurements weigh more, not less: of two histories of the same three durations, the one
  whose long task is the oldest gets the longer timeout.
\<close>

theorem older_metrics_weigh_more:
  "to_duration (estimate_timeout new_timeout_estimator True ''u'' ''code'' (sample_metrics [600000, 60000, 60000])) = 330 * second_ns
   \<and> to_duration (estimate_timeout new_timeout_estimator True ''u'' ''code'' (sample_metrics [60000, 60000, 600000])) = 150 * second_ns"
  by code_simp

end
