(* ===== verification/BackgroundRunner.thy ===== *)
theory BackgroundRunner
  imports Delegation
begin

text \<open>
  Background tasks (\<open>pkg/delegation/background.go\<close>): submitting, the queue of one hundred tasks, and
  the workers. A step is a section of \<open>Submit\<close> or of a worker between two points where another
  goroutine can get in. The errors of the database are ignored by the code; each step says whether
  its database call succeeds.
\<close>

section \<open>State and steps\<close>

datatype bg_submit = BgChecked background_task | BgSaved background_task | BgReturned bool

datatype bg_worker = BgIdle | BgTaken background_task | BgRunning background_task | BgFinished

record bg_world =
  bw_store :: delegation_store
  bw_running :: int
  bw_queue :: "background_task list"
  bw_submits :: "bg_submit list"
  bw_workers :: "bg_worker list"
  bw_max :: int

definition queue_capacity :: nat where "queue_capacity = 100"

definition new_background_runner :: "int \<Rightarrow> delegation_store \<Rightarrow> bg_world" where
  "new_background_runner max_tasks s =
     \<lparr>bw_store = s, bw_running = 0, bw_queue = [], bw_submits = [], bw_workers = replicate (nat max_tasks) BgIdle, bw_max = max_tasks\<rparr>"

text \<open>What a finished task meets: its answer or error, the end of the clock, and the calls that record it.\<close>

record bg_outcome =
  bo_result :: "string + string"
  bo_now :: int
  bo_metric_db :: bool
  bo_metric_id :: string
  bo_duration :: int
  bo_record_db :: "nat \<Rightarrow> bool"
  bo_later :: int

datatype bg_action =
    BgSubmit background_task
  | BgSave nat bool
  | BgPush nat bool
  | BgTake nat
  | BgStart nat bool
  | BgFinish nat bool bg_outcome
  | BgRelease nat

definition pending_record :: "background_task \<Rightarrow> background_task" where
  "pending_record t = t\<lparr>bt_status := ''pending'', bt_result := [], bt_completed := 0, bt_delivered := False\<rparr>"

fun submit_id :: "bg_submit \<Rightarrow> string list" where
  "submit_id (BgChecked t) = [bt_id t]"
| "submit_id (BgSaved t) = [bt_id t]"
| "submit_id (BgReturned b) = []"

definition at_index :: "'a \<Rightarrow> 'a list \<Rightarrow> nat \<Rightarrow> 'a" where
  "at_index d xs k = (if k < length xs then xs ! k else d)"

definition execute_task_end :: "bool \<Rightarrow> bg_outcome \<Rightarrow> background_task \<Rightarrow> delegation_store \<Rightarrow> delegation_store" where
  "execute_task_end db o' t s =
     (let (status, result, success) = (case bo_result o' of Inl err \<Rightarrow> (''failed'', err, False) | Inr r \<Rightarrow> (''completed'', r, True));
          s1 = (if db then update_background_task (bt_id t) (\<lambda>x. x\<lparr>bt_status := status, bt_result := result, bt_completed := bo_now o'\<rparr>) s else s);
          s2 = record_metric (bo_metric_db o') (bo_now o') (bo_metric_id o') (bt_user t) (bt_task t) (bo_duration o') success s1
      in fst (snd (record_task_result (bo_record_db o') (bo_now o') (bo_later o') (bt_sub_agent t) success s2)))"

text \<open>\<open>None\<close>: the step is not possible; identifiers are fresh.\<close>

fun bg_fire :: "bg_action \<Rightarrow> bg_world \<Rightarrow> bg_world option" where
  "bg_fire (BgSubmit t) w =
     (if row_of bt_id (bt_id t) (ds_tasks (bw_store w)) \<noteq> None \<or> bt_id t \<in> set (List.concat (map submit_id (bw_submits w))) then None
      else if bw_running w \<ge> bw_max w then Some (w\<lparr>bw_submits := bw_submits w @ [BgReturned False]\<rparr>)
      else Some (w\<lparr>bw_submits := bw_submits w @ [BgChecked (pending_record t)]\<rparr>))"
| "bg_fire (BgSave k db) w =
     (case at_index (BgReturned False) (bw_submits w) k of
        BgChecked t \<Rightarrow>
          Some (if db then w\<lparr>bw_store := save_background_task t (bw_store w), bw_submits := (bw_submits w)[k := BgSaved t]\<rparr>
                else w\<lparr>bw_submits := (bw_submits w)[k := BgReturned False]\<rparr>)
      | _ \<Rightarrow> None)"
| "bg_fire (BgPush k db) w =
     (case at_index (BgReturned False) (bw_submits w) k of
        BgSaved t \<Rightarrow>
          Some (if length (bw_queue w) < queue_capacity
                then w\<lparr>bw_queue := bw_queue w @ [t], bw_submits := (bw_submits w)[k := BgReturned True]\<rparr>
                else w\<lparr>bw_store := (if db then update_background_task (bt_id t)
                           (\<lambda>x. x\<lparr>bt_status := ''failed'', bt_result := ''Task queue full''\<rparr>) (bw_store w) else bw_store w),
                       bw_submits := (bw_submits w)[k := BgReturned False]\<rparr>)
      | _ \<Rightarrow> None)"
| "bg_fire (BgTake k) w =
     (case (at_index BgFinished (bw_workers w) k, bw_queue w) of
        (BgIdle, t # q) \<Rightarrow> Some (w\<lparr>bw_queue := q, bw_workers := (bw_workers w)[k := BgTaken t]\<rparr>)
      | _ \<Rightarrow> None)"
| "bg_fire (BgStart k db) w =
     (case at_index BgFinished (bw_workers w) k of
        BgTaken t \<Rightarrow>
          Some (w\<lparr>bw_running := bw_running w + 1,
                  bw_store := (if db then update_background_task (bt_id t) (\<lambda>x. x\<lparr>bt_status := ''running''\<rparr>) (bw_store w) else bw_store w),
                  bw_workers := (bw_workers w)[k := BgRunning t]\<rparr>)
      | _ \<Rightarrow> None)"
| "bg_fire (BgFinish k db o') w =
     (case at_index BgFinished (bw_workers w) k of
        BgRunning t \<Rightarrow> Some (w\<lparr>bw_store := execute_task_end db o' t (bw_store w), bw_workers := (bw_workers w)[k := BgFinished]\<rparr>)
      | _ \<Rightarrow> None)"
| "bg_fire (BgRelease k) w =
     (if k < length (bw_workers w) \<and> bw_workers w ! k = BgFinished
      then Some (w\<lparr>bw_running := bw_running w - 1, bw_workers := (bw_workers w)[k := BgIdle]\<rparr>) else None)"

fun bg_run :: "bg_action list \<Rightarrow> bg_world \<Rightarrow> bg_world option" where
  "bg_run [] w = Some w"
| "bg_run (a # as) w = (case bg_fire a w of None \<Rightarrow> None | Some w' \<Rightarrow> bg_run as w')"

section \<open>Where a task is\<close>

fun saved_id :: "bg_submit \<Rightarrow> string list" where
  "saved_id (BgSaved t) = [bt_id t]"
| "saved_id _ = []"

fun checked_id :: "bg_submit \<Rightarrow> string list" where
  "checked_id (BgChecked t) = [bt_id t]"
| "checked_id _ = []"

fun taken_id :: "bg_worker \<Rightarrow> string list" where
  "taken_id (BgTaken t) = [bt_id t]"
| "taken_id _ = []"

fun running_id :: "bg_worker \<Rightarrow> string list" where
  "running_id (BgRunning t) = [bt_id t]"
| "running_id _ = []"

definition places :: "('a \<Rightarrow> string list) \<Rightarrow> 'a list \<Rightarrow> string multiset" where
  "places f xs = mset (List.concat (map f xs))"

lemma places_simps [simp]: "places f [] = {#}" "places f (x # xs) = mset (f x) + places f xs" "places f (xs @ ys) = places f xs + places f ys"
  by (simp_all add: places_def)

lemma places_update:
  "k < length xs \<Longrightarrow> places f (xs[k := y]) + mset (f (xs ! k)) = places f xs + mset (f y)"
proof (induction xs arbitrary: k)
  case (Cons x xs)
  then show ?case by (cases k) (simp_all add: add.left_commute add.commute add.assoc)
qed simp

lemma places_replicate_idle: "places taken_id (replicate n BgIdle) = {#}" "places running_id (replicate n BgIdle) = {#}"
  by (induction n) simp_all

definition waiting :: "bg_world \<Rightarrow> string multiset" where
  "waiting w = places saved_id (bw_submits w) + mset (map bt_id (bw_queue w)) + places taken_id (bw_workers w)"

definition executing :: "bg_world \<Rightarrow> string multiset" where
  "executing w = places running_id (bw_workers w)"

definition status_of :: "bg_world \<Rightarrow> string \<Rightarrow> string option" where
  "status_of w i = map_option bt_status (row_of bt_id i (ds_tasks (bw_store w)))"

definition checked :: "bg_world \<Rightarrow> string multiset" where
  "checked w = places checked_id (bw_submits w)"

definition tracked_id :: "bg_world \<Rightarrow> string \<Rightarrow> bool" where
  "tracked_id w i \<longleftrightarrow>
     count (waiting w) i = of_bool (status_of w i = Some ''pending'')
     \<and> count (executing w) i = of_bool (status_of w i = Some ''running'')
     \<and> count (checked w) i \<le> of_bool (status_of w i = None)"

definition tracked :: "bg_world \<Rightarrow> bool" where
  "tracked w \<longleftrightarrow> (\<forall>i. tracked_id w i) \<and> (\<forall>t. BgChecked t \<in> set (bw_submits w) \<longrightarrow> bt_status t = ''pending'')"

text \<open>The database calls of a step succeed.\<close>

fun db_ok :: "bg_action \<Rightarrow> bool" where
  "db_ok (BgPush k db) \<longleftrightarrow> db"
| "db_ok (BgStart k db) \<longleftrightarrow> db"
| "db_ok (BgFinish k db o') \<longleftrightarrow> db"
| "db_ok _ \<longleftrightarrow> True"

lemma row_of_update:
  "(\<And>x. key (f x) = key x) \<Longrightarrow> row_of key k (update_rows key i f t) = (if k = i then map_option f (row_of key k t) else row_of key k t)"
  by (induction t) (auto simp: row_of_def)

lemma status_update:
  "(\<And>x. bt_id (f x) = bt_id x) \<Longrightarrow> (\<And>x. bt_status (f x) = st) \<Longrightarrow>
     map_option bt_status (row_of bt_id k (update_rows bt_id i f t)) =
       (if k = i \<and> row_of bt_id k t \<noteq> None then Some st else map_option bt_status (row_of bt_id k t))"
  by (auto simp: row_of_update)

lemma metric_tasks [simp]: "ds_tasks (record_metric db now i user task d ok s) = ds_tasks s"
  by (auto simp: record_metric_def save_task_metric_def split: option.split)

lemma result_tasks [simp]: "ds_tasks (fst (snd (record_task_result db now later i ok s))) = ds_tasks s"
  by (auto simp: record_task_result_def Let_def update_sub_agent_def dismiss_from_def with_agent_def change_status_def split: option.split)

lemma end_tasks:
  "ds_tasks (execute_task_end db o' t s) =
     (if db then update_rows bt_id (bt_id t) (\<lambda>x. x\<lparr>bt_status := (case bo_result o' of Inl e \<Rightarrow> ''failed'' | Inr r \<Rightarrow> ''completed''),
        bt_result := (case bo_result o' of Inl e \<Rightarrow> e | Inr r \<Rightarrow> r), bt_completed := bo_now o'\<rparr>) (ds_tasks s)
      else ds_tasks s)"
  by (simp add: execute_task_end_def update_background_task_def Let_def split: sum.split prod.split)

lemma end_status:
  "status_of (w\<lparr>bw_store := execute_task_end True o' t (bw_store w)\<rparr>) i =
     (if i = bt_id t \<and> status_of w i \<noteq> None then Some (case bo_result o' of Inl e \<Rightarrow> ''failed'' | Inr r \<Rightarrow> ''completed'') else status_of w i)"
  unfolding status_of_def by (auto simp: end_tasks row_of_update)

lemma tracked_new: "ds_tasks s = [] \<Longrightarrow> tracked (new_background_runner n s)"
  by (simp add: tracked_def tracked_id_def checked_def waiting_def executing_def status_of_def new_background_runner_def places_replicate_idle row_of_def)

lemma at_indexD: "at_index d xs k = x \<Longrightarrow> x \<noteq> d \<Longrightarrow> k < length xs \<and> xs ! k = x"
  by (auto simp: at_index_def split: if_splits)

lemma places_changed:
  "at_index d xs k = x \<Longrightarrow> x \<noteq> d \<Longrightarrow> places f (xs[k := y]) + mset (f x) = places f xs + mset (f y)"
  using places_update at_indexD by metis

lemma count_moved: "X + mset a = Y + mset b \<Longrightarrow> count X i = count Y i + count_list b i - count_list a i"
proof -
  assume "X + mset a = Y + mset b"
  then have "count (X + mset a) i = count (Y + mset b) i" by simp
  then show ?thesis by (simp add: count_mset)
qed

text \<open>Where an element of one of the two lists moves: the counts of the other identifiers stay.\<close>

lemma submit_moved:
  assumes "at_index (BgReturned False) (bw_submits w) k = x" and "x \<noteq> BgReturned False"
  shows "count (places saved_id ((bw_submits w)[k := y])) i = count (places saved_id (bw_submits w)) i + count_list (saved_id y) i - count_list (saved_id x) i"
    and "count (places checked_id ((bw_submits w)[k := y])) i = count (places checked_id (bw_submits w)) i + count_list (checked_id y) i - count_list (checked_id x) i"
    and "count_list (saved_id x) i \<le> count (places saved_id (bw_submits w)) i"
    and "count_list (checked_id x) i \<le> count (places checked_id (bw_submits w)) i"
    and "BgChecked u \<in> set ((bw_submits w)[k := y]) \<Longrightarrow> y \<noteq> BgChecked u \<Longrightarrow> BgChecked u \<in> set (bw_submits w)"
proof -
  show "count (places saved_id ((bw_submits w)[k := y])) i = count (places saved_id (bw_submits w)) i + count_list (saved_id y) i - count_list (saved_id x) i"
    by (rule count_moved) (rule places_changed [OF assms])
  show "count (places checked_id ((bw_submits w)[k := y])) i = count (places checked_id (bw_submits w)) i + count_list (checked_id y) i - count_list (checked_id x) i"
    by (rule count_moved) (rule places_changed [OF assms])
  have "places f ((bw_submits w)[k := BgReturned False]) + mset (f x) = places f (bw_submits w)" if "f (BgReturned False) = []" for f
    using places_changed [OF assms, of f "BgReturned False"] that by simp
  then have "count_list (f x) i \<le> count (places f (bw_submits w)) i" if "f (BgReturned False) = []" for f
    using that by (metis count_mset count_union le_add2)
  then show "count_list (saved_id x) i \<le> count (places saved_id (bw_submits w)) i" "count_list (checked_id x) i \<le> count (places checked_id (bw_submits w)) i"
    by simp_all
  show "BgChecked u \<in> set ((bw_submits w)[k := y]) \<Longrightarrow> y \<noteq> BgChecked u \<Longrightarrow> BgChecked u \<in> set (bw_submits w)"
    using set_update_subset_insert [of "bw_submits w" k y] by auto
qed

lemma worker_moved:
  assumes "at_index BgFinished (bw_workers w) k = x" and "x \<noteq> BgFinished"
  shows "count (places taken_id ((bw_workers w)[k := y])) i = count (places taken_id (bw_workers w)) i + count_list (taken_id y) i - count_list (taken_id x) i"
    and "count (places running_id ((bw_workers w)[k := y])) i = count (places running_id (bw_workers w)) i + count_list (running_id y) i - count_list (running_id x) i"
    and "count_list (taken_id x) i \<le> count (places taken_id (bw_workers w)) i"
    and "count_list (running_id x) i \<le> count (places running_id (bw_workers w)) i"
proof -
  show "count (places taken_id ((bw_workers w)[k := y])) i = count (places taken_id (bw_workers w)) i + count_list (taken_id y) i - count_list (taken_id x) i"
    by (rule count_moved) (rule places_changed [OF assms])
  show "count (places running_id ((bw_workers w)[k := y])) i = count (places running_id (bw_workers w)) i + count_list (running_id y) i - count_list (running_id x) i"
    by (rule count_moved) (rule places_changed [OF assms])
  have "places f ((bw_workers w)[k := BgFinished]) + mset (f x) = places f (bw_workers w)" if "f BgFinished = []" for f
    using places_changed [OF assms, of f BgFinished] that by simp
  then have "count_list (f x) i \<le> count (places f (bw_workers w)) i" if "f BgFinished = []" for f
    using that by (metis count_mset count_union le_add2)
  then show "count_list (taken_id x) i \<le> count (places taken_id (bw_workers w)) i" "count_list (running_id x) i \<le> count (places running_id (bw_workers w)) i"
    by simp_all
qed


lemma tracked_idD:
  assumes "tracked_id w i"
  shows "count (waiting w) i = of_bool (status_of w i = Some ''pending'')" "count (executing w) i = of_bool (status_of w i = Some ''running'')"
    and "count (checked w) i \<le> of_bool (status_of w i = None)"
  using assms by (simp_all add: tracked_id_def)

lemma counted_once:
  "(a::nat) + b + c = of_bool P \<Longrightarrow> 0 < a \<Longrightarrow> P \<and> a = 1 \<and> b = 0 \<and> c = 0"
  "(a::nat) + b + c = of_bool P \<Longrightarrow> 0 < c \<Longrightarrow> P \<and> c = 1 \<and> a = 0 \<and> b = 0"
  "(a::nat) = of_bool P \<Longrightarrow> 0 < a \<Longrightarrow> P \<and> a = 1"
  "(a::nat) \<le> of_bool P \<Longrightarrow> 0 < a \<Longrightarrow> P \<and> a = 1"
  by (cases P; simp)+

lemmas place_defs = waiting_def executing_def checked_def

text \<open>What each step does to the status of a task.\<close>

lemma status_frame [simp]:
  "status_of (w\<lparr>bw_submits := xs\<rparr>) = status_of w" "status_of (w\<lparr>bw_queue := q\<rparr>) = status_of w"
  "status_of (w\<lparr>bw_workers := ws\<rparr>) = status_of w" "status_of (w\<lparr>bw_running := n\<rparr>) = status_of w"
  by (simp_all add: status_of_def fun_eq_iff)

lemma status_saved:
  "status_of (w\<lparr>bw_store := save_background_task t (bw_store w)\<rparr>) i = (if i = bt_id t then Some (bt_status t) else status_of w i)"
  by (simp add: status_of_def save_background_task_def row_of_put)

lemma status_full:
  "status_of (w\<lparr>bw_store := update_background_task j (\<lambda>x. x\<lparr>bt_status := st, bt_result := r\<rparr>) (bw_store w)\<rparr>) i =
     (if i = j \<and> status_of w i \<noteq> None then Some st else status_of w i)"
  by (auto simp: status_of_def update_background_task_def row_of_update)

lemma status_started:
  "status_of (w\<lparr>bw_running := n, bw_store := update_background_task j (\<lambda>x. x\<lparr>bt_status := st\<rparr>) (bw_store w)\<rparr>) i =
     (if i = j \<and> status_of w i \<noteq> None then Some st else status_of w i)"
  by (auto simp: status_of_def update_background_task_def row_of_update)

lemma fire_submit:
  assumes "tracked w" and "bg_fire (BgSubmit t) w = Some w'"
  shows "tracked w'"
proof -
  have fresh: "status_of w (bt_id t) = None" "count (places checked_id (bw_submits w)) (bt_id t) = 0"
  proof -
    show "status_of w (bt_id t) = None" using assms(2) by (simp add: status_of_def split: if_split_asm)
    have "bt_id t \<notin> set (List.concat (map submit_id (bw_submits w)))" using assms(2) by (simp split: if_split_asm)
    moreover have "set (List.concat (map checked_id xs)) \<subseteq> set (List.concat (map submit_id xs))" for xs
    proof (induction xs)
      case (Cons x xs)
      then show ?case by (cases x) auto
    qed simp
    ultimately show "count (places checked_id (bw_submits w)) (bt_id t) = 0" by (auto simp: places_def not_in_iff [symmetric])
  qed
  have all: "\<forall>i. tracked_id w i" using assms(1) by (simp add: tracked_def)
  have pend: "bt_id (pending_record t) = bt_id t" "bt_status (pending_record t) = ''pending''" by (simp_all add: pending_record_def)
  consider "w' = w\<lparr>bw_submits := bw_submits w @ [BgReturned False]\<rparr>" | "w' = w\<lparr>bw_submits := bw_submits w @ [BgChecked (pending_record t)]\<rparr>"
    using assms(2) by (auto split: if_split_asm)
  then show ?thesis
  proof cases
    case 1
    then show ?thesis using assms(1) by (simp add: tracked_def tracked_id_def place_defs)
  next
    case 2
    have "tracked_id w' i" for i using tracked_idD [OF all [rule_format, of i]] fresh
      by (auto simp: 2 tracked_id_def place_defs pend)
    then show ?thesis using assms(1) by (auto simp: tracked_def 2 pend)
  qed
qed

lemma fire_save:
  assumes "tracked w" and "bg_fire (BgSave k db) w = Some w'"
  shows "tracked w'"
proof -
  obtain t where x: "at_index (BgReturned False) (bw_submits w) k = BgChecked t" using assms(2) by (auto split: bg_submit.splits)
  have all: "\<forall>i. tracked_id w i" using assms(1) by (simp add: tracked_def)
  note moved = submit_moved [OF x, simplified]
  have pend: "bt_status t = ''pending''" using assms(1) at_indexD [OF x] by (auto simp: tracked_def dest: nth_mem)
  have none: "status_of w (bt_id t) = None" "count (places checked_id (bw_submits w)) (bt_id t) = 1"
    using counted_once(4) [OF tracked_idD(3) [OF all [rule_format, of "bt_id t"], unfolded checked_def]] submit_moved(4) [OF x, of "bt_id t"] by simp_all
  have "w' = w\<lparr>bw_store := save_background_task t (bw_store w), bw_submits := (bw_submits w)[k := BgSaved t]\<rparr>
      \<or> w' = w\<lparr>bw_submits := (bw_submits w)[k := BgReturned False]\<rparr>"
    using assms(2) x by (auto split: if_split_asm)
  then show ?thesis
  proof
    assume w': "w' = w\<lparr>bw_store := save_background_task t (bw_store w), bw_submits := (bw_submits w)[k := BgSaved t]\<rparr>"
    have "tracked_id w' i" for i
      using tracked_idD [OF all [rule_format, of i]] none by (cases "i = bt_id t") (simp_all add: w' tracked_id_def place_defs status_saved pend moved)
    then show ?thesis using assms(1) moved(5) [of _ "BgSaved t"] by (auto simp: tracked_def w')
  next
    assume w': "w' = w\<lparr>bw_submits := (bw_submits w)[k := BgReturned False]\<rparr>"
    have "tracked_id w' i" for i
      using tracked_idD [OF all [rule_format, of i]] none by (cases "i = bt_id t") (simp_all add: w' tracked_id_def place_defs moved)
    then show ?thesis using assms(1) moved(5) [of _ "BgReturned False"] by (auto simp: tracked_def w')
  qed
qed

lemma fire_push:
  assumes "tracked w" and "bg_fire (BgPush k True) w = Some w'"
  shows "tracked w'"
proof -
  obtain t where x: "at_index (BgReturned False) (bw_submits w) k = BgSaved t" using assms(2) by (auto split: bg_submit.splits)
  have all: "\<forall>i. tracked_id w i" using assms(1) by (simp add: tracked_def)
  note moved = submit_moved [OF x, simplified]
  have pend: "status_of w (bt_id t) = Some ''pending''" "count (places saved_id (bw_submits w)) (bt_id t) = 1"
    "count (mset (map bt_id (bw_queue w))) (bt_id t) = 0" "count (places taken_id (bw_workers w)) (bt_id t) = 0"
    using counted_once(1) [OF tracked_idD(1) [OF all [rule_format, of "bt_id t"], unfolded waiting_def count_union]] submit_moved(3) [OF x, of "bt_id t"]
    by simp_all
  have "w' = w\<lparr>bw_queue := bw_queue w @ [t], bw_submits := (bw_submits w)[k := BgReturned True]\<rparr>
      \<or> w' = w\<lparr>bw_store := update_background_task (bt_id t) (\<lambda>x. x\<lparr>bt_status := ''failed'', bt_result := ''Task queue full''\<rparr>) (bw_store w),
              bw_submits := (bw_submits w)[k := BgReturned False]\<rparr>"
    using assms(2) x by (auto split: if_split_asm)
  then show ?thesis
  proof
    assume w': "w' = w\<lparr>bw_queue := bw_queue w @ [t], bw_submits := (bw_submits w)[k := BgReturned True]\<rparr>"
    have "tracked_id w' i" for i
      using tracked_idD [OF all [rule_format, of i]] pend by (cases "i = bt_id t") (simp_all add: w' tracked_id_def place_defs moved)
    then show ?thesis using assms(1) moved(5) [of _ "BgReturned True"] by (auto simp: tracked_def w')
  next
    assume w': "w' = w\<lparr>bw_store := update_background_task (bt_id t) (\<lambda>x. x\<lparr>bt_status := ''failed'', bt_result := ''Task queue full''\<rparr>) (bw_store w),
              bw_submits := (bw_submits w)[k := BgReturned False]\<rparr>"
    have "tracked_id w' i" for i
      using tracked_idD [OF all [rule_format, of i]] pend by (cases "i = bt_id t") (simp_all add: w' tracked_id_def place_defs status_full moved)
    then show ?thesis using assms(1) moved(5) [of _ "BgReturned False"] by (auto simp: tracked_def w')
  qed
qed

lemma fire_take:
  assumes "tracked w" and "bg_fire (BgTake k) w = Some w'"
  shows "tracked w'"
proof -
  obtain t q where x: "at_index BgFinished (bw_workers w) k = BgIdle" and q: "bw_queue w = t # q"
    using assms(2) by (auto split: bg_worker.splits list.splits)
  have all: "\<forall>i. tracked_id w i" using assms(1) by (simp add: tracked_def)
  note moved = worker_moved [OF x, simplified]
  have w': "w' = w\<lparr>bw_queue := q, bw_workers := (bw_workers w)[k := BgTaken t]\<rparr>" using assms(2) x q by simp
  have "tracked_id w' i" for i
    using tracked_idD [OF all [rule_format, of i]] by (cases "i = bt_id t") (simp_all add: w' tracked_id_def place_defs moved q)
  then show ?thesis using assms(1) by (simp add: tracked_def w')
qed

lemma fire_start:
  assumes "tracked w" and "bg_fire (BgStart k True) w = Some w'"
  shows "tracked w'"
proof -
  obtain t where x: "at_index BgFinished (bw_workers w) k = BgTaken t" using assms(2) by (auto split: bg_worker.splits)
  have all: "\<forall>i. tracked_id w i" using assms(1) by (simp add: tracked_def)
  note moved = worker_moved [OF x, simplified]
  have pend: "status_of w (bt_id t) = Some ''pending''" "count (places taken_id (bw_workers w)) (bt_id t) = 1"
    "count (mset (map bt_id (bw_queue w))) (bt_id t) = 0" "count (places saved_id (bw_submits w)) (bt_id t) = 0"
    using counted_once(2) [OF tracked_idD(1) [OF all [rule_format, of "bt_id t"], unfolded waiting_def count_union]] worker_moved(3) [OF x, of "bt_id t"]
    by simp_all
  have w': "w' = w\<lparr>bw_running := bw_running w + 1, bw_store := update_background_task (bt_id t) (\<lambda>x. x\<lparr>bt_status := ''running''\<rparr>) (bw_store w),
       bw_workers := (bw_workers w)[k := BgRunning t]\<rparr>" using assms(2) x by simp
  have "tracked_id w' i" for i
    using tracked_idD [OF all [rule_format, of i]] pend
    by (cases "i = bt_id t") (simp_all add: w' tracked_id_def place_defs status_started moved)
  then show ?thesis using assms(1) by (simp add: tracked_def w')
qed

lemma fire_finish:
  assumes "tracked w" and "bg_fire (BgFinish k True o') w = Some w'"
  shows "tracked w'"
proof -
  obtain t where x: "at_index BgFinished (bw_workers w) k = BgRunning t" using assms(2) by (auto split: bg_worker.splits)
  have all: "\<forall>i. tracked_id w i" using assms(1) by (simp add: tracked_def)
  note moved = worker_moved [OF x, simplified]
  have run: "status_of w (bt_id t) = Some ''running''" "count (places running_id (bw_workers w)) (bt_id t) = 1"
    using counted_once(3) [OF tracked_idD(2) [OF all [rule_format, of "bt_id t"], unfolded executing_def]] worker_moved(4) [OF x, of "bt_id t"] by simp_all
  have w': "w' = w\<lparr>bw_store := execute_task_end True o' t (bw_store w), bw_workers := (bw_workers w)[k := BgFinished]\<rparr>" using assms(2) x by simp
  have "tracked_id w' i" for i
    using tracked_idD [OF all [rule_format, of i]] run
    by (cases "i = bt_id t") (simp_all add: w' tracked_id_def place_defs end_status moved split: sum.split)
  then show ?thesis using assms(1) by (simp add: tracked_def w')
qed

lemma fire_release:
  assumes "tracked w" and "bg_fire (BgRelease k) w = Some w'"
  shows "tracked w'"
proof -
  have k: "k < length (bw_workers w)" "bw_workers w ! k = BgFinished" and w': "w' = w\<lparr>bw_running := bw_running w - 1, bw_workers := (bw_workers w)[k := BgIdle]\<rparr>"
    using assms(2) by (simp_all split: if_split_asm)
  have "places taken_id ((bw_workers w)[k := BgIdle]) = places taken_id (bw_workers w)" "places running_id ((bw_workers w)[k := BgIdle]) = places running_id (bw_workers w)"
    using places_update [OF k(1), of taken_id BgIdle] places_update [OF k(1), of running_id BgIdle] k(2) by simp_all
  then show ?thesis using assms(1) by (simp add: tracked_def tracked_id_def place_defs w')
qed


lemma tracked_fire: "tracked w \<Longrightarrow> db_ok a \<Longrightarrow> bg_fire a w = Some w' \<Longrightarrow> tracked w'"
proof (cases a)
  case (BgSubmit t)
  assume "tracked w" "bg_fire a w = Some w'"
  then show ?thesis unfolding BgSubmit by (rule fire_submit)
next
  case (BgSave k db)
  assume "tracked w" "bg_fire a w = Some w'"
  then show ?thesis unfolding BgSave by (rule fire_save)
next
  case (BgPush k db)
  assume "tracked w" "db_ok a" "bg_fire a w = Some w'"
  then show ?thesis using fire_push [of w k w'] by (simp only: BgPush db_ok.simps simp_thms)
next
  case (BgTake k)
  assume "tracked w" "bg_fire a w = Some w'"
  then show ?thesis unfolding BgTake by (rule fire_take)
next
  case (BgStart k db)
  assume "tracked w" "db_ok a" "bg_fire a w = Some w'"
  then show ?thesis using fire_start [of w k w'] by (simp only: BgStart db_ok.simps simp_thms)
next
  case (BgFinish k db o')
  assume "tracked w" "db_ok a" "bg_fire a w = Some w'"
  then show ?thesis using fire_finish [of w k o' w'] by (simp only: BgFinish db_ok.simps simp_thms)
next
  case (BgRelease k)
  assume "tracked w" "bg_fire a w = Some w'"
  then show ?thesis unfolding BgRelease by (rule fire_release)
qed

lemma tracked_run: "tracked w \<Longrightarrow> list_all db_ok as \<Longrightarrow> bg_run as w = Some w' \<Longrightarrow> tracked w'"
proof (induction as arbitrary: w)
  case (Cons a as)
  then obtain v where "bg_fire a w = Some v" "bg_run as v = Some w'" by (auto split: option.splits)
  then show ?case using Cons tracked_fire [of w a v] by simp
qed simp

section \<open>Tasks an earlier process has left\<close>

text \<open>The world without the records of the tasks in \<open>old\<close>.\<close>

definition forget :: "string set \<Rightarrow> bg_world \<Rightarrow> bg_world" where
  "forget old w = w\<lparr>bw_store := (bw_store w)\<lparr>ds_tasks := filter (\<lambda>t. bt_id t \<notin> old) (ds_tasks (bw_store w))\<rparr>\<rparr>"

lemma forget_simps [simp]:
  "bw_running (forget old w) = bw_running w" "bw_queue (forget old w) = bw_queue w" "bw_submits (forget old w) = bw_submits w"
  "bw_workers (forget old w) = bw_workers w" "bw_max (forget old w) = bw_max w"
  "waiting (forget old w) = waiting w" "executing (forget old w) = executing w" "checked (forget old w) = checked w"
  by (simp_all add: forget_def waiting_def executing_def checked_def)

lemma row_of_forget: "row_of bt_id i (filter (\<lambda>t. bt_id t \<notin> old) ts) = (if i \<in> old then None else row_of bt_id i ts)"
  by (induction ts) (auto simp: row_of_def)

lemma status_forget: "status_of (forget old w) i = (if i \<in> old then None else status_of w i)"
  by (simp add: status_of_def forget_def row_of_forget)

lemma forget_update:
  "(\<And>x. bt_id (f x) = bt_id x) \<Longrightarrow>
     filter (\<lambda>t. bt_id t \<notin> old) (update_rows bt_id i f ts) = update_rows bt_id i f (filter (\<lambda>t. bt_id t \<notin> old) ts)"
  by (induction ts) (auto simp: update_rows_def)

lemma forget_put:
  "bt_id t \<notin> old \<Longrightarrow> filter (\<lambda>t. bt_id t \<notin> old) (put_row bt_id t ts) = put_row bt_id t (filter (\<lambda>t. bt_id t \<notin> old) ts)"
  by (induction ts) (auto simp: put_row_def)

text \<open>The world of a later process: the rows of \<open>old\<close> are as they were, and no step is about them.\<close>

definition leftover :: "string set \<Rightarrow> (string \<Rightarrow> background_task option) \<Rightarrow> bg_world \<Rightarrow> bool" where
  "leftover old rows w \<longleftrightarrow> tracked (forget old w)
     \<and> (\<forall>i \<in> old. rows i \<noteq> None \<and> row_of bt_id i (ds_tasks (bw_store w)) = rows i)
     \<and> (\<forall>x \<in> set (bw_submits w). \<forall>i \<in> set (submit_id x). i \<notin> old)"

lemma leftover_tracked: "leftover old rows w \<Longrightarrow> tracked (forget old w)"
  by (simp add: leftover_def)

lemma places_member: "x \<in> set xs \<Longrightarrow> i \<in> set (f x) \<Longrightarrow> 0 < count (places f xs) i"
  by (auto simp: places_def intro!: bexI [of _ x])

lemma leftover_nobody:
  assumes "leftover old rows w" and "i \<in> old"
  shows "count (waiting w) i = 0" and "count (executing w) i = 0"
  using tracked_idD(1,2) [of "forget old w" i] assms by (simp_all add: leftover_def tracked_def status_forget)

lemma leftover_worker:
  assumes "leftover old rows w" and "x \<in> set (bw_workers w)" and "i \<in> set (taken_id x) \<union> set (running_id x)"
  shows "i \<notin> old"
proof
  assume "i \<in> old"
  with leftover_nobody [OF assms(1)] have "count (places taken_id (bw_workers w)) i = 0" "count (places running_id (bw_workers w)) i = 0"
    by (simp_all add: waiting_def executing_def)
  with assms(2,3) show False using places_member [of x _ i] by fastforce
qed

lemma leftover_submit: "leftover old rows w \<Longrightarrow> x \<in> set (bw_submits w) \<Longrightarrow> i \<in> set (submit_id x) \<Longrightarrow> i \<notin> old"
  by (auto simp: leftover_def)

lemma tracked_cong:
  assumes "tracked w" and "ds_tasks (bw_store v) = ds_tasks (bw_store w)" and "bw_submits v = bw_submits w"
    and "bw_queue v = bw_queue w" and "bw_workers v = bw_workers w"
  shows "tracked v"
  using assms by (simp add: tracked_def tracked_id_def waiting_def executing_def checked_def status_of_def)

text \<open>The identifier a step writes the record of.\<close>

fun step_id :: "bg_world \<Rightarrow> bg_action \<Rightarrow> string set" where
  "step_id w (BgSave k db) = set (submit_id (at_index (BgReturned False) (bw_submits w) k))"
| "step_id w (BgPush k db) = set (submit_id (at_index (BgReturned False) (bw_submits w) k))"
| "step_id w (BgStart k db) = set (taken_id (at_index BgFinished (bw_workers w) k))"
| "step_id w (BgFinish k db o') = set (running_id (at_index BgFinished (bw_workers w) k))"
| "step_id w _ = {}"

lemma step_id_new: "leftover old rows w \<Longrightarrow> step_id w a \<inter> old = {}"
proof -
  assume l: "leftover old rows w"
  have "set (submit_id (at_index (BgReturned False) (bw_submits w) k)) \<inter> old = {}" for k
    using leftover_submit [OF l nth_mem] by (auto simp: at_index_def)
  moreover have "set (taken_id (at_index BgFinished (bw_workers w) k)) \<inter> old = {}"
    "set (running_id (at_index BgFinished (bw_workers w) k)) \<inter> old = {}" for k
    using leftover_worker [OF l nth_mem] by (auto simp: at_index_def)
  ultimately show ?thesis by (cases a) simp_all
qed

text \<open>A step about another task does the same without the records of the old ones.\<close>

lemma forget_fire:
  assumes "bg_fire a w = Some w'" and "step_id w a \<inter> old = {}"
  shows "\<exists>v. bg_fire a (forget old w) = Some v \<and> ds_tasks (bw_store v) = ds_tasks (bw_store (forget old w'))
    \<and> bw_submits v = bw_submits w' \<and> bw_queue v = bw_queue w' \<and> bw_workers v = bw_workers w'"
proof (cases a)
  case (BgSubmit t)
  then show ?thesis using assms by (auto simp: forget_def row_of_forget split: if_split_asm)
next
  case (BgSave k db)
  then show ?thesis using assms
    by (auto simp: forget_def save_background_task_def forget_put split: bg_submit.split_asm if_split_asm)
next
  case (BgPush k db)
  then show ?thesis using assms
    by (auto simp: forget_def update_background_task_def forget_update split: bg_submit.split_asm if_split_asm)
next
  case (BgTake k)
  then show ?thesis using assms by (auto simp: forget_def split: bg_worker.split_asm list.split_asm)
next
  case (BgStart k db)
  then show ?thesis using assms
    by (auto simp: forget_def update_background_task_def forget_update split: bg_worker.split_asm if_split_asm)
next
  case (BgFinish k db o')
  then show ?thesis using assms
    by (auto simp: forget_def end_tasks forget_update split: bg_worker.split_asm if_split_asm)
next
  case (BgRelease k)
  then show ?thesis using assms by (auto simp: forget_def split: if_split_asm)
qed

lemma rows_fire:
  assumes "bg_fire a w = Some w'" and "i \<notin> step_id w a"
  shows "row_of bt_id i (ds_tasks (bw_store w')) = row_of bt_id i (ds_tasks (bw_store w))"
  using assms
  by (cases a) (auto simp: save_background_task_def update_background_task_def end_tasks row_of_put row_of_update
      split: bg_submit.split_asm bg_worker.split_asm list.split_asm if_split_asm)

lemma submits_fire:
  assumes "bg_fire a w = Some w'" and "x \<in> set (bw_submits w')" and "i \<in> set (submit_id x)"
  shows "row_of bt_id i (ds_tasks (bw_store w)) = None \<or> (\<exists>y \<in> set (bw_submits w). i \<in> set (submit_id y))"
proof (cases a)
  case (BgSubmit t)
  then show ?thesis using assms by (auto simp: pending_record_def split: if_split_asm)
next
  case (BgSave k db)
  then obtain t where t: "at_index (BgReturned False) (bw_submits w) k = BgChecked t" using assms(1) by (auto split: bg_submit.splits)
  then have "BgChecked t \<in> set (bw_submits w)" using at_indexD [OF t] by (auto dest: nth_mem)
  moreover have "bw_submits w' = (bw_submits w)[k := BgSaved t] \<or> bw_submits w' = (bw_submits w)[k := BgReturned False]"
    using assms(1) BgSave t by (auto split: if_split_asm)
  then have "x \<in> {BgSaved t, BgReturned False} \<union> set (bw_submits w)"
    using assms(2) set_update_subset_insert [of "bw_submits w" k] by fastforce
  ultimately have "\<exists>y \<in> set (bw_submits w). i \<in> set (submit_id y)" using assms(3) by force
  then show ?thesis ..
next
  case (BgPush k db)
  then obtain t where t: "at_index (BgReturned False) (bw_submits w) k = BgSaved t" using assms(1) by (auto split: bg_submit.splits)
  have "bw_submits w' = (bw_submits w)[k := BgReturned True] \<or> bw_submits w' = (bw_submits w)[k := BgReturned False]"
    using assms(1) BgPush t by (auto split: if_split_asm)
  then have "x \<in> {BgReturned True, BgReturned False} \<union> set (bw_submits w)"
    using assms(2) set_update_subset_insert [of "bw_submits w" k] by fastforce
  then show ?thesis using assms(3) by auto
qed (use assms in \<open>auto split: bg_worker.split_asm list.split_asm if_split_asm\<close>)

lemma leftover_fire:
  assumes "leftover old rows w" and "db_ok a" and "bg_fire a w = Some w'"
  shows "leftover old rows w'"
  unfolding leftover_def
proof (intro conjI ballI)
  from forget_fire [OF assms(3) step_id_new [OF assms(1)]] obtain v where
    v: "bg_fire a (forget old w) = Some v" "ds_tasks (bw_store v) = ds_tasks (bw_store (forget old w'))"
      "bw_submits v = bw_submits w'" "bw_queue v = bw_queue w'" "bw_workers v = bw_workers w'" by auto
  have "tracked v" by (rule tracked_fire [OF leftover_tracked [OF assms(1)] assms(2) v(1)])
  then show "tracked (forget old w')" by (rule tracked_cong) (simp_all add: v)
next
  fix i assume "i \<in> old"
  then show "rows i \<noteq> None" "row_of bt_id i (ds_tasks (bw_store w')) = rows i"
    using assms(1) rows_fire [OF assms(3), of i] step_id_new [OF assms(1), of a] by (auto simp: leftover_def)
next
  fix x i assume "x \<in> set (bw_submits w')" "i \<in> set (submit_id x)"
  from submits_fire [OF assms(3) this] show "i \<notin> old" using assms(1) by (auto simp: leftover_def)
qed

lemma leftover_run: "leftover old rows w \<Longrightarrow> list_all db_ok as \<Longrightarrow> bg_run as w = Some w' \<Longrightarrow> leftover old rows w'"
proof (induction as arbitrary: w)
  case (Cons a as)
  then obtain v where "bg_fire a w = Some v" "bg_run as v = Some w'" by (auto split: option.splits)
  then show ?case using Cons leftover_fire [of old rows w a v] by simp
qed simp

lemma leftover_new:
  "leftover {i. row_of bt_id i (ds_tasks s) \<noteq> None} (\<lambda>i. row_of bt_id i (ds_tasks s)) (new_background_runner n s)"
proof -
  have "t \<in> set ts \<Longrightarrow> row_of bt_id (bt_id t) ts \<noteq> None" for t and ts :: "background_task list"
    by (auto simp: row_of_def find_None_iff)
  then have "filter (\<lambda>t. bt_id t \<notin> {i. row_of bt_id i (ds_tasks s) \<noteq> None}) (ds_tasks s) = []"
    by (auto simp: filter_empty_conv)
  then show ?thesis
    using tracked_new [of "s\<lparr>ds_tasks := []\<rparr>" n] by (simp add: leftover_def forget_def new_background_runner_def)
qed

lemma careful_run_counts:
  assumes "list_all db_ok as" and "bg_run as (new_background_runner n s) = Some w" and "row_of bt_id i (ds_tasks s) = None"
  shows "count (waiting w) i = of_bool (status_of w i = Some ''pending'')
    \<and> count (executing w) i = of_bool (status_of w i = Some ''running'')"
proof -
  let ?old = "{i. row_of bt_id i (ds_tasks s) \<noteq> None}"
  have "tracked (forget ?old w)" by (rule leftover_tracked [OF leftover_run [OF leftover_new assms(1,2)]])
  then have "tracked_id (forget ?old w) i" by (simp add: tracked_def)
  from tracked_idD(1,2) [OF this] show ?thesis using assms(3) by (simp add: status_forget)
qed

lemma careful_run_leftover:
  assumes "list_all db_ok as" and "bg_run as (new_background_runner n s) = Some w" and "row_of bt_id i (ds_tasks s) \<noteq> None"
  shows "count (waiting w) i = 0 \<and> count (executing w) i = 0
    \<and> row_of bt_id i (ds_tasks (bw_store w)) = row_of bt_id i (ds_tasks s)"
  using leftover_run [OF leftover_new assms(1,2)] leftover_nobody [OF leftover_run [OF leftover_new assms(1,2)], of i] assms(3)
  by (auto simp: leftover_def)

section \<open>The counter and the queue\<close>

fun busy :: "bg_worker \<Rightarrow> bool" where
  "busy (BgRunning t) = True"
| "busy BgFinished = True"
| "busy _ = False"

definition busy_workers :: "bg_worker list \<Rightarrow> nat" where
  "busy_workers ws = length (filter busy ws)"

definition counted :: "int \<Rightarrow> bg_world \<Rightarrow> bool" where
  "counted n w \<longleftrightarrow> bw_running w = int (busy_workers (bw_workers w)) \<and> length (bw_workers w) = nat n \<and> length (bw_queue w) \<le> queue_capacity"

lemma busy_update:
  "k < length ws \<Longrightarrow> int (busy_workers (ws[k := y])) = int (busy_workers ws) - of_bool (busy (ws ! k)) + of_bool (busy y)"
proof (induction ws arbitrary: k)
  case (Cons x xs)
  then show ?case by (cases k) (simp_all add: busy_workers_def)
qed simp

lemma at_index_worker: "at_index BgFinished ws k = x \<Longrightarrow> x \<noteq> BgFinished \<Longrightarrow> k < length ws \<and> ws ! k = x"
  by (rule at_indexD)

lemma counted_fire: "counted n w \<Longrightarrow> bg_fire a w = Some w' \<Longrightarrow> counted n w'"
proof -
  assume c: "counted n w" and f: "bg_fire a w = Some w'"
  consider (same) "bw_running w' = bw_running w" "bw_workers w' = bw_workers w" "length (bw_queue w') \<le> queue_capacity"
    | (step) k x y where "k < length (bw_workers w)" "bw_workers w ! k = x" "bw_workers w' = (bw_workers w)[k := y]"
        "bw_running w' = bw_running w - of_bool (busy x) + of_bool (busy y)" "length (bw_queue w') \<le> queue_capacity"
  proof (cases a)
    case (BgTake k)
    then obtain t q where x: "at_index BgFinished (bw_workers w) k = BgIdle" and q: "bw_queue w = t # q"
      using f by (auto split: bg_worker.splits list.splits)
    show ?thesis using that(2) [of k BgIdle "BgTaken t"] f c BgTake x q at_index_worker [OF x] by (auto simp: counted_def)
  next
    case (BgStart k db)
    then obtain t where x: "at_index BgFinished (bw_workers w) k = BgTaken t" using f by (auto split: bg_worker.splits)
    show ?thesis using that(2) [of k "BgTaken t" "BgRunning t"] f c BgStart x at_index_worker [OF x] by (auto simp: counted_def)
  next
    case (BgFinish k db o')
    then obtain t where x: "at_index BgFinished (bw_workers w) k = BgRunning t" using f by (auto split: bg_worker.splits)
    show ?thesis using that(2) [of k "BgRunning t" BgFinished] f c BgFinish x at_index_worker [OF x] by (auto simp: counted_def)
  next
    case (BgRelease k)
    then show ?thesis using that(2) [of k BgFinished BgIdle] f c by (auto simp: counted_def split: if_split_asm)
  qed (use that(1) f c in \<open>auto simp: counted_def split: if_split_asm bg_submit.split_asm\<close>)
  then show ?thesis
  proof cases
    case same
    then show ?thesis using c by (simp add: counted_def)
  next
    case step
    then show ?thesis using c busy_update [OF step(1), of y] by (simp add: counted_def)
  qed
qed

lemma counted_run: "counted n w \<Longrightarrow> bg_run as w = Some w' \<Longrightarrow> counted n w'"
proof (induction as arbitrary: w)
  case (Cons a as)
  then obtain v where "bg_fire a w = Some v" "bg_run as v = Some w'" by (auto split: option.splits)
  then show ?case using Cons counted_fire [of n w a v] by simp
qed simp

lemma counted_new: "counted n (new_background_runner n s)"
  by (simp add: counted_def new_background_runner_def busy_workers_def queue_capacity_def)

section \<open>Properties\<close>

text \<open>
  C35: As long as the updates of the database succeed, no background task is lost and none runs twice,
  whatever the order of submissions and workers and whatever tasks an earlier process has left in the
  database. A task of this process whose record says \<open>pending\<close> is in exactly one place, with a
  submission that has stored it, in the queue or taken by a worker; a task whose record says
  \<open>running\<close> is run by exactly one worker; no other task is anywhere. A task that was in the database
  at the start belongs to nobody, and its record stays as it is.
\<close>

theorem background_task_tracked:
  "list_all db_ok as \<Longrightarrow> bg_run as (new_background_runner n s) = Some w \<Longrightarrow>
     (if row_of bt_id i (ds_tasks s) = None
      then count (waiting w) i = of_bool (status_of w i = Some ''pending'')
        \<and> count (executing w) i = of_bool (status_of w i = Some ''running'')
      else count (waiting w) i = 0 \<and> count (executing w) i = 0
        \<and> row_of bt_id i (ds_tasks (bw_store w)) = row_of bt_id i (ds_tasks s))"
  using careful_run_counts [of as n s w i] careful_run_leftover [of as n s w i] by simp

definition sample_outcome :: bg_outcome where
  "sample_outcome = \<lparr>bo_result = Inr ''found'', bo_now = 9, bo_metric_db = True, bo_metric_id = ''m1'', bo_duration = 5, bo_record_db = (\<lambda>i. True), bo_later = 9\<rparr>"

definition sample_steps :: "bool \<Rightarrow> bg_action list" where
  "sample_steps db =
     [BgSubmit (sample_task ''t1'' ''ann'' []), BgSubmit (sample_task ''t2'' ''ann'' []), BgSave 1 True, BgSave 0 True, BgPush 1 True,
      BgTake 0, BgStart 0 True, BgPush 0 True, BgFinish 0 db sample_outcome, BgRelease 0]"

theorem background_task_tracked_witness:
  "case bg_run (sample_steps True) (new_background_runner 1 new_sqlite_store) of None \<Rightarrow> False
   | Some w \<Rightarrow> count (waiting w) ''t1'' = 1 \<and> status_of w ''t1'' = Some ''pending''
       \<and> count (executing w) ''t2'' = 0 \<and> status_of w ''t2'' = Some ''completed''"
proof -
  let ?r = "bg_run (sample_steps True) (new_background_runner 1 new_sqlite_store)"
  have some: "?r \<noteq> None" by code_simp
  then obtain w where w: "?r = Some w" by blast
  have st: "map_option (\<lambda>w. status_of w ''t1'') ?r = Some (Some ''pending'')" "map_option (\<lambda>w. status_of w ''t2'') ?r = Some (Some ''completed'')"
    by code_simp+
  have ok: "list_all db_ok (sample_steps True)"
    and new: "row_of bt_id ''t1'' (ds_tasks new_sqlite_store) = None" "row_of bt_id ''t2'' (ds_tasks new_sqlite_store) = None"
    by code_simp+
  show ?thesis
    using background_task_tracked [OF ok w, of "''t1''"] background_task_tracked [OF ok w, of "''t2''"] st
    by (simp add: w new)
qed

text \<open>
  The counter of running tasks is the number of workers that run one; it is never negative and
  never above the configured maximum, and the queue never holds more than one hundred tasks,
  whatever the database does.
\<close>

theorem runner_counts:
  "case bg_run as (new_background_runner n s) of
     None \<Rightarrow> True
   | Some w \<Rightarrow> bw_running w = int (busy_workers (bw_workers w)) \<and> bw_running w \<le> max 0 n \<and> length (bw_queue w) \<le> queue_capacity"
proof (cases "bg_run as (new_background_runner n s)")
  case (Some w)
  then have "counted n w" by (rule counted_run [OF counted_new])
  then have c: "bw_running w = int (busy_workers (bw_workers w))" "length (bw_workers w) = nat n" "length (bw_queue w) \<le> queue_capacity"
    by (simp_all add: counted_def)
  have "busy_workers (bw_workers w) \<le> length (bw_workers w)" by (simp add: busy_workers_def)
  then have "bw_running w \<le> max 0 n" using c(1,2) by linarith
  then show ?thesis using c(1,3) by (simp add: Some)
qed simp

text \<open>
  The runner ignores the errors of the database, so a task can stay \<open>running\<close> for good: when the
  update at the end of a task fails, its record says \<open>running\<close> though no worker runs it, and its
  result is lost.
\<close>

theorem failed_update_leaves_task_running:
  "case bg_run (sample_steps False) (new_background_runner 1 new_sqlite_store) of None \<Rightarrow> False
   | Some w \<Rightarrow> status_of w ''t2'' = Some ''running'' \<and> bw_workers w = [BgIdle] \<and> bw_running w = 0"
  by code_simp

end
