(* ===== verification/GoRunes.thy ===== *)
theory GoRunes
  imports Prelude
begin

text \<open>
  Runes: how Go reads a string as a sequence of code points (\<open>[]rune(s)\<close>, \<open>range s\<close>) and writes one
  back (\<open>string(runes)\<close>). A byte that does not start a well-formed sequence is read as U+FFFD.
\<close>

type_synonym rune = nat

section \<open>Reading and writing\<close>

abbreviation byte_of :: "char \<Rightarrow> nat" where "byte_of c \<equiv> of_char c"

definition tail_byte :: "nat \<Rightarrow> bool" where
  "tail_byte b \<longleftrightarrow> 128 \<le> b \<and> b < 192"

definition replacement_rune :: rune where "replacement_rune = 65533"

text \<open>The ranges of the second byte depend on the first: no overlong forms, no surrogates, nothing above U+10FFFF.\<close>

definition second_ok :: "nat \<Rightarrow> nat \<Rightarrow> bool" where
  "second_ok a b \<longleftrightarrow>
     (if a = 224 then 160 \<le> b \<and> b < 192
      else if a = 237 then 128 \<le> b \<and> b < 160
      else if a = 240 then 144 \<le> b \<and> b < 192
      else if a = 244 then 128 \<le> b \<and> b < 144
      else tail_byte b)"

fun decode_rune :: "nat \<Rightarrow> nat list \<Rightarrow> rune \<times> nat list" where
  "decode_rune a bs =
     (if a < 128 then (a, bs)
      else if 194 \<le> a \<and> a < 224 then
        (case bs of b # r \<Rightarrow> if tail_byte b then ((a - 192) * 64 + (b - 128), r) else (replacement_rune, bs) | _ \<Rightarrow> (replacement_rune, bs))
      else if 224 \<le> a \<and> a < 240 then
        (case bs of
           b # c # r \<Rightarrow>
             if second_ok a b \<and> tail_byte c then ((a - 224) * 4096 + (b - 128) * 64 + (c - 128), r) else (replacement_rune, bs)
         | _ \<Rightarrow> (replacement_rune, bs))
      else if 240 \<le> a \<and> a < 245 then
        (case bs of
           b # c # d # r \<Rightarrow>
             if second_ok a b \<and> tail_byte c \<and> tail_byte d
             then ((a - 240) * 262144 + (b - 128) * 4096 + (c - 128) * 64 + (d - 128), r) else (replacement_rune, bs)
         | _ \<Rightarrow> (replacement_rune, bs))
      else (replacement_rune, bs))"

declare decode_rune.simps [simp del]

lemma decode_rest: "length (snd (decode_rune a bs)) \<le> length bs"
  by (auto simp: decode_rune.simps split: list.split)

function byte_runes :: "nat list \<Rightarrow> rune list" where
  "byte_runes [] = []"
| "byte_runes (a # bs) = (case decode_rune a bs of (r, rest) \<Rightarrow> r # byte_runes rest)"
  by pat_completeness auto
termination
proof (relation "measure length", goal_cases)
  case (2 a bs r rest)
  then show ?case using decode_rest [of a bs] by (metis in_measure le_imp_less_Suc length_Cons snd_conv)
qed simp

definition runes :: "string \<Rightarrow> rune list" where
  "runes s = byte_runes (map byte_of s)"

definition valid_rune :: "rune \<Rightarrow> bool" where
  "valid_rune r \<longleftrightarrow> r < 55296 \<or> 57344 \<le> r \<and> r < 1114112"

definition encode_rune :: "rune \<Rightarrow> nat list" where
  "encode_rune r0 =
     (let r = (if valid_rune r0 then r0 else replacement_rune) in
      if r < 128 then [r]
      else if r < 2048 then [192 + r div 64, 128 + r mod 64]
      else if r < 65536 then [224 + r div 4096, 128 + r div 64 mod 64, 128 + r mod 64]
      else [240 + r div 262144, 128 + r div 4096 mod 64, 128 + r div 64 mod 64, 128 + r mod 64])"

definition string_of_runes :: "rune list \<Rightarrow> string" where
  "string_of_runes rs = map char_of (concat (map encode_rune rs))"

section \<open>Facts\<close>

lemma byte_of_less: "byte_of c < 256"
  by (metis of_char_mod_256 mod_less_divisor zero_less_numeral)

lemma encode_bytes: "b \<in> set (encode_rune r) \<Longrightarrow> b < 256"
  by (auto simp: encode_rune_def Let_def valid_rune_def replacement_rune_def split: if_splits)

lemma div_64: "r div 64 * 64 + r mod 64 = (r::nat)" "r div 4096 * 64 + r div 64 mod 64 = r div 64"
proof -
  show "r div 64 * 64 + r mod 64 = r" by simp
  have "r div 4096 = r div 64 div 64" by (simp add: div_mult2_eq [symmetric])
  then show "r div 4096 * 64 + r div 64 mod 64 = r div 64" by simp
qed

lemma div_4096: "r div 262144 * 64 + r div 4096 mod 64 = (r::nat) div 4096"
proof -
  have "r div 262144 = r div 4096 div 64" by (simp add: div_mult2_eq [symmetric])
  then show ?thesis by simp
qed

lemma decode_encode:
  assumes "valid_rune r"
  shows "byte_runes (encode_rune r @ bs) = r # byte_runes bs"
proof -
  consider "r < 128" | "128 \<le> r" "r < 2048" | "2048 \<le> r" "r < 65536" | "65536 \<le> r" "r < 1114112"
    using assms by (fastforce simp: valid_rune_def)
  then show ?thesis
  proof cases
    case 1
    then show ?thesis using assms by (simp add: encode_rune_def decode_rune.simps)
  next
    case 2
    have "r div 64 < 32" "2 \<le> r div 64" using 2 by linarith+
    moreover have "r div 64 * 64 + r mod 64 = r" by simp
    ultimately show ?thesis using assms 2
      by (simp add: encode_rune_def decode_rune.simps tail_byte_def)
  next
    case 3
    have "r div 4096 < 16" using 3 by linarith
    moreover have "r div 4096 * 4096 + r div 64 mod 64 * 64 + r mod 64 = r" using div_64 [of r] by linarith
    moreover have "second_ok (224 + r div 4096) (128 + r div 64 mod 64)"
    proof -
      have "r div 64 mod 64 < 32" if "r div 4096 = 13"
        using that div_64 [of r] 3 assms unfolding valid_rune_def by linarith
      moreover have "32 \<le> r div 64 mod 64" if "r div 4096 = 0" using that div_64 [of r] 3 by linarith
      ultimately show ?thesis using 3 by (auto simp: second_ok_def tail_byte_def)
    qed
    ultimately show ?thesis using assms 3
      by (simp add: encode_rune_def decode_rune.simps tail_byte_def)
  next
    case 4
    have "r div 262144 \<le> 4" using 4 by linarith
    moreover have "r div 262144 * 262144 + r div 4096 mod 64 * 4096 + r div 64 mod 64 * 64 + r mod 64 = r"
      using div_64 [of r] div_4096 [of r] by linarith
    moreover have "second_ok (240 + r div 262144) (128 + r div 4096 mod 64)"
    proof -
      have "r div 4096 mod 64 < 16" if "r div 262144 = 4"
        using that div_4096 [of r] 4 by linarith
      moreover have "16 \<le> r div 4096 mod 64" if "r div 262144 = 0" using that div_4096 [of r] 4 by linarith
      ultimately show ?thesis using 4 by (auto simp: second_ok_def tail_byte_def)
    qed
    ultimately show ?thesis using assms 4
      by (simp add: encode_rune_def decode_rune.simps tail_byte_def)
  qed
qed

theorem runes_round_trip: "list_all valid_rune rs \<Longrightarrow> runes (string_of_runes rs) = rs"
proof -
  have "map byte_of (map char_of (concat (map encode_rune rs))) = concat (map encode_rune rs)" for rs
    by (induction rs) (auto simp: encode_bytes map_idI)
  moreover have "list_all valid_rune rs \<Longrightarrow> byte_runes (concat (map encode_rune rs)) = rs" for rs
    by (induction rs) (auto simp: decode_encode)
  ultimately show "list_all valid_rune rs \<Longrightarrow> ?thesis" by (simp add: runes_def string_of_runes_def)
qed

lemma runes_ascii: "list_all (\<lambda>c. byte_of c < 128) s \<Longrightarrow> runes s = map byte_of s"
  unfolding runes_def by (induction s) (auto simp: decode_rune.simps)

lemma byte_runes_length: "length (byte_runes bs) \<le> length bs"
proof (induction "length bs" arbitrary: bs rule: less_induct)
  case less
  show ?case
  proof (cases bs)
    case (Cons a r)
    then show ?thesis using less [of "snd (decode_rune a r)"] decode_rest [of a r] by (auto split: prod.split)
  qed simp
qed

lemma runes_length: "length (runes s) \<le> length s"
  using byte_runes_length [of "map byte_of s"] by (simp add: runes_def)

lemma two_bytes: "194 \<le> a \<Longrightarrow> a < 224 \<Longrightarrow> tail_byte b \<Longrightarrow> valid_rune ((a - 192) * 64 + (b - 128))"
  by (auto simp: valid_rune_def tail_byte_def)

lemma three_bytes:
  assumes "224 \<le> a" "a < 240" "second_ok a b" "tail_byte c"
  shows "valid_rune ((a - 224) * 4096 + (b - 128) * 64 + (c - 128))"
proof -
  obtain x y z where x: "a = 224 + x" "b = 128 + y" "c = 128 + z" "y < 64" "z < 64"
    using assms by (auto simp: second_ok_def tail_byte_def nat_le_iff_add split: if_splits)
  show ?thesis
  proof (cases "x = 13")
    case True
    then have "y < 32" using assms(3) x by (simp add: second_ok_def)
    then show ?thesis using x True by (simp add: valid_rune_def)
  next
    case False
    then have "x \<le> 12 \<or> 14 \<le> x" by linarith
    then show ?thesis using x assms(2) by (auto simp: valid_rune_def)
  qed
qed

lemma four_bytes:
  assumes "240 \<le> a" "a < 245" "second_ok a b" "tail_byte c" "tail_byte d"
  shows "valid_rune ((a - 240) * 262144 + (b - 128) * 4096 + (c - 128) * 64 + (d - 128))"
proof -
  obtain x y z u where x: "a = 240 + x" "b = 128 + y" "c = 128 + z" "d = 128 + u" "y < 64" "z < 64" "u < 64"
    using assms by (auto simp: second_ok_def tail_byte_def nat_le_iff_add split: if_splits)
  have "1 \<le> x \<or> 16 \<le> y" "x \<le> 3 \<or> y < 16"
    using assms(2,3) x by (cases "x = 0"; cases "x = 4"; simp add: second_ok_def)+
  then show ?thesis using x assms(2) by (auto simp: valid_rune_def)
qed

lemma decode_valid: "a < 256 \<Longrightarrow> valid_rune (fst (decode_rune a bs))"
proof -
  have "valid_rune replacement_rune" "a < 128 \<Longrightarrow> valid_rune a" by (simp_all add: valid_rune_def replacement_rune_def)
  then show ?thesis by (simp add: decode_rune.simps two_bytes three_bytes four_bytes split: list.split)
qed

lemma runes_valid: "list_all valid_rune (runes s)"
proof -
  have "\<forall>b \<in> set bs. b < 256 \<Longrightarrow> list_all valid_rune (byte_runes bs)" for bs
  proof (induction "length bs" arbitrary: bs rule: less_induct)
    case less
    show ?case
    proof (cases bs)
      case (Cons a r)
      have "set (snd (decode_rune a r)) \<subseteq> set r" by (auto simp: decode_rune.simps split: list.split if_split_asm)
      then have "\<forall>b \<in> set (snd (decode_rune a r)). b < 256" using less.prems Cons by auto
      then have "list_all valid_rune (byte_runes (snd (decode_rune a r)))"
        using less.hyps [of "snd (decode_rune a r)"] decode_rest [of a r] Cons by simp
      then show ?thesis using Cons less.prems decode_valid [of a r] by (auto split: prod.split)
    qed simp
  qed
  then show ?thesis by (simp add: runes_def byte_of_less)
qed

end
