(* ===== verification/MessageSplit.thy ===== *)
theory MessageSplit
  imports GoRunes
begin

text \<open>
  Splitting a long message for a chat channel (\<open>pkg/channels/split.go\<close>). The loop of \<open>SplitMessage\<close>
  is modelled on \<open>runes[start:]\<close>: every index below is relative to \<open>start\<close>, and an index that the code
  reports as "not found" (\<open>-1\<close> or \<open>start - 1\<close>) is \<open>None\<close>. The loop may run for ever, so it is a partial
  function whose value is \<open>None\<close> then.
\<close>

section \<open>Searching\<close>

abbreviation backquote :: rune where "backquote \<equiv> 96"
abbreviation newline_rune :: rune where "newline_rune \<equiv> 10"

definition fence :: "rune list" where "fence = [backquote, backquote, backquote]"

text \<open>The \<open>i\<close> runs over the range; \<open>open\<close> is the last opening fence, if the block is open.\<close>

fun unclosed_from :: "nat \<Rightarrow> nat option \<Rightarrow> rune list \<Rightarrow> nat option" where
  "unclosed_from i open' (a # b # c # rs) =
     (if a = backquote \<and> b = backquote \<and> c = backquote
      then unclosed_from (i + 3) (if open' = None then Some i else None) rs
      else unclosed_from (i + 1) open' (b # c # rs))"
| "unclosed_from i open' _ = open'"

definition find_last_unclosed_code_block :: "rune list \<Rightarrow> nat \<Rightarrow> nat option" where
  "find_last_unclosed_code_block rs stop = unclosed_from 0 None (take stop rs)"

fun closing_from :: "nat \<Rightarrow> rune list \<Rightarrow> nat option" where
  "closing_from i (a # b # c # rs) =
     (if a = backquote \<and> b = backquote \<and> c = backquote then Some (i + 3) else closing_from (i + 1) (b # c # rs))"
| "closing_from i _ = None"

definition find_next_closing_code_block :: "rune list \<Rightarrow> nat \<Rightarrow> nat option" where
  "find_next_closing_code_block rs from = closing_from from (drop from rs)"

fun newline_index :: "nat \<Rightarrow> rune list \<Rightarrow> nat option" where
  "newline_index i [] = None"
| "newline_index i (r # rs) = (if r = newline_rune then Some i else newline_index (i + 1) rs)"

definition find_newline_from :: "rune list \<Rightarrow> nat \<Rightarrow> nat option" where
  "find_newline_from rs from = newline_index from (drop from rs)"

fun find_last :: "(rune \<Rightarrow> bool) \<Rightarrow> rune list \<Rightarrow> nat \<Rightarrow> nat \<Rightarrow> nat option" where
  "find_last P rs lo 0 = None"
| "find_last P rs lo (Suc i) = (if i < lo then None else if P (rs ! i) then Some i else find_last P rs lo i)"

definition find_last_newline :: "rune list \<Rightarrow> nat \<Rightarrow> nat \<Rightarrow> nat option" where
  "find_last_newline rs stop window = find_last (\<lambda>r. r = newline_rune) rs (stop - window) stop"

definition find_last_space :: "rune list \<Rightarrow> nat \<Rightarrow> nat \<Rightarrow> nat option" where
  "find_last_space rs stop window = find_last (\<lambda>r. r = 32 \<or> r = 9) rs (stop - window) stop"

section \<open>White space\<close>

text \<open>\<open>unicode.IsSpace\<close>, and the four characters that the loop skips and trims.\<close>

definition is_space_rune :: "rune \<Rightarrow> bool" where
  "is_space_rune r \<longleftrightarrow> 9 \<le> r \<and> r \<le> 13 \<or> 8192 \<le> r \<and> r \<le> 8202 \<or> r \<in> {32, 133, 160, 5760, 8232, 8233, 8239, 8287, 12288}"

definition is_blank :: "rune \<Rightarrow> bool" where
  "is_blank r \<longleftrightarrow> r = 32 \<or> r = 9 \<or> r = 10 \<or> r = 13"

definition trim_runes :: "rune list \<Rightarrow> rune list" where
  "trim_runes rs = rev (dropWhile is_space_rune (rev (dropWhile is_space_rune rs)))"

definition trim_right_blanks :: "rune list \<Rightarrow> rune list" where
  "trim_right_blanks rs = rev (dropWhile is_blank (rev rs))"

section \<open>One chunk\<close>

definition effective_limit :: "nat \<Rightarrow> nat" where
  "effective_limit m =
     (let b = max (m div 10) 50; buffer = (if b > m div 2 then m div 2 else b) in max (m - buffer) (m div 2))"

text \<open>An index at the very start counts as not found.\<close>

fun positive :: "nat option \<Rightarrow> nat option" where
  "positive (Some (Suc i)) = Some (Suc i)"
| "positive _ = None"

definition natural_end :: "rune list \<Rightarrow> nat \<Rightarrow> nat option" where
  "natural_end rs stop =
     (case positive (find_last_newline rs stop 200) of
        Some i \<Rightarrow> Some i
      | None \<Rightarrow> positive (find_last_space rs stop 100))"

definition plain_cut :: "rune list \<Rightarrow> nat \<Rightarrow> rune list \<times> rune list" where
  "plain_cut rs i = (take i rs, dropWhile is_blank (drop i rs))"

text \<open>The cut inside a code block: the fence is closed, and opened again with its header.\<close>

definition fenced_cut :: "rune list \<Rightarrow> rune list \<Rightarrow> nat \<Rightarrow> rune list \<times> rune list" where
  "fenced_cut rs header i =
     (trim_right_blanks (take i rs) @ newline_rune # fence, trim_runes (header @ newline_rune # drop i rs))"

definition fence_header :: "rune list \<Rightarrow> nat \<Rightarrow> rune list \<times> nat" where
  "fence_header rs u =
     (case find_newline_from rs u of
        None \<Rightarrow> (let header = trim_runes (take 3 (drop u rs)) in (header, u + length header))
      | Some h \<Rightarrow> (trim_runes (take (h - u) (drop u rs)), h))"

definition split_block :: "nat \<Rightarrow> rune list \<Rightarrow> nat \<Rightarrow> nat \<Rightarrow> rune list \<times> rune list" where
  "split_block m rs msg_end u =
     (let (header, header_end) = fence_header rs u; inner = min (m - 5) (length rs) in
      if msg_end > header_end + 20 then
        fenced_cut rs header
          (case find_last_newline rs inner 200 of
             Some b \<Rightarrow> if b > header_end then b else inner
           | None \<Rightarrow> inner)
      else
        (case natural_end rs u of
           Some i \<Rightarrow> plain_cut rs i
         | None \<Rightarrow> if u > 20 then plain_cut rs u else fenced_cut rs header inner))"

definition split_step :: "nat \<Rightarrow> rune list \<Rightarrow> rune list \<times> rune list" where
  "split_step m rs =
     (let limit = effective_limit m;
          msg_end = (case natural_end rs limit of Some i \<Rightarrow> i | None \<Rightarrow> limit)
      in case find_last_unclosed_code_block rs msg_end of
           None \<Rightarrow> plain_cut rs msg_end
         | Some u \<Rightarrow>
             (case find_next_closing_code_block rs msg_end of
                Some c \<Rightarrow> if c \<le> m then plain_cut rs c else split_block m rs msg_end u
              | None \<Rightarrow> split_block m rs msg_end u))"

section \<open>The loop\<close>

partial_function (option) split_loop :: "nat \<Rightarrow> rune list \<Rightarrow> rune list list option" where
  "split_loop m rs =
     (if rs = [] then Some []
      else if length rs \<le> m then Some [rs]
      else Option.bind (split_loop m (snd (split_step m rs))) (\<lambda>ms. Some (fst (split_step m rs) # ms)))"

declare split_loop.simps [code]

definition split_message :: "string \<Rightarrow> int \<Rightarrow> string list option" where
  "split_message content max_len =
     (if max_len \<le> 0 then Some (if content = [] then [] else [content])
      else map_option (map string_of_runes) (split_loop (nat max_len) (runes content)))"

section \<open>Where the searches end\<close>

lemma find_last_less: "find_last P rs lo n = Some i \<Longrightarrow> i < n"
  by (induction n) (auto split: if_splits)

lemma positive_less: "positive x = Some i \<Longrightarrow> x = Some i \<and> 0 < i"
  by (cases x rule: positive.cases) auto

lemma natural_end_less: "natural_end rs stop = Some i \<Longrightarrow> 0 < i \<and> i < stop"
  using positive_less find_last_less
  by (auto simp: natural_end_def find_last_newline_def find_last_space_def split: option.splits) blast+

lemma unclosed_less:
  "unclosed_from i open' rs = Some u \<Longrightarrow> (\<forall>v. open' = Some v \<longrightarrow> v + 3 \<le> i) \<Longrightarrow> u + 3 \<le> i + length rs"
proof (induction i open' rs rule: unclosed_from.induct)
  case (1 i open' a b c rs)
  show ?case
  proof (cases "a = backquote \<and> b = backquote \<and> c = backquote")
    case True
    then have "unclosed_from (i + 3) (if open' = None then Some i else None) rs = Some u" using 1(3) by simp
    then show ?thesis using 1(1) [OF True] by (cases open') auto
  next
    case False
    then have "unclosed_from (i + 1) open' (b # c # rs) = Some u" using 1(3) by (auto split: if_split_asm)
    moreover have "\<forall>v. open' = Some v \<longrightarrow> v + 3 \<le> i + 1" using 1(4) by auto
    ultimately show ?thesis using 1(2) [OF False] by simp
  qed
qed auto

lemma find_unclosed_less: "find_last_unclosed_code_block rs stop = Some u \<Longrightarrow> u + 3 \<le> stop \<and> u + 3 \<le> length rs"
  using unclosed_less [of 0 None "take stop rs" u] by (auto simp: find_last_unclosed_code_block_def)

lemma effective_limit_bounds: "0 < m \<Longrightarrow> 0 < effective_limit m \<and> effective_limit m \<le> m"
  by (auto simp: effective_limit_def Let_def)

lemma effective_limit_half: "m div 2 \<le> effective_limit m"
  by (simp add: effective_limit_def Let_def)

lemma effective_limit_three: "3 \<le> effective_limit m \<Longrightarrow> 5 \<le> m"
  by (auto simp: effective_limit_def Let_def split: if_splits)

lemma cut_lengths:
  "length (fst (plain_cut rs i)) \<le> i" "length (fst (fenced_cut rs h i)) \<le> i + 4"
proof -
  show "length (fst (plain_cut rs i)) \<le> i" by (simp add: plain_cut_def)
  have "length (trim_right_blanks (take i rs)) \<le> i"
    using length_dropWhile_le [of is_blank "rev (take i rs)"] by (simp add: trim_right_blanks_def)
  then show "length (fst (fenced_cut rs h i)) \<le> i + 4" by (simp add: fenced_cut_def fence_def)
qed

text \<open>The three ways a chunk is cut.\<close>

lemma step_cases:
  assumes "0 < m" and "m < length rs"
  obtains (plain) i where "split_step m rs = plain_cut rs i" "0 < i" "i \<le> m"
  | (fenced) u header hend i where "split_step m rs = fenced_cut rs header i" "fence_header rs u = (header, hend)"
      "find_last_unclosed_code_block rs (case natural_end rs (effective_limit m) of Some i \<Rightarrow> i | None \<Rightarrow> effective_limit m) = Some u"
      "5 \<le> m" "i \<le> m - 5" "m - 205 \<le> i \<or> i = m - 5"
proof -
  let ?l = "effective_limit m"
  define e where "e = (case natural_end rs ?l of Some i \<Rightarrow> i | None \<Rightarrow> ?l)"
  have step: "split_step m rs =
      (case find_last_unclosed_code_block rs e of
         None \<Rightarrow> plain_cut rs e
       | Some u \<Rightarrow>
           (case find_next_closing_code_block rs e of
              Some c \<Rightarrow> if c \<le> m then plain_cut rs c else split_block m rs e u
            | None \<Rightarrow> split_block m rs e u))"
    unfolding split_step_def e_def Let_def by (rule refl)
  have l: "0 < ?l" "?l \<le> m" using effective_limit_bounds [OF assms(1)] by auto
  then have e: "0 < e" "e \<le> ?l" by (auto simp: e_def dest: natural_end_less split: option.split)
  show ?thesis
  proof (cases "find_last_unclosed_code_block rs e")
    case None
    then have "split_step m rs = plain_cut rs e" by (simp add: step)
    then show ?thesis using plain e l by fastforce
  next
    case (Some u)
    have u: "u + 3 \<le> e" using find_unclosed_less [OF Some] by simp
    then have five: "5 \<le> m" using effective_limit_three [of m] e by linarith
    obtain header hend where h: "fence_header rs u = (header, hend)" by fastforce
    let ?inner = "min (m - 5) (length rs)"
    have inner: "?inner = m - 5" using assms(2) by simp
    consider (c) c where "split_step m rs = plain_cut rs c" "c \<le> m" "find_next_closing_code_block rs e = Some c"
      | (b) "split_step m rs = split_block m rs e u"
    proof (cases "find_next_closing_code_block rs e")
      case None
      then show ?thesis using that(2) Some step by simp
    next
      case (Some c)
      then show ?thesis
        using that \<open>find_last_unclosed_code_block rs e = Some u\<close> step by (cases "c \<le> m") simp_all
    qed
    then show ?thesis
    proof cases
      case c
      have "closing_from i xs = Some c \<Longrightarrow> i + 3 \<le> c" for i xs
        by (induction i xs rule: closing_from.induct) (auto split: if_splits)
      then have "0 < c" using c(3) by (fastforce simp: find_next_closing_code_block_def)
      then show ?thesis using plain c by blast
    next
      case b
      show ?thesis
      proof (cases "e > hend + 20")
        case True
        let ?i = "case find_last_newline rs (m - 5) 200 of Some b \<Rightarrow> if b > hend then b else m - 5 | None \<Rightarrow> m - 5"
        have lo: "find_last P rs lo n = Some i \<Longrightarrow> lo \<le> i" for P lo n i by (induction n) (auto split: if_splits)
        have "?i \<le> m - 5 \<and> (m - 205 \<le> ?i \<or> ?i = m - 5)"
          using find_last_less lo by (fastforce simp: find_last_newline_def split: option.split)
        moreover have "split_step m rs = fenced_cut rs header ?i"
          using True b h inner by (simp add: split_block_def Let_def)
        ultimately show ?thesis using fenced h Some [unfolded e_def] five by blast
      next
        case False
        then have blk: "split_step m rs = (case natural_end rs u of Some i \<Rightarrow> plain_cut rs i
            | None \<Rightarrow> if u > 20 then plain_cut rs u else fenced_cut rs header (m - 5))"
          using b h inner by (simp add: split_block_def Let_def)
        show ?thesis
        proof (cases "natural_end rs u")
          case None
          then show ?thesis using plain [of u] fenced [of header "m - 5" u hend] blk u e l h Some [unfolded e_def] five by (cases "u > 20") auto
        next
          case (Some i)
          then show ?thesis using plain [of i] blk natural_end_less [OF Some] u e l by simp
        qed
      qed
    qed
  qed
qed


section \<open>What every chunk satisfies\<close>

lemma set_dropWhile: "set (dropWhile P xs) \<subseteq> set xs"
  by (induction xs) auto

lemma plain_cut_set: "set (fst (plain_cut rs i)) \<subseteq> set rs" "set (snd (plain_cut rs i)) \<subseteq> set rs"
  using set_dropWhile [of is_blank "drop i rs"] by (auto simp: plain_cut_def dest: in_set_takeD in_set_dropD)

lemma trim_runes_set: "set (trim_runes rs) \<subseteq> set rs"
  using set_dropWhile [of is_space_rune "rev (dropWhile is_space_rune rs)"] set_dropWhile [of is_space_rune rs] by (auto simp: trim_runes_def)

lemma fence_header_set: "fence_header rs u = (header, hend) \<Longrightarrow> set header \<subseteq> set rs"
  using trim_runes_set by (fastforce simp: fence_header_def Let_def dest: in_set_takeD in_set_dropD split: option.splits)

lemma fenced_cut_set:
  "set header \<subseteq> set rs \<Longrightarrow> set (fst (fenced_cut rs header i)) \<subseteq> insert newline_rune (insert backquote (set rs))"
  "set header \<subseteq> set rs \<Longrightarrow> set (snd (fenced_cut rs header i)) \<subseteq> insert newline_rune (set rs)"
proof -
  show "set header \<subseteq> set rs \<Longrightarrow> set (fst (fenced_cut rs header i)) \<subseteq> insert newline_rune (insert backquote (set rs))"
    using set_dropWhile [of is_blank "rev (take i rs)"] by (auto simp: fenced_cut_def fence_def trim_right_blanks_def dest: in_set_takeD)
  show "set header \<subseteq> set rs \<Longrightarrow> set (snd (fenced_cut rs header i)) \<subseteq> insert newline_rune (set rs)"
    using trim_runes_set [of "header @ newline_rune # drop i rs"] by (auto simp: fenced_cut_def dest: in_set_dropD)
qed

lemma step_set:
  assumes "0 < m" and "m < length rs"
  shows "set (fst (split_step m rs)) \<subseteq> insert newline_rune (insert backquote (set rs))"
    and "set (snd (split_step m rs)) \<subseteq> insert newline_rune (set rs)"
proof -
  have "set (fst (split_step m rs)) \<subseteq> insert newline_rune (insert backquote (set rs)) \<and> set (snd (split_step m rs)) \<subseteq> insert newline_rune (set rs)"
    using assms
  proof (rule step_cases)
    fix i assume "split_step m rs = plain_cut rs i"
    then show ?thesis using plain_cut_set [where rs = rs and i = i] by auto
  next
    fix u header hend i assume "split_step m rs = fenced_cut rs header i" "fence_header rs u = (header, hend)"
    then show ?thesis using fenced_cut_set [of header rs i] fence_header_set by metis
  qed
  then show "set (fst (split_step m rs)) \<subseteq> insert newline_rune (insert backquote (set rs))"
    "set (snd (split_step m rs)) \<subseteq> insert newline_rune (set rs)" by simp_all
qed

lemma step_length: "0 < m \<Longrightarrow> m < length rs \<Longrightarrow> length (fst (split_step m rs)) \<le> m"
proof (erule (1) step_cases)
  fix i assume "split_step m rs = plain_cut rs i" "i \<le> m"
  then show ?thesis using cut_lengths(1) [of rs i] by simp
next
  fix header i assume "split_step m rs = fenced_cut rs header i" "5 \<le> m" "i \<le> m - 5"
  then show ?thesis using cut_lengths(2) [of rs header i] by simp
qed

lemma loop_chunks:
  assumes "split_loop m rs = Some ms"
  shows "0 < m \<longrightarrow> list_all valid_rune rs \<longrightarrow> list_all (\<lambda>c. length c \<le> m \<and> list_all valid_rune c) ms"
  using assms
proof (rule split_loop.raw_induct [rotated], goal_cases)
  case (1 loop m rs ms)
  show ?case
  proof (intro impI)
    assume m: "0 < m" and v: "list_all valid_rune rs"
    show "list_all (\<lambda>c. length c \<le> m \<and> list_all valid_rune c) ms"
    proof (cases "length rs \<le> m")
      case True
      then show ?thesis using 1(2) v by (auto split: if_splits)
    next
      case False
      then obtain ns where ns: "loop m (snd (split_step m rs)) = Some ns" "ms = fst (split_step m rs) # ns"
        using 1(2) m by (auto simp: bind_eq_Some_conv split: if_splits)
      have new: "valid_rune newline_rune" "valid_rune backquote" by (simp_all add: valid_rune_def)
      have "list_all valid_rune (fst (split_step m rs))" "list_all valid_rune (snd (split_step m rs))"
        using step_set [of m rs] m v new False by (auto simp: list_all_iff)
      then show ?thesis using 1(1) [OF ns(1)] m step_length [of m rs] False ns(2) by simp
    qed
  qed
qed

section \<open>Text without code blocks\<close>

lemma unclosed_free: "\<not> sublist fence rs \<Longrightarrow> unclosed_from i open' rs = open'"
proof (induction i open' rs rule: unclosed_from.induct)
  case (1 i open' a b c rs)
  then have "\<not> prefix fence (a # b # c # rs)" "\<not> sublist fence (b # c # rs)"
    by (auto simp: sublist_Cons_right)
  then show ?case using 1(2) by (auto simp: fence_def)
qed auto

lemma free_drop: "\<not> sublist fence rs \<Longrightarrow> \<not> sublist fence (take i rs) \<and> \<not> sublist fence (dropWhile P (drop i rs))"
  by (meson sublist_order.order.trans sublist_take sublist_drop sublist_dropWhile)

lemma loop_free:
  assumes "0 < m" and "\<not> sublist fence rs"
  shows "\<exists>ms. split_loop m rs = Some ms \<and> filter (\<lambda>r. \<not> is_blank r) (concat ms) = filter (\<lambda>r. \<not> is_blank r) rs"
  using assms(2)
proof (induction "length rs" arbitrary: rs rule: less_induct)
  case less
  show ?case
  proof (cases "length rs \<le> m")
    case True
    then show ?thesis by (subst split_loop.simps) simp
  next
    case False
    define e where "e = (case natural_end rs (effective_limit m) of Some i \<Rightarrow> i | None \<Rightarrow> effective_limit m)"
    have e: "0 < e" using effective_limit_bounds [OF assms(1)] by (auto simp: e_def dest: natural_end_less split: option.split)
    have step: "split_step m rs = plain_cut rs e"
      using unclosed_free free_drop [OF less.prems, of e]
      by (simp add: split_step_def e_def [symmetric] find_last_unclosed_code_block_def)
    let ?rest = "dropWhile is_blank (drop e rs)"
    have "length ?rest < length rs" using e False length_dropWhile_le [of is_blank "drop e rs"] by (cases rs) auto
    then obtain ms where ms: "split_loop m ?rest = Some ms"
      "filter (\<lambda>r. \<not> is_blank r) (concat ms) = filter (\<lambda>r. \<not> is_blank r) ?rest"
      using less.hyps free_drop [OF less.prems] by blast
    have drop_blank: "filter (\<lambda>r. \<not> is_blank r) (dropWhile is_blank xs) = filter (\<lambda>r. \<not> is_blank r) xs" for xs
      by (induction xs) auto
    have "filter (\<lambda>r. \<not> is_blank r) (take e rs @ concat ms) = filter (\<lambda>r. \<not> is_blank r) rs"
      using ms(2) drop_blank [of "drop e rs"] by (metis append_take_drop_id filter_append)
    then show ?thesis using False ms(1) assms(1) by (subst split_loop.simps) (auto simp: step plain_cut_def)
  qed
qed


section \<open>Code blocks with a short first line\<close>

text \<open>Every line that a fence begins, up to the next newline, is at most \<open>n\<close> long.\<close>

fun short_fences :: "nat \<Rightarrow> rune list \<Rightarrow> bool" where
  "short_fences n [] \<longleftrightarrow> True"
| "short_fences n (r # rs) \<longleftrightarrow>
     (prefix fence (r # rs) \<and> newline_rune \<in> set rs \<longrightarrow> length (takeWhile (\<lambda>r. r \<noteq> newline_rune) (r # rs)) \<le> n) \<and> short_fences n rs"

lemma short_suffix: "short_fences n (u @ v) \<Longrightarrow> short_fences n v"
  by (induction u) auto

lemma short_prefix: "short_fences n (v @ w) \<Longrightarrow> short_fences n v"
proof (induction v)
  case (Cons r v)
  have "length (takeWhile (\<lambda>r. r \<noteq> newline_rune) (r # v)) \<le> n" if "prefix fence (r # v)" "newline_rune \<in> set v"
  proof -
    have "prefix fence (r # v @ w)" using that(1) by (metis append_Cons prefix_prefix)
    moreover have "takeWhile (\<lambda>r. r \<noteq> newline_rune) (v @ w) = takeWhile (\<lambda>r. r \<noteq> newline_rune) v"
      using that(2) by (intro takeWhile_append1) auto
    ultimately show ?thesis using Cons.prems that(2) by auto
  qed
  then show ?case using Cons by auto
qed simp

lemma short_trim: "short_fences n rs \<Longrightarrow> short_fences n (trim_runes rs)"
proof -
  assume s: "short_fences n rs"
  have t: "short_fences n (dropWhile P rs)" for P using s short_suffix by (metis takeWhile_dropWhile_id)
  have "dropWhile P xs = rev (dropWhile Q (rev (dropWhile P xs))) @ rev (takeWhile Q (rev (dropWhile P xs)))" for P Q and xs :: "rune list"
    by (metis rev_append rev_rev_ident takeWhile_dropWhile_id)
  then show ?thesis using t short_prefix unfolding trim_runes_def by metis
qed

lemma short_header: "length header \<le> n \<Longrightarrow> short_fences n rs \<Longrightarrow> short_fences n (header @ newline_rune # rs)"
proof (induction header)
  case Nil
  then show ?case by (simp add: fence_def)
next
  case (Cons r header)
  have "length (takeWhile (\<lambda>r. r \<noteq> newline_rune) (header @ newline_rune # rs)) \<le> length header"
    by (induction header) auto
  then show ?case using Cons by simp
qed

lemma short_at:
  assumes "short_fences n rs" and "prefix fence (drop u rs)" and "newline_rune \<in> set (drop u rs)"
  shows "length (takeWhile (\<lambda>r. r \<noteq> newline_rune) (drop u rs)) \<le> n"
proof -
  have "short_fences n (drop u rs)" using assms(1) short_suffix by (metis append_take_drop_id)
  then show ?thesis using assms(2,3) by (cases "drop u rs") (auto simp: fence_def)
qed

lemma newline_index: "newline_index i rs = (if newline_rune \<in> set rs then Some (i + length (takeWhile (\<lambda>r. r \<noteq> newline_rune) rs)) else None)"
  by (induction rs arbitrary: i) auto

lemma unclosed_fence:
  "unclosed_from i open' rs = Some u \<Longrightarrow> open' = Some u \<or> i \<le> u \<and> prefix fence (drop (u - i) rs)"
proof (induction i open' rs rule: unclosed_from.induct)
  case (1 i open' a b c rs)
  show ?case
  proof (cases "a = backquote \<and> b = backquote \<and> c = backquote")
    case True
    then have "unclosed_from (i + 3) (if open' = None then Some i else None) rs = Some u" using 1(3) by simp
    then have "(if open' = None then Some i else None) = Some u \<or> i + 3 \<le> u \<and> prefix fence (drop (u - (i + 3)) rs)"
      using 1(1) [OF True] by blast
    then consider "open' = None" "u = i" | "i + 3 \<le> u" "prefix fence (drop (u - (i + 3)) rs)"
      by (cases "open' = None") auto
    then show ?thesis
    proof cases
      case 1
      then show ?thesis using True by (simp add: fence_def)
    next
      case 2
      then obtain k where k: "u = i + 3 + k" using le_Suc_ex by blast
      then have "drop (u - i) (a # b # c # rs) = drop (u - (i + 3)) rs" by (simp add: numeral_3_eq_3)
      then show ?thesis using 2 k by simp
    qed
  next
    case False
    then have "unclosed_from (i + 1) open' (b # c # rs) = Some u" using 1(3) by (auto split: if_split_asm)
    then have "open' = Some u \<or> i + 1 \<le> u \<and> prefix fence (drop (u - (i + 1)) (b # c # rs))" using 1(2) [OF False] by blast
    moreover have "drop (u - i) (a # b # c # rs) = drop (u - (i + 1)) (b # c # rs)" if "i + 1 \<le> u"
      using that by (metis Suc_diff_Suc Suc_eq_plus1 Suc_le_lessD drop_Suc_Cons)
    ultimately show ?thesis by auto
  qed
qed auto

lemma header_short:
  assumes "find_last_unclosed_code_block rs stop = Some u" and "fence_header rs u = (header, hend)" and "short_fences n rs" and "3 \<le> n"
  shows "length header \<le> n"
proof -
  have "prefix fence (drop u (take stop rs))"
    using unclosed_fence [of 0 None "take stop rs" u] assms(1) by (simp add: find_last_unclosed_code_block_def)
  then have f: "prefix fence (drop u rs)" by (metis drop_take prefix_order.trans take_is_prefix)
  have trim: "length (trim_runes xs) \<le> length xs" for xs
    unfolding trim_runes_def using length_dropWhile_le by (metis length_rev order_trans)
  show ?thesis
  proof (cases "find_newline_from rs u")
    case None
    then have "header = trim_runes (take 3 (drop u rs))" using assms(2) by (simp add: fence_header_def Let_def)
    then show ?thesis using trim [of "take 3 (drop u rs)"] assms(4) by simp
  next
    case (Some h)
    then have h: "newline_rune \<in> set (drop u rs)" "h = u + length (takeWhile (\<lambda>r. r \<noteq> newline_rune) (drop u rs))"
      by (auto simp: find_newline_from_def newline_index split: if_split_asm)
    have "header = trim_runes (take (h - u) (drop u rs))" using assms(2) Some by (auto simp: fence_header_def)
    then have "length header \<le> h - u" using trim [of "take (h - u) (drop u rs)"] by simp
    then show ?thesis using short_at [OF assms(3) f h(1)] h(2) by simp
  qed
qed

lemma loop_terminates:
  assumes "3 \<le> n" and "n + 206 < m" and "short_fences n rs"
  shows "\<exists>ms. split_loop m rs = Some ms"
  using assms(3)
proof (induction "length rs" arbitrary: rs rule: less_induct)
  case less
  show ?case
  proof (cases "length rs \<le> m")
    case True
    then show ?thesis by (subst split_loop.simps) simp
  next
    case False
    have "length (snd (split_step m rs)) < length rs \<and> short_fences n (snd (split_step m rs))"
    proof (rule step_cases [of m rs])
      fix i assume i: "split_step m rs = plain_cut rs i" "0 < i" "i \<le> m"
      have "length (dropWhile is_blank (drop i rs)) < length rs"
        using i False length_dropWhile_le [of is_blank "drop i rs"] by simp
      moreover have "short_fences n (dropWhile is_blank (drop i rs))"
        using less.prems short_suffix by (metis append_take_drop_id takeWhile_dropWhile_id)
      ultimately show ?thesis using i(1) by (simp add: plain_cut_def)
    next
      fix u header hend i
      assume i: "split_step m rs = fenced_cut rs header i" "fence_header rs u = (header, hend)"
        "find_last_unclosed_code_block rs (case natural_end rs (effective_limit m) of Some i \<Rightarrow> i | None \<Rightarrow> effective_limit m) = Some u"
        "i \<le> m - 5" "m - 205 \<le> i \<or> i = m - 5"
      have h: "length header \<le> n" by (rule header_short [OF i(3,2) less.prems assms(1)])
      have "short_fences n (drop i rs)" using less.prems short_suffix by (metis append_take_drop_id)
      then have "short_fences n (trim_runes (header @ newline_rune # drop i rs))" by (intro short_trim short_header h)
      moreover have "length (trim_runes (header @ newline_rune # drop i rs)) \<le> length (header @ newline_rune # drop i rs)"
        unfolding trim_runes_def using length_dropWhile_le by (metis length_rev order_trans)
      ultimately show ?thesis using h i(4,5) assms(2) False by (auto simp: i(1) fenced_cut_def)
    qed (use False assms(2) in auto)
    then obtain ms where "split_loop m (snd (split_step m rs)) = Some ms" using less.hyps by blast
    then show ?thesis using False by (subst split_loop.simps) auto
  qed
qed

section \<open>A code block with a long first line\<close>

definition endless :: "nat \<Rightarrow> rune list \<Rightarrow> bool" where
  "endless m rs \<longleftrightarrow> (\<exists>n w. 8 \<le> m \<and> m \<le> n \<and> rs = fence @ replicate n 120 @ newline_rune # w @ [120] \<and> set w \<subseteq> {120, newline_rune})"

lemma unclosed_start:
  "\<not> sublist fence (replicate k 120) \<Longrightarrow> unclosed_from 0 None (fence @ replicate k 120) = Some 0"
  using unclosed_free [of "replicate k 120" 3 "Some 0"] by (simp add: fence_def)

lemma no_fence_in: "backquote \<notin> set rs \<Longrightarrow> \<not> sublist fence rs"
  using set_mono_sublist [of fence rs] by (auto simp: fence_def)

lemma closing_none: "backquote \<notin> set rs \<Longrightarrow> closing_from i rs = None"
  by (induction i rs rule: closing_from.induct) auto

lemma find_last_none: "\<forall>i < k. \<not> P (rs ! i) \<Longrightarrow> find_last P rs lo k = None"
  by (induction k) auto

lemma endless_step:
  assumes "endless m rs"
  shows "m < length rs \<and> endless m (snd (split_step m rs))"
proof -
  obtain n w where m: "8 \<le> m" "m \<le> n" and rs: "rs = fence @ replicate n 120 @ newline_rune # w @ [120]" and w: "set w \<subseteq> {120, newline_rune}"
    using assms by (auto simp: endless_def)
  let ?l = "effective_limit m"
  have l: "3 \<le> ?l" "?l \<le> m" using m(1) effective_limit_bounds [of m] effective_limit_half [of m] by linarith+
  have len: "m < length rs" using m by (simp add: rs fence_def)
  have at: "rs ! i \<noteq> newline_rune" "rs ! i \<noteq> 32" "rs ! i \<noteq> 9" if "i < m" for i
    using that m by (auto simp: rs fence_def nth_append nth_Cons split: nat.split)
  have no_end: "natural_end rs k = None" if "k \<le> m" for k
    using that at by (simp add: natural_end_def find_last_newline_def find_last_space_def find_last_none)
  have head: "take ?l rs = fence @ replicate (?l - 3) 120" using l m by (simp add: rs fence_def take_Cons')
  have un: "find_last_unclosed_code_block rs ?l = Some 0"
    unfolding find_last_unclosed_code_block_def head by (rule unclosed_start) (rule no_fence_in, auto)
  have "backquote \<notin> set (drop ?l rs)" using l w by (auto simp: rs fence_def drop_Cons' dest: in_set_dropD)
  then have cl: "find_next_closing_code_block rs ?l = None" by (simp add: find_next_closing_code_block_def closing_none)
  have "takeWhile (\<lambda>r. r \<noteq> newline_rune) rs = fence @ replicate n 120" by (simp add: rs fence_def takeWhile_append)
  moreover have "newline_rune \<in> set rs" by (simp add: rs)
  ultimately have nl: "find_newline_from rs 0 = Some (n + 3)" by (simp add: find_newline_from_def newline_index fence_def)
  have "trim_runes (fence @ replicate n 120) = fence @ replicate n 120"
    using m by (cases n) (simp_all add: trim_runes_def fence_def is_space_rune_def replicate_append_same [symmetric])
  moreover have "take (n + 3) rs = fence @ replicate n 120" by (simp add: rs fence_def numeral_3_eq_3)
  ultimately have hd: "fence_header rs 0 = (fence @ replicate n 120, n + 3)" by (simp add: fence_header_def nl)
  have step: "split_step m rs = fenced_cut rs (fence @ replicate n 120) (m - 5)"
    using len l m by (simp add: split_step_def no_end un cl split_block_def hd)
  let ?w = "replicate (n + 3 - (m - 5)) 120 @ newline_rune # w"
  have "drop (m - 5) rs = ?w @ [120]" using m by (simp add: rs fence_def drop_Cons')
  then have "snd (split_step m rs) = fence @ replicate n 120 @ newline_rune # ?w @ [120]"
    unfolding step fenced_cut_def by (simp add: trim_runes_def fence_def is_space_rune_def)
  moreover have "set ?w \<subseteq> {120, newline_rune}" using w by auto
  ultimately have "endless m (snd (split_step m rs))" unfolding endless_def using m by blast
  then show ?thesis using len by simp
qed

lemma loop_endless:
  assumes "split_loop m rs = Some ms"
  shows "\<not> endless m rs"
  using assms
proof (rule split_loop.raw_induct [rotated], goal_cases)
  case (1 loop m rs ms)
  then show ?case using endless_step [of m rs] by (auto simp: bind_eq_Some_conv split: if_split_asm)
qed


section \<open>Properties\<close>

text \<open>
  No chunk is longer than the limit of the channel, counted in runes, with the fences that are
  added included.
\<close>

theorem split_within_limit:
  "case split_message content (int (Suc m)) of None \<Rightarrow> True | Some chunks \<Rightarrow> list_all (\<lambda>c. length (runes c) \<le> Suc m) chunks"
proof (cases "split_loop (Suc m) (runes content)")
  case (Some ms)
  have "list_all (\<lambda>c. length c \<le> Suc m \<and> list_all valid_rune c) ms"
    using loop_chunks [OF Some] runes_valid [of content] by simp
  then have "list_all (\<lambda>c. length (runes c) \<le> Suc m) (map string_of_runes ms)" by (induction ms) (simp_all add: runes_round_trip)
  moreover have "split_message content (int (Suc m)) = Some (map string_of_runes ms)" by (simp add: split_message_def Some del: of_nat_Suc)
  ultimately show ?thesis by (simp del: of_nat_Suc)
next
  case None
  then have "split_message content (int (Suc m)) = None" by (simp add: split_message_def del: of_nat_Suc)
  then show ?thesis by (simp del: of_nat_Suc)
qed

text \<open>
  Splitting returns for every limit when no line that begins a code block comes close to the
  limit: at most \<open>n\<close> runes from the fence to the end of its line, and a limit above \<open>n + 206\<close>.
\<close>

theorem split_terminates:
  assumes "short_fences n (runes content)" and "3 \<le> n" and "int n + 206 < max_len"
  shows "\<exists>chunks. split_message content max_len = Some chunks"
proof -
  have "n + 206 < nat max_len" using assms(3) by linarith
  then show ?thesis using loop_terminates [OF assms(2) _ assms(1)] assms(3) by (auto simp: split_message_def)
qed

theorem split_terminates_witness:
  "\<exists>chunks. split_message (''see '' @ ''```go'' @ [newline] @ replicate 500 CHR ''x'') 400 = Some chunks"
proof (rule split_terminates [of 5])
  have "list_all (\<lambda>c. byte_of c < 128) (''see '' @ ''```go'' @ [newline] @ replicate 500 CHR ''x'')" by (simp add: list_all_iff)
  then have r: "runes (''see '' @ ''```go'' @ [newline] @ replicate 500 CHR ''x'') = map byte_of (''see '' @ ''```go'' @ [newline]) @ replicate 500 120"
    by (subst runes_ascii) simp_all
  have "short_fences 5 (replicate k 120)" for k by (induction k) (simp_all add: fence_def)
  then show "short_fences 5 (runes (''see '' @ ''```go'' @ [newline] @ replicate 500 CHR ''x''))"
    unfolding r by (simp add: fence_def)
qed simp_all

text \<open>
  A text without code blocks is split completely: the call returns, and the chunks one after the
  other are the text, up to the blanks at the cuts.
\<close>

theorem split_keeps_text:
  assumes "\<not> sublist fence (runes content)"
  shows "\<exists>chunks. split_message content (int (Suc m)) = Some chunks \<and>
    filter (\<lambda>r. \<not> is_blank r) (concat (map runes chunks)) = filter (\<lambda>r. \<not> is_blank r) (runes content)"
proof -
  obtain ms where ms: "split_loop (Suc m) (runes content) = Some ms"
    "filter (\<lambda>r. \<not> is_blank r) (concat ms) = filter (\<lambda>r. \<not> is_blank r) (runes content)"
    using loop_free [OF zero_less_Suc assms] by blast
  have "list_all (list_all valid_rune) ms" using loop_chunks [OF ms(1)] runes_valid [of content] by (simp add: list_all_iff)
  then have "map runes (map string_of_runes ms) = ms" by (induction ms) (simp_all add: runes_round_trip)
  then show ?thesis using ms by (simp add: split_message_def del: of_nat_Suc)
qed

theorem split_keeps_text_witness:
  "\<exists>chunks. split_message ''one two three'' (int (Suc 7)) = Some chunks \<and>
    filter (\<lambda>r. \<not> is_blank r) (concat (map runes chunks)) = filter (\<lambda>r. \<not> is_blank r) (runes ''one two three'')"
  by (rule split_keeps_text) code_simp

text \<open>
  Splitting never returns, and the list of chunks grows without end, for a code block whose first
  line is as long as the limit and that does not end with that line: the header is put in front of the
  rest again and again.
\<close>

theorem split_never_returns:
  assumes "8 \<le> m" and "m \<le> n"
  shows "split_message (''```'' @ replicate n CHR ''x'' @ [newline] @ ''x'') (int m) = None"
proof -
  have "list_all (\<lambda>c. byte_of c < 128) (''```'' @ replicate n CHR ''x'' @ [newline] @ ''x'')" by (simp add: list_all_iff)
  then have "runes (''```'' @ replicate n CHR ''x'' @ [newline] @ ''x'') = fence @ replicate n 120 @ newline_rune # [] @ [120]"
    by (simp add: runes_ascii fence_def)
  then have "endless m (runes (''```'' @ replicate n CHR ''x'' @ [newline] @ ''x''))" using assms unfolding endless_def by fastforce
  then have "split_loop m (runes (''```'' @ replicate n CHR ''x'' @ [newline] @ ''x'')) = None" using loop_endless by (metis not_None_eq)
  then show ?thesis using assms(1) by (simp add: split_message_def)
qed

theorem split_never_returns_witness: "split_message (''```'' @ replicate 500 CHR ''x'' @ [newline] @ ''x'') (int 400) = None"
  by (rule split_never_returns) simp_all

end
