(* ===== verification/ModelRouter.thy ===== *)
theory ModelRouter
  imports GoRunes GoFloat BoundedLog AgentTurn
begin

text \<open>
  Choosing the model of a turn by the complexity of the message (\<open>pkg/routing/features.go\<close>,
  \<open>classifier.go\<close>, \<open>classifier_v2.go\<close>, \<open>tier.go\<close>, \<open>router.go\<close>), what is remembered of the decisions
  (\<open>recorder.go\<close>, \<open>metrics.go\<close>), and the link to the turn of an agent (\<open>agent/loop.go\<close>,
  \<open>agent/instance.go\<close>). Scores are floats with their rounding; the exponential of the confidence is an
  argument, called \<open>ex\<close>.
\<close>

section \<open>Features of a message\<close>

definition lookback_window :: nat where "lookback_window = 6"

record message_features =
  fe_tokens :: nat
  fe_code_blocks :: nat
  fe_tool_calls :: nat
  fe_depth :: nat
  fe_attachments :: bool

definition is_cjk :: "rune \<Rightarrow> bool" where
  "is_cjk r \<longleftrightarrow> 11904 \<le> r \<and> r \<le> 40959 \<or> 63744 \<le> r \<and> r \<le> 64255 \<or> 44032 \<le> r \<and> r \<le> 55215"

definition message_tokens :: "string \<Rightarrow> nat" where
  "message_tokens msg =
     (let rs = runes msg; cjk = length (filter is_cjk rs) in if rs = [] then 0 else cjk + (length rs - cjk) div 4)"

fun count_fences :: "string \<Rightarrow> nat" where
  "count_fences (a # b # c # s) =
     (if a = CHR 0x60 \<and> b = CHR 0x60 \<and> c = CHR 0x60 then Suc (count_fences s) else count_fences (b # c # s))"
| "count_fences _ = 0"

definition count_code_blocks :: "string \<Rightarrow> nat" where
  "count_code_blocks msg = count_fences msg div 2"

definition count_recent_tool_calls :: "chat_message list \<Rightarrow> nat" where
  "count_recent_tool_calls history = sum_list (map (\<lambda>m. length (cm_tool_calls m)) (keep_last lookback_window history))"

definition media_marks :: "string list" where
  "media_marks =
     [''data:image/'', ''data:audio/'', ''data:video/'',
      ''.jpg'', ''.jpeg'', ''.png'', ''.gif'', ''.webp'', ''.bmp'', ''.mp3'', ''.wav'', ''.ogg'', ''.m4a'', ''.flac'',
      ''.mp4'', ''.avi'', ''.mov'', ''.webm'']"

definition has_attachments :: "string \<Rightarrow> bool" where
  "has_attachments msg = list_ex (\<lambda>k. str_contains (to_lower msg) k) media_marks"

definition extract_features :: "string \<Rightarrow> chat_message list \<Rightarrow> message_features" where
  "extract_features msg history =
     \<lparr>fe_tokens = message_tokens msg, fe_code_blocks = count_code_blocks msg, fe_tool_calls = count_recent_tool_calls history,
      fe_depth = length history, fe_attachments = has_attachments msg\<rparr>"

section \<open>Tiers\<close>

datatype query_tier = TierSimple | TierModerate | TierComplex | TierReasoning

fun tier_name :: "query_tier \<Rightarrow> string" where
  "tier_name TierSimple = ''simple''"
| "tier_name TierModerate = ''moderate''"
| "tier_name TierComplex = ''complex''"
| "tier_name TierReasoning = ''reasoning''"

definition all_tiers :: "query_tier list" where
  "all_tiers = [TierSimple, TierModerate, TierComplex, TierReasoning]"

definition try_parse_tier :: "string \<Rightarrow> query_tier option" where
  "try_parse_tier s = List.find (\<lambda>t. tier_name t = trim_space s) all_tiers"

definition parse_tier :: "string \<Rightarrow> query_tier" where
  "parse_tier s = (case try_parse_tier s of Some t \<Rightarrow> t | None \<Rightarrow> TierModerate)"

text \<open>The order of the tiers is the order of \<open>AllTiers\<close>.\<close>

fun tier_rank :: "query_tier \<Rightarrow> nat" where
  "tier_rank TierSimple = 0"
| "tier_rank TierModerate = 1"
| "tier_rank TierComplex = 2"
| "tier_rank TierReasoning = 3"

instantiation query_tier :: linorder
begin

definition less_eq_query_tier :: "query_tier \<Rightarrow> query_tier \<Rightarrow> bool" where
  "s \<le> t \<longleftrightarrow> tier_rank s \<le> tier_rank t"

definition less_query_tier :: "query_tier \<Rightarrow> query_tier \<Rightarrow> bool" where
  "s < t \<longleftrightarrow> tier_rank s < tier_rank t"

instance
proof
  fix x y z :: query_tier
  show "x = y" if "x \<le> y" "y \<le> x" using that by (cases x; cases y) (simp_all add: less_eq_query_tier_def)
qed (auto simp: less_eq_query_tier_def less_query_tier_def)

end

type_synonym tier_boundary = "float64 \<times> float64"
type_synonym tier_boundaries = "(query_tier, tier_boundary) gomap"

text \<open>Four adjacent intervals, given by the three cut points between them.\<close>

definition boundaries_at :: "float64 \<Rightarrow> float64 \<Rightarrow> float64 \<Rightarrow> tier_boundaries" where
  "boundaries_at sm mc cr =
     [(TierSimple, (- 1, sm)), (TierModerate, (sm, mc)), (TierComplex, (mc, cr)), (TierReasoning, (cr, 1))]"

definition default_tier_boundaries :: tier_boundaries where
  "default_tier_boundaries = boundaries_at (fl (- 1 / 20)) (fl (3 / 20)) (fl (7 / 20))"

definition in_tier :: "tier_boundaries \<Rightarrow> float64 \<Rightarrow> query_tier \<Rightarrow> bool" where
  "in_tier bs score t = (case mget bs t of None \<Rightarrow> False | Some (lo, hi) \<Rightarrow> lo \<le> score \<and> score < hi)"

definition score_to_tier_with :: "float64 \<Rightarrow> tier_boundaries \<Rightarrow> query_tier" where
  "score_to_tier_with score bs =
     (case List.find (in_tier bs score) all_tiers of
        Some t \<Rightarrow> t
      | None \<Rightarrow> (case mget bs TierReasoning of
                    Some (lo, hi) \<Rightarrow> if lo \<le> score then TierReasoning else TierSimple
                  | None \<Rightarrow> TierSimple))"

definition validate_tier_cutpoints :: "float64 \<Rightarrow> float64 \<Rightarrow> float64 \<Rightarrow> bool" where
  "validate_tier_cutpoints sm mc cr \<longleftrightarrow>
     \<not> (sm < - 1 \<or> cr > 1) \<and> \<not> (mc < - 1 \<or> mc > 1) \<and> sm < mc \<and> mc < cr"

text \<open>The cut points of the configuration; a missing one has its standard value, invalid ones are ignored.\<close>

definition convert_tier_boundaries :: "(float64 option \<times> float64 option \<times> float64 option) option \<Rightarrow> tier_boundaries option" where
  "convert_tier_boundaries cfg =
     (case cfg of
        None \<Rightarrow> None
      | Some (a, b, c) \<Rightarrow>
          if a = None \<and> b = None \<and> c = None then None
          else (let sm = (case a of Some x \<Rightarrow> x | None \<Rightarrow> fl (- 1 / 20));
                    mc = (case b of Some x \<Rightarrow> x | None \<Rightarrow> fl (3 / 20));
                    cr = (case c of Some x \<Rightarrow> x | None \<Rightarrow> fl (7 / 20))
                in if validate_tier_cutpoints sm mc cr then Some (boundaries_at sm mc cr) else None))"

section \<open>The two classifiers\<close>

definition rule_score :: "message_features \<Rightarrow> float64" where
  "rule_score f =
     (if fe_attachments f then 1
      else
        (let s1 = (if fe_tokens f > 200 then fadd 0 (fl (7 / 20)) else if fe_tokens f > 50 then fadd 0 (fl (3 / 20)) else 0);
             s2 = (if fe_code_blocks f > 0 then fadd s1 (fl (2 / 5)) else s1);
             s3 = (if fe_tool_calls f > 3 then fadd s2 (fl (1 / 4)) else if fe_tool_calls f > 0 then fadd s2 (fl (1 / 10)) else s2);
             s4 = (if fe_depth f > 10 then fadd s3 (fl (1 / 10)) else s3)
         in if s4 > 1 then 1 else s4))"

datatype raw_value = RawBool bool | RawInt nat

record signal =
  sg_name :: string
  sg_contribution :: float64
  sg_raw :: raw_value

record classification_result =
  cr_tier :: query_tier
  cr_score :: float64
  cr_confidence :: float64
  cr_signals :: "signal list"

definition signal_of :: "string \<Rightarrow> rat \<Rightarrow> nat \<Rightarrow> signal" where
  "signal_of name w raw = \<lparr>sg_name = name, sg_contribution = fl w, sg_raw = RawInt raw\<rparr>"

definition token_signal :: "message_features \<Rightarrow> signal" where
  "token_signal f =
     (let n = fe_tokens f in
      if n < 20 then signal_of ''short_message'' (- 1 / 10) n
      else if n > 200 then signal_of ''token_long'' (7 / 20) n
      else if n > 50 then signal_of ''token_medium'' (3 / 20) n
      else signal_of ''token_short_mid'' (3 / 50) n)"

definition message_signals :: "message_features \<Rightarrow> signal list" where
  "message_signals f =
     token_signal f #
     (if fe_code_blocks f > 0 then [signal_of ''code_block'' (2 / 5) (fe_code_blocks f)] else []) @
     (if fe_tool_calls f > 3 then [signal_of ''tool_call_high'' (1 / 4) (fe_tool_calls f)]
      else if fe_tool_calls f > 0 then [signal_of ''tool_call_low'' (1 / 10) (fe_tool_calls f)] else []) @
     (if fe_depth f > 10 then [signal_of ''conversation_depth'' (1 / 10) (fe_depth f)] else [])"

definition cap_score :: "float64 \<Rightarrow> float64" where
  "cap_score s = (let s1 = (if s > 1 then 1 else s) in if s1 < - 1 then - 1 else s1)"

definition signal_score :: "signal list \<Rightarrow> float64" where
  "signal_score gs = cap_score (foldl (\<lambda>s g. fadd s (sg_contribution g)) 0 gs)"

text \<open>\<open>math.Round\<close>: a half is rounded away from zero.\<close>

definition go_round :: "float64 \<Rightarrow> float64" where
  "go_round x = (if x < 0 then - of_int \<lfloor>- x + 1 / 2\<rfloor> else of_int \<lfloor>x + 1 / 2\<rfloor>)"

definition compute_confidence :: "(float64 \<Rightarrow> float64) \<Rightarrow> float64 \<Rightarrow> tier_boundary \<Rightarrow> float64" where
  "compute_confidence ex score b =
     (let midpoint = fdiv (fadd (fst b) (snd b)) 2; width = fsub (snd b) (fst b) in
      if width \<le> 0 then fl (1 / 2)
      else
        (let distance = fdiv (fsub score midpoint) (fdiv width 2);
             confidence = fdiv 1 (fadd 1 (ex (fmul (- 3) \<bar>distance\<bar>)))
         in fdiv (go_round (fmul (fadd (fl (1 / 2)) (fmul (fl (1 / 2)) confidence)) 1000)) 1000))"

text \<open>\<open>bs\<close>: the boundaries of the classifier, the standard ones when none are configured.\<close>

definition boundary_of :: "tier_boundaries \<Rightarrow> query_tier \<Rightarrow> tier_boundary" where
  "boundary_of bs t =
     (case mget bs t of Some b \<Rightarrow> b | None \<Rightarrow> (case mget default_tier_boundaries t of Some b \<Rightarrow> b | None \<Rightarrow> (0, 0)))"

definition classify :: "(float64 \<Rightarrow> float64) \<Rightarrow> tier_boundaries option \<Rightarrow> message_features \<Rightarrow> classification_result" where
  "classify ex cfg f =
     (let bs = (case cfg of Some b \<Rightarrow> b | None \<Rightarrow> default_tier_boundaries) in
      if fe_attachments f then
        \<lparr>cr_tier = TierReasoning, cr_score = 1, cr_confidence = 1,
         cr_signals = [\<lparr>sg_name = ''attachment_gate'', sg_contribution = 1, sg_raw = RawBool True\<rparr>]\<rparr>
      else
        (let score = signal_score (message_signals f); tier = score_to_tier_with score bs in
         \<lparr>cr_tier = tier, cr_score = score, cr_confidence = compute_confidence ex score (boundary_of bs tier),
          cr_signals = message_signals f\<rparr>))"


section \<open>What is remembered of the decisions\<close>

record score_bucket =
  sb_min :: float64
  sb_max :: float64
  sb_count :: int

record metrics_collector =
  mc_total :: int
  mc_tiers :: "(query_tier, int) gomap"
  mc_score_sum :: float64
  mc_confidence_sum :: float64
  mc_signals :: "(string, int) gomap"
  mc_scores :: "score_bucket list"
  mc_confidences :: "score_bucket list"

definition empty_buckets :: "(rat \<times> rat) list \<Rightarrow> score_bucket list" where
  "empty_buckets = map (\<lambda>(lo, hi). \<lparr>sb_min = fl lo, sb_max = fl hi, sb_count = 0\<rparr>)"

definition new_metrics :: metrics_collector where
  "new_metrics =
     \<lparr>mc_total = 0, mc_tiers = map (\<lambda>t. (t, 0)) all_tiers, mc_score_sum = 0, mc_confidence_sum = 0, mc_signals = [],
      mc_scores = empty_buckets [(- 1, - 1 / 2), (- 1 / 2, - 1 / 20), (- 1 / 20, 3 / 20), (3 / 20, 7 / 20), (7 / 20, 1 / 2), (1 / 2, 3 / 4), (3 / 4, 1)],
      mc_confidences = empty_buckets [(0, 1 / 2), (1 / 2, 3 / 5), (3 / 5, 7 / 10), (7 / 10, 4 / 5), (4 / 5, 9 / 10), (9 / 10, 1)]\<rparr>"

definition count_up :: "'k \<Rightarrow> ('k, int) gomap \<Rightarrow> ('k, int) gomap" where
  "count_up k m = mput k (wrap64 ((case mget m k of Some n \<Rightarrow> n | None \<Rightarrow> 0) + 1)) m"

text \<open>The last bucket holds its upper end too.\<close>

fun count_in_bucket :: "float64 \<Rightarrow> score_bucket list \<Rightarrow> score_bucket list" where
  "count_in_bucket x [] = []"
| "count_in_bucket x (b # bs) =
     (if sb_min b \<le> x \<and> x < sb_max b then b\<lparr>sb_count := wrap64 (sb_count b + 1)\<rparr> # bs
      else if bs = [] \<and> sb_min b \<le> x \<and> x \<le> sb_max b then [b\<lparr>sb_count := wrap64 (sb_count b + 1)\<rparr>]
      else b # count_in_bucket x bs)"

definition record_classification :: "classification_result \<Rightarrow> metrics_collector \<Rightarrow> metrics_collector" where
  "record_classification r m =
     m\<lparr>mc_total := wrap64 (mc_total m + 1), mc_tiers := count_up (cr_tier r) (mc_tiers m),
       mc_score_sum := fadd (mc_score_sum m) (cr_score r), mc_confidence_sum := fadd (mc_confidence_sum m) (cr_confidence r),
       mc_scores := count_in_bucket (cr_score r) (mc_scores m), mc_confidences := count_in_bucket (cr_confidence r) (mc_confidences m),
       mc_signals := fold (\<lambda>g. count_up (sg_name g)) (cr_signals r) (mc_signals m)\<rparr>"

definition reset_metrics :: "metrics_collector \<Rightarrow> metrics_collector" where
  "reset_metrics m =
     m\<lparr>mc_total := 0, mc_score_sum := 0, mc_confidence_sum := 0, mc_tiers := map (\<lambda>(t, n). (t, 0)) (mc_tiers m),
       mc_signals := map (\<lambda>(g, n). (g, 0)) (mc_signals m), mc_scores := map (\<lambda>b. b\<lparr>sb_count := 0\<rparr>) (mc_scores m),
       mc_confidences := map (\<lambda>b. b\<lparr>sb_count := 0\<rparr>) (mc_confidences m)\<rparr>"

record decision_record =
  de_id :: int
  de_time :: int
  de_tier :: query_tier
  de_score :: float64
  de_confidence :: float64
  de_signals :: "(string \<times> float64) list"
  de_model :: string
  de_agent :: string

text \<open>A slot that was never written holds \<open>None\<close>.\<close>

record decision_recorder =
  dr_records :: "decision_record option list"
  dr_head :: nat
  dr_count :: nat
  dr_next :: int
  dr_enabled :: bool
  dr_max_depth :: nat

definition new_recorder :: "bool \<Rightarrow> int \<Rightarrow> int \<Rightarrow> decision_recorder" where
  "new_recorder enabled n depth =
     \<lparr>dr_records = replicate (if n \<le> 0 then 1000 else nat n) None, dr_head = 0, dr_count = 0, dr_next = 0, dr_enabled = enabled,
      dr_max_depth = (if depth \<le> 0 then 10 else nat depth)\<rparr>"

definition sanitize_signals :: "nat \<Rightarrow> signal list \<Rightarrow> (string \<times> float64) list" where
  "sanitize_signals depth gs = map (\<lambda>g. (sg_name g, sg_contribution g)) (take depth gs)"

definition decision_of :: "int \<Rightarrow> int \<Rightarrow> nat \<Rightarrow> classification_result \<Rightarrow> string \<Rightarrow> string \<Rightarrow> decision_record" where
  "decision_of i now depth r model agent =
     \<lparr>de_id = i, de_time = now, de_tier = cr_tier r, de_score = cr_score r, de_confidence = cr_confidence r,
      de_signals = sanitize_signals depth (cr_signals r), de_model = model, de_agent = agent\<rparr>"

definition record_decision :: "int \<Rightarrow> classification_result \<Rightarrow> string \<Rightarrow> string \<Rightarrow> decision_recorder \<Rightarrow> decision_recorder" where
  "record_decision now r model agent d =
     (if \<not> dr_enabled d then d
      else
        (let size = length (dr_records d) in
         d\<lparr>dr_records := (dr_records d)[dr_head d := Some (decision_of (dr_next d) now (dr_max_depth d) r model agent)],
           dr_next := wrap64 (dr_next d + 1), dr_head := (dr_head d + 1) mod size,
           dr_count := (if dr_count d < size then dr_count d + 1 else dr_count d)\<rparr>))"

definition get_recent :: "int \<Rightarrow> decision_recorder \<Rightarrow> decision_record option list" where
  "get_recent n d =
     (if n \<le> 0 \<or> dr_count d = 0 then []
      else
        (let size = length (dr_records d); k = min (nat n) (dr_count d);
             start = (if dr_head d < k then dr_head d + size - k else dr_head d - k)
         in rev (map (\<lambda>i. dr_records d ! ((start + i) mod size)) [0..<k])))"

text \<open>From the newest to the oldest, until \<open>limit\<close> are found.\<close>

definition newest :: "decision_recorder \<Rightarrow> nat \<Rightarrow> decision_record option" where
  "newest d i = dr_records d ! (if dr_head d < Suc i then dr_head d + length (dr_records d) - Suc i else dr_head d - Suc i)"

definition get_by_tier :: "query_tier \<Rightarrow> int \<Rightarrow> decision_recorder \<Rightarrow> decision_record option list" where
  "get_by_tier t limit d =
     (if dr_count d = 0 \<or> limit \<le> 0 then []
      else take (nat limit) (filter (\<lambda>x. map_option de_tier x = Some t) (map (newest d) [0..<dr_count d])))"

definition clear_recorder :: "decision_recorder \<Rightarrow> decision_recorder" where
  "clear_recorder d = d\<lparr>dr_records := replicate (length (dr_records d)) None, dr_head := 0, dr_count := 0\<rparr>"

definition set_enabled :: "bool \<Rightarrow> decision_recorder \<Rightarrow> decision_recorder" where
  "set_enabled b d = d\<lparr>dr_enabled := b\<rparr>"

section \<open>Routers\<close>

record light_router =
  lt_light :: string
  lt_threshold :: float64

definition new_router :: "string \<Rightarrow> float64 \<Rightarrow> light_router" where
  "new_router light threshold = \<lparr>lt_light = light, lt_threshold = (if threshold \<le> 0 then fl (7 / 20) else threshold)\<rparr>"

definition select_model :: "light_router \<Rightarrow> string \<Rightarrow> chat_message list \<Rightarrow> string \<Rightarrow> string \<times> bool \<times> float64" where
  "select_model r msg history primary =
     (let score = rule_score (extract_features msg history) in
      if score < lt_threshold r then (lt_light r, True, score) else (primary, False, score))"

record tier_router =
  tr_mapping :: "(query_tier, string) gomap"
  tr_boundaries :: "tier_boundaries option"
  tr_light :: string
  tr_threshold :: float64
  tr_metrics :: "metrics_collector option"
  tr_recorder :: "decision_recorder option"

definition legacy_router :: "tier_router \<Rightarrow> light_router option" where
  "legacy_router r = (if tr_light r \<noteq> [] then Some (new_router (tr_light r) (tr_threshold r)) else None)"

definition is_v2_enabled :: "tier_router \<Rightarrow> bool" where
  "is_v2_enabled r \<longleftrightarrow> tr_mapping r \<noteq> []"

definition mapped_model :: "tier_router \<Rightarrow> query_tier \<Rightarrow> string option" where
  "mapped_model r t = (case mget (tr_mapping r) t of Some m \<Rightarrow> if m \<noteq> [] then Some m else None | None \<Rightarrow> None)"

definition select_model_v2 ::
    "(float64 \<Rightarrow> float64) \<Rightarrow> tier_router \<Rightarrow> string \<Rightarrow> chat_message list \<Rightarrow> string \<Rightarrow>
     (string \<times> query_tier \<times> classification_result) \<times> tier_router" where
  "select_model_v2 ex r msg history primary =
     (let result = classify ex (tr_boundaries r) (extract_features msg history);
          (model, result') =
            (if is_v2_enabled r
             then ((case mapped_model r (cr_tier result) of Some m \<Rightarrow> m | None \<Rightarrow> primary), result)
             else (case legacy_router r of
                     Some l \<Rightarrow>
                       (case select_model l msg history primary of
                          (model, light, score) \<Rightarrow>
                            (model, result\<lparr>cr_score := score, cr_tier := (if light then TierSimple else TierComplex)\<rparr>))
                   | None \<Rightarrow> (primary, result)))
      in ((model, cr_tier result', result'), r\<lparr>tr_metrics := map_option (record_classification result') (tr_metrics r)\<rparr>))"

definition select_model_with_record ::
    "(float64 \<Rightarrow> float64) \<Rightarrow> int \<Rightarrow> tier_router \<Rightarrow> string \<Rightarrow> chat_message list \<Rightarrow> string \<Rightarrow> string \<Rightarrow>
     (string \<times> query_tier \<times> classification_result) \<times> tier_router" where
  "select_model_with_record ex now r msg history primary agent =
     (case select_model_v2 ex r msg history primary of
        ((model, t, result), r') \<Rightarrow>
          ((model, t, result), r'\<lparr>tr_recorder := map_option (record_decision now result model agent) (tr_recorder r')\<rparr>))"

definition select_model_legacy ::
    "(float64 \<Rightarrow> float64) \<Rightarrow> tier_router \<Rightarrow> string \<Rightarrow> chat_message list \<Rightarrow> string \<Rightarrow> string \<times> bool \<times> float64" where
  "select_model_legacy ex r msg history primary =
     (case legacy_router r of
        Some l \<Rightarrow> select_model l msg history primary
      | None \<Rightarrow>
          (let result = classify ex (tr_boundaries r) (extract_features msg history);
               t = cr_tier result; light = (t = TierSimple \<or> t = TierModerate)
           in if light \<and> tr_light r \<noteq> [] then (tr_light r, True, cr_score result)
              else (case (if is_v2_enabled r then mapped_model r t else None) of
                      Some m \<Rightarrow> (m, light, cr_score result)
                    | None \<Rightarrow> (primary, False, cr_score result))))"

text \<open>The routers of an agent and their candidates (\<open>AgentInstance\<close>), and what \<open>selectCandidates\<close> gets from them.\<close>

record agent_routing =
  ar_router :: "light_router option"
  ar_light_candidates :: "fallback_candidate list"
  ar_tier_router :: "tier_router option"
  ar_tier_candidates :: "(query_tier, fallback_candidate list) gomap"

text \<open>\<open>resolve\<close>: the candidates of a model name, empty when it is not in the model list; keys are visited in the order of the map.\<close>

definition resolve_tiers ::
    "(string \<Rightarrow> fallback_candidate list) \<Rightarrow> (string, string) gomap \<Rightarrow>
     (query_tier, string) gomap \<times> (query_tier, fallback_candidate list) gomap" where
  "resolve_tiers resolve mapping =
     foldl (\<lambda>(models, cs) (key, model).
        (case try_parse_tier key of
           None \<Rightarrow> (models, cs)
         | Some t \<Rightarrow> if resolve model \<noteq> [] then (mput t model models, mput t (resolve model) cs) else (models, cs)))
       ([], []) mapping"

definition setup_routing ::
    "(string \<Rightarrow> fallback_candidate list) \<Rightarrow> metrics_collector option \<Rightarrow> decision_recorder option \<Rightarrow> bool \<Rightarrow> (string, string) gomap \<Rightarrow>
     (float64 option \<times> float64 option \<times> float64 option) option \<Rightarrow> string \<Rightarrow> float64 \<Rightarrow> agent_routing" where
  "setup_routing resolve metrics recorder enabled mapping cuts light threshold =
     (let none = \<lparr>ar_router = None, ar_light_candidates = [], ar_tier_router = None, ar_tier_candidates = []\<rparr> in
      if \<not> enabled then none
      else if mapping \<noteq> [] then
        (case resolve_tiers resolve mapping of
           (models, cs) \<Rightarrow>
             none\<lparr>ar_tier_candidates := cs,
                  ar_tier_router :=
                    (if models \<noteq> []
                     then Some \<lparr>tr_mapping = models, tr_boundaries = convert_tier_boundaries cuts, tr_light = [], tr_threshold = 0,
                                tr_metrics = metrics, tr_recorder = recorder\<rparr>
                     else None)\<rparr>)
      else if light \<noteq> [] \<and> resolve light \<noteq> []
      then none\<lparr>ar_router := Some (new_router light threshold), ar_light_candidates := resolve light\<rparr>
      else none)"

definition route_turn :: "(float64 \<Rightarrow> float64) \<Rightarrow> agent_routing \<Rightarrow> string \<Rightarrow> chat_message list \<Rightarrow> string \<Rightarrow> router_choice" where
  "route_turn ex a msg history primary =
     (case (case ar_tier_router a of Some r \<Rightarrow> if is_v2_enabled r \<and> ar_tier_candidates a \<noteq> [] then Some r else None | None \<Rightarrow> None) of
        Some r \<Rightarrow>
          (case select_model_v2 ex r msg history primary of
             ((model, t, result), r') \<Rightarrow> RouterTier model (case mget (ar_tier_candidates a) t of Some cs \<Rightarrow> cs | None \<Rightarrow> []))
      | None \<Rightarrow>
          (case (if ar_light_candidates a = [] then None else ar_router a) of
             Some l \<Rightarrow>
               (case select_model l msg history primary of
                  (model, light, score) \<Rightarrow> if light then RouterLight (lt_light l) (ar_light_candidates a) else RouterPrimary)
           | None \<Rightarrow> NoRouter))"


section \<open>A more demanding message is never routed to a lower tier\<close>

text \<open>What the score depends on: four small numbers.\<close>

definition token_class :: "message_features \<Rightarrow> nat" where
  "token_class f = (if fe_tokens f < 20 then 0 else if fe_tokens f > 200 then 3 else if fe_tokens f > 50 then 2 else 1)"

definition tool_class :: "message_features \<Rightarrow> nat" where
  "tool_class f = (if fe_tool_calls f > 3 then 2 else if fe_tool_calls f > 0 then 1 else 0)"

definition token_weight :: "nat \<Rightarrow> rat" where
  "token_weight a = (if a = 0 then - 1 / 10 else if a = 1 then 3 / 50 else if a = 2 then 3 / 20 else 7 / 20)"

definition tool_weight :: "nat \<Rightarrow> rat" where
  "tool_weight c = (if c = 0 then 0 else if c = 1 then 1 / 10 else 1 / 4)"

definition class_score :: "nat \<Rightarrow> bool \<Rightarrow> nat \<Rightarrow> bool \<Rightarrow> float64" where
  "class_score a b c d =
     (let s1 = fadd 0 (fl (token_weight a)); s2 = fadd s1 (fl (if b then 2 / 5 else 0)); s3 = fadd s2 (fl (tool_weight c))
      in cap_score (fadd s3 (fl (if d then 1 / 10 else 0))))"

lemma class_score: "signal_score (message_signals f) = class_score (token_class f) (fe_code_blocks f > 0) (tool_class f) (fe_depth f > 10)"
proof -
  have t: "sg_contribution (token_signal f) = fl (token_weight (token_class f))"
    by (simp add: token_signal_def token_class_def signal_of_def token_weight_def Let_def)
  show ?thesis
    by (simp add: signal_score_def message_signals_def class_score_def tool_class_def signal_of_def tool_weight_def t Let_def fl_idem)
qed

lemma cap_mono: "x \<le> y \<Longrightarrow> cap_score x \<le> cap_score y"
  by (simp add: cap_score_def Let_def)

lemma cap_range: "- 1 \<le> cap_score x \<and> cap_score x \<le> 1"
  by (simp add: cap_score_def Let_def)

lemma class_score_mono:
  "a \<le> a' \<Longrightarrow> a' \<le> 3 \<Longrightarrow> (b \<longrightarrow> b') \<Longrightarrow> c \<le> c' \<Longrightarrow> c' \<le> 2 \<Longrightarrow> (d \<longrightarrow> d') \<Longrightarrow> class_score a b c d \<le> class_score a' b' c' d'"
  unfolding class_score_def Let_def
  by (intro cap_mono fl_mono add_mono) (auto simp: token_weight_def tool_weight_def)

text \<open>One message demands at least as much as another.\<close>

definition at_least :: "message_features \<Rightarrow> message_features \<Rightarrow> bool" where
  "at_least f g \<longleftrightarrow>
     fe_tokens f \<le> fe_tokens g \<and> fe_code_blocks f \<le> fe_code_blocks g \<and> fe_tool_calls f \<le> fe_tool_calls g \<and> fe_depth f \<le> fe_depth g
     \<and> (fe_attachments f \<longrightarrow> fe_attachments g)"

lemma score_mono: "at_least f g \<Longrightarrow> signal_score (message_signals f) \<le> signal_score (message_signals g)"
  unfolding class_score by (rule class_score_mono) (auto simp: at_least_def token_class_def tool_class_def)

lemma find_tier:
  "score_to_tier_with s (boundaries_at sm mc cr) =
     (if - 1 \<le> s \<and> s < sm then TierSimple else if sm \<le> s \<and> s < mc then TierModerate else if mc \<le> s \<and> s < cr then TierComplex
      else if cr \<le> s then TierReasoning else TierSimple)"
  by (simp add: score_to_tier_with_def all_tiers_def in_tier_def boundaries_at_def)

lemma tier_mono:
  "validate_tier_cutpoints sm mc cr \<Longrightarrow> - 1 \<le> s \<Longrightarrow> s \<le> t \<Longrightarrow>
     score_to_tier_with s (boundaries_at sm mc cr) \<le> score_to_tier_with t (boundaries_at sm mc cr)"
  unfolding find_tier by (auto simp: validate_tier_cutpoints_def less_eq_query_tier_def)

lemma tier_top: "t \<le> TierReasoning"
  by (cases t) (simp_all add: less_eq_query_tier_def)

lemma default_valid: "validate_tier_cutpoints (fl (- 1 / 20)) (fl (3 / 20)) (fl (7 / 20))"
  by code_simp

lemma converted_valid:
  "\<exists>sm mc cr. validate_tier_cutpoints sm mc cr
     \<and> (case convert_tier_boundaries cfg of Some b \<Rightarrow> b | None \<Rightarrow> default_tier_boundaries) = boundaries_at sm mc cr"
proof (cases "convert_tier_boundaries cfg")
  case None
  then show ?thesis using default_valid by (auto simp: default_tier_boundaries_def)
next
  case (Some bs)
  then show ?thesis by (auto simp: convert_tier_boundaries_def Let_def split: option.split_asm if_split_asm prod.split_asm)
qed


section \<open>The recorder is a bounded log\<close>

definition recorded :: "decision_recorder \<Rightarrow> decision_record option list" where
  "recorded d = rev (map (newest d) [0..<dr_count d])"

definition ring_ok :: "nat \<Rightarrow> decision_recorder \<Rightarrow> bool" where
  "ring_ok cap d \<longleftrightarrow> length (dr_records d) = cap \<and> dr_head d < cap \<and> dr_count d \<le> cap \<and> dr_enabled d"

type_synonym decision_event = "int \<times> classification_result \<times> string \<times> string"

fun push_decision :: "decision_event \<Rightarrow> decision_recorder \<Rightarrow> decision_recorder" where
  "push_decision (now, r, model, agent) d = record_decision now r model agent d"

text \<open>A record without its number.\<close>

definition unnumbered :: "decision_record option \<Rightarrow> decision_record option" where
  "unnumbered x = map_option (\<lambda>r. r\<lparr>de_id := 0\<rparr>) x"

fun event_entry :: "nat \<Rightarrow> decision_event \<Rightarrow> decision_record option" where
  "event_entry depth (now, r, model, agent) = Some (decision_of 0 now depth r model agent)"

lemma newest_pushed:
  assumes "ring_ok cap d" and "i < dr_count (record_decision now r model agent d)"
  shows "newest (record_decision now r model agent d) i =
    (case i of 0 \<Rightarrow> Some (decision_of (dr_next d) now (dr_max_depth d) r model agent) | Suc j \<Rightarrow> newest d j)"
proof -
  have s: "length (dr_records d) = cap" "dr_head d < cap" "dr_count d \<le> cap" "dr_enabled d" using assms(1) by (auto simp: ring_ok_def)
  have i: "i < cap" using assms(2) s by (auto simp: record_decision_def Let_def split: if_split_asm)
  let ?h = "dr_head d"
  have next_head: "Suc ?h mod cap = (if Suc ?h = cap then 0 else Suc ?h)" using s(2) by auto
  show ?thesis
  proof (cases i)
    case 0
    moreover have "cap - Suc 0 = ?h" if "Suc ?h = cap" using that by simp
    ultimately show ?thesis using s by (simp add: newest_def record_decision_def Let_def next_head)
  next
    case (Suc j)
    let ?k = "if Suc ?h = cap then cap - Suc i else if Suc ?h < Suc i then Suc ?h + cap - Suc i else Suc ?h - Suc i"
    have "?k \<noteq> ?h" using i s(2) Suc by (auto split: if_split)
    moreover have "?k = (if ?h < Suc j then ?h + cap - Suc j else ?h - Suc j)" using Suc i s(2) by auto
    ultimately have "newest (record_decision now r model agent d) i = newest d j"
      using s i by (auto simp: newest_def record_decision_def Let_def next_head)
    then show ?thesis using Suc by simp
  qed
qed

lemma ring_push: "ring_ok cap d \<Longrightarrow> ring_ok cap (push_decision e d)"
  by (cases e) (auto simp: ring_ok_def record_decision_def Let_def)

lemma recorded_push:
  assumes "ring_ok cap d" and "dr_max_depth d = depth"
  shows "map unnumbered (recorded (push_decision e d)) = keep_last cap (map unnumbered (recorded d) @ [event_entry depth e])"
proof -
  obtain now r model agent where e: "e = (now, r, model, agent)" by (cases e)
  let ?d = "record_decision now r model agent d"
  have s: "dr_count d \<le> cap" "0 < cap" using assms(1) by (auto simp: ring_ok_def)
  have count: "dr_count ?d = min cap (Suc (dr_count d))" using assms(1) by (auto simp: ring_ok_def record_decision_def Let_def)
  define k where "k = dr_count ?d - 1"
  have k: "dr_count ?d = Suc k" "k \<le> dr_count d" using s count by (auto simp: k_def)
  have "map (newest ?d) [0..<Suc k] = Some (decision_of (dr_next d) now (dr_max_depth d) r model agent) # map (newest d) [0..<k]"
  proof (rule nth_equalityI)
    fix i assume "i < length (map (newest ?d) [0..<Suc k])"
    then have i: "i < dr_count ?d" using k by simp
    show "map (newest ?d) [0..<Suc k] ! i = (Some (decision_of (dr_next d) now (dr_max_depth d) r model agent) # map (newest d) [0..<k]) ! i"
      using newest_pushed [OF assms(1) i] i k(1) by (cases i) (simp_all del: upt_Suc)
  qed simp
  moreover have "unnumbered (Some (decision_of (dr_next d) now (dr_max_depth d) r model agent)) = event_entry depth e"
    by (simp add: unnumbered_def decision_of_def e assms(2))
  ultimately have new: "map unnumbered (recorded ?d) = map unnumbered (rev (map (newest d) [0..<k])) @ [event_entry depth e]"
    by (simp add: recorded_def k(1) rev_map [symmetric] del: upt_Suc)
  have "map unnumbered (rev (map (newest d) [0..<k])) = keep_last k (map unnumbered (recorded d))"
    using k(2) by (simp add: recorded_def keep_last_def drop_map drop_rev take_map min_def)
  moreover have "cap = Suc k \<or> k = dr_count d \<and> Suc k \<le> cap" using count k by auto
  ultimately show ?thesis using new k(2)
    by (auto simp: e keep_last_snoc recorded_def)
qed

lemma depth_push: "dr_max_depth (push_decision e d) = dr_max_depth d"
  by (cases e) (simp add: record_decision_def Let_def)

interpretation decision_log: bounded_log push_decision "\<lambda>d. map unnumbered (recorded d)" "\<lambda>e. [event_entry depth e]" cap
    "\<lambda>d. ring_ok cap d \<and> dr_max_depth d = depth" for cap depth
  by unfold_locales (auto simp: ring_push depth_push recorded_push)

lemma recent_recorded:
  assumes "ring_ok cap d"
  shows "get_recent n d = rev (keep_last (nat n) (recorded d))"
proof (cases "n \<le> 0 \<or> dr_count d = 0")
  case True
  then show ?thesis by (auto simp: get_recent_def recorded_def)
next
  case False
  have s: "length (dr_records d) = cap" "dr_head d < cap" "dr_count d \<le> cap" using assms by (auto simp: ring_ok_def)
  define k where "k = min (nat n) (dr_count d)"
  have k: "0 < k" "k \<le> dr_count d" "k \<le> cap" using False s by (auto simp: k_def)
  have "map (\<lambda>i. dr_records d ! (((if dr_head d < k then dr_head d + cap - k else dr_head d - k) + i) mod cap)) [0..<k]
      = rev (map (newest d) [0..<k])"
  proof (rule nth_equalityI)
    fix i assume "i < length (map (\<lambda>i. dr_records d ! (((if dr_head d < k then dr_head d + cap - k else dr_head d - k) + i) mod cap)) [0..<k])"
    then have i: "i < k" by simp
    have "((if dr_head d < k then dr_head d + cap - k else dr_head d - k) + i) mod cap =
        (if dr_head d < Suc (k - Suc i) then dr_head d + cap - Suc (k - Suc i) else dr_head d - Suc (k - Suc i))"
    proof (cases "dr_head d < k - i")
      case True
      then show ?thesis using i k s(2) by auto
    next
      case f: False
      show ?thesis
      proof (cases "dr_head d < k")
        case True
        then have "dr_head d + cap - k + i = cap + (dr_head d + i - k)" "dr_head d + i - k < cap" using f k i by arith+
        then have "(dr_head d + cap - k + i) mod cap = dr_head d + i - k" by (metis mod_add_self1 mod_less)
        then show ?thesis using True f i by simp
      next
        case False
        then show ?thesis using f i k s(2) by auto
      qed
    qed
    then show "map (\<lambda>i. dr_records d ! (((if dr_head d < k then dr_head d + cap - k else dr_head d - k) + i) mod cap)) [0..<k] ! i
        = rev (map (newest d) [0..<k]) ! i"
      using i by (simp add: rev_nth newest_def s(1))
  qed simp
  moreover have "rev (keep_last (nat n) (recorded d)) = map (newest d) [0..<k]"
    by (simp add: recorded_def keep_last_def rev_drop take_map k_def min_def)
  ultimately show ?thesis using False by (simp add: get_recent_def Let_def s(1) k_def [symmetric])
qed

lemma new_ring: "ring_ok (if n \<le> 0 then 1000 else nat n) (new_recorder True n depth)"
  by (simp add: ring_ok_def new_recorder_def)


section \<open>Histograms\<close>

definition bucket_sum :: "score_bucket list \<Rightarrow> int" where
  "bucket_sum bs = sum_list (map sb_count bs)"

text \<open>Adjacent buckets that reach from \<open>lo\<close> to \<open>hi\<close>.\<close>

fun adjacent :: "float64 \<Rightarrow> score_bucket list \<Rightarrow> float64 \<Rightarrow> bool" where
  "adjacent lo [] hi \<longleftrightarrow> lo = hi"
| "adjacent lo (b # bs) hi \<longleftrightarrow> sb_min b = lo \<and> lo < sb_max b \<and> adjacent (sb_max b) bs hi"

lemma bucket_sum_Cons [simp]: "bucket_sum (b # bs) = sb_count b + bucket_sum bs" "bucket_sum [] = 0"
  by (simp_all add: bucket_sum_def)

lemma count_in_bucket:
  assumes "adjacent lo bs hi" and "bs \<noteq> []" and "lo \<le> x" and "x \<le> hi" and "\<forall>b \<in> set bs. 0 \<le> sb_count b \<and> sb_count b < 2 ^ 63 - 1"
  shows "bucket_sum (count_in_bucket x bs) = bucket_sum bs + 1 \<and> adjacent lo (count_in_bucket x bs) hi
    \<and> (\<forall>b \<in> set (count_in_bucket x bs). 0 \<le> sb_count b \<and> sb_count b \<le> bucket_sum bs + 1)"
  using assms
proof (induction bs arbitrary: lo)
  case (Cons b bs)
  have w: "wrap64 (sb_count b + 1) = sb_count b + 1" by (rule wrap64_id) (use Cons.prems(5) in auto)
  have nn: "0 \<le> bucket_sum bs" "\<forall>b \<in> set bs. sb_count b \<le> bucket_sum bs"
  proof -
    have "0 \<le> bucket_sum bs \<and> (\<forall>b \<in> set bs. sb_count b \<le> bucket_sum bs)" if "\<forall>b \<in> set bs. 0 \<le> sb_count b" for bs
      using that by (induction bs) fastforce+
    then show "0 \<le> bucket_sum bs" "\<forall>b \<in> set bs. sb_count b \<le> bucket_sum bs" using Cons.prems(5) by auto
  qed
  show ?case
  proof (cases "x < sb_max b \<or> bs = []")
    case True
    then have "count_in_bucket x (b # bs) = b\<lparr>sb_count := sb_count b + 1\<rparr> # bs" using Cons.prems w by (cases bs) auto
    then show ?thesis using Cons.prems nn by (auto intro: order_trans)
  next
    case False
    then have c: "count_in_bucket x (b # bs) = b # count_in_bucket x bs" by simp
    have ih: "bucket_sum (count_in_bucket x bs) = bucket_sum bs + 1 \<and> adjacent (sb_max b) (count_in_bucket x bs) hi
        \<and> (\<forall>b \<in> set (count_in_bucket x bs). 0 \<le> sb_count b \<and> sb_count b \<le> bucket_sum bs + 1)"
      by (rule Cons.IH) (use Cons.prems False in auto)
    have "0 \<le> sb_count b" using Cons.prems(5) by simp
    then show ?thesis using ih Cons.prems nn unfolding c by (fastforce intro: order_trans)
  qed
qed simp

definition histogram_ok :: "nat \<Rightarrow> metrics_collector \<Rightarrow> bool" where
  "histogram_ok n m \<longleftrightarrow> mc_total m = int n \<and> bucket_sum (mc_scores m) = int n \<and> adjacent (- 1) (mc_scores m) 1 \<and> mc_scores m \<noteq> []
     \<and> (\<forall>b \<in> set (mc_scores m). 0 \<le> sb_count b \<and> sb_count b \<le> int n)"

lemma histogram_step:
  assumes "histogram_ok n m" and "int n < 2 ^ 63 - 1" and "- 1 \<le> cr_score r" and "cr_score r \<le> 1"
  shows "histogram_ok (Suc n) (record_classification r m)"
proof -
  have "bucket_sum (count_in_bucket (cr_score r) (mc_scores m)) = bucket_sum (mc_scores m) + 1
    \<and> adjacent (- 1) (count_in_bucket (cr_score r) (mc_scores m)) 1
    \<and> (\<forall>b \<in> set (count_in_bucket (cr_score r) (mc_scores m)). 0 \<le> sb_count b \<and> sb_count b \<le> bucket_sum (mc_scores m) + 1)"
    by (rule count_in_bucket) (use assms in \<open>auto simp: histogram_ok_def\<close>)
  moreover have "count_in_bucket x bs = [] \<longleftrightarrow> bs = []" for x bs by (cases bs) auto
  moreover have "wrap64 (int n + 1) = int n + 1" by (rule wrap64_id) (use assms(2) in auto)
  ultimately show ?thesis using assms(1) by (auto simp: histogram_ok_def record_classification_def)
qed

lemma histogram_new: "histogram_ok 0 new_metrics"
proof -
  have "adjacent (- 1) (mc_scores new_metrics) 1" "mc_total new_metrics = 0 \<and> bucket_sum (mc_scores new_metrics) = 0" by code_simp+
  then show ?thesis by (simp add: histogram_ok_def) (simp add: new_metrics_def empty_buckets_def)
qed

lemma classify_range: "- 1 \<le> cr_score (classify ex cfg f) \<and> cr_score (classify ex cfg f) \<le> 1"
  using cap_range by (simp add: classify_def Let_def signal_score_def)

section \<open>Properties\<close>

text \<open>
  A message that demands at least as much as another one, with as many tokens, code blocks, recent
  tool calls and earlier messages, is never routed to a lower tier, whatever boundaries are configured.
\<close>

theorem demanding_never_lower:
  assumes "at_least f g"
  shows "cr_tier (classify ex (convert_tier_boundaries cfg) f) \<le> cr_tier (classify ex (convert_tier_boundaries cfg) g)"
proof (cases "fe_attachments g")
  case True
  then show ?thesis using tier_top by (simp add: classify_def)
next
  case False
  then have f: "\<not> fe_attachments f" using assms by (simp add: at_least_def)
  obtain sm mc cr where v: "validate_tier_cutpoints sm mc cr"
    "(case convert_tier_boundaries cfg of Some b \<Rightarrow> b | None \<Rightarrow> default_tier_boundaries) = boundaries_at sm mc cr"
    using converted_valid by blast
  have "- 1 \<le> signal_score (message_signals f)" using cap_range by (simp add: signal_score_def)
  then show ?thesis using tier_mono [OF v(1) _ score_mono [OF assms]] False f by (simp add: classify_def v(2) Let_def)
qed

theorem demanding_never_lower_witness:
  "cr_tier (classify (\<lambda>x. 0) (convert_tier_boundaries None)
      \<lparr>fe_tokens = 3, fe_code_blocks = 0, fe_tool_calls = 0, fe_depth = 1, fe_attachments = False\<rparr>)
     \<le> cr_tier (classify (\<lambda>x. 0) (convert_tier_boundaries None)
      \<lparr>fe_tokens = 80, fe_code_blocks = 2, fe_tool_calls = 0, fe_depth = 1, fe_attachments = False\<rparr>)"
  by (rule demanding_never_lower) (simp add: at_least_def)

text \<open>
  The scores keep their ranges, rounding errors included: that of the two-tier classifier is between 0
  and 1, that of the four-tier classifier between -1 and 1.
\<close>

theorem scores_in_range:
  "0 \<le> rule_score f \<and> rule_score f \<le> 1 \<and> - 1 \<le> cr_score (classify ex cfg f) \<and> cr_score (classify ex cfg f) \<le> 1"
proof -
  have "0 \<le> rule_score f" by (simp add: rule_score_def Let_def fl_nonneg add_nonneg_nonneg)
  moreover have "rule_score f \<le> 1" by (simp add: rule_score_def Let_def)
  ultimately show ?thesis using classify_range by blast
qed

text \<open>
  The histogram of scores is complete: every decision is counted in exactly one bucket, so the buckets
  together hold as many as there were decisions.
\<close>

theorem histogram_complete:
  assumes "length fs < 2 ^ 63"
  shows "bucket_sum (mc_scores (fold (\<lambda>f. record_classification (classify ex cfg f)) fs new_metrics)) = int (length fs)
    \<and> mc_total (fold (\<lambda>f. record_classification (classify ex cfg f)) fs new_metrics) = int (length fs)"
proof -
  have "histogram_ok n m \<Longrightarrow> int n + int (length fs) < 2 ^ 63 \<Longrightarrow>
      histogram_ok (n + length fs) (fold (\<lambda>f. record_classification (classify ex cfg f)) fs m)" for n m
  proof (induction fs arbitrary: n m)
    case (Cons f fs)
    have "histogram_ok (Suc n) (record_classification (classify ex cfg f) m)"
      by (rule histogram_step) (use Cons.prems classify_range in auto)
    then show ?case using Cons.IH [of "Suc n"] Cons.prems(2) by simp
  qed simp
  moreover have "int (length fs) < 2 ^ 63" using assms by simp
  ultimately show ?thesis using histogram_new by (fastforce simp: histogram_ok_def)
qed

theorem histogram_complete_witness:
  "bucket_sum (mc_scores (fold (\<lambda>f. record_classification (classify ex None f)) [extract_features ''hi'' [], extract_features ''a.png'' []] new_metrics)) = 2"
  using histogram_complete [of "[extract_features ''hi'' [], extract_features ''a.png'' []]" ex None] by simp

text \<open>
  C36: The ring buffer of the recorder is a bounded log: whatever was recorded, \<open>GetRecent\<close> returns the newest
  decisions, newest first, at most as many as it is asked for and as the buffer holds.
\<close>

theorem recorder_refines_log:
  "map unnumbered (get_recent n (fold push_decision es (new_recorder True cap depth))) =
     rev (keep_last (nat n) (keep_last (if cap \<le> 0 then 1000 else nat cap)
       (map (event_entry (if depth \<le> 0 then 10 else nat depth)) es)))"
proof -
  let ?cap = "if cap \<le> 0 then 1000 else nat cap" and ?depth = "if depth \<le> 0 then 10 else nat depth" and ?d = "new_recorder True cap depth"
  have new: "ring_ok ?cap ?d \<and> dr_max_depth ?d = ?depth" "recorded ?d = []" using new_ring by (simp_all add: new_recorder_def recorded_def)
  have ok: "ring_ok ?cap (fold push_decision es ?d)" using decision_log.inv_pushes [OF new(1), of es] by blast
  have "map unnumbered (recorded (fold push_decision es ?d)) = keep_last ?cap (map (event_entry ?depth) es)"
    using decision_log.items_pushes [OF new(1), of es] new(2) by (simp add: concat_map_singleton)
  moreover have "map unnumbered (keep_last k xs) = keep_last k (map unnumbered xs)" for k xs by (simp add: keep_last_def drop_map)
  ultimately show ?thesis by (simp add: recent_recorded [OF ok] rev_map [symmetric])
qed

lemma resolved_tiers:
  assumes "resolve_tiers resolve mapping = (models, cs)"
  shows "mget cs t = map_option resolve (mget models t) \<and> (\<forall>m. mget models t = Some m \<longrightarrow> resolve m \<noteq> [] \<and> m \<in> snd ` set mapping)
    \<and> (models = [] \<longleftrightarrow> cs = [])"
proof -
  define step where "step = (\<lambda>(models, cs) (key :: string, model). (case try_parse_tier key of
      None \<Rightarrow> (models, cs)
    | Some t \<Rightarrow> if resolve model \<noteq> [] then (mput t model models, mput t (resolve model) cs) else (models, cs)))"
  have "(\<forall>t. mget (snd acc) t = map_option resolve (mget (fst acc) t) \<and> (\<forall>m. mget (fst acc) t = Some m \<longrightarrow> resolve m \<noteq> [] \<and> m \<in> N))
       \<and> (fst acc = [] \<longleftrightarrow> snd acc = []) \<Longrightarrow> snd ` set xs \<subseteq> N \<Longrightarrow>
     (\<forall>t. mget (snd (foldl step acc xs)) t = map_option resolve (mget (fst (foldl step acc xs)) t)
        \<and> (\<forall>m. mget (fst (foldl step acc xs)) t = Some m \<longrightarrow> resolve m \<noteq> [] \<and> m \<in> N))
       \<and> (fst (foldl step acc xs) = [] \<longleftrightarrow> snd (foldl step acc xs) = [])" for acc N xs
  proof (induction xs arbitrary: acc)
    case (Cons x xs)
    have ne: "mput k v m \<noteq> []" for k v and m :: "(query_tier, 'x) gomap" by (cases m) auto
    show ?case
      unfolding foldl_Cons
      by (rule Cons.IH) (use Cons.prems ne in \<open>auto simp: step_def split: prod.splits option.splits\<close>)
  qed simp
  from this [where acc = "([], [])" and N = "snd ` set mapping" and xs = mapping] show ?thesis using assms by (simp add: resolve_tiers_def step_def [symmetric])
qed

lemma classified_boundary:
  "ar_tier_router (setup_routing resolve mt rec enabled mapping cuts light threshold) = Some r \<Longrightarrow>
     \<exists>models cs. resolve_tiers resolve mapping = (models, cs) \<and> tr_mapping r = models \<and> models \<noteq> []
       \<and> ar_tier_candidates (setup_routing resolve mt rec enabled mapping cuts light threshold) = cs"
  by (auto simp: setup_routing_def Let_def split: if_split_asm prod.split_asm)

text \<open>
  The model router always leaves a turn with candidates that belong together: the model and candidates of the
  agent, or a configured model that is in the model list with the candidates of that model; only a tier without a
  configured model combines the agent's candidates with the agent's model.
\<close>

theorem routed_candidates_fit:
  assumes "resolve [] = []" and "a = setup_routing resolve mt rec enabled mapping cuts light threshold"
  shows "select_candidates ag (route_turn ex a msg history (ag_model ag)) = (ag_candidates ag, ag_model ag)
    \<or> (\<exists>m. (m = light \<or> m \<in> snd ` set mapping) \<and> resolve m \<noteq> []
         \<and> select_candidates ag (route_turn ex a msg history (ag_model ag)) = (resolve m, m))"
proof (cases "ar_tier_router a")
  case None
  have l: "ar_router a = Some l \<Longrightarrow> ar_light_candidates a = resolve light \<and> resolve light \<noteq> [] \<and> lt_light l = light" for l
    using assms(2) by (auto simp: setup_routing_def new_router_def Let_def split: if_split_asm prod.split_asm)
  show ?thesis
    using l by (auto simp: route_turn_def None select_candidates_def select_model_def Let_def split: option.split)
next
  case (Some r)
  obtain models cs where r: "resolve_tiers resolve mapping = (models, cs)" "tr_mapping r = models" "models \<noteq> []" "ar_tier_candidates a = cs"
    using classified_boundary Some assms(2) by metis
  define t where "t = cr_tier (classify ex (tr_boundaries r) (extract_features msg history))"
  have en: "is_v2_enabled r \<and> ar_tier_candidates a \<noteq> []" using r resolved_tiers [OF r(1)] by (simp add: is_v2_enabled_def)
  have "route_turn ex a msg history (ag_model ag) =
      RouterTier (case mapped_model r t of Some m \<Rightarrow> m | None \<Rightarrow> ag_model ag) (case mget cs t of Some cs \<Rightarrow> cs | None \<Rightarrow> [])"
    using en r(4) by (simp add: route_turn_def Some select_model_v2_def t_def Let_def)
  then show ?thesis
    using resolved_tiers [OF r(1), of t] assms(1) r(2)
    by (cases "mget models t") (auto simp: mapped_model_def select_candidates_def split: if_split)
qed

definition sample_resolve :: "string \<Rightarrow> fallback_candidate list" where
  "sample_resolve m = resolve_candidates_with_lookup \<lparr>mc_primary = m, mc_fallbacks = []\<rparr> ''openai'' (Some (\<lambda>raw. None))"

theorem routed_candidates_fit_witness:
  "sample_resolve [] = [] \<and>
   (\<forall>ag. select_candidates ag (route_turn (\<lambda>x. 0) (setup_routing sample_resolve None None True [] None ''mini'' 0) ''hi'' [] (ag_model ag))
       = (ag_candidates ag, ag_model ag)
     \<or> (\<exists>m. (m = ''mini'' \<or> m \<in> snd ` set ([] :: (string \<times> string) list)) \<and> sample_resolve m \<noteq> []
         \<and> select_candidates ag (route_turn (\<lambda>x. 0) (setup_routing sample_resolve None None True [] None ''mini'' 0) ''hi'' [] (ag_model ag))
           = (sample_resolve m, m)))"
proof -
  have e: "sample_resolve [] = []"
    by (simp add: sample_resolve_def resolve_candidates_with_lookup_def add_candidate_def candidate_ref_def parse_model_ref_def trim_space_def)
  show ?thesis by (intro conjI allI e) (rule routed_candidates_fit [where resolve = sample_resolve, OF e refl])
qed

definition confidence_from :: "float64 \<Rightarrow> float64" where
  "confidence_from e =
     fdiv (go_round (fmul (fadd (fl (1 / 2)) (fmul (fl (1 / 2)) (fdiv 1 (fadd 1 e)))) 1000)) 1000"

lemma go_round_mono: "x \<le> y \<Longrightarrow> go_round x \<le> go_round y"
proof -
  assume le: "x \<le> y"
  have f: "\<lfloor>- y + 1 / 2\<rfloor> \<le> \<lfloor>- x + 1 / 2\<rfloor>" "\<lfloor>x + 1 / 2\<rfloor> \<le> \<lfloor>y + 1 / 2\<rfloor>" using le by (auto intro: floor_mono)
  have low: "x < 0 \<Longrightarrow> 0 \<le> \<lfloor>- x + 1 / 2\<rfloor>" and high: "0 \<le> y \<Longrightarrow> 0 \<le> \<lfloor>y + 1 / 2\<rfloor>" by simp_all
  consider "0 \<le> x" | "x < 0" "0 \<le> y" | "y < 0" by linarith
  then show ?thesis
  proof cases
    case 1
    then show ?thesis using f(2) le by (simp add: go_round_def)
  next
    case 2
    have "go_round x \<le> 0" using low 2 by (simp add: go_round_def)
    moreover have "0 \<le> go_round y" using high 2 by (simp add: go_round_def)
    ultimately show ?thesis by linarith
  next
    case 3
    then show ?thesis using f(1) le by (simp add: go_round_def)
  qed
qed

lemma confidence_antimono: "0 \<le> d \<Longrightarrow> d \<le> e \<Longrightarrow> confidence_from e \<le> confidence_from d"
proof -
  assume d: "0 \<le> d" "d \<le> e"
  have one: "1 \<le> fl (1 + d)" using fl_mono [of 1 "1 + d"] d(1) by simp
  have "fl (1 + d) \<le> fl (1 + e)" by (rule fl_mono) (use d in simp)
  then have q: "1 / fl (1 + e) \<le> 1 / fl (1 + d)" using one by (intro divide_left_mono) auto
  have h: "0 \<le> fl (1 / 2)" by (rule fl_nonneg) simp
  have "fl (fl (1 / 2) * fl (1 / fl (1 + e))) \<le> fl (fl (1 / 2) * fl (1 / fl (1 + d)))"
    using q h by (intro fl_mono mult_left_mono)
  then have "go_round (fl (fl (fl (1 / 2) + fl (fl (1 / 2) * fl (1 / fl (1 + e)))) * 1000)) \<le>
      go_round (fl (fl (fl (1 / 2) + fl (fl (1 / 2) * fl (1 / fl (1 + d)))) * 1000))"
    by (intro go_round_mono fl_mono mult_right_mono) simp_all
  then show ?thesis unfolding confidence_from_def by (intro fl_mono divide_right_mono) simp_all
qed

text \<open>
  The confidence is upside down: in the middle of a tier, where the score is furthest from the boundaries, it is
  0.75, and no score has a lower one.
\<close>

theorem confidence_backwards:
  assumes "ex 0 = 1" and "\<And>x. x \<le> 0 \<Longrightarrow> 0 \<le> ex x \<and> ex x \<le> 1" and "0 < fsub (snd b) (fst b)" and "middle = fdiv (fadd (fst b) (snd b)) 2"
  shows "compute_confidence ex middle b = 3 / 4 \<and> compute_confidence ex middle b \<le> compute_confidence ex score b"
proof -
  have c: "compute_confidence ex s b = confidence_from (ex (fmul (- 3) \<bar>fdiv (fsub s middle) (fdiv (fsub (snd b) (fst b)) 2)\<bar>))" for s
    using assms(3,4) by (simp add: compute_confidence_def confidence_from_def Let_def not_le)
  have "confidence_from 1 = 3 / 4" by code_simp
  then have m: "compute_confidence ex middle b = 3 / 4" unfolding c using assms(1) by simp
  have "fl (- 3 * \<bar>x\<bar>) \<le> 0" for x using fl_mono [of "- 3 * \<bar>x\<bar>" 0] by simp
  then have "confidence_from 1 \<le> compute_confidence ex score b" unfolding c by (intro confidence_antimono) (use assms(2) in auto)
  then show ?thesis using m \<open>confidence_from 1 = 3 / 4\<close> by simp
qed

theorem confidence_backwards_witness:
  "compute_confidence (\<lambda>x. if x = 0 then 1 else 1 / 2) (fl (1 / 4)) (0, fl (1 / 2)) \<le> compute_confidence (\<lambda>x. if x = 0 then 1 else 1 / 2) 0 (0, fl (1 / 2))"
proof -
  have p: "0 < fsub (snd (0, fl (1 / 2))) (fst (0, fl (1 / 2)))" "fl (1 / 4) = fdiv (fadd (fst (0, fl (1 / 2))) (snd (0, fl (1 / 2)))) 2"
    by code_simp+
  show ?thesis using confidence_backwards [of "\<lambda>x. if x = 0 then 1 else 1 / 2" "(0, fl (1 / 2))" "fl (1 / 4)" 0] p by simp
qed

end
