(* ===== verification/Fifo.thy ===== *)
theory Fifo
  imports Prelude
begin

text \<open>
  The contract of a first-in first-out queue inside a larger state, as Go's buffered channels are: what a
  step puts in goes to the end and what it takes out comes from the front. Every history of a provider
  then hands out what was put in, in the same order.
\<close>

section \<open>Runs of steps and their logs\<close>

fun run_steps :: "('a \<Rightarrow> 's \<Rightarrow> 's option) \<Rightarrow> 'a list \<Rightarrow> 's \<Rightarrow> 's option" where
  "run_steps step [] s = Some s"
| "run_steps step (a # as) s = (case step a s of None \<Rightarrow> None | Some s' \<Rightarrow> run_steps step as s')"

fun step_log :: "('a \<Rightarrow> 's \<Rightarrow> 's option) \<Rightarrow> ('a \<Rightarrow> 's \<Rightarrow> 'm list) \<Rightarrow> 'a list \<Rightarrow> 's \<Rightarrow> 'm list" where
  "step_log step f [] s = []"
| "step_log step f (a # as) s = f a s @ (case step a s of None \<Rightarrow> [] | Some s' \<Rightarrow> step_log step f as s')"

lemma run_steps_Cons: "run_steps step (a # as) s = Some s' \<longleftrightarrow> (\<exists>t. step a s = Some t \<and> run_steps step as t = Some s')"
  by (auto split: option.split)

section \<open>The interface\<close>

locale fifo =
  fixes step :: "'a \<Rightarrow> 's \<Rightarrow> 's option"
    and items :: "'s \<Rightarrow> 'm list"
    and puts :: "'a \<Rightarrow> 's \<Rightarrow> 'm list"
    and gets :: "'a \<Rightarrow> 's \<Rightarrow> 'm list"
    and cap :: nat
  assumes queue_step: "step a s = Some s' \<Longrightarrow> items s @ puts a s = gets a s @ items s'"
    and cap_step: "step a s = Some s' \<Longrightarrow> length (items s) \<le> cap \<Longrightarrow> length (items s') \<le> cap"
begin

lemma run_fifo: "run_steps step as s = Some s' \<Longrightarrow> items s @ step_log step puts as s = step_log step gets as s @ items s'"
proof (induction as arbitrary: s)
  case (Cons a as)
  then obtain t where t: "step a s = Some t" "run_steps step as t = Some s'" using Cons.prems(1) unfolding run_steps_Cons by blast
  have "items s @ puts a s = gets a s @ items t" by (rule queue_step [OF t(1)])
  then have "items s @ puts a s @ step_log step puts as t = gets a s @ items t @ step_log step puts as t" by (metis append.assoc)
  then show ?case using Cons.IH [OF t(2)] t(1) by simp
qed simp

lemma run_cap: "run_steps step as s = Some s' \<Longrightarrow> length (items s) \<le> cap \<Longrightarrow> length (items s') \<le> cap"
proof (induction as arbitrary: s)
  case (Cons a as)
  then obtain t where "step a s = Some t" "run_steps step as t = Some s'" using Cons.prems(1) unfolding run_steps_Cons by blast
  then show ?case using Cons cap_step by blast
qed simp

lemma gets_prefix: "run_steps step as s = Some s' \<Longrightarrow> items s = [] \<Longrightarrow> prefix (step_log step gets as s) (step_log step puts as s)"
  using run_fifo [of as s s'] by (simp add: prefix_def)

end

end
