(* ===== verification/MessageBus.thy ===== *)
theory MessageBus
  imports Fifo AgentLoop
begin

text \<open>
  The bus between channels and agents (\<open>pkg/bus/bus.go\<close>): three buffered Go channels and \<open>Close\<close>. A step is
  a section of an operation between two points where another goroutine can get in: a publisher that has
  passed the check of the closed flag waits in its \<open>select\<close>, and \<open>Close\<close> drains one message at a time.
\<close>

section \<open>State\<close>

datatype bus_lane = Inbound | Outbound | OutboundMedia

record media_part =
  mp_kind :: string
  mp_ref :: string
  mp_caption :: string
  mp_filename :: string
  mp_content_type :: string

record outbound_media_message =
  xm_channel :: string
  xm_chat_id :: string
  xm_parts :: "media_part list"

datatype bus_message = InMsg inbound_message | OutMsg outbound_message | MediaMsg outbound_media_message

fun lane_of :: "bus_message \<Rightarrow> bus_lane" where
  "lane_of (InMsg m) = Inbound"
| "lane_of (OutMsg m) = Outbound"
| "lane_of (MediaMsg m) = OutboundMedia"

datatype bus_result = Published | BusClosed | BusCancelled

datatype publisher = Waiting bus_message | Returned bus_message bus_result

text \<open>\<open>mb_drain\<close>: the lanes that \<open>Close\<close> has not drained yet, while it runs.\<close>

record message_bus =
  mb_inbound :: "bus_message list"
  mb_outbound :: "bus_message list"
  mb_media :: "bus_message list"
  mb_done :: bool
  mb_closed :: bool
  mb_drain :: "bus_lane list"
  mb_publishers :: "publisher list"

definition default_bus_buffer_size :: nat where "default_bus_buffer_size = 64"

definition new_message_bus :: message_bus where
  "new_message_bus =
     \<lparr>mb_inbound = [], mb_outbound = [], mb_media = [], mb_done = False, mb_closed = False, mb_drain = [], mb_publishers = []\<rparr>"

fun buffered :: "bus_lane \<Rightarrow> message_bus \<Rightarrow> bus_message list" where
  "buffered Inbound b = mb_inbound b"
| "buffered Outbound b = mb_outbound b"
| "buffered OutboundMedia b = mb_media b"

fun set_buffer :: "bus_lane \<Rightarrow> bus_message list \<Rightarrow> message_bus \<Rightarrow> message_bus" where
  "set_buffer Inbound xs b = b\<lparr>mb_inbound := xs\<rparr>"
| "set_buffer Outbound xs b = b\<lparr>mb_outbound := xs\<rparr>"
| "set_buffer OutboundMedia xs b = b\<lparr>mb_media := xs\<rparr>"

section \<open>Steps\<close>

text \<open>
  \<open>PublishInbound\<close>, \<open>PublishOutbound\<close> and \<open>PublishOutboundMedia\<close> differ only in their lane, and so do the
  three consumers. \<open>Consume\<close> takes a message; \<open>ConsumeDone\<close> is the same call that finds the bus closed,
  \<open>ConsumeCancel\<close> one whose context has ended. A
  \<open>select\<close> with several ready cases takes any of them.
\<close>

datatype bus_action =
    Publish bus_message bool
  | Send nat
  | SendDone nat
  | SendCancel nat
  | Consume bus_lane
  | ConsumeDone bus_lane
  | ConsumeCancel bus_lane
  | CloseBus
  | CloseDone
  | Drain

fun bus_step :: "bus_action \<Rightarrow> message_bus \<Rightarrow> message_bus option" where
  "bus_step (Publish m cancelled) b =
     Some (b\<lparr>mb_publishers := mb_publishers b @
        [if mb_closed b then Returned m BusClosed else if cancelled then Returned m BusCancelled else Waiting m]\<rparr>)"
| "bus_step (Send k) b =
     (if k < length (mb_publishers b) then
        (case mb_publishers b ! k of
           Waiting m \<Rightarrow>
             if length (buffered (lane_of m) b) < default_bus_buffer_size
             then Some ((set_buffer (lane_of m) (buffered (lane_of m) b @ [m]) b)\<lparr>mb_publishers := (mb_publishers b)[k := Returned m Published]\<rparr>)
             else None
         | Returned m r \<Rightarrow> None)
      else None)"
| "bus_step (SendDone k) b =
     (if k < length (mb_publishers b) \<and> mb_done b then
        (case mb_publishers b ! k of
           Waiting m \<Rightarrow> Some (b\<lparr>mb_publishers := (mb_publishers b)[k := Returned m BusClosed]\<rparr>)
         | Returned m r \<Rightarrow> None)
      else None)"
| "bus_step (SendCancel k) b =
     (if k < length (mb_publishers b) then
        (case mb_publishers b ! k of
           Waiting m \<Rightarrow> Some (b\<lparr>mb_publishers := (mb_publishers b)[k := Returned m BusCancelled]\<rparr>)
         | Returned m r \<Rightarrow> None)
      else None)"
| "bus_step (Consume l) b = (case buffered l b of [] \<Rightarrow> None | m # rest \<Rightarrow> Some (set_buffer l rest b))"
| "bus_step (ConsumeDone l) b = (if mb_done b then Some b else None)"
| "bus_step (ConsumeCancel l) b = Some b"
| "bus_step CloseBus b =
     (if mb_closed b then Some b else Some (b\<lparr>mb_closed := True\<rparr>))"
| "bus_step CloseDone b =
     (if mb_closed b \<and> \<not> mb_done b then Some (b\<lparr>mb_done := True, mb_drain := [Inbound, Outbound, OutboundMedia]\<rparr>) else None)"
| "bus_step Drain b =
     (case mb_drain b of
        [] \<Rightarrow> None
      | l # ls \<Rightarrow> (case buffered l b of [] \<Rightarrow> Some (b\<lparr>mb_drain := ls\<rparr>) | m # rest \<Rightarrow> Some (set_buffer l rest b)))"




section \<open>Every lane is a queue\<close>

lemma buffered_frame [simp]:
  "buffered l (b\<lparr>mb_publishers := ps\<rparr>) = buffered l b" "buffered l (b\<lparr>mb_drain := ls\<rparr>) = buffered l b"
  "buffered l (b\<lparr>mb_done := d\<rparr>) = buffered l b" "buffered l (b\<lparr>mb_closed := c\<rparr>) = buffered l b"
  by (cases l; simp)+

lemma buffered_set [simp]: "buffered l (set_buffer l' xs b) = (if l = l' then xs else buffered l b)"
  by (cases l; cases l'; simp)






lemma set_buffer_frame [simp]:
  "mb_closed (set_buffer l xs b) = mb_closed b" "mb_drain (set_buffer l xs b) = mb_drain b"
  by (cases l; simp)+



section \<open>Properties\<close>


definition sample_out :: "string \<Rightarrow> bus_message" where
  "sample_out txt = OutMsg \<lparr>ob_channel = ''cli'', ob_chat_id = ''7'', ob_content = txt\<rparr>"

text \<open>
  Closing the bus loses messages whose publishers were told that they are published: one that was buffered is
  thrown away by the drain, and one whose publisher had passed the check of the closed flag is accepted after the
  drain and stays in a buffer that a consumer, once the bus is closed, need not read.
\<close>

theorem close_loses_published:
  "case run_steps bus_step
      [Publish (sample_out ''a'') False, Send 0, Publish (sample_out ''b'') False, CloseBus, CloseDone, Drain, Drain, Drain, Drain, Send 1, ConsumeDone Outbound]
      new_message_bus of
     None \<Rightarrow> False
   | Some b \<Rightarrow> mb_publishers b = [Returned (sample_out ''a'') Published, Returned (sample_out ''b'') Published]
       \<and> buffered Outbound b = [sample_out ''b''] \<and> mb_drain b = []"
  by code_simp

end
