(* ===== verification/AllowList.thy ===== *)
theory AllowList
  imports SessionKeys
begin

text \<open>
  Who may talk to the agent over a channel: identities (\<open>pkg/identity/identity.go\<close>), the allow list
  and the group trigger of a channel (\<open>pkg/channels/base.go\<close>).
\<close>

section \<open>Identities\<close>

record sender_info =
  si_platform :: string
  si_platform_id :: string
  si_canonical_id :: string
  si_username :: string
  si_display_name :: string

definition build_canonical_id :: "string \<Rightarrow> string \<Rightarrow> string" where
  "build_canonical_id platform platform_id =
     (let p = to_lower (trim_space platform); i = trim_space platform_id in
      if p = [] \<or> i = [] then [] else p @ '':'' @ i)"

definition parse_canonical_id :: "string \<Rightarrow> (string \<times> string) option" where
  "parse_canonical_id canonical =
     (let c = trim_space canonical; p = takeWhile (\<lambda>x. x \<noteq> CHR '':'') c; i = drop (Suc (length p)) c in
      if CHR '':'' \<notin> set c \<or> p = [] \<or> i = [] then None else Some (p, i))"

definition is_numeric :: "string \<Rightarrow> bool" where
  "is_numeric s \<longleftrightarrow> s \<noteq> [] \<and> list_all is_digit s"

text \<open>The two sides of the first bar, when something stands before it.\<close>

definition split_bar :: "string \<Rightarrow> string \<times> string" where
  "split_bar s =
     (let p = takeWhile (\<lambda>x. x \<noteq> CHR ''|'') s in
      if p = [] \<or> CHR ''|'' \<notin> set s then (s, []) else (p, drop (Suc (length p)) s))"

fun trim_at :: "string \<Rightarrow> string" where
  "trim_at (c # s) = (if c = CHR ''@'' then s else c # s)"
| "trim_at [] = []"

definition match_plain :: "sender_info \<Rightarrow> string \<Rightarrow> bool" where
  "match_plain sender allowed =
     (let trimmed = trim_at allowed; (allowed_id, allowed_user) = split_bar trimmed in
      (si_platform_id sender \<noteq> [] \<and> si_platform_id sender = allowed_id)
      \<or> (prefix ''@'' allowed \<and> si_username sender \<noteq> [] \<and> si_username sender = trimmed)
      \<or> (allowed_user \<noteq> [] \<and> si_platform_id sender \<noteq> [] \<and> si_platform_id sender = allowed_id)
      \<or> (allowed_user \<noteq> [] \<and> si_username sender \<noteq> [] \<and> si_username sender = allowed_user))"

definition match_allowed :: "sender_info \<Rightarrow> string \<Rightarrow> bool" where
  "match_allowed sender entry =
     (let allowed = trim_space entry in
      if allowed = [] then False
      else
        (case parse_canonical_id allowed of
           Some (platform, i) \<Rightarrow>
             if is_numeric platform then match_plain sender allowed
             else
               (let candidate = build_canonical_id platform i in
                if candidate \<noteq> [] \<and> si_canonical_id sender \<noteq> [] then equal_fold (si_canonical_id sender) candidate
                else equal_fold platform (si_platform sender) \<and> si_platform_id sender = i)
         | None \<Rightarrow> match_plain sender allowed))"

section \<open>The allow list of a channel\<close>

definition entry_allows :: "string \<Rightarrow> string \<Rightarrow> bool" where
  "entry_allows sender_id allowed =
     (let (id_part, user_part) = split_bar sender_id; trimmed = trim_at allowed;
          (allowed_id, allowed_user) = split_bar trimmed
      in sender_id = allowed \<or> id_part = allowed \<or> sender_id = trimmed \<or> id_part = trimmed \<or> id_part = allowed_id
         \<or> (allowed_user \<noteq> [] \<and> sender_id = allowed_user)
         \<or> (user_part \<noteq> [] \<and> (user_part = allowed \<or> user_part = trimmed \<or> user_part = allowed_user)))"

definition is_allowed :: "string list \<Rightarrow> string \<Rightarrow> bool" where
  "is_allowed allow_list sender_id \<longleftrightarrow> allow_list = [] \<or> list_ex (entry_allows sender_id) allow_list"

definition is_allowed_sender :: "string list \<Rightarrow> sender_info \<Rightarrow> bool" where
  "is_allowed_sender allow_list sender \<longleftrightarrow> allow_list = [] \<or> list_ex (match_allowed sender) allow_list"

text \<open>The check of \<open>HandleMessage\<close>, and the identity under which the message is published.\<close>

definition sender_passes :: "string list \<Rightarrow> sender_info \<Rightarrow> string \<Rightarrow> bool" where
  "sender_passes allow_list sender sender_id =
     (if si_canonical_id sender \<noteq> [] \<or> si_platform_id sender \<noteq> [] then is_allowed_sender allow_list sender
      else is_allowed allow_list sender_id)"

definition resolved_sender_id :: "sender_info \<Rightarrow> string \<Rightarrow> string" where
  "resolved_sender_id sender sender_id = (if si_canonical_id sender \<noteq> [] then si_canonical_id sender else sender_id)"

section \<open>The group trigger\<close>

record group_trigger =
  gt_mention_only :: bool
  gt_prefixes :: "string list"

definition should_respond_in_group :: "group_trigger \<Rightarrow> bool \<Rightarrow> string \<Rightarrow> bool \<times> string" where
  "should_respond_in_group gt mentioned content =
     (if mentioned then (True, trim_space content)
      else if gt_mention_only gt then (False, content)
      else if gt_prefixes gt \<noteq> [] then
        (case List.find (\<lambda>p. p \<noteq> [] \<and> has_prefix content p) (gt_prefixes gt) of
           Some p \<Rightarrow> (True, trim_space (drop (length p) content))
         | None \<Rightarrow> (False, content))
      else (True, trim_space content))"

section \<open>Canonical entries\<close>

lemma hd_trim_space: "trim_space s \<noteq> [] \<Longrightarrow> \<not> is_space (hd (trim_space s))"
proof -
  assume n: "trim_space s \<noteq> []"
  let ?a = "dropWhile is_space s"
  obtain v where v: "?a = trim_space s @ v"
    unfolding trim_space_def by (metis rev_append rev_rev_ident takeWhile_dropWhile_id)
  then have "?a \<noteq> []" "hd ?a = hd (trim_space s)" using n by auto
  then show ?thesis using hd_dropWhile [of is_space s] by simp
qed

lemma trim_empty [simp]: "trim_space [] = []"
  by (simp add: trim_space_def)

lemma trim_twice [simp]: "trim_space (trim_space s) = trim_space s"
proof (cases "trim_space s = []")
  case False
  then show ?thesis by (intro trim_space_ends hd_trim_space last_trim_space)
qed simp

lemma trim_lower_trim [simp]: "trim_space (to_lower (trim_space s)) = to_lower (trim_space s)"
proof (cases "trim_space s = []")
  case False
  then show ?thesis using hd_trim_space [OF False] last_trim_space [OF False]
    by (intro trim_space_ends) (auto simp: hd_map last_to_lower)
qed simp

lemma lower_colon [simp]: "lower_char c = CHR '':'' \<longleftrightarrow> c = CHR '':''"
  by (auto simp: lower_char_code char_code_eq)

lemma lower_twice [simp]: "lower_char (lower_char c) = lower_char c"
  by (auto simp: lower_char_code char_code_eq)

lemma set_trim_space: "set (trim_space s) \<subseteq> set s"
  using trim_space_decomp [of s] by (metis UnCI set_append subsetI)

lemma trim_nonempty: "c \<in> set s \<Longrightarrow> \<not> is_space c \<Longrightarrow> trim_space s \<noteq> []"
  by (auto simp: trim_space_def dropWhile_eq_Nil_conv) (metis set_dropWhileD set_rev takeWhile_dropWhile_id Un_iff set_append set_takeWhileD)

lemma length_trim_space: "length (trim_space s) \<le> length s"
proof -
  obtain u v where "s = u @ trim_space s @ v" using trim_space_decomp by blast
  then have "length s = length (u @ trim_space s @ v)" by (rule arg_cong)
  then show ?thesis by simp
qed

lemma build_trimmed: "trim_space (build_canonical_id q j) = build_canonical_id q j"
proof (cases "trim_space q = [] \<or> trim_space j = []")
  case False
  then show ?thesis using hd_trim_space [of q] last_trim_space [of j]
    by (auto simp: build_canonical_id_def Let_def hd_map hd_append intro!: trim_space_ends)
qed (auto simp: build_canonical_id_def Let_def)

lemma parse_build:
  assumes "CHR '':'' \<notin> set q" and "build_canonical_id q j \<noteq> []"
  shows "parse_canonical_id (build_canonical_id q j) = Some (to_lower (trim_space q), trim_space j)"
proof -
  let ?p = "to_lower (trim_space q)"
  have b: "build_canonical_id q j = ?p @ CHR '':'' # trim_space j" and n: "?p \<noteq> []" "trim_space j \<noteq> []"
    using assms(2) by (auto simp: build_canonical_id_def Let_def split: if_splits)
  have "takeWhile (\<lambda>x. x \<noteq> CHR '':'') (?p @ CHR '':'' # trim_space j) = ?p"
    using assms(1) set_trim_space [of q] by (subst takeWhile_append2) auto
  then show ?thesis using n build_trimmed [of q j] unfolding parse_canonical_id_def b Let_def by simp
qed

lemma rebuild: "build_canonical_id (to_lower (trim_space q)) (trim_space j) = build_canonical_id q j"
  by (simp add: build_canonical_id_def Let_def comp_def)

text \<open>An entry in the canonical form admits exactly the sender with that canonical identity.\<close>

lemma canonical_entry:
  assumes "CHR '':'' \<notin> set q" and "build_canonical_id q j \<noteq> []" and "\<not> is_numeric (to_lower (trim_space q))"
    and "si_canonical_id sender \<noteq> []"
  shows "match_allowed sender (build_canonical_id q j) \<longleftrightarrow> equal_fold (si_canonical_id sender) (build_canonical_id q j)"
  using assms unfolding match_allowed_def Let_def build_trimmed by (simp add: parse_build rebuild)

definition canonical_user :: "string \<times> string \<Rightarrow> bool" where
  "canonical_user u \<longleftrightarrow>
     (case u of (q, j) \<Rightarrow> CHR '':'' \<notin> set q \<and> build_canonical_id q j \<noteq> [] \<and> \<not> is_numeric (to_lower (trim_space q)))"

lemma canonical_list:
  assumes "list_all canonical_user us" and "us \<noteq> []" and "si_canonical_id sender \<noteq> []"
  shows "sender_passes (map (\<lambda>(q, j). build_canonical_id q j) us) sender i
    \<longleftrightarrow> list_ex (\<lambda>(q, j). equal_fold (si_canonical_id sender) (build_canonical_id q j)) us"
proof -
  have "match_allowed sender (build_canonical_id q j) \<longleftrightarrow> equal_fold (si_canonical_id sender) (build_canonical_id q j)"
    if "(q, j) \<in> set us" for q j
    using assms(1) that canonical_entry [OF _ _ _ assms(3)] by (auto simp: list_all_iff canonical_user_def)
  then have "list_ex (match_allowed sender) (map (\<lambda>(q, j). build_canonical_id q j) us)
      \<longleftrightarrow> list_ex (\<lambda>(q, j). equal_fold (si_canonical_id sender) (build_canonical_id q j)) us"
    by (auto simp: list_ex_iff) force
  then show ?thesis using assms(2,3) by (simp add: sender_passes_def is_allowed_sender_def)
qed

section \<open>Properties\<close>

text \<open>
  An entry that is the platform's own identifier of a user admits that user, unless the identifier has a colon.
  The identifiers of Matrix (\<open>@user:server\<close>) have one: the entry is taken for a platform and an identity, so the user
  that it names is locked out.
\<close>

theorem matrix_user_locked_out:
  assumes "user \<noteq> []" and "CHR '':'' \<notin> set user" and "server \<noteq> []" and "\<not> is_space (last server)"
    and "entry = ''@'' @ user @ '':'' @ server"
    and "si_platform_id sender = entry" and "si_canonical_id sender = build_canonical_id ''matrix'' entry"
  shows "\<not> match_allowed sender entry"
proof -
  let ?p = "''@'' @ user"
  have at: "\<not> is_space CHR ''@''" "\<not> is_digit CHR ''@''" by code_simp+
  have t: "trim_space entry = entry" using assms(3,4) at unfolding assms(5) by (intro trim_space_ends) auto
  have "takeWhile (\<lambda>x. x \<noteq> CHR '':'') (?p @ CHR '':'' # server) = ?p" using assms(2) by (subst takeWhile_append2) auto
  then have p: "parse_canonical_id entry = Some (?p, server)"
    using assms(3) t unfolding parse_canonical_id_def Let_def assms(5) by simp
  have c: "si_canonical_id sender = ''matrix:'' @ entry"
    using t assms(7) by (simp add: build_canonical_id_def assms(5)) (simp add: trim_space_def is_space_def lower_char_def)
  have "length (build_canonical_id ?p server) \<le> length entry"
    using length_trim_space [of ?p] length_trim_space [of server] by (simp add: build_canonical_id_def Let_def assms(5))
  then have "\<not> equal_fold (si_canonical_id sender) (build_canonical_id ?p server)"
    using equal_fold_length c by fastforce
  moreover have "build_canonical_id ?p server \<noteq> []"
    using trim_nonempty [of "CHR ''@''" ?p] trim_nonempty [of "last server" server] at assms(3,4) by (simp add: build_canonical_id_def)
  ultimately show ?thesis using p t at c unfolding match_allowed_def Let_def assms(5) by (simp add: is_numeric_def)
qed

theorem matrix_user_locked_out_witness:
  "\<not> match_allowed
      \<lparr>si_platform = ''matrix'', si_platform_id = ''@ann:example.org'', si_canonical_id = build_canonical_id ''matrix'' ''@ann:example.org'',
       si_username = ''ann'', si_display_name = ''Ann''\<rparr> ''@ann:example.org''"
  by (rule matrix_user_locked_out [of "''ann''" "''example.org''"]) (simp_all add: is_space_def)

end
