(* ===== verification/ChannelManager.thy ===== *)
theory ChannelManager
  imports AllowList MessageBus MessageSplit "HOL-Library.Multiset"
begin

text \<open>
  Delivery of messages to and from chat channels: what a channel does with a message it receives
  (\<open>pkg/channels/base.go\<close>), and the manager with its dispatchers, the queue and the worker of each channel,
  retries, typing indicators and placeholders (\<open>pkg/channels/manager.go\<close>). A Go channel or a function value is
  an address or a number, since several goroutines hold the same one. Durations are in milliseconds.
\<close>

section \<open>Typing indicators, reactions and placeholders\<close>

record presence =
  pr_typing :: "(string, nat \<times> int) gomap"
  pr_reactions :: "(string, nat \<times> int) gomap"
  pr_placeholders :: "(string, string \<times> int) gomap"

datatype presence_effect = StoppedTyping nat | UndidReaction nat | EditedPlaceholder string string string

definition no_presence :: presence where
  "no_presence = \<lparr>pr_typing = [], pr_reactions = [], pr_placeholders = []\<rparr>"

definition presence_key :: "string \<Rightarrow> string \<Rightarrow> string" where
  "presence_key channel chat = channel @ '':'' @ chat"

definition record_placeholder :: "string \<Rightarrow> string \<Rightarrow> string \<Rightarrow> int \<Rightarrow> presence \<Rightarrow> presence" where
  "record_placeholder channel chat i now p = p\<lparr>pr_placeholders := mput (presence_key channel chat) (i, now) (pr_placeholders p)\<rparr>"

text \<open>The indicator that was there is stopped; a reaction or a placeholder that was there is forgotten.\<close>

definition record_typing_stop :: "string \<Rightarrow> string \<Rightarrow> nat \<Rightarrow> int \<Rightarrow> presence \<Rightarrow> presence \<times> presence_effect list" where
  "record_typing_stop channel chat stop now p =
     (p\<lparr>pr_typing := mput (presence_key channel chat) (stop, now) (pr_typing p)\<rparr>,
      case mget (pr_typing p) (presence_key channel chat) of None \<Rightarrow> [] | Some (old, t) \<Rightarrow> [StoppedTyping old])"

definition record_reaction_undo :: "string \<Rightarrow> string \<Rightarrow> nat \<Rightarrow> int \<Rightarrow> presence \<Rightarrow> presence" where
  "record_reaction_undo channel chat undo now p = p\<lparr>pr_reactions := mput (presence_key channel chat) (undo, now) (pr_reactions p)\<rparr>"

text \<open>\<open>editor\<close>: \<open>None\<close> for a channel that cannot edit messages, else whether the edit succeeds.\<close>

definition pre_send :: "string \<Rightarrow> outbound_message \<Rightarrow> bool option \<Rightarrow> presence \<Rightarrow> presence \<times> presence_effect list \<times> bool" where
  "pre_send name msg editor p =
     (let key = presence_key name (ob_chat_id msg);
          typing = (case mget (pr_typing p) key of None \<Rightarrow> [] | Some (stop, t) \<Rightarrow> [StoppedTyping stop]);
          undo = (case mget (pr_reactions p) key of None \<Rightarrow> [] | Some (u, t) \<Rightarrow> [UndidReaction u]);
          p' = p\<lparr>pr_typing := mdel key (pr_typing p), pr_reactions := mdel key (pr_reactions p),
                  pr_placeholders := mdel key (pr_placeholders p)\<rparr>
      in case mget (pr_placeholders p) key of
           Some (i, t) \<Rightarrow>
             if i \<noteq> [] \<and> editor = Some True
             then (p', typing @ undo @ [EditedPlaceholder (ob_chat_id msg) i (ob_content msg)], True)
             else (p', typing @ undo, False)
         | None \<Rightarrow> (p', typing @ undo, False))"

definition typing_stop_ttl :: int where "typing_stop_ttl = 5 * 60 * 1000"
definition placeholder_ttl :: int where "placeholder_ttl = 10 * 60 * 1000"

text \<open>One tick of the janitor.\<close>

definition janitor_tick :: "int \<Rightarrow> presence \<Rightarrow> presence \<times> presence_effect list" where
  "janitor_tick now p =
     (p\<lparr>pr_typing := filter (\<lambda>(k, stop, t). \<not> now - t > typing_stop_ttl) (pr_typing p),
        pr_reactions := filter (\<lambda>(k, u, t). \<not> now - t > typing_stop_ttl) (pr_reactions p),
        pr_placeholders := filter (\<lambda>(k, i, t). \<not> now - t > placeholder_ttl) (pr_placeholders p)\<rparr>,
      map (\<lambda>(k, stop, t). StoppedTyping stop) (filter (\<lambda>(k, stop, t). now - t > typing_stop_ttl) (pr_typing p)) @
      map (\<lambda>(k, u, t). UndidReaction u) (filter (\<lambda>(k, u, t). now - t > typing_stop_ttl) (pr_reactions p)))"

section \<open>A message that a channel receives\<close>

text \<open>\<open>\[(voice|audio)(?::[^\]]*)?\]\<close>: after the word comes the bracket, or a colon and then somewhere a bracket.\<close>

definition annotation_at :: "string \<Rightarrow> bool" where
  "annotation_at s \<longleftrightarrow>
     list_ex (\<lambda>w. prefix w s \<and> (case drop (length w) s of [] \<Rightarrow> False | c # r \<Rightarrow> c = CHR '']'' \<or> c = CHR '':'' \<and> CHR '']'' \<in> set r))
       [''[voice'', ''[audio'']"

definition has_audio_annotation :: "string \<Rightarrow> bool" where
  "has_audio_annotation s \<longleftrightarrow> list_ex annotation_at (suffixes s)"

definition build_media_scope :: "string \<Rightarrow> string \<Rightarrow> string \<Rightarrow> string \<Rightarrow> string" where
  "build_media_scope unique channel chat message_id =
     channel @ '':'' @ chat @ '':'' @ (if message_id = [] then unique else message_id)"

record channel_inbound = inbound_message +
  ci_sender_info :: sender_info
  ci_message_id :: string
  ci_media_scope :: string

text \<open>
  A channel, and what it can do: \<open>None\<close> for a capability that the platform lacks or that fails, else the stop
  function, the undo function or the identifier of the placeholder.
\<close>

record base_channel =
  bc_name :: string
  bc_allow :: "string list"
  bc_injected :: bool

record platform_env =
  pl_typing :: "nat option"
  pl_reaction :: "nat option"
  pl_placeholder :: "string option"
  pl_unique :: string
  pl_now :: int

definition note_typing :: "base_channel \<Rightarrow> platform_env \<Rightarrow> string \<Rightarrow> presence \<Rightarrow> presence \<times> presence_effect list" where
  "note_typing c env chat p =
     (case (if bc_injected c then pl_typing env else None) of
        None \<Rightarrow> (p, [])
      | Some stop \<Rightarrow> record_typing_stop (bc_name c) chat stop (pl_now env) p)"

definition note_reaction :: "base_channel \<Rightarrow> platform_env \<Rightarrow> string \<Rightarrow> string \<Rightarrow> presence \<Rightarrow> presence" where
  "note_reaction c env message_id chat p =
     (case (if bc_injected c \<and> message_id \<noteq> [] then pl_reaction env else None) of
        None \<Rightarrow> p
      | Some undo \<Rightarrow> record_reaction_undo (bc_name c) chat undo (pl_now env) p)"

definition note_placeholder :: "base_channel \<Rightarrow> platform_env \<Rightarrow> string \<Rightarrow> string \<Rightarrow> presence \<Rightarrow> presence" where
  "note_placeholder c env content chat p =
     (case (if bc_injected c \<and> \<not> has_audio_annotation content then pl_placeholder env else None) of
        None \<Rightarrow> p
      | Some i \<Rightarrow> if i \<noteq> [] then record_placeholder (bc_name c) chat i (pl_now env) p else p)"

definition handle_message ::
    "base_channel \<Rightarrow> platform_env \<Rightarrow> string \<times> string \<Rightarrow> string \<Rightarrow> string \<Rightarrow> string \<Rightarrow> string \<Rightarrow> string list \<Rightarrow> (string, string) gomap \<Rightarrow>
     sender_info \<Rightarrow> presence \<Rightarrow> presence \<times> presence_effect list \<times> channel_inbound option" where
  "handle_message c env peer message_id sender_id chat content media metadata sender p =
     (if \<not> sender_passes (bc_allow c) sender sender_id then (p, [], None)
      else
        (case note_typing c env chat p of
           (p1, fx) \<Rightarrow>
             (note_placeholder c env content chat (note_reaction c env message_id chat p1), fx,
              Some \<lparr>ib_channel = bc_name c, ib_sender = resolved_sender_id sender sender_id, ib_chat_id = chat, ib_content = content,
                    ib_media = media, ib_peer_kind = fst peer, ib_peer_id = snd peer, ib_session_key = [], ib_metadata = metadata,
                    ci_sender_info = sender, ci_message_id = message_id,
                    ci_media_scope = build_media_scope (pl_unique env) (bc_name c) chat message_id\<rparr>)))"

text \<open>The placeholder that the agent asks for after a transcription.\<close>

definition send_placeholder :: "string list \<Rightarrow> platform_env \<Rightarrow> string \<Rightarrow> string \<Rightarrow> presence \<Rightarrow> presence \<times> bool" where
  "send_placeholder channels env channel chat p =
     (case (if channel \<in> set channels then pl_placeholder env else None) of
        None \<Rightarrow> (p, False)
      | Some i \<Rightarrow> if i = [] then (p, False) else (record_placeholder channel chat i (pl_now env) p, True))"

section \<open>Sending with retries\<close>

datatype send_result = SendOk | NotRunning | SendFailed | RateLimited | OtherFailure

definition classify_send_error :: "nat \<Rightarrow> send_result" where
  "classify_send_error status =
     (if status = 429 then RateLimited else if status \<ge> 500 then OtherFailure else if status \<ge> 400 then SendFailed else OtherFailure)"

datatype send_outcome = Sent | GaveUp send_result | SendCancelled

definition max_send_retries :: nat where "max_send_retries = 3"
definition rate_limit_delay :: int where "rate_limit_delay = 1000"

definition backoff :: "nat \<Rightarrow> int" where
  "backoff attempt = min (500 * 2 ^ attempt) 8000"

text \<open>
  The loop over the attempts: \<open>res\<close> answers the attempts in turn, \<open>canc\<close> tells whether the context ends during
  the wait after one. The result has the answers that were seen and the waits.
\<close>

fun send_attempts :: "nat \<Rightarrow> nat \<Rightarrow> (nat \<Rightarrow> send_result) \<Rightarrow> (nat \<Rightarrow> bool) \<Rightarrow> send_outcome \<times> send_result list \<times> int list" where
  "send_attempts left n res canc =
     (case res n of
        SendOk \<Rightarrow> (Sent, [SendOk], [])
      | NotRunning \<Rightarrow> (GaveUp NotRunning, [NotRunning], [])
      | SendFailed \<Rightarrow> (GaveUp SendFailed, [SendFailed], [])
      | e \<Rightarrow>
          (case left of
             0 \<Rightarrow> (GaveUp e, [e], [])
           | Suc k \<Rightarrow>
               if canc n then (SendCancelled, [e], [])
               else (case send_attempts k (Suc n) res canc of
                       (out, tries, waits) \<Rightarrow>
                         (out, e # tries, (if e = RateLimited then rate_limit_delay else backoff n) # waits))))"

declare send_attempts.simps [simp del]

record send_env =
  se_token :: bool
  se_editor :: "bool option"
  se_results :: "nat \<Rightarrow> send_result"
  se_cancelled :: "nat \<Rightarrow> bool"

text \<open>\<open>se_token\<close>: whether the rate limiter lets the message through before the context ends.\<close>

definition send_with_retry ::
    "string \<Rightarrow> send_env \<Rightarrow> outbound_message \<Rightarrow> presence \<Rightarrow> presence \<times> presence_effect list \<times> send_outcome \<times> send_result list" where
  "send_with_retry name env msg p =
     (if \<not> se_token env then (p, [], SendCancelled, [])
      else
        (case pre_send name msg (se_editor env) p of
           (p', fx, edited) \<Rightarrow>
             if edited then (p', fx, Sent, [])
             else (case send_attempts max_send_retries 0 (se_results env) (se_cancelled env) of
                     (out, tries, waits) \<Rightarrow> (p', fx, out, tries))))"

text \<open>The messages that a worker makes of one message; \<open>None\<close> when splitting does not return.\<close>

definition message_chunks :: "int \<Rightarrow> outbound_message \<Rightarrow> outbound_message list option" where
  "message_chunks max_len msg =
     (if max_len > 0 \<and> int (length (runes (ob_content msg))) > max_len
      then map_option (map (\<lambda>chunk. msg\<lparr>ob_content := chunk\<rparr>)) (split_message (ob_content msg) max_len)
      else Some [msg])"

fun send_chunks ::
    "string \<Rightarrow> (outbound_message \<times> send_env) list \<Rightarrow> presence \<Rightarrow> presence \<times> presence_effect list \<times> (string \<times> send_outcome) list" where
  "send_chunks name [] p = (p, [], [])"
| "send_chunks name ((msg, env) # rest) p =
     (case send_with_retry name env msg p of
        (p1, fx1, out, tries) \<Rightarrow>
          (case send_chunks name rest p1 of
             (p2, fx2, outs) \<Rightarrow> (p2, fx1 @ fx2, (ob_content msg, out) # outs)))"

definition worker_send ::
    "string \<Rightarrow> int \<Rightarrow> (nat \<Rightarrow> send_env) \<Rightarrow> outbound_message \<Rightarrow> presence \<Rightarrow>
     (presence \<times> presence_effect list \<times> (string \<times> send_outcome) list) option" where
  "worker_send name max_len envs msg p =
     (case message_chunks max_len msg of
        None \<Rightarrow> None
      | Some cs \<Rightarrow> Some (send_chunks name (zip cs (map envs [0..<length cs])) p))"

text \<open>Media has no placeholders; a channel without \<open>MediaSender\<close> drops it.\<close>

definition send_media_with_retry :: "bool \<Rightarrow> send_env \<Rightarrow> (send_outcome \<times> send_result list) option" where
  "send_media_with_retry media_sender env =
     (if \<not> media_sender then None
      else if \<not> se_token env then Some (SendCancelled, [])
      else (case send_attempts max_send_retries 0 (se_results env) (se_cancelled env) of (out, tries, waits) \<Rightarrow> Some (out, tries)))"


section \<open>Histories\<close>

text \<open>
  What reaches the table of indicators: a message received, a message sent (with the environment of its
  sending), the placeholder after a transcription, and a tick of the janitor.
\<close>

datatype presence_op =
    Receive base_channel platform_env string string string sender_info
  | Deliver string send_env outbound_message
  | AskPlaceholder "string list" platform_env string string
  | Tick int

fun presence_step :: "presence_op \<Rightarrow> presence \<Rightarrow> presence \<times> presence_effect list" where
  "presence_step (Receive c env message_id chat content sender) p =
     (case handle_message c env ([], []) message_id [] chat content [] [] sender p of (p', fx, m) \<Rightarrow> (p', fx))"
| "presence_step (Deliver name env msg) p = (case send_with_retry name env msg p of (p', fx, out) \<Rightarrow> (p', fx))"
| "presence_step (AskPlaceholder channels env channel chat) p = (fst (send_placeholder channels env channel chat p), [])"
| "presence_step (Tick now) p = janitor_tick now p"

fun presence_run :: "presence_op list \<Rightarrow> presence \<Rightarrow> presence \<times> presence_effect list" where
  "presence_run [] p = (p, [])"
| "presence_run (x # xs) p =
     (case presence_step x p of (p1, fx1) \<Rightarrow> (case presence_run xs p1 of (p2, fx2) \<Rightarrow> (p2, fx1 @ fx2)))"

text \<open>The typing indicators that were started, stopped and are still on.\<close>

fun started_by :: "presence_op \<Rightarrow> nat list" where
  "started_by (Receive c env message_id chat content sender) =
     (if sender_passes (bc_allow c) sender [] \<and> bc_injected c then (case pl_typing env of None \<Rightarrow> [] | Some stop \<Rightarrow> [stop]) else [])"
| "started_by _ = []"

definition stopped_in :: "presence_effect list \<Rightarrow> nat list" where
  "stopped_in fx = List.map_filter (\<lambda>e. case e of StoppedTyping n \<Rightarrow> Some n | _ \<Rightarrow> None) fx"

definition undone_in :: "presence_effect list \<Rightarrow> nat list" where
  "undone_in fx = List.map_filter (\<lambda>e. case e of UndidReaction n \<Rightarrow> Some n | _ \<Rightarrow> None) fx"

lemma stopped_in_simps [simp]:
  "stopped_in [] = []" "stopped_in (xs @ ys) = stopped_in xs @ stopped_in ys"
  "stopped_in (StoppedTyping n # xs) = n # stopped_in xs" "stopped_in (UndidReaction n # xs) = stopped_in xs"
  "stopped_in (EditedPlaceholder a b c # xs) = stopped_in xs"
  by (simp_all add: stopped_in_def map_filter_def)

lemma undone_in_simps [simp]:
  "undone_in [] = []" "undone_in (xs @ ys) = undone_in xs @ undone_in ys"
  "undone_in (StoppedTyping n # xs) = undone_in xs" "undone_in (UndidReaction n # xs) = n # undone_in xs"
  "undone_in (EditedPlaceholder a b c # xs) = undone_in xs"
  by (simp_all add: undone_in_def map_filter_def)

definition typing_now :: "presence \<Rightarrow> nat multiset" where
  "typing_now p = mset (map (fst \<circ> snd) (pr_typing p))"

definition at_key :: "('k \<times> 'v) list \<Rightarrow> 'k \<Rightarrow> 'v multiset" where
  "at_key m k = (case mget m k of None \<Rightarrow> {#} | Some w \<Rightarrow> {#w#})"

lemma absent_key: "k \<notin> fst ` set m \<Longrightarrow> at_key m k = {#}"
  by (simp add: at_key_def map_of_eq_None_iff [symmetric])

lemma values_mput: "wf_map m \<Longrightarrow> mset (map snd (mput k v m)) + at_key m k = add_mset v (mset (map snd m))"
proof (induction m)
  case (Cons x m)
  then have "wf_map m" "fst x \<notin> fst ` set m" by (auto simp: wf_map_def)
  then show ?case using Cons.IH by (cases x; cases "fst x = k") (simp_all add: at_key_def)
qed (simp add: at_key_def)

lemma values_mdel: "wf_map m \<Longrightarrow> mset (map snd (mdel k m)) + at_key m k = mset (map snd m)"
proof (induction m)
  case (Cons x m)
  then have m: "wf_map m" "fst x \<notin> fst ` set m" by (auto simp: wf_map_def)
  have "mdel k m = m" if "fst x = k" using AList.delete_idem [of "fst x" m] m(2) that by simp
  then show ?case using Cons.IH [OF m(1)] absent_key [OF m(2)] by (cases x; cases "fst x = k") (simp_all add: at_key_def AList.delete_eq)
qed (simp add: at_key_def)

lemma values_filter: "mset (map snd (filter P m)) + mset (map snd (filter (\<lambda>x. \<not> P x) m)) = mset (map snd m)"
  by (induction m) auto

text \<open>Every step keeps the count.\<close>

definition counted :: "presence \<Rightarrow> presence \<times> presence_effect list \<Rightarrow> nat list \<Rightarrow> bool" where
  "counted p r new \<longleftrightarrow> wf_map (pr_typing (fst r)) \<and> mset new + typing_now p = mset (stopped_in (snd r)) + typing_now (fst r)"

lemma typing_image: "typing_now p = image_mset fst (mset (map snd (pr_typing p)))"
  by (simp add: typing_now_def multiset.map_comp)

lemma record_counted: "wf_map (pr_typing p) \<Longrightarrow> counted p (record_typing_stop channel chat stop now p) [stop]"
  using values_mput [of "pr_typing p" "presence_key channel chat" "(stop, now)", THEN arg_cong [of _ _ "image_mset fst"]]
  by (auto simp: counted_def record_typing_stop_def typing_image at_key_def split: option.splits)

lemma pre_send_counted:
  "wf_map (pr_typing p) \<Longrightarrow> counted p (fst (pre_send name msg ed p), fst (snd (pre_send name msg ed p))) []"
  using values_mdel [of "pr_typing p" "presence_key name (ob_chat_id msg)", THEN arg_cong [of _ _ "image_mset fst"]]
  by (auto simp: counted_def pre_send_def typing_image at_key_def Let_def split: option.splits)

lemma stopped_map: "stopped_in (map (\<lambda>(k, stop, t). StoppedTyping stop) xs) = map (fst \<circ> snd) xs"
  "stopped_in (map (\<lambda>(k, stop, t). UndidReaction stop) ys) = []"
  by (induction xs; simp add: case_prod_beta) (induction ys; simp add: case_prod_beta)

lemma tick_counted: "wf_map (pr_typing p) \<Longrightarrow> counted p (janitor_tick now p) []"
  using values_filter [of "\<lambda>(k, stop, t). now - t > typing_stop_ttl" "pr_typing p", THEN arg_cong [of _ _ "image_mset fst"]]
  by (simp add: counted_def janitor_tick_def typing_image stopped_map case_prod_beta multiset.map_comp)

lemma typing_frame [simp]:
  "pr_typing (note_reaction c env i chat p) = pr_typing p" "pr_typing (note_placeholder c env content chat p) = pr_typing p"
  "pr_typing (fst (send_placeholder cs env c' chat p)) = pr_typing p"
  by (simp_all add: note_reaction_def note_placeholder_def record_reaction_undo_def record_placeholder_def send_placeholder_def
      split: option.split)

lemma counted_frame: "counted p (p1, fx) new \<Longrightarrow> pr_typing p2 = pr_typing p1 \<Longrightarrow> counted p (p2, fx) new"
  by (simp add: counted_def typing_now_def)

lemma counted_same: "wf_map (pr_typing p) \<Longrightarrow> pr_typing p' = pr_typing p \<Longrightarrow> counted p (p', []) []"
  by (simp add: counted_def typing_now_def)

lemma receive_counted:
  assumes "wf_map (pr_typing p)"
  shows "counted p (presence_step (Receive c env message_id chat content sender) p) (started_by (Receive c env message_id chat content sender))"
proof -
  have "counted p (note_typing c env chat p) (if bc_injected c then (case pl_typing env of None \<Rightarrow> [] | Some stop \<Rightarrow> [stop]) else [])"
    using record_counted [OF assms] counted_same [OF assms] by (auto simp: note_typing_def split: option.split)
  then show ?thesis using counted_frame counted_same [OF assms]
    by (auto simp: handle_message_def split: prod.split)
qed

lemma deliver_counted: "wf_map (pr_typing p) \<Longrightarrow> counted p (presence_step (Deliver name env msg) p) []"
  using pre_send_counted [of p name msg "se_editor env"]
  by (auto simp: send_with_retry_def intro: counted_same split: prod.split)

lemma step_counted: "wf_map (pr_typing p) \<Longrightarrow> counted p (presence_step x p) (started_by x)"
  by (cases x) (simp_all del: presence_step.simps(1,2) started_by.simps(1) add: receive_counted deliver_counted tick_counted counted_same)

lemma run_counted: "wf_map (pr_typing p) \<Longrightarrow> counted p (presence_run xs p) (concat (map started_by xs))"
proof (induction xs arbitrary: p)
  case (Cons x xs)
  obtain p1 fx1 where 1: "presence_step x p = (p1, fx1)" by fastforce
  obtain p2 fx2 where 2: "presence_run xs p1 = (p2, fx2)" by fastforce
  have c: "counted p (p1, fx1) (started_by x)" using step_counted [OF Cons.prems, of x] 1 by simp
  then have "counted p1 (p2, fx2) (concat (map started_by xs))" using Cons.IH [of p1] 2 by (simp add: counted_def)
  then show ?case using c 1 2 by (simp add: counted_def) (metis add.assoc add.commute)
qed (simp add: counted_def)

lemma run_append:
  "presence_run (xs @ ys) p = (case presence_run xs p of (p1, fx1) \<Rightarrow> (case presence_run ys p1 of (p2, fx2) \<Rightarrow> (p2, fx1 @ fx2)))"
  by (induction xs arbitrary: p) (auto split: prod.split)

section \<open>Properties of the indicators\<close>

text \<open>
  Typing indicators are neither lost nor stopped twice: in every history of received and sent messages each
  indicator that was started has been stopped once or is still registered, and a tick of the janitor leaves
  none that is older than five minutes.
\<close>

theorem typing_stopped_once:
  "case presence_run (ops @ [Tick now]) no_presence of
     (p, fx) \<Rightarrow>
       mset (concat (map started_by ops)) = mset (stopped_in fx) + typing_now p
       \<and> list_all (\<lambda>(k, stop, t). now - t \<le> 5 * 60 * 1000) (pr_typing p)"
proof -
  obtain p1 fx1 where 1: "presence_run ops no_presence = (p1, fx1)" by fastforce
  have "counted no_presence (presence_run (ops @ [Tick now]) no_presence) (concat (map started_by (ops @ [Tick now])))"
    by (rule run_counted) (simp add: no_presence_def)
  moreover obtain p2 fx2 where 2: "janitor_tick now p1 = (p2, fx2)" by fastforce
  moreover have "list_all (\<lambda>(k, stop, t). now - t \<le> 5 * 60 * 1000) (pr_typing (fst (janitor_tick now p1)))"
    by (auto simp: janitor_tick_def typing_stop_ttl_def list_all_iff)
  ultimately show ?thesis using 1 by (simp add: run_append counted_def typing_now_def no_presence_def)
qed

text \<open>Which reactions a step registers.\<close>

fun reacts_with :: "nat \<Rightarrow> presence_op \<Rightarrow> bool" where
  "reacts_with u (Receive c env message_id chat content sender) \<longleftrightarrow> pl_reaction env = Some u"
| "reacts_with u _ \<longleftrightarrow> False"

definition reaction_gone :: "nat \<Rightarrow> presence \<Rightarrow> bool" where
  "reaction_gone u p \<longleftrightarrow> u \<notin> (fst \<circ> snd) ` set (pr_reactions p)"

lemma gone_mput: "u \<notin> (fst \<circ> snd) ` set m \<Longrightarrow> fst v \<noteq> u \<Longrightarrow> u \<notin> (fst \<circ> snd) ` set (mput k v m)"
  by (induction m) (auto split: if_splits)

lemma gone_mdel: "u \<notin> (fst \<circ> snd) ` set m \<Longrightarrow> u \<notin> (fst \<circ> snd) ` set (mdel k m)"
  by (auto simp: AList.delete_eq)

lemma gone_record [simp]:
  "reaction_gone u (fst (record_typing_stop c ch n t p)) = reaction_gone u p"
  "reaction_gone u (record_placeholder c ch i t p) = reaction_gone u p"
  "undone_in (snd (record_typing_stop c ch n t p)) = []"
  by (simp_all add: reaction_gone_def record_typing_stop_def record_placeholder_def split: option.split)

lemma gone_undo: "reaction_gone u p \<Longrightarrow> v \<noteq> u \<Longrightarrow> reaction_gone u (record_reaction_undo c ch v t p)"
  using gone_mput [of u "pr_reactions p" "(v, t)"] by (simp add: reaction_gone_def record_reaction_undo_def)

lemma gone_notes:
  "reaction_gone u (fst (note_typing c env chat p)) = reaction_gone u p" "undone_in (snd (note_typing c env chat p)) = []"
  "reaction_gone u (note_placeholder c env content chat p) = reaction_gone u p"
  "pl_reaction env \<noteq> Some u \<Longrightarrow> reaction_gone u p \<Longrightarrow> reaction_gone u (note_reaction c env i chat p)"
  by (simp_all add: note_typing_def note_placeholder_def note_reaction_def split: option.split) (metis gone_undo)

lemma gone_receive:
  assumes "reaction_gone u p" and "pl_reaction env \<noteq> Some u"
  shows "reaction_gone u (fst (handle_message c env peer mid sid chat content md meta sender p))
    \<and> undone_in (fst (snd (handle_message c env peer mid sid chat content md meta sender p))) = []"
proof -
  obtain p1 fx where 1: "note_typing c env chat p = (p1, fx)" by fastforce
  then have "reaction_gone u p1" "undone_in fx = []"
    using assms(1) gone_notes(1) [of u c env chat p] gone_notes(2) [of c env chat p] by simp_all
  then show ?thesis using 1 assms gone_notes(4) [OF assms(2)] by (simp add: handle_message_def gone_notes(3))
qed

lemma pre_send_reactions:
  "pr_reactions (fst (pre_send name msg ed p)) = mdel (presence_key name (ob_chat_id msg)) (pr_reactions p)"
  "undone_in (fst (snd (pre_send name msg ed p))) =
     (case mget (pr_reactions p) (presence_key name (ob_chat_id msg)) of None \<Rightarrow> [] | Some (u, t) \<Rightarrow> [u])"
  by (simp_all add: pre_send_def Let_def split: option.split)

lemma gone_pre_send:
  "reaction_gone u p \<Longrightarrow> reaction_gone u (fst (pre_send name msg ed p)) \<and> u \<notin> set (undone_in (fst (snd (pre_send name msg ed p))))"
  using gone_mdel [of u "pr_reactions p"] map_of_SomeD [of "pr_reactions p" "presence_key name (ob_chat_id msg)"]
  by (cases "mget (pr_reactions p) (presence_key name (ob_chat_id msg))")
    (force simp: reaction_gone_def pre_send_reactions)+

lemma undone_map: "undone_in (map (\<lambda>(k, stop, t). StoppedTyping stop) xs) = []"
  "undone_in (map (\<lambda>(k, stop, t). UndidReaction stop) ys) = map (fst \<circ> snd) ys"
  by (induction xs; simp add: case_prod_beta) (induction ys; simp add: case_prod_beta)

lemma gone_step:
  assumes "reaction_gone u p" and "\<not> reacts_with u x"
  shows "reaction_gone u (fst (presence_step x p)) \<and> u \<notin> set (undone_in (snd (presence_step x p)))"
proof (cases x)
  case (Receive c env message_id chat content sender)
  then show ?thesis using gone_receive [OF assms(1), of env c "([], [])" message_id "[]" chat content "[]" "[]" sender] assms(2)
    by (auto split: prod.split)
next
  case (Deliver name env msg)
  then show ?thesis using gone_pre_send [OF assms(1), of name msg "se_editor env"] assms(1)
    by (auto simp: send_with_retry_def split: prod.split)
next
  case (AskPlaceholder channels env channel chat)
  then show ?thesis using assms(1) by (simp add: send_placeholder_def split: option.split)
next
  case (Tick now)
  then show ?thesis using assms(1) by (auto simp: janitor_tick_def reaction_gone_def undone_map image_iff)
qed

lemma gone_run:
  "reaction_gone u p \<Longrightarrow> list_all (\<lambda>x. \<not> reacts_with u x) xs \<Longrightarrow> u \<notin> set (undone_in (snd (presence_run xs p)))"
proof (induction xs arbitrary: p)
  case (Cons x xs)
  obtain p1 fx1 where 1: "presence_step x p = (p1, fx1)" by fastforce
  obtain p2 fx2 where 2: "presence_run xs p1 = (p2, fx2)" by fastforce
  show ?case using gone_step [OF Cons.prems(1), of x] Cons.IH [of p1] Cons.prems(2) 1 2 by simp
qed simp

lemma receive_reactions:
  assumes "sender_passes (bc_allow c) sender sid" and "bc_injected c" and "mid \<noteq> []" and "pl_reaction env = Some u"
  shows "pr_reactions (fst (handle_message c env peer mid sid chat content md meta sender p)) =
    mput (presence_key (bc_name c) chat) (u, pl_now env) (pr_reactions p)"
  using assms
  by (simp add: handle_message_def note_typing_def note_reaction_def note_placeholder_def record_typing_stop_def
      record_reaction_undo_def record_placeholder_def split: option.split)

text \<open>
  When a second message arrives in a chat before the first is answered, the reaction to the first is never taken
  back: the manager keeps one undo function per chat and overwrites it, whatever happens afterwards.
\<close>

theorem first_reaction_stays:
  assumes "sender_passes (bc_allow c) sender []" and "bc_injected c" and "id1 \<noteq> []" and "id2 \<noteq> []"
    and "pl_reaction env1 = Some u" and "pl_reaction env2 = Some v" and "u \<noteq> v"
    and "list_all (\<lambda>x. \<not> reacts_with u x) ops"
  shows "u \<notin> set (undone_in (snd (presence_run
      (Receive c env1 id1 chat text1 sender # Receive c env2 id2 chat text2 sender # ops) no_presence)))"
proof -
  obtain p1 fx1 where 1: "presence_step (Receive c env1 id1 chat text1 sender) no_presence = (p1, fx1)" by fastforce
  obtain p2 fx2 where 2: "presence_step (Receive c env2 id2 chat text2 sender) p1 = (p2, fx2)" by fastforce
  have f: "undone_in fx1 = []" "undone_in fx2 = []"
    using gone_notes(2) 1 2 assms(1) by (auto simp: handle_message_def split: prod.splits) (metis snd_conv)+
  have "pr_reactions p1 = [(presence_key (bc_name c) chat, u, pl_now env1)]"
    using receive_reactions [OF assms(1-3,5), of "([], [])" chat text1 "[]" "[]" no_presence] 1 by (auto simp: no_presence_def split: prod.splits)
  then have "pr_reactions p2 = [(presence_key (bc_name c) chat, v, pl_now env2)]"
    using receive_reactions [OF assms(1,2,4,6), of "([], [])" chat text2 "[]" "[]" p1] 2 by (auto split: prod.splits)
  then have "reaction_gone u p2" using assms(7) by (simp add: reaction_gone_def)
  then have "u \<notin> set (undone_in (snd (presence_run ops p2)))" using assms(8) by (rule gone_run)
  then show ?thesis using 1 2 f by (cases "presence_run ops p2") (simp del: presence_step.simps(1))
qed

definition sample_channel :: base_channel where
  "sample_channel = \<lparr>bc_name = ''slack'', bc_allow = [], bc_injected = True\<rparr>"

definition sample_platform :: "nat \<Rightarrow> platform_env" where
  "sample_platform u = \<lparr>pl_typing = None, pl_reaction = Some u, pl_placeholder = None, pl_unique = ''x'', pl_now = 0\<rparr>"

definition nobody :: sender_info where
  "nobody = \<lparr>si_platform = [], si_platform_id = [], si_canonical_id = [], si_username = [], si_display_name = []\<rparr>"

theorem first_reaction_stays_witness:
  "1 \<notin> set (undone_in (snd (presence_run
      (Receive sample_channel (sample_platform 1) ''m1'' ''C7'' ''hi'' nobody # Receive sample_channel (sample_platform 2) ''m2'' ''C7'' ''there'' nobody
        # [Tick 400000]) no_presence)))"
  by (rule first_reaction_stays [where v = 2])
    (simp_all add: sample_channel_def sample_platform_def nobody_def sender_passes_def is_allowed_def)

section \<open>Retries\<close>

text \<open>The first attempt that ends the loop: an answer that is not retried, or the last one.\<close>

definition settled :: "send_result \<Rightarrow> bool" where
  "settled r \<longleftrightarrow> r = SendOk \<or> r = NotRunning \<or> r = SendFailed"

fun last_attempt :: "nat \<Rightarrow> nat \<Rightarrow> (nat \<Rightarrow> send_result) \<Rightarrow> nat" where
  "last_attempt 0 n res = n"
| "last_attempt (Suc k) n res = (if settled (res n) then n else last_attempt k (Suc n) res)"

lemma last_attempt_le: "n \<le> last_attempt k n res \<and> last_attempt k n res \<le> n + k"
  by (induction k arbitrary: n) (auto, (metis Suc_leD add_Suc_right add_Suc)+)

lemma attempts_uncancelled:
  assumes "\<And>i. \<not> canc i"
  shows "send_attempts k n res canc =
    (if res (last_attempt k n res) = SendOk then Sent else GaveUp (res (last_attempt k n res)),
     map res [n..<Suc (last_attempt k n res)],
     map (\<lambda>i. if res i = RateLimited then rate_limit_delay else backoff i) [n..<last_attempt k n res])"
proof (induction k arbitrary: n)
  case 0
  then show ?case by (subst send_attempts.simps) (cases "res n"; simp)
next
  case (Suc k)
  show ?case
  proof (cases "settled (res n)")
    case True
    then show ?thesis by (subst send_attempts.simps) (auto simp: settled_def)
  next
    case False
    have le: "Suc n \<le> last_attempt k (Suc n) res" using last_attempt_le by blast
    have "send_attempts (Suc k) n res canc =
        (case send_attempts k (Suc n) res canc of
           (out, tries, waits) \<Rightarrow> (out, res n # tries, (if res n = RateLimited then rate_limit_delay else backoff n) # waits))"
      using False assms by (subst send_attempts.simps) (cases "res n"; simp add: settled_def)
    then show ?thesis using False le unfolding Suc.IH by (simp add: upt_conv_Cons [of n])
  qed
qed

text \<open>
  Sending is bounded and retries only what may pass: while the context lives, the attempts go on exactly until one
  succeeds, one fails for good or four were made; the message counts as sent exactly if the last one succeeded, and
  the waits together take at most four seconds.
\<close>

theorem retries_bounded:
  "case send_attempts max_send_retries 0 res (\<lambda>i. False) of
     (out, tries, waits) \<Rightarrow>
       (\<exists>n. n \<le> 3 \<and> tries = map res [0..<Suc n] \<and> list_all (\<lambda>i. \<not> settled (res i)) [0..<n]
          \<and> (settled (res n) \<or> n = 3) \<and> out = (if res n = SendOk then Sent else GaveUp (res n)))
       \<and> sum_list waits \<le> 4000"
proof -
  let ?n = "last_attempt 3 0 res"
  have n: "?n \<le> 3" using last_attempt_le [of 0 3 res] by simp
  have e: "settled (res ?n) \<or> ?n = 3" "list_all (\<lambda>i. \<not> settled (res i)) [0..<?n]"
    by (simp_all add: numeral_3_eq_3 upt_rec)
  have "?n = 0 \<or> ?n = 1 \<or> ?n = 2 \<or> ?n = 3" using n by arith
  then have "sum_list (map (\<lambda>i. if res i = RateLimited then rate_limit_delay else backoff i) [0..<?n]) \<le> 4000"
    by (elim disjE) (simp_all add: upt_rec rate_limit_delay_def backoff_def)
  then show ?thesis using n e attempts_uncancelled [of "\<lambda>i. False" max_send_retries 0 res] by (auto simp: max_send_retries_def)
qed

section \<open>The allow list at the door\<close>

text \<open>
  With an allow list of canonical identities a channel hands a message to the bus exactly if its sender, which has
  a canonical identity, is one of the listed users (up to the case of letters); all others leave no trace.
\<close>

theorem only_listed_users_heard:
  assumes "list_all canonical_user us" and "us \<noteq> []" and "si_canonical_id sender \<noteq> []"
    and "bc_allow c = map (\<lambda>(q, j). build_canonical_id q j) us"
  shows "(case handle_message c env peer mid sid chat content media meta sender p of
      (p', fx, None) \<Rightarrow> p' = p \<and> fx = [] \<and> \<not> list_ex (\<lambda>(q, j). equal_fold (si_canonical_id sender) (build_canonical_id q j)) us
    | (p', fx, Some m) \<Rightarrow> ib_sender m = si_canonical_id sender
        \<and> list_ex (\<lambda>(q, j). equal_fold (si_canonical_id sender) (build_canonical_id q j)) us)"
  using canonical_list [OF assms(1-3), of sid] assms(3)
  by (auto simp: handle_message_def assms(4) resolved_sender_id_def split: prod.split)

theorem only_listed_users_heard_witness:
  "(case handle_message \<lparr>bc_name = ''telegram'', bc_allow = [build_canonical_id ''telegram'' ''42''], bc_injected = False\<rparr>
        (sample_platform 1) ([], []) ''m1'' ''9'' ''9'' ''hi'' [] []
        \<lparr>si_platform = ''telegram'', si_platform_id = ''9'', si_canonical_id = ''telegram:9'', si_username = ''42'', si_display_name = []\<rparr> no_presence of
      (p', fx, None) \<Rightarrow> p' = no_presence \<and> fx = [] \<and> \<not> list_ex (\<lambda>(q, j). equal_fold ''telegram:9'' (build_canonical_id q j)) [(''telegram'', ''42'')]
    | (p', fx, Some m) \<Rightarrow> ib_sender m = ''telegram:9'' \<and> list_ex (\<lambda>(q, j). equal_fold ''telegram:9'' (build_canonical_id q j)) [(''telegram'', ''42'')])"
proof -
  have "list_all canonical_user [(''telegram'', ''42'')]" by code_simp
  then show ?thesis
    using only_listed_users_heard [where us = "[(''telegram'', ''42'')]" and p = no_presence and env = "sample_platform 1"
        and sender = "\<lparr>si_platform = ''telegram'', si_platform_id = ''9'', si_canonical_id = ''telegram:9'', si_username = ''42'', si_display_name = []\<rparr>"
        and c = "\<lparr>bc_name = ''telegram'', bc_allow = [build_canonical_id ''telegram'' ''42''], bc_injected = False\<rparr>"
        and peer = "([], [])" and mid = "''m1''" and sid = "''9''" and chat = "''9''" and content = "''hi''" and media = "[]" and meta = "[]"]
    by (simp only: sender_info.simps base_channel.simps list.map prod.case list.distinct simp_thms)
qed

end
