(* ===== verification/ChannelQueues.thy ===== *)
theory ChannelQueues
  imports ChannelManager
begin

text \<open>
  The goroutines of the channel manager (\<open>pkg/channels/manager.go\<close>): dispatchers that take messages from the bus,
  callers of \<open>SendToChannel\<close>, the two workers of every channel, and the operations that start and stop them. A
  step is a section between two points where another goroutine can get in. A queue is an object with an
  address: a dispatcher that has looked up a worker holds its queue while the worker is taken away.
\<close>

section \<open>State\<close>

record channel_queue =
  wq_items :: "bus_message list"
  wq_closed :: bool
  wq_exited :: bool
  wq_context :: nat

datatype queue_sender = Dispatcher nat bus_lane | Caller nat

datatype manager_lock = Unlocked | UnregisterText string | UnregisterMedia string | StopText | StopMedia

text \<open>
  \<open>cm_workers\<close>: the addresses of the queues for text and media. \<open>cm_context\<close>: the number of the context that the last
  \<open>StartAll\<close> made, none before the first one and after \<open>StopAll\<close>; \<open>cm_started\<close> counts them. \<open>cm_pending\<close>: a goroutine
  that holds a queue and waits to put its message there. \<open>cm_crashed\<close>: the program has panicked.
\<close>

record channel_manager =
  cm_channels :: "string list"
  cm_workers :: "(string, nat \<times> nat) gomap"
  cm_queues :: "channel_queue list"
  cm_context :: "nat option"
  cm_started :: nat
  cm_cancelled :: "nat list"
  cm_pending :: "(queue_sender, nat \<times> bus_message) gomap"
  cm_ended :: "queue_sender list"
  cm_lock :: manager_lock
  cm_crashed :: bool

definition new_channel_manager :: "string list \<Rightarrow> channel_manager" where
  "new_channel_manager channels =
     \<lparr>cm_channels = channels, cm_workers = [], cm_queues = [], cm_context = None, cm_started = 0, cm_cancelled = [],
      cm_pending = [], cm_ended = [], cm_lock = Unlocked, cm_crashed = False\<rparr>"

definition default_channel_queue_size :: nat where "default_channel_queue_size = 16"

fun message_channel :: "bus_message \<Rightarrow> string" where
  "message_channel (InMsg m) = ib_channel m"
| "message_channel (OutMsg m) = ob_channel m"
| "message_channel (MediaMsg m) = xm_channel m"

definition queue_for :: "bus_message \<Rightarrow> channel_manager \<Rightarrow> nat option" where
  "queue_for m s =
     map_option (\<lambda>(text, media). if lane_of m = OutboundMedia then media else text) (mget (cm_workers s) (message_channel m))"

definition set_queue :: "nat \<Rightarrow> channel_queue \<Rightarrow> channel_manager \<Rightarrow> channel_manager" where
  "set_queue a q s = s\<lparr>cm_queues := (cm_queues s)[a := q]\<rparr>"

text \<open>Closing a Go channel twice panics.\<close>

definition close_queue :: "nat \<Rightarrow> channel_manager \<Rightarrow> channel_manager" where
  "close_queue a s =
     (if wq_closed (cm_queues s ! a) then s\<lparr>cm_crashed := True\<rparr> else set_queue a ((cm_queues s ! a)\<lparr>wq_closed := True\<rparr>) s)"

definition close_queues :: "nat list \<Rightarrow> channel_manager \<Rightarrow> channel_manager" where
  "close_queues as s = fold close_queue as s"

definition all_exited :: "nat list \<Rightarrow> channel_manager \<Rightarrow> bool" where
  "all_exited as s \<longleftrightarrow> list_all (\<lambda>a. wq_exited (cm_queues s ! a)) as"

definition new_worker :: "nat \<Rightarrow> string \<Rightarrow> channel_manager \<Rightarrow> channel_manager" where
  "new_worker ctx name s =
     (let q = \<lparr>wq_items = [], wq_closed = False, wq_exited = False, wq_context = ctx\<rparr>; n = length (cm_queues s) in
      s\<lparr>cm_queues := cm_queues s @ [q, q], cm_workers := mput name (n, Suc n) (cm_workers s)\<rparr>)"

section \<open>Steps\<close>

text \<open>
  \<open>Dispatch c m\<close>: the dispatcher of context \<open>c\<close> takes \<open>m\<close> from the bus and looks up its worker; it ends when the
  bus or its context is closed. \<open>ContextEnd\<close>: the caller of \<open>StartAll\<close> cancels the context it gave. \<open>SendTo k m\<close>: caller \<open>k\<close>
  of \<open>SendToChannel\<close> does the lookup. \<open>Enqueue\<close>, \<open>SenderCancel\<close>: the two cases of their \<open>select\<close>; when several are
  ready any of them is taken. \<open>WorkerTake\<close>, \<open>WorkerExit\<close>: the worker of a queue.
\<close>

datatype manager_action =
    Dispatch nat bus_message
  | DispatcherEnd nat bus_lane
  | ContextEnd nat
  | SendTo nat bus_message
  | Enqueue queue_sender
  | SenderCancel queue_sender
  | WorkerTake nat
  | WorkerExit nat
  | RegisterChannel string
  | StartAll "string list"
  | StopAll
  | StopTextDone
  | StopMediaDone
  | Unregister string
  | UnregisterTextDone
  | UnregisterMediaDone

definition queue_cancelled :: "nat \<Rightarrow> channel_manager \<Rightarrow> bool" where
  "queue_cancelled a s \<longleftrightarrow> wq_context (cm_queues s ! a) \<in> set (cm_cancelled s)"

fun sender_may_cancel :: "queue_sender \<Rightarrow> channel_manager \<Rightarrow> bool" where
  "sender_may_cancel (Dispatcher c l) s \<longleftrightarrow> c \<in> set (cm_cancelled s)"
| "sender_may_cancel (Caller k) s \<longleftrightarrow> True"

definition dispatch_message :: "nat \<Rightarrow> bus_message \<Rightarrow> channel_manager \<Rightarrow> channel_manager option" where
  "dispatch_message c m s =
     (let d = Dispatcher c (lane_of m) in
      if c \<ge> cm_started s \<or> lane_of m = Inbound \<or> d \<in> set (cm_ended s) \<or> mget (cm_pending s) d \<noteq> None then None
      else if is_internal_channel (message_channel m) then Some s
      else if cm_lock s \<noteq> Unlocked then None
      else if message_channel m \<notin> set (cm_channels s) then Some s
      else (case queue_for m s of
              None \<Rightarrow> Some s
            | Some a \<Rightarrow> Some (s\<lparr>cm_pending := mput d (a, m) (cm_pending s)\<rparr>)))"

definition dispatcher_end :: "nat \<Rightarrow> bus_lane \<Rightarrow> channel_manager \<Rightarrow> channel_manager option" where
  "dispatcher_end c l s =
     (let d = Dispatcher c l in
      if mget (cm_pending s) d = None \<and> c < cm_started s then Some (s\<lparr>cm_ended := d # cm_ended s\<rparr>) else None)"

definition send_to_channel :: "nat \<Rightarrow> bus_message \<Rightarrow> channel_manager \<Rightarrow> channel_manager option" where
  "send_to_channel k m s =
     (if lane_of m \<noteq> Outbound \<or> mget (cm_pending s) (Caller k) \<noteq> None \<or> cm_lock s \<noteq> Unlocked then None
      else if message_channel m \<notin> set (cm_channels s) then Some s
      else (case queue_for m s of
              None \<Rightarrow> Some s
            | Some a \<Rightarrow> Some (s\<lparr>cm_pending := mput (Caller k) (a, m) (cm_pending s)\<rparr>)))"

definition start_all :: "string list \<Rightarrow> channel_manager \<Rightarrow> channel_manager option" where
  "start_all started s =
     (if cm_lock s \<noteq> Unlocked then None
      else if cm_channels s = [] then Some s
      else Some (fold (new_worker (cm_started s)) (filter (\<lambda>n. n \<in> set started) (cm_channels s))
                   (s\<lparr>cm_context := Some (cm_started s), cm_started := Suc (cm_started s)\<rparr>)))"

definition stop_all :: "channel_manager \<Rightarrow> channel_manager option" where
  "stop_all s =
     (if cm_lock s \<noteq> Unlocked then None
      else Some (close_queues (map (\<lambda>(n, text, media). text) (cm_workers s))
             (s\<lparr>cm_cancelled := (case cm_context s of Some c \<Rightarrow> c # cm_cancelled s | None \<Rightarrow> cm_cancelled s),
                cm_context := None, cm_lock := StopText\<rparr>)))"

definition stop_text_done :: "channel_manager \<Rightarrow> channel_manager option" where
  "stop_text_done s =
     (if cm_lock s = StopText \<and> all_exited (map (\<lambda>(n, text, media). text) (cm_workers s)) s
      then Some (close_queues (map (\<lambda>(n, text, media). media) (cm_workers s)) (s\<lparr>cm_lock := StopMedia\<rparr>))
      else None)"

definition unregister_channel :: "string \<Rightarrow> channel_manager \<Rightarrow> channel_manager option" where
  "unregister_channel name s =
     (if cm_lock s \<noteq> Unlocked then None
      else (case mget (cm_workers s) name of
              None \<Rightarrow> Some (s\<lparr>cm_channels := removeAll name (cm_channels s)\<rparr>)
            | Some (text, media) \<Rightarrow> Some (close_queue text (s\<lparr>cm_lock := UnregisterText name\<rparr>))))"

declare dispatch_message_def [simp] dispatcher_end_def [simp] send_to_channel_def [simp] start_all_def [simp] stop_all_def [simp]
  stop_text_done_def [simp] unregister_channel_def [simp]

fun channel_step :: "manager_action \<Rightarrow> channel_manager \<Rightarrow> channel_manager option" where
  "channel_step (Dispatch c m) s = dispatch_message c m s"
| "channel_step (DispatcherEnd c l) s = dispatcher_end c l s"
| "channel_step (ContextEnd c) s = (if c < cm_started s then Some (s\<lparr>cm_cancelled := c # cm_cancelled s\<rparr>) else None)"
| "channel_step (SendTo k m) s = send_to_channel k m s"
| "channel_step (Enqueue d) s =
     (case mget (cm_pending s) d of
        None \<Rightarrow> None
      | Some (a, m) \<Rightarrow>
          (let q = cm_queues s ! a in
           if wq_closed q then Some (s\<lparr>cm_crashed := True\<rparr>)
           else if length (wq_items q) < default_channel_queue_size
           then Some ((set_queue a (q\<lparr>wq_items := wq_items q @ [m]\<rparr>) s)\<lparr>cm_pending := mdel d (cm_pending s)\<rparr>)
           else None))"
| "channel_step (SenderCancel d) s =
     (if mget (cm_pending s) d = None \<or> \<not> sender_may_cancel d s then None
      else Some (s\<lparr>cm_pending := mdel d (cm_pending s), cm_ended := d # cm_ended s\<rparr>))"
| "channel_step (WorkerTake a) s =
     (if a < length (cm_queues s) \<and> \<not> wq_exited (cm_queues s ! a)
      then (case wq_items (cm_queues s ! a) of
              [] \<Rightarrow> None
            | m # rest \<Rightarrow> Some (set_queue a ((cm_queues s ! a)\<lparr>wq_items := rest\<rparr>) s))
      else None)"
| "channel_step (WorkerExit a) s =
     (if a < length (cm_queues s) \<and> \<not> wq_exited (cm_queues s ! a)
        \<and> (queue_cancelled a s \<or> wq_closed (cm_queues s ! a) \<and> wq_items (cm_queues s ! a) = [])
      then Some (set_queue a ((cm_queues s ! a)\<lparr>wq_exited := True\<rparr>) s)
      else None)"
| "channel_step (RegisterChannel name) s =
     (if cm_lock s = Unlocked then Some (s\<lparr>cm_channels := List.insert name (cm_channels s)\<rparr>) else None)"
| "channel_step (StartAll started) s = start_all started s"
| "channel_step StopAll s = stop_all s"
| "channel_step StopTextDone s = stop_text_done s"
| "channel_step StopMediaDone s =
     (if cm_lock s = StopMedia \<and> all_exited (map (\<lambda>(n, text, media). media) (cm_workers s)) s
      then Some (s\<lparr>cm_lock := Unlocked\<rparr>) else None)"
| "channel_step (Unregister name) s = unregister_channel name s"
| "channel_step UnregisterTextDone s =
     (case cm_lock s of
        UnregisterText name \<Rightarrow>
          (case mget (cm_workers s) name of
             Some (text, media) \<Rightarrow>
               if wq_exited (cm_queues s ! text) then Some (close_queue media (s\<lparr>cm_lock := UnregisterMedia name\<rparr>)) else None
           | None \<Rightarrow> None)
      | _ \<Rightarrow> None)"
| "channel_step UnregisterMediaDone s =
     (case cm_lock s of
        UnregisterMedia name \<Rightarrow>
          (case mget (cm_workers s) name of
             Some (text, media) \<Rightarrow>
               if wq_exited (cm_queues s ! media)
               then Some (s\<lparr>cm_workers := mdel name (cm_workers s), cm_channels := removeAll name (cm_channels s), cm_lock := Unlocked\<rparr>)
               else None
           | None \<Rightarrow> None)
      | _ \<Rightarrow> None)"

text \<open>A program that has panicked does nothing more.\<close>

definition live_step :: "manager_action \<Rightarrow> channel_manager \<Rightarrow> channel_manager option" where
  "live_step a s = (if cm_crashed s then None else channel_step a s)"

section \<open>Every queue is a queue\<close>

definition queued_items :: "nat \<Rightarrow> channel_manager \<Rightarrow> bus_message list" where
  "queued_items a s = (if a < length (cm_queues s) then wq_items (cm_queues s ! a) else [])"

fun enqueued :: "nat \<Rightarrow> manager_action \<Rightarrow> channel_manager \<Rightarrow> bus_message list" where
  "enqueued a (Enqueue d) s =
     (case mget (cm_pending s) d of
        None \<Rightarrow> []
      | Some (b, m) \<Rightarrow> if b = a \<and> a < length (cm_queues s) \<and> \<not> wq_closed (cm_queues s ! a) then [m] else [])"
| "enqueued a _ s = []"

fun taken :: "nat \<Rightarrow> manager_action \<Rightarrow> channel_manager \<Rightarrow> bus_message list" where
  "taken a (WorkerTake b) s = (if b = a then take 1 (queued_items a s) else [])"
| "taken a _ s = []"

lemma items_frame [simp]:
  "queued_items a (s\<lparr>cm_pending := p\<rparr>) = queued_items a s" "queued_items a (s\<lparr>cm_ended := e\<rparr>) = queued_items a s"
  "queued_items a (s\<lparr>cm_lock := l\<rparr>) = queued_items a s" "queued_items a (s\<lparr>cm_crashed := c\<rparr>) = queued_items a s"
  "queued_items a (s\<lparr>cm_channels := n\<rparr>) = queued_items a s" "queued_items a (s\<lparr>cm_workers := w\<rparr>) = queued_items a s"
  "queued_items a (s\<lparr>cm_cancelled := k\<rparr>) = queued_items a s" "queued_items a (s\<lparr>cm_context := x\<rparr>) = queued_items a s"
  "queued_items a (s\<lparr>cm_started := y\<rparr>) = queued_items a s"
  by (simp_all add: queued_items_def)

lemma items_set [simp]: "queued_items a (set_queue b q s) = (if b = a \<and> a < length (cm_queues s) then wq_items q else queued_items a s)"
  by (auto simp: queued_items_def set_queue_def)

lemma items_close [simp]: "queued_items a (close_queue b s) = queued_items a s"
  by (auto simp: close_queue_def) (simp_all add: queued_items_def)

lemma items_close_all [simp]: "queued_items a (close_queues bs s) = queued_items a s"
  unfolding close_queues_def by (induction bs arbitrary: s) auto

lemma items_new_worker [simp]: "queued_items a (new_worker c n s) = queued_items a s"
  by (auto simp: queued_items_def new_worker_def Let_def nth_append nth_Cons')

lemma items_new_workers [simp]: "queued_items a (fold (new_worker c) ns s) = queued_items a s"
  by (induction ns arbitrary: s) auto

lemma length_set_queue [simp]: "length (cm_queues (set_queue b q s)) = length (cm_queues s)"
  by (simp add: set_queue_def)

lemma enqueue_queue:
  "channel_step (Enqueue d) s = Some s' \<Longrightarrow> queued_items a s @ enqueued a (Enqueue d) s = queued_items a s'"
  by (auto simp: Let_def split: if_split_asm option.split_asm prod.split_asm) (auto simp: queued_items_def)

lemma take_queue: "channel_step (WorkerTake b) s = Some s' \<Longrightarrow> queued_items a s = taken a (WorkerTake b) s @ queued_items a s'"
  by (auto split: if_split_asm list.split_asm) (simp_all add: queued_items_def)

lemma exit_queue: "channel_step (WorkerExit b) s = Some s' \<Longrightarrow> queued_items a s' = queued_items a s"
  by (auto split: if_split_asm) (simp_all add: queued_items_def)

lemma other_queue:
  "channel_step x s = Some s' \<Longrightarrow> (\<forall>d. x \<noteq> Enqueue d) \<Longrightarrow> (\<forall>b. x \<noteq> WorkerTake b \<and> x \<noteq> WorkerExit b) \<Longrightarrow>
     queued_items a s' = queued_items a s \<and> enqueued a x s = [] \<and> taken a x s = []"
  by (cases x) (auto simp: Let_def split: if_split_asm option.split_asm prod.split_asm manager_lock.split_asm)

lemma manager_queue:
  "live_step x s = Some s' \<Longrightarrow> queued_items a s @ enqueued a x s = taken a x s @ queued_items a s'"
proof -
  assume "live_step x s = Some s'"
  then have m: "channel_step x s = Some s'" by (simp add: live_step_def split: if_split_asm)
  show ?thesis
  proof (cases x)
    case (Enqueue d)
    then show ?thesis using enqueue_queue m by simp
  next
    case (WorkerTake b)
    then show ?thesis using take_queue m by simp
  next
    case (WorkerExit b)
    then show ?thesis using exit_queue m by simp
  qed (use other_queue [OF m] in simp_all)
qed

lemma manager_cap:
  "live_step x s = Some s' \<Longrightarrow> length (queued_items a s) \<le> default_channel_queue_size \<Longrightarrow> length (queued_items a s') \<le> default_channel_queue_size"
proof -
  assume l: "live_step x s = Some s'" and c: "length (queued_items a s) \<le> default_channel_queue_size"
  then have m: "channel_step x s = Some s'" by (simp add: live_step_def split: if_split_asm)
  show ?thesis
  proof (cases "\<exists>d. x = Enqueue d")
    case True
    then show ?thesis using m c by (auto simp: Let_def split: if_split_asm option.split_asm prod.split_asm)
  next
    case False
    then have "enqueued a x s = []" by (cases x) auto
    then have "length (queued_items a s) = length (taken a x s @ queued_items a s')" using manager_queue [OF l, of a] by simp
    then show ?thesis using c by simp
  qed
qed

interpretation worker: fifo live_step "queued_items a" "enqueued a" "taken a" default_channel_queue_size for a
  by unfold_locales (erule manager_queue, erule manager_cap)

section \<open>Panics\<close>

definition in_range :: "channel_manager \<Rightarrow> bool" where
  "in_range s \<longleftrightarrow> (\<forall>d a m. mget (cm_pending s) d = Some (a, m) \<longrightarrow> a < length (cm_queues s))
     \<and> (\<forall>n t m. mget (cm_workers s) n = Some (t, m) \<longrightarrow> t < length (cm_queues s) \<and> m < length (cm_queues s))"

definition running_ok :: "channel_manager \<Rightarrow> bool" where
  "running_ok s \<longleftrightarrow> in_range s \<and> list_all (\<lambda>q. \<not> wq_closed q) (cm_queues s) \<and> \<not> cm_crashed s \<and> cm_lock s = Unlocked"

text \<open>The operations that close a queue.\<close>

fun stops :: "manager_action \<Rightarrow> bool" where
  "stops StopAll \<longleftrightarrow> True"
| "stops (Unregister name) \<longleftrightarrow> True"
| "stops _ \<longleftrightarrow> False"

lemma running_new: "running_ok (new_channel_manager ns)"
  by (simp add: running_ok_def in_range_def new_channel_manager_def)

lemma running_new_worker: "running_ok s \<Longrightarrow> running_ok (new_worker c n s)"
  by (auto simp: running_ok_def in_range_def new_worker_def Let_def) (metis less_SucI)+

lemma running_new_workers: "running_ok s \<Longrightarrow> running_ok (fold (new_worker c) ns s)"
  by (induction ns arbitrary: s) (auto intro: running_new_worker)

lemma running_set_queue: "running_ok s \<Longrightarrow> \<not> wq_closed q \<Longrightarrow> running_ok (set_queue a q s)"
  by (auto simp: running_ok_def in_range_def set_queue_def list_all_iff dest!: set_update_subset_insert [THEN subsetD])

lemma running_pending: "running_ok s \<Longrightarrow> a < length (cm_queues s) \<Longrightarrow> running_ok (s\<lparr>cm_pending := mput d (a, m) (cm_pending s)\<rparr>)"
  by (auto simp: running_ok_def in_range_def)

lemma running_frame:
  "running_ok (s\<lparr>cm_ended := e\<rparr>) = running_ok s" "running_ok (s\<lparr>cm_cancelled := k\<rparr>) = running_ok s"
  "running_ok (s\<lparr>cm_channels := n\<rparr>) = running_ok s" "running_ok (s\<lparr>cm_context := x, cm_started := y\<rparr>) = running_ok s"
  "running_ok s \<Longrightarrow> running_ok (s\<lparr>cm_pending := mdel d (cm_pending s)\<rparr>)"
  "running_ok s \<Longrightarrow> running_ok (s\<lparr>cm_pending := mdel d (cm_pending s), cm_ended := e\<rparr>)"
  by (auto simp: running_ok_def in_range_def)

lemma running_open: "running_ok s \<Longrightarrow> a < length (cm_queues s) \<Longrightarrow> \<not> wq_closed (cm_queues s ! a)"
  by (simp add: running_ok_def list_all_length)

lemma running_queue_for: "running_ok s \<Longrightarrow> queue_for m s = Some a \<Longrightarrow> a < length (cm_queues s)"
  by (auto simp: running_ok_def in_range_def queue_for_def split: if_splits)

lemma running_range: "running_ok s \<Longrightarrow> mget (cm_pending s) d = Some (a, m) \<Longrightarrow> a < length (cm_queues s)"
  by (auto simp: running_ok_def in_range_def)

lemma pending_set_queue [simp]: "cm_pending (set_queue a q s) = cm_pending s"
  by (simp add: set_queue_def)

lemma running_enqueue: "channel_step (Enqueue d) s = Some s' \<Longrightarrow> running_ok s \<Longrightarrow> running_ok s'"
  using running_range [of s d] running_open [of s] running_set_queue running_frame(5) [of "set_queue _ _ s" d]
  by (auto simp: Let_def split: if_split_asm option.split_asm)

lemma running_worker:
  "channel_step (WorkerTake a) s = Some s' \<Longrightarrow> running_ok s \<Longrightarrow> running_ok s'"
  "channel_step (WorkerExit a) s = Some s' \<Longrightarrow> running_ok s \<Longrightarrow> running_ok s'"
  using running_open [of s a] by (auto intro!: running_set_queue split: if_split_asm list.split_asm)

lemma running_step: "channel_step x s = Some s' \<Longrightarrow> running_ok s \<Longrightarrow> \<not> stops x \<Longrightarrow> running_ok s'"
proof (cases x)
  case (Enqueue d)
  then show "channel_step x s = Some s' \<Longrightarrow> running_ok s \<Longrightarrow> running_ok s'" using running_enqueue by blast
next
  case (WorkerTake a)
  then show "channel_step x s = Some s' \<Longrightarrow> running_ok s \<Longrightarrow> running_ok s'" using running_worker(1) by blast
next
  case (WorkerExit a)
  then show "channel_step x s = Some s' \<Longrightarrow> running_ok s \<Longrightarrow> running_ok s'" using running_worker(2) by blast
next
  case (StartAll started)
  then show "channel_step x s = Some s' \<Longrightarrow> running_ok s \<Longrightarrow> running_ok s'"
    using running_new_workers [of "s\<lparr>cm_context := Some (cm_started s), cm_started := Suc (cm_started s)\<rparr>"] by (auto simp: running_frame split: if_split_asm)
qed (auto simp: Let_def running_frame running_ok_def [THEN iffD1, THEN conjunct2] intro: running_pending running_queue_for
    split: if_split_asm option.split_asm prod.split_asm manager_lock.split_asm)

lemma running_run: "run_steps live_step xs s = Some s' \<Longrightarrow> running_ok s \<Longrightarrow> list_all (\<lambda>x. \<not> stops x) xs \<Longrightarrow> running_ok s'"
proof (induction xs arbitrary: s)
  case (Cons x xs)
  then obtain t where t: "live_step x s = Some t" "run_steps live_step xs t = Some s'" using Cons.prems(1) unfolding run_steps_Cons by blast
  then have "channel_step x s = Some t" by (simp add: live_step_def split: if_split_asm)
  then show ?case using Cons.IH [OF t(2)] Cons.prems(2,3) running_step by auto
qed simp

section \<open>Properties\<close>

text \<open>
  The two queues of every channel are queues of at most 16 messages: whatever dispatchers, callers, workers and the
  operations that start, stop, add and remove channels do, a worker takes the messages of its queue in the order
  in which they were put there, and those it has not taken are still in the queue.
\<close>

theorem worker_queues_in_order:
  "case run_steps live_step xs (new_channel_manager names) of
     None \<Rightarrow> True
   | Some s \<Rightarrow>
       step_log live_step (enqueued a) xs (new_channel_manager names) =
         step_log live_step (taken a) xs (new_channel_manager names) @ queued_items a s
       \<and> length (queued_items a s) \<le> 16"
proof (cases "run_steps live_step xs (new_channel_manager names)")
  case (Some s)
  have "queued_items a (new_channel_manager names) = []" by (simp add: queued_items_def new_channel_manager_def)
  then show ?thesis using worker.run_fifo [OF Some, of a] worker.run_cap [OF Some, of a] Some
    by (simp add: default_channel_queue_size_def)
qed simp

text \<open>
  As long as no channel is unregistered and the manager is not stopped, nothing the goroutines do panics, in
  whatever order they run.
\<close>

theorem no_panic_while_running:
  assumes "list_all (\<lambda>x. \<not> stops x) xs"
  shows "case run_steps live_step xs (new_channel_manager names) of None \<Rightarrow> True | Some s \<Rightarrow> \<not> cm_crashed s"
  using running_run [OF _ running_new assms] by (auto simp: running_ok_def split: option.split)

definition sample_text :: "string \<Rightarrow> bus_message" where
  "sample_text txt = OutMsg \<lparr>ob_channel = ''irc'', ob_chat_id = ''#go'', ob_content = txt\<rparr>"

theorem no_panic_while_running_witness:
  "case run_steps live_step [StartAll [''irc''], Dispatch 0 (sample_text ''a''), Enqueue (Dispatcher 0 Outbound), WorkerTake 0]
      (new_channel_manager [''irc'']) of None \<Rightarrow> True | Some s \<Rightarrow> \<not> cm_crashed s"
  by (rule no_panic_while_running) simp

text \<open>
  Removing a channel while the dispatcher holds its queue crashes the program: the queue is closed between the
  lookup of the worker and the send.
\<close>

theorem unregister_crashes_dispatcher:
  "case run_steps live_step
      [StartAll [''irc''], Dispatch 0 (sample_text ''a''), Unregister ''irc'', WorkerExit 0, UnregisterTextDone, WorkerExit 1,
       UnregisterMediaDone, Enqueue (Dispatcher 0 Outbound)]
      (new_channel_manager [''irc'']) of None \<Rightarrow> False | Some s \<Rightarrow> cm_crashed s"
  by code_simp

text \<open>
  Stopping the manager does not drain the queues: a worker whose context has ended leaves, and a message that the
  dispatcher had accepted stays in its queue for ever.
\<close>

theorem stop_abandons_messages:
  "case run_steps live_step
      [StartAll [''irc''], Dispatch 0 (sample_text ''a''), Enqueue (Dispatcher 0 Outbound), StopAll, WorkerExit 0, StopTextDone,
       WorkerExit 1, StopMediaDone]
      (new_channel_manager [''irc'']) of
     None \<Rightarrow> False
   | Some s \<Rightarrow> cm_lock s = Unlocked \<and> \<not> cm_crashed s \<and> queued_items 0 s = [sample_text ''a''] \<and> wq_exited (cm_queues s ! 0)"
  by code_simp

end
