(* ===== verification/GoPath.thy ===== *)
theory GoPath
  imports Prelude
begin

text \<open>
  Package \<open>path/filepath\<close> on Unix, as far as the sources use it: cleaning, joining, relative paths and the test
  whether a relative path stays below its base. A clean path is known by its components.
\<close>

section \<open>Components\<close>

abbreviation slash :: char where "slash \<equiv> CHR ''/''"

fun slash_path :: "string list \<Rightarrow> string" where
  "slash_path [] = []"
| "slash_path [w] = w"
| "slash_path (w # v # ws) = w @ slash # slash_path (v # ws)"

definition is_abs :: "string \<Rightarrow> bool" where
  "is_abs p \<longleftrightarrow> prefix [slash] p"

text \<open>One component onto the stack of those before it (the last one first).\<close>

definition clean_push :: "bool \<Rightarrow> string list \<Rightarrow> string \<Rightarrow> string list" where
  "clean_push rooted st w =
     (if w = [] \<or> w = ''.'' then st
      else if w = ''..'' then
        (case st of
           [] \<Rightarrow> if rooted then [] else [''..'']
         | x # xs \<Rightarrow> if x = ''..'' then ''..'' # st else xs)
      else w # st)"

definition clean_parts :: "string \<Rightarrow> string list" where
  "clean_parts p = rev (foldl (clean_push (is_abs p)) [] (split_on slash p))"

definition path_of :: "bool \<Rightarrow> string list \<Rightarrow> string" where
  "path_of rooted ws = (if rooted then slash # slash_path ws else if ws = [] then ''.'' else slash_path ws)"

definition path_clean :: "string \<Rightarrow> string" where
  "path_clean p = path_of (is_abs p) (clean_parts p)"

definition path_join :: "string \<Rightarrow> string \<Rightarrow> string" where
  "path_join a b = (if a \<noteq> [] then path_clean (a @ slash # b) else if b \<noteq> [] then path_clean b else [])"

definition path_abs :: "string \<Rightarrow> string \<Rightarrow> string" where
  "path_abs wd p = (if is_abs p then path_clean p else path_join wd p)"

definition path_dir :: "string \<Rightarrow> string" where
  "path_dir p = path_clean (rev (dropWhile (\<lambda>c. c \<noteq> slash) (rev p)))"

definition path_base :: "string \<Rightarrow> string" where
  "path_base p =
     (if p = [] then ''.''
      else (let q = rev (dropWhile (\<lambda>c. c = slash) (rev p)) in
            if q = [] then [slash] else rev (takeWhile (\<lambda>c. c \<noteq> slash) (rev q))))"

section \<open>Relative paths\<close>

fun strip_common :: "string list \<Rightarrow> string list \<Rightarrow> string list \<times> string list" where
  "strip_common (b # bs) (t # ts) = (if b = t then strip_common bs ts else (b # bs, t # ts))"
| "strip_common bs ts = (bs, ts)"

text \<open>The targets are absolute in the sources.\<close>

definition path_rel :: "string \<Rightarrow> string \<Rightarrow> string option" where
  "path_rel base targ =
     (if path_clean base = path_clean targ then Some ''.''
      else if is_abs base \<noteq> is_abs targ then None
      else (case strip_common (clean_parts base) (clean_parts targ) of
              (bs, ts) \<Rightarrow>
                if bs \<noteq> [] \<and> hd bs = ''..'' then None
                else Some (slash_path (replicate (length bs) ''..'' @ ts))))"

definition local_path :: "string \<Rightarrow> bool" where
  "local_path p \<longleftrightarrow>
     (if is_abs p \<or> p = [] then False
      else (let q = (if list_ex (\<lambda>w. w = ''.'' \<or> w = ''..'') (split_on slash p) then path_clean p else p) in
            q \<noteq> ''..'' \<and> \<not> prefix ''../'' q))"

section \<open>Facts\<close>

text \<open>A name: a component that stands for itself.\<close>

definition plain_name :: "string \<Rightarrow> bool" where
  "plain_name w \<longleftrightarrow> w \<noteq> [] \<and> w \<noteq> ''.'' \<and> w \<noteq> ''..'' \<and> slash \<notin> set w"

lemma split_on_single: "d \<notin> set s \<Longrightarrow> split_on d s = [s]"
  by (induction s) auto

lemma split_on_join: "d \<notin> set w \<Longrightarrow> split_on d (w @ d # s) = w # split_on d s"
  by (induction w) auto

lemma split_slash_path: "ws \<noteq> [] \<Longrightarrow> list_all (\<lambda>w. slash \<notin> set w) ws \<Longrightarrow> split_on slash (slash_path ws) = ws"
  by (induction ws rule: slash_path.induct) (auto simp: split_on_single split_on_join)

lemma split_abs: "split_on slash (slash # s) = [] # split_on slash s"
  by simp

lemma split_append: "split_on d (s @ d # t) = split_on d s @ split_on d t"
  by (induction s) (auto split: list.split)

lemma push_dot [simp]: "clean_push r st [] = st" "clean_push r st ''.'' = st"
  by (simp_all add: clean_push_def)

lemma push_plain [simp]: "plain_name w \<Longrightarrow> clean_push r st w = w # st"
  by (simp add: clean_push_def plain_name_def)

lemma push_plains: "list_all plain_name ws \<Longrightarrow> foldl (clean_push r) st ws = rev ws @ st"
  by (induction ws arbitrary: st) auto

lemma rooted_plain: "list_all plain_name st \<Longrightarrow> slash \<notin> set w \<Longrightarrow> list_all plain_name (clean_push True st w)"
  by (auto simp: clean_push_def plain_name_def split: list.split)

lemma rooted_parts_plain: "list_all plain_name st \<Longrightarrow> list_all (\<lambda>w. slash \<notin> set w) ws \<Longrightarrow> list_all plain_name (foldl (clean_push True) st ws)"
  by (induction ws arbitrary: st) (auto simp: rooted_plain)

lemma clean_parts_plain: "is_abs p \<Longrightarrow> list_all plain_name (clean_parts p)"
  using rooted_parts_plain [of "[]" "split_on slash p"] split_on_clean [of _ slash p]
  by (auto simp: clean_parts_def list_all_iff)

lemma plain_no_slash: "list_all plain_name ws \<Longrightarrow> list_all (\<lambda>w. slash \<notin> set w) ws"
  by (auto simp: list_all_iff plain_name_def)

lemma clean_parts_path: "list_all plain_name ws \<Longrightarrow> clean_parts (slash # slash_path ws) = ws"
  using push_plains [of ws True "[]"]
  by (cases "ws = []") (simp_all add: clean_parts_def is_abs_def split_slash_path plain_no_slash push_plains)

lemma clean_abs: "is_abs p \<Longrightarrow> path_clean p = slash # slash_path (clean_parts p)"
  by (simp add: path_clean_def path_of_def)

lemma is_abs_clean: "is_abs p \<Longrightarrow> is_abs (path_clean p)"
  by (simp add: clean_abs is_abs_def)

lemma clean_parts_clean: "is_abs p \<Longrightarrow> clean_parts (path_clean p) = clean_parts p"
  by (simp add: clean_abs clean_parts_path clean_parts_plain)

lemma clean_eq: "is_abs p \<Longrightarrow> is_abs q \<Longrightarrow> path_clean p = path_clean q \<longleftrightarrow> clean_parts p = clean_parts q"
  by (metis clean_abs clean_parts_clean)

lemma strip_common_suffix: "suffix (fst (strip_common bs ts)) bs \<and> suffix (snd (strip_common bs ts)) ts"
  by (induction bs ts rule: strip_common.induct) (auto intro: suffix_ConsI)

lemma strip_common_prefix: "fst (strip_common bs ts) = [] \<longleftrightarrow> prefix bs ts"
  by (induction bs ts rule: strip_common.induct) auto

lemma strip_common_rest: "fst (strip_common bs ts) = [] \<Longrightarrow> bs @ snd (strip_common bs ts) = ts"
  by (induction bs ts rule: strip_common.induct) (auto split: if_splits)

lemma strip_common_both: "fst (strip_common bs ts) = [] \<Longrightarrow> snd (strip_common bs ts) = [] \<Longrightarrow> bs = ts"
  by (induction bs ts rule: strip_common.induct) (auto split: if_splits)

lemma plain_suffix: "suffix us ws \<Longrightarrow> list_all plain_name ws \<Longrightarrow> list_all plain_name us"
  by (auto simp: suffix_def)

lemma slash_path_hd: "ws \<noteq> [] \<Longrightarrow> list_all (\<lambda>w. slash \<notin> set w) ws \<Longrightarrow> hd ws \<noteq> [] \<Longrightarrow> slash_path ws \<noteq> [] \<and> \<not> is_abs (slash_path ws)"
  by (induction ws rule: slash_path.induct) (auto simp: is_abs_def neq_Nil_conv)

lemma dots_first: "q = ''..'' \<or> prefix ''../'' q \<Longrightarrow> hd (split_on slash q) = ''..''"
  by (auto simp: prefix_def)

lemma first_dots: "slash_path (''..'' # ws) = ''..'' \<or> prefix ''../'' (slash_path (''..'' # ws))"
  by (cases ws) auto

lemma push_ups: "foldl (clean_push False) (replicate k ''..'') (replicate n ''..'') = replicate (n + k) ''..''"
proof (induction n arbitrary: k)
  case (Suc n)
  have "clean_push False (replicate k ''..'') ''..'' = replicate (Suc k) ''..''" by (cases k) (simp_all add: clean_push_def)
  then show ?case using Suc.IH [of "Suc k"] by simp
qed simp

lemma plain_local: "ts \<noteq> [] \<Longrightarrow> list_all plain_name ts \<Longrightarrow> local_path (slash_path ts)"
proof -
  assume t: "ts \<noteq> []" "list_all plain_name ts"
  then have s: "split_on slash (slash_path ts) = ts" by (intro split_slash_path plain_no_slash)
  have h: "plain_name (hd ts)" using t by (cases ts) auto
  have "\<not> list_ex (\<lambda>w. w = ''.'' \<or> w = ''..'') ts" using t(2) by (auto simp: list_ex_iff list_all_iff plain_name_def)
  moreover have "slash_path ts \<noteq> [] \<and> \<not> is_abs (slash_path ts)"
    using h t by (intro slash_path_hd plain_no_slash) (auto simp: plain_name_def)
  moreover have "slash_path ts \<noteq> ''..'' \<and> \<not> prefix ''../'' (slash_path ts)"
    using dots_first [of "slash_path ts"] s h by (auto simp: plain_name_def)
  ultimately show ?thesis by (simp add: local_path_def s Let_def)
qed

lemma ups_not_local: "list_all plain_name ts \<Longrightarrow> \<not> local_path (slash_path (replicate (Suc n) ''..'' @ ts))"
proof -
  assume t: "list_all plain_name ts"
  let ?ws = "replicate (Suc n) ''..'' @ ts"
  have ns: "list_all (\<lambda>w. slash \<notin> set w) ?ws" using plain_no_slash [OF t] by (auto simp: list_all_iff)
  have s: "split_on slash (slash_path ?ws) = ?ws" using ns by (intro split_slash_path) simp
  have a: "\<not> is_abs (slash_path ?ws)" using slash_path_hd [OF _ ns] by simp
  have "clean_parts (slash_path ?ws) = ?ws"
    using a push_ups [of 0 "Suc n"] push_plains [OF t] unfolding clean_parts_def s by (simp add: foldl_append replicate_append_same)
  then have "path_clean (slash_path ?ws) = slash_path ?ws" using a by (simp add: path_clean_def path_of_def)
  then show ?thesis using first_dots [of "replicate n ''..'' @ ts"] s by (auto simp: local_path_def Let_def)
qed

text \<open>An absolute path is local to an absolute base exactly if the components of the base are the first of its own.\<close>

lemma local_rel:
  assumes "is_abs base" and "is_abs targ"
  shows "(case path_rel base targ of None \<Rightarrow> False | Some r \<Rightarrow> local_path r) \<longleftrightarrow> prefix (clean_parts base) (clean_parts targ)"
proof (cases "clean_parts base = clean_parts targ")
  case True
  moreover have "local_path ''.''" by code_simp
  ultimately show ?thesis using assms by (simp add: path_rel_def clean_eq)
next
  case False
  obtain bs ts where r: "strip_common (clean_parts base) (clean_parts targ) = (bs, ts)" by fastforce
  have pl: "list_all plain_name bs" "list_all plain_name ts"
    using strip_common_suffix [of "clean_parts base" "clean_parts targ"] clean_parts_plain assms r plain_suffix by fastforce+
  show ?thesis
  proof (cases bs)
    case Nil
    then have "ts \<noteq> []" using strip_common_both [of "clean_parts base" "clean_parts targ"] r False by auto
    then show ?thesis
      using Nil False assms r pl plain_local strip_common_prefix [of "clean_parts base" "clean_parts targ"] by (simp add: path_rel_def clean_eq)
  next
    case (Cons b bs')
    then have "b \<noteq> ''..''" using pl by (simp add: plain_name_def)
    then show ?thesis
      using Cons False assms r ups_not_local [OF pl(2), of "length bs'"] strip_common_prefix [of "clean_parts base" "clean_parts targ"]
      by (simp add: path_rel_def clean_eq)
  qed
qed

section \<open>Joining a local path\<close>

lemma up_stays: "''..'' \<in> set st \<Longrightarrow> ''..'' \<in> set (foldl (clean_push False) st ws)"
proof (induction ws arbitrary: st)
  case (Cons w ws)
  have "''..'' \<in> set (clean_push False st w)" using Cons.prems by (cases st) (auto simp: clean_push_def)
  then show ?case using Cons.IH by simp
qed simp

lemma up_last: "(''..'' \<in> set st \<longrightarrow> last st = ''..'') \<Longrightarrow>
    ''..'' \<in> set (foldl (clean_push False) st ws) \<Longrightarrow> last (foldl (clean_push False) st ws) = ''..''"
proof (induction ws arbitrary: st)
  case (Cons w ws)
  have "''..'' \<in> set (clean_push False st w) \<longrightarrow> last (clean_push False st w) = ''..''"
    using Cons.prems(1) by (cases st) (auto simp: clean_push_def)
  then show ?case using Cons.IH Cons.prems(2) by simp
qed simp

lemma push_above:
  "''..'' \<notin> set (foldl (clean_push False) st ws) \<Longrightarrow> foldl (clean_push True) (st @ S) ws = foldl (clean_push False) st ws @ S"
proof (induction ws arbitrary: st)
  case (Cons w ws)
  have n: "''..'' \<notin> set (clean_push False st w)" using Cons.prems up_stays by auto
  then have "clean_push True (st @ S) w = clean_push False st w @ S" by (cases st) (auto simp: clean_push_def)
  then show ?case using Cons.IH Cons.prems by simp
qed simp

lemma no_dots_no_up: "''..'' \<notin> set ws \<Longrightarrow> ''..'' \<notin> set st \<Longrightarrow> ''..'' \<notin> set (foldl (clean_push r) st ws)"
proof (induction ws arbitrary: st)
  case (Cons w ws)
  then have "''..'' \<notin> set (clean_push r st w)" by (auto simp: clean_push_def)
  then show ?case using Cons.IH Cons.prems by simp
qed simp

lemma local_no_up: "local_path p \<Longrightarrow> ''..'' \<notin> set (clean_parts p)"
proof
  assume l: "local_path p" and u: "''..'' \<in> set (clean_parts p)"
  have a: "\<not> is_abs p" using l by (simp add: local_path_def split: if_splits)
  have "''..'' \<in> set (split_on slash p)" using no_dots_no_up [of "split_on slash p" "[]"] u by (auto simp: clean_parts_def)
  then have d: "list_ex (\<lambda>w. w = ''.'' \<or> w = ''..'') (split_on slash p)" by (auto simp: list_ex_iff)
  have "last (foldl (clean_push False) [] (split_on slash p)) = ''..''"
    using u a by (intro up_last) (auto simp: clean_parts_def)
  then have "hd (clean_parts p) = ''..''" using u a by (simp add: clean_parts_def hd_rev)
  then obtain ws where "clean_parts p = ''..'' # ws" using u by (cases "clean_parts p") auto
  then have "path_clean p = slash_path (''..'' # ws)" using a by (simp add: path_clean_def path_of_def)
  then show False using first_dots [of ws] l d a by (auto simp: local_path_def Let_def split: if_splits)
qed

text \<open>Joining a local path stays below the base.\<close>

lemma join_local:
  assumes "is_abs base" and "local_path p"
  shows "is_abs (path_join base p) \<and> clean_parts (path_join base p) = clean_parts base @ clean_parts p"
proof -
  have a: "is_abs (base @ slash # p)" "\<not> is_abs p" "base \<noteq> []" using assms by (auto simp: is_abs_def local_path_def prefix_def split: if_splits)
  have "clean_parts (base @ slash # p) = rev (foldl (clean_push True) (rev (clean_parts base)) (split_on slash p))"
    using a(1) assms(1) by (simp add: clean_parts_def split_append)
  also have "\<dots> = clean_parts base @ clean_parts p"
    using push_above [of "[]" "split_on slash p" "rev (clean_parts base)"] local_no_up [OF assms(2)] a(2) by (simp add: clean_parts_def)
  finally show ?thesis using a by (simp add: path_join_def clean_parts_clean is_abs_clean)
qed

text \<open>A relative path that is local leads back to its target.\<close>

lemma clean_parts_rel: "list_all plain_name ts \<Longrightarrow> clean_parts (slash_path ts) = ts"
proof (cases "ts = []")
  case False
  assume t: "list_all plain_name ts"
  then show ?thesis using False push_plains [OF t] by (simp add: clean_parts_def split_slash_path plain_no_slash)
qed (simp add: clean_parts_def)

lemma rel_parts:
  assumes "is_abs base" and "is_abs targ" and "path_rel base targ = Some r" and "local_path r"
  shows "clean_parts base @ clean_parts r = clean_parts targ"
proof (cases "clean_parts base = clean_parts targ")
  case True
  then have "r = ''.''" using assms by (simp add: path_rel_def clean_eq)
  moreover have "clean_parts ''.'' = []" by code_simp
  ultimately show ?thesis using True by simp
next
  case False
  obtain bs ts where r: "strip_common (clean_parts base) (clean_parts targ) = (bs, ts)" by fastforce
  have pl: "list_all plain_name bs" "list_all plain_name ts"
    using strip_common_suffix [of "clean_parts base" "clean_parts targ"] clean_parts_plain assms r plain_suffix by fastforce+
  have "prefix (clean_parts base) (clean_parts targ)" using local_rel [OF assms(1,2)] assms(3,4) by simp
  then have "bs = []" using strip_common_prefix [of "clean_parts base" "clean_parts targ"] r by simp
  then have "r = slash_path ts" using False assms r by (simp add: path_rel_def clean_eq split: if_splits)
  moreover have "clean_parts base @ ts = clean_parts targ"
    using strip_common_rest [of "clean_parts base" "clean_parts targ"] \<open>bs = []\<close> r by simp
  ultimately show ?thesis using clean_parts_rel [OF pl(2)] by simp
qed

lemma path_join_abs: "is_abs base \<Longrightarrow> is_abs (path_join base r) \<and> path_join base r = slash # slash_path (clean_parts (path_join base r))"
proof -
  assume a: "is_abs base"
  then have "is_abs (base @ slash # r)" "base \<noteq> []" by (auto simp: is_abs_def prefix_def)
  then show ?thesis by (simp add: path_join_def is_abs_clean clean_parts_clean) (simp add: clean_abs)
qed

end
