(* ===== verification/FileTools.thy ===== *)
theory FileTools
  imports GoPath GoRunes Delegation
begin

text \<open>
  The file tools of the agent (\<open>pkg/tools/filesystem.go\<close>, \<open>edit.go\<close>): the three file systems that a tool may be
  built on, reading in pages, writing, editing and appending. The disk is a map from real locations to
  contents. Where the operating system ends up for an absolute path is a parameter of every access, since links may
  change between two of them, as is whether a write succeeds. \<open>os.Root\<close> refuses a location that is not beneath the
  real location of its directory.
\<close>

section \<open>Paths and the workspace\<close>

definition is_within_workspace :: "string \<Rightarrow> string \<Rightarrow> bool" where
  "is_within_workspace candidate workspace \<longleftrightarrow>
     (case path_rel (path_clean workspace) (path_clean candidate) of None \<Rightarrow> False | Some r \<Rightarrow> local_path r)"

text \<open>\<open>EvalSymlinks\<close> of a path.\<close>

datatype real_path = RealPath string | NoSuchFile | BadPath

text \<open>From a path upwards to the root: the list of \<open>current\<close>s of the loop.\<close>

function ancestors :: "string \<Rightarrow> string list" where
  "ancestors p = (if path_dir p = p \<or> length (path_dir p) \<ge> length p then [p] else p # ancestors (path_dir p))"
  by pat_completeness auto
termination by (relation "measure length") auto

declare ancestors.simps [simp del]

fun first_existing :: "(string \<Rightarrow> real_path) \<Rightarrow> string list \<Rightarrow> real_path" where
  "first_existing links [] = NoSuchFile"
| "first_existing links (p # ps) = (case links p of NoSuchFile \<Rightarrow> first_existing links ps | r \<Rightarrow> r)"

definition resolve_existing_ancestor :: "(string \<Rightarrow> real_path) \<Rightarrow> string \<Rightarrow> real_path" where
  "resolve_existing_ancestor links p = first_existing links (ancestors (path_clean p))"

text \<open>\<open>wd\<close>: the working directory of the process.\<close>

definition validate_path :: "string \<Rightarrow> (string \<Rightarrow> real_path) \<Rightarrow> string \<Rightarrow> string \<Rightarrow> bool \<Rightarrow> string + string" where
  "validate_path wd links p workspace restrict =
     (if workspace = [] then Inl ''workspace is not defined''
      else
        (let abs_ws = path_abs wd workspace;
             abs_path = (if is_abs p then path_clean p else path_abs wd (path_join abs_ws p));
             ws_real = (case links abs_ws of RealPath r \<Rightarrow> r | _ \<Rightarrow> abs_ws)
         in if \<not> restrict then Inr abs_path
            else if \<not> is_within_workspace abs_path abs_ws then Inl ''access denied: path is outside the workspace''
            else (case links abs_path of
                    RealPath r \<Rightarrow>
                      if is_within_workspace r ws_real then Inr abs_path
                      else Inl ''access denied: symlink resolves outside workspace''
                  | NoSuchFile \<Rightarrow>
                      (case resolve_existing_ancestor links (path_dir abs_path) of
                         RealPath r \<Rightarrow>
                           if is_within_workspace r ws_real then Inr abs_path
                           else Inl ''access denied: symlink resolves outside workspace''
                       | NoSuchFile \<Rightarrow> Inr abs_path
                       | BadPath \<Rightarrow> Inl ''failed to resolve path'')
                  | BadPath \<Rightarrow> Inl ''failed to resolve path'')))"

definition get_safe_rel_path :: "string \<Rightarrow> string \<Rightarrow> string + string" where
  "get_safe_rel_path workspace p =
     (if workspace = [] then Inl ''workspace is not defined''
      else
        (let rel = path_clean p in
         case (if is_abs rel then path_rel workspace rel else Some rel) of
           None \<Rightarrow> Inl ''failed to calculate relative path''
         | Some r \<Rightarrow> if local_path r then Inr r else Inl (''path escapes workspace: '' @ p)))"

section \<open>The disk and the three file systems\<close>

type_synonym disk = "(string, string) gomap"

text \<open>
  One access: \<open>oe_follow\<close> is the location that an absolute path leads to, \<open>oe_entry\<close> that of its directory entry, the last
  link not followed: a file is replaced by a rename, which replaces a link itself.
\<close>

record os_env =
  oe_wd :: string
  oe_follow :: "string \<Rightarrow> string option"
  oe_entry :: "string \<Rightarrow> string option"
  oe_ok :: bool

datatype file_error = FileNotFound | AccessDenied string | OtherFileError string

datatype file_system = HostFs | SandboxFs string | WhitelistFs string "string \<Rightarrow> bool"

definition build_fs :: "string \<Rightarrow> bool \<Rightarrow> (string \<Rightarrow> bool) list \<Rightarrow> file_system" where
  "build_fs workspace restrict patterns =
     (if \<not> restrict then HostFs
      else if patterns \<noteq> [] then WhitelistFs workspace (\<lambda>p. list_ex (\<lambda>m. m p) patterns)
      else SandboxFs workspace)"

definition beneath :: "string \<Rightarrow> string \<Rightarrow> bool" where
  "beneath dir p \<longleftrightarrow> is_abs dir \<and> is_abs p \<and> prefix (clean_parts dir) (clean_parts p)"

definition host_location :: "os_env \<Rightarrow> (string \<Rightarrow> string option) \<Rightarrow> string \<Rightarrow> file_error + string" where
  "host_location e look p = (case look (path_abs (oe_wd e) p) of None \<Rightarrow> Inl (OtherFileError ''bad path'') | Some l \<Rightarrow> Inr l)"

definition sandbox_location :: "string \<Rightarrow> os_env \<Rightarrow> (string \<Rightarrow> string option) \<Rightarrow> string \<Rightarrow> file_error + string" where
  "sandbox_location workspace e look p =
     (if workspace = [] then Inl (OtherFileError ''workspace is not defined'')
      else
        (case oe_follow e (path_abs (oe_wd e) workspace) of
           None \<Rightarrow> Inl (OtherFileError ''failed to open workspace'')
         | Some base \<Rightarrow>
             (case get_safe_rel_path workspace p of
                Inl err \<Rightarrow> Inl (OtherFileError err)
              | Inr rel \<Rightarrow>
                  (case look (path_join (path_abs (oe_wd e) workspace) rel) of
                     None \<Rightarrow> Inl (OtherFileError ''bad path'')
                   | Some l \<Rightarrow> if beneath base l then Inr l else Inl (AccessDenied ''path escapes from parent'')))))"

fun fs_location :: "file_system \<Rightarrow> os_env \<Rightarrow> (string \<Rightarrow> string option) \<Rightarrow> string \<Rightarrow> file_error + string" where
  "fs_location HostFs e look p = host_location e look p"
| "fs_location (SandboxFs ws) e look p = sandbox_location ws e look p"
| "fs_location (WhitelistFs ws matches) e look p = (if matches p then host_location e look p else sandbox_location ws e look p)"

definition fs_read :: "file_system \<Rightarrow> os_env \<Rightarrow> disk \<Rightarrow> string \<Rightarrow> file_error + string" where
  "fs_read fs e d p =
     (case fs_location fs e (oe_follow e) p of
        Inl err \<Rightarrow> Inl err
      | Inr l \<Rightarrow> (case mget d l of None \<Rightarrow> Inl FileNotFound | Some c \<Rightarrow> Inr c))"


section \<open>The tools\<close>

text \<open>\<open>verb\<close>: what was attempted; the operating system's own words, which the code appends, are left out.\<close>

fun error_text :: "string \<Rightarrow> file_error \<Rightarrow> string" where
  "error_text verb FileNotFound = ''failed to '' @ verb @ '' file: file not found''"
| "error_text verb (AccessDenied e) = ''failed to '' @ verb @ '' file: access denied: '' @ e"
| "error_text verb (OtherFileError e) = e"


text \<open>\<open>strings.Count\<close>: occurrences that do not overlap; the empty text occurs once more than there are characters.\<close>

function count_text :: "string \<Rightarrow> string \<Rightarrow> nat" where
  "count_text t s =
     (if t = [] then Suc (length (runes s))
      else if s = [] then 0
      else if prefix t s then Suc (count_text t (drop (length t) s))
      else count_text t (tl s))"
  by pat_completeness auto
termination by (relation "measure (\<lambda>(t, s). length s)") auto

declare count_text.simps [simp del]

fun replace_first :: "string \<Rightarrow> string \<Rightarrow> string \<Rightarrow> string" where
  "replace_first old new [] = (if old = [] then new else [])"
| "replace_first old new (c # s) =
     (if prefix old (c # s) then new @ drop (length old) (c # s) else c # replace_first old new s)"

definition replace_edit_content :: "string \<Rightarrow> string \<Rightarrow> string \<Rightarrow> string + string" where
  "replace_edit_content content old new =
     (if \<not> str_contains content old then Inl ''old_text not found in file. Make sure it matches exactly''
      else if count_text old content > 1
      then Inl (''old_text appears '' @ show_nat (count_text old content) @ '' times. Please provide more context to make it unique'')
      else Inr (replace_first old new content))"





section \<open>Reading in pages\<close>

definition max_read_file_size :: int where "max_read_file_size = 64 * 1024"

fun digits_value :: "nat \<Rightarrow> string \<Rightarrow> nat option" where
  "digits_value acc [] = Some acc"
| "digits_value acc (c # s) = (if is_digit c then digits_value (10 * acc + (of_char c - 48)) s else None)"

definition parse_int64 :: "string \<Rightarrow> int option" where
  "parse_int64 s =
     (let (neg, t) = (case s of c # r \<Rightarrow> if c = CHR ''-'' then (True, r) else if c = CHR ''+'' then (False, r) else (False, s) | [] \<Rightarrow> (False, s)) in
      if t = [] then None
      else (case digits_value 0 t of
              None \<Rightarrow> None
            | Some n \<Rightarrow> (let v = (if neg then - int n else int n) in if - (2 ^ 63) \<le> v \<and> v < 2 ^ 63 then Some v else None)))"

text \<open>
  The bounds of \<open>int64\<close> are compared as floats, so \<open>2 ^ 63\<close> itself passes and is converted to the smallest
  integer (as on amd64).
\<close>

definition get_int64_arg :: "go_args \<Rightarrow> string \<Rightarrow> int \<Rightarrow> string + int" where
  "get_int64_arg args k missing =
     (case mget args k of
        None \<Rightarrow> Inr missing
      | Some (GoFloat v) \<Rightarrow>
          if v \<noteq> of_int \<lfloor>v\<rfloor> then Inl (k @ '' must be an integer'')
          else if v > 2 ^ 63 \<or> v < - (2 ^ 63) then Inl (k @ '' overflows int64'')
          else Inr (wrap64 \<lfloor>v\<rfloor>)
      | Some (GoInt i) \<Rightarrow> Inr i
      | Some (GoString s) \<Rightarrow> (case parse_int64 s of None \<Rightarrow> Inl (''invalid integer format for '' @ k @ '' parameter'') | Some i \<Rightarrow> Inr i)
      | Some _ \<Rightarrow> Inl (''unsupported type for '' @ k @ '' parameter''))"

text \<open>The files are regular: their size is known and they can be read from any position.\<close>

datatype read_outcome = ReadError string | NothingThere | Page nat string bool

definition read_file :: "file_system \<Rightarrow> os_env \<Rightarrow> int \<Rightarrow> disk \<Rightarrow> go_args \<Rightarrow> read_outcome" where
  "read_file fs env max_size d args =
     (case string_value args ''path'' of
        None \<Rightarrow> ReadError ''path is required''
      | Some p \<Rightarrow>
          (case get_int64_arg args ''offset'' 0 of
             Inl e \<Rightarrow> ReadError e
           | Inr offset \<Rightarrow>
               if offset < 0 then ReadError ''offset must be >= 0''
               else
                 (case get_int64_arg args ''length'' max_size of
                    Inl e \<Rightarrow> ReadError e
                  | Inr n \<Rightarrow>
                      if n \<le> 0 then ReadError ''length must be > 0''
                      else
                        (case fs_read fs env d p of
                           Inl e \<Rightarrow> ReadError (error_text ''open'' e)
                         | Inr content \<Rightarrow>
                             (let len = nat (min n max_size); rest = drop (nat offset) content in
                              if rest = [] then NothingThere else Page (nat offset) (take len rest) (length rest > len))))))"

definition new_read_file_size :: "int \<Rightarrow> int" where
  "new_read_file_size configured = (if configured \<le> 0 then max_read_file_size else configured)"



fun page_text :: "read_outcome \<Rightarrow> string" where
  "page_text (Page offset text again) = text"
| "page_text _ = []"

fun page_more :: "read_outcome \<Rightarrow> bool" where
  "page_more (Page offset text again) = again"
| "page_more _ = False"

section \<open>Listing\<close>

definition format_dir_entries :: "(string \<times> bool) list \<Rightarrow> tool_result" where
  "format_dir_entries entries =
     new_tool_result (concat (map (\<lambda>(name, dir). (if dir then ''DIR:  '' else ''FILE: '') @ name @ [newline]) entries))"

text \<open>\<open>entries\<close>: the directory at a location.\<close>

definition list_dir_tool :: "file_system \<Rightarrow> os_env \<Rightarrow> (string \<Rightarrow> string + (string \<times> bool) list) \<Rightarrow> go_args \<Rightarrow> tool_result" where
  "list_dir_tool fs env entries args =
     (let p = (case string_value args ''path'' of Some q \<Rightarrow> q | None \<Rightarrow> ''.'') in
      case fs_location fs env (oe_follow env) p of
        Inl e \<Rightarrow> error_result (''failed to read directory: '' @ error_text ''read'' e)
      | Inr l \<Rightarrow> (case entries l of Inl e \<Rightarrow> error_result (''failed to read directory: '' @ e) | Inr es \<Rightarrow> format_dir_entries es))"


section \<open>The workspace test\<close>

lemma within_prefix: "is_abs c \<Longrightarrow> is_abs w \<Longrightarrow> is_within_workspace c w \<longleftrightarrow> beneath w c"
  using local_rel [of "path_clean w" "path_clean c"]
  by (simp add: is_within_workspace_def beneath_def is_abs_clean clean_parts_clean)

lemma is_abs_append: "is_abs a \<Longrightarrow> a \<noteq> [] \<and> is_abs (a @ b)"
  by (auto simp: is_abs_def prefix_def)

lemma is_abs_path_abs: "is_abs wd \<Longrightarrow> is_abs (path_abs wd p)"
  using is_abs_append [of wd "slash # p"] by (simp add: path_abs_def path_join_def is_abs_clean)

lemma path_dir_abs: "is_abs p \<Longrightarrow> is_abs (path_dir p)"
proof -
  assume "is_abs p"
  then obtain r where p: "p = slash # r" by (auto simp: is_abs_def prefix_def)
  have "is_abs (rev (dropWhile (\<lambda>c. c \<noteq> slash) (rev r @ [slash])))" by (simp add: dropWhile_append3 is_abs_def)
  then show ?thesis by (simp add: path_dir_def p is_abs_clean)
qed

section \<open>Confinement of a sandbox\<close>






















definition plain_env :: "string \<Rightarrow> os_env" where
  "plain_env wd = \<lparr>oe_wd = wd, oe_follow = Some, oe_entry = Some, oe_ok = True\<rparr>"



section \<open>Where a sandbox looks\<close>

lemma safe_rel:
  assumes "is_abs ws" and "is_abs p" and "is_abs w" and "clean_parts w = clean_parts ws"
  shows "(case get_safe_rel_path ws p of Inl e \<Rightarrow> \<not> beneath ws p | Inr rel \<Rightarrow> beneath ws p \<and> path_join w rel = path_clean p)"
proof -
  have ne: "ws \<noteq> []" using assms(1) by (auto simp: is_abs_def)
  have b: "beneath ws p \<longleftrightarrow> (case path_rel ws (path_clean p) of None \<Rightarrow> False | Some r \<Rightarrow> local_path r)"
    using local_rel [OF assms(1) is_abs_clean [OF assms(2)]] assms by (simp add: beneath_def clean_parts_clean)
  have "path_join w rel = path_clean p" if "path_rel ws (path_clean p) = Some rel" "local_path rel" for rel
  proof -
    have "clean_parts (path_join w rel) = clean_parts p"
      using join_local [OF assms(3) that(2)] rel_parts [OF assms(1) is_abs_clean [OF assms(2)] that] assms by (simp add: clean_parts_clean)
    then show ?thesis using path_join_abs [OF assms(3), of rel] clean_abs [OF assms(2)] by simp
  qed
  then show ?thesis using b ne assms(2) by (auto simp: get_safe_rel_path_def Let_def is_abs_clean split: option.split)
qed

text \<open>
  Without links a sandbox opens exactly the paths below its workspace, each at the place it names: whatever dots an
  absolute path has, it leads there or is refused.
\<close>

theorem sandbox_exact:
  assumes "is_abs ws" and "is_abs p"
  shows "case sandbox_location ws (plain_env wd) Some p of Inl e \<Rightarrow> \<not> beneath ws p | Inr l \<Rightarrow> beneath ws p \<and> l = path_clean p"
proof -
  have ne: "ws \<noteq> []" and w: "path_abs wd ws = path_clean ws" using assms(1) by (auto simp: is_abs_def path_abs_def)
  have "beneath (path_clean ws) (path_clean p) \<longleftrightarrow> beneath ws p"
    using assms by (simp add: beneath_def is_abs_clean clean_parts_clean)
  then show ?thesis using safe_rel [OF assms is_abs_clean [OF assms(1)] clean_parts_clean [OF assms(1)]] ne
    by (auto simp: sandbox_location_def plain_env_def w split: sum.splits)
qed

theorem sandbox_exact_witness:
  "case sandbox_location ''/w'' (plain_env ''/'') Some ''/w/a/../../etc'' of Inl e \<Rightarrow> \<not> beneath ''/w'' ''/w/a/../../etc''
   | Inr l \<Rightarrow> beneath ''/w'' ''/w/a/../../etc'' \<and> l = path_clean ''/w/a/../../etc''"
  by (rule sandbox_exact) (simp_all add: is_abs_def)

section \<open>Pages\<close>

definition page_args :: "string \<Rightarrow> nat \<Rightarrow> nat \<Rightarrow> go_args" where
  "page_args p offset n = [(''path'', GoString p), (''offset'', GoFloat (of_nat offset)), (''length'', GoFloat (of_nat n))]"

lemma int_arg:
  assumes "int i < 2 ^ 53" and "mget args k = Some (GoFloat (of_nat i))"
  shows "get_int64_arg args k m = Inr (int i)"
proof -
  have "\<not> (of_nat i :: rat) > 2 ^ 63" using assms(1) by (simp add: not_less)
  then show ?thesis using assms by (simp add: get_int64_arg_def wrap64_id)
qed

lemma page_read:
  assumes "fs_read fs e d p = Inr content" and "0 < n" and "int n \<le> max_size" and "int offset < 2 ^ 53" and "int n < 2 ^ 53"
  shows "read_file fs e max_size d (page_args p offset n) =
    (if drop offset content = [] then NothingThere else Page offset (take n (drop offset content)) (n < length content - offset))"
  using assms int_arg [of offset "page_args p offset n" "''offset''"] int_arg [of n "page_args p offset n" "''length''"]
  by (simp add: read_file_def page_args_def string_value_def Let_def)

text \<open>
  Reading a file page by page gives the file: the pages of a fixed length, asked for one after the other, are together
  the beginning of the file, and each says that more is to come exactly as long as the end is not reached.
\<close>

theorem pages_reassemble:
  assumes "fs_read fs e d p = Inr content" and "0 < n" and "int n \<le> max_size" and "int (k * n) < 2 ^ 53"
  shows "concat (map (\<lambda>i. page_text (read_file fs e max_size d (page_args p (i * n) n))) [0..<k]) = take (k * n) content
    \<and> list_all (\<lambda>i. page_more (read_file fs e max_size d (page_args p (i * n) n)) = ((i + 1) * n < length content)) [0..<k]"
proof -
  have r: "read_file fs e max_size d (page_args p (i * n) n) =
      (if drop (i * n) content = [] then NothingThere else Page (i * n) (take n (drop (i * n) content)) (n < length content - i * n))"
    if "i < k" for i
  proof -
    have "i * n + n \<le> k * n" using that by (metis Suc_leI add.commute mult_Suc mult_le_mono1)
    then have "int (i * n) < 2 ^ 53" "int n < 2 ^ 53" using assms(4) by linarith+
    then show ?thesis by (rule page_read [OF assms(1-3)])
  qed
  have "concat (map (\<lambda>i. page_text (read_file fs e max_size d (page_args p (i * n) n))) [0..<j]) = take (j * n) content" if "j \<le> k" for j
    using that
  proof (induction j)
    case (Suc j)
    then show ?case using r [of j] by (simp add: add.commute [of n] take_add)
  qed simp
  moreover have "page_more (read_file fs e max_size d (page_args p (i * n) n)) = ((i + 1) * n < length content)" if "i < k" for i
    using r [OF that] by (auto simp: algebra_simps)
  ultimately show ?thesis by (auto simp: list_all_iff)
qed

theorem pages_reassemble_witness:
  "concat (map (\<lambda>i. page_text (read_file HostFs (plain_env ''/'') 64 [(''/f'', ''hello'')] (page_args ''/f'' (i * 2) 2))) [0..<3]) = take (3 * 2) ''hello''
    \<and> list_all (\<lambda>i. page_more (read_file HostFs (plain_env ''/'') 64 [(''/f'', ''hello'')] (page_args ''/f'' (i * 2) 2)) = ((i + 1) * 2 < length ''hello'')) [0..<3]"
proof (rule pages_reassemble)
  show "fs_read HostFs (plain_env ''/'') [(''/f'', ''hello'')] ''/f'' = Inr ''hello''" by code_simp
qed simp_all

section \<open>Edits\<close>

lemma count_pos: "t \<noteq> [] \<Longrightarrow> 0 < count_text t s \<longleftrightarrow> sublist t s"
proof (induction t s rule: count_text.induct)
  case (1 t s)
  show ?case
  proof (cases s)
    case (Cons c s')
    then show ?thesis using 1 by (subst count_text.simps) (auto simp: sublist_Cons_right)
  qed (use 1 in \<open>simp add: count_text.simps\<close>)
qed

definition occurs_twice :: "string \<Rightarrow> string \<Rightarrow> bool" where
  "occurs_twice t s \<longleftrightarrow> (\<exists>u v w. s = u @ t @ v @ t @ w)"

lemma twice_at_front: "t \<noteq> [] \<Longrightarrow> prefix t s \<Longrightarrow> occurs_twice t s \<longleftrightarrow> sublist t (drop (length t) s)"
proof
  assume "prefix t s" "occurs_twice t s"
  then obtain u v w where s: "prefix t s" "s = u @ t @ v @ t @ w" by (auto simp: occurs_twice_def)
  have "drop (length t) s = drop (length t) (u @ t @ v) @ t @ w" unfolding s(2) by simp
  then show "sublist t (drop (length t) s)" unfolding sublist_def by blast
next
  assume "prefix t s" "sublist t (drop (length t) s)"
  then obtain v w where "s = t @ v @ t @ w" by (auto simp: prefix_def sublist_def)
  then show "occurs_twice t s" unfolding occurs_twice_def by (intro exI [of _ "[]"] exI [of _ v] exI [of _ w]) simp
qed

lemma twice_later: "\<not> prefix t (c # s) \<Longrightarrow> occurs_twice t (c # s) \<longleftrightarrow> occurs_twice t s"
proof
  assume n: "\<not> prefix t (c # s)" and "occurs_twice t (c # s)"
  then obtain u v w where u: "c # s = u @ t @ v @ t @ w" by (auto simp: occurs_twice_def)
  with n obtain u' where "u = c # u'" by (cases u) auto
  with u show "occurs_twice t s" by (auto simp: occurs_twice_def)
next
  assume "occurs_twice t s"
  then obtain u v w where "s = u @ t @ v @ t @ w" by (auto simp: occurs_twice_def)
  then show "occurs_twice t (c # s)" unfolding occurs_twice_def
    by (intro exI [of _ "c # u"] exI [of _ v] exI [of _ w]) simp
qed

lemma count_twice: "t \<noteq> [] \<Longrightarrow> 1 < count_text t s \<longleftrightarrow> occurs_twice t s"
proof (induction t s rule: count_text.induct)
  case (1 t s)
  show ?case
  proof (cases s)
    case Nil
    then show ?thesis using 1 by (auto simp: count_text.simps occurs_twice_def)
  next
    case (Cons c s')
    show ?thesis
    proof (cases "prefix t s")
      case True
      have "count_text t s = Suc (count_text t (drop (length t) s))" using 1 Cons True by (subst count_text.simps) simp
      then show ?thesis using count_pos [OF "1.prems", of "drop (length t) s"] twice_at_front [OF "1.prems" True] by simp
    next
      case False
      have "count_text t s = count_text t s'" using 1 Cons False by (subst count_text.simps) simp
      then show ?thesis using 1 Cons False twice_later by simp
    qed
  qed
qed

lemma replace_occurrence: "old \<noteq> [] \<Longrightarrow> sublist old s \<Longrightarrow> \<exists>u v. s = u @ old @ v \<and> replace_first old new s = u @ new @ v"
proof (induction s)
  case (Cons c s)
  show ?case
  proof (cases "prefix old (c # s)")
    case True
    then show ?thesis by (auto simp: prefix_def intro: exI [of _ "[]"])
  next
    case False
    then have "sublist old s" using Cons.prems(2) by (simp add: sublist_Cons_right)
    then obtain u v where "s = u @ old @ v" "replace_first old new s = u @ new @ v" using Cons by blast
    then show ?thesis using False by (intro exI [of _ "c # u"] exI [of _ v]) simp
  qed
qed simp

text \<open>
  Editing replaces one occurrence and nothing else: it succeeds exactly if the old text occurs and does not occur
  twice without overlap, and then only the old text is replaced, in its place.
\<close>

theorem edit_replaces_one:
  "case replace_edit_content content (c # old) new of
     Inl e \<Rightarrow> (if str_contains content (c # old) then occurs_twice (c # old) content else True)
   | Inr content' \<Rightarrow> \<not> occurs_twice (c # old) content \<and> (\<exists>u v. content = u @ (c # old) @ v \<and> content' = u @ new @ v)"
  using count_twice [of "c # old" content] replace_occurrence [of "c # old" content new]
  by (auto simp: replace_edit_content_def)

text \<open>
  The old text need not be unique: occurrences that overlap are counted once, and the first is replaced.
\<close>

theorem overlapping_edit_accepted:
  "replace_edit_content ''xaaay'' ''aa'' ''b'' = Inr ''xbay'' \<and> ''xaaay'' = ''x'' @ ''aa'' @ ''ay'' \<and> ''xaaay'' = ''xa'' @ ''aa'' @ ''y''"
  by code_simp

section \<open>Allowed paths outside\<close>

text \<open>
  A pattern for paths outside the workspace opens the whole disk: it is matched against the path as it is written, so
  a directory that is allowed can be left again by dots. Here every path that begins with the allowed directory
  matches, and any absolute path is reached through it.
\<close>

theorem allowed_directory_escapes:
  assumes "plain_name name" and "is_abs target"
  shows "fs_location (build_fs ws True [\<lambda>p. prefix (''/'' @ name @ ''/'') p]) (plain_env wd) Some (''/'' @ name @ ''/..'' @ target)
    = Inr (path_clean target)"
proof -
  obtain t where t: "target = ''/'' @ t" using assms(2) by (auto simp: is_abs_def prefix_def)
  let ?p = "''/'' @ name @ ''/..'' @ target"
  have "split_on slash ?p = [] # name # ''..'' # split_on slash t"
    using assms(1) by (simp add: t plain_name_def split_on_join)
  then have "clean_parts ?p = clean_parts target"
    using assms(1) by (simp add: clean_parts_def t is_abs_def) (simp add: clean_push_def plain_name_def)
  then have "path_clean ?p = path_clean target" using assms(2) by (simp add: clean_eq is_abs_def)
  then show ?thesis by (simp add: build_fs_def host_location_def path_abs_def is_abs_def)
qed

theorem allowed_directory_escapes_witness:
  "fs_location (build_fs ''/w'' True [\<lambda>p. prefix (''/'' @ ''data'' @ ''/'') p]) (plain_env ''/'') Some (''/'' @ ''data'' @ ''/..'' @ ''/etc/passwd'')
    = Inr (path_clean ''/etc/passwd'')"
  by (rule allowed_directory_escapes) (simp_all add: plain_name_def is_abs_def)

section \<open>Validated paths\<close>

lemma first_existing_real: "first_existing links ps = RealPath r \<Longrightarrow> \<exists>x. links x = RealPath r"
  by (induction ps) (auto split: real_path.splits)

text \<open>
  A path that is validated for a restricted tool is below the workspace as it is written; if it exists it really
  is below the real workspace, and if it does not, then its nearest existing ancestor is, when there is one.
\<close>

theorem validated_path_inside:
  assumes "is_abs wd" and "validate_path wd links p ws True = Inr q"
    and "\<And>x r. links x = RealPath r \<Longrightarrow> is_abs r"
  shows "beneath (path_abs wd ws) q
    \<and> (case (case links q of NoSuchFile \<Rightarrow> resolve_existing_ancestor links (path_dir q) | r \<Rightarrow> r) of
         RealPath r \<Rightarrow> beneath (case links (path_abs wd ws) of RealPath w \<Rightarrow> w | _ \<Rightarrow> path_abs wd ws) r
       | NoSuchFile \<Rightarrow> True
       | BadPath \<Rightarrow> False)"
proof -
  let ?a = "path_abs wd ws"
  define a where "a = (if is_abs p then path_clean p else path_abs wd (path_join ?a p))"
  define w where "w = (case links ?a of RealPath w \<Rightarrow> w | _ \<Rightarrow> ?a)"
  have abs: "is_abs ?a" "is_abs a" "is_abs w"
    using assms(1) assms(3) is_abs_path_abs by (auto simp: a_def w_def is_abs_clean split: real_path.split)
  have e: "resolve_existing_ancestor links x = RealPath r \<Longrightarrow> is_abs r" for x r
    using assms(3) first_existing_real unfolding resolve_existing_ancestor_def by blast
  have v: "validate_path wd links p ws True =
      (if ws = [] then Inl ''workspace is not defined''
       else if \<not> is_within_workspace a ?a then Inl ''access denied: path is outside the workspace''
       else (case links a of
               RealPath r \<Rightarrow> if is_within_workspace r w then Inr a else Inl ''access denied: symlink resolves outside workspace''
             | NoSuchFile \<Rightarrow>
                 (case resolve_existing_ancestor links (path_dir a) of
                    RealPath r \<Rightarrow> if is_within_workspace r w then Inr a else Inl ''access denied: symlink resolves outside workspace''
                  | NoSuchFile \<Rightarrow> Inr a
                  | BadPath \<Rightarrow> Inl ''failed to resolve path'')
             | BadPath \<Rightarrow> Inl ''failed to resolve path''))"
    unfolding validate_path_def Let_def a_def w_def by (simp only: not_True_eq_False if_False)
  have q: "q = a" "is_within_workspace a ?a" using assms(2) unfolding v by (auto split: if_splits real_path.splits)
  have "case (case links a of NoSuchFile \<Rightarrow> resolve_existing_ancestor links (path_dir a) | r \<Rightarrow> r) of
      RealPath r \<Rightarrow> beneath w r | NoSuchFile \<Rightarrow> True | BadPath \<Rightarrow> False"
    using assms(2,3) e within_prefix abs(3) unfolding v by (auto split: if_splits real_path.splits)
  then show ?thesis using q within_prefix [OF abs(2,1)] unfolding q(1) w_def by blast
qed

definition plain_links :: "string \<Rightarrow> real_path" where
  "plain_links x = (if is_abs x then RealPath x else BadPath)"

theorem validated_path_inside_witness:
  "beneath (path_abs ''/'' ''/w'') ''/w/a''
    \<and> (case (case plain_links ''/w/a'' of NoSuchFile \<Rightarrow> resolve_existing_ancestor plain_links (path_dir ''/w/a'') | r \<Rightarrow> r) of
         RealPath r \<Rightarrow> beneath (case plain_links (path_abs ''/'' ''/w'') of RealPath w \<Rightarrow> w | _ \<Rightarrow> path_abs ''/'' ''/w'') r
       | NoSuchFile \<Rightarrow> True
       | BadPath \<Rightarrow> False)"
proof (rule validated_path_inside)
  show "validate_path ''/'' plain_links ''b/../a'' ''/w'' True = Inr ''/w/a''" by code_simp
qed (auto simp: is_abs_def plain_links_def split: if_splits)

end
