(* ===== verification/ExecGuard.thy ===== *)
theory ExecGuard
  imports FileTools RegexRuns AgentTurn
begin

text \<open>
  The tool that runs shell commands (\<open>pkg/tools/shell.go\<close>): the patterns of dangerous commands, the search for
  absolute paths in a command, the choice of its directory, and the text of its answer. The process itself is the
  environment: what it prints and how it ends. Custom patterns are compiled by an argument.
\<close>

section \<open>Patterns\<close>

abbreviation rwhite :: rx where "rwhite \<equiv> RChar White"

abbreviation rword :: "string \<Rightarrow> rx" where
  "rword w \<equiv> RSeq RBound (RSeq (rlits w) RBound)"

fun ralt_all :: "rx list \<Rightarrow> rx" where
  "ralt_all [] = REmpty"
| "ralt_all [r] = r"
| "ralt_all (r # q # rs) = RAlt r (ralt_all (q # rs))"

abbreviation ralts :: "string list \<Rightarrow> rx" where
  "ralts ws \<equiv> ralt_all (map rlits ws)"

fun rseqs :: "rx list \<Rightarrow> rx" where
  "rseqs [] = REmpty"
| "rseqs [r] = r"
| "rseqs (r # q # rs) = RSeq r (rseqs (q # rs))"

definition heredoc_pattern :: rx where
  "heredoc_pattern = rseqs [rlits ''<<'', RStar True rwhite, rlits ''EOF'']"

text \<open>Removing, formatting, stopping the machine, and what may be hidden from the patterns by the shell.\<close>

definition destructive_patterns :: "rx list" where
  "destructive_patterns =
     [rseqs [RBound, rlits ''rm'', rplus True rwhite, rlits ''-'', RChar (OneOf ''rf''), ropt (RChar (OneOf ''rf'')), RBound],
      rseqs [RBound, rlits ''del'', rplus True rwhite, rlits ''/'', RChar (OneOf ''fq''), RBound],
      rseqs [RBound, rlits ''rmdir'', rplus True rwhite, rlits ''/s'', RBound],
      rseqs [RBound, ralts [''format'', ''mkfs'', ''diskpart''], RBound, rwhite],
      rseqs [RBound, rlits ''dd'', rplus True rwhite, rlits ''if=''],
      rseqs [rlits ''>'', RStar True rwhite, rlits ''/dev/'',
        ralt_all
          (map (\<lambda>d. RSeq (rlits d) (RChar (Range CHR ''a'' CHR ''z''))) [''sd'', ''hd'', ''vd'', ''xvd'']
           @ map (\<lambda>d. RSeq (rlits d) (RChar Digit)) [''nvme'', ''mmcblk'', ''loop'', ''dm-'', ''md'', ''sr'', ''nbd''])],
      rseqs [RBound, ralts [''shutdown'', ''reboot'', ''poweroff''], RBound],
      rseqs [rlits '':()'', RStar True rwhite, rlits ''{'', RStar True (RChar AnyChar), rlits ''};'', RStar True rwhite, rlits '':'']]"

text \<open>The back quote has the code 96.\<close>

definition shell_patterns :: "rx list" where
  "shell_patterns =
     [rseqs [rlits ''$('', rplus True (RNone (Lit CHR '')'')), rlits '')''],
      rseqs [rlits ''${'', rplus True (RNone (Lit CHR ''}'')), rlits ''}''],
      rseqs [RChar (Lit CHR 0x60), rplus True (RNone (Lit CHR 0x60)), RChar (Lit CHR 0x60)],
      rseqs [rlits ''|'', RStar True rwhite, rlits ''sh'', RBound],
      rseqs [rlits ''|'', RStar True rwhite, rlits ''bash'', RBound],
      rseqs [rlits '';'', RStar True rwhite, rlits ''rm'', rplus True rwhite, rlits ''-'', RChar (OneOf ''rf'')],
      rseqs [rlits ''&&'', RStar True rwhite, rlits ''rm'', rplus True rwhite, rlits ''-'', RChar (OneOf ''rf'')],
      rseqs [rlits ''||'', RStar True rwhite, rlits ''rm'', rplus True rwhite, rlits ''-'', RChar (OneOf ''rf'')],
      heredoc_pattern]
     @ map (\<lambda>w. rseqs [rlits ''$('', RStar True rwhite, rlits w, rplus True rwhite]) [''cat'', ''curl'', ''wget'', ''which'']"

definition admin_patterns :: "rx list" where
  "admin_patterns =
     [rword ''sudo'',
      rseqs [RBound, rlits ''chmod'', rplus True rwhite, RChar (Range CHR ''0'' CHR ''7''), RChar (Range CHR ''0'' CHR ''7''),
             RChar (Range CHR ''0'' CHR ''7''), ropt (RChar (Range CHR ''0'' CHR ''7'')), RBound],
      rword ''chown'', rword ''pkill'', rword ''killall'', rword ''kill'',
      rseqs [rword ''curl'', RStar True (RChar AnyChar), rlits ''|'', RStar True rwhite, ralts [''sh'', ''bash'']],
      rseqs [rword ''wget'', RStar True (RChar AnyChar), rlits ''|'', RStar True rwhite, ralts [''sh'', ''bash'']],
      rseqs [RBound, rlits ''npm'', rplus True rwhite, rlits ''install'', rplus True rwhite, rlits ''-g'', RBound],
      rseqs [RBound, rlits ''pip'', rplus True rwhite, rlits ''install'', rplus True rwhite, rlits ''--user'', RBound],
      rseqs [RBound, rlits ''apt'', rplus True rwhite, ralts [''install'', ''remove'', ''purge''], RBound],
      rseqs [RBound, rlits ''yum'', rplus True rwhite, ralts [''install'', ''remove''], RBound],
      rseqs [RBound, rlits ''dnf'', rplus True rwhite, ralts [''install'', ''remove''], RBound],
      rseqs [RBound, rlits ''docker'', rplus True rwhite, rlits ''run'', RBound],
      rseqs [RBound, rlits ''docker'', rplus True rwhite, rlits ''exec'', RBound],
      rseqs [RBound, rlits ''git'', rplus True rwhite, rlits ''push'', RBound],
      rseqs [RBound, rlits ''git'', rplus True rwhite, rlits ''force'', RBound],
      rseqs [rword ''ssh'', RStar True (RChar AnyChar), rlits ''@''],
      rword ''eval'',
      rseqs [RBound, rlits ''source'', rplus True rwhite, RStar True (RChar AnyChar), rlits ''.sh'', RBound]]"

definition default_deny_patterns :: "rx list" where
  "default_deny_patterns = destructive_patterns @ shell_patterns @ admin_patterns"

text \<open>A path: \<open>[A-Za-z]:\\\<close> and then no backslash and no quote, or \<open>/\<close> and then no white space and no quote.\<close>

abbreviation backslash :: char where "backslash \<equiv> CHR 0x5C"

definition path_end :: "char \<Rightarrow> bool" where
  "path_end c \<longleftrightarrow> c \<in> {CHR '' '', CHR 0x09, CHR 0x0A, CHR 0x0C, CHR 0x0D, CHR 0x22, CHR 0x27}"

definition unix_path_pattern :: rx where
  "unix_path_pattern =
     RSeq (RChar (Lit slash)) (rplus True (RNone (OneOf [CHR '' '', CHR 0x09, CHR 0x0A, CHR 0x0C, CHR 0x0D, CHR 0x22, CHR 0x27])))"

definition windows_path_pattern :: rx where
  "windows_path_pattern =
     rseqs [RAlt (RChar (Range CHR ''A'' CHR ''Z'')) (RChar (Range CHR ''a'' CHR ''z'')), RChar (Lit CHR '':''),
            RChar (Lit backslash), rplus True (RNone (OneOf [backslash, CHR 0x22, CHR 0x27]))]"

definition absolute_path_pattern :: rx where
  "absolute_path_pattern = RAlt windows_path_pattern unix_path_pattern"

definition safe_paths :: "string list" where
  "safe_paths = [''/dev/null'', ''/dev/zero'', ''/dev/random'', ''/dev/urandom'', ''/dev/stdin'', ''/dev/stdout'', ''/dev/stderr'']"

definition web_schemes :: "string list" where
  "web_schemes = [''http:'', ''https:'', ''ftp:'', ''ftps:'', ''sftp:'', ''ssh:'', ''git:'']"

section \<open>The tool and its guard\<close>

text \<open>The timeout is in nanoseconds.\<close>

record exec_tool =
  et_working_dir :: string
  et_timeout :: int
  et_deny :: "rx list"
  et_allow :: "rx list"
  et_custom_allow :: "rx list"
  et_restrict :: bool
  et_allow_remote :: bool

record exec_config =
  xc_enable_deny :: bool
  xc_allow_remote :: bool
  xc_custom_deny :: "string list"
  xc_custom_allow :: "string list"
  xc_timeout_seconds :: int

fun compile_all :: "(string \<Rightarrow> rx option) \<Rightarrow> string \<Rightarrow> string list \<Rightarrow> string + rx list" where
  "compile_all compile kind [] = Inr []"
| "compile_all compile kind (p # ps) =
     (case compile p of
        None \<Rightarrow> Inl (''invalid '' @ kind @ '' pattern'')
      | Some r \<Rightarrow> (case compile_all compile kind ps of Inl e \<Rightarrow> Inl e | Inr rs \<Rightarrow> Inr (r # rs)))"

definition new_exec_tool :: "(string \<Rightarrow> rx option) \<Rightarrow> string \<Rightarrow> bool \<Rightarrow> exec_config option \<Rightarrow> string + exec_tool" where
  "new_exec_tool compile working_dir restrict config =
     (let tool = (\<lambda>deny custom remote timeout.
            \<lparr>et_working_dir = working_dir, et_timeout = timeout, et_deny = deny, et_allow = [], et_custom_allow = custom,
             et_restrict = restrict, et_allow_remote = remote\<rparr>)
      in case config of
           None \<Rightarrow> Inr (tool default_deny_patterns [] True (60 * 10 ^ 9))
         | Some c \<Rightarrow>
             (case (if xc_enable_deny c then
                      (case compile_all compile ''custom deny'' (xc_custom_deny c) of
                         Inl e \<Rightarrow> Inl e
                       | Inr rs \<Rightarrow> Inr (default_deny_patterns @ rs))
                    else Inr []) of
                Inl e \<Rightarrow> Inl e
              | Inr deny \<Rightarrow>
                  (case compile_all compile ''custom allow'' (xc_custom_allow c) of
                     Inl e \<Rightarrow> Inl e
                   | Inr custom \<Rightarrow>
                       Inr (tool deny custom (xc_allow_remote c)
                              (if xc_timeout_seconds c > 0 then wrap64 (xc_timeout_seconds c * 10 ^ 9) else 60 * 10 ^ 9)))))"

definition set_timeout :: "int \<Rightarrow> exec_tool \<Rightarrow> exec_tool" where
  "set_timeout t tool = tool\<lparr>et_timeout := t\<rparr>"

definition set_restrict_to_workspace :: "bool \<Rightarrow> exec_tool \<Rightarrow> exec_tool" where
  "set_restrict_to_workspace b tool = tool\<lparr>et_restrict := b\<rparr>"

text \<open>With an invalid pattern the tool keeps the patterns before it.\<close>

fun compiled_prefix :: "(string \<Rightarrow> rx option) \<Rightarrow> string list \<Rightarrow> rx list" where
  "compiled_prefix compile [] = []"
| "compiled_prefix compile (p # ps) = (case compile p of None \<Rightarrow> [] | Some r \<Rightarrow> r # compiled_prefix compile ps)"

definition set_allow_patterns :: "(string \<Rightarrow> rx option) \<Rightarrow> string list \<Rightarrow> exec_tool \<Rightarrow> exec_tool \<times> string option" where
  "set_allow_patterns compile ps tool =
     (tool\<lparr>et_allow := compiled_prefix compile ps\<rparr>,
      case compile_all compile ''allow'' ps of Inl e \<Rightarrow> Some e | Inr _ \<Rightarrow> None)"

definition rx_matches :: "rx \<Rightarrow> string \<Rightarrow> bool" where
  "rx_matches r s \<longleftrightarrow> find_rx r None s \<noteq> None"

text \<open>The matches with what stands before them in the whole text.\<close>

fun located :: "string \<Rightarrow> rx_match list \<Rightarrow> (string \<times> string) list" where
  "located seen [] = []"
| "located seen (m # found) = (seen @ rm_before m, rm_text m) # located (seen @ rm_before m @ rm_text m) found"

definition path_passes :: "string \<Rightarrow> string \<Rightarrow> string \<times> string \<Rightarrow> bool" where
  "path_passes wd cwd_path loc =
     (case loc of (seen, raw) \<Rightarrow>
        prefix ''//'' raw \<and> seen \<noteq> [] \<and> list_ex (\<lambda>scheme. suffix scheme seen) web_schemes
        \<or> (let p = path_abs wd raw in
            p \<in> set safe_paths \<or> (case path_rel cwd_path p of None \<Rightarrow> True | Some rel \<Rightarrow> \<not> prefix ''..'' rel)))"

text \<open>The empty text: the command may run.\<close>

definition guard_command :: "exec_tool \<Rightarrow> string \<Rightarrow> string \<Rightarrow> string \<Rightarrow> string" where
  "guard_command tool wd command cwd =
     (let cmd = trim_space command; lower = to_lower cmd in
      if \<not> list_ex (\<lambda>r. rx_matches r lower) (et_custom_allow tool) \<and> list_ex (\<lambda>r. rx_matches r lower) (et_deny tool)
      then ''Command blocked by safety guard (dangerous pattern detected)''
      else if et_allow tool \<noteq> [] \<and> \<not> list_ex (\<lambda>r. rx_matches r lower) (et_allow tool)
      then ''Command blocked by safety guard (not in allowlist)''
      else if et_restrict tool then
        (if str_contains cmd (''..'' @ [backslash]) \<or> str_contains cmd ''../''
         then ''Command blocked by safety guard (path traversal detected)''
         else if list_all (path_passes wd (path_abs wd cwd)) (located [] (find_all_rx absolute_path_pattern None cmd)) then []
         else ''Command blocked by safety guard (path outside working dir)'')
      else [])"

section \<open>Execution\<close>

text \<open>\<open>real_ws\<close>: the workspace with its links resolved, or as it is.\<close>

definition real_workspace :: "string \<Rightarrow> (string \<Rightarrow> real_path) \<Rightarrow> string \<Rightarrow> string" where
  "real_workspace wd links workspace =
     (case links (path_abs wd workspace) of
        RealPath r \<Rightarrow> if r = [] then path_abs wd workspace else r
      | _ \<Rightarrow> path_abs wd workspace)"

text \<open>The directory of the command: \<open>wd\<close> is the working directory of the process.\<close>

definition exec_dir :: "exec_tool \<Rightarrow> string \<Rightarrow> (string \<Rightarrow> real_path) \<Rightarrow> go_args \<Rightarrow> string + string" where
  "exec_dir tool wd links args =
     (let asked = string_or_empty args ''working_dir'';
          cwd = (if asked = [] then Inr (et_working_dir tool)
                 else if et_restrict tool \<and> et_working_dir tool \<noteq> [] then validate_path wd links asked (et_working_dir tool) True
                 else Inr asked)
      in case cwd of
           Inl e \<Rightarrow> Inl (''Command blocked by safety guard ('' @ e @ '')'')
         | Inr d \<Rightarrow> Inr (if d = [] then wd else d))"

definition recheck_dir :: "exec_tool \<Rightarrow> string \<Rightarrow> (string \<Rightarrow> real_path) \<Rightarrow> string \<Rightarrow> string + string" where
  "recheck_dir tool wd links cwd =
     (if et_restrict tool \<and> et_working_dir tool \<noteq> [] \<and> cwd \<noteq> et_working_dir tool then
        (case links cwd of
           RealPath r \<Rightarrow>
             (case path_rel (real_workspace wd links (et_working_dir tool)) r of
                Some rel \<Rightarrow>
                  if local_path rel then Inr r else Inl ''Command blocked by safety guard (working directory escaped workspace)''
              | None \<Rightarrow> Inl ''Command blocked by safety guard (working directory escaped workspace)'')
         | _ \<Rightarrow> Inl ''Command blocked by safety guard (path resolution failed)'')
      else Inr cwd)"

text \<open>What is checked before a command starts: the command and its directory, or the refusal. Links may change in between.\<close>

definition exec_start ::
  "exec_tool \<Rightarrow> string \<Rightarrow> (string \<Rightarrow> real_path) \<Rightarrow> (string \<Rightarrow> real_path) \<Rightarrow> string \<Rightarrow> go_args \<Rightarrow> string + string \<times> string" where
  "exec_start tool wd links1 links2 ctx_channel args =
     (case string_value args ''command'' of
        None \<Rightarrow> Inl ''command is required''
      | Some command \<Rightarrow>
          (let channel = trim_space (if ctx_channel = [] then string_or_empty args ''__channel'' else ctx_channel) in
           if \<not> et_allow_remote tool \<and> (channel = [] \<or> \<not> is_internal_channel channel)
           then Inl ''exec is restricted to internal channels''
           else
             (case exec_dir tool wd links1 args of
                Inl e \<Rightarrow> Inl e
              | Inr cwd \<Rightarrow>
                  (let blocked = guard_command tool wd command cwd in
                   if blocked \<noteq> [] then Inl blocked
                   else (case recheck_dir tool wd links2 cwd of Inl e \<Rightarrow> Inl e | Inr d \<Rightarrow> Inr (command, d))))))"

datatype exec_end = ExitedWell | ExitedBadly string | TimedOut string

datatype exec_run = NotStarted string | Ran string string exec_end

definition max_exec_output :: nat where "max_exec_output = 10000"

definition cut_output :: "string \<Rightarrow> string" where
  "cut_output s =
     (if length s > max_exec_output
      then take max_exec_output s @ newline # ''... (truncated, '' @ show_nat (length s - max_exec_output) @ '' more chars)''
      else s)"

definition exec_answer :: "string \<Rightarrow> string \<Rightarrow> exec_end \<Rightarrow> tool_result" where
  "exec_answer out err how =
     (let both = out @ (if err = [] then [] else newline # ''STDERR:'' @ newline # err) in
      case how of
        TimedOut t \<Rightarrow> (error_result (''Command timed out after '' @ t))\<lparr>rs_for_user := ''Command timed out after '' @ t\<rparr>
      | ExitedBadly e \<Rightarrow>
          (let text = cut_output (both @ newline # ''Exit code: '' @ e) in (error_result text)\<lparr>rs_for_user := text\<rparr>)
      | ExitedWell \<Rightarrow> user_result (cut_output (if both = [] then ''(no output)'' else both))\<lparr>rs_for_llm := cut_output (if both = [] then ''(no output)'' else both)\<rparr>)"

definition exec_execute ::
  "exec_tool \<Rightarrow> string \<Rightarrow> (string \<Rightarrow> real_path) \<Rightarrow> (string \<Rightarrow> real_path) \<Rightarrow> string \<Rightarrow> (string \<Rightarrow> string \<Rightarrow> exec_run) \<Rightarrow> go_args
     \<Rightarrow> (string \<times> string) list \<times> tool_result" where
  "exec_execute tool wd links1 links2 ctx_channel run args =
     (case exec_start tool wd links1 links2 ctx_channel args of
        Inl e \<Rightarrow> ([], error_result e)
      | Inr (command, d) \<Rightarrow>
          ([(command, d)],
           case run command d of
             NotStarted e \<Rightarrow> error_result (''failed to start command: '' @ e)
           | Ran out err how \<Rightarrow> exec_answer out err how))"

section \<open>The search for paths\<close>

lemma eat_nil: "eat p (prev, [], cap) = []"
  and eat_cons: "eat p (prev, x # xs, cap) = (if p x then [(Some x, xs, cap)] else [])"
  by (simp_all add: eat_def)

lemma greedy_star: "length s \<le> n \<Longrightarrow> \<exists>q sts. repeat_runs (eat p) True n (prev, s, cap) = (q, dropWhile p s, cap) # sts"
proof (induction n arbitrary: prev s)
  case (Suc n)
  show ?case
  proof (cases s)
    case (Cons x xs)
    show ?thesis
    proof (cases "p x")
      case True
      then obtain q sts where "repeat_runs (eat p) True n (Some x, xs, cap) = (q, dropWhile p xs, cap) # sts"
        using Suc.IH [of xs "Some x"] Suc.prems Cons by auto
      then show ?thesis using Cons True by (simp add: eat_cons)
    qed (simp add: Cons eat_cons)
  qed (simp add: eat_nil)
qed simp

text \<open>
  The paths of a command without backslashes: each slash that does not end a word starts one, which ends with
  the word.
\<close>

function slash_words :: "string \<Rightarrow> string \<Rightarrow> (string \<times> string) list" where
  "slash_words seen [] = []"
| "slash_words seen (c # s) =
     (if c = slash \<and> s \<noteq> [] \<and> \<not> path_end (hd s)
      then (seen, c # takeWhile (\<lambda>x. \<not> path_end x) s)
             # slash_words (seen @ c # takeWhile (\<lambda>x. \<not> path_end x) s) (dropWhile (\<lambda>x. \<not> path_end x) s)
      else slash_words (seen @ [c]) s)"
  by pat_completeness auto
termination by (relation "measure (\<lambda>(seen, s). length s)") (auto simp: le_imp_less_Suc length_dropWhile_le)

lemma not_end:
  "(\<lambda>x. \<not> class_matches (OneOf [CHR '' '', CHR 0x09, CHR 0x0A, CHR 0x0C, CHR 0x0D, CHR 0x22, CHR 0x27]) x) = (\<lambda>x. \<not> path_end x)"
  by (simp add: path_end_def)

lemma runs_not: "runs (RNone c) = eat (\<lambda>x. \<not> class_matches c x)"
  by (rule ext) simp

lemma windows_needs_backslash: "backslash \<notin> set s \<Longrightarrow> runs windows_path_pattern (prev, s, cap) = []"
  by (cases s; cases "tl s"; cases "tl (tl s)") (auto simp: windows_path_pattern_def eat_def)

lemma take_front: "s = a @ b \<Longrightarrow> take (length s - length b) s = a"
  by simp

lemma match_unix:
  assumes "backslash \<notin> set s"
  shows "match_at absolute_path_pattern prev s =
    (case s of
       c # x # t \<Rightarrow>
         if c = slash \<and> \<not> path_end x
         then Some \<lparr>rm_before = [], rm_text = slash # takeWhile (\<lambda>y. \<not> path_end y) (x # t), rm_group = None,
                    rm_rest = dropWhile (\<lambda>y. \<not> path_end y) (x # t)\<rparr>
         else None
     | _ \<Rightarrow> None)"
proof -
  have runs: "runs absolute_path_pattern (prev, s, None) = runs unix_path_pattern (prev, s, None)"
    using windows_needs_backslash [OF assms] by (simp add: absolute_path_pattern_def)
  show ?thesis
  proof (cases s)
    case (Cons c r)
    show ?thesis
    proof (cases r)
      case (Cons x t)
      show ?thesis
      proof (cases "c = slash \<and> \<not> path_end x")
        case True
        obtain q sts where g: "repeat_runs (eat (\<lambda>y. \<not> path_end y)) True (length t) (Some x, t, None) = (q, dropWhile (\<lambda>y. \<not> path_end y) t, None) # sts"
          using greedy_star [of t "length t"] by blast
        have r1: "runs unix_path_pattern (prev, s, None) = (q, dropWhile (\<lambda>y. \<not> path_end y) t, None) # sts"
          using True \<open>s = c # r\<close> Cons g by (simp add: unix_path_pattern_def eat_cons runs_not not_end del: class_matches.simps(2))
        have "take (length s - length (dropWhile (\<lambda>y. \<not> path_end y) t)) s = slash # x # takeWhile (\<lambda>y. \<not> path_end y) t"
          using True \<open>s = c # r\<close> Cons by (intro take_front) simp
        then show ?thesis using True \<open>s = c # r\<close> Cons r1 runs by (simp add: match_at_def)
      next
        case False
        then have "runs unix_path_pattern (prev, s, None) = []"
          using \<open>s = c # r\<close> Cons by (auto simp: unix_path_pattern_def eat_cons runs_not not_end simp del: class_matches.simps(2))
        then show ?thesis using False \<open>s = c # r\<close> Cons runs by (auto simp: match_at_def)
      qed
    qed (use runs Cons in \<open>simp add: match_at_def unix_path_pattern_def eat_cons eat_nil\<close>)
  qed (use runs in \<open>simp add: match_at_def unix_path_pattern_def eat_nil\<close>)
qed

lemma find_unix:
  "backslash \<notin> set s \<Longrightarrow>
     (case find_rx absolute_path_pattern prev s of
        None \<Rightarrow> slash_words seen s = []
      | Some m \<Rightarrow> slash_words seen s = (seen @ rm_before m, rm_text m) # slash_words (seen @ rm_before m @ rm_text m) (rm_rest m)
          \<and> rm_text m \<noteq> [])"
proof (induction s arbitrary: prev seen)
  case (Cons c s)
  show ?case
  proof (cases "match_at absolute_path_pattern prev (c # s)")
    case None
    then have n: "\<not> (c = slash \<and> s \<noteq> [] \<and> \<not> path_end (hd s))"
      using match_unix [OF Cons.prems, of prev] by (auto split: list.splits if_splits)
    show ?thesis
      using Cons.IH [of "seen @ [c]" "Some c"] Cons.prems None n by (auto split: option.splits)
  next
    case (Some m)
    then show ?thesis using match_unix [OF Cons.prems, of prev] by (auto split: list.splits if_splits)
  qed
qed (use match_unix [of "[]"] in simp)

lemma located_words:
  "backslash \<notin> set s \<Longrightarrow> located seen (find_all_rx absolute_path_pattern prev s) = slash_words seen s"
proof (induction "length s" arbitrary: s prev seen rule: less_induct)
  case less
  show ?case
  proof (cases "find_rx absolute_path_pattern prev s")
    case None
    then show ?thesis using find_unix [OF less.prems, of seen prev] by (subst find_all_rx.simps) simp
  next
    case (Some m)
    have p: "s = rm_before m @ rm_text m @ rm_rest m" by (rule find_rx_parts [OF Some])
    have w: "slash_words seen s = (seen @ rm_before m, rm_text m) # slash_words (seen @ rm_before m @ rm_text m) (rm_rest m)" "rm_text m \<noteq> []"
      using find_unix [OF less.prems, of seen prev] Some by auto
    have short: "length (rm_rest m) < length s" using arg_cong [OF p, of length] w(2) by simp
    have "backslash \<notin> set (rm_rest m)" using less.prems p by (metis Un_iff set_append)
    then show ?thesis using less.hyps [OF short] Some short w by (subst find_all_rx.simps) simp
  qed
qed


section \<open>Commands that start\<close>







lemma rel_outside:
  assumes "is_abs base" and "is_abs p" and "case path_rel base p of None \<Rightarrow> True | Some rel \<Rightarrow> \<not> prefix ''..'' rel"
  shows "beneath base p"
proof (cases "clean_parts base = clean_parts p")
  case False
  obtain bs ts where r: "strip_common (clean_parts base) (clean_parts p) = (bs, ts)" by fastforce
  have "list_all plain_name bs"
    using strip_common_suffix [of "clean_parts base" "clean_parts p"] clean_parts_plain [OF assms(1)] r plain_suffix by fastforce
  then have h: "bs \<noteq> [] \<Longrightarrow> hd bs \<noteq> ''..''" by (cases bs) (auto simp: plain_name_def)
  have "bs = []"
  proof (rule ccontr)
    assume "bs \<noteq> []"
    then have "path_rel base p = Some (slash_path (''..'' # replicate (length bs - 1) ''..'' @ ts))"
      using False assms(1,2) r h by (cases bs) (simp_all add: path_rel_def clean_eq)
    then show False using assms(3) first_dots [of "replicate (length bs - 1) ''..'' @ ts"] by (auto simp: prefix_def)
  qed
  then show ?thesis using r assms(1,2) strip_common_prefix [of "clean_parts base" "clean_parts p"] by (simp add: beneath_def)
qed (use assms in \<open>simp add: beneath_def\<close>)











section \<open>What the guard misses\<close>

text \<open>A character that every match of a pattern contains.\<close>

fun rx_needs :: "char \<Rightarrow> rx \<Rightarrow> bool" where
  "rx_needs c (RChar k) = (case k of Lit d \<Rightarrow> c = d | _ \<Rightarrow> False)"
| "rx_needs c (RSeq a b) = (rx_needs c a \<or> rx_needs c b)"
| "rx_needs c (RAlt a b) = (rx_needs c a \<and> rx_needs c b)"
| "rx_needs c (RGroup a) = rx_needs c a"
| "rx_needs c _ = False"

lemma runs_need: "st' \<in> set (runs r st) \<Longrightarrow> rx_needs c r \<Longrightarrow> c \<in> set (fst (snd st))"
proof (induction r arbitrary: st st')
  case (RChar k)
  then show ?case by (auto simp: eat_def split: char_class.splits list.splits if_splits)
next
  case (RSeq a b)
  then obtain u where u: "u \<in> set (runs a st)" "st' \<in> set (runs b u)" by auto
  from RSeq.prems(2) have "rx_needs c a \<or> rx_needs c b" by simp
  then have "c \<in> set (fst (snd st)) \<or> c \<in> set (fst (snd u))" using RSeq.IH(1) [OF u(1)] RSeq.IH(2) [OF u(2)] by blast
  then show ?case using set_mono_suffix [OF runs_suffix [OF u(1)]] by blast
qed auto

lemma match_needs: "match_at r prev s = Some m \<Longrightarrow> rx_needs c r \<Longrightarrow> c \<in> set s"
  using runs_need [of _ r "(prev, s, None)" c] by (fastforce simp: match_at_def split: list.splits)

lemma find_needs: "find_rx r prev s = Some m \<Longrightarrow> rx_needs c r \<Longrightarrow> c \<in> set s"
proof (induction r prev s arbitrary: m rule: find_rx.induct)
  case (2 r prev x xs)
  then show ?case using match_needs [of r prev "x # xs" _ c] by (auto split: option.splits)
qed (use match_needs in fastforce)

lemma lower_no_capital: "c \<in> set (to_lower s) \<Longrightarrow> \<not> (CHR ''A'' \<le> c \<and> c \<le> CHR ''Z'')"
proof -
  assume "c \<in> set (to_lower s)"
  then obtain x where x: "c = lower_char x" by auto
  show ?thesis
  proof (cases "CHR ''A'' \<le> x \<and> x \<le> CHR ''Z''")
    case True
    then have "65 \<le> (of_char x :: nat)" "(of_char x :: nat) \<le> 90" by (simp_all add: less_eq_char_def)
    moreover have "(of_char c :: nat) = of_char x + 32" using x True calculation by (simp add: lower_char_def)
    ultimately show ?thesis by (simp add: less_eq_char_def)
  qed (auto simp: x lower_char_def)
qed

text \<open>
  The pattern for here documents is never found: it asks for capital letters, and the command is searched in lower case.
\<close>

theorem heredoc_never_matches: "\<not> rx_matches heredoc_pattern (to_lower s)"
proof
  assume "rx_matches heredoc_pattern (to_lower s)"
  then obtain m where "find_rx heredoc_pattern None (to_lower s) = Some m" by (auto simp: rx_matches_def)
  moreover have "rx_needs CHR ''E'' heredoc_pattern" by code_simp
  ultimately have "CHR ''E'' \<in> set (to_lower s)" by (rule find_needs)
  then show False using lower_no_capital by fastforce
qed

definition plain_exec_tool :: "string \<Rightarrow> exec_tool" where
  "plain_exec_tool dir =
     \<lparr>et_working_dir = dir, et_timeout = 0, et_deny = default_deny_patterns, et_allow = [], et_custom_allow = [],
      et_restrict = True, et_allow_remote = True\<rparr>"


text \<open>
  The default patterns do not stop the removal of everything: the pattern for \<open>rm\<close> knows one or two flags only, and a lone
  slash is not taken for a path.
\<close>

theorem everything_can_be_removed:
  "guard_command (plain_exec_tool ''/w'') ''/w'' (''cd /'' @ newline # ''rm -rfv home'') ''/w'' = []"
  by code_simp

text \<open>
  C37: A relative path into a directory is refused: its first slash counts as the start of an absolute path, so that \<open>cat notes/todo\<close>
  is checked as if it named \<open>/todo\<close>.
\<close>

theorem relative_path_refused:
  assumes "et_restrict tool" and "is_abs wd" and "trim_space (a @ slash # b) = a @ slash # b" and "slash \<notin> set a"
    and "plain_name b" and "list_all (\<lambda>x. \<not> path_end x) b" and "backslash \<notin> set (a @ b)"
    and "\<not> beneath (path_abs wd cwd) (slash # b)"
  shows "guard_command tool wd (a @ slash # b) cwd \<noteq> []"
proof
  assume g: "guard_command tool wd (a @ slash # b) cwd = []"
  let ?c = "a @ slash # b"
  have ns: "backslash \<notin> set ?c" using assms(7) by simp
  have skip: "slash \<notin> set u \<Longrightarrow> slash_words seen (u @ v) = slash_words (seen @ u) v" for seen u v
    by (induction u arbitrary: seen) auto
  have b: "b \<noteq> []" "takeWhile (\<lambda>x. \<not> path_end x) b = b" "\<not> path_end (hd b)" "hd b \<noteq> slash"
    using assms(5,6) by (cases b; auto simp: plain_name_def takeWhile_eq_all_conv list_all_iff)+
  have "slash_words [] ?c = slash_words a (slash # b)" using skip [OF assms(4), of "[]"] by simp
  then have "(a, slash # b) \<in> set (slash_words [] ?c)" using b by simp
  moreover have "list_all (path_passes wd (path_abs wd cwd)) (slash_words [] ?c)"
    using assms(1,3) g located_words [OF ns, of "[]" None] by (simp add: guard_command_def Let_def split: if_splits)
  ultimately have "path_passes wd (path_abs wd cwd) (a, slash # b)" by (auto simp: list_all_iff)
  moreover have "\<not> prefix ''//'' (slash # b)" using b by (cases b) auto
  moreover have abs: "is_abs (slash # b)" by (simp add: is_abs_def)
  moreover have parts: "clean_parts (slash # b) = [b]" using clean_parts_path [of "[b]"] assms(5) by simp
  moreover have "path_clean (slash # b) = slash # b" using clean_abs [OF abs] parts by simp
  moreover have "slash # b \<notin> set safe_paths" using assms(5) by (auto simp: safe_paths_def plain_name_def)
  ultimately show False using rel_outside [OF is_abs_path_abs [OF assms(2)] abs, of cwd] assms(8)
    by (auto simp: path_passes_def Let_def path_abs_def)
qed

theorem relative_path_refused_witness: "guard_command (plain_exec_tool ''/w'') ''/w'' (''cat notes'' @ slash # ''todo'') ''/w'' \<noteq> []"
proof (rule relative_path_refused)
  show "\<not> beneath (path_abs ''/w'' ''/w'') (slash # ''todo'')" by code_simp
  show "trim_space (''cat notes'' @ slash # ''todo'') = ''cat notes'' @ slash # ''todo''" by code_simp
qed (simp_all add: plain_exec_tool_def is_abs_def plain_name_def path_end_def)

text \<open>
  The caller may name the channel: without a channel in the context the argument \<open>__channel\<close> decides, so that the tool is
  not closed by a missing channel.
\<close>

theorem channel_from_arguments:
  "fst (exec_execute ((plain_exec_tool ''/w'')\<lparr>et_allow_remote := False\<rparr>) ''/w'' plain_links plain_links [] run
      [(''command'', GoString ''ls''), (''__channel'', GoString ''cli'')]) = [(''ls'', ''/w'')]"
  by code_simp

end
