(* ===== verification/Spec2Isabelle.thy ===== *)
theory Spec2Isabelle
  imports Zones Friends MhpHandler Transport LanSessions Blackboard PriorityQueue Fallback Cron Devices StoredTurns
    AgentLoop Summaries BackgroundRunner MessageSplit ModelRouter MessageBus ChannelQueues ExecGuard
begin

text \<open>
  Verification development for MoonHub, a Go agent runtime. Agents talk to language-model providers,
  to chat channels, to other agents and to paired client devices; the packages under \<open>src/pkg/\<close>
  keep the state of these conversations. The theories model the packages that decide something:
  who may read what, which message is genuine, which task runs next, which provider is asked, what
  survives a crash.

  \<^bold>\<open>Theories and sources.\<close>

  \<^item> \<open>Prelude\<close>: the representation of Go values shared by all theories. A Go map is an association list
    with distinct keys (\<open>gomap\<close>, \<open>mget\<close>, \<open>mput\<close>, \<open>mdel\<close>), in the order in which an iteration meets it;
    strings are lists of bytes; \<open>keep_last\<close> is the bounded tail of a slice. \<open>KeyedStore\<close>: the locale
    of a table with a put and a delete; \<open>BoundedLog\<close>: the locale of an append-only log that keeps its
    newest entries; \<open>Fifo\<close>: the locale of a queue inside a larger state, and the logs of a run;
    \<open>GoBase64\<close>, \<open>GoRegexp\<close>, \<open>GoRunes\<close>, \<open>GoFloat\<close>: the parts of the standard library that the sources
    use, the code points of a UTF-8 string, and floats with their rounding.
  \<^item> \<open>Zones\<close> (\<open>zones/zone.go\<close>), \<open>Friends\<close> (\<open>friends/\<close>), \<open>Envelope\<close> and \<open>MhpHandler\<close>
    (\<open>protocol/mhp/\<close>): the policy for shared data, the friend relation and its request life cycle, and
    the signed messages between agents. A handler delivery is one function of the clock, the envelope
    and the state; callbacks are the events it returns. Ed25519 and JSON are parameters.
  \<^item> \<open>Transport\<close> (\<open>transport/resolver.go\<close>, \<open>conn.go\<close>, \<open>manager.go\<close>) and \<open>LanSessions\<close>
    (\<open>social/session.go\<close>): how a remote agent is reached. Connections are shared objects: the manager
    holds addresses into a store of connections.
  \<^item> \<open>Intercom\<close>, \<open>Blackboard\<close> (\<open>delegation/intercom.go\<close>) and \<open>SessionQueue\<close> (\<open>delegation/queue.go\<close>):
    events between agents, proposals, and the serial execution of the tasks of one agent. The session
    queue is a step function over the goroutines of \<open>Submit\<close> and \<open>processQueue\<close>, one step per section
    between two synchronisation points (\<open>Clear\<close> drains one task per step); a history is any list of steps.
    \<open>PriorityQueue\<close> is the variant with two priorities, in the same style. \<open>SubAgents\<close>
    (\<open>delegation/store.go\<close>, \<open>lifecycle.go\<close>): the tables of the delegation database, where every call may
    fail, and the life cycle of sub-agents; \<open>Delegation\<close> (\<open>timeout_estimator.go\<close>, \<open>templates.go\<close>, the tools,
    \<open>agent/delegation_integration.go\<close>): which sub-agent gets a task, for how long, and how its result
    comes back; \<open>BackgroundRunner\<close> (\<open>background.go\<close>): the queue and the workers of background tasks, over a
    database in which an earlier process may have left tasks.
  \<^item> \<open>SessionKeys\<close>, \<open>Routes\<close> (\<open>routing/agent_id.go\<close>, \<open>session_key.go\<close>, \<open>route.go\<close>): which agent handles an
    inbound message, and the key of its conversation.
  \<^item> \<open>ModelRouter\<close> (\<open>routing/features.go\<close>, \<open>classifier.go\<close>, \<open>classifier_v2.go\<close>, \<open>tier.go\<close>, \<open>router.go\<close>, \<open>recorder.go\<close>,
    \<open>metrics.go\<close>): which model a message needs, and the record of these decisions. The exponential and the
    lookup in the model list are arguments.
  \<^item> \<open>Shield\<close>, \<open>Approval\<close> (\<open>shield/\<close>), over \<open>RegexRuns\<close>: the threat feed, its conditions, the decision on
    an event, and the requests for approval with the interleavings of callers, answers and clean-up.
  \<^item> \<open>AgentMessages\<close> (\<open>agent/context.go\<close>, \<open>providers/toolcall_utils.go\<close>), \<open>ToolRegistry\<close> (\<open>tools/registry.go\<close>,
    \<open>result.go\<close>, \<open>search_tool.go\<close>), \<open>AgentTurn\<close> and \<open>AgentLoop\<close> (\<open>agent/loop.go\<close>, \<open>registry.go\<close>,
    \<open>loop_media.go\<close>): the agent itself. A request is built from the history of a session; a turn asks the
    model, runs the tools it calls through the threat filter, and asks again, at most \<open>MaxIterations\<close>
    times; the loop takes messages from the bus, finds the agent of each, runs a command or a turn, and
    publishes the answer. The answers of models, tools and the compactor are the environment of a turn,
    its effects are the events it returns. A handler of the loop is given the agent it is routed to, not the others.
    The loop over the bus waits for its turns, also while they wait for an approval; the messages of browsers and LAN
    endpoints are handled in goroutines next to it. A turn is run over the in-memory session manager; \<open>StoredTurns\<close>
    replays its calls on the JSONL backend, which \<open>initSessionStore\<close> (\<open>agent/instance.go\<close>) chooses by default.
    \<open>Commands\<close> (\<open>commands/\<close>): the slash commands.
    \<open>MessageBus\<close> (\<open>bus/bus.go\<close>): the queues between the channels and the loop, as steps of the goroutines that
    publish, consume and close. \<open>MessageSplit\<close> (\<open>channels/split.go\<close>): the chunks of a long answer.
    \<open>AllowList\<close> (\<open>identity/\<close>, \<open>channels/base.go\<close>): whom a channel listens to. \<open>ChannelManager\<close> (\<open>channels/base.go\<close>, \<open>manager.go\<close>):
    what a channel does with a message, typing indicators, placeholders and retries. \<open>ChannelQueues\<close> (\<open>manager.go\<close>):
    the dispatchers and workers as interleaved steps, with the panics of closed Go channels.
    \<open>Summaries\<close> (\<open>agent/loop.go\<close>, \<open>compactor/tiers.go\<close>): what replaces the old messages of a session.
  \<^item> \<open>FileTools\<close> (\<open>tools/filesystem.go\<close>, \<open>edit.go\<close>): the tools that read and write files, on the host, in the
    workspace, or with allowed paths outside it; \<open>GoPath\<close> is package \<open>path/filepath\<close>. \<open>ExecGuard\<close> (\<open>tools/shell.go\<close>): what is
    checked before a shell command starts. The operating system is an argument of each access.
  \<^item> \<open>Cooldown\<close>, \<open>ErrorClassifier\<close>, \<open>ModelRef\<close>, \<open>Fallback\<close> (\<open>providers/\<close>): which provider is asked
    next and when a failing one rests. The answers of providers, the clock and cancellation are an
    environment given per attempt.
  \<^item> \<open>Cron\<close> (\<open>cron/service.go\<close>): scheduled jobs with the scheduler and worker goroutines, restarts and
    crashes as an inductive relation; the relation keeps the copies of jobs that callers hold, since the tool that adds a
    job writes its copy back with a second call.
  \<^item> \<open>Devices\<close> (\<open>devices/token.go\<close>, \<open>store.go\<close>, \<open>pairing.go\<close>): pairing codes and access tokens.
  \<^item> \<open>SessionStore\<close>, \<open>SessionManager\<close>, \<open>JsonlStore\<close> (\<open>session/\<close>, \<open>memory/jsonl.go\<close>): conversation
    histories and summaries. \<open>SessionStore\<close> is the contract of the Go interface, and both implementations are
    interpretations of it; they differ in what they keep of a message (the JSON text drops the fields tagged
    \<open>json:"-"\<close>) and in what setting the history of a session without messages does. A JSONL operation is the list of
    its disk writes, so a crash is a prefix.

  \<^bold>\<open>Conventions.\<close> A reading of the clock, a random value, and the success of a read or a write are
  arguments of the operation that meets them. Errors are values of a sum or an option. The 64-bit
  arithmetic is written out where it can wrap (\<open>Cron\<close>, \<open>Delegation\<close>); counters elsewhere are natural numbers or
  integers. No definition runs on fuel: every loop of the modelled code is structural or has a measure (a
  repetition of a regular expression counts the bytes that are left), except that of \<open>SplitMessage\<close>, which need not end and is a partial function with the value \<open>None\<close> then.

  \<^bold>\<open>What the lemmas show.\<close> Each theory proves an invariant of its state under every operation and
  then the properties, each marked with its claim. Those about every history quantify over lists of
  operations (or over a reachability relation); those that record a fault show a concrete or a
  parametric run of the code as it is.

  \<^bold>\<open>Not modelled.\<close> Packages that only move data (the chat channels, the HTTP clients of the providers,
  the web back end, the command line, hardware access, loggers, configuration files and their
  migration) are not modelled; the manifest lists them with the reason. Within the modelled packages
  the locks of Go are modelled by treating a locked section as one step.
\<close>

end
